(* ===== verification/Rel_Prelude.thy ===== *)
theory Rel_Prelude
  imports Main "HOL-Library.AList" "HOL-Library.Char_ord"
begin

text \<open>
  Shared vocabulary of the development.  A Go function that returns \<open>(T, error)\<close> is modelled
  by a function into a sum \<open>'e + 'a\<close>: \<open>Inl e\<close> is a non-nil error, \<open>Inr x\<close> a result with a
  nil error.  \<open>bindR\<close> is the idiom \<open>x, err := f(); if err != nil { return nil, err }\<close>,
  \<open>traverse\<close> a \<open>for\<close> loop over a slice that stops at the first error, \<open>forMap\<close> the same
  loop over a map.  A Go map is an association list with distinct keys: \<open>map_of\<close> reads it
  and \<open>AList.update\<close> writes it.
\<close>

named_theorems result_simps \<open>unfolding of result-valued programs\<close>
named_theorems consume_intros \<open>facts that a scanner leaves a suffix of its input\<close>

type_synonym 'a gomap = "(string \<times> 'a) list"

subsection \<open>Results\<close>

definition bindR :: "'e + 'a \<Rightarrow> ('a \<Rightarrow> 'e + 'b) \<Rightarrow> 'e + 'b" where
  "bindR m f = (case m of Inl e \<Rightarrow> Inl e | Inr x \<Rightarrow> f x)"

definition guardR :: "bool \<Rightarrow> 'e \<Rightarrow> 'e + unit" where
  "guardR b e = (if b then Inr () else Inl e)"

definition mapErr :: "('e \<Rightarrow> 'f) \<Rightarrow> 'e + 'a \<Rightarrow> 'f + 'a" where
  "mapErr h m = (case m of Inl e \<Rightarrow> Inl (h e) | Inr x \<Rightarrow> Inr x)"

definition isOk :: "'e + 'a \<Rightarrow> bool" where
  "isOk m = (case m of Inl _ \<Rightarrow> False | Inr _ \<Rightarrow> True)"

lemma bindR_simps [simp]:
  "bindR (Inl e) f = Inl e"
  "bindR (Inr x) f = f x"
  by (simp_all add: bindR_def)

lemma bindR_eq_Inr_iff: "bindR m f = Inr y \<longleftrightarrow> (\<exists>x. m = Inr x \<and> f x = Inr y)"
  by (cases m) simp_all

lemma bindR_eq_Inl_iff:
  "bindR m f = Inl e \<longleftrightarrow> m = Inl e \<or> (\<exists>x. m = Inr x \<and> f x = Inl e)"
  by (cases m) simp_all

lemma bindR_cong [fundef_cong]:
  "m = m' \<Longrightarrow> (\<And>x. m' = Inr x \<Longrightarrow> f x = g x) \<Longrightarrow> bindR m f = bindR m' g"
  by (cases m') simp_all

lemma guardR_simps [simp]:
  "guardR True e = Inr ()"
  "guardR False e = Inl e"
  by (simp_all add: guardR_def)

lemma guardR_eq_Inr_iff: "guardR b e = Inr u \<longleftrightarrow> b"
  by (cases b) simp_all

lemma guardR_eq_Inl_iff: "guardR b e = Inl e' \<longleftrightarrow> \<not> b \<and> e' = e"
  by (cases b) auto

lemma mapErr_simps [simp]:
  "mapErr h (Inl e) = Inl (h e)"
  "mapErr h (Inr x) = Inr x"
  by (simp_all add: mapErr_def)

lemma mapErr_eq_Inr_iff: "mapErr h m = Inr x \<longleftrightarrow> m = Inr x"
  by (cases m) simp_all

lemma isOk_simps [simp]: "isOk (Inr x)" "\<not> isOk (Inl e)"
  by (simp_all add: isOk_def)

lemma isOk_iff: "isOk m \<longleftrightarrow> (\<exists>x. m = Inr x)"
  by (cases m) simp_all

declare bindR_eq_Inr_iff [result_simps] guardR_eq_Inr_iff [result_simps]
  mapErr_eq_Inr_iff [result_simps]

subsection \<open>Loops over slices\<close>

fun traverse :: "('a \<Rightarrow> 'e + 'b) \<Rightarrow> 'a list \<Rightarrow> 'e + 'b list" where
  "traverse f [] = Inr []"
| "traverse f (x # xs) =
     bindR (f x) (\<lambda>y. bindR (traverse f xs) (\<lambda>ys. Inr (y # ys)))"

lemma traverse_cong [fundef_cong]:
  "xs = ys \<Longrightarrow> (\<And>x. x \<in> set ys \<Longrightarrow> f x = g x) \<Longrightarrow> traverse f xs = traverse g ys"
  by (induction ys arbitrary: xs) (auto intro!: bindR_cong)

lemma traverse_eq_Inr_iff:
  "traverse f xs = Inr ys \<longleftrightarrow> list_all2 (\<lambda>x y. f x = Inr y) xs ys"
  by (induction xs arbitrary: ys)
     (auto simp: bindR_eq_Inr_iff list_all2_Cons1)

lemma traverse_length: "traverse f xs = Inr ys \<Longrightarrow> length ys = length xs"
  by (auto simp: traverse_eq_Inr_iff dest: list_all2_lengthD)

lemma traverse_set:
  "traverse f xs = Inr ys \<Longrightarrow> y \<in> set ys \<Longrightarrow> \<exists>x \<in> set xs. f x = Inr y"
  by (induction xs arbitrary: ys) (auto simp: bindR_eq_Inr_iff)

lemma traverse_ok_iff: "isOk (traverse f xs) \<longleftrightarrow> (\<forall>x \<in> set xs. isOk (f x))"
proof (induction xs)
  case Nil
  then show ?case by simp
next
  case (Cons x xs)
  then show ?case
    by (cases "f x"; cases "traverse f xs") auto
qed

lemma traverse_Inl:
  "traverse f xs = Inl e \<Longrightarrow> \<exists>x \<in> set xs. f x = Inl e"
  by (induction xs) (auto simp: bindR_eq_Inl_iff)

lemma traverse_all:
  "traverse f xs = Inr ys \<Longrightarrow> (\<And>x y. x \<in> set xs \<Longrightarrow> f x = Inr y \<Longrightarrow> P y) \<Longrightarrow> list_all P ys"
  using traverse_set by (fastforce simp: list_all_iff)

lemma traverse_map_Inr: "(\<And>x. x \<in> set xs \<Longrightarrow> f x = Inr (g x)) \<Longrightarrow> traverse f xs = Inr (map g xs)"
  by (induction xs) simp_all

subsection \<open>Loops over maps\<close>

definition forMap :: "(string \<Rightarrow> 'a \<Rightarrow> 'e + 'b) \<Rightarrow> 'a gomap \<Rightarrow> 'e + 'b gomap" where
  "forMap f m = traverse (\<lambda>(k, v). bindR (f k v) (\<lambda>w. Inr (k, w))) m"

lemma forMap_Nil [simp]: "forMap f [] = Inr []"
  by (simp add: forMap_def)

lemma forMap_Cons [simp]:
  "forMap f ((k, v) # m) =
     bindR (f k v) (\<lambda>w. bindR (forMap f m) (\<lambda>m'. Inr ((k, w) # m')))"
  by (cases "f k v") (simp_all add: forMap_def)

lemma forMap_cong [fundef_cong]:
  assumes "m = m'" and "\<And>k v. (k, v) \<in> set m' \<Longrightarrow> f k v = g k v"
  shows "forMap f m = forMap g m'"
  unfolding forMap_def using assms by (intro traverse_cong) auto

lemma forMap_keys: "forMap f m = Inr m' \<Longrightarrow> map fst m' = map fst m"
  by (induction m arbitrary: m') (auto simp: bindR_eq_Inr_iff)

lemma forMap_lookup:
  "forMap f m = Inr m' \<Longrightarrow>
     map_of m' k = (case map_of m k of None \<Rightarrow> None
                    | Some v \<Rightarrow> (case f k v of Inl _ \<Rightarrow> None | Inr w \<Rightarrow> Some w))"
  by (induction m arbitrary: m') (auto simp: bindR_eq_Inr_iff)

lemma forMap_mem:
  "forMap f m = Inr m' \<Longrightarrow> (k, w) \<in> set m' \<Longrightarrow> \<exists>v. (k, v) \<in> set m \<and> f k v = Inr w"
proof (induction m arbitrary: m')
  case Nil
  then show ?case by simp
next
  case (Cons kv m)
  then show ?case
    by (cases kv) (fastforce simp: bindR_eq_Inr_iff)
qed

lemma forMap_lookup_ok:
  "forMap f m = Inr m' \<Longrightarrow> map_of m k = Some v \<Longrightarrow> \<exists>w. f k v = Inr w \<and> map_of m' k = Some w"
  by (induction m arbitrary: m') (auto simp: bindR_eq_Inr_iff split: if_splits)

lemma forMap_lookup_back:
  "forMap f m = Inr m' \<Longrightarrow> map_of m' k = Some w \<Longrightarrow> \<exists>v. map_of m k = Some v \<and> f k v = Inr w"
  by (induction m arbitrary: m') (auto simp: bindR_eq_Inr_iff split: if_splits)

lemma forMap_all:
  "forMap f m = Inr m' \<Longrightarrow> (\<And>k v w. (k, v) \<in> set m \<Longrightarrow> f k v = Inr w \<Longrightarrow> P w) \<Longrightarrow>
     list_all (\<lambda>(k, w). P w) m'"
  using forMap_mem by (fastforce simp: list_all_iff)

lemma forMap_ok_iff: "isOk (forMap f m) \<longleftrightarrow> (\<forall>(k, v) \<in> set m. isOk (f k v))"
proof (induction m)
  case Nil
  then show ?case by simp
next
  case (Cons kv m)
  then show ?case
    by (cases kv; cases "f (fst kv) (snd kv)"; cases "forMap f m") auto
qed

text \<open>
  Go visits a map's entries in no fixed order.  A loop that succeeds in one order succeeds in
  every other, with the same map as its result.
\<close>

lemma forMap_order_independent:
  assumes "forMap f m = Inr r" and "set m' = set m" and "distinct (map fst m)"
    and "distinct (map fst m')"
  shows "\<exists>r'. forMap f m' = Inr r' \<and> map_of r' = map_of r"
proof -
  have "isOk (forMap f m)" using assms(1) by simp
  then have "isOk (forMap f m')"
    using assms(2) by (simp add: forMap_ok_iff)
  then obtain r' where r': "forMap f m' = Inr r'"
    by (auto simp: isOk_iff)
  have "map_of m' = map_of m"
    using assms(2,3,4) by (metis map_of_inject_set)
  then have "map_of r' = map_of r"
    using forMap_lookup[OF r'] forMap_lookup[OF assms(1)] by auto
  with r' show ?thesis by blast
qed

subsection \<open>Writing entries into a map\<close>

fun putAll :: "'a gomap \<Rightarrow> (string \<times> 'a) list \<Rightarrow> 'a gomap" where
  "putAll out [] = out"
| "putAll out ((k, v) # es) = putAll (AList.update k v out) es"

lemma update_new: "k \<notin> fst ` set m \<Longrightarrow> AList.update k v m = m @ [(k, v)]"
  by (induction m) auto

lemma putAll_distinct:
  "distinct (map fst (out @ es)) \<Longrightarrow> putAll out es = out @ es"
  by (induction out es rule: putAll.induct) (auto simp: update_new)

lemma putAll_keys: "distinct (map fst out) \<Longrightarrow> distinct (map fst (putAll out es))"
  by (induction out es rule: putAll.induct) (auto intro: distinct_update)

lemma update_not_empty [simp]: "AList.update k v m \<noteq> []"
  by (cases m) auto

lemma putAll_not_Nil: "out \<noteq> [] \<or> es \<noteq> [] \<Longrightarrow> putAll out es \<noteq> []"
  by (induction out es rule: putAll.induct) auto

lemma set_update_subset: "set (AList.update k v m) \<subseteq> insert (k, v) (set m)"
  by (induction m) auto

lemma set_putAll: "set (putAll out es) \<subseteq> set out \<union> set es"
proof (induction out es rule: putAll.induct)
  case (2 out k v es)
  then show ?case using set_update_subset [of k v out] by auto
qed simp

subsection \<open>Suffixes of the input\<close>

text \<open>\<open>suffix_of r s\<close>: \<open>r\<close> is what is left of \<open>s\<close> after a scanner consumed a prefix of it.\<close>

definition suffix_of :: "'a list \<Rightarrow> 'a list \<Rightarrow> bool" where
  "suffix_of r s \<longleftrightarrow> (\<exists>t. s = t @ r)"

lemma suffix_of_refl [simp, consume_intros]: "suffix_of s s"
  by (simp add: suffix_of_def)

lemma suffix_of_trans: "suffix_of r s \<Longrightarrow> suffix_of s t \<Longrightarrow> suffix_of r t"
  by (auto simp: suffix_of_def)

lemma suffix_of_Cons: "suffix_of r s \<Longrightarrow> suffix_of r (c # s)"
  by (auto simp: suffix_of_def intro: exI [of _ "c # t" for t])

lemma suffix_of_length: "suffix_of r s \<Longrightarrow> length r \<le> length s"
  by (auto simp: suffix_of_def)

lemma suffix_of_dropWhile [simp, consume_intros]: "suffix_of (dropWhile P s) s"
  by (metis suffix_of_def takeWhile_dropWhile_id)

lemma suffix_of_drop [simp, consume_intros]: "suffix_of (drop n s) s"
  by (metis suffix_of_def append_take_drop_id)

end
