(* ===== verification/Go_Strings.thy ===== *)
theory Go_Strings
  imports Rel_Prelude
begin

text \<open>
  The parts of Go's standard library the query-string decoder uses: \<open>strings.Split\<close>,
  \<open>strings.Cut\<close>, \<open>strings.TrimPrefix\<close>, \<open>strings.TrimSpace\<close>, \<open>strings.LastIndexByte\<close>,
  \<open>url.QueryUnescape\<close>, \<open>strconv.Atoi\<close> and \<open>strconv.ParseFloat\<close>.  A Go string is a sequence
  of bytes, a \<open>char list\<close> here.  A \<open>float64\<close> is a sign, an integer significand below
  \<open>2^53\<close> and a power of two, or an infinity.
\<close>

subsection \<open>Splitting\<close>

fun split_on :: "char \<Rightarrow> string \<Rightarrow> string list" where
  "split_on c [] = [[]]"
| "split_on c (x # xs) =
     (if x = c then [] # split_on c xs
      else (case split_on c xs of [] \<Rightarrow> [[x]] | y # ys \<Rightarrow> (x # y) # ys))"

fun join_with :: "char \<Rightarrow> string list \<Rightarrow> string" where
  "join_with c [] = []"
| "join_with c [x] = x"
| "join_with c (x # y # ys) = x @ c # join_with c (y # ys)"

definition cut_at :: "char \<Rightarrow> string \<Rightarrow> string \<times> string \<times> bool" where
  "cut_at c s =
     (let a = takeWhile (\<lambda>x. x \<noteq> c) s in
      case dropWhile (\<lambda>x. x \<noteq> c) s of [] \<Rightarrow> (s, [], False) | _ # r \<Rightarrow> (a, r, True))"

definition trim_prefix :: "string \<Rightarrow> string \<Rightarrow> string" where
  "trim_prefix p s = (if take (length p) s = p then drop (length p) s else s)"

text \<open>The text before and after the last occurrence of \<open>c\<close>, if there is one.\<close>

definition cut_last :: "char \<Rightarrow> string \<Rightarrow> (string \<times> string) option" where
  "cut_last c s =
     (if c \<in> set s
      then Some (rev (tl (dropWhile (\<lambda>x. x \<noteq> c) (rev s))), rev (takeWhile (\<lambda>x. x \<noteq> c) (rev s)))
      else None)"

lemma split_on_not_Nil [simp]: "split_on c s \<noteq> []"
  by (cases s) (auto split: list.splits)

lemma join_with_Cons_char: "join_with c ((x # y) # ys) = x # join_with c (y # ys)"
  by (cases ys) simp_all

lemma join_split_on: "join_with c (split_on c s) = s"
proof (induction s)
  case Nil
  then show ?case by simp
next
  case (Cons x s)
  obtain y ys where y: "split_on c s = y # ys"
    by (cases "split_on c s") auto
  show ?case
    using Cons y by (auto simp: join_with_Cons_char)
qed

lemma split_on_no_sep: "p \<in> set (split_on c s) \<Longrightarrow> c \<notin> set p"
  by (induction s arbitrary: p) (auto split: if_splits list.splits)

lemma split_on_append:
  "c \<notin> set p \<Longrightarrow> split_on c (p @ c # s) = p # split_on c s"
  by (induction p) auto

lemma split_on_single: "c \<notin> set p \<Longrightarrow> split_on c p = [p]"
  by (induction p) auto

lemma split_on_join:
  "ps \<noteq> [] \<Longrightarrow> (\<And>p. p \<in> set ps \<Longrightarrow> c \<notin> set p) \<Longrightarrow> split_on c (join_with c ps) = ps"
  by (induction c ps rule: join_with.induct) (auto simp: split_on_append split_on_single)

lemma split_on_inject: "split_on c s = split_on c t \<longleftrightarrow> s = t"
  by (metis join_split_on)

lemma cut_at_append:
  "c \<notin> set k \<Longrightarrow> cut_at c (k @ c # v) = (k, v, True)"
  by (induction k) (auto simp: cut_at_def Let_def split: list.splits)

lemma cut_at_none: "c \<notin> set k \<Longrightarrow> cut_at c k = (k, [], False)"
  by (auto simp: cut_at_def dropWhile_eq_Nil_conv split: list.splits
      dest!: arg_cong [where f = "\<lambda>x. x = []"])

subsection \<open>Characters and digits\<close>

definition isDigit :: "char \<Rightarrow> bool" where
  "isDigit c \<longleftrightarrow> CHR ''0'' \<le> c \<and> c \<le> CHR ''9''"

definition digit_val :: "char \<Rightarrow> int" where
  "digit_val c = of_char c - 48"

fun int_of_digits_acc :: "int \<Rightarrow> string \<Rightarrow> int" where
  "int_of_digits_acc n [] = n"
| "int_of_digits_acc n (c # cs) = int_of_digits_acc (10 * n + digit_val c) cs"

definition int_of_digits :: "string \<Rightarrow> int" where
  "int_of_digits s = int_of_digits_acc 0 s"

subsection \<open>Percent decoding\<close>

datatype unescape_error = EscapeError string

definition hex_val :: "char \<Rightarrow> nat option" where
  "hex_val c =
     (if CHR ''0'' \<le> c \<and> c \<le> CHR ''9'' then Some (of_char c - 48)
      else if CHR ''a'' \<le> c \<and> c \<le> CHR ''f'' then Some (of_char c - 97 + 10)
      else if CHR ''A'' \<le> c \<and> c \<le> CHR ''F'' then Some (of_char c - 65 + 10)
      else None)"

fun QueryUnescape :: "string \<Rightarrow> unescape_error + string" where
  "QueryUnescape [] = Inr []"
| "QueryUnescape (c # cs) =
     (if c = CHR ''%'' then
        (case cs of
           a # b # rest \<Rightarrow>
             (case (hex_val a, hex_val b) of
                (Some h, Some l) \<Rightarrow>
                  bindR (QueryUnescape rest) (\<lambda>r. Inr (char_of (16 * h + l) # r))
              | _ \<Rightarrow> Inl (EscapeError (take 3 (c # cs))))
         | _ \<Rightarrow> Inl (EscapeError (take 3 (c # cs))))
      else if c = CHR ''+'' then bindR (QueryUnescape cs) (\<lambda>r. Inr (CHR '' '' # r))
      else bindR (QueryUnescape cs) (\<lambda>r. Inr (c # r)))"

lemma QueryUnescape_plain:
  "(\<And>c. c \<in> set s \<Longrightarrow> c \<noteq> CHR ''%'' \<and> c \<noteq> CHR ''+'') \<Longrightarrow> QueryUnescape s = Inr s"
  by (induction s) auto

subsection \<open>White space\<close>

text \<open>
  \<open>unicode.IsSpace\<close> holds of six ASCII characters and of some code points beyond ASCII, listed
  here as their UTF-8 bytes: U+0085, U+00A0, U+1680, U+2000 to U+200A, U+2028, U+2029,
  U+202F, U+205F and U+3000.
\<close>

definition ascii_space :: "char \<Rightarrow> bool" where
  "ascii_space c \<longleftrightarrow> (of_char c :: nat) \<in> {9, 10, 11, 12, 13, 32}"

definition unicode_spaces :: "string list" where
  "unicode_spaces =
     [[CHR 0xC2, CHR 0x85], [CHR 0xC2, CHR 0xA0], [CHR 0xE1, CHR 0x9A, CHR 0x80],
      [CHR 0xE2, CHR 0x80, CHR 0xA8], [CHR 0xE2, CHR 0x80, CHR 0xA9], [CHR 0xE2, CHR 0x80, CHR 0xAF],
      [CHR 0xE2, CHR 0x81, CHR 0x9F], [CHR 0xE3, CHR 0x80, CHR 0x80], [CHR 0xE2, CHR 0x80, CHR 0x80],
      [CHR 0xE2, CHR 0x80, CHR 0x81], [CHR 0xE2, CHR 0x80, CHR 0x82], [CHR 0xE2, CHR 0x80, CHR 0x83],
      [CHR 0xE2, CHR 0x80, CHR 0x84], [CHR 0xE2, CHR 0x80, CHR 0x85], [CHR 0xE2, CHR 0x80, CHR 0x86],
      [CHR 0xE2, CHR 0x80, CHR 0x87], [CHR 0xE2, CHR 0x80, CHR 0x88], [CHR 0xE2, CHR 0x80, CHR 0x89],
      [CHR 0xE2, CHR 0x80, CHR 0x8A]]"

fun trim_left_with :: "string list \<Rightarrow> nat \<Rightarrow> string \<Rightarrow> string" where
  "trim_left_with seqs 0 s = s"
| "trim_left_with seqs (Suc n) [] = []"
| "trim_left_with seqs (Suc n) (c # cs) =
     (if ascii_space c then trim_left_with seqs n cs
      else (case find (\<lambda>p. take (length p) (c # cs) = p) seqs of
              None \<Rightarrow> c # cs
            | Some p \<Rightarrow> trim_left_with seqs n (drop (length p) (c # cs))))"

definition TrimSpace :: "string \<Rightarrow> string" where
  "TrimSpace s =
     (let l = trim_left_with unicode_spaces (length s) s in
      rev (trim_left_with (map rev unicode_spaces) (length l) (rev l)))"

lemma trim_left_with_length: "length (trim_left_with seqs n s) \<le> length s"
  by (induction seqs n s rule: trim_left_with.induct)
     (auto split: option.splits simp del: List.take.simps List.drop.simps
           dest: order_trans [OF _ diff_le_self])

lemma TrimSpace_length: "length (TrimSpace s) \<le> length s"
  unfolding TrimSpace_def Let_def
  by (metis length_rev order_trans trim_left_with_length)

subsection \<open>Integers\<close>

text \<open>\<open>strconv.Atoi\<close> on a 64-bit platform: an optional sign, then decimal digits only, in range.\<close>

definition in_int64 :: "int \<Rightarrow> bool" where
  "in_int64 i \<longleftrightarrow> - (2 ^ 63) \<le> i \<and> i < 2 ^ 63"

definition Atoi :: "string \<Rightarrow> int option" where
  "Atoi s =
     (let (neg, ds) = (case s of
            c # cs \<Rightarrow> if c = CHR ''-'' then (True, cs)
                      else if c = CHR ''+'' then (False, cs) else (False, s)
          | [] \<Rightarrow> (False, s));
          i = (if neg then - int_of_digits ds else int_of_digits ds)
      in if ds \<noteq> [] \<and> list_all isDigit ds \<and> in_int64 i then Some i else None)"

lemma Atoi_range: "Atoi s = Some i \<Longrightarrow> in_int64 i"
  by (auto simp: Atoi_def Let_def split: prod.splits if_splits)

subsection \<open>Floating point\<close>

datatype f64 = Fin (f_neg: bool) (f_mant: int) (f_exp: int) | Inf bool | NaN

function bitlen :: "int \<Rightarrow> int" where
  "bitlen n = (if n \<le> 0 then 0 else 1 + bitlen (n div 2))"
  by pat_completeness auto
termination
  by (relation "measure nat") auto

declare bitlen.simps [simp del]

text \<open>\<open>scaled n d e\<close> is \<open>n / d * 2^(-e)\<close> as a fraction of integers.\<close>

definition scaled :: "int \<Rightarrow> int \<Rightarrow> int \<Rightarrow> int \<times> int" where
  "scaled n d e = (if e \<le> 0 then (n * 2 ^ nat (- e), d) else (n, d * 2 ^ nat e))"

definition div_half_even :: "int \<Rightarrow> int \<Rightarrow> int" where
  "div_half_even n d =
     (let q = n div d; r = n mod d in
      if 2 * r > d \<or> (2 * r = d \<and> odd q) then q + 1 else q)"

text \<open>
  Rounding \<open>n / d\<close> to the nearest \<open>float64\<close>, ties to even: the exponent is the least one, not
  below \<open>-1074\<close>, for which the quotient has at most 53 bits.
\<close>

definition round_f64 :: "bool \<Rightarrow> int \<Rightarrow> int \<Rightarrow> f64" where
  "round_f64 s n d =
     (if n = 0 then Fin s 0 0
      else
        let e1 = bitlen n - bitlen d - 53;
            q1 = (let (a, b) = scaled n d e1 in a div b);
            e2 = max (if q1 \<ge> 2 ^ 53 then e1 + 1 else e1) (- 1074);
            m = (let (a, b) = scaled n d e2 in div_half_even a b);
            (m', e') = (if m = 2 ^ 53 then (2 ^ 52, e2 + 1) else (m, e2))
        in if e' > 971 then Inf s else Fin s m' e')"

text \<open>
  \<open>strconv.ParseFloat\<close> on plain decimal texts (the scanner hands it \<open>-?[0-9]+(\.[0-9]+)?\<close>
  only, so exponents and the other forms it accepts are left out): the nearest
  \<open>float64\<close>, and a range error when that is infinite.
\<close>

definition ParseFloat :: "string \<Rightarrow> f64 option" where
  "ParseFloat s =
     (let (neg, ds) = (case s of c # cs \<Rightarrow> if c = CHR ''-'' then (True, cs) else (False, s)
                       | [] \<Rightarrow> (False, s));
          (ip, fp, dot) = cut_at CHR ''.'' ds
      in if ip @ fp = [] \<or> \<not> list_all isDigit (ip @ fp) then None
         else (case round_f64 neg (int_of_digits (ip @ fp)) (10 ^ length fp) of
                 Inf _ \<Rightarrow> None | f \<Rightarrow> Some f))"

end
