(* ===== verification/Query_Structural.thy ===== *)
theory Query_Structural
  imports Go_Strings "HOL-Library.Sublist"
begin

text \<open>
  The structural layer of the query-string decoder, \<open>querystring/structural.go\<close>: the raw
  query string is split into pairs, every key is a dot-separated path into a nested object, and
  a repeated key builds an array.  The result is a tree of plain Go values (\<open>goval\<close>).
  The interface \<open>path_store\<close> states what the rest of the decoder relies on: reading a path after
  a write, and when a write is refused.
\<close>

subsection \<open>Values and errors\<close>

text \<open>
  The plain Go value tree every function of the package builds: \<open>nil\<close>, \<open>bool\<close>,
  \<open>float64\<close>, \<open>int\<close>, \<open>string\<close>, \<open>[]any\<close> (also \<open>[]string\<close>) and \<open>map[string]any\<close>.
\<close>

datatype goval =
    GNil
  | GBool bool
  | GNum f64
  | GInt int
  | GStr string
  | GArr "goval list"
  | GObj "(string \<times> goval) list"

datatype qs_error =
    BadKeyEscape string
  | BadValueEscape string
  | EmptySegment string
  | ValueAndPath string
  | PanicIndex
  | OutOfFuel
  | ExpectedIdentifier
  | ExpectedString
  | UnterminatedString
  | ExpectedNumber
  | InvalidNumber string
  | UnexpectedEnd
  | UnexpectedChar char
  | UnterminatedCall
  | ExpectedCommaOrParen
  | ExpectedCommaOrEnd
  | ExpectedParenOrEnd
  | TrailingInput
  | WrongArity string
  | NotOperatorWord string
  | NotQuoted string
  | NotFunctionName
  | EmptySelect
  | SelectNeedsAlias
  | UnrecognizedKey string
  | SingleValueExpected
  | ObjectExpected
  | NotAnInteger string
  | NotABool string
  | StringOrListExpected
  | ItemNotString
  | ArgumentIndexRange string
  | EmptyArgument
  | ArgumentIsCall
  | GetForbidden string

subsection \<open>Raw pairs\<close>

definition decodePair :: "string \<Rightarrow> qs_error + (string \<times> string)" where
  "decodePair p =
     (let (k, v, found) = cut_at CHR ''='' p in
      bindR (mapErr (\<lambda>_. BadKeyEscape k) (QueryUnescape k)) (\<lambda>kd.
      bindR (mapErr (\<lambda>_. BadValueEscape kd) (QueryUnescape v)) (\<lambda>vd.
      Inr (kd, vd))))"

definition parseRawPairs :: "string \<Rightarrow> qs_error + (string \<times> string) list" where
  "parseRawPairs raw0 =
     (let raw = trim_prefix ''?'' raw0 in
      if raw = [] then Inr []
      else traverse decodePair (filter (\<lambda>p. p \<noteq> []) (split_on CHR ''&'' raw)))"

subsection \<open>Nested objects\<close>

text \<open>
  Go mutates the nested maps in place; here the updated map is returned.  An empty path would
  index out of range in the source; \<open>strings.Split\<close> never returns one.
\<close>

fun setPath :: "goval gomap \<Rightarrow> string list \<Rightarrow> string \<Rightarrow> qs_error + goval gomap" where
  "setPath node [] v = Inl PanicIndex"
| "setPath node [key] v =
     (case map_of node key of
        None \<Rightarrow> Inr (AList.update key (GStr v) node)
      | Some (GStr e) \<Rightarrow> Inr (AList.update key (GArr [GStr e, GStr v]) node)
      | Some (GArr e) \<Rightarrow> Inr (AList.update key (GArr (e @ [GStr v])) node)
      | Some _ \<Rightarrow> Inl (ValueAndPath key))"
| "setPath node (key # k2 # path) v =
     (case map_of node key of
        None \<Rightarrow> bindR (setPath [] (k2 # path) v)
                  (\<lambda>c. Inr (AList.update key (GObj c) node))
      | Some (GObj child) \<Rightarrow> bindR (setPath child (k2 # path) v)
                  (\<lambda>c. Inr (AList.update key (GObj c) node))
      | Some _ \<Rightarrow> Inl (ValueAndPath key))"

definition keyPath :: "string \<Rightarrow> string list" where
  "keyPath k = split_on CHR ''.'' k"

fun setPairs :: "goval gomap \<Rightarrow> (string \<times> string) list \<Rightarrow> qs_error + goval gomap" where
  "setPairs root [] = Inr root"
| "setPairs root ((k, v) # kvs) =
     (if [] \<in> set (keyPath k) then Inl (EmptySegment k)
      else bindR (setPath root (keyPath k) v) (\<lambda>root'. setPairs root' kvs))"

definition DecodeStructural :: "string \<Rightarrow> qs_error + goval gomap" where
  "DecodeStructural raw = bindR (parseRawPairs raw) (setPairs [])"

subsection \<open>Reading a tree\<close>

text \<open>The strings stored under a path, in order, and the shape the decoder keeps its trees in.\<close>

fun leaf_strings :: "goval \<Rightarrow> string list" where
  "leaf_strings (GStr s) = [s]"
| "leaf_strings (GArr vs) = concat (map (\<lambda>v. case v of GStr s \<Rightarrow> [s] | _ \<Rightarrow> []) vs)"
| "leaf_strings _ = []"

fun leaf_at :: "goval gomap \<Rightarrow> string list \<Rightarrow> string list" where
  "leaf_at m [] = []"
| "leaf_at m [k] = (case map_of m k of None \<Rightarrow> [] | Some v \<Rightarrow> leaf_strings v)"
| "leaf_at m (k # k2 # p) =
     (case map_of m k of Some (GObj c) \<Rightarrow> leaf_at c (k2 # p) | _ \<Rightarrow> [])"

fun wf_tree :: "goval \<Rightarrow> bool" where
  "wf_tree (GStr s) = True"
| "wf_tree (GArr vs) = (2 \<le> length vs \<and> (\<forall>v \<in> set vs. case v of GStr _ \<Rightarrow> True | _ \<Rightarrow> False))"
| "wf_tree (GObj m) = (m \<noteq> [] \<and> distinct (map fst m) \<and> (\<forall>(k, v) \<in> set m. wf_tree v))"
| "wf_tree _ = False"

definition wf_map :: "goval gomap \<Rightarrow> bool" where
  "wf_map m \<longleftrightarrow> distinct (map fst m) \<and> (\<forall>(k, v) \<in> set m. wf_tree v)"

lemma wf_tree_GObj: "wf_tree (GObj m) \<longleftrightarrow> m \<noteq> [] \<and> wf_map m"
  by (auto simp: wf_map_def)

lemma wf_map_Nil [simp]: "wf_map []"
  by (simp add: wf_map_def)

lemma wf_map_lookup: "wf_map m \<Longrightarrow> map_of m k = Some v \<Longrightarrow> wf_tree v"
  by (auto simp: wf_map_def dest: map_of_SomeD)

lemma wf_map_update: "wf_map m \<Longrightarrow> wf_tree v \<Longrightarrow> wf_map (AList.update k v m)"
  unfolding wf_map_def
  using set_update_subset [of k v m] by (auto simp: distinct_update)

lemma map_of_update: "map_of (AList.update k v m) k' = (if k' = k then Some v else map_of m k')"
  by (simp add: update_conv')

text \<open>Inversion of the two kinds of step: a leaf is written, or a child object is entered.\<close>

lemma setPath_leafE:
  assumes "setPath m [k] v = Inr m'"
  obtains w where "m' = AList.update k w m"
    and "leaf_strings w = (case map_of m k of None \<Rightarrow> [] | Some u \<Rightarrow> leaf_strings u) @ [v]"
    and "\<And>c. w \<noteq> GObj c" and "\<And>c. map_of m k \<noteq> Some (GObj c)"
    and "wf_map m \<Longrightarrow> wf_tree w"
proof (cases "map_of m k")
  case None
  then show ?thesis using assms that [of "GStr v"] by simp
next
  case (Some u)
  show ?thesis
  proof (cases u)
    case (GStr e)
    then show ?thesis using assms Some that [of "GArr [GStr e, GStr v]"] by simp
  next
    case (GArr e)
    then show ?thesis
      using assms Some that [of "GArr (e @ [GStr v])"] wf_map_lookup [OF _ Some] by force
  qed (use assms Some in simp_all)
qed

lemma setPath_childE:
  assumes "setPath m (k # k2 # p) v = Inr m'"
  obtains c c' where "map_of m k = None \<and> c = [] \<or> map_of m k = Some (GObj c)"
    and "setPath c (k2 # p) v = Inr c'" and "m' = AList.update k (GObj c') m"
  using assms
  by (auto split: option.splits goval.splits simp: bindR_eq_Inr_iff)

lemma setPath_not_Nil: "setPath m p v = Inr m' \<Longrightarrow> m' \<noteq> []"
  by (cases "(m, p, v)" rule: setPath.cases)
     (auto elim!: setPath_leafE setPath_childE simp del: setPath.simps(2,3))

lemma setPath_wf: "setPath m p v = Inr m' \<Longrightarrow> wf_map m \<Longrightarrow> wf_map m'"
proof (induction p arbitrary: m m' rule: induct_list012)
  case (2 k)
  then show ?case
    by (metis setPath_leafE wf_map_update)
next
  case (3 k k2 p)
  from "3.prems"(1) obtain c c' where c: "map_of m k = None \<and> c = [] \<or> map_of m k = Some (GObj c)"
    and s: "setPath c (k2 # p) v = Inr c'" and m': "m' = AList.update k (GObj c') m"
    by (rule setPath_childE)
  have "wf_map c" using c "3.prems"(2) wf_map_lookup wf_tree_GObj by (metis wf_map_Nil)
  then have "wf_map c'" using "3.IH"(2) s by blast
  then show ?case
    using m' "3.prems"(2) setPath_not_Nil [OF s] by (metis wf_map_update wf_tree_GObj)
qed simp

lemma leaf_at_update_other: "k' \<noteq> k \<Longrightarrow> leaf_at (AList.update k w m) (k' # q) = leaf_at m (k' # q)"
  by (cases q) (auto simp: map_of_update)

lemma leaf_at_child:
  "map_of m k = Some (GObj c) \<Longrightarrow> leaf_at m (k # q) = leaf_at c q"
  by (cases q) simp_all

lemma leaf_at_absent: "map_of m k = None \<Longrightarrow> leaf_at m (k # q) = []"
  by (cases q) simp_all

lemma leaf_at_no_object:
  "map_of m k = Some t \<Longrightarrow> (\<And>c. t \<noteq> GObj c) \<Longrightarrow> q \<noteq> [] \<Longrightarrow> leaf_at m (k # q) = []"
  by (cases q; cases t) auto

lemma leaf_at_Nil [simp]: "leaf_at [] q = []"
  by (cases "([] :: goval gomap, q)" rule: leaf_at.cases) simp_all

lemma setPath_leaf_at:
  "setPath m p v = Inr m' \<Longrightarrow> leaf_at m' q = leaf_at m q @ (if q = p then [v] else [])"
proof (induction p arbitrary: m m' q rule: induct_list012)
  case (2 k)
  then obtain w where w: "m' = AList.update k w m"
    "leaf_strings w = (case map_of m k of None \<Rightarrow> [] | Some u \<Rightarrow> leaf_strings u) @ [v]"
    "\<And>c. w \<noteq> GObj c" "\<And>c. map_of m k \<noteq> Some (GObj c)"
    by (rule setPath_leafE) blast
  show ?case
  proof (cases "(m, q)" rule: leaf_at.cases)
    case (3 m0 k1 k2 r)
    then show ?thesis
      using w by (cases "k1 = k") (auto simp: map_of_update split: option.splits goval.splits)
  qed (use w in \<open>auto simp: map_of_update\<close>)
next
  case (3 k k2 p)
  from "3.prems" obtain c c' where c: "map_of m k = None \<and> c = [] \<or> map_of m k = Some (GObj c)"
    and s: "setPath c (k2 # p) v = Inr c'" and m': "m' = AList.update k (GObj c') m"
    by (rule setPath_childE)
  show ?case
  proof (cases q)
    case (Cons k1 r)
    have "leaf_at m (k # r) = leaf_at c r"
      using c leaf_at_child leaf_at_absent by fastforce
    moreover have "leaf_at m' (k # r) = leaf_at c' r"
      using m' by (simp add: leaf_at_child map_of_update)
    ultimately show ?thesis
      using Cons m' "3.IH"(2) [OF s, of r]
      by (cases "k1 = k") (auto simp: leaf_at_update_other)
  qed simp
qed simp

text \<open>A well-formed non-empty tree stores something, so a path through it is in use.\<close>

lemma wf_array_leaf: "wf_tree (GArr vs) \<Longrightarrow> leaf_strings (GArr vs) \<noteq> []"
  by (cases vs) (auto split: goval.splits)

lemma wf_has_leaf: "wf_map m \<Longrightarrow> m \<noteq> [] \<Longrightarrow> \<exists>q. leaf_at m q \<noteq> []"
proof (induction "size (GObj m)" arbitrary: m rule: less_induct)
  case less
  then obtain k t m0 where m: "m = (k, t) # m0" by (cases m) auto
  with less.prems have t: "wf_tree t" by (auto simp: wf_map_def)
  show ?case
  proof (cases t)
    case (GStr s)
    then show ?thesis by (intro exI [of _ "[k]"]) (simp add: m)
  next
    case (GArr vs)
    then show ?thesis
      using t wf_array_leaf by (intro exI [of _ "[k]"]) (auto simp: m)
  next
    case (GObj c)
    then have "wf_map c" "c \<noteq> []" using t wf_tree_GObj by blast+
    moreover have "size (GObj c) < size (GObj m)"
      using GObj by (simp add: m)
    ultimately obtain q where "leaf_at c q \<noteq> []" using less.hyps by blast
    then have "leaf_at m (k # q) \<noteq> []" using leaf_at_child [of m k c q] m GObj by simp
    then show ?thesis by blast
  qed (use t in simp_all)
qed

definition in_use :: "goval gomap \<Rightarrow> string list \<Rightarrow> bool" where
  "in_use m q \<longleftrightarrow> leaf_at m q \<noteq> []"

definition free_path :: "goval gomap \<Rightarrow> string list \<Rightarrow> bool" where
  "free_path m p \<longleftrightarrow> (\<forall>q. in_use m q \<longrightarrow> \<not> strict_prefix q p \<and> \<not> strict_prefix p q)"

lemma in_use_ConsD: "in_use m (k # q) \<Longrightarrow> map_of m k \<noteq> None"
  by (metis in_use_def leaf_at_absent)

lemma not_in_use_Nil [simp]: "\<not> in_use m []"
  by (simp add: in_use_def)

lemma free_pathI:
  "(\<And>q. in_use m (k # q) \<Longrightarrow> \<not> strict_prefix q p \<and> \<not> strict_prefix p q) \<Longrightarrow>
   free_path m (k # p)"
  unfolding free_path_def
  by (metis not_in_use_Nil list.exhaust strict_prefix_simps(3))

lemma free_path_absent: "map_of m k = None \<Longrightarrow> free_path m (k # p)"
  by (rule free_pathI) (use in_use_ConsD in fastforce)

lemma free_path_leaf:
  "map_of m k = Some t \<Longrightarrow> (\<And>c. t \<noteq> GObj c) \<Longrightarrow> free_path m [k]"
  by (rule free_pathI) (metis in_use_def leaf_at_no_object strict_prefix_simps(1))

lemma not_free_below_leaf:
  assumes "map_of m k = Some t" and "leaf_strings t \<noteq> []"
  shows "\<not> free_path m (k # k2 # p)"
proof -
  have "in_use m [k]" using assms by (simp add: in_use_def)
  moreover have "strict_prefix [k] (k # k2 # p)" by simp
  ultimately show ?thesis unfolding free_path_def by blast
qed

lemma free_path_child:
  assumes "map_of m k = Some (GObj c)"
  shows "free_path m (k # p) \<longleftrightarrow> free_path c p"
proof -
  have use: "in_use m (k # q) \<longleftrightarrow> in_use c q" for q
    using leaf_at_child [OF assms] by (simp add: in_use_def)
  show ?thesis
  proof
    assume f: "free_path m (k # p)"
    show "free_path c p"
      unfolding free_path_def using f use by (metis free_path_def strict_prefix_simps(3))
  next
    assume f: "free_path c p"
    show "free_path m (k # p)"
      by (rule free_pathI) (use f use in \<open>auto simp: free_path_def\<close>)
  qed
qed

lemma setPath_ok_iff:
  "wf_map m \<Longrightarrow> p \<noteq> [] \<Longrightarrow> isOk (setPath m p v) \<longleftrightarrow> free_path m p"
proof (induction p arbitrary: m rule: induct_list012)
  case (2 k)
  show ?case
  proof (cases "map_of m k")
    case None
    then show ?thesis using free_path_absent by simp
  next
    case (Some t)
    show ?thesis
    proof (cases t)
      case (GObj c)
      then have "wf_map c" "c \<noteq> []" using "2.prems"(1) Some wf_map_lookup wf_tree_GObj by blast+
      then obtain q where q: "leaf_at c q \<noteq> []" using wf_has_leaf by blast
      then have "in_use m (k # q)" "q \<noteq> []"
        using leaf_at_child Some GObj by (auto simp: in_use_def)
      then have "\<not> free_path m [k]"
        unfolding free_path_def by (auto simp: strict_prefix_def)
      then show ?thesis using Some GObj by simp
    qed (use Some wf_map_lookup [OF "2.prems"(1) Some] free_path_leaf [OF Some] in simp_all)
  qed
next
  case (3 k k2 p)
  show ?case
  proof (cases "map_of m k")
    case None
    then show ?thesis
      using free_path_absent "3.IH"(2) [of "[]"]
      by (auto simp: isOk_iff bindR_eq_Inr_iff free_path_def in_use_def)
  next
    case (Some t)
    show ?thesis
    proof (cases t)
      case (GObj c)
      then have "wf_map c" using "3.prems"(1) Some wf_map_lookup wf_tree_GObj by blast
      then show ?thesis
        using "3.IH"(2) [of c] Some GObj free_path_child [OF Some [unfolded GObj]]
        by (auto simp: isOk_iff bindR_eq_Inr_iff)
    qed (use Some wf_map_lookup [OF "3.prems"(1) Some] not_free_below_leaf [OF Some] in
          \<open>simp_all add: wf_array_leaf del: wf_tree.simps(2) leaf_strings.simps(2)\<close>)
  qed
qed simp

subsection \<open>The interface of a path store\<close>

text \<open>
  What a decoder of key/value pairs relies on: a write appends to the strings of its own path
  and changes no other path, and it is refused exactly when a path in use is a proper prefix of the
  written one or the other way round.
\<close>

locale path_store =
  fixes empty :: "'m"
    and put :: "'m \<Rightarrow> string list \<Rightarrow> string \<Rightarrow> 'e + 'm"
    and leaf :: "'m \<Rightarrow> string list \<Rightarrow> string list"
    and invar :: "'m \<Rightarrow> bool"
  assumes leaf_empty: "leaf empty q = []"
    and invar_empty: "invar empty"
    and invar_put: "invar m \<Longrightarrow> put m p v = Inr m' \<Longrightarrow> invar m'"
    and leaf_put: "put m p v = Inr m' \<Longrightarrow> leaf m' q = leaf m q @ (if q = p then [v] else [])"
    and put_ok: "invar m \<Longrightarrow> p \<noteq> [] \<Longrightarrow>
      isOk (put m p v) \<longleftrightarrow>
      (\<forall>q. leaf m q \<noteq> [] \<longrightarrow> \<not> strict_prefix q p \<and> \<not> strict_prefix p q)"
begin

fun put_all :: "'m \<Rightarrow> (string list \<times> string) list \<Rightarrow> 'e + 'm" where
  "put_all m [] = Inr m"
| "put_all m ((p, v) # pvs) = bindR (put m p v) (\<lambda>m'. put_all m' pvs)"

lemma invar_put_all: "invar m \<Longrightarrow> put_all m pvs = Inr m' \<Longrightarrow> invar m'"
  by (induction m pvs rule: put_all.induct) (auto simp: bindR_eq_Inr_iff dest: invar_put)

lemma leaf_put_all:
  "put_all m pvs = Inr m' \<Longrightarrow> leaf m' q = leaf m q @ map snd (filter (\<lambda>(p, v). p = q) pvs)"
proof (induction m pvs rule: put_all.induct)
  case (2 m p v pvs)
  then obtain m1 where "put m p v = Inr m1" "put_all m1 pvs = Inr m'"
    by (auto simp: bindR_eq_Inr_iff)
  with 2 show ?case using leaf_put [of m p v m1 q] by auto
qed simp

definition compatible :: "string list set \<Rightarrow> bool" where
  "compatible P \<longleftrightarrow> (\<forall>p \<in> P. \<forall>q \<in> P. \<not> strict_prefix p q)"

definition used :: "'m \<Rightarrow> string list set" where
  "used m = {q. leaf m q \<noteq> []}"

lemma used_put: "put m p v = Inr m' \<Longrightarrow> used m' = insert p (used m)"
  by (auto simp: used_def leaf_put split: if_splits)

lemma compatible_insert:
  "compatible (insert p P) \<longleftrightarrow>
     compatible P \<and> (\<forall>q \<in> P. \<not> strict_prefix q p \<and> \<not> strict_prefix p q)"
  by (auto simp: compatible_def)

lemma put_all_ok_iff:
  "invar m \<Longrightarrow> compatible (used m) \<Longrightarrow> (\<forall>(p, v) \<in> set pvs. p \<noteq> []) \<Longrightarrow>
     isOk (put_all m pvs) \<longleftrightarrow> compatible (used m \<union> fst ` set pvs)"
proof (induction m pvs rule: put_all.induct)
  case (2 m p v pvs)
  show ?case
  proof (cases "put m p v")
    case (Inl e)
    then have "\<not> compatible (insert p (used m))"
      using put_ok [of m p v] "2.prems" by (auto simp: compatible_insert used_def)
    then show ?thesis
      using Inl by (auto simp: compatible_def)
  next
    case (Inr m1)
    then have "compatible (insert p (used m))"
      using put_ok [of m p v] "2.prems" by (auto simp: compatible_insert used_def)
    then show ?thesis
      using "2.IH" [OF Inr] "2.prems" Inr invar_put [OF _ Inr] used_put [OF Inr]
      by auto
  qed
qed simp

lemma put_all_empty_ok_iff:
  "(\<forall>(p, v) \<in> set pvs. p \<noteq> []) \<Longrightarrow>
     isOk (put_all empty pvs) \<longleftrightarrow>
     (\<forall>p \<in> fst ` set pvs. \<forall>q \<in> fst ` set pvs. \<not> strict_prefix p q)"
  using put_all_ok_iff [of empty pvs] leaf_empty
  by (simp add: invar_empty used_def compatible_def)

end

interpretation st: path_store "[] :: goval gomap" setPath leaf_at wf_map
  by unfold_locales
     (use setPath_wf setPath_leaf_at setPath_ok_iff in
       \<open>auto simp: free_path_def in_use_def\<close>)

lemma setPairs_put_all:
  "(\<And>k v. (k, v) \<in> set kvs \<Longrightarrow> [] \<notin> set (keyPath k)) \<Longrightarrow>
     setPairs m kvs = st.put_all m (map (\<lambda>(k, v). (keyPath k, v)) kvs)"
  by (induction m kvs rule: setPairs.induct) (auto intro!: bindR_cong)

lemma setPairs_segments: "setPairs m kvs = Inr r \<Longrightarrow> (k, v) \<in> set kvs \<Longrightarrow> [] \<notin> set (keyPath k)"
  by (induction m kvs rule: setPairs.induct) (auto simp: bindR_eq_Inr_iff split: if_splits)

lemma keyPath_not_Nil [simp]: "keyPath k \<noteq> []"
  by (simp add: keyPath_def)

lemma keyPath_inject [simp]: "keyPath k = keyPath k' \<longleftrightarrow> k = k'"
  by (simp add: keyPath_def split_on_inject)

lemma setPairs_wf: "setPairs m kvs = Inr r \<Longrightarrow> wf_map m \<Longrightarrow> wf_map r"
  by (induction m kvs rule: setPairs.induct)
     (auto simp: bindR_eq_Inr_iff split: if_splits dest: setPath_wf)

lemma DecodeStructural_wf: "DecodeStructural raw = Inr r \<Longrightarrow> wf_map r"
  by (auto simp: DecodeStructural_def bindR_eq_Inr_iff dest: setPairs_wf)

lemma DecodeStructural_leaves:
  assumes "parseRawPairs raw = Inr kvs" and "DecodeStructural raw = Inr root"
  shows "leaf_at root q = map snd (filter (\<lambda>(k, v). keyPath k = q) kvs)"
proof -
  have r: "setPairs [] kvs = Inr root"
    using assms by (simp add: DecodeStructural_def)
  then have "st.put_all [] (map (\<lambda>(k, v). (keyPath k, v)) kvs) = Inr root"
    by (subst setPairs_put_all [symmetric]) (use setPairs_segments [OF r] in blast)
  then show ?thesis
    using st.leaf_put_all [of "[]" _ root q]
    by (simp add: filter_map o_def case_prod_unfold)
qed

subsection \<open>Properties\<close>

text \<open>C31: the tree \<open>DecodeStructural\<close> returns is the multimap of the decoded pairs: under every
  path it holds exactly the values whose key spells that path, in the order they were given, and
  nothing else.\<close>

theorem DecodeStructural_multimap:
  assumes "parseRawPairs raw = Inr kvs" and "DecodeStructural raw = Inr root"
  shows "leaf_at root q = map snd (filter (\<lambda>(k, v). keyPath k = q) kvs)"
  using assms by (rule DecodeStructural_leaves)

text \<open>A query string with a repeated key and a nested one.\<close>

theorem DecodeStructural_multimap_witness:
  "leaf_at [(''a'', GObj [(''b'', GArr [GStr ''1'', GStr ''2''])]), (''c'', GStr ''3'')]
     [''a'', ''b''] = [''1'', ''2'']"
proof -
  have p: "parseRawPairs ''a.b=1&c=3&a.b=2'' = Inr [(''a.b'', ''1''), (''c'', ''3''), (''a.b'', ''2'')]"
    by code_simp
  have d: "DecodeStructural ''a.b=1&c=3&a.b=2'' =
      Inr [(''a'', GObj [(''b'', GArr [GStr ''1'', GStr ''2''])]), (''c'', GStr ''3'')]"
    by code_simp
  show ?thesis
    using DecodeStructural_multimap [OF p d, of "[''a'', ''b'']"] by (simp add: keyPath_def)
qed

text \<open>once the pairs are unescaped, the structural decoder refuses a query string exactly when
  a key has an empty path segment or one key's path is a proper prefix of another's (a name used both as
  a value and as a nested object).\<close>

theorem DecodeStructural_ok_iff:
  assumes "parseRawPairs raw = Inr kvs"
  shows "isOk (DecodeStructural raw) \<longleftrightarrow>
     (\<forall>k \<in> fst ` set kvs. [] \<notin> set (keyPath k)) \<and>
     (\<forall>k \<in> fst ` set kvs. \<forall>k' \<in> fst ` set kvs. \<not> strict_prefix (keyPath k) (keyPath k'))"
proof (cases "\<forall>k \<in> fst ` set kvs. [] \<notin> set (keyPath k)")
  case True
  then have "DecodeStructural raw = st.put_all [] (map (\<lambda>(k, v). (keyPath k, v)) kvs)"
    using assms by (simp add: DecodeStructural_def) (rule setPairs_put_all, force)
  then show ?thesis
    using True st.put_all_empty_ok_iff [of "map (\<lambda>(k, v). (keyPath k, v)) kvs"]
    by (auto simp: image_image case_prod_unfold)
next
  case False
  then have "\<not> isOk (setPairs [] kvs)"
    using setPairs_segments by (fastforce simp: isOk_iff)
  then show ?thesis
    using assms False by (auto simp: DecodeStructural_def)
qed

theorem DecodeStructural_ok_iff_witness:
  "\<not> isOk (DecodeStructural ''a=1&a.b=2'')"
proof -
  have p: "parseRawPairs ''a=1&a.b=2'' = Inr [(''a'', ''1''), (''a.b'', ''2'')]"
    by code_simp
  show ?thesis
    using DecodeStructural_ok_iff [OF p] by (simp add: keyPath_def)
qed

end
