(* ===== verification/Operator_Words.thy ===== *)
theory Operator_Words
  imports Rel_Prelude
begin

text \<open>
  The operator table of \<open>query/operator_words.go\<close>: the word form of every operator and the tag it
  stands for.  Both the query-string compiler and the JSON expression parser look words up here.
\<close>

definition OperatorWords :: "(string \<times> string) list" where
  "OperatorWords =
    [(''and'', ''and''), (''or'', ''or''), (''add'', ''+''), (''sub'', ''-''), (''mul'', ''*''),
     (''div'', ''/''), (''pow'', ''^''), (''mod'', ''%''), (''bor'', ''|''), (''band'', ''&''),
     (''json_get'', ''->''), (''json_get_text'', ''->>''), (''json_path'', ''#>''),
     (''json_path_text'', ''#>>''), (''dot'', ''.''), (''concat'', ''||''),
     (''concat_coalesce'', ''||?''), (''ifnull'', ''??''), (''lte'', ''<=''), (''gte'', ''>=''),
     (''lt'', ''<''), (''gt'', ''>''), (''eq'', ''=''), (''ne'', ''<>''),
     (''is_distinct_from'', ''is_distinct_from''),
     (''is_not_distinct_from'', ''is_not_distinct_from''), (''neg'', ''-''), (''not'', ''not''),
     (''bnot'', ''~''), (''is_null'', ''is_null''), (''is_true'', ''is_true''),
     (''is_false'', ''is_false''), (''is_not_null'', ''is_not_null''),
     (''is_not_true'', ''is_not_true''), (''is_not_false'', ''is_not_false''),
     (''sqrt'', ''|/''), (''cbrt'', ''||/''), (''like'', ''like''), (''ilike'', ''ilike''),
     (''match'', ''~''), (''imatch'', ''~*''), (''cast'', ''::''), (''overlap'', ''&&''),
     (''distance'', ''<->''), (''adjacent'', ''-|-''), (''shl'', ''<<''), (''shr'', ''>>''),
     (''contains'', ''@>''), (''contained_by'', ''<@''), (''has_key'', ''?''),
     (''has_any_key'', ''?|''), (''has_all_keys'', ''?&''), (''overlaps_or_left'', ''&<''),
     (''overlaps_or_right'', ''&>''), (''op_qcolon'', ''?:''), (''matches_ts'', ''@@''),
     (''in'', ''in''), (''not_in'', ''not_in''), (''any'', ''any''), (''all'', ''all''),
     (''between'', ''between''), (''not_between'', ''not_between''), (''agg'', ''agg''),
     (''aggregate'', ''agg''), (''call'', ''call''), (''concat_ws'', ''concat_ws''),
     (''coalesce'', ''coalesce''), (''format'', ''format'')]"

text \<open>The tag a word stands for, or the word itself when it is not in the table.\<close>

definition canonicalTag :: "string \<Rightarrow> string" where
  "canonicalTag w = (case map_of OperatorWords w of Some c \<Rightarrow> c | None \<Rightarrow> w)"

text \<open>Facts about the whole table are decided by evaluating a check over its entries.\<close>

lemma OperatorWords_distinct: "distinct (map fst OperatorWords)"
  by code_simp

lemma canonicalTag_table:
  assumes "list_all (\<lambda>(w, c). P w c) OperatorWords" and "map_of OperatorWords w = Some c"
  shows "P w c"
  using assms by (auto simp: list_all_iff dest: map_of_SomeD)

lemma canonicalTag_image_check:
  "list_all (\<lambda>(w, c). canonicalTag c = c) OperatorWords"
  by code_simp

lemma canonicalTag_idem: "canonicalTag (canonicalTag w) = canonicalTag w"
proof (cases "map_of OperatorWords w")
  case None
  then show ?thesis by (simp add: canonicalTag_def)
next
  case (Some c)
  then show ?thesis
    using canonicalTag_table [OF canonicalTag_image_check Some] by (simp add: canonicalTag_def)
qed

end
