(* ===== verification/Query_Expr.thy ===== *)
theory Query_Expr
  imports Query_Structural Operator_Words
begin

text \<open>
  The filter expression grammar of the query-string decoder, \<open>querystring/expr.go\<close>.  The
  scanner \<open>exprParser{s, i}\<close> is modelled by the text still to read, \<open>s[i:]\<close>: every production
  takes it and returns its value with the text left.  The recursive productions \<open>parseExpr\<close>
  and \<open>parseArgLoop\<close> carry a fuel argument; \<open>exprFuel\<close> is enough for every input, which
  is proved below.  The theory \<open>Query_Grammar\<close> states the grammar itself and shows that
  the scanner decides it.
\<close>

subsection \<open>Characters and tokens\<close>

abbreviation quoteCh :: char where "quoteCh \<equiv> CHR 0x27"
abbreviation tabCh :: char where "tabCh \<equiv> CHR 0x09"

definition isSpace :: "char \<Rightarrow> bool" where
  "isSpace c \<longleftrightarrow> c = CHR '' '' \<or> c = tabCh"

definition skipSpace :: "string \<Rightarrow> string" where
  "skipSpace s = dropWhile isSpace s"

definition atEnd :: "string \<Rightarrow> bool" where
  "atEnd s \<longleftrightarrow> skipSpace s = []"

definition isIdentStart :: "char \<Rightarrow> bool" where
  "isIdentStart c \<longleftrightarrow> c = CHR ''_'' \<or> (CHR ''a'' \<le> c \<and> c \<le> CHR ''z'') \<or> (CHR ''A'' \<le> c \<and> c \<le> CHR ''Z'')"

definition isIdentPart :: "char \<Rightarrow> bool" where
  "isIdentPart c \<longleftrightarrow> isIdentStart c \<or> (CHR ''0'' \<le> c \<and> c \<le> CHR ''9'')"

lemma length_dropWhile_le: "length (dropWhile P s) \<le> length s"
  by (induction s) auto

text \<open>The loop that reads the \<open>.name\<close> parts of a dotted identifier.\<close>

function identTail :: "string \<Rightarrow> string \<times> string" where
  "identTail s =
     (case s of
        d # c # cs \<Rightarrow>
          if d = CHR ''.'' \<and> isIdentStart c then
            (let (t, r) = identTail (dropWhile isIdentPart cs)
             in (d # c # takeWhile isIdentPart cs @ t, r))
          else ([], s)
      | _ \<Rightarrow> ([], s))"
  by pat_completeness auto
termination
  by (relation "measure length") (auto simp: le_imp_less_Suc length_dropWhile_le less_SucI)

declare identTail.simps [simp del]

definition parseIdentifier :: "string \<Rightarrow> qs_error + (string \<times> string)" where
  "parseIdentifier s =
     (case s of
        [] \<Rightarrow> Inl ExpectedIdentifier
      | c # cs \<Rightarrow>
          if \<not> isIdentStart c then Inl ExpectedIdentifier
          else (let (t, r) = identTail (dropWhile isIdentPart cs)
                in Inr (c # takeWhile isIdentPart cs @ t, r)))"

fun stringBody :: "string \<Rightarrow> qs_error + (string \<times> string)" where
  "stringBody [] = Inl UnterminatedString"
| "stringBody (c # cs) =
     (if c = quoteCh then
        (case cs of
           d # ds \<Rightarrow> if d = quoteCh then bindR (stringBody ds) (\<lambda>(b, r). Inr (quoteCh # b, r))
                     else Inr ([], cs)
         | [] \<Rightarrow> Inr ([], cs))
      else bindR (stringBody cs) (\<lambda>(b, r). Inr (c # b, r)))"

definition parseStringLiteral :: "string \<Rightarrow> qs_error + (string \<times> string)" where
  "parseStringLiteral s =
     (case s of
        [] \<Rightarrow> Inl ExpectedString
      | c # cs \<Rightarrow> if c \<noteq> quoteCh then Inl ExpectedString else stringBody cs)"

text \<open>The text of a number, \<open>-?[0-9]+(\.[0-9]+)?\<close>, and what follows it.\<close>

definition numberFraction :: "string \<Rightarrow> string \<times> string" where
  "numberFraction s =
     (case s of
        d # c # cs \<Rightarrow>
          if d = CHR ''.'' \<and> isDigit c then (d # takeWhile isDigit (c # cs), dropWhile isDigit (c # cs))
          else ([], s)
      | _ \<Rightarrow> ([], s))"

definition numberText :: "string \<Rightarrow> qs_error + (string \<times> string)" where
  "numberText s =
     (let (sign, s1) = (case s of c # cs \<Rightarrow> if c = CHR ''-'' then ([c], cs) else ([], s) | [] \<Rightarrow> ([], s));
          ds = takeWhile isDigit s1
      in if ds = [] then Inl ExpectedNumber
         else (let (f, r) = numberFraction (dropWhile isDigit s1) in Inr (sign @ ds @ f, r)))"

definition parseNumber :: "string \<Rightarrow> qs_error + (f64 \<times> string)" where
  "parseNumber s =
     bindR (numberText s) (\<lambda>(t, r).
       case ParseFloat t of None \<Rightarrow> Inl (InvalidNumber t) | Some f \<Rightarrow> Inr (f, r))"

subsection \<open>Call arguments and call forms\<close>

datatype callArg = literalString string | identArg string | plainArg goval

definition scopeLookup :: "string \<Rightarrow> goval" where
  "scopeLookup name = GArr [GStr ''.'', GStr name]"

fun argValue :: "callArg \<Rightarrow> goval" where
  "argValue (literalString s) = GStr s"
| "argValue (identArg a) = scopeLookup a"
| "argValue (plainArg v) = v"

definition querystringOnlyKeywords :: "(string \<times> string) list" where
  "querystringOnlyKeywords = [(''bigint'', ''bigint''), (''numeric'', ''numeric'')]"

definition functionRefFromName :: "string \<Rightarrow> qs_error + goval" where
  "functionRefFromName name =
     (case cut_last CHR ''.'' name of
        Some (schema, n) \<Rightarrow> Inr (GObj [(''schema'', GStr schema), (''name'', GStr n)])
      | None \<Rightarrow> Inr (GStr name))"

definition functionRefFromArg :: "callArg \<Rightarrow> qs_error + goval" where
  "functionRefFromArg a = (case a of identArg n \<Rightarrow> functionRefFromName n | _ \<Rightarrow> Inl NotFunctionName)"

definition callWord :: "string \<Rightarrow> string option" where
  "callWord ident =
     (case map_of OperatorWords ident of
        Some c \<Rightarrow> Some c
      | None \<Rightarrow> map_of querystringOnlyKeywords ident)"

definition anyAllForm :: "string \<Rightarrow> string \<Rightarrow> callArg list \<Rightarrow> qs_error + goval" where
  "anyAllForm canonical ident args =
     (case args of
        [op, subject, arr] \<Rightarrow>
          (case op of
             identArg opStr \<Rightarrow>
               Inr (GArr [GStr canonical, GStr (canonicalTag opStr), argValue subject, argValue arr])
           | _ \<Rightarrow> Inl (NotOperatorWord ident))
      | _ \<Rightarrow> Inl (WrongArity ident))"

definition quotedForm :: "string \<Rightarrow> string \<Rightarrow> callArg list \<Rightarrow> qs_error + goval" where
  "quotedForm canonical ident args =
     (case args of
        [a] \<Rightarrow> (case a of
                 literalString s \<Rightarrow> Inr (GArr [GStr canonical, GStr s])
               | _ \<Rightarrow> Inl (NotQuoted ident))
      | _ \<Rightarrow> Inl (WrongArity ident))"

definition inForm :: "string \<Rightarrow> string \<Rightarrow> callArg list \<Rightarrow> qs_error + goval" where
  "inForm canonical ident args =
     (if length args < 1 then Inl (WrongArity ident)
      else Inr (GArr (GStr canonical # map argValue args)))"

definition formatForm :: "string \<Rightarrow> callArg list \<Rightarrow> qs_error + goval" where
  "formatForm ident args =
     (case args of
        [] \<Rightarrow> Inl (WrongArity ident)
      | a # as \<Rightarrow> (case a of
                    literalString s \<Rightarrow> Inr (GArr (GStr ''format'' # GStr s # map argValue as))
                  | _ \<Rightarrow> Inl (NotQuoted ident)))"

definition aggForm :: "string \<Rightarrow> callArg list \<Rightarrow> qs_error + goval" where
  "aggForm ident args =
     (case args of
        a # b # bs \<Rightarrow> bindR (functionRefFromArg a) (\<lambda>fn.
                        Inr (GArr [GStr ''agg'', fn, GArr (map argValue (b # bs))]))
      | _ \<Rightarrow> Inl (WrongArity ident))"

definition callFnForm :: "string \<Rightarrow> callArg list \<Rightarrow> qs_error + goval" where
  "callFnForm ident args =
     (case args of
        [] \<Rightarrow> Inl (WrongArity ident)
      | a # as \<Rightarrow> bindR (functionRefFromArg a) (\<lambda>fn.
                    Inr (GArr (GStr ''call'' # fn # map argValue as))))"

text \<open>The words whose tag stands for two operators say which arity they mean.\<close>

definition wordArityOk :: "string \<Rightarrow> nat \<Rightarrow> bool" where
  "wordArityOk ident n =
     (if ident \<in> {''neg'', ''bnot''} then n = 1
      else if ident = ''match'' then n = 2
      else if ident = ''sub'' then 2 \<le> n
      else True)"

definition operatorForm :: "string \<Rightarrow> string \<Rightarrow> callArg list \<Rightarrow> qs_error + goval" where
  "operatorForm canonical ident args =
     (if wordArityOk ident (length args)
      then Inr (GArr (GStr canonical # map argValue args)) else Inl (WrongArity ident))"

text \<open>\<open>parseCall\<close> once its argument list is read.\<close>

definition callForm :: "string \<Rightarrow> callArg list \<Rightarrow> qs_error + goval" where
  "callForm ident args =
     (case callWord ident of
        None \<Rightarrow> bindR (functionRefFromName ident) (\<lambda>fn.
                  Inr (GArr (GStr ''call'' # fn # map argValue args)))
      | Some canonical \<Rightarrow>
          if canonical \<in> {''any'', ''all''} then anyAllForm canonical ident args
          else if canonical \<in> {''bigint'', ''numeric''} then quotedForm canonical ident args
          else if canonical \<in> {''in'', ''not_in''} then inForm canonical ident args
          else if canonical = ''format'' then formatForm ident args
          else if canonical = ''agg'' then aggForm ident args
          else if canonical = ''call'' then callFnForm ident args
          else operatorForm canonical ident args)"

subsection \<open>Expressions\<close>

definition atomValue :: "string \<Rightarrow> goval" where
  "atomValue ident =
     (if ident = ''true'' then GBool True
      else if ident = ''false'' then GBool False
      else if ident = ''null'' then GNil
      else GStr ident)"

text \<open>A raw Go string out of \<open>parseExpr\<close> is an identifier that is not yet decided.\<close>

definition argOfValue :: "goval \<Rightarrow> callArg" where
  "argOfValue v = (case v of GStr s \<Rightarrow> identArg s | _ \<Rightarrow> plainArg v)"

definition parseArgList ::
  "(string \<Rightarrow> qs_error + (callArg list \<times> string)) \<Rightarrow> string \<Rightarrow> qs_error + (callArg list \<times> string)" where
  "parseArgList loop s0 =
     (let s = skipSpace s0 in
      case s of c # cs \<Rightarrow> if c = CHR '')'' then Inr ([], cs) else loop s | [] \<Rightarrow> loop s)"

definition parseCall ::
  "(string \<Rightarrow> qs_error + (callArg list \<times> string)) \<Rightarrow> string \<Rightarrow> string \<Rightarrow> qs_error + (goval \<times> string)" where
  "parseCall loop ident s =
     bindR (parseArgList loop s) (\<lambda>(args, r).
     bindR (callForm ident args) (\<lambda>v. Inr (v, r)))"

fun parseExpr :: "nat \<Rightarrow> string \<Rightarrow> qs_error + (goval \<times> string)"
  and parseArgLoop :: "nat \<Rightarrow> string \<Rightarrow> qs_error + (callArg list \<times> string)" where
  "parseExpr 0 s0 = Inl OutOfFuel"
| "parseExpr (Suc n) s0 =
     (let s = skipSpace s0 in
      case s of
        [] \<Rightarrow> Inl UnexpectedEnd
      | c # cs \<Rightarrow>
          if c = quoteCh then bindR (parseStringLiteral s) (\<lambda>(lit, r). Inr (GStr lit, r))
          else if c = CHR ''-'' \<or> isDigit c then bindR (parseNumber s) (\<lambda>(f, r). Inr (GNum f, r))
          else if isIdentStart c then
            bindR (parseIdentifier s) (\<lambda>(ident, r0).
              let r = skipSpace r0 in
              case r of
                d # ds \<Rightarrow> if d = CHR ''('' then parseCall (parseArgLoop n) ident ds
                          else Inr (atomValue ident, r)
              | [] \<Rightarrow> Inr (atomValue ident, r))
          else Inl (UnexpectedChar c))"
| "parseArgLoop 0 s0 = Inl OutOfFuel"
| "parseArgLoop (Suc n) s0 =
     (let s = skipSpace s0 in
      bindR (case s of
               c # cs \<Rightarrow> if c = quoteCh
                         then bindR (parseStringLiteral s) (\<lambda>(lit, r). Inr (literalString lit, r))
                         else bindR (parseExpr n s) (\<lambda>(v, r). Inr (argOfValue v, r))
             | [] \<Rightarrow> bindR (parseExpr n s) (\<lambda>(v, r). Inr (argOfValue v, r)))
        (\<lambda>(arg, r0).
           case skipSpace r0 of
             [] \<Rightarrow> Inl UnterminatedCall
           | c # cs \<Rightarrow>
               if c = CHR '','' then bindR (parseArgLoop n cs) (\<lambda>(as, r). Inr (arg # as, r))
               else if c = CHR '')'' then Inr ([arg], cs)
               else Inl ExpectedCommaOrParen))"

declare parseExpr.simps [simp del] parseArgLoop.simps [simp del]

definition exprFuel :: "string \<Rightarrow> nat" where
  "exprFuel s = 2 * length s + 2"

subsection \<open>Value positions\<close>

definition topOfValue :: "goval \<Rightarrow> goval" where
  "topOfValue v = (case v of GStr s \<Rightarrow> scopeLookup s | _ \<Rightarrow> v)"

definition parseTopValue :: "string \<Rightarrow> qs_error + (goval \<times> string)" where
  "parseTopValue s0 =
     (let s = skipSpace s0 in
      case s of
        c # cs \<Rightarrow> if c = quoteCh
                  then bindR (parseStringLiteral s) (\<lambda>(lit, r). Inr (GStr lit, r))
                  else bindR (parseExpr (exprFuel s) s) (\<lambda>(v, r). Inr (topOfValue v, r))
      | [] \<Rightarrow> bindR (parseExpr (exprFuel s) s) (\<lambda>(v, r). Inr (topOfValue v, r)))"

definition parseFullExpr :: "string \<Rightarrow> qs_error + goval" where
  "parseFullExpr s =
     bindR (parseTopValue s) (\<lambda>(v, r). if atEnd r then Inr v else Inl TrailingInput)"

text \<open>
  The loop over a comma-separated list that runs to the end of the text.  The source writes it out
  in \<open>parseTopLevelExprList\<close>, \<open>compileOrderBy\<close> and \<open>compileSelectCommaList\<close>, with a different
  reader of one entry each time.
\<close>

fun commaLoop :: "(string \<Rightarrow> qs_error + ('a \<times> string)) \<Rightarrow> nat \<Rightarrow> string \<Rightarrow> qs_error + 'a list" where
  "commaLoop entry 0 s = Inl OutOfFuel"
| "commaLoop entry (Suc n) s =
     bindR (entry s) (\<lambda>(v, r0).
       case skipSpace r0 of
         [] \<Rightarrow> Inr [v]
       | c # cs \<Rightarrow> if c = CHR '','' then bindR (commaLoop entry n cs) (\<lambda>vs. Inr (v # vs))
                   else Inl ExpectedCommaOrEnd)"

text \<open>An empty list is a nil slice, which the JSON encoder writes as \<open>null\<close>.\<close>

definition sliceValue :: "goval list \<Rightarrow> goval" where
  "sliceValue vs = (if vs = [] then GNil else GArr vs)"

definition parseTopLevelExprList :: "string \<Rightarrow> qs_error + goval list" where
  "parseTopLevelExprList s =
     (if atEnd s then Inr [] else commaLoop parseTopValue (Suc (length s)) s)"

end
