(* ===== verification/Query_Grammar.thy ===== *)
theory Query_Grammar
  imports Query_Expr
begin

text \<open>
  The grammar of query-string filter expressions and its relation to the scanner of
  \<open>Query_Expr\<close>.  A \<open>surf\<close> is an expression as written; \<open>derives e t\<close> says that the text
  \<open>t\<close> is a spelling of \<open>e\<close>, with white space wherever the scanner skips it.  The scanner
  is shown to accept exactly the derivable texts, to return their compiled value, and never to
  run out of its fuel.
\<close>

subsection \<open>What scanners leave\<close>

definition consumed :: "string \<Rightarrow> string \<Rightarrow> bool" where
  "consumed s r \<longleftrightarrow> suffix_of r s \<and> length r < length s"

lemma consumed_appendI: "t \<noteq> [] \<Longrightarrow> consumed (t @ r) r"
  by (auto simp: consumed_def suffix_of_def)

lemma consumed_Cons: "suffix_of r cs \<Longrightarrow> consumed (c # cs) r"
  by (auto simp: consumed_def suffix_of_Cons dest: suffix_of_length)

lemma consumed_trans_left: "consumed s r \<Longrightarrow> suffix_of r' r \<Longrightarrow> consumed s r'"
  by (auto simp: consumed_def intro: suffix_of_trans dest: suffix_of_length)

lemma consumed_trans_right: "suffix_of s' s \<Longrightarrow> consumed s' r \<Longrightarrow> consumed s r"
  by (auto simp: consumed_def intro: suffix_of_trans dest: suffix_of_length)

lemma skipSpace_suffix [simp]: "suffix_of (skipSpace s) s"
  by (simp add: skipSpace_def)

lemma skipSpace_length: "length (skipSpace s) \<le> length s"
  by (simp add: suffix_of_length)

lemma skipSpace_idem [simp]: "skipSpace (skipSpace s) = skipSpace s"
  by (simp add: skipSpace_def)

lemma skipSpace_ConsD: "skipSpace s = c # cs \<Longrightarrow> \<not> isSpace c"
  by (simp add: skipSpace_def dropWhile_eq_Cons_conv)

locale scanner =
  fixes scan :: "string \<Rightarrow> qs_error + ('a \<times> string)"
  assumes scan_consumes: "scan s = Inr (v, r) \<Longrightarrow> consumed s r"
    and scan_fuelled: "scan s \<noteq> Inl OutOfFuel"
begin

lemma scan_shorter: "scan s = Inr (v, r) \<Longrightarrow> length r < length s"
  using scan_consumes by (simp add: consumed_def)

lemma commaLoop_fuelled: "length s < n \<Longrightarrow> commaLoop scan n s \<noteq> Inl OutOfFuel"
proof (induction n arbitrary: s)
  case (Suc n)
  have "length cs < n" if "scan s = Inr (v, r)" "skipSpace r = c # cs" for v r c cs
    using scan_shorter [OF that(1)] skipSpace_length [of r] that(2) Suc.prems by simp
  then show ?case
    using Suc.IH scan_fuelled by (auto simp: bindR_eq_Inl_iff split: list.splits)
qed simp

text \<open>More fuel than the length of the text changes nothing: the loop is the unbounded one.\<close>

lemma commaLoop_enough:
  "length s < n \<Longrightarrow> length s < m \<Longrightarrow> commaLoop scan n s = commaLoop scan m s"
proof (induction n arbitrary: s m)
  case (Suc n)
  obtain m' where m: "m = Suc m'" using Suc.prems by (cases m) auto
  show ?case
    unfolding m commaLoop.simps
  proof (rule bindR_cong [OF refl], clarify)
    fix v r assume v: "scan s = Inr (v, r)"
    have eq: "commaLoop scan n cs = commaLoop scan m' cs" if "skipSpace r = c # cs" for c cs
      by (rule Suc.IH)
         (use scan_shorter [OF v] skipSpace_length [of r] that Suc.prems m in simp_all)
    show "(case skipSpace r of [] \<Rightarrow> Inr [v]
        | c # cs \<Rightarrow> if c = CHR '','' then bindR (commaLoop scan n cs) (\<lambda>vs. Inr (v # vs))
            else Inl ExpectedCommaOrEnd) =
        (case skipSpace r of [] \<Rightarrow> Inr [v]
        | c # cs \<Rightarrow> if c = CHR '','' then bindR (commaLoop scan m' cs) (\<lambda>vs. Inr (v # vs))
            else Inl ExpectedCommaOrEnd)"
      by (cases "skipSpace r") (simp_all add: eq)
  qed
qed simp

end

subsection \<open>Tokens\<close>

text \<open>Identifiers: one or more parts joined by dots, each a letter or underscore and then letters,
  underscores and digits.\<close>

definition validPart :: "string \<Rightarrow> bool" where
  "validPart p \<longleftrightarrow> p \<noteq> [] \<and> isIdentStart (hd p) \<and> list_all isIdentPart (tl p)"

definition validIdent :: "string \<Rightarrow> bool" where
  "validIdent i \<longleftrightarrow> list_all validPart (split_on CHR ''.'' i)"

definition validNumber :: "string \<Rightarrow> bool" where
  "validNumber t \<longleftrightarrow>
     (\<exists>sign ds fs. (sign = [] \<or> sign = ''-'') \<and>
        ds \<noteq> [] \<and> list_all isDigit ds \<and> list_all isDigit fs \<and>
        t = sign @ ds @ (if fs = [] then [] else CHR ''.'' # fs))"

definition ws :: "string \<Rightarrow> bool" where
  "ws w \<longleftrightarrow> list_all isSpace w"

definition escapeQuotes :: "string \<Rightarrow> string" where
  "escapeQuotes s = concat (map (\<lambda>c. if c = quoteCh then [quoteCh, quoteCh] else [c]) s)"

definition quoted :: "string \<Rightarrow> string" where
  "quoted s = quoteCh # escapeQuotes s @ [quoteCh]"

lemma escapeQuotes_simps [simp]:
  "escapeQuotes [] = []"
  "escapeQuotes (c # cs) = (if c = quoteCh then quoteCh # quoteCh # escapeQuotes cs else c # escapeQuotes cs)"
  by (simp_all add: escapeQuotes_def)

text \<open>The text may not go on with a character that would belong to the token.\<close>

definition follow :: "string \<Rightarrow> bool" where
  "follow r \<longleftrightarrow> (case skipSpace r of [] \<Rightarrow> True | c # _ \<Rightarrow> c = CHR '','' \<or> c = CHR '')'')"

lemma stringBody_sound:
  "stringBody s = Inr (b, r) \<Longrightarrow> s = escapeQuotes b @ quoteCh # r"
  by (induction s arbitrary: b r rule: stringBody.induct)
     (auto simp: bindR_eq_Inr_iff split: if_splits list.splits)

lemma stringBody_complete:
  "(r = [] \<or> hd r \<noteq> quoteCh) \<Longrightarrow> stringBody (escapeQuotes b @ quoteCh # r) = Inr (b, r)"
  by (induction b) (auto split: list.splits)

lemma parseStringLiteral_sound:
  "parseStringLiteral s = Inr (b, r) \<Longrightarrow> s = quoted b @ r"
  by (auto simp: parseStringLiteral_def quoted_def split: list.splits if_splits dest: stringBody_sound)

lemma parseStringLiteral_complete:
  "(r = [] \<or> hd r \<noteq> quoteCh) \<Longrightarrow> parseStringLiteral (quoted b @ r) = Inr (b, r)"
  by (simp add: parseStringLiteral_def quoted_def stringBody_complete)

lemma parseStringLiteral_fuelled: "parseStringLiteral s \<noteq> Inl OutOfFuel"
proof -
  have "stringBody t \<noteq> Inl OutOfFuel" for t
    by (induction t rule: stringBody.induct) (auto simp: bindR_eq_Inl_iff split: list.splits)
  then show ?thesis by (simp add: parseStringLiteral_def split: list.splits)
qed

definition dotted :: "string list \<Rightarrow> string" where
  "dotted ps = concat (map (\<lambda>p. CHR ''.'' # p) ps)"

lemma dotted_simps [simp]: "dotted [] = []" "dotted (p # ps) = CHR ''.'' # p @ dotted ps"
  by (simp_all add: dotted_def)

lemma join_with_dotted: "join_with CHR ''.'' (p # ps) = p @ dotted ps"
  by (induction ps arbitrary: p) simp_all

lemma dot_not_ident [simp]: "\<not> isIdentPart CHR ''.''" "\<not> isIdentStart CHR ''.''"
  by (simp_all add: isIdentPart_def isIdentStart_def)

lemma identStart_part: "isIdentStart c \<Longrightarrow> isIdentPart c"
  by (simp add: isIdentPart_def)

lemma validPart_no_dot: "validPart p \<Longrightarrow> CHR ''.'' \<notin> set p"
  by (cases p) (auto simp: validPart_def list_all_iff)

lemma validIdent_iff: "validIdent i \<longleftrightarrow> (\<exists>p ps. i = p @ dotted ps \<and> list_all validPart (p # ps))"
proof
  assume v: "validIdent i"
  obtain p ps where "split_on CHR ''.'' i = p # ps"
    by (cases "split_on CHR ''.'' i") auto
  with v show "\<exists>p ps. i = p @ dotted ps \<and> list_all validPart (p # ps)"
    by (metis join_split_on join_with_dotted validIdent_def)
next
  assume "\<exists>p ps. i = p @ dotted ps \<and> list_all validPart (p # ps)"
  then obtain p ps where i: "i = join_with CHR ''.'' (p # ps)" and v: "list_all validPart (p # ps)"
    by (auto simp: join_with_dotted)
  have "split_on CHR ''.'' i = p # ps"
    unfolding i by (rule split_on_join) (use v validPart_no_dot in \<open>auto simp: list_all_iff\<close>)
  with v show "validIdent i" by (simp add: validIdent_def)
qed

lemma validPart_span:
  "isIdentStart c \<Longrightarrow> validPart (c # takeWhile isIdentPart cs)"
  by (auto simp: validPart_def list_all_iff dest: set_takeWhileD)

lemma identTail_sound:
  "identTail s = (t, r) \<Longrightarrow> s = t @ r \<and> (\<exists>ps. t = dotted ps \<and> list_all validPart ps)"
proof (induction s arbitrary: t r rule: identTail.induct)
  case (1 s)
  show ?case
  proof (cases "\<exists>c cs. s = CHR ''.'' # c # cs \<and> isIdentStart c")
    case True
    then obtain c cs where s: "s = CHR ''.'' # c # cs" "isIdentStart c" by blast
    obtain t' r' where t': "identTail (dropWhile isIdentPart cs) = (t', r')" by fastforce
    then have "dropWhile isIdentPart cs = t' @ r' \<and> (\<exists>ps. t' = dotted ps \<and> list_all validPart ps)"
      using "1.IH" s by simp
    then obtain ps where ps: "dropWhile isIdentPart cs = t' @ r'" "t' = dotted ps" "list_all validPart ps"
      by blast
    have "t = dotted ((c # takeWhile isIdentPart cs) # ps)" "r = r'"
      using "1.prems" s t' ps by (auto simp: identTail.simps [of "CHR ''.'' # c # cs"])
    moreover have "s = CHR ''.'' # c # takeWhile isIdentPart cs @ t' @ r'"
      using s ps by (metis takeWhile_dropWhile_id)
    moreover have "list_all validPart ((c # takeWhile isIdentPart cs) # ps)"
      using ps(3) validPart_span [OF s(2)] by simp
    ultimately show ?thesis using ps(2) by fastforce
  next
    case False
    then have "identTail s = ([], s)"
      by (auto simp: identTail.simps [of s] split: list.splits)
    then show ?thesis using "1.prems" by (auto intro: exI [of _ "[]"])
  qed
qed

lemma span_identPart:
  assumes "list_all isIdentPart p" and "r = [] \<or> \<not> isIdentPart (hd r)"
  shows "takeWhile isIdentPart (p @ r) = p" and "dropWhile isIdentPart (p @ r) = r"
  using assms by (induction p) (auto simp: takeWhile_eq_Nil_iff dropWhile_eq_self_iff)

lemma identTail_complete:
  assumes "list_all validPart ps" and "r = [] \<or> \<not> isIdentPart (hd r) \<and> hd r \<noteq> CHR ''.''"
  shows "identTail (dotted ps @ r) = (dotted ps, r)"
  using assms
proof (induction ps)
  case Nil
  then show ?case by (auto simp: identTail.simps [of r] split: list.splits)
next
  case (Cons p ps)
  obtain c cs where p: "p = c # cs" "isIdentStart c" "list_all isIdentPart cs"
    using Cons.prems by (cases p) (auto simp: validPart_def)
  have "dotted ps @ r = [] \<or> \<not> isIdentPart (hd (dotted ps @ r))"
    using Cons.prems by (cases ps) auto
  note span = span_identPart [OF p(3) this]
  have "identTail (dotted ps @ r) = (dotted ps, r)" using Cons by simp
  then show ?case
    using p span by (simp add: identTail.simps [of "CHR ''.'' # c # cs @ dotted ps @ r"])
qed

lemma parseIdentifier_sound:
  "parseIdentifier s = Inr (i, r) \<Longrightarrow> s = i @ r \<and> validIdent i"
proof -
  assume h: "parseIdentifier s = Inr (i, r)"
  then obtain c cs where s: "s = c # cs" "isIdentStart c"
    by (auto simp: parseIdentifier_def split: list.splits if_splits)
  obtain t r' where t: "identTail (dropWhile isIdentPart cs) = (t, r')" by fastforce
  from identTail_sound [OF t] obtain ps where
    ps: "dropWhile isIdentPart cs = t @ r'" "t = dotted ps" "list_all validPart ps" by blast
  have i: "i = (c # takeWhile isIdentPart cs) @ dotted ps" "r = r'"
    using h s t ps by (auto simp: parseIdentifier_def)
  then have "validIdent i"
    unfolding validIdent_iff
    by (intro exI [of _ "c # takeWhile isIdentPart cs"] exI [of _ ps])
       (use ps(3) validPart_span [OF s(2)] in simp)
  moreover have "s = i @ r"
    using i s ps by (metis append.assoc append_Cons takeWhile_dropWhile_id)
  ultimately show ?thesis by simp
qed

lemma parseIdentifier_complete:
  assumes "validIdent i" and "r = [] \<or> \<not> isIdentPart (hd r) \<and> hd r \<noteq> CHR ''.''"
  shows "parseIdentifier (i @ r) = Inr (i, r)"
proof -
  obtain p ps where i: "i = p @ dotted ps" "validPart p" "list_all validPart ps"
    using assms(1) by (auto simp: validIdent_iff)
  obtain c cs where p: "p = c # cs" "isIdentStart c" "list_all isIdentPart cs"
    using i(2) by (cases p) (auto simp: validPart_def)
  have "dotted ps @ r = [] \<or> \<not> isIdentPart (hd (dotted ps @ r))"
    using assms(2) by (cases ps) auto
  note span = span_identPart [OF p(3) this]
  show ?thesis
    using i p span identTail_complete [OF i(3) assms(2)]
    by (simp add: parseIdentifier_def)
qed

lemma span_digits:
  assumes "list_all isDigit p" and "r = [] \<or> \<not> isDigit (hd r)"
  shows "takeWhile isDigit (p @ r) = p" and "dropWhile isDigit (p @ r) = r"
  using assms by (induction p) (auto simp: takeWhile_eq_Nil_iff dropWhile_eq_self_iff)

lemma dash_dot_no_digit [simp]: "\<not> isDigit CHR ''-''" "\<not> isDigit CHR ''.''"
  by (simp_all add: isDigit_def)

lemma takeWhile_list_all: "list_all P (takeWhile P s)"
  by (auto simp: list_all_iff dest: set_takeWhileD)

lemma numberFraction_sound:
  assumes "numberFraction s = (f, r)"
  shows "s = f @ r \<and> (f = [] \<or> (\<exists>fs. fs \<noteq> [] \<and> list_all isDigit fs \<and> f = CHR ''.'' # fs))"
proof (cases "\<exists>c cs. s = CHR ''.'' # c # cs \<and> isDigit c")
  case True
  then obtain c cs where s: "s = CHR ''.'' # c # cs" "isDigit c" by blast
  then have f: "f = CHR ''.'' # takeWhile isDigit (c # cs)" "r = dropWhile isDigit (c # cs)"
    using assms by (auto simp: numberFraction_def)
  have "takeWhile isDigit (c # cs) \<noteq> []" using s by simp
  with f s show ?thesis
    using takeWhile_list_all [of isDigit "c # cs"] by (metis append_Cons takeWhile_dropWhile_id)
next
  case False
  then show ?thesis
    using assms by (auto simp: numberFraction_def split: list.splits if_splits)
qed

lemma numberFraction_complete:
  assumes "list_all isDigit fs" and "r = [] \<or> \<not> isDigit (hd r) \<and> hd r \<noteq> CHR ''.''"
  shows "numberFraction ((if fs = [] then [] else CHR ''.'' # fs) @ r) =
    (if fs = [] then [] else CHR ''.'' # fs, r)"
proof (cases fs)
  case Nil
  then show ?thesis using assms by (auto simp: numberFraction_def split: list.splits)
next
  case (Cons c cs)
  then show ?thesis
    using span_digits [OF assms(1), of r] assms by (auto simp: numberFraction_def)
qed

lemma numberText_sound:
  assumes "numberText s = Inr (t, r)"
  shows "s = t @ r \<and> validNumber t"
proof -
  obtain sign s1 where sg: "(case s of c # cs \<Rightarrow> if c = CHR ''-'' then ([c], cs) else ([], s) | [] \<Rightarrow> ([], s))
      = (sign, s1)" by fastforce
  then have s: "s = sign @ s1" "sign = [] \<or> sign = ''-''"
    by (auto split: list.splits if_splits)
  obtain f r' where f: "numberFraction (dropWhile isDigit s1) = (f, r')" by fastforce
  let ?ds = "takeWhile isDigit s1"
  have t: "?ds \<noteq> []" "t = sign @ ?ds @ f" "r = r'"
    using assms sg f by (auto simp: numberText_def Let_def split: if_splits)
  note fr = numberFraction_sound [OF f]
  have "validNumber t"
  proof (cases "f = []")
    case True
    then show ?thesis unfolding validNumber_def
      by (intro exI [of _ sign] exI [of _ ?ds] exI [of _ "[]"]) (use t s in \<open>auto simp: takeWhile_list_all\<close>)
  next
    case False
    then obtain fs where "fs \<noteq> []" "list_all isDigit fs" "f = CHR ''.'' # fs" using fr by blast
    then show ?thesis unfolding validNumber_def
      by (intro exI [of _ sign] exI [of _ ?ds] exI [of _ fs]) (use t s in \<open>auto simp: takeWhile_list_all\<close>)
  qed
  moreover have "s = t @ r"
    using t s fr by (metis append.assoc takeWhile_dropWhile_id)
  ultimately show ?thesis by simp
qed

lemma numberText_complete:
  assumes "validNumber t" and "r = [] \<or> \<not> isDigit (hd r) \<and> hd r \<noteq> CHR ''.''"
  shows "numberText (t @ r) = Inr (t, r)"
proof -
  obtain ds fs sign where d: "ds \<noteq> []" "list_all isDigit ds" "list_all isDigit fs"
    and t: "t = sign @ ds @ (if fs = [] then [] else CHR ''.'' # fs)" "sign = [] \<or> sign = ''-''"
    using assms(1) unfolding validNumber_def by blast
  define f where "f = (if fs = [] then [] else CHR ''.'' # fs)"
  have fr: "numberFraction (f @ r) = (f, r)"
    unfolding f_def by (rule numberFraction_complete [OF d(3) assms(2)])
  have "f @ r = [] \<or> \<not> isDigit (hd (f @ r))" using assms(2) by (auto simp: f_def)
  note span = span_digits [OF d(2) this]
  obtain c cs where "ds = c # cs" using d(1) by (cases ds) auto
  moreover have "c \<noteq> CHR ''-''" using calculation d(2) by auto
  ultimately have eq: "(case t @ r of c # cs \<Rightarrow> if c = CHR ''-'' then ([c], cs) else ([], t @ r) | [] \<Rightarrow> ([], t @ r))
      = (sign, ds @ f @ r)"
    using t by (auto simp: f_def)
  show ?thesis
    unfolding numberText_def eq using span fr d(1) t(1) by (simp flip: f_def)
qed

subsection \<open>The grammar\<close>

datatype surf = SStr string | SNum string | SIdent string | SCall string "surf list"

text \<open>\<open>derivesArgs es t\<close>: \<open>t\<close> spells the arguments and the closing parenthesis.\<close>

inductive derives :: "surf \<Rightarrow> string \<Rightarrow> bool"
  and derivesArgs :: "surf list \<Rightarrow> string \<Rightarrow> bool" where
  str: "derives (SStr s) (quoted s)"
| num: "validNumber t \<Longrightarrow> derives (SNum t) t"
| ident: "validIdent i \<Longrightarrow> derives (SIdent i) i"
| call: "validIdent f \<Longrightarrow> ws w \<Longrightarrow> derivesArgs es t \<Longrightarrow>
     derives (SCall f es) (f @ w @ CHR ''('' # t)"
| noArgs: "ws w \<Longrightarrow> derivesArgs [] (w @ '')'')"
| lastArg: "ws w \<Longrightarrow> derives e t \<Longrightarrow> ws w' \<Longrightarrow> derivesArgs [e] (w @ t @ w' @ '')'')"
| moreArgs: "ws w \<Longrightarrow> derives e t \<Longrightarrow> ws w' \<Longrightarrow> derivesArgs (e' # es) t' \<Longrightarrow>
     derivesArgs (e # e' # es) (w @ t @ w' @ CHR '','' # t')"

text \<open>The value of a surface expression: what the grammar's compiler promises for it.\<close>

fun surfVal :: "surf \<Rightarrow> qs_error + goval"
  and surfArg :: "surf \<Rightarrow> qs_error + callArg" where
  "surfVal (SStr s) = Inr (GStr s)"
| "surfVal (SNum t) = (case ParseFloat t of None \<Rightarrow> Inl (InvalidNumber t) | Some f \<Rightarrow> Inr (GNum f))"
| "surfVal (SIdent i) = Inr (atomValue i)"
| "surfVal (SCall f es) = bindR (traverse surfArg es) (callForm f)"
| "surfArg (SStr s) = Inr (literalString s)"
| "surfArg (SNum t) = bindR (surfVal (SNum t)) (\<lambda>v. Inr (argOfValue v))"
| "surfArg (SIdent i) = bindR (surfVal (SIdent i)) (\<lambda>v. Inr (argOfValue v))"
| "surfArg (SCall f es) = bindR (surfVal (SCall f es)) (\<lambda>v. Inr (argOfValue v))"

fun surfTop :: "surf \<Rightarrow> qs_error + goval" where
  "surfTop (SStr s) = Inr (GStr s)"
| "surfTop e = bindR (surfVal e) (\<lambda>v. Inr (topOfValue v))"

subsection \<open>Every derivable text is accepted\<close>

definition startOf :: "surf \<Rightarrow> char \<Rightarrow> bool" where
  "startOf e c = (case e of SStr _ \<Rightarrow> c = quoteCh | SNum _ \<Rightarrow> c = CHR ''-'' \<or> isDigit c | _ \<Rightarrow> isIdentStart c)"

lemma validIdent_start: "validIdent i \<Longrightarrow> \<exists>c cs. i = c # cs \<and> isIdentStart c"
  by (auto simp: validIdent_iff validPart_def) (metis append_Cons list.collapse)

lemma validNumber_start: "validNumber t \<Longrightarrow> \<exists>c cs. t = c # cs \<and> (c = CHR ''-'' \<or> isDigit c)"
  by (auto simp: validNumber_def neq_Nil_conv)

lemma derives_start: "derives e t \<Longrightarrow> \<exists>c cs. t = c # cs \<and> startOf e c"
  by (erule derives.cases)
     (auto simp: startOf_def quoted_def dest: validIdent_start validNumber_start)

text \<open>The classes of characters the scanner tells apart do not meet.\<close>

lemma identStart_classes:
  "isIdentStart c \<Longrightarrow> \<not> isSpace c \<and> \<not> isDigit c \<and> c \<noteq> quoteCh \<and> c \<noteq> CHR ''-'' \<and>
     c \<noteq> CHR ''('' \<and> c \<noteq> CHR '')'' \<and> c \<noteq> CHR '',''"
  by (auto simp: isIdentStart_def isSpace_def isDigit_def less_eq_char_def)

lemma digit_classes:
  "isDigit c \<Longrightarrow> \<not> isSpace c \<and> c \<noteq> quoteCh \<and> c \<noteq> CHR '')'' \<and> c \<noteq> CHR '',''"
  by (auto simp: isSpace_def isDigit_def)

lemma punctuation_classes [simp]:
  "\<not> isSpace CHR ''(''" "\<not> isSpace CHR '')''" "\<not> isSpace CHR '',''" "\<not> isSpace CHR ''-''"
  "\<not> isSpace quoteCh" "\<not> isIdentPart CHR ''(''" "\<not> isIdentPart CHR '')''" "\<not> isIdentPart CHR '',''"
  "\<not> isDigit CHR ''(''" "\<not> isDigit CHR '')''" "\<not> isDigit CHR '',''"
  by (simp_all add: isSpace_def isIdentPart_def isIdentStart_def isDigit_def)

lemma space_classes:
  "isSpace c \<Longrightarrow> \<not> isIdentPart c \<and> \<not> isDigit c \<and> c \<noteq> quoteCh \<and> c \<noteq> CHR ''.''"
  by (auto simp: isSpace_def isIdentPart_def isIdentStart_def isDigit_def)

lemma startOf_classes: "startOf e c \<Longrightarrow> \<not> isSpace c \<and> c \<noteq> CHR '')'' \<and> c \<noteq> CHR '',''"
  by (auto simp: startOf_def split: surf.splits dest: identStart_classes digit_classes)

lemma skipSpace_ws: "ws w \<Longrightarrow> skipSpace (w @ s) = skipSpace s"
  by (induction w) (auto simp: ws_def skipSpace_def)

lemma skipSpace_nonspace [simp]: "\<not> isSpace c \<Longrightarrow> skipSpace (c # cs) = c # cs"
  by (simp add: skipSpace_def)

lemma skipSpace_Nil [simp]: "skipSpace [] = []"
  by (simp add: skipSpace_def)

lemma skipSpace_decompose: "\<exists>w. ws w \<and> s = w @ skipSpace s"
  by (metis skipSpace_def takeWhile_dropWhile_id takeWhile_list_all ws_def)

lemma follow_hd:
  assumes "follow r"
  shows "r = [] \<or> \<not> isIdentPart (hd r) \<and> hd r \<noteq> CHR ''.'' \<and> \<not> isDigit (hd r) \<and> hd r \<noteq> quoteCh"
proof (cases r)
  case (Cons c cs)
  then show ?thesis
    using assms space_classes by (cases "isSpace c") (auto simp: follow_def)
qed simp

lemma follow_close [simp]: "follow (CHR '')'' # s)" "follow (CHR '','' # s)" "follow []"
  by (simp_all add: follow_def)

lemma follow_ws: "ws w \<Longrightarrow> follow (w @ s) = follow s"
  by (simp add: follow_def skipSpace_ws)

definition agrees :: "qs_error + ('a \<times> string) \<Rightarrow> qs_error + 'a \<Rightarrow> string \<Rightarrow> bool" where
  "agrees p v rest \<longleftrightarrow>
     (case v of Inl e \<Rightarrow> p = Inl e | Inr x \<Rightarrow> (\<exists>r. p = Inr (x, r) \<and> skipSpace r = skipSpace rest))"

lemma agrees_simps [simp]:
  "agrees p (Inl e) rest \<longleftrightarrow> p = Inl e"
  "agrees p (Inr x) rest \<longleftrightarrow> (\<exists>r. p = Inr (x, r) \<and> skipSpace r = skipSpace rest)"
  by (simp_all add: agrees_def)

lemma parseArgLoop_skip: "parseArgLoop n (skipSpace s) = parseArgLoop n s"
  by (cases n) (simp_all add: parseArgLoop.simps)

lemma parseExpr_skip: "parseExpr n (skipSpace s) = parseExpr n s"
  by (cases n) (simp_all add: parseExpr.simps)

text \<open>One argument, as the argument loop reads it.\<close>

definition parseArg :: "nat \<Rightarrow> string \<Rightarrow> qs_error + (callArg \<times> string)" where
  "parseArg n s =
     (case s of
        c # cs \<Rightarrow> if c = quoteCh
                  then bindR (parseStringLiteral s) (\<lambda>(lit, r). Inr (literalString lit, r))
                  else bindR (parseExpr n s) (\<lambda>(v, r). Inr (argOfValue v, r))
      | [] \<Rightarrow> bindR (parseExpr n s) (\<lambda>(v, r). Inr (argOfValue v, r)))"

lemma parseArgLoop_Suc:
  "parseArgLoop (Suc n) s =
     bindR (parseArg n (skipSpace s)) (\<lambda>(arg, r0).
       case skipSpace r0 of
         [] \<Rightarrow> Inl UnterminatedCall
       | c # cs \<Rightarrow>
           if c = CHR '','' then bindR (parseArgLoop n cs) (\<lambda>(as, r). Inr (arg # as, r))
           else if c = CHR '')'' then Inr ([arg], cs)
           else Inl ExpectedCommaOrParen)"
  by (simp add: parseArgLoop.simps parseArg_def Let_def)

lemma parseArg_complete:
  assumes d: "derives e t" and f: "follow rest"
    and IH: "agrees (parseExpr n (t @ rest)) (surfVal e) rest"
  shows "agrees (parseArg n (t @ rest)) (surfArg e) rest"
proof -
  obtain c cs where t: "t = c # cs" "startOf e c" using derives_start [OF d] by blast
  show ?thesis
  proof (cases e)
    case (SStr x)
    then have "t = quoted x" using d by (auto elim: derives.cases)
    then have "parseStringLiteral (t @ rest) = Inr (x, rest)"
      using follow_hd [OF f] parseStringLiteral_complete by blast
    then show ?thesis
      using SStr t by (simp add: parseArg_def startOf_def)
  next
    case (SNum x)
    then have "c \<noteq> quoteCh" using t digit_classes by (auto simp: startOf_def)
    then show ?thesis
      using IH SNum t by (cases "surfVal e") (auto simp: parseArg_def)
  next
    case (SIdent x)
    then have "c \<noteq> quoteCh" using t identStart_classes by (auto simp: startOf_def)
    then show ?thesis
      using IH SIdent t by (cases "surfVal e") (auto simp: parseArg_def)
  next
    case (SCall x es)
    then have "c \<noteq> quoteCh" using t identStart_classes by (auto simp: startOf_def)
    then show ?thesis
      using IH SCall t by (cases "surfVal e") (auto simp: parseArg_def simp del: surfVal.simps)
  qed
qed

lemma parseExpr_ident_complete:
  assumes "validIdent i" and "follow rest"
  shows "parseExpr (Suc n) (i @ rest) = Inr (atomValue i, skipSpace rest)"
proof -
  obtain c cs where i: "i = c # cs" "isIdentStart c" using validIdent_start [OF assms(1)] by blast
  have "parseIdentifier (i @ rest) = Inr (i, rest)"
    using assms follow_hd by (intro parseIdentifier_complete) auto
  then show ?thesis
    using i identStart_classes [OF i(2)] assms(2)
    by (auto simp: parseExpr.simps follow_def split: list.splits)
qed

lemma parseExpr_call_complete:
  assumes "validIdent f" and "ws w"
  shows "parseExpr (Suc n) (f @ w @ CHR ''('' # t) = parseCall (parseArgLoop n) f t"
proof -
  obtain c cs where f: "f = c # cs" "isIdentStart c" using validIdent_start [OF assms(1)] by blast
  have "parseIdentifier (f @ w @ CHR ''('' # t) = Inr (f, w @ CHR ''('' # t)"
    using assms space_classes
    by (intro parseIdentifier_complete) (cases w; auto simp: ws_def)+
  then show ?thesis
    using f identStart_classes [OF f(2)] skipSpace_ws [OF assms(2), of "CHR ''('' # t"]
    by (simp add: parseExpr.simps)
qed

lemma parseArgLoop_last:
  assumes "agrees (parseArg n (t @ w' @ CHR '')'' # rest)) (surfArg e) (w' @ CHR '')'' # rest)"
    and "ws w" and "ws w'" and "derives e t"
  shows "parseArgLoop (Suc n) (w @ t @ w' @ CHR '')'' # rest) =
     bindR (traverse surfArg [e]) (\<lambda>as. Inr (as, rest))"
proof -
  have "skipSpace (w @ t @ w' @ CHR '')'' # rest) = t @ w' @ CHR '')'' # rest"
    using derives_start [OF assms(4)] startOf_classes assms(2) by (force simp: skipSpace_ws)
  then show ?thesis
    using assms(1,3) by (cases "surfArg e") (auto simp: parseArgLoop_Suc skipSpace_ws)
qed

lemma parseArgLoop_more:
  assumes "agrees (parseArg n (t @ w' @ CHR '','' # s)) (surfArg e) (w' @ CHR '','' # s)"
    and "ws w" and "ws w'" and "derives e t"
    and "parseArgLoop n s = bindR (traverse surfArg es) (\<lambda>as. Inr (as, rest))"
  shows "parseArgLoop (Suc n) (w @ t @ w' @ CHR '','' # s) =
     bindR (traverse surfArg (e # es)) (\<lambda>as. Inr (as, rest))"
proof -
  have "skipSpace (w @ t @ w' @ CHR '','' # s) = t @ w' @ CHR '','' # s"
    using derives_start [OF assms(4)] startOf_classes assms(2) by (force simp: skipSpace_ws)
  then show ?thesis
    using assms(1,3,5)
    by (cases "surfArg e"; cases "traverse surfArg es") (auto simp: parseArgLoop_Suc skipSpace_ws)
qed

lemma derivesArgs_start:
  assumes "derivesArgs (e # es) t"
  shows "\<exists>c cs. skipSpace (t @ rest) = c # cs \<and> c \<noteq> CHR '')''"
  using assms
proof (cases rule: derivesArgs.cases)
  case (lastArg w t' w')
  then show ?thesis
    using derives_start startOf_classes by (force simp: skipSpace_ws)
next
  case (moreArgs w t' w' e' es' t'')
  then show ?thesis
    using derives_start startOf_classes by (force simp: skipSpace_ws)
qed

lemma parseArgList_complete:
  assumes "derivesArgs es t"
    and "es \<noteq> [] \<Longrightarrow> parseArgLoop n (t @ rest) = bindR (traverse surfArg es) (\<lambda>as. Inr (as, rest))"
  shows "parseArgList (parseArgLoop n) (t @ rest) = bindR (traverse surfArg es) (\<lambda>as. Inr (as, rest))"
proof (cases es)
  case Nil
  then obtain w where "t = w @ '')''" "ws w" using assms(1) by (auto elim: derivesArgs.cases)
  then show ?thesis by (simp add: parseArgList_def skipSpace_ws Nil)
next
  case (Cons e es')
  obtain c cs where "skipSpace (t @ rest) = c # cs" "c \<noteq> CHR '')''"
    using derivesArgs_start assms(1) Cons by blast
  then show ?thesis
    using assms(2) Cons parseArgLoop_skip [of n "t @ rest"] by (simp add: parseArgList_def)
qed

lemma parseExpr_complete:
  "derives e t \<Longrightarrow>
     (\<forall>rest n. follow rest \<longrightarrow> 2 * length (t @ rest) + 1 \<le> n \<longrightarrow>
        agrees (parseExpr n (t @ rest)) (surfVal e) rest)"
  "derivesArgs es t \<Longrightarrow>
     (\<forall>rest n. es \<noteq> [] \<longrightarrow> 2 * length (t @ rest) + 2 \<le> n \<longrightarrow>
        parseArgLoop n (t @ rest) = bindR (traverse surfArg es) (\<lambda>as. Inr (as, rest)))"
proof (induction rule: derives_derivesArgs.inducts)
  case (str s)
  show ?case
  proof (intro allI impI)
    fix rest n assume h: "follow rest" "2 * length (quoted s @ rest) + 1 \<le> n"
    then obtain m where n: "n = Suc m" by (cases n) auto
    have "parseStringLiteral (quoted s @ rest) = Inr (s, rest)"
      using parseStringLiteral_complete follow_hd [OF h(1)] by blast
    then show "agrees (parseExpr n (quoted s @ rest)) (surfVal (SStr s)) rest"
      unfolding n by (simp add: parseExpr.simps quoted_def)
  qed
next
  case (num t)
  obtain c cs where t: "t = c # cs" "c = CHR ''-'' \<or> isDigit c" using validNumber_start [OF num] by blast
  show ?case
  proof (intro allI impI)
    fix rest n assume h: "follow rest" "2 * length (t @ rest) + 1 \<le> n"
    then obtain m where n: "n = Suc m" by (cases n) auto
    have "numberText (t @ rest) = Inr (t, rest)"
      using numberText_complete [OF num] follow_hd [OF h(1)] by blast
    then show "agrees (parseExpr n (t @ rest)) (surfVal (SNum t)) rest"
      unfolding n using t digit_classes [of c]
      by (cases "ParseFloat t") (auto simp: parseExpr.simps parseNumber_def)
  qed
next
  case (ident i)
  then show ?case
    by (metis (no_types, lifting) Suc_eq_plus1 Suc_le_D agrees_simps(2) parseExpr_ident_complete
        skipSpace_idem surfVal.simps(3))
next
  case (call f w es t)
  show ?case
  proof (intro allI impI)
    fix rest n assume h: "follow rest" "2 * length ((f @ w @ CHR ''('' # t) @ rest) + 1 \<le> n"
    then obtain m where n: "n = Suc m" by (cases n) auto
    have f: "length f \<ge> 1" using validIdent_start [OF call.hyps(1)] by auto
    have "parseArgList (parseArgLoop m) (t @ rest) = bindR (traverse surfArg es) (\<lambda>as. Inr (as, rest))"
      by (rule parseArgList_complete [OF call.hyps(3)]) (use call.IH h f n in auto)
    then have "parseExpr n ((f @ w @ CHR ''('' # t) @ rest) = bindR (surfVal (SCall f es)) (\<lambda>v. Inr (v, rest))"
      using parseExpr_call_complete [OF call.hyps(1,2), of m "t @ rest"] n
      by (cases "traverse surfArg es"; cases "callForm f (projr (traverse surfArg es))")
         (auto simp: parseCall_def)
    then show "agrees (parseExpr n ((f @ w @ CHR ''('' # t) @ rest)) (surfVal (SCall f es)) rest"
      by (cases "surfVal (SCall f es)") auto
  qed
next
  case (noArgs w)
  then show ?case by simp
next
  case (lastArg w e t w')
  show ?case
  proof (intro allI impI)
    fix rest n assume h: "2 * length ((w @ t @ w' @ '')'') @ rest) + 2 \<le> n"
    then obtain m where n: "n = Suc m" by (cases n) auto
    have f: "follow (w' @ CHR '')'' # rest)" using lastArg.hyps by (simp add: follow_ws)
    have "agrees (parseExpr m (t @ w' @ CHR '')'' # rest)) (surfVal e) (w' @ CHR '')'' # rest)"
      using lastArg.IH f h n by simp
    from parseArgLoop_last [OF parseArg_complete [OF lastArg.hyps(2) f this] lastArg.hyps(1,3,2)]
    show "parseArgLoop n ((w @ t @ w' @ '')'') @ rest) =
        bindR (traverse surfArg [e]) (\<lambda>as. Inr (as, rest))"
      by (simp add: n)
  qed
next
  case (moreArgs w e t w' e' es t')
  show ?case
  proof (intro allI impI)
    fix rest n assume h: "2 * length ((w @ t @ w' @ CHR '','' # t') @ rest) + 2 \<le> n"
    then obtain m where n: "n = Suc m" by (cases n) auto
    have f: "follow (w' @ CHR '','' # t' @ rest)" using moreArgs.hyps by (simp add: follow_ws)
    have "agrees (parseExpr m (t @ w' @ CHR '','' # t' @ rest)) (surfVal e) (w' @ CHR '','' # t' @ rest)"
      using moreArgs.IH(1) f h n by simp
    note a = parseArg_complete [OF moreArgs.hyps(2) f this]
    have "parseArgLoop m (t' @ rest) = bindR (traverse surfArg (e' # es)) (\<lambda>as. Inr (as, rest))"
      using moreArgs.IH(2) h n by simp
    from parseArgLoop_more [OF a moreArgs.hyps(1,3,2) this]
    show "parseArgLoop n ((w @ t @ w' @ CHR '','' # t') @ rest) =
        bindR (traverse surfArg (e # e' # es)) (\<lambda>as. Inr (as, rest))"
      by (simp add: n)
  qed
qed

subsection \<open>Every accepted text is derivable\<close>

definition spells :: "surf \<Rightarrow> string \<Rightarrow> string \<Rightarrow> bool" where
  "spells e s r \<longleftrightarrow> (\<exists>w t w'. ws w \<and> ws w' \<and> s = w @ t @ w' @ r \<and> derives e t)"

lemma ws_Nil [simp]: "ws []"
  by (simp add: ws_def)

lemma spells_skip: "spells e (skipSpace s) r \<Longrightarrow> spells e s r"
  unfolding spells_def by (metis append.assoc list_all_append skipSpace_decompose ws_def)

lemma spells_tail: "derives e t \<Longrightarrow> ws w' \<Longrightarrow> s = t @ w' @ r \<Longrightarrow> spells e s r"
  unfolding spells_def by (metis append_Nil ws_Nil)

lemma surfVal_arg: "surfVal e = Inr v \<Longrightarrow> (\<And>x. e \<noteq> SStr x) \<Longrightarrow> surfArg e = Inr (argOfValue v)"
  by (cases e) auto

lemma parseArgList_sound:
  assumes "parseArgList loop s = Inr (as, r)"
    and "\<And>s as r. loop s = Inr (as, r) \<Longrightarrow>
        \<exists>es t. es \<noteq> [] \<and> s = t @ r \<and> derivesArgs es t \<and> traverse surfArg es = Inr as"
  shows "\<exists>es t. s = t @ r \<and> derivesArgs es t \<and> traverse surfArg es = Inr as"
proof -
  obtain w where w: "ws w" "s = w @ skipSpace s" using skipSpace_decompose by blast
  show ?thesis
  proof (cases "\<exists>cs. skipSpace s = CHR '')'' # cs")
    case True
    then obtain cs where cs: "skipSpace s = CHR '')'' # cs" by blast
    then have "as = []" "r = cs" using assms(1) by (auto simp: parseArgList_def)
    then show ?thesis
      using w cs noArgs [OF w(1)] by (intro exI [of _ "[]"] exI [of _ "w @ '')''"]) auto
  next
    case False
    then have "loop (skipSpace s) = Inr (as, r)"
      using assms(1) by (cases "skipSpace s") (auto simp: parseArgList_def Let_def split: if_splits)
    from assms(2) [OF this] obtain es t where
      e: "es \<noteq> []" "skipSpace s = t @ r" "derivesArgs es t" "traverse surfArg es = Inr as" by blast
    have "derivesArgs es (w @ t)"
      using e(3,1)
    proof (cases rule: derivesArgs.cases)
      case (lastArg w1 e1 t1 w2)
      then show ?thesis
        using derives_derivesArgs.lastArg [of "w @ w1" e1 t1 w2] w(1) by (simp add: ws_def)
    next
      case (moreArgs w1 e1 t1 w2 e2 es2 t2)
      then show ?thesis
        using derives_derivesArgs.moreArgs [of "w @ w1" e1 t1 w2 e2 es2 t2] w(1) by (simp add: ws_def)
    qed simp
    then show ?thesis using e w by (metis append.assoc)
  qed
qed

lemma parseArg_sound:
  assumes "parseArg n s = Inr (a, r)"
    and "\<And>v r. parseExpr n s = Inr (v, r) \<Longrightarrow> \<exists>e. spells e s r \<and> surfVal e = Inr v \<and>
           ((\<exists>x. e = SStr x) \<longrightarrow> (\<exists>cs. skipSpace s = quoteCh # cs))"
    and "\<not> (\<exists>c cs. s = c # cs \<and> isSpace c)"
  shows "\<exists>e. spells e s r \<and> surfArg e = Inr a"
proof (cases "\<exists>cs. s = quoteCh # cs")
  case True
  then obtain lit where l: "parseStringLiteral s = Inr (lit, r)" "a = literalString lit"
    using assms(1) by (auto simp: parseArg_def bindR_eq_Inr_iff)
  then have "spells (SStr lit) s r"
    using parseStringLiteral_sound [OF l(1)] by (intro spells_tail [of _ "quoted lit" "[]"]) (auto intro: str)
  then show ?thesis using l(2) by (metis surfArg.simps(1))
next
  case False
  then obtain v where v: "parseExpr n s = Inr (v, r)" "a = argOfValue v"
    using assms(1) by (auto simp: parseArg_def bindR_eq_Inr_iff split: list.splits if_splits)
  moreover have "\<not> (\<exists>cs. skipSpace s = quoteCh # cs)"
    using False assms(3) by (cases s) auto
  ultimately show ?thesis
    using assms(2) [OF v(1)] surfVal_arg by blast
qed

lemma parseExpr_step_sound:
  assumes "parseExpr (Suc n) s = Inr (v, r)"
    and loop: "\<And>s as r. parseArgLoop n s = Inr (as, r) \<Longrightarrow>
        \<exists>es t. es \<noteq> [] \<and> s = t @ r \<and> derivesArgs es t \<and> traverse surfArg es = Inr as"
  shows "\<exists>e. spells e s r \<and> surfVal e = Inr v \<and>
     ((\<exists>x. e = SStr x) \<longrightarrow> (\<exists>cs. skipSpace s = quoteCh # cs))"
proof -
  obtain c cs where s: "skipSpace s = c # cs"
    using assms(1) by (cases "skipSpace s") (auto simp: parseExpr.simps)
  consider (q) "c = quoteCh" | (n) "c \<noteq> quoteCh" "c = CHR ''-'' \<or> isDigit c"
    | (i) "c \<noteq> quoteCh" "\<not> (c = CHR ''-'' \<or> isDigit c)" "isIdentStart c"
    using assms(1) s by (auto simp: parseExpr.simps Let_def split: if_splits)
  then show ?thesis
  proof cases
    case q
    then obtain lit where l: "parseStringLiteral (c # cs) = Inr (lit, r)" "v = GStr lit"
      using assms(1) s by (auto simp: parseExpr.simps bindR_eq_Inr_iff)
    then have "spells (SStr lit) (skipSpace s) r"
      using s parseStringLiteral_sound [OF l(1)]
      by (intro spells_tail [of _ "quoted lit" "[]"]) (auto intro: str)
    then show ?thesis using l q s by (metis spells_skip surfVal.simps(1))
  next
    case n
    then obtain t f where l: "numberText (c # cs) = Inr (t, r)" "ParseFloat t = Some f" "v = GNum f"
      using assms(1) s
      by (auto simp: parseExpr.simps bindR_eq_Inr_iff parseNumber_def split: option.splits)
    then have "spells (SNum t) (skipSpace s) r"
      using s numberText_sound [OF l(1)] by (intro spells_tail [of _ t "[]"]) (auto intro: num)
    then show ?thesis using l by (metis option.simps(5) spells_skip surf.distinct(1) surfVal.simps(2))
  next
    case i
    then obtain id r0 where id: "parseIdentifier (c # cs) = Inr (id, r0)"
      using assms(1) s by (auto simp: parseExpr.simps bindR_eq_Inr_iff)
    then have t: "c # cs = id @ r0" "validIdent id" using parseIdentifier_sound by blast+
    obtain w where w: "ws w" "r0 = w @ skipSpace r0" using skipSpace_decompose by blast
    show ?thesis
    proof (cases "\<exists>ds. skipSpace r0 = CHR ''('' # ds")
      case True
      then obtain ds where ds: "skipSpace r0 = CHR ''('' # ds" by blast
      then obtain as where as: "parseArgList (parseArgLoop n) ds = Inr (as, r)" "callForm id as = Inr v"
        using assms(1) s i id by (auto simp: parseExpr.simps bindR_eq_Inr_iff parseCall_def)
      from parseArgList_sound [OF as(1) loop] obtain es t' where
        e: "ds = t' @ r" "derivesArgs es t'" "traverse surfArg es = Inr as" by blast
      have "spells (SCall id es) (skipSpace s) r"
        by (rule spells_tail [OF call [OF t(2) w(1) e(2)], of "[]"]) (use s t w ds e in auto)
      then show ?thesis using e as by (intro exI [of _ "SCall id es"]) (auto intro: spells_skip)
    next
      case False
      then have "v = atomValue id" "r = skipSpace r0"
        using assms(1) s i id by (auto simp: parseExpr.simps Let_def split: list.splits if_splits)
      moreover have "spells (SIdent id) (skipSpace s) (skipSpace r0)"
        using t s w by (intro spells_tail [of _ id w]) (auto intro: ident)
      ultimately show ?thesis
        by (intro exI [of _ "SIdent id"]) (auto intro: spells_skip)
    qed
  qed
qed

lemma parseArgLoop_step_sound:
  assumes "parseArgLoop (Suc n) s = Inr (as, r)"
    and expr: "\<And>s v r. parseExpr n s = Inr (v, r) \<Longrightarrow> \<exists>e. spells e s r \<and> surfVal e = Inr v \<and>
        ((\<exists>x. e = SStr x) \<longrightarrow> (\<exists>cs. skipSpace s = quoteCh # cs))"
    and loop: "\<And>s as r. parseArgLoop n s = Inr (as, r) \<Longrightarrow>
        \<exists>es t. es \<noteq> [] \<and> s = t @ r \<and> derivesArgs es t \<and> traverse surfArg es = Inr as"
  shows "\<exists>es t. es \<noteq> [] \<and> s = t @ r \<and> derivesArgs es t \<and> traverse surfArg es = Inr as"
proof -
  obtain a r0 where a0: "parseArg n (skipSpace s) = Inr (a, r0)"
    using assms(1) by (auto simp: parseArgLoop_Suc bindR_eq_Inr_iff)
  then obtain c cs where a: "parseArg n (skipSpace s) = Inr (a, r0)" "skipSpace r0 = c # cs"
    using assms(1) by (cases "skipSpace r0") (auto simp: parseArgLoop_Suc)
  then have k: "(if c = CHR '','' then bindR (parseArgLoop n cs) (\<lambda>(as, r). Inr (a # as, r))
             else if c = CHR '')'' then Inr ([a], cs) else Inl ExpectedCommaOrParen) = Inr (as, r)"
    using assms(1) by (simp add: parseArgLoop_Suc)
  have "\<not> (\<exists>c cs. skipSpace s = c # cs \<and> isSpace c)" using skipSpace_ConsD by blast
  with parseArg_sound [OF a(1) expr] obtain e where e: "spells e s r0" "surfArg e = Inr a"
    using spells_skip by blast
  obtain w1 where w1: "ws w1" "r0 = w1 @ skipSpace r0" using skipSpace_decompose by blast
  from e(1) obtain w t w' where s: "ws w" "ws w'" "s = w @ t @ w' @ r0" "derives e t"
    unfolding spells_def by blast
  have w2: "ws (w' @ w1)" using s(2) w1(1) by (simp add: ws_def)
  show ?thesis
  proof (cases "c = CHR '',''")
    case True
    then obtain as' where as': "parseArgLoop n cs = Inr (as', r)" "as = a # as'"
      using k by (auto simp: bindR_eq_Inr_iff)
    from loop [OF as'(1)] obtain es t' where
      es: "es \<noteq> []" "cs = t' @ r" "derivesArgs es t'" "traverse surfArg es = Inr as'" by blast
    obtain e' es' where es': "es = e' # es'" using es(1) by (cases es) auto
    have "derivesArgs (e # es) (w @ t @ (w' @ w1) @ CHR '','' # t')"
      using moreArgs [OF s(1,4) w2] es(3) es' by blast
    moreover have "s = (w @ t @ (w' @ w1) @ CHR '','' # t') @ r"
      using s(3) w1(2) a(2) True es(2) by simp
    ultimately show ?thesis
      using e(2) es(4) as'(2) by (intro exI [of _ "e # es"]) auto
  next
    case False
    then have c: "c = CHR '')''" "as = [a]" "r = cs" using k by (auto split: if_splits)
    have "derivesArgs [e] (w @ t @ (w' @ w1) @ '')'')" by (rule lastArg [OF s(1,4) w2])
    moreover have "s = (w @ t @ (w' @ w1) @ '')'') @ r"
      using s(3) w1(2) a(2) c by simp
    ultimately show ?thesis
      using e(2) c(2) by (intro exI [of _ "[e]"]) auto
  qed
qed

lemma parseExpr_sound_both:
  "(\<forall>s v r. parseExpr n s = Inr (v, r) \<longrightarrow> (\<exists>e. spells e s r \<and> surfVal e = Inr v \<and>
        ((\<exists>x. e = SStr x) \<longrightarrow> (\<exists>cs. skipSpace s = quoteCh # cs)))) \<and>
   (\<forall>s as r. parseArgLoop n s = Inr (as, r) \<longrightarrow>
        (\<exists>es t. es \<noteq> [] \<and> s = t @ r \<and> derivesArgs es t \<and> traverse surfArg es = Inr as))"
proof (induction n)
  case 0
  then show ?case by (simp add: parseExpr.simps parseArgLoop.simps)
next
  case (Suc n)
  then show ?case
    using parseExpr_step_sound [of n] parseArgLoop_step_sound [of n] by blast
qed

lemma parseExpr_sound:
  "parseExpr n s = Inr (v, r) \<Longrightarrow> \<exists>e. spells e s r \<and> surfVal e = Inr v \<and>
     ((\<exists>x. e = SStr x) \<longrightarrow> (\<exists>cs. skipSpace s = quoteCh # cs))"
  using parseExpr_sound_both by blast

subsection \<open>The fuel is enough\<close>

lemma spells_consumed: "spells e s r \<Longrightarrow> consumed s r"
  unfolding spells_def
  by (metis append.assoc append_is_Nil_conv consumed_appendI derives_start list.distinct(1))

lemma derivesArgs_not_Nil: "derivesArgs es t \<Longrightarrow> t \<noteq> []"
  by (erule derivesArgs.cases) auto

lemma functionRefFromName_fuelled [simp]: "functionRefFromName n \<noteq> Inl OutOfFuel"
  by (auto simp: functionRefFromName_def split: option.splits)

lemma functionRefFromArg_fuelled [simp]: "functionRefFromArg a \<noteq> Inl OutOfFuel"
  by (auto simp: functionRefFromArg_def split: callArg.splits)

lemma callForm_fuelled: "callForm f as \<noteq> Inl OutOfFuel"
  by (auto simp: callForm_def anyAllForm_def quotedForm_def inForm_def formatForm_def aggForm_def
      callFnForm_def operatorForm_def bindR_eq_Inl_iff split: option.splits list.splits callArg.splits)

lemma parseIdentifier_fuelled: "parseIdentifier s \<noteq> Inl OutOfFuel"
  by (auto simp: parseIdentifier_def split: list.splits prod.splits)

lemma parseNumber_fuelled: "parseNumber s \<noteq> Inl OutOfFuel"
  by (auto simp: parseNumber_def numberText_def Let_def bindR_eq_Inl_iff
      split: list.splits prod.splits option.splits if_splits)

lemma parseExpr_fuelled_both:
  "(\<forall>s. 2 * length s + 1 \<le> n \<longrightarrow> parseExpr n s \<noteq> Inl OutOfFuel) \<and>
   (\<forall>s. 2 * length s + 2 \<le> n \<longrightarrow> parseArgLoop n s \<noteq> Inl OutOfFuel)"
proof (induction n)
  case (Suc n)
  have "parseExpr (Suc n) s \<noteq> Inl OutOfFuel" if h: "2 * length s + 1 \<le> Suc n" for s
  proof
    assume o: "parseExpr (Suc n) s = Inl OutOfFuel"
    then obtain c cs id r0 where s0: "skipSpace s = c # cs" "parseIdentifier (c # cs) = Inr (id, r0)"
      and k: "(case skipSpace r0 of
          d # ds \<Rightarrow> if d = CHR ''('' then parseCall (parseArgLoop n) id ds
                    else Inr (atomValue id, skipSpace r0)
        | [] \<Rightarrow> Inr (atomValue id, skipSpace r0)) = Inl OutOfFuel"
      by (cases "skipSpace s")
         (auto simp: parseExpr.simps Let_def bindR_eq_Inl_iff parseStringLiteral_fuelled
           parseIdentifier_fuelled parseNumber_fuelled split: if_splits)
    then obtain ds where s: "skipSpace s = c # cs" "parseIdentifier (c # cs) = Inr (id, r0)"
      "skipSpace r0 = CHR ''('' # ds" "parseCall (parseArgLoop n) id ds = Inl OutOfFuel"
      by (cases "skipSpace r0") (auto split: if_splits)
    have "length (c # cs) \<le> length s" using skipSpace_length [of s] s by simp
    moreover have "c # cs = id @ r0" "id \<noteq> []"
      using parseIdentifier_sound [OF s(2)] validIdent_start by blast+
    moreover have "length (CHR ''('' # ds) \<le> length r0" using skipSpace_length [of r0] s by simp
    ultimately have l: "length ds + 2 \<le> length s" by (cases id) auto
    have "length (skipSpace ds) \<le> length ds" by (rule skipSpace_length)
    then have "parseArgLoop n (skipSpace ds) \<noteq> Inl OutOfFuel"
      using Suc.IH l h by simp
    then have "parseArgList (parseArgLoop n) ds \<noteq> Inl OutOfFuel"
      by (auto simp: parseArgList_def Let_def split: list.splits)
    then show False
      using s(4) callForm_fuelled by (auto simp: parseCall_def bindR_eq_Inl_iff)
  qed
  moreover have "parseArgLoop (Suc n) s \<noteq> Inl OutOfFuel" if h: "2 * length s + 2 \<le> Suc n" for s
  proof
    assume o: "parseArgLoop (Suc n) s = Inl OutOfFuel"
    have l: "length (skipSpace s) \<le> length s" by (rule skipSpace_length)
    then have e: "parseExpr n (skipSpace s) \<noteq> Inl OutOfFuel" using Suc.IH h by simp
    have "parseArg n (skipSpace s) \<noteq> Inl OutOfFuel"
      using e by (auto simp: parseArg_def bindR_eq_Inl_iff parseStringLiteral_fuelled split: list.splits)
    then obtain a r0 where a: "parseArg n (skipSpace s) = Inr (a, r0)"
      using o by (cases "parseArg n (skipSpace s)") (auto simp: parseArgLoop_Suc)
    then obtain cs where cs: "skipSpace r0 = CHR '','' # cs" "parseArgLoop n cs = Inl OutOfFuel"
      using o by (cases "skipSpace r0") (auto simp: parseArgLoop_Suc bindR_eq_Inl_iff split: if_splits)
    have "\<not> (\<exists>c cs. skipSpace s = c # cs \<and> isSpace c)" using skipSpace_ConsD by blast
    then obtain e where "spells e (skipSpace s) r0"
      using parseArg_sound [OF a] parseExpr_sound by blast
    then have "length r0 < length (skipSpace s)"
      using spells_consumed by (simp add: consumed_def)
    then show False
      using cs Suc.IH h l skipSpace_length [of r0] by simp
  qed
  ultimately show ?case by blast
qed simp

lemma parseExpr_fuelled: "parseExpr (exprFuel s) s \<noteq> Inl OutOfFuel"
  using parseExpr_fuelled_both [of "exprFuel s"] by (simp add: exprFuel_def)

text \<open>The productions the rest of the decoder calls are scanners.\<close>

lemma parseTopValue_eq:
  "parseTopValue s =
     (case skipSpace s of
        c # cs \<Rightarrow> if c = quoteCh
                  then bindR (parseStringLiteral (c # cs)) (\<lambda>(lit, r). Inr (GStr lit, r))
                  else bindR (parseExpr (exprFuel (skipSpace s)) s) (\<lambda>(v, r). Inr (topOfValue v, r))
      | [] \<Rightarrow> bindR (parseExpr (exprFuel (skipSpace s)) s) (\<lambda>(v, r). Inr (topOfValue v, r)))"
  by (cases "skipSpace s") (simp_all add: parseTopValue_def Let_def parseExpr_skip [of _ s, symmetric])

lemma surfVal_top: "surfVal e = Inr v \<Longrightarrow> (\<And>x. e \<noteq> SStr x) \<Longrightarrow> surfTop e = Inr (topOfValue v)"
  by (cases e) auto

lemma parseTopValue_sound:
  assumes "parseTopValue s = Inr (v, r)"
  shows "\<exists>e. spells e s r \<and> surfTop e = Inr v"
proof (cases "\<exists>cs. skipSpace s = quoteCh # cs")
  case True
  then obtain cs where cs: "skipSpace s = quoteCh # cs" by blast
  then obtain lit where l: "parseStringLiteral (skipSpace s) = Inr (lit, r)" "v = GStr lit"
    using assms by (auto simp: parseTopValue_eq bindR_eq_Inr_iff)
  then have "spells (SStr lit) (skipSpace s) r"
    using parseStringLiteral_sound [OF l(1)] by (intro spells_tail [of _ "quoted lit" "[]"]) (auto intro: str)
  then show ?thesis using l(2) by (metis spells_skip surfTop.simps(1))
next
  case False
  then obtain v' where v: "parseExpr (exprFuel (skipSpace s)) s = Inr (v', r)" "v = topOfValue v'"
    using assms by (cases "skipSpace s") (auto simp: parseTopValue_eq bindR_eq_Inr_iff split: if_splits)
  then show ?thesis using parseExpr_sound [OF v(1)] surfVal_top False by blast
qed

interpretation topValue: scanner parseTopValue
proof
  fix s v r assume "parseTopValue s = Inr (v, r)"
  then show "consumed s r" using parseTopValue_sound spells_consumed by blast
next
  fix s show "parseTopValue s \<noteq> Inl OutOfFuel"
    using parseExpr_fuelled [of "skipSpace s"]
    by (auto simp: parseTopValue_def Let_def bindR_eq_Inl_iff parseStringLiteral_fuelled split: list.splits)
qed

interpretation identScan: scanner parseIdentifier
  by unfold_locales
     (auto simp: parseIdentifier_fuelled dest!: parseIdentifier_sound validIdent_start intro: consumed_appendI)

lemma quoted_not_Nil [simp]: "quoted s \<noteq> []"
  by (simp add: quoted_def)

interpretation literalScan: scanner parseStringLiteral
  by unfold_locales
     (auto simp: parseStringLiteral_fuelled dest!: parseStringLiteral_sound intro: consumed_appendI)

lemma parseTopValue_complete:
  assumes "derives e t" and "follow rest" and "ws w"
  shows "agrees (parseTopValue (w @ t @ rest)) (surfTop e) rest"
proof -
  obtain c cs where t: "t = c # cs" "startOf e c" using derives_start [OF assms(1)] by blast
  have sk: "skipSpace (w @ t @ rest) = t @ rest"
    using t startOf_classes assms(3) by (simp add: skipSpace_ws)
  have x: "agrees (parseExpr (exprFuel (t @ rest)) (t @ rest)) (surfVal e) rest"
    using parseExpr_complete(1) [OF assms(1)] assms(2) by (simp add: exprFuel_def)
  show ?thesis
  proof (cases "\<exists>x. e = SStr x")
    case True
    then obtain x where e: "e = SStr x" by blast
    then have "t = quoted x" using assms(1) by (auto elim: derives.cases)
    then have "parseStringLiteral (t @ rest) = Inr (x, rest)"
      using follow_hd [OF assms(2)] parseStringLiteral_complete by blast
    then show ?thesis using e t sk by (simp add: parseTopValue_def startOf_def)
  next
    case False
    then have "c \<noteq> quoteCh"
      using t identStart_classes digit_classes by (auto simp: startOf_def split: surf.splits)
    moreover have "surfTop e = bindR (surfVal e) (\<lambda>v. Inr (topOfValue v))"
      using False by (cases e) auto
    ultimately show ?thesis
      using x t sk by (cases "surfVal e") (auto simp: parseTopValue_def Let_def)
  qed
qed

subsection \<open>Properties\<close>

text \<open>C10: \<open>parseFullExpr\<close> decides the filter expression grammar and compiles it: it returns the value
  \<open>v\<close> for a text exactly when the text, apart from white space at its ends, is a spelling of an
  expression whose compiled value is \<open>v\<close>.\<close>

theorem parseFullExpr_iff:
  "parseFullExpr s = Inr v \<longleftrightarrow>
     (\<exists>w t w' e. ws w \<and> ws w' \<and> s = w @ t @ w' \<and> derives e t \<and> surfTop e = Inr v)"
proof
  assume "parseFullExpr s = Inr v"
  then obtain r where r: "parseTopValue s = Inr (v, r)" "skipSpace r = []"
    by (auto simp: parseFullExpr_def bindR_eq_Inr_iff atEnd_def split: if_splits)
  obtain e where "spells e s r" "surfTop e = Inr v" using parseTopValue_sound [OF r(1)] by blast
  moreover have "ws r" using skipSpace_decompose [of r] r(2) by auto
  ultimately show "\<exists>w t w' e. ws w \<and> ws w' \<and> s = w @ t @ w' \<and> derives e t \<and> surfTop e = Inr v"
    unfolding spells_def by (metis list_all_append ws_def)
next
  assume "\<exists>w t w' e. ws w \<and> ws w' \<and> s = w @ t @ w' \<and> derives e t \<and> surfTop e = Inr v"
  then obtain w t w' e where h: "ws w" "ws w'" "s = w @ t @ w'" "derives e t" "surfTop e = Inr v" by blast
  have "skipSpace w' = []" using skipSpace_ws [OF h(2), of "[]"] by simp
  then have "agrees (parseTopValue s) (Inr v) w'"
    using parseTopValue_complete [OF h(4) _ h(1), of w'] h by (simp add: follow_def)
  then show "parseFullExpr s = Inr v"
    using \<open>skipSpace w' = []\<close> by (auto simp: parseFullExpr_def atEnd_def)
qed

text \<open>C38: the fuel of the recursive productions is enough for every text: no call of the grammar ends
  because it ran out, so each returns a value or one of the errors the source reports.\<close>

theorem parser_never_out_of_fuel:
  "parseExpr (exprFuel s) s \<noteq> Inl OutOfFuel \<and> parseFullExpr s \<noteq> Inl OutOfFuel \<and>
   parseTopLevelExprList s \<noteq> Inl OutOfFuel"
proof (intro conjI)
  show "parseFullExpr s \<noteq> Inl OutOfFuel"
    using topValue.scan_fuelled by (auto simp: parseFullExpr_def bindR_eq_Inl_iff split: if_splits)
  show "parseTopLevelExprList s \<noteq> Inl OutOfFuel"
    using topValue.commaLoop_fuelled [of s "Suc (length s)"] by (simp add: parseTopLevelExprList_def)
qed (rule parseExpr_fuelled)

text \<open>quoting round trip: a string literal written with every quote doubled reads back as the
  string itself, whatever it contains.\<close>

theorem parseFullExpr_quoted: "parseFullExpr (quoted s) = Inr (GStr s)"
  unfolding parseFullExpr_iff by (metis append_Nil append_Nil2 str surfTop.simps(1) ws_Nil)

end
