(* ===== verification/Query_Select.thy ===== *)
theory Query_Select
  imports Query_Grammar
begin

text \<open>
  The \<open>select\<close> and \<open>order_by\<close> values of a query string, \<open>querystring/select.go\<close>: a
  star form taking up the whole value, or a comma list of \<open>[alias:]expr\<close> entries.  A Go map that is
  filled entry by entry is an association list updated in the same order, so a later entry
  replaces an earlier one of the same key.
\<close>

subsection \<open>Entries\<close>

definition startsWith :: "char \<Rightarrow> string \<Rightarrow> bool" where
  "startsWith c s = (case s of d # _ \<Rightarrow> d = c | [] \<Rightarrow> False)"

definition startsIdent :: "string \<Rightarrow> bool" where
  "startsIdent s = (case s of d # _ \<Rightarrow> isIdentStart d | [] \<Rightarrow> False)"

text \<open>The alias of an entry and what follows its colon, if the entry has one.\<close>

definition entryAlias :: "string \<Rightarrow> (string \<times> string) option" where
  "entryAlias s =
     (if startsIdent s then
        (case parseIdentifier s of
           Inr (ident, r) \<Rightarrow> if startsWith CHR '':'' r then Some (ident, tl r) else None
         | Inl _ \<Rightarrow> None)
      else None)"

definition parseSelectEntry :: "string \<Rightarrow> qs_error + ((string \<times> goval) \<times> string)" where
  "parseSelectEntry s0 =
     (let s = skipSpace s0 in
      case entryAlias s of
        Some (ident, r) \<Rightarrow> bindR (parseTopValue r) (\<lambda>(v, r'). Inr ((ident, v), r'))
      | None \<Rightarrow>
          if startsWith quoteCh s then Inl SelectNeedsAlias
          else bindR (parseExpr (exprFuel s) s) (\<lambda>(v, r).
                 case v of GStr ident \<Rightarrow> Inr ((ident, scopeLookup ident), r)
                 | _ \<Rightarrow> Inl SelectNeedsAlias))"

definition compileSelectCommaList :: "string \<Rightarrow> qs_error + goval" where
  "compileSelectCommaList s =
     bindR (commaLoop parseSelectEntry (Suc (length s)) s) (\<lambda>es. Inr (GObj (putAll [] es)))"

subsection \<open>The star forms\<close>

fun andMapLoop :: "nat \<Rightarrow> goval gomap \<Rightarrow> string \<Rightarrow> qs_error + (goval gomap \<times> string)" where
  "andMapLoop 0 out s = Inl OutOfFuel"
| "andMapLoop (Suc n) out s =
     bindR (parseSelectEntry s) (\<lambda>((alias, v), r0).
       let out' = AList.update alias v out in
       case skipSpace r0 of
         [] \<Rightarrow> Inl UnterminatedCall
       | c # cs \<Rightarrow> if c = CHR '','' then andMapLoop n out' cs
                   else if c = CHR '')'' then Inr (out', cs)
                   else Inl ExpectedCommaOrParen)"

definition parseAndMapUntilClose :: "string \<Rightarrow> qs_error + (goval gomap \<times> string)" where
  "parseAndMapUntilClose s0 =
     (let s = skipSpace s0 in
      if startsWith CHR '')'' s then Inr ([], tl s) else andMapLoop (Suc (length s)) [] s)"

fun exceptLoop :: "nat \<Rightarrow> string list \<Rightarrow> string \<Rightarrow>
    qs_error + ((string list \<times> goval gomap option) \<times> string)" where
  "exceptLoop 0 except s = Inl OutOfFuel"
| "exceptLoop (Suc n) except s =
     bindR (parseIdentifier (skipSpace s)) (\<lambda>(ident, r0).
       let except' = except @ [ident] in
       case skipSpace r0 of
         [] \<Rightarrow> Inl UnterminatedCall
       | c # cs \<Rightarrow>
           if c = CHR '','' then exceptLoop n except' cs
           else if c = CHR '';'' then
             bindR (parseAndMapUntilClose cs) (\<lambda>(andMap, r). Inr ((except', Some andMap), r))
           else if c = CHR '')'' then Inr ((except', None), cs)
           else Inl ExpectedCommaOrParen)"

definition parseExceptAndUntilClose ::
  "string \<Rightarrow> qs_error + ((string list \<times> goval gomap option) \<times> string)" where
  "parseExceptAndUntilClose s0 =
     (let s = skipSpace s0 in
      if startsWith CHR '')'' s then Inr (([], None), tl s)
      else if startsWith CHR '';'' s then
        bindR (parseAndMapUntilClose (tl s)) (\<lambda>(andMap, r). Inr (([], Some andMap), r))
      else exceptLoop (Suc (length s)) [] s)"

definition requireExhausted :: "string \<Rightarrow> qs_error + unit" where
  "requireExhausted s = guardR (atEnd s) TrailingInput"

definition starTag :: "string \<Rightarrow> string \<times> string" where
  "starTag s = (if startsWith CHR ''~'' s then (''*~'', tl s) else (''*'', s))"

definition starValue :: "string \<Rightarrow> string list \<Rightarrow> goval gomap option \<Rightarrow> goval" where
  "starValue tag except andMap =
     GArr (GStr tag # (if except = [] then [] else [GArr (map GStr except)]) @
           (case andMap of None \<Rightarrow> [] | Some m \<Rightarrow> [GObj m]))"

definition tryCompileStar :: "string \<Rightarrow> qs_error + goval option" where
  "tryCompileStar s0 =
     (let s = skipSpace s0 in
      if \<not> startsWith CHR ''*'' s then Inr None
      else
        (let (tag, r0) = starTag (tl s); r = skipSpace r0 in
         if atEnd r then Inr (Some (GArr [GStr tag]))
         else if \<not> startsWith CHR ''('' r then Inl ExpectedParenOrEnd
         else bindR (parseExceptAndUntilClose (tl r)) (\<lambda>((except, andMap), r').
              bindR (requireExhausted r') (\<lambda>_.
              Inr (Some (starValue tag except andMap))))))"

definition compileSelect :: "string \<Rightarrow> qs_error + goval" where
  "compileSelect s0 =
     (let s = TrimSpace s0 in
      if s = [] then Inl EmptySelect
      else bindR (tryCompileStar s) (\<lambda>star.
             case star of Some v \<Rightarrow> Inr v | None \<Rightarrow> compileSelectCommaList s))"

subsection \<open>Ordering\<close>

text \<open>A leading dash before an identifier means descending; before a digit it belongs to a number.\<close>

definition parseOrderEntry :: "string \<Rightarrow> qs_error + (goval \<times> string)" where
  "parseOrderEntry s0 =
     (let s = skipSpace s0;
          desc = (startsWith CHR ''-'' s \<and> startsIdent (tl s))
      in bindR (parseTopValue (if desc then tl s else s)) (\<lambda>(v, r).
           Inr (if desc then GArr [GStr ''desc'', v] else v, r)))"

definition compileOrderBy :: "string \<Rightarrow> qs_error + goval list" where
  "compileOrderBy s =
     (if atEnd s then Inr [] else commaLoop parseOrderEntry (Suc (length s)) s)"

subsection \<open>The loops stop\<close>

lemma tl_suffix [simp]: "suffix_of (tl s) s"
  by (cases s) (auto intro: suffix_of_Cons)

lemma consumed_tl: "consumed (tl s) r \<Longrightarrow> consumed s r"
  using consumed_trans_right tl_suffix by blast

lemma entryAlias_suffix: "entryAlias s = Some (i, r) \<Longrightarrow> suffix_of r s"
  using identScan.scan_consumes [of s i]
  by (auto simp: entryAlias_def consumed_def split: if_splits sum.splits
      intro: suffix_of_trans [OF tl_suffix])

lemma parseExpr_consumed: "parseExpr n s = Inr (v, r) \<Longrightarrow> consumed s r"
  using parseExpr_sound spells_consumed by blast

interpretation selectEntry: scanner parseSelectEntry
proof
  fix s v r assume "parseSelectEntry s = Inr (v, r)"
  then have "consumed (skipSpace s) r"
  proof (cases "entryAlias (skipSpace s)")
    case None
    with \<open>parseSelectEntry s = Inr (v, r)\<close> obtain w q
      where w: "parseExpr (exprFuel (skipSpace s)) (skipSpace s) = Inr (w, q)"
        "(case w of GStr i \<Rightarrow> Inr ((i, scopeLookup i), q) | _ \<Rightarrow> Inl SelectNeedsAlias) = Inr (v, r)"
      by (auto simp: parseSelectEntry_def Let_def bindR_eq_Inr_iff split: if_splits)
    then have "q = r" by (cases w) auto
    then show ?thesis using parseExpr_consumed w(1) by blast
  next
    case (Some p)
    with \<open>parseSelectEntry s = Inr (v, r)\<close> obtain i t w
      where "entryAlias (skipSpace s) = Some (i, t)" "parseTopValue t = Inr (w, r)"
      by (cases p) (auto simp: parseSelectEntry_def Let_def bindR_eq_Inr_iff)
    then show ?thesis
      using consumed_trans_right entryAlias_suffix topValue.scan_consumes by blast
  qed
  then show "consumed s r" using consumed_trans_right skipSpace_suffix by blast
next
  fix s show "parseSelectEntry s \<noteq> Inl OutOfFuel"
    using topValue.scan_fuelled parseExpr_fuelled
    by (auto simp: parseSelectEntry_def Let_def bindR_eq_Inl_iff split: option.splits goval.splits)
qed

interpretation orderEntry: scanner parseOrderEntry
proof
  fix s v r assume "parseOrderEntry s = Inr (v, r)"
  then have "consumed (skipSpace s) r"
    by (auto simp: parseOrderEntry_def Let_def bindR_eq_Inr_iff split: if_splits
        intro: consumed_tl topValue.scan_consumes)
  then show "consumed s r" using consumed_trans_right skipSpace_suffix by blast
next
  fix s show "parseOrderEntry s \<noteq> Inl OutOfFuel"
    using topValue.scan_fuelled by (auto simp: parseOrderEntry_def Let_def bindR_eq_Inl_iff)
qed

lemma andMapLoop_fuelled: "length s < n \<Longrightarrow> andMapLoop n out s \<noteq> Inl OutOfFuel"
proof (induction n arbitrary: out s)
  case (Suc n)
  have "length cs < n" if "parseSelectEntry s = Inr (v, r)" "skipSpace r = c # cs" for v r c cs
    using selectEntry.scan_shorter [OF that(1)] skipSpace_length [of r] that(2) Suc.prems by simp
  then show ?case
    using Suc.IH selectEntry.scan_fuelled by (auto simp: bindR_eq_Inl_iff Let_def split: list.splits)
qed simp

lemma parseAndMapUntilClose_fuelled: "parseAndMapUntilClose s \<noteq> Inl OutOfFuel"
  by (simp add: parseAndMapUntilClose_def Let_def andMapLoop_fuelled del: andMapLoop.simps)

lemma exceptLoop_fuelled: "length s < n \<Longrightarrow> exceptLoop n except s \<noteq> Inl OutOfFuel"
proof (induction n arbitrary: except s)
  case (Suc n)
  have "length cs < n" if "parseIdentifier (skipSpace s) = Inr (v, r)" "skipSpace r = c # cs" for v r c cs
    using identScan.scan_shorter [OF that(1)] skipSpace_length [of r] skipSpace_length [of s] that(2)
      Suc.prems by simp
  then show ?case
    using Suc.IH identScan.scan_fuelled parseAndMapUntilClose_fuelled
    by (auto simp: bindR_eq_Inl_iff Let_def split: list.splits)
qed simp

subsection \<open>Lists that are written out read back\<close>

lemma length_join_with: "length es \<le> Suc (length (join_with c es))"
  by (induction c es rule: join_with.induct) auto

lemma commaLoop_join:
  assumes "es \<noteq> []" and "length es \<le> n"
    and "\<And>e rest. e \<in> set es \<Longrightarrow> follow rest \<Longrightarrow> agrees (scan (text e @ rest)) (Inr (val e)) rest"
  shows "commaLoop scan n (join_with CHR '','' (map text es)) = Inr (map val es)"
  using assms
proof (induction es arbitrary: n)
  case (Cons e es)
  obtain m where n: "n = Suc m" using Cons.prems(2) by (cases n) auto
  show ?case
  proof (cases es)
    case Nil
    then show ?thesis using Cons.prems(3) [of e "[]"] n by auto
  next
    case (Cons e' es')
    obtain r where r: "scan (text e @ CHR '','' # join_with CHR '','' (map text es)) = Inr (val e, r)"
      "skipSpace r = CHR '','' # join_with CHR '','' (map text es)"
      using Cons.prems(3) [of e "CHR '','' # join_with CHR '','' (map text es)"] by auto
    have "commaLoop scan m (join_with CHR '','' (map text es)) = Inr (map val es)"
      by (rule Cons.IH) (use Cons Cons.prems n in auto)
    then show ?thesis using r n Cons by simp
  qed
qed simp

text \<open>A column of an \<open>order_by\<close> list as it is written, and the term it stands for.\<close>

definition orderText :: "bool \<times> string \<Rightarrow> string" where
  "orderText e = (if fst e then ''-'' else []) @ snd e"

definition orderTerm :: "bool \<times> string \<Rightarrow> goval" where
  "orderTerm e = (if fst e then GArr [GStr ''desc'', scopeLookup (snd e)] else scopeLookup (snd e))"

definition plainName :: "string \<Rightarrow> bool" where
  "plainName i \<longleftrightarrow> validIdent i \<and> i \<notin> {''true'', ''false'', ''null''}"

lemma parseTopValue_name:
  assumes "plainName i" and "follow rest"
  shows "agrees (parseTopValue (i @ rest)) (Inr (scopeLookup i)) rest"
  using parseTopValue_complete [OF ident, of i rest "[]"] assms
  by (simp add: plainName_def atomValue_def topOfValue_def)

lemma parseOrderEntry_text:
  assumes "plainName (snd e)" and "follow rest"
  shows "agrees (parseOrderEntry (orderText e @ rest)) (Inr (orderTerm e)) rest"
proof -
  obtain c cs where i: "snd e = c # cs" "isIdentStart c"
    using assms(1) validIdent_start [of "snd e"] by (auto simp: plainName_def)
  note cls = identStart_classes [OF i(2)]
  show ?thesis
    using parseTopValue_name [OF assms] i cls
    by (auto simp: orderText_def orderTerm_def parseOrderEntry_def startsWith_def startsIdent_def)
qed

text \<open>An entry of a \<open>select\<close> list as it is written: a column, or a column under an alias.\<close>

definition selectText :: "string \<times> string \<Rightarrow> string" where
  "selectText e = (if fst e = snd e then snd e else fst e @ CHR '':'' # snd e)"

lemma colon_follow: "follow rest \<Longrightarrow> \<not> startsWith CHR '':'' rest"
  by (cases rest) (auto simp: follow_def startsWith_def isSpace_def)

lemma parseSelectEntry_text:
  assumes "plainName (snd e)" and "validIdent (fst e)" and "follow rest"
  shows "agrees (parseSelectEntry (selectText e @ rest)) (Inr (fst e, scopeLookup (snd e))) rest"
proof (cases "fst e = snd e")
  case True
  obtain c cs where i: "snd e = c # cs" "isIdentStart c"
    using assms(1) validIdent_start [of "snd e"] by (auto simp: plainName_def)
  note cls = identStart_classes [OF i(2)]
  have "parseIdentifier (snd e @ rest) = Inr (snd e, rest)"
    using assms follow_hd by (intro parseIdentifier_complete) (auto simp: plainName_def)
  then have "entryAlias (snd e @ rest) = None"
    using i colon_follow [OF assms(3)] by (simp add: entryAlias_def startsIdent_def)
  then show ?thesis
    using True i cls parseExpr_ident_complete [of "snd e" rest "Suc (2 * length (snd e @ rest))"] assms
    by (simp add: selectText_def parseSelectEntry_def startsWith_def exprFuel_def plainName_def atomValue_def)
next
  case False
  obtain c cs where i: "fst e = c # cs" "isIdentStart c"
    using assms(2) validIdent_start [of "fst e"] by auto
  note cls = identStart_classes [OF i(2)]
  have "parseIdentifier (fst e @ CHR '':'' # snd e @ rest) = Inr (fst e, CHR '':'' # snd e @ rest)"
    using assms by (intro parseIdentifier_complete) (auto simp: isIdentPart_def isIdentStart_def)
  then have "entryAlias (fst e @ CHR '':'' # snd e @ rest) = Some (fst e, snd e @ rest)"
    using i by (simp add: entryAlias_def startsIdent_def startsWith_def)
  then show ?thesis
    using False i cls parseTopValue_name [OF assms(1,3)]
    by (auto simp: selectText_def parseSelectEntry_def)
qed

lemma join_names_not_atEnd:
  assumes "es \<noteq> []" and "\<And>e. e \<in> set es \<Longrightarrow> \<exists>c cs. text e = c # cs \<and> \<not> isSpace c"
  shows "\<not> atEnd (join_with CHR '','' (map text es))"
  using assms by (cases es rule: list.exhaust; cases "tl es") (fastforce simp: atEnd_def)+

lemma orderText_start: "plainName (snd e) \<Longrightarrow> \<exists>c cs. orderText e = c # cs \<and> \<not> isSpace c"
  using validIdent_start [of "snd e"] identStart_classes
  by (auto simp: plainName_def orderText_def isSpace_def)

lemma selectText_start: "plainName (snd e) \<Longrightarrow> validIdent (fst e) \<Longrightarrow>
    \<exists>c cs. selectText e = c # cs \<and> isIdentStart c"
  using validIdent_start [of "snd e"] validIdent_start [of "fst e"]
  by (auto simp: plainName_def selectText_def)

lemma trim_left_with_stop:
  assumes "\<not> ascii_space c" and "\<And>p. p \<in> set seqs \<Longrightarrow> p \<noteq> [] \<and> hd p \<noteq> c"
  shows "trim_left_with seqs n (c # cs) = c # cs"
proof -
  have "find (\<lambda>p. take (length p) (c # cs) = p) seqs = None"
  proof (unfold find_None_iff, clarify)
    fix p assume p: "p \<in> set seqs" "take (length p) (c # cs) = p"
    then have "p \<noteq> []" "hd p \<noteq> c" using assms(2) by auto
    then show False using p(2) by (cases p) auto
  qed
  then show ?thesis using assms(1) by (cases n) simp_all
qed

lemma identPart_ascii: "isIdentPart c \<Longrightarrow> (of_char c :: nat) < 128"
  by (auto simp: isIdentPart_def isIdentStart_def less_eq_char_def)

lemma identPart_not_space: "isIdentPart c \<Longrightarrow> \<not> ascii_space c"
  by (auto simp: isIdentPart_def isIdentStart_def less_eq_char_def ascii_space_def)

lemma unicode_spaces_bytes:
  "p \<in> set unicode_spaces \<Longrightarrow> p \<noteq> [] \<and> 128 \<le> (of_char (hd p) :: nat) \<and> 128 \<le> (of_char (last p) :: nat)"
proof -
  have "list_all (\<lambda>p. p \<noteq> [] \<and> 128 \<le> (of_char (hd p) :: nat) \<and> 128 \<le> (of_char (last p) :: nat)) unicode_spaces"
    by code_simp
  then show "p \<in> set unicode_spaces \<Longrightarrow> p \<noteq> [] \<and> 128 \<le> (of_char (hd p) :: nat) \<and> 128 \<le> (of_char (last p) :: nat)"
    by (auto simp: list_all_iff)
qed

lemma TrimSpace_id:
  assumes "s \<noteq> []" and "isIdentPart (hd s)" and "isIdentPart (last s)"
  shows "TrimSpace s = s"
proof -
  obtain c cs where s: "s = c # cs" using assms(1) by (cases s) auto
  obtain d ds where r: "rev s = d # ds" using assms(1) by (cases "rev s") auto
  have d: "d = last s" using r by (metis hd_rev list.sel(1))
  have "trim_left_with unicode_spaces n s = s" for n
    unfolding s by (rule trim_left_with_stop)
      (use assms(2) s identPart_ascii [of c] identPart_not_space [of c] unicode_spaces_bytes in fastforce)+
  moreover have "trim_left_with (map rev unicode_spaces) n (rev s) = rev s" for n
    unfolding r by (rule trim_left_with_stop)
      (use assms(3) d identPart_ascii [of d] identPart_not_space [of d] unicode_spaces_bytes
       in \<open>fastforce simp: hd_rev\<close>)+
  ultimately show ?thesis by (simp add: TrimSpace_def)
qed

lemma tryCompileStar_name: "s \<noteq> [] \<Longrightarrow> isIdentStart (hd s) \<Longrightarrow> tryCompileStar s = Inr None"
  using identStart_classes [of "hd s"]
  by (cases s) (auto simp: tryCompileStar_def startsWith_def isIdentStart_def)

lemma join_with_ends:
  assumes "es \<noteq> []" and "\<And>e. e \<in> set es \<Longrightarrow> text e \<noteq> []"
  shows "hd (join_with c (map text es)) = hd (text (hd es)) \<and>
    last (join_with c (map text es)) = last (text (last es)) \<and> join_with c (map text es) \<noteq> []"
  using assms
proof (induction es)
  case (Cons e es)
  then show ?case by (cases es) auto
qed simp

lemma validPart_last: "validPart p \<Longrightarrow> p \<noteq> [] \<and> isIdentPart (last p)"
  by (cases p) (auto simp: validPart_def list_all_iff identStart_part)

lemma validIdent_last:
  assumes "validIdent i"
  shows "i \<noteq> [] \<and> isIdentPart (last i)"
proof -
  let ?ps = "split_on CHR ''.'' i"
  have v: "validPart p" if "p \<in> set ?ps" for p using assms that by (auto simp: validIdent_def list_all_iff)
  have ne: "?ps \<noteq> []" by simp
  show ?thesis
    using join_with_ends [OF ne, of "\<lambda>p. p" "CHR ''.''"] validPart_last v last_in_set [OF ne]
    by (simp add: join_split_on)
qed

subsection \<open>Properties\<close>

text \<open>reading a \<open>select\<close> or \<open>order_by\<close> value always ends with a value or an error of the
  source; none of its loops needs more rounds than the text has characters.\<close>

theorem select_never_out_of_fuel:
  "compileSelect s \<noteq> Inl OutOfFuel \<and> compileOrderBy s \<noteq> Inl OutOfFuel"
proof
  have "parseExceptAndUntilClose t \<noteq> Inl OutOfFuel" for t
    using exceptLoop_fuelled parseAndMapUntilClose_fuelled
    by (auto simp: parseExceptAndUntilClose_def Let_def bindR_eq_Inl_iff simp del: exceptLoop.simps)
  then have "tryCompileStar t \<noteq> Inl OutOfFuel" for t
    by (auto simp: tryCompileStar_def Let_def bindR_eq_Inl_iff requireExhausted_def guardR_eq_Inl_iff
        split: prod.splits)
  then show "compileSelect s \<noteq> Inl OutOfFuel"
    using selectEntry.commaLoop_fuelled
    by (auto simp: compileSelect_def compileSelectCommaList_def Let_def bindR_eq_Inl_iff
        split: option.splits simp del: commaLoop.simps)
  show "compileOrderBy s \<noteq> Inl OutOfFuel"
    using orderEntry.commaLoop_fuelled by (simp add: compileOrderBy_def del: commaLoop.simps)
qed

text \<open>an \<open>order_by\<close> list round trip: columns written with commas between them, a dash before the
  descending ones, compile to their scope lookups in the same order, the dashed ones under
  \<open>desc\<close>.\<close>

theorem compileOrderBy_roundtrip:
  assumes "list_all (\<lambda>e. plainName (snd e)) es"
  shows "compileOrderBy (join_with CHR '','' (map orderText es)) = Inr (map orderTerm es)"
proof (cases "es = []")
  case True
  then show ?thesis by (simp add: compileOrderBy_def atEnd_def)
next
  case False
  have names: "plainName (snd e)" if "e \<in> set es" for e using assms that by (auto simp: list_all_iff)
  have "\<not> atEnd (join_with CHR '','' (map orderText es))"
    by (rule join_names_not_atEnd [OF False]) (rule orderText_start [OF names])
  moreover have "commaLoop parseOrderEntry (Suc (length (join_with CHR '','' (map orderText es))))
      (join_with CHR '','' (map orderText es)) = Inr (map orderTerm es)"
    by (rule commaLoop_join [OF False])
       (use length_join_with [of "map orderText es"] parseOrderEntry_text names in auto)
  ultimately show ?thesis by (simp add: compileOrderBy_def del: commaLoop.simps)
qed

theorem compileOrderBy_roundtrip_witness:
  "compileOrderBy ''-a.b,c'' = Inr [GArr [GStr ''desc'', scopeLookup ''a.b''], scopeLookup ''c'']"
  using compileOrderBy_roundtrip [of "[(True, ''a.b''), (False, ''c'')]"]
  by (simp add: plainName_def validIdent_def validPart_def isIdentStart_def isIdentPart_def
      orderText_def orderTerm_def less_eq_char_def)

text \<open>a \<open>select\<close> list round trip: columns written with commas between them, each under an alias of
  its own or under its name, compile to the object that maps every alias to the lookup of its
  column, entry for entry.\<close>

theorem compileSelect_roundtrip:
  assumes "es \<noteq> []" and "distinct (map fst es)"
    and "list_all (\<lambda>e. plainName (snd e) \<and> validIdent (fst e)) es"
  shows "compileSelect (join_with CHR '','' (map selectText es)) =
    Inr (GObj (map (\<lambda>(alias, column). (alias, scopeLookup column)) es))"
proof -
  let ?s = "join_with CHR '','' (map selectText es)" and ?val = "\<lambda>e. (fst e, scopeLookup (snd e))"
  have e: "plainName (snd e) \<and> validIdent (fst e)" if "e \<in> set es" for e
    using assms(3) that by (auto simp: list_all_iff)
  have start: "\<exists>c cs. selectText e = c # cs \<and> isIdentStart c" if "e \<in> set es" for e
    using selectText_start e [OF that] by blast
  have ends: "hd ?s = hd (selectText (hd es))" "last ?s = last (selectText (last es))" "?s \<noteq> []"
    using join_with_ends [OF assms(1), of selectText] start by fastforce+
  have "isIdentStart (hd ?s)" using start [of "hd es"] assms(1) ends by auto
  moreover have "isIdentPart (last ?s)"
    using e [of "last es"] assms(1) ends(2) validIdent_last [of "snd (last es)"]
    by (auto simp: selectText_def plainName_def)
  ultimately have "TrimSpace ?s = ?s" "tryCompileStar ?s = Inr None"
    using TrimSpace_id [OF ends(3)] identStart_part tryCompileStar_name [OF ends(3)] by auto
  moreover have "commaLoop parseSelectEntry (Suc (length ?s)) ?s = Inr (map ?val es)"
    by (rule commaLoop_join [OF assms(1)])
       (use length_join_with [of "map selectText es"] parseSelectEntry_text e in auto)
  moreover have "putAll [] (map ?val es) = map ?val es"
    using assms(2) by (intro putAll_distinct [of "[]", simplified]) (simp add: comp_def)
  ultimately show ?thesis
    using ends(3) by (simp add: compileSelect_def compileSelectCommaList_def case_prod_beta del: commaLoop.simps)
qed

theorem compileSelect_roundtrip_witness:
  "compileSelect ''id,n:name'' = Inr (GObj [(''id'', scopeLookup ''id''), (''n'', scopeLookup ''name'')])"
  using compileSelect_roundtrip [of "[(''id'', ''id''), (''n'', ''name'')]"]
  by (simp add: plainName_def validIdent_def validPart_def isIdentStart_def isIdentPart_def
      selectText_def less_eq_char_def)

end
