(* ===== verification/Query_Relation.thy ===== *)
theory Query_Relation
  imports Query_Select
begin

text \<open>
  The relation fields of a query string, \<open>querystring/relation.go\<close>: every key of the decoded
  tree has a kind, the kind says how its value compiles, and \<open>join\<close> recurses.  \<open>DecodeRelation\<close>
  puts the layers together for \<open>GET /rel\<close> and refuses the keys that write.  The JSON encoder
  (\<open>sonic.Marshal\<close>) is a parameter.  Go visits a map in no fixed order; the model visits it
  in the order of the association list, which decides only which of several errors is reported
  and, for \<open>arguments\<close>, which of two spellings of one index is written last.
\<close>

subsection \<open>Field kinds\<close>

datatype fieldKind =
    kindPlainString | kindOnMap | kindExpr | kindSelect | kindCommaExprList | kindOrderByList
  | kindInt | kindBool | kindStringOrList | kindStringList | kindWriteMode | kindJoin
  | kindArguments

definition relationFieldKinds :: "fieldKind gomap" where
  "relationFieldKinds =
     [(''relation'', kindPlainString), (''function'', kindPlainString), (''schema'', kindPlainString),
      (''alias'', kindPlainString), (''on'', kindOnMap), (''where'', kindExpr),
      (''select'', kindSelect), (''distinct_on'', kindCommaExprList), (''order_by'', kindOrderByList),
      (''limit'', kindInt), (''offset'', kindInt), (''distinct'', kindBool),
      (''on_conflict'', kindStringOrList), (''insert_columns'', kindStringList),
      (''update_columns'', kindStringList), (''write_mode'', kindWriteMode), (''join'', kindJoin),
      (''arguments'', kindArguments)]"

definition getOnlyForbiddenFields :: "string list" where
  "getOnlyForbiddenFields = [''write_mode'', ''on_conflict'', ''insert_columns'', ''update_columns'']"

subsection \<open>Leaves\<close>

definition asString :: "goval \<Rightarrow> qs_error + string" where
  "asString raw = (case raw of GStr s \<Rightarrow> Inr s | _ \<Rightarrow> Inl SingleValueExpected)"

definition toAnySlice :: "goval \<Rightarrow> goval list" where
  "toAnySlice raw = (case raw of GArr v \<Rightarrow> v | GStr v \<Rightarrow> [GStr v] | _ \<Rightarrow> [])"

definition stringSlice :: "goval list \<Rightarrow> qs_error + goval" where
  "stringSlice items =
     bindR (traverse (\<lambda>it. case it of GStr s \<Rightarrow> Inr (GStr s) | _ \<Rightarrow> Inl ItemNotString) items)
       (\<lambda>out. Inr (GArr out))"

definition compileInt :: "string \<Rightarrow> qs_error + goval" where
  "compileInt s = (case Atoi (TrimSpace s) of None \<Rightarrow> Inl (NotAnInteger s) | Some v \<Rightarrow> Inr (GInt v))"

definition compileBool :: "string \<Rightarrow> qs_error + goval" where
  "compileBool s =
     (if TrimSpace s = ''true'' then Inr (GBool True)
      else if TrimSpace s = ''false'' then Inr (GBool False)
      else Inl (NotABool s))"

subsection \<open>Arguments\<close>

definition maxArgumentIndex :: int where
  "maxArgumentIndex = 4096"

definition isAllDigits :: "string \<Rightarrow> bool" where
  "isAllDigits s \<longleftrightarrow> s \<noteq> [] \<and> list_all isDigit s"

definition argumentAtom :: "string \<Rightarrow> string \<Rightarrow> qs_error + goval" where
  "argumentAtom ident r =
     (if ident = ''true'' then Inr (GBool True)
      else if ident = ''false'' then Inr (GBool False)
      else if ident = ''null'' then Inr GNil
      else if startsWith CHR ''('' r then Inl ArgumentIsCall
      else Inr (scopeLookup ident))"

definition parseArgumentToken :: "string \<Rightarrow> qs_error + goval" where
  "parseArgumentToken s0 =
     (let s = skipSpace s0 in
      case s of
        [] \<Rightarrow> Inl EmptyArgument
      | c # cs \<Rightarrow>
          bindR
            (if c = quoteCh then bindR (parseStringLiteral s) (\<lambda>(lit, r). Inr (GStr lit, r))
             else if c = CHR ''-'' \<or> isDigit c then bindR (parseNumber s) (\<lambda>(f, r). Inr (GNum f, r))
             else if isIdentStart c then
               bindR (parseIdentifier s) (\<lambda>(ident, r). bindR (argumentAtom ident r) (\<lambda>v. Inr (v, r)))
             else Inl (UnexpectedChar c))
            (\<lambda>(v, r). if atEnd r then Inr v else Inl TrailingInput))"

definition compileArgument :: "goval \<Rightarrow> qs_error + goval" where
  "compileArgument v = bindR (asString v) parseArgumentToken"

definition argumentIndex :: "string \<Rightarrow> qs_error + nat" where
  "argumentIndex k =
     (case Atoi k of
        None \<Rightarrow> Inl (ArgumentIndexRange k)
      | Some n \<Rightarrow> if n < 0 \<or> n > maxArgumentIndex then Inl (ArgumentIndexRange k) else Inr (nat n))"

text \<open>The second pass over the keys: write each compiled value at its index.\<close>

fun fillArguments :: "goval list \<Rightarrow> goval gomap \<Rightarrow> qs_error + goval list" where
  "fillArguments out [] = Inr out"
| "fillArguments out ((k, v) # m) =
     bindR (argumentIndex k) (\<lambda>n.
     bindR (compileArgument v) (\<lambda>val.
     fillArguments (out[n := val]) m))"

definition compileArguments :: "goval gomap \<Rightarrow> qs_error + goval" where
  "compileArguments m =
     (if m \<noteq> [] \<and> list_all (\<lambda>(k, _). isAllDigits k) m then
        bindR (traverse (\<lambda>(k, _). argumentIndex k) m) (\<lambda>idxs.
        bindR (fillArguments (replicate (Suc (fold max idxs 0)) GNil) m) (\<lambda>out.
        Inr (GArr out)))
      else bindR (forMap (\<lambda>k v. compileArgument v) m) (\<lambda>out. Inr (GObj out)))"

subsection \<open>Relations\<close>

text \<open>The kinds whose values hold no relation.\<close>

definition compileOnMap :: "goval \<Rightarrow> qs_error + goval" where
  "compileOnMap raw =
     (case raw of
        GObj m \<Rightarrow> bindR (forMap (\<lambda>k v. bindR (asString v) (\<lambda>s. Inr (GStr s))) m) (\<lambda>out. Inr (GObj out))
      | _ \<Rightarrow> Inl ObjectExpected)"

definition compileLeafField :: "fieldKind \<Rightarrow> goval \<Rightarrow> qs_error + goval" where
  "compileLeafField kind raw =
     (case kind of
        kindPlainString \<Rightarrow> bindR (asString raw) (\<lambda>s. Inr (GStr s))
      | kindWriteMode \<Rightarrow> bindR (asString raw) (\<lambda>s. Inr (GStr s))
      | kindOnMap \<Rightarrow> compileOnMap raw
      | kindExpr \<Rightarrow> bindR (asString raw) parseFullExpr
      | kindSelect \<Rightarrow> bindR (asString raw) compileSelect
      | kindCommaExprList \<Rightarrow> bindR (asString raw) (\<lambda>s.
          bindR (parseTopLevelExprList s) (\<lambda>vs. Inr (sliceValue vs)))
      | kindOrderByList \<Rightarrow> bindR (asString raw) (\<lambda>s.
          bindR (compileOrderBy s) (\<lambda>vs. Inr (sliceValue vs)))
      | kindInt \<Rightarrow> bindR (asString raw) compileInt
      | kindBool \<Rightarrow> bindR (asString raw) compileBool
      | kindStringOrList \<Rightarrow>
          (case raw of GStr v \<Rightarrow> Inr (GStr v) | GArr v \<Rightarrow> stringSlice v | _ \<Rightarrow> Inl StringOrListExpected)
      | kindStringList \<Rightarrow> stringSlice (toAnySlice raw)
      | kindArguments \<Rightarrow> (case raw of GObj m \<Rightarrow> compileArguments m | _ \<Rightarrow> Inl ObjectExpected)
      | kindJoin \<Rightarrow> Inl ObjectExpected)"

lemma size_gomap_value: "(k, v) \<in> set m \<Longrightarrow> size (v :: goval) < size (GObj m)"
  by (induction m) auto

function (sequential) compileRelation :: "goval gomap \<Rightarrow> qs_error + goval gomap"
  and compileField :: "fieldKind \<Rightarrow> goval \<Rightarrow> qs_error + goval" where
  "compileRelation node =
     forMap (\<lambda>key raw.
       case map_of relationFieldKinds key of
         None \<Rightarrow> Inl (UnrecognizedKey key)
       | Some kind \<Rightarrow> compileField kind raw) node"
| "compileField kindJoin (GObj m) =
     bindR (forMap (\<lambda>alias child.
              case child of
                GObj cm \<Rightarrow> bindR (compileRelation cm) (\<lambda>compiled. Inr (GObj compiled))
              | _ \<Rightarrow> Inl ObjectExpected) m)
       (\<lambda>out. Inr (GObj out))"
| "compileField kind raw = compileLeafField kind raw"
  by pat_completeness auto
termination
  by (relation "measure (case_sum (\<lambda>node. size (GObj node)) (\<lambda>(_, raw). size raw))")
     (auto simp del: goval.size dest: size_gomap_value)

declare compileRelation.simps [simp del] compileField.simps [simp del]

function rejectGetOnlyFields :: "goval gomap \<Rightarrow> qs_error + unit" where
  "rejectGetOnlyFields rel =
     (case find (\<lambda>field. map_of rel field \<noteq> None) getOnlyForbiddenFields of
        Some field \<Rightarrow> Inl (GetForbidden field)
      | None \<Rightarrow>
          (case map_of rel ''join'' of
             Some (GObj joinMap) \<Rightarrow>
               bindR (forMap (\<lambda>alias child. case child of
                        GObj childMap \<Rightarrow> rejectGetOnlyFields childMap | _ \<Rightarrow> Inr ()) joinMap)
                 (\<lambda>_. Inr ())
           | _ \<Rightarrow> Inr ()))"
  by pat_completeness auto
termination
  by (relation "measure (\<lambda>rel. size (GObj rel))")
     (auto simp del: goval.size dest!: map_of_SomeD size_gomap_value)

declare rejectGetOnlyFields.simps [simp del]

definition DecodeRelation :: "(goval \<Rightarrow> qs_error + 'b) \<Rightarrow> string \<Rightarrow> qs_error + 'b" where
  "DecodeRelation marshal raw =
     bindR (DecodeStructural raw) (\<lambda>tree.
     bindR (compileRelation tree) (\<lambda>compiled.
     bindR (rejectGetOnlyFields compiled) (\<lambda>_.
     marshal (GObj compiled))))"

definition DecodeQueryField :: "string \<Rightarrow> qs_error + goval" where
  "DecodeQueryField raw =
     (if trim_prefix ''?'' raw = [] then Inr GNil
      else bindR (DecodeStructural raw) (\<lambda>tree. Inr (GObj tree)))"

subsection \<open>Reaching the joined relations\<close>

text \<open>The relation reached from the root by following the join aliases.\<close>

fun subRelation :: "goval gomap \<Rightarrow> string list \<Rightarrow> goval gomap option" where
  "subRelation rel [] = Some rel"
| "subRelation rel (alias # aliases) =
     (case map_of rel ''join'' of
        Some (GObj joinMap) \<Rightarrow>
          (case map_of joinMap alias of Some (GObj child) \<Rightarrow> subRelation child aliases | _ \<Rightarrow> None)
      | _ \<Rightarrow> None)"

definition noWriteKeys :: "goval gomap \<Rightarrow> bool" where
  "noWriteKeys rel \<longleftrightarrow> (\<forall>field \<in> set getOnlyForbiddenFields. map_of rel field = None)"

definition knownKeys :: "goval gomap \<Rightarrow> bool" where
  "knownKeys rel \<longleftrightarrow> (\<forall>key. map_of rel key \<noteq> None \<longrightarrow> map_of relationFieldKinds key \<noteq> None)"

lemma rejectGetOnlyFields_root: "rejectGetOnlyFields rel = Inr u \<Longrightarrow> noWriteKeys rel"
  by (subst (asm) rejectGetOnlyFields.simps)
     (auto simp: noWriteKeys_def find_None_iff split: option.split_asm)

lemma rejectGetOnlyFields_join:
  assumes "rejectGetOnlyFields rel = Inr u" and "map_of rel ''join'' = Some (GObj joinMap)"
    and "map_of joinMap alias = Some (GObj child)"
  shows "rejectGetOnlyFields child = Inr ()"
proof -
  have "isOk (forMap (\<lambda>alias child. case child of
      GObj childMap \<Rightarrow> rejectGetOnlyFields childMap | _ \<Rightarrow> Inr ()) joinMap)"
    using assms(1,2) by (subst (asm) rejectGetOnlyFields.simps)
      (auto simp: bindR_eq_Inr_iff split: option.split_asm)
  then show ?thesis
    using forMap_lookup_ok assms(3) by (fastforce simp: isOk_iff)
qed

lemma rejectGetOnlyFields_deep:
  "rejectGetOnlyFields rel = Inr u \<Longrightarrow> subRelation rel aliases = Some sub \<Longrightarrow>
     rejectGetOnlyFields sub = Inr ()"
proof (induction rel aliases arbitrary: u rule: subRelation.induct)
  case (2 rel al als)
  then show ?case
    using rejectGetOnlyFields_join [of rel u]
    by (auto split: option.split_asm goval.split_asm)
qed simp

text \<open>The converse: a tree is refused only for a key that writes.\<close>

definition joinsDistinct :: "goval gomap \<Rightarrow> bool" where
  "joinsDistinct rel \<longleftrightarrow>
     (\<forall>aliases sub jm. subRelation rel aliases = Some sub \<longrightarrow> map_of sub ''join'' = Some (GObj jm) \<longrightarrow>
        distinct (map fst jm))"

lemma rejectGetOnlyFields_complete:
  assumes "joinsDistinct rel"
    and "\<And>aliases sub. subRelation rel aliases = Some sub \<Longrightarrow> noWriteKeys sub"
  shows "rejectGetOnlyFields rel = Inr ()"
  using assms
proof (induction rel rule: rejectGetOnlyFields.induct)
  case (1 rel)
  have no: "find (\<lambda>field. map_of rel field \<noteq> None) getOnlyForbiddenFields = None"
    using "1.prems"(2) [of "[]"] by (auto simp: find_None_iff noWriteKeys_def)
  show ?case
  proof (cases "\<exists>jm. map_of rel ''join'' = Some (GObj jm)")
    case True
    then obtain jm where jm: "map_of rel ''join'' = Some (GObj jm)" by blast
    have dk: "distinct (map fst jm)"
      using "1.prems"(1) jm subRelation.simps(1) unfolding joinsDistinct_def by blast
    have "rejectGetOnlyFields cm = Inr ()" if "(al, GObj cm) \<in> set jm" for al cm
    proof (rule "1.IH" [OF no jm refl that refl])
      have a: "subRelation rel (al # als) = subRelation cm als" for als using dk that jm by simp
      then show "joinsDistinct cm" using "1.prems"(1) unfolding joinsDistinct_def by metis
      show "noWriteKeys sub" if "subRelation cm als = Some sub" for als sub
        using "1.prems"(2) a that by metis
    qed
    then have "isOk (forMap (\<lambda>al child. case child of
        GObj childMap \<Rightarrow> rejectGetOnlyFields childMap | _ \<Rightarrow> Inr ()) jm)"
      by (auto simp: forMap_ok_iff split: goval.split)
    then show ?thesis
      using no jm by (subst rejectGetOnlyFields.simps) (auto simp: isOk_iff)
  next
    case False
    then show ?thesis
      using no by (subst rejectGetOnlyFields.simps) (auto split: option.split goval.split)
  qed
qed

subsection \<open>The keys of a compiled tree\<close>

lemma compileRelation_keys: "compileRelation node = Inr rel \<Longrightarrow> map fst rel = map fst node"
  by (simp add: compileRelation.simps forMap_keys)

lemma compileRelation_field:
  assumes "compileRelation node = Inr rel" and "map_of rel key = Some v"
  shows "\<exists>kind raw. map_of relationFieldKinds key = Some kind \<and> map_of node key = Some raw \<and>
    compileField kind raw = Inr v"
  using assms(1) forMap_lookup_back [OF _ assms(2)]
  by (fastforce simp: compileRelation.simps split: option.split_asm)

lemma compileRelation_field_back:
  assumes "compileRelation node = Inr rel" and "map_of node key = Some raw"
  shows "\<exists>kind v. map_of relationFieldKinds key = Some kind \<and> map_of rel key = Some v \<and>
    compileField kind raw = Inr v"
proof -
  have "forMap (\<lambda>key raw. case map_of relationFieldKinds key of
         None \<Rightarrow> Inl (UnrecognizedKey key) | Some kind \<Rightarrow> compileField kind raw) node = Inr rel"
    using assms(1) by (simp add: compileRelation.simps)
  from forMap_lookup_ok [OF this assms(2)] show ?thesis by (auto split: option.split_asm)
qed

lemma compileField_join:
  "compileField kindJoin raw = Inr v \<Longrightarrow>
     \<exists>m out. raw = GObj m \<and> v = GObj out \<and>
       forMap (\<lambda>alias child. case child of
                GObj cm \<Rightarrow> bindR (compileRelation cm) (\<lambda>compiled. Inr (GObj compiled))
              | _ \<Rightarrow> Inl ObjectExpected) m = Inr out"
  by (cases raw) (auto simp: compileField.simps compileLeafField_def bindR_eq_Inr_iff)

lemma kind_of_join [simp]: "map_of relationFieldKinds ''join'' = Some kindJoin"
  by (simp add: relationFieldKinds_def)

text \<open>Compiling keeps the join structure: a relation of the compiled tree is the compiled form of
  the relation at the same aliases of the decoded tree.\<close>

lemma compileRelation_sub:
  assumes "compileRelation node = Inr rel" and "subRelation rel aliases = Some sub"
  shows "\<exists>sn. subRelation node aliases = Some sn \<and> compileRelation sn = Inr sub"
  using assms
proof (induction aliases arbitrary: node rel)
  case (Cons al als)
  obtain jm child where jm: "map_of rel ''join'' = Some (GObj jm)" "map_of jm al = Some (GObj child)"
    "subRelation child als = Some sub"
    using Cons.prems(2) by (auto split: option.split_asm goval.split_asm)
  obtain raw where raw: "map_of node ''join'' = Some raw" "compileField kindJoin raw = Inr (GObj jm)"
    using compileRelation_field [OF Cons.prems(1) jm(1)] by auto
  obtain m where m: "raw = GObj m" "forMap (\<lambda>alias child. case child of
                GObj cm \<Rightarrow> bindR (compileRelation cm) (\<lambda>compiled. Inr (GObj compiled))
              | _ \<Rightarrow> Inl ObjectExpected) m = Inr jm"
    using compileField_join [OF raw(2)] by auto
  obtain c where "map_of m al = Some c" "(case c of
                GObj cm \<Rightarrow> bindR (compileRelation cm) (\<lambda>compiled. Inr (GObj compiled))
              | _ \<Rightarrow> Inl ObjectExpected) = Inr (GObj child)"
    using forMap_lookup_back [OF m(2) jm(2)] by auto
  then obtain cm where cm: "map_of m al = Some (GObj cm)" "compileRelation cm = Inr child"
    by (cases c) (auto simp: bindR_eq_Inr_iff)
  then show ?case using Cons.IH [OF cm(2) jm(3)] raw m by simp
qed simp

lemma compileRelation_sub_back:
  assumes "compileRelation node = Inr rel" and "subRelation node aliases = Some sn"
  shows "\<exists>sub. subRelation rel aliases = Some sub \<and> compileRelation sn = Inr sub"
  using assms
proof (induction aliases arbitrary: node rel)
  case (Cons al als)
  obtain m cm where m: "map_of node ''join'' = Some (GObj m)" "map_of m al = Some (GObj cm)"
    "subRelation cm als = Some sn"
    using Cons.prems(2) by (auto split: option.split_asm goval.split_asm)
  obtain v where v: "compileField kindJoin (GObj m) = Inr v" "map_of rel ''join'' = Some v"
    using compileRelation_field_back [OF Cons.prems(1) m(1)] by auto
  obtain out where out: "v = GObj out" "forMap (\<lambda>alias child. case child of
                GObj cm \<Rightarrow> bindR (compileRelation cm) (\<lambda>compiled. Inr (GObj compiled))
              | _ \<Rightarrow> Inl ObjectExpected) m = Inr out"
    using compileField_join [OF v(1)] by auto
  obtain child where "compileRelation cm = Inr child" "map_of out al = Some (GObj child)"
    using forMap_lookup_ok [OF out(2) m(2)] by (auto simp: bindR_eq_Inr_iff)
  then show ?case using Cons.IH m(3) v out by fastforce
qed simp

lemma compileRelation_known: "compileRelation node = Inr rel \<Longrightarrow> knownKeys rel"
  using compileRelation_field by (fastforce simp: knownKeys_def)

lemma wf_map_child: "wf_map m \<Longrightarrow> map_of m k = Some (GObj c) \<Longrightarrow> wf_map c"
  using wf_map_lookup [of m k "GObj c"] by (simp only: wf_tree_GObj)

lemma wf_map_sub: "wf_map m \<Longrightarrow> subRelation m aliases = Some sub \<Longrightarrow> wf_map sub"
proof (induction aliases arbitrary: m)
  case (Cons al als)
  then obtain jm c where "map_of m ''join'' = Some (GObj jm)" "map_of jm al = Some (GObj c)"
    "subRelation c als = Some sub"
    by (auto split: option.split_asm goval.split_asm)
  then show ?case using Cons wf_map_child by blast
qed simp

lemma compiled_joinsDistinct:
  assumes "wf_map node" and "compileRelation node = Inr rel"
  shows "joinsDistinct rel"
  unfolding joinsDistinct_def
proof clarify
  fix aliases sub jm
  assume s: "subRelation rel aliases = Some sub" and j: "map_of sub ''join'' = Some (GObj jm)"
  obtain sn where sn: "subRelation node aliases = Some sn" "compileRelation sn = Inr sub"
    using compileRelation_sub [OF assms(2) s] by blast
  obtain raw where raw: "map_of sn ''join'' = Some raw" "compileField kindJoin raw = Inr (GObj jm)"
    using compileRelation_field [OF sn(2) j] by auto
  obtain m where "raw = GObj m" "map fst jm = map fst m"
    using compileField_join [OF raw(2)] forMap_keys by auto
  moreover have "wf_map m" if "raw = GObj m" for m
    using wf_map_child wf_map_sub assms(1) sn(1) raw(1) that by blast
  ultimately show "distinct (map fst jm)" by (simp add: wf_map_def)
qed

lemma map_of_None_keys: "map_of m k = None \<longleftrightarrow> k \<notin> set (map fst m)"
  by (auto simp: map_of_eq_None_iff)

lemma noWriteKeys_compiled: "compileRelation node = Inr rel \<Longrightarrow> noWriteKeys rel = noWriteKeys node"
  using compileRelation_keys by (auto simp: noWriteKeys_def map_of_None_keys simp del: set_map)

text \<open>The key path of a field of the relation joined under the aliases.\<close>

definition joinPath :: "string list \<Rightarrow> string \<Rightarrow> string list" where
  "joinPath aliases field = concat (map (\<lambda>a. [''join'', a]) aliases) @ [field]"

lemma leaf_at_joinPath:
  "leaf_at m (joinPath aliases field @ rest) \<noteq> [] \<Longrightarrow>
     \<exists>sub. subRelation m aliases = Some sub \<and> map_of sub field \<noteq> None"
proof (induction aliases arbitrary: m)
  case Nil
  then show ?case using leaf_at_absent [of m field rest] by (auto simp: joinPath_def)
next
  case (Cons a als)
  have ne: "joinPath als field @ rest \<noteq> []" by (simp add: joinPath_def)
  then obtain x xs where x: "joinPath als field @ rest = x # xs" by (cases "joinPath als field @ rest") auto
  have "joinPath (a # als) field @ rest = ''join'' # a # x # xs"
    using x by (simp add: joinPath_def)
  then have "leaf_at m (''join'' # a # x # xs) \<noteq> []"
    using Cons.prems by (simp only:) simp
  then obtain jm c where "map_of m ''join'' = Some (GObj jm)" "map_of jm a = Some (GObj c)"
    "leaf_at c (x # xs) \<noteq> []"
    by (auto split: option.split_asm goval.split_asm)
  then show ?case using Cons.IH [of c] x by simp
qed

lemma DecodeRelation_okE:
  assumes "DecodeRelation marshal raw = Inr out"
  obtains tree rel where "DecodeStructural raw = Inr tree" "compileRelation tree = Inr rel"
    "rejectGetOnlyFields rel = Inr ()" "marshal (GObj rel) = Inr out"
  using assms by (auto simp: DecodeRelation_def bindR_eq_Inr_iff)

subsection \<open>Types of the compiled fields\<close>

definition isStr :: "goval \<Rightarrow> bool" where
  "isStr v = (case v of GStr _ \<Rightarrow> True | _ \<Rightarrow> False)"

text \<open>The JSON shape each kind promises to the query parser.\<close>

definition fieldTyped :: "fieldKind \<Rightarrow> goval \<Rightarrow> bool" where
  "fieldTyped kind v =
     (case kind of
        kindPlainString \<Rightarrow> isStr v
      | kindWriteMode \<Rightarrow> isStr v
      | kindOnMap \<Rightarrow> (case v of GObj m \<Rightarrow> list_all (\<lambda>(_, w). isStr w) m | _ \<Rightarrow> False)
      | kindExpr \<Rightarrow> True
      | kindSelect \<Rightarrow> (case v of GObj m \<Rightarrow> distinct (map fst m) \<and> m \<noteq> []
                       | GArr (GStr tag # _) \<Rightarrow> tag = ''*'' \<or> tag = ''*~'' | _ \<Rightarrow> False)
      | kindCommaExprList \<Rightarrow> (case v of GNil \<Rightarrow> True | GArr vs \<Rightarrow> vs \<noteq> [] | _ \<Rightarrow> False)
      | kindOrderByList \<Rightarrow> (case v of GNil \<Rightarrow> True | GArr vs \<Rightarrow> vs \<noteq> [] | _ \<Rightarrow> False)
      | kindInt \<Rightarrow> (case v of GInt i \<Rightarrow> in_int64 i | _ \<Rightarrow> False)
      | kindBool \<Rightarrow> (case v of GBool _ \<Rightarrow> True | _ \<Rightarrow> False)
      | kindStringOrList \<Rightarrow> (case v of GStr _ \<Rightarrow> True | GArr vs \<Rightarrow> list_all isStr vs | _ \<Rightarrow> False)
      | kindStringList \<Rightarrow> (case v of GArr vs \<Rightarrow> list_all isStr vs | _ \<Rightarrow> False)
      | kindJoin \<Rightarrow> (case v of GObj m \<Rightarrow> list_all (\<lambda>(_, w). case w of GObj _ \<Rightarrow> True | _ \<Rightarrow> False) m
                     | _ \<Rightarrow> False)
      | kindArguments \<Rightarrow> (case v of GObj _ \<Rightarrow> True
                          | GArr vs \<Rightarrow> vs \<noteq> [] \<and> int (length vs) \<le> maxArgumentIndex + 1 | _ \<Rightarrow> False))"

lemma asString_Inr: "asString raw = Inr s \<longleftrightarrow> raw = GStr s"
  by (cases raw) (auto simp: asString_def)

lemma isStr_simps [simp]: "isStr (GStr s)"
  by (simp add: isStr_def)

lemma string_item: "(case it of GStr s \<Rightarrow> Inr (GStr s) | _ \<Rightarrow> Inl e) = Inr y \<Longrightarrow> isStr y"
  by (cases it) auto

lemma asString_item: "bindR (asString it) (\<lambda>s. Inr (GStr s)) = Inr y \<Longrightarrow> isStr y"
  by (cases it) (auto simp: asString_def)

lemma stringSlice_typed: "stringSlice items = Inr v \<Longrightarrow> \<exists>vs. v = GArr vs \<and> list_all isStr vs"
  unfolding stringSlice_def bindR_eq_Inr_iff
  by (auto intro!: traverse_all dest: string_item)

lemma compileOnMap_typed: "compileOnMap raw = Inr v \<Longrightarrow> fieldTyped kindOnMap v"
proof (cases raw)
  case (GObj m)
  assume "compileOnMap raw = Inr v"
  then obtain out where out: "forMap (\<lambda>k v. bindR (asString v) (\<lambda>s. Inr (GStr s))) m = Inr out" "v = GObj out"
    using GObj by (auto simp: compileOnMap_def bindR_eq_Inr_iff [of "forMap _ _"])
  have "list_all (\<lambda>(k, w). isStr w) out" by (rule forMap_all [OF out(1)]) (rule asString_item)
  then show ?thesis using out(2) by (simp add: fieldTyped_def)
qed (simp_all add: compileOnMap_def)

lemma commaLoop_not_Nil: "commaLoop scan n s \<noteq> Inr []"
  by (cases n) (auto simp: bindR_eq_Inr_iff split: list.split_asm if_splits)

lemma tryCompileStar_typed: "tryCompileStar s = Inr (Some v) \<Longrightarrow> fieldTyped kindSelect v"
  by (auto simp: tryCompileStar_def Let_def bindR_eq_Inr_iff starTag_def starValue_def fieldTyped_def
      split: if_splits prod.split_asm)

lemma compileSelectCommaList_typed:
  assumes "compileSelectCommaList s = Inr v"
  shows "fieldTyped kindSelect v"
proof -
  obtain es where es: "commaLoop parseSelectEntry (Suc (length s)) s = Inr es" "v = GObj (putAll [] es)"
    using assms by (auto simp: compileSelectCommaList_def bindR_eq_Inr_iff simp del: commaLoop.simps)
  then have "putAll [] es \<noteq> []" using commaLoop_not_Nil [of parseSelectEntry] by (intro putAll_not_Nil) (auto simp del: commaLoop.simps)
  then show ?thesis using putAll_keys [of "[]" es] es(2) by (simp add: fieldTyped_def)
qed

lemma compileSelect_typed: "compileSelect s = Inr v \<Longrightarrow> fieldTyped kindSelect v"
  by (auto simp: compileSelect_def Let_def bindR_eq_Inr_iff tryCompileStar_typed
      compileSelectCommaList_typed split: if_splits option.split_asm)

lemma sliceValue_typed: "fieldTyped kindOrderByList (sliceValue vs)" "fieldTyped kindCommaExprList (sliceValue vs)"
  by (simp_all add: fieldTyped_def sliceValue_def)

lemma compileInt_typed: "compileInt s = Inr v \<Longrightarrow> fieldTyped kindInt v"
  by (auto simp: compileInt_def fieldTyped_def dest: Atoi_range split: option.split_asm)

lemma compileBool_typed: "compileBool s = Inr v \<Longrightarrow> fieldTyped kindBool v"
  by (auto simp: compileBool_def fieldTyped_def split: if_splits)

lemma argumentIndex_range: "argumentIndex k = Inr n \<Longrightarrow> int n \<le> maxArgumentIndex"
  by (auto simp: argumentIndex_def split: option.split_asm if_splits)

lemma fillArguments_length: "fillArguments out m = Inr out' \<Longrightarrow> length out' = length out"
  by (induction out m arbitrary: out' rule: fillArguments.induct) (auto simp: bindR_eq_Inr_iff)

lemma fold_max_bound: "(\<And>x. x \<in> set xs \<Longrightarrow> int x \<le> b) \<Longrightarrow> int a \<le> b \<Longrightarrow> int (fold max xs a) \<le> b"
  by (induction xs arbitrary: a) (auto simp: max_def)

lemma compileArguments_typed:
  assumes "compileArguments m = Inr v"
  shows "fieldTyped kindArguments v"
proof (cases "m \<noteq> [] \<and> list_all (\<lambda>(k, _). isAllDigits k) m")
  case True
  then obtain idxs out where i: "traverse (\<lambda>(k, _). argumentIndex k) m = Inr idxs"
    "fillArguments (replicate (Suc (fold max idxs 0)) GNil) m = Inr out" "v = GArr out"
    using assms by (auto simp: compileArguments_def bindR_eq_Inr_iff simp del: replicate.simps)
  have "int x \<le> maxArgumentIndex" if "x \<in> set idxs" for x
    using traverse_set [OF i(1) that] argumentIndex_range by auto
  then have "int (fold max idxs 0) \<le> maxArgumentIndex"
    by (rule fold_max_bound) (simp_all add: maxArgumentIndex_def)
  moreover have "length out = Suc (fold max idxs 0)"
    using fillArguments_length [OF i(2)] by simp
  ultimately show ?thesis using i(3) by (auto simp: fieldTyped_def)
next
  case False
  then show ?thesis using assms
    by (auto simp: compileArguments_def bindR_eq_Inr_iff fieldTyped_def)
qed

lemma stringOrList_typed:
  "(case raw of GStr v \<Rightarrow> Inr (GStr v) | GArr v \<Rightarrow> stringSlice v | _ \<Rightarrow> Inl StringOrListExpected) = Inr v \<Longrightarrow>
     fieldTyped kindStringOrList v"
  by (cases raw) (auto simp: fieldTyped_def dest: stringSlice_typed)

lemma stringList_typed: "stringSlice items = Inr v \<Longrightarrow> fieldTyped kindStringList v"
  by (auto simp: fieldTyped_def dest: stringSlice_typed)

lemma arguments_typed:
  "(case raw of GObj m \<Rightarrow> compileArguments m | _ \<Rightarrow> Inl ObjectExpected) = Inr v \<Longrightarrow> fieldTyped kindArguments v"
  by (cases raw) (auto dest: compileArguments_typed)

lemma plain_typed: "fieldTyped kindPlainString (GStr s)" "fieldTyped kindWriteMode (GStr s)"
  "fieldTyped kindExpr v"
  by (simp_all add: fieldTyped_def)

lemma compileLeafField_typed: "compileLeafField kind raw = Inr v \<Longrightarrow> fieldTyped kind v"
  by (cases kind)
     (auto simp: compileLeafField_def bindR_eq_Inr_iff asString_Inr plain_typed sliceValue_typed
       intro: compileSelect_typed compileInt_typed compileBool_typed compileOnMap_typed
         stringOrList_typed stringList_typed arguments_typed)

lemma compileField_typed:
  assumes "compileField kind raw = Inr v"
  shows "fieldTyped kind v"
proof (cases "kind = kindJoin")
  case True
  then obtain m out where "v = GObj out" "forMap (\<lambda>alias child. case child of
                GObj cm \<Rightarrow> bindR (compileRelation cm) (\<lambda>compiled. Inr (GObj compiled))
              | _ \<Rightarrow> Inl ObjectExpected) m = Inr out"
    using compileField_join assms by metis
  then show ?thesis
    using True by (auto simp: fieldTyped_def bindR_eq_Inr_iff intro!: forMap_all split: goval.split_asm)
next
  case False
  then have "compileField kind raw = compileLeafField kind raw"
    by (cases kind) (simp_all add: compileField.simps)
  then show ?thesis using assms compileLeafField_typed by simp
qed

subsection \<open>Positional arguments\<close>

definition slotOf :: "string \<Rightarrow> nat" where
  "slotOf k = nat (the (Atoi k))"

lemma argumentIndex_slot: "argumentIndex k = Inr n \<Longrightarrow> slotOf k = n"
  by (auto simp: argumentIndex_def slotOf_def split: option.split_asm if_splits)

lemma fillArguments_slots:
  assumes "fillArguments out m = Inr out'" and "distinct (map (slotOf \<circ> fst) m)"
    and "\<forall>kv \<in> set m. slotOf (fst kv) < length out"
  shows "(\<forall>(k, raw) \<in> set m. compileArgument raw = Inr (out' ! slotOf k)) \<and>
    (\<forall>i < length out. i \<notin> (slotOf \<circ> fst) ` set m \<longrightarrow> out' ! i = out ! i)"
  using assms
proof (induction out m arbitrary: out' rule: fillArguments.induct)
  case (2 out k v m)
  obtain n val where n: "argumentIndex k = Inr n" "compileArgument v = Inr val"
    "fillArguments (out[n := val]) m = Inr out'"
    using "2.prems"(1) by (auto simp: bindR_eq_Inr_iff)
  have s: "slotOf k = n" by (rule argumentIndex_slot [OF n(1)])
  have lt: "n < length out" using "2.prems"(3) s by auto
  have IH: "(\<forall>(k, raw) \<in> set m. compileArgument raw = Inr (out' ! slotOf k)) \<and>
      (\<forall>i < length (out[n := val]). i \<notin> (slotOf \<circ> fst) ` set m \<longrightarrow> out' ! i = out[n := val] ! i)"
    using "2.IH" [OF n] "2.prems" by simp
  have "out' ! n = val" using IH "2.prems"(2) s lt by auto
  then show ?case using IH n(2) s lt by auto
qed simp

lemma fold_max_Max: "fold max xs (a :: nat) = Max (insert a (set xs))"
  by (simp add: Max.set_eq_fold [symmetric] flip: fold_simps) 

lemma fold_max_mem: "x \<in> set xs \<or> x \<le> a \<Longrightarrow> x \<le> fold max xs (a :: nat)"
  by (auto simp: fold_max_Max intro: Max_ge le_trans)

definition sampleQuery :: string where
  "sampleQuery = ''relation=film&join.actors.relation=actor&join.actors.alias=a''"

lemma sampleQuery_ok: "isOk (DecodeRelation Inr sampleQuery)"
  by code_simp

subsection \<open>Properties\<close>

text \<open>what \<open>GET /rel\<close> hands on is read-only: the tree that is encoded has, at the root and in
  every relation joined at any depth, no key that writes and no key the relation shape does not have.\<close>

theorem get_read_only:
  assumes "DecodeRelation marshal raw = Inr out"
  shows "\<exists>rel. marshal (GObj rel) = Inr out \<and>
    (\<forall>aliases sub. subRelation rel aliases = Some sub \<longrightarrow> noWriteKeys sub \<and> knownKeys sub)"
proof (rule DecodeRelation_okE [OF assms])
  fix tree rel
  assume h: "compileRelation tree = Inr rel" "rejectGetOnlyFields rel = Inr ()" "marshal (GObj rel) = Inr out"
  have "noWriteKeys sub \<and> knownKeys sub" if "subRelation rel aliases = Some sub" for aliases sub
    using rejectGetOnlyFields_root rejectGetOnlyFields_deep [OF h(2) that]
      compileRelation_sub [OF h(1) that] compileRelation_known by blast
  then show ?thesis using h(3) by blast
qed

theorem get_read_only_witness:
  "\<exists>rel. Inr (GObj rel) = DecodeRelation Inr sampleQuery \<and>
    (\<forall>aliases sub. subRelation rel aliases = Some sub \<longrightarrow> noWriteKeys sub \<and> knownKeys sub)"
proof -
  obtain out where "DecodeRelation Inr sampleQuery = Inr out" using sampleQuery_ok by (auto simp: isOk_iff)
  then show ?thesis using get_read_only [of Inr sampleQuery out] by auto
qed

text \<open>no query string that names a writing key gets through: if \<open>DecodeRelation\<close> accepts it,
  no key of it spells a path whose field, at the root or below any chain of joins, is one of the
  four writing keys.\<close>

theorem get_refuses_write_keys:
  assumes "DecodeRelation marshal raw = Inr out" and "parseRawPairs raw = Inr kvs"
    and "(k, v) \<in> set kvs" and "field \<in> set getOnlyForbiddenFields"
  shows "keyPath k \<noteq> joinPath aliases field @ rest"
proof (rule DecodeRelation_okE [OF assms(1)], rule notI)
  fix tree rel
  assume h: "DecodeStructural raw = Inr tree" "compileRelation tree = Inr rel"
    "rejectGetOnlyFields rel = Inr ()" and k: "keyPath k = joinPath aliases field @ rest"
  have "leaf_at tree (keyPath k) \<noteq> []"
    using DecodeStructural_leaves [OF assms(2) h(1), of "keyPath k"] assms(3)
    by (auto simp: filter_empty_conv)
  then obtain sn where sn: "subRelation tree aliases = Some sn" "map_of sn field \<noteq> None"
    using leaf_at_joinPath k by metis
  then obtain sub where sub: "subRelation rel aliases = Some sub" "compileRelation sn = Inr sub"
    using compileRelation_sub_back [OF h(2)] by blast
  then have "noWriteKeys sn"
    using rejectGetOnlyFields_deep [OF h(3)] rejectGetOnlyFields_root noWriteKeys_compiled by blast
  then show False using sn(2) assms(4) by (auto simp: noWriteKeys_def)
qed

theorem get_refuses_write_keys_witness:
  "keyPath ''join.actors.alias'' \<noteq> joinPath [''actors''] ''write_mode'' @ []"
proof -
  obtain out where d: "DecodeRelation Inr sampleQuery = Inr out" using sampleQuery_ok by (auto simp: isOk_iff)
  have p: "parseRawPairs sampleQuery = Inr [(''relation'', ''film''),
      (''join.actors.relation'', ''actor''), (''join.actors.alias'', ''a'')]" by code_simp
  show ?thesis
    by (rule get_refuses_write_keys [OF d p, of _ "''a''"]) (simp_all add: getOnlyForbiddenFields_def)
qed

text \<open>the restriction check refuses nothing else: a tree whose fields compile passes it exactly when
  no relation of the decoded tree, at any join depth, has a writing key.\<close>

theorem get_restriction_exact:
  assumes "DecodeStructural raw = Inr tree" and "compileRelation tree = Inr rel"
  shows "rejectGetOnlyFields rel = Inr () \<longleftrightarrow>
    (\<forall>aliases sub. subRelation tree aliases = Some sub \<longrightarrow> noWriteKeys sub)"
proof
  assume r: "rejectGetOnlyFields rel = Inr ()"
  show "\<forall>aliases sub. subRelation tree aliases = Some sub \<longrightarrow> noWriteKeys sub"
    using compileRelation_sub_back [OF assms(2)] rejectGetOnlyFields_deep [OF r] rejectGetOnlyFields_root
      noWriteKeys_compiled by blast
next
  assume "\<forall>aliases sub. subRelation tree aliases = Some sub \<longrightarrow> noWriteKeys sub"
  then have "noWriteKeys sub" if "subRelation rel aliases = Some sub" for aliases sub
    using compileRelation_sub [OF assms(2) that] noWriteKeys_compiled by blast
  then show "rejectGetOnlyFields rel = Inr ()"
    using rejectGetOnlyFields_complete compiled_joinsDistinct [OF DecodeStructural_wf [OF assms(1)] assms(2)]
    by blast
qed

theorem get_restriction_exact_witness:
  "\<exists>tree rel. DecodeStructural sampleQuery = Inr tree \<and> compileRelation tree = Inr rel \<and>
    (rejectGetOnlyFields rel = Inr () \<longleftrightarrow>
      (\<forall>aliases sub. subRelation tree aliases = Some sub \<longrightarrow> noWriteKeys sub))"
proof -
  obtain tree rel where "DecodeStructural sampleQuery = Inr tree" "compileRelation tree = Inr rel"
    using sampleQuery_ok by (auto simp: isOk_iff elim: DecodeRelation_okE)
  then show ?thesis using get_restriction_exact by blast
qed

text \<open>every field of the compiled tree, at any join depth, has the JSON shape its kind promises:
  strings where the query parser wants strings, 64-bit integers, booleans, a star form or an object for
  \<open>select\<close>, and a positional argument array never longer than the index cap allows.\<close>

theorem compiled_fields_typed:
  assumes "compileRelation tree = Inr rel" and "subRelation rel aliases = Some sub"
    and "map_of sub key = Some v"
  shows "\<exists>kind. map_of relationFieldKinds key = Some kind \<and> fieldTyped kind v"
  using compileRelation_sub [OF assms(1,2)] compileRelation_field [OF _ assms(3)] compileField_typed
  by blast

theorem compiled_fields_typed_witness:
  "\<exists>kind. map_of relationFieldKinds ''alias'' = Some kind \<and> fieldTyped kind (GStr ''a'')"
proof -
  have c: "compileRelation [(''alias'', GStr ''a'')] = Inr [(''alias'', GStr ''a'')]" by code_simp
  show ?thesis
    using compiled_fields_typed [OF c, of "[]" "[(''alias'', GStr ''a'')]" "''alias''"] by simp
qed

text \<open>positional arguments: when every key is a number and no two spell the same index, the compiled
  array reaches exactly to the largest index, holds at each index the value compiled from its key,
  and \<open>null\<close> at every index no key names.\<close>

theorem compileArguments_positional:
  assumes "compileArguments m = Inr v" and "m \<noteq> []" and "list_all (\<lambda>(k, _). isAllDigits k) m"
    and "distinct (map (slotOf \<circ> fst) m)"
  shows "\<exists>out. v = GArr out \<and> length out = Suc (Max ((slotOf \<circ> fst) ` set m)) \<and>
    (\<forall>(k, raw) \<in> set m. compileArgument raw = Inr (out ! slotOf k)) \<and>
    (\<forall>i < length out. i \<notin> (slotOf \<circ> fst) ` set m \<longrightarrow> out ! i = GNil)"
proof -
  obtain idxs out where i: "traverse (\<lambda>(k, _). argumentIndex k) m = Inr idxs"
    "fillArguments (replicate (Suc (fold max idxs 0)) GNil) m = Inr out" "v = GArr out"
    using assms by (auto simp: compileArguments_def bindR_eq_Inr_iff simp del: replicate.simps)
  have idxs: "idxs = map (slotOf \<circ> fst) m"
    using i(1) argumentIndex_slot
    by (auto simp: traverse_eq_Inr_iff list_all2_conv_all_nth case_prod_unfold intro!: nth_equalityI)
  have mx: "fold max idxs 0 = Max ((slotOf \<circ> fst) ` set m)"
    using assms(2) by (simp add: idxs fold_max_Max image_comp)
  have "(\<forall>(k, raw) \<in> set m. compileArgument raw = Inr (out ! slotOf k)) \<and>
    (\<forall>j < Suc (fold max idxs 0). j \<notin> (slotOf \<circ> fst) ` set m \<longrightarrow>
       out ! j = replicate (Suc (fold max idxs 0)) GNil ! j)"
    using fillArguments_slots [OF i(2) assms(4)] fold_max_mem [of _ idxs 0]
    by (simp add: idxs less_Suc_eq_le del: replicate.simps)
  then show ?thesis
    using i(3) fillArguments_length [OF i(2)] mx by (auto simp del: replicate.simps)
qed

theorem compileArguments_positional_witness:
  "compileArgument (GStr ''true'') = Inr ([GNil, GNil, GBool True] ! slotOf ''2'') \<and>
   compileArgument (GStr ''null'') = Inr ([GNil, GNil, GBool True] ! slotOf ''0'')"
proof -
  have slots: "slotOf ''2'' = 2" "slotOf ''0'' = 0" by code_simp+
  have c: "compileArguments [(''2'', GStr ''true''), (''0'', GStr ''null'')] =
      Inr (GArr [GNil, GNil, GBool True])" by code_simp
  show ?thesis
    using compileArguments_positional [OF c] by (auto simp: isAllDigits_def isDigit_def less_eq_char_def slots)
qed

text \<open>The two spellings of one index collide, and the order of the map decides which value stays.\<close>

lemma compileArguments_collision:
  "compileArguments [(''0'', GStr ''true''), (''00'', GStr ''false'')] = Inr (GArr [GBool False]) \<and>
   compileArguments [(''00'', GStr ''false''), (''0'', GStr ''true'')] = Inr (GArr [GBool True])"
  by code_simp

end
