(* ===== verification/Doc_Node.thy ===== *)
theory Doc_Node
  imports Go_Strings
begin

text \<open>
  The decoded document the query parser reads, \<open>query/node_iface.go\<close>.  \<open>Node\<close> is an interface
  over a JSON or a CBOR document; a node is modelled by what its methods answer.  A number
  carries the answers of \<open>StrictFloat64\<close> and \<open>StrictInt64\<close> (\<open>None\<close> is the error of a text that does
  not fit).  An object holds each key once.  The decoders of the two document formats are third-party
  or not part of this theory, so a document is given as its node.
  The locale \<open>open_recursion\<close> is the contract of a parser written over such nodes: one step that calls
  itself on smaller nodes only.
\<close>

subsection \<open>Nodes\<close>

datatype NodeKind =
    KindInvalid | KindNull | KindBool | KindNumber | KindString | KindArray | KindObject
  | KindBytes | KindInstant | KindDate | KindUUID

datatype node =
    NInvalid
  | NNull
  | NBool bool
  | NNumber "f64 option" "int option"
  | NString string
  | NArray "node list"
  | NObject "(string \<times> node) list"
  | NBytes string
  | NInstant "int \<times> int"
  | NDate int
  | NUUID string

datatype node_error =
    NotString | NotBool | NotNumber | NotInt64 | NotArray | NotObject

fun Kind :: "node \<Rightarrow> NodeKind" where
  "Kind NInvalid = KindInvalid"
| "Kind NNull = KindNull"
| "Kind (NBool _) = KindBool"
| "Kind (NNumber _ _) = KindNumber"
| "Kind (NString _) = KindString"
| "Kind (NArray _) = KindArray"
| "Kind (NObject _) = KindObject"
| "Kind (NBytes _) = KindBytes"
| "Kind (NInstant _) = KindInstant"
| "Kind (NDate _) = KindDate"
| "Kind (NUUID _) = KindUUID"

definition StrictString :: "node \<Rightarrow> node_error + string" where
  "StrictString n = (case n of NString s \<Rightarrow> Inr s | _ \<Rightarrow> Inl NotString)"

definition StrictBool :: "node \<Rightarrow> node_error + bool" where
  "StrictBool n = (case n of NBool b \<Rightarrow> Inr b | _ \<Rightarrow> Inl NotBool)"

definition StrictInt64 :: "node \<Rightarrow> node_error + int" where
  "StrictInt64 n = (case n of NNumber _ (Some i) \<Rightarrow> Inr i | _ \<Rightarrow> Inl NotInt64)"

definition StrictFloat64 :: "node \<Rightarrow> node_error + f64" where
  "StrictFloat64 n = (case n of NNumber (Some f) _ \<Rightarrow> Inr f | _ \<Rightarrow> Inl NotNumber)"

definition arrayItems :: "node \<Rightarrow> node_error + node list" where
  "arrayItems n = (case n of NArray items \<Rightarrow> Inr items | _ \<Rightarrow> Inl NotArray)"

definition ObjectGet :: "node \<Rightarrow> string \<Rightarrow> node option" where
  "ObjectGet n key = (case n of NObject m \<Rightarrow> map_of m key | _ \<Rightarrow> None)"

text \<open>The fields \<open>ObjectEach\<close> visits; the callbacks are the loops over them.\<close>

definition objectFields :: "node \<Rightarrow> node_error + node gomap" where
  "objectFields n = (case n of NObject m \<Rightarrow> Inr m | _ \<Rightarrow> Inl NotObject)"

text \<open>Every object of the document holds a key once.\<close>

fun wf_node :: "node \<Rightarrow> bool" where
  "wf_node (NArray ns) = (\<forall>n \<in> set ns. wf_node n)"
| "wf_node (NObject m) = (distinct (map fst m) \<and> (\<forall>kv \<in> set m. wf_node (snd kv)))"
| "wf_node _ = True"

subsection \<open>Facts about the accessors\<close>

lemma StrictString_Inr [simp]: "StrictString n = Inr s \<longleftrightarrow> n = NString s"
  by (cases n) (auto simp: StrictString_def)

lemma StrictString_NString [simp]: "StrictString (NString s) = Inr s"
  by simp

lemma StrictBool_Inr [simp]: "StrictBool n = Inr b \<longleftrightarrow> n = NBool b"
  by (cases n) (auto simp: StrictBool_def)

lemma arrayItems_Inr [simp]: "arrayItems n = Inr items \<longleftrightarrow> n = NArray items"
  by (cases n) (auto simp: arrayItems_def)

lemma arrayItems_NArray [simp]: "arrayItems (NArray items) = Inr items"
  by simp

lemma objectFields_Inr [simp]: "objectFields n = Inr m \<longleftrightarrow> n = NObject m"
  by (cases n) (auto simp: objectFields_def)

lemma objectFields_NObject [simp]: "objectFields (NObject m) = Inr m"
  by simp

lemma ObjectGet_NObject [simp]: "ObjectGet (NObject m) key = map_of m key"
  by (simp add: ObjectGet_def)

lemma size_item: "m \<in> set items \<Longrightarrow> size m < size (NArray items)"
  by (induction items) auto

lemma size_field: "(k, v) \<in> set m \<Longrightarrow> size (v :: node) < size (NObject m)"
  by (induction m) auto

lemma size_get: "ObjectGet n key = Some v \<Longrightarrow> size v < size n"
  using size_field by (cases n) (auto simp: ObjectGet_def simp del: node.size dest!: map_of_SomeD)

subsection \<open>Parsers over nodes\<close>

text \<open>
  A parser \<open>run\<close> that is the fixed point of one \<open>step\<close>, where a step looks at its recursive calls
  on smaller nodes only.  Its clients use that it is the only such function and the induction it gives.
\<close>

locale open_recursion =
  fixes step :: "('n :: size \<Rightarrow> 'r) \<Rightarrow> 'n \<Rightarrow> 'r" and run :: "'n \<Rightarrow> 'r"
  assumes run_step: "run n = step run n"
    and step_local: "(\<And>m. size m < size n \<Longrightarrow> f m = g m) \<Longrightarrow> step f n = step g n"
begin

lemma run_unique: "(\<And>n. f n = step f n) \<Longrightarrow> f n = run n"
proof (induction n rule: measure_induct_rule [of size])
  case (less n)
  have "step f n = step run n" by (rule step_local) (rule less.IH [OF _ less.prems])
  then show ?case using less.prems [of n] run_step [of n] by simp
qed

lemma run_invariant:
  assumes "\<And>n. (\<And>m. size m < size n \<Longrightarrow> P m (run m)) \<Longrightarrow> P n (step run n)"
  shows "P n (run n)"
proof (induction n rule: measure_induct_rule [of size])
  case (less n)
  then show ?case using assms [of n] by (subst run_step) blast
qed

end

end
