(* ===== verification/Expr_Ast.thy ===== *)
theory Expr_Ast
  imports Go_Strings Operator_Words
begin

text \<open>
  The expression tree of \<open>query/expression.go\<close> and its operator tables.  An operator is the string
  constant the source gives it.  The fields a later pass fills in (\<open>Resolved\<close>, \<open>ResolvedFunction\<close>,
  \<open>ResolvedColumn\<close>) are nil when the parser returns and are not part of the tree here; an optional
  expression is nil when it is absent.
\<close>

subsection \<open>Expressions\<close>

datatype OrderByDirection = OrderAsc | OrderDesc | OrderAscNullsFirst | OrderDescNullsLast

record FunctionRef =
  Schema :: string
  Name :: string

datatype expression =
    NullLiteral
  | BoolLiteral bool
  | NumberLiteral f64
  | Identifier string
  | StringLiteral string
  | BigIntLiteral string
  | NumericLiteral string
  | DefaultKeyword
  | UnaryExpr string expression
  | BinaryExpr string expression expression
  | FoldedExpr string expression expression
  | BetweenExpr bool expression expression expression
  | InExpr bool expression "expression list"
  | AnyAllExpr bool string expression expression
  | ConcatWsExpr expression "expression list"
  | CoalesceExpr "expression list"
  | FormatExpr string "expression list"
  | AggExpr FunctionRef "expression list" "expression option" bool "(expression \<times> OrderByDirection) list"
  | CallExpr FunctionRef "expression list"
  | ObjectExpr "(string \<times> expression) list"
  | StarExpr bool "string list" "(string \<times> expression) list option"
  | ArrExpr "expression list"
  | LstExpr "expression list"
  | IndexExpr expression expression
  | SliceExpr expression expression expression
  | ColExpr string "expression option" "expression option"
  | GetExpr string "expression option"
  | SetExpr string "expression option"
  | ParamExpr string string

type_synonym OrderByTerm = "expression \<times> OrderByDirection"

subsection \<open>Operator tables\<close>

definition unaryOperators :: "string list" where
  "unaryOperators =
     [''-'', ''not'', ''~'', ''is_null'', ''is_true'', ''is_false'', ''is_not_null'', ''is_not_true'',
      ''is_not_false'', ''|/'', ''||/'']"

definition binaryOperators :: "string list" where
  "binaryOperators =
     [''like'', ''ilike'', ''~'', ''~*'', ''::'', ''&&'', ''<->'', ''-|-'', ''<<'', ''>>'', ''@>'',
      ''<@'', ''?'', ''?|'', ''&<'', ''&>'', ''?&'', ''?:'', ''@@'']"

text \<open>Every spelling of a folding operator and its canonical constant.\<close>

definition foldedOperators :: "(string \<times> string) list" where
  "foldedOperators =
     map (\<lambda>op. (op, op))
       [''and'', ''or'', ''+'', ''-'', ''*'', ''/'', ''^'', ''%'', ''|'', ''&'', ''->'', ''->>'', ''#>'',
        ''#>>'', ''.'', ''||'', ''||?'', ''??'', ''<='', ''>='', ''<'', ''>'', ''='', ''<>'',
        ''is_distinct_from'', ''is_not_distinct_from''] @
     [(''!='', ''<>''), (''!=='', ''is_distinct_from''), (''==='', ''is_not_distinct_from'')]"

definition comparisonFoldOps :: "string list" where
  "comparisonFoldOps =
     [''<='', ''>='', ''<'', ''>'', ''='', ''<>'', ''is_distinct_from'', ''is_not_distinct_from'']"

definition orderByDirectionTags :: "(string \<times> OrderByDirection) list" where
  "orderByDirectionTags =
     [(''asc'', OrderAsc), (''desc'', OrderDesc), (''asc-nulls-first'', OrderAscNullsFirst),
      (''desc-nulls-last'', OrderDescNullsLast)]"

end
