(* ===== verification/Expr_Parse.thy ===== *)
theory Expr_Parse
  imports Doc_Node Expr_Ast
begin

text \<open>
  The expression parser, \<open>query/expression_parse.go\<close>.  The source's functions call \<open>parseNode\<close> on
  the parts of a node and are called by it; here each of them takes the parser of the parts as its
  argument \<open>rec\<close>, and \<open>parseNode\<close> is the fixed point of \<open>parseNodeStep\<close>.  An error keeps the
  innermost message of the source, without the context that is wrapped around it on the way up.
\<close>

subsection \<open>Errors\<close>

datatype ex_error =
    NodeErr node_error
  | InvalidJSON
  | UnexpectedKind NodeKind
  | EmptyArray
  | OperandCount string nat
  | UnknownOperator string string
  | BadLiteral string string
  | NeedsHop
  | UnrecognizedTag string nat
  | FoldNoOperand string
  | StarArgument string
  | RefNeedsName
  | RefKind NodeKind
  | UnknownOption string
  | BothRelationAndFunction
  | NeitherRelationNorFunction
  | EmptyName string
  | ArgumentsNeedFunction
  | FieldKindErr string
  | WellKnownTakesData
  | TopLevelKind NodeKind
  | InvalidReturns string
  | RawErr

definition strOf :: "node \<Rightarrow> ex_error + string" where
  "strOf n = mapErr NodeErr (StrictString n)"

definition boolOf :: "node \<Rightarrow> ex_error + bool" where
  "boolOf n = mapErr NodeErr (StrictBool n)"

definition itemsOf :: "node \<Rightarrow> ex_error + node list" where
  "itemsOf n = mapErr NodeErr (arrayItems n)"

definition fieldsOf :: "node \<Rightarrow> ex_error + node gomap" where
  "fieldsOf n = mapErr NodeErr (objectFields n)"

type_synonym exparser = "node \<Rightarrow> ex_error + expression"

subsection \<open>Shared decode helpers\<close>

definition parseExpressionList :: "exparser \<Rightarrow> node list \<Rightarrow> ex_error + expression list" where
  "parseExpressionList rec items = traverse rec items"

definition parseStringListValue :: "node \<Rightarrow> ex_error + string list" where
  "parseStringListValue n = bindR (itemsOf n) (traverse strOf)"

definition parseObjectFields :: "exparser \<Rightarrow> node \<Rightarrow> ex_error + expression gomap" where
  "parseObjectFields rec n = bindR (fieldsOf n) (forMap (\<lambda>k v. rec v))"

fun foldPairs :: "string \<Rightarrow> expression list \<Rightarrow> expression list" where
  "foldPairs op (a # b # es) = FoldedExpr op a b # foldPairs op (b # es)"
| "foldPairs op es = []"

definition foldLeft :: "string \<Rightarrow> expression \<Rightarrow> expression list \<Rightarrow> expression" where
  "foldLeft op e es = foldl (FoldedExpr op) e es"

text \<open>The source folds the comparison pairs by calling itself with \<open>and\<close>, which is not a comparison.\<close>

definition foldExpression :: "string \<Rightarrow> expression list \<Rightarrow> ex_error + expression" where
  "foldExpression op operands =
     (case operands of
        [] \<Rightarrow> Inl (FoldNoOperand op)
      | [e] \<Rightarrow> Inr e
      | e # es \<Rightarrow>
          if op \<in> set comparisonFoldOps then
            (case foldPairs op operands of
               p # ps \<Rightarrow> Inr (foldLeft ''and'' p ps)
             | [] \<Rightarrow> Inl (FoldNoOperand ''and''))
          else Inr (foldLeft op e es))"

definition parseFunctionRef :: "node \<Rightarrow> ex_error + FunctionRef" where
  "parseFunctionRef n =
     (case Kind n of
        KindString \<Rightarrow> bindR (strOf n) (\<lambda>name. Inr \<lparr>Schema = [], Name = name\<rparr>)
      | KindObject \<Rightarrow>
          (case ObjectGet n ''name'' of
             None \<Rightarrow> Inl RefNeedsName
           | Some nameNode \<Rightarrow>
               bindR (strOf nameNode) (\<lambda>name.
               case ObjectGet n ''schema'' of
                 None \<Rightarrow> Inr \<lparr>Schema = [], Name = name\<rparr>
               | Some schemaNode \<Rightarrow>
                   bindR (strOf schemaNode) (\<lambda>schema. Inr \<lparr>Schema = schema, Name = name\<rparr>)))
      | k \<Rightarrow> Inl (RefKind k))"

text \<open>The two regular expressions that gate literals written into SQL text:
  \<open>^-?[0-9]+$\<close> and \<open>^-?[0-9]+(\.[0-9]+)?([eE][-+]?[0-9]+)?$\<close>.\<close>

definition dropSign :: "char list \<Rightarrow> string \<Rightarrow> string" where
  "dropSign signs s = (case s of c # cs \<Rightarrow> if c \<in> set signs then cs else s | [] \<Rightarrow> s)"

definition allDigits :: "string \<Rightarrow> bool" where
  "allDigits s \<longleftrightarrow> s \<noteq> [] \<and> list_all isDigit s"

definition validBigIntLiteral :: "string \<Rightarrow> bool" where
  "validBigIntLiteral s = allDigits (dropSign ''-'' s)"

definition validExponent :: "string \<Rightarrow> bool" where
  "validExponent s =
     (case s of [] \<Rightarrow> True | c # cs \<Rightarrow> (c = CHR ''e'' \<or> c = CHR ''E'') \<and> allDigits (dropSign ''-+'' cs))"

definition validFraction :: "string \<Rightarrow> bool" where
  "validFraction s =
     (case s of
        c # cs \<Rightarrow> if c = CHR ''.'' then takeWhile isDigit cs \<noteq> [] \<and> validExponent (dropWhile isDigit cs)
                  else validExponent s
      | [] \<Rightarrow> True)"

definition validNumericLiteral :: "string \<Rightarrow> bool" where
  "validNumericLiteral s =
     (let t = dropSign ''-'' s in takeWhile isDigit t \<noteq> [] \<and> validFraction (dropWhile isDigit t))"

definition parseValidatedStringArgLiteral ::
  "string \<Rightarrow> node list \<Rightarrow> (string \<Rightarrow> bool) \<Rightarrow> (string \<Rightarrow> expression) \<Rightarrow> ex_error + expression" where
  "parseValidatedStringArgLiteral tag rest valid build =
     (case rest of
        [a] \<Rightarrow> bindR (strOf a) (\<lambda>v. if valid v then Inr (build v) else Inl (BadLiteral tag v))
      | _ \<Rightarrow> Inl (OperandCount tag (length rest)))"

subsection \<open>One production per tag\<close>

definition parseBetween :: "exparser \<Rightarrow> string \<Rightarrow> node list \<Rightarrow> ex_error + expression" where
  "parseBetween rec tag rest =
     (case rest of
        [a, b, c] \<Rightarrow>
          bindR (rec a) (\<lambda>minE. bindR (rec b) (\<lambda>expE. bindR (rec c) (\<lambda>maxE.
          Inr (BetweenExpr (tag = ''not_between'') minE expE maxE))))
      | _ \<Rightarrow> Inl (OperandCount tag (length rest)))"

definition parseIn :: "exparser \<Rightarrow> string \<Rightarrow> node list \<Rightarrow> ex_error + expression" where
  "parseIn rec tag rest =
     (case rest of
        [] \<Rightarrow> Inl (OperandCount tag 0)
      | a # as \<Rightarrow>
          bindR (rec a) (\<lambda>subject. bindR (parseExpressionList rec as) (\<lambda>candidates.
          Inr (InExpr (tag = ''not_in'') subject candidates))))"

definition knownOperator :: "string \<Rightarrow> bool" where
  "knownOperator op \<longleftrightarrow> op \<in> set binaryOperators \<or> map_of foldedOperators op \<noteq> None"

definition parseAnyAll :: "exparser \<Rightarrow> string \<Rightarrow> node list \<Rightarrow> ex_error + expression" where
  "parseAnyAll rec tag rest =
     (case rest of
        [o', a, b] \<Rightarrow>
          bindR (strOf o') (\<lambda>op0. let op = canonicalTag op0 in
          if \<not> knownOperator op then Inl (UnknownOperator tag op)
          else bindR (rec a) (\<lambda>subject. bindR (rec b) (\<lambda>arr.
               Inr (AnyAllExpr (tag = ''all'') op subject arr))))
      | _ \<Rightarrow> Inl (OperandCount tag (length rest)))"

definition parseConcatWs :: "exparser \<Rightarrow> string \<Rightarrow> node list \<Rightarrow> ex_error + expression" where
  "parseConcatWs rec tag rest =
     (case rest of
        [] \<Rightarrow> Inl (OperandCount tag 0)
      | a # as \<Rightarrow>
          bindR (rec a) (\<lambda>sep. bindR (parseExpressionList rec as) (\<lambda>args. Inr (ConcatWsExpr sep args))))"

definition parseFormat :: "exparser \<Rightarrow> string \<Rightarrow> node list \<Rightarrow> ex_error + expression" where
  "parseFormat rec tag rest =
     (case rest of
        [] \<Rightarrow> Inl (OperandCount tag 0)
      | a # as \<Rightarrow>
          bindR (strOf a) (\<lambda>format. bindR (parseExpressionList rec as) (\<lambda>args. Inr (FormatExpr format args))))"

definition parseOrderByTerm :: "exparser \<Rightarrow> node \<Rightarrow> ex_error + OrderByTerm" where
  "parseOrderByTerm rec n =
     (case n of
        NArray [NString tag, e] \<Rightarrow>
          (case map_of orderByDirectionTags tag of
             Some dir \<Rightarrow> bindR (rec e) (\<lambda>x. Inr (x, dir))
           | None \<Rightarrow> bindR (rec n) (\<lambda>x. Inr (x, OrderAsc)))
      | _ \<Rightarrow> bindR (rec n) (\<lambda>x. Inr (x, OrderAsc)))"

record AggOptions =
  aggFilter :: "expression option"
  aggDistinct :: bool
  aggOrderBy :: "OrderByTerm list"

definition parseAggOption :: "exparser \<Rightarrow> string \<Rightarrow> node \<Rightarrow> AggOptions \<Rightarrow> ex_error + AggOptions" where
  "parseAggOption rec key v agg =
     (if key = ''filter'' then bindR (rec v) (\<lambda>e. Inr (agg\<lparr>aggFilter := Some e\<rparr>))
      else if key = ''distinct'' then bindR (boolOf v) (\<lambda>b. Inr (agg\<lparr>aggDistinct := b\<rparr>))
      else if key = ''order_by'' then
        bindR (itemsOf v) (\<lambda>items. bindR (traverse (parseOrderByTerm rec) items) (\<lambda>terms.
        Inr (agg\<lparr>aggOrderBy := aggOrderBy agg @ terms\<rparr>)))
      else Inl (UnknownOption key))"

fun aggOptionLoop :: "exparser \<Rightarrow> node gomap \<Rightarrow> AggOptions \<Rightarrow> ex_error + AggOptions" where
  "aggOptionLoop rec [] agg = Inr agg"
| "aggOptionLoop rec ((k, v) # m) agg = bindR (parseAggOption rec k v agg) (aggOptionLoop rec m)"

definition noAggOptions :: AggOptions where
  "noAggOptions = \<lparr>aggFilter = None, aggDistinct = False, aggOrderBy = []\<rparr>"

definition parseAggOptions :: "exparser \<Rightarrow> node \<Rightarrow> ex_error + AggOptions" where
  "parseAggOptions rec n = bindR (fieldsOf n) (\<lambda>m. aggOptionLoop rec m noAggOptions)"

definition parseAgg :: "exparser \<Rightarrow> string \<Rightarrow> node list \<Rightarrow> ex_error + expression" where
  "parseAgg rec tag rest =
     (case rest of
        i # a # os \<Rightarrow>
          if length os > 1 then Inl (OperandCount tag (length rest))
          else
            bindR (parseFunctionRef i) (\<lambda>ident.
            bindR (itemsOf a) (\<lambda>argItems.
            bindR (parseExpressionList rec argItems) (\<lambda>args.
            bindR (case os of o' # _ \<Rightarrow> parseAggOptions rec o' | [] \<Rightarrow> Inr noAggOptions) (\<lambda>opts.
            Inr (AggExpr ident args (aggFilter opts) (aggDistinct opts) (aggOrderBy opts))))))
      | _ \<Rightarrow> Inl (OperandCount tag (length rest)))"

definition parseCallTag :: "exparser \<Rightarrow> string \<Rightarrow> node list \<Rightarrow> ex_error + expression" where
  "parseCallTag rec tag rest =
     (case rest of
        [] \<Rightarrow> Inl (OperandCount tag 0)
      | i # as \<Rightarrow>
          bindR (parseFunctionRef i) (\<lambda>ident. bindR (parseExpressionList rec as) (\<lambda>args.
          Inr (CallExpr ident args))))"

fun dotHops :: "expression \<Rightarrow> node list \<Rightarrow> ex_error + expression" where
  "dotHops result [] = Inr result"
| "dotHops result (n # ns) =
     bindR (strOf n) (\<lambda>name. dotHops (FoldedExpr ''.'' result (Identifier name)) ns)"

definition parseDot :: "exparser \<Rightarrow> string \<Rightarrow> node list \<Rightarrow> ex_error + expression" where
  "parseDot rec tag rest =
     (case rest of
        [] \<Rightarrow> Inl (OperandCount tag 0)
      | a # hops \<Rightarrow>
          (case StrictString a of
             Inr name \<Rightarrow> dotHops (Identifier name) hops
           | Inl _ \<Rightarrow> if hops = [] then Inl NeedsHop
                       else bindR (rec a) (\<lambda>base. dotHops base hops)))"

text \<open>The loop over a star's trailing arguments; a later key of an and-map replaces an earlier one.\<close>

fun starLoop :: "exparser \<Rightarrow> string \<Rightarrow> string list \<Rightarrow> expression gomap option \<Rightarrow> node list \<Rightarrow>
    ex_error + (string list \<times> expression gomap option)" where
  "starLoop rec tag except andMap [] = Inr (except, andMap)"
| "starLoop rec tag except andMap (n # ns) =
     (case Kind n of
        KindArray \<Rightarrow> bindR (parseStringListValue n) (\<lambda>e. starLoop rec tag (except @ e) andMap ns)
      | KindObject \<Rightarrow> bindR (parseObjectFields rec n) (\<lambda>a.
          starLoop rec tag except
            (Some (putAll (case andMap of None \<Rightarrow> [] | Some m \<Rightarrow> m) a)) ns)
      | _ \<Rightarrow> Inl (StarArgument tag))"

definition parseStarTag :: "exparser \<Rightarrow> bool \<Rightarrow> node list \<Rightarrow> ex_error + expression" where
  "parseStarTag rec own rest =
     bindR (starLoop rec (if own then ''*~'' else ''*'') [] None rest) (\<lambda>(except, andMap).
     Inr (StarExpr own except andMap))"

definition parseIndex :: "exparser \<Rightarrow> string \<Rightarrow> node list \<Rightarrow> ex_error + expression" where
  "parseIndex rec tag rest =
     (case rest of
        [a, i] \<Rightarrow> bindR (rec a) (\<lambda>arr. bindR (rec i) (\<lambda>idx. Inr (IndexExpr arr idx)))
      | _ \<Rightarrow> Inl (OperandCount tag (length rest)))"

definition parseSlice :: "exparser \<Rightarrow> string \<Rightarrow> node list \<Rightarrow> ex_error + expression" where
  "parseSlice rec tag rest =
     (case rest of
        [a, f, t] \<Rightarrow>
          bindR (rec a) (\<lambda>arr. bindR (rec f) (\<lambda>from'. bindR (rec t) (\<lambda>to.
          Inr (SliceExpr arr from' to))))
      | _ \<Rightarrow> Inl (OperandCount tag (length rest)))"

definition parseDefaultPosition :: "exparser \<Rightarrow> node \<Rightarrow> ex_error + expression" where
  "parseDefaultPosition rec n =
     (if StrictString n = Inr ''default'' then Inr DefaultKeyword else rec n)"

text \<open>The default slots of a column form: present or not.\<close>

definition optDefault :: "exparser \<Rightarrow> node list \<Rightarrow> ex_error + expression option" where
  "optDefault rec ns =
     (case ns of [] \<Rightarrow> Inr None | n # _ \<Rightarrow> bindR (parseDefaultPosition rec n) (\<lambda>e. Inr (Some e)))"

definition parseCol :: "exparser \<Rightarrow> node list \<Rightarrow> ex_error + expression" where
  "parseCol rec rest =
     (if length rest < 1 \<or> length rest > 3 then Inl (OperandCount ''col'' (length rest))
      else
        bindR (strOf (hd rest)) (\<lambda>column.
        bindR (optDefault rec (drop 1 rest)) (\<lambda>defaultGet.
        bindR (optDefault rec (drop 2 rest)) (\<lambda>defaultSet.
        Inr (ColExpr column defaultGet defaultSet)))))"

definition parseGetOrSet :: "exparser \<Rightarrow> string \<Rightarrow> node list \<Rightarrow> ex_error + expression" where
  "parseGetOrSet rec tag rest =
     (if length rest < 1 \<or> length rest > 2 then Inl (OperandCount tag (length rest))
      else
        bindR (strOf (hd rest)) (\<lambda>column.
        bindR (optDefault rec (drop 1 rest)) (\<lambda>def.
        Inr (if tag = ''get'' then GetExpr column def else SetExpr column def))))"

definition parseParam :: "string \<Rightarrow> node list \<Rightarrow> ex_error + expression" where
  "parseParam tag rest =
     (case rest of
        [n] \<Rightarrow> bindR (strOf n) (\<lambda>name. Inr (ParamExpr name []))
      | [n, c] \<Rightarrow> bindR (strOf n) (\<lambda>name. bindR (strOf c) (\<lambda>cast. Inr (ParamExpr name cast)))
      | _ \<Rightarrow> Inl (OperandCount tag (length rest)))"

text \<open>What the tags the \<open>switch\<close> does not name mean: an operator, tried in the order unary with one
  operand, binary with two, folded with any number.\<close>

definition parseOperator :: "exparser \<Rightarrow> string \<Rightarrow> node list \<Rightarrow> ex_error + expression" where
  "parseOperator rec tag rest =
     (if tag \<in> set unaryOperators \<and> length rest = 1 then
        bindR (rec (rest ! 0)) (\<lambda>e. Inr (UnaryExpr tag e))
      else if tag \<in> set binaryOperators \<and> length rest = 2 then
        bindR (rec (rest ! 0)) (\<lambda>l. bindR (rec (rest ! 1)) (\<lambda>r. Inr (BinaryExpr tag l r)))
      else
        (case map_of foldedOperators tag of
           Some op \<Rightarrow> if 1 \<le> length rest
                       then bindR (parseExpressionList rec rest) (foldExpression op)
                       else Inl (UnrecognizedTag tag (Suc (length rest)))
         | None \<Rightarrow> Inl (UnrecognizedTag tag (Suc (length rest)))))"

definition parseTag :: "exparser \<Rightarrow> string \<Rightarrow> node list \<Rightarrow> ex_error + expression" where
  "parseTag rec tag rest =
     (if tag \<in> {''between'', ''not_between''} then parseBetween rec tag rest
      else if tag = ''bigint'' then
        parseValidatedStringArgLiteral tag rest validBigIntLiteral BigIntLiteral
      else if tag = ''numeric'' then
        parseValidatedStringArgLiteral tag rest validNumericLiteral NumericLiteral
      else if tag \<in> {''in'', ''not_in''} then parseIn rec tag rest
      else if tag \<in> {''any'', ''all''} then parseAnyAll rec tag rest
      else if tag = ''concat_ws'' then parseConcatWs rec tag rest
      else if tag = ''coalesce'' then bindR (parseExpressionList rec rest) (\<lambda>args. Inr (CoalesceExpr args))
      else if tag = ''format'' then parseFormat rec tag rest
      else if tag \<in> {''agg'', ''aggregate''} then parseAgg rec tag rest
      else if tag = ''call'' then parseCallTag rec tag rest
      else if tag = ''.'' then parseDot rec tag rest
      else if tag \<in> {''*'', ''*~''} then parseStarTag rec (tag = ''*~'') rest
      else if tag \<in> {''arr'', ''array''} then bindR (parseExpressionList rec rest) (\<lambda>items. Inr (ArrExpr items))
      else if tag \<in> {''lst'', ''list''} then bindR (parseExpressionList rec rest) (\<lambda>items. Inr (LstExpr items))
      else if tag = ''index'' then parseIndex rec tag rest
      else if tag = ''slice'' then parseSlice rec tag rest
      else if tag = ''col'' then parseCol rec rest
      else if tag \<in> {''get'', ''set''} then parseGetOrSet rec tag rest
      else if tag = ''$param'' then parseParam tag rest
      else parseOperator rec tag rest)"

definition parseArrayExpression :: "exparser \<Rightarrow> node \<Rightarrow> ex_error + expression" where
  "parseArrayExpression rec n =
     bindR (itemsOf n) (\<lambda>items.
     case items of
       [] \<Rightarrow> Inl EmptyArray
     | t # rest \<Rightarrow> bindR (strOf t) (\<lambda>tag. parseTag rec (canonicalTag tag) rest))"

definition parseNodeStep :: "exparser \<Rightarrow> node \<Rightarrow> ex_error + expression" where
  "parseNodeStep rec n =
     (case Kind n of
        KindNull \<Rightarrow> Inr NullLiteral
      | KindBool \<Rightarrow> bindR (boolOf n) (\<lambda>b. Inr (BoolLiteral b))
      | KindNumber \<Rightarrow> bindR (mapErr NodeErr (StrictFloat64 n)) (\<lambda>f. Inr (NumberLiteral f))
      | KindString \<Rightarrow> bindR (strOf n) (\<lambda>s. Inr (StringLiteral s))
      | KindObject \<Rightarrow> bindR (parseObjectFields rec n) (\<lambda>fields. Inr (ObjectExpr fields))
      | KindArray \<Rightarrow> parseArrayExpression rec n
      | KindInvalid \<Rightarrow> Inl InvalidJSON
      | k \<Rightarrow> Inl (UnexpectedKind k))"

subsection \<open>The parser\<close>

text \<open>
  \<open>agree f g n\<close>: two parsers that agree on every node no larger than \<open>n\<close>.  A production run with
  either of them on operands they agree on gives the same result.
\<close>

definition agree :: "exparser \<Rightarrow> exparser \<Rightarrow> node \<Rightarrow> bool" where
  "agree f g n \<longleftrightarrow> (\<forall>m. size m \<le> size n \<longrightarrow> f m = g m)"

lemma agree_eq: "agree f g n \<Longrightarrow> f n = g n"
  by (simp add: agree_def)

lemma agree_smaller: "agree f g n \<Longrightarrow> size m < size n \<Longrightarrow> agree f g m"
  by (auto simp: agree_def)

lemma agree_items: "agree f g (NArray items) \<Longrightarrow> list_all (agree f g) items"
  using agree_smaller size_item by (fastforce simp: list_all_iff simp del: node.size)

lemma agree_fields: "agree f g (NObject m) \<Longrightarrow> (k, v) \<in> set m \<Longrightarrow> agree f g v"
  using agree_smaller size_field by blast

lemma parseExpressionList_agree:
  "list_all (agree f g) items \<Longrightarrow> parseExpressionList f items = parseExpressionList g items"
  unfolding parseExpressionList_def by (rule traverse_cong) (auto simp: list_all_iff intro: agree_eq)

lemma parseObjectFields_agree: "agree f g n \<Longrightarrow> parseObjectFields f n = parseObjectFields g n"
  unfolding parseObjectFields_def
  by (rule bindR_cong) (auto simp: fieldsOf_def mapErr_eq_Inr_iff intro!: forMap_cong agree_eq
      dest: agree_fields)

lemma parseOrderByTerm_agree:
  assumes "agree f g n"
  shows "parseOrderByTerm f n = parseOrderByTerm g n"
proof -
  have "f e = g e" if "n = NArray [t, e]" for t e
    using agree_items assms that agree_eq by force
  then show ?thesis
    using agree_eq [OF assms] by (auto simp: parseOrderByTerm_def split: node.split list.split option.split)
qed

lemma orderTerms_agree:
  "list_all (agree f g) items \<Longrightarrow> traverse (parseOrderByTerm f) items = traverse (parseOrderByTerm g) items"
  by (rule traverse_cong) (auto simp: list_all_iff intro: parseOrderByTerm_agree)

lemma parseAggOption_agree:
  assumes "agree f g v"
  shows "parseAggOption f k v agg = parseAggOption g k v agg"
proof -
  have "bindR (itemsOf v) (\<lambda>items. bindR (traverse (parseOrderByTerm f) items) h) =
      bindR (itemsOf v) (\<lambda>items. bindR (traverse (parseOrderByTerm g) items) h)"
    for h :: "_ \<Rightarrow> ex_error + AggOptions"
    by (rule bindR_cong [OF refl])
       (use assms agree_items orderTerms_agree [of f g] in \<open>auto simp: itemsOf_def mapErr_eq_Inr_iff\<close>)
  then show ?thesis by (simp add: parseAggOption_def agree_eq [OF assms])
qed

lemma aggOptionLoop_agree:
  "\<forall>kv \<in> set m. agree f g (snd kv) \<Longrightarrow> aggOptionLoop f m agg = aggOptionLoop g m agg"
proof (induction m arbitrary: agg)
  case (Cons kv m)
  then show ?case
    by (cases kv) (auto simp: parseAggOption_agree [of f g] intro!: bindR_cong)
qed simp

lemma parseAggOptions_agree: "agree f g n \<Longrightarrow> parseAggOptions f n = parseAggOptions g n"
  unfolding parseAggOptions_def
  by (rule bindR_cong [OF refl])
     (auto simp: fieldsOf_def mapErr_eq_Inr_iff intro!: aggOptionLoop_agree dest: agree_fields)

lemma starLoop_agree:
  "list_all (agree f g) ns \<Longrightarrow> starLoop f tag except andMap ns = starLoop g tag except andMap ns"
proof (induction ns arbitrary: except andMap)
  case (Cons n ns)
  then have "parseObjectFields f n = parseObjectFields g n" by (simp add: parseObjectFields_agree)
  then show ?case using Cons by (cases "Kind n") simp_all
qed simp

lemma optDefault_agree: "list_all (agree f g) ns \<Longrightarrow> optDefault f ns = optDefault g ns"
  by (cases ns) (simp_all add: optDefault_def parseDefaultPosition_def agree_eq [of f g])

lemma agree_drop: "list_all (agree f g) ns \<Longrightarrow> list_all (agree f g) (drop k ns)"
  by (auto simp: list_all_iff dest: in_set_dropD)

lemmas agree_lists = parseExpressionList_agree starLoop_agree optDefault_agree agree_drop

lemma agree_fixed_forms:
  assumes "list_all (agree f g) rest"
  shows "parseBetween f tag rest = parseBetween g tag rest"
    and "parseAnyAll f tag rest = parseAnyAll g tag rest"
    and "parseIndex f tag rest = parseIndex g tag rest"
    and "parseSlice f tag rest = parseSlice g tag rest"
  using assms
  by (auto simp: parseBetween_def parseAnyAll_def parseIndex_def parseSlice_def Let_def agree_eq [of f g] cong: if_cong
      split: list.split)

lemma agree_list_forms:
  assumes "list_all (agree f g) rest"
  shows "parseIn f tag rest = parseIn g tag rest"
    and "parseConcatWs f tag rest = parseConcatWs g tag rest"
    and "parseFormat f tag rest = parseFormat g tag rest"
    and "parseCallTag f tag rest = parseCallTag g tag rest"
    and "parseDot f tag rest = parseDot g tag rest"
  using assms agree_eq [of f g] agree_lists [of f g]
  by (cases rest; simp add: parseIn_def parseConcatWs_def parseFormat_def parseCallTag_def parseDot_def
      split: sum.split)+

lemma agree_column_forms:
  assumes "list_all (agree f g) rest"
  shows "parseStarTag f own rest = parseStarTag g own rest"
    and "parseCol f rest = parseCol g rest"
    and "parseGetOrSet f tag rest = parseGetOrSet g tag rest"
  using starLoop_agree [OF assms] optDefault_agree [OF agree_drop [OF assms]]
  by (simp_all add: parseStarTag_def parseCol_def parseGetOrSet_def)

lemma parseAgg_agree:
  assumes "list_all (agree f g) rest"
  shows "parseAgg f tag rest = parseAgg g tag rest"
proof (cases "\<exists>i a os. rest = i # a # os")
  case True
  then obtain i a os where r: "rest = i # a # os" by blast
  have a: "agree f g a" and os: "list_all (agree f g) os" using assms r by auto
  have "bindR (itemsOf a) (\<lambda>argItems. bindR (parseExpressionList f argItems) h) =
      bindR (itemsOf a) (\<lambda>argItems. bindR (parseExpressionList g argItems) h)" for h :: "_ \<Rightarrow> ex_error + expression"
    by (rule bindR_cong [OF refl])
       (use a agree_items parseExpressionList_agree [of f g] in \<open>auto simp: itemsOf_def mapErr_eq_Inr_iff\<close>)
  moreover have "(case os of o' # _ \<Rightarrow> parseAggOptions f o' | [] \<Rightarrow> Inr noAggOptions) =
      (case os of o' # _ \<Rightarrow> parseAggOptions g o' | [] \<Rightarrow> Inr noAggOptions)"
    using os by (cases os) (simp_all add: parseAggOptions_agree)
  ultimately show ?thesis by (simp add: r parseAgg_def)
next
  case False
  then show ?thesis by (auto simp: parseAgg_def split: list.split)
qed

lemma parseOperator_agree:
  assumes "list_all (agree f g) rest"
  shows "parseOperator f tag rest = parseOperator g tag rest"
proof -
  have "f (rest ! i) = g (rest ! i)" if "i < length rest" for i
    using assms that by (simp add: list_all_length agree_eq)
  then show ?thesis
    using parseExpressionList_agree [OF assms] by (simp add: parseOperator_def split: option.split)
qed

lemma parseTag_agree: "list_all (agree f g) rest \<Longrightarrow> parseTag f tag rest = parseTag g tag rest"
  by (simp add: parseTag_def agree_fixed_forms [of f g] agree_list_forms [of f g] agree_column_forms [of f g]
      parseAgg_agree [of f g] parseOperator_agree [of f g] parseExpressionList_agree [of f g])

lemma parseNodeStep_local:
  assumes "\<And>m. size m < size n \<Longrightarrow> f m = g m"
  shows "parseNodeStep f n = parseNodeStep g n"
proof (cases n)
  case (NArray items)
  have "agree f g x" if "x \<in> set items" for x
    using assms size_item [OF that] NArray by (simp add: agree_def del: node.size)
  then have "list_all (agree f g) items" by (simp add: list_all_iff)
  then show ?thesis
    using NArray parseTag_agree [of f g]
    by (cases items) (simp_all add: parseNodeStep_def parseArrayExpression_def itemsOf_def)
next
  case (NObject m)
  have "forMap (\<lambda>k v. f v) m = forMap (\<lambda>k v. g v) m"
    by (rule forMap_cong) (use assms size_field NObject in \<open>auto simp del: node.size\<close>)
  then show ?thesis
    using NObject by (simp add: parseNodeStep_def parseObjectFields_def fieldsOf_def)
qed (simp_all add: parseNodeStep_def)

lemma parseNodeStep_cong [fundef_cong]:
  "n = n' \<Longrightarrow> (\<And>m. size m < size n' \<Longrightarrow> f m = g m) \<Longrightarrow> parseNodeStep f n = parseNodeStep g n'"
  using parseNodeStep_local by blast

function parseNode :: "node \<Rightarrow> ex_error + expression" where
  "parseNode n = parseNodeStep parseNode n"
  by pat_completeness auto
termination
  by (relation "measure size") auto

declare parseNode.simps [simp del]

interpretation parser: open_recursion parseNodeStep parseNode
  by unfold_locales (fact parseNode.simps, fact parseNodeStep_local)

end
