(* ===== verification/Expr_Literals.thy ===== *)
theory Expr_Literals
  imports Expr_Parse
begin

text \<open>
  The literals that go into SQL text unbound.  The two gates of \<open>query/expression_parse.go\<close> are regular
  expressions; here they are shown to accept exactly the language written out, so nothing but
  digits, a sign, a point and an exponent gets through.
\<close>

subsection \<open>Literals written into SQL text\<close>

text \<open>The language of the regular expression, with its parts as strings.\<close>

definition numericText :: "string \<Rightarrow> bool" where
  "numericText v \<longleftrightarrow>
     (\<exists>sign ds frac ex. v = sign @ ds @ frac @ ex \<and> (sign = [] \<or> sign = ''-'') \<and> allDigits ds \<and>
        (frac = [] \<or> (\<exists>fs. frac = CHR ''.'' # fs \<and> allDigits fs)) \<and>
        (ex = [] \<or> (\<exists>c esign es. ex = c # esign @ es \<and> (c = CHR ''e'' \<or> c = CHR ''E'') \<and>
           (esign = [] \<or> esign = ''-'' \<or> esign = ''+'') \<and> allDigits es)))"

lemma digit_not_sign [simp]: "\<not> isDigit CHR ''-''" "\<not> isDigit CHR ''+''" "\<not> isDigit CHR ''.''"
  "\<not> isDigit CHR ''e''" "\<not> isDigit CHR ''E''"
  by (simp_all add: isDigit_def less_eq_char_def)

lemma dropSign_split:
  "\<exists>sign. v = sign @ dropSign signs v \<and> (sign = [] \<or> (\<exists>c \<in> set signs. sign = [c]))"
  by (cases v) (auto simp: dropSign_def)

lemma dropSign_digits: "allDigits ds \<Longrightarrow> (\<And>c. c \<in> set signs \<Longrightarrow> \<not> isDigit c) \<Longrightarrow> dropSign signs (ds @ r) = ds @ r"
  by (cases ds) (auto simp: dropSign_def allDigits_def)

lemma dropSign_allDigits:
  assumes "allDigits ds"
  shows "dropSign ''-+'' ds = ds" and "dropSign ''-'' ds = ds"
proof -
  have "dropSign ''-+'' (ds @ []) = ds @ []" by (rule dropSign_digits [OF assms]) auto
  then show "dropSign ''-+'' ds = ds" by simp
  have "dropSign ''-'' (ds @ []) = ds @ []" by (rule dropSign_digits [OF assms]) auto
  then show "dropSign ''-'' ds = ds" by simp
qed

lemma span_allDigits: "allDigits ds \<Longrightarrow> r = [] \<or> \<not> isDigit (hd r) \<Longrightarrow>
    takeWhile isDigit (ds @ r) = ds \<and> dropWhile isDigit (ds @ r) = r"
  by (cases r) (auto simp: allDigits_def list_all_iff takeWhile_append2 dropWhile_append2)

lemma takeWhile_allDigits: "takeWhile isDigit t \<noteq> [] \<Longrightarrow> allDigits (takeWhile isDigit t)"
  by (auto simp: allDigits_def list_all_iff dest: set_takeWhileD)

lemma validExponent_iff:
  "validExponent ex \<longleftrightarrow> ex = [] \<or> (\<exists>c esign es. ex = c # esign @ es \<and> (c = CHR ''e'' \<or> c = CHR ''E'') \<and>
     (esign = [] \<or> esign = ''-'' \<or> esign = ''+'') \<and> allDigits es)"
proof (cases ex)
  case (Cons c cs)
  have "allDigits (dropSign ''-+'' cs) \<longleftrightarrow>
      (\<exists>esign es. cs = esign @ es \<and> (esign = [] \<or> esign = ''-'' \<or> esign = ''+'') \<and> allDigits es)"
  proof
    assume "allDigits (dropSign ''-+'' cs)"
    then show "\<exists>esign es. cs = esign @ es \<and> (esign = [] \<or> esign = ''-'' \<or> esign = ''+'') \<and> allDigits es"
      using dropSign_split [of cs "''-+''"] by auto
  next
    assume "\<exists>esign es. cs = esign @ es \<and> (esign = [] \<or> esign = ''-'' \<or> esign = ''+'') \<and> allDigits es"
    then show "allDigits (dropSign ''-+'' cs)"
      by (elim exE conjE disjE) (simp_all add: dropSign_allDigits, simp_all add: dropSign_def)
  qed
  then show ?thesis using Cons by (auto simp: validExponent_def)
qed (simp add: validExponent_def)

lemma exponent_hd: "validExponent ex \<Longrightarrow> ex = [] \<or> \<not> isDigit (hd ex) \<and> hd ex \<noteq> CHR ''.''"
  by (cases ex) (auto simp: validExponent_def)

lemma validFraction_iff:
  "validFraction r \<longleftrightarrow> (\<exists>frac ex. r = frac @ ex \<and> (frac = [] \<or> (\<exists>fs. frac = CHR ''.'' # fs \<and> allDigits fs)) \<and>
     validExponent ex)"
proof
  assume v: "validFraction r"
  show "\<exists>frac ex. r = frac @ ex \<and> (frac = [] \<or> (\<exists>fs. frac = CHR ''.'' # fs \<and> allDigits fs)) \<and> validExponent ex"
  proof (cases "\<exists>cs. r = CHR ''.'' # cs")
    case True
    then obtain cs where r: "r = CHR ''.'' # cs" by blast
    then have "allDigits (takeWhile isDigit cs)" "validExponent (dropWhile isDigit cs)"
      using v takeWhile_allDigits by (auto simp: validFraction_def)
    moreover have "r = (CHR ''.'' # takeWhile isDigit cs) @ dropWhile isDigit cs" by (simp add: r)
    ultimately show ?thesis by blast
  next
    case False
    then have "validExponent r" using v by (cases r) (auto simp: validFraction_def validExponent_def)
    then show ?thesis by force
  qed
next
  assume "\<exists>frac ex. r = frac @ ex \<and> (frac = [] \<or> (\<exists>fs. frac = CHR ''.'' # fs \<and> allDigits fs)) \<and> validExponent ex"
  then obtain frac ex where h: "r = frac @ ex" "frac = [] \<or> (\<exists>fs. frac = CHR ''.'' # fs \<and> allDigits fs)"
    "validExponent ex" by blast
  then show "validFraction r"
  proof (cases "frac = []")
    case True
    then show ?thesis using h exponent_hd [OF h(3)] by (cases ex) (auto simp: validFraction_def)
  next
    case False
    then obtain fs where fs: "frac = CHR ''.'' # fs" "allDigits fs" using h(2) by blast
    have "ex = [] \<or> \<not> isDigit (hd ex)" using exponent_hd [OF h(3)] by blast
    note span_allDigits [OF fs(2) this]
    then show ?thesis using h(1,3) fs by (simp add: validFraction_def allDigits_def)
  qed
qed

lemma fraction_hd: "validFraction r \<Longrightarrow> r = [] \<or> \<not> isDigit (hd r)"
  by (cases r) (auto simp: validFraction_def validExponent_def split: if_splits)

lemma validNumericLiteral_iff: "validNumericLiteral v \<longleftrightarrow> numericText v"
proof -
  have "validNumericLiteral v \<longleftrightarrow>
      (\<exists>sign ds r. v = sign @ ds @ r \<and> (sign = [] \<or> sign = ''-'') \<and> allDigits ds \<and> validFraction r)"
  proof
    assume h: "validNumericLiteral v"
    let ?t = "dropSign ''-'' v"
    have "?t = takeWhile isDigit ?t @ dropWhile isDigit ?t" by simp
    moreover have "allDigits (takeWhile isDigit ?t)" "validFraction (dropWhile isDigit ?t)"
      using h takeWhile_allDigits by (auto simp: validNumericLiteral_def Let_def)
    moreover obtain sign where "v = sign @ ?t" "sign = [] \<or> sign = ''-''"
      using dropSign_split [of v "''-''"] by auto
    ultimately show "\<exists>sign ds r. v = sign @ ds @ r \<and> (sign = [] \<or> sign = ''-'') \<and> allDigits ds \<and> validFraction r"
      by metis
  next
    assume "\<exists>sign ds r. v = sign @ ds @ r \<and> (sign = [] \<or> sign = ''-'') \<and> allDigits ds \<and> validFraction r"
    then obtain sign ds r where h: "v = sign @ ds @ r" "sign = [] \<or> sign = ''-''" "allDigits ds" "validFraction r"
      by blast
    have "dropSign ''-'' (ds @ r) = ds @ r" by (rule dropSign_digits [OF h(3)]) auto
    moreover have "dropSign ''-'' (CHR ''-'' # ds @ r) = ds @ r" by (simp add: dropSign_def)
    ultimately have "dropSign ''-'' v = ds @ r" using h(1,2) by auto
    then show "validNumericLiteral v"
      using span_allDigits [OF h(3) fraction_hd [OF h(4)]] h(3,4)
      by (simp add: validNumericLiteral_def allDigits_def)
  qed
  then show ?thesis unfolding numericText_def validFraction_iff validExponent_iff by blast
qed

lemma validBigIntLiteral_iff: "validBigIntLiteral v \<longleftrightarrow> (\<exists>sign ds. v = sign @ ds \<and> (sign = [] \<or> sign = ''-'') \<and> allDigits ds)"
proof
  assume "validBigIntLiteral v"
  then show "\<exists>sign ds. v = sign @ ds \<and> (sign = [] \<or> sign = ''-'') \<and> allDigits ds"
    using dropSign_split [of v "''-''"] by (auto simp: validBigIntLiteral_def)
next
  assume "\<exists>sign ds. v = sign @ ds \<and> (sign = [] \<or> sign = ''-'') \<and> allDigits ds"
  then show "validBigIntLiteral v"
    by (elim exE conjE disjE)
       (simp_all add: validBigIntLiteral_def dropSign_allDigits, simp_all add: dropSign_def)
qed

definition literalChars :: string where
  "literalChars = ''0123456789+-.eE''"

lemma digit_codes_check: "list_all (\<lambda>k. char_of (48 + k) \<in> set ''0123456789'') [0 :: nat, 1, 2, 3, 4, 5, 6, 7, 8, 9]"
  by code_simp

lemma digit_chars:
  assumes "isDigit c"
  shows "c \<in> set ''0123456789''"
proof -
  define k :: nat where "k = of_char c - 48"
  have "48 \<le> (of_char c :: nat)" "(of_char c :: nat) \<le> 57"
    using assms by (auto simp: isDigit_def less_eq_char_def)
  then have n: "of_char c = 48 + k" "k < 10" by (simp_all add: k_def)
  from n(2) have "k \<in> set [0, 1, 2, 3, 4, 5, 6, 7, 8, 9]"
    by (simp add: eval_nat_numeral less_Suc_eq)
  then have "char_of (48 + k) \<in> set ''0123456789''"
    using digit_codes_check unfolding list_all_iff by blast
  then show ?thesis by (simp only: n(1) [symmetric] char_of_char)
qed

lemma allDigits_chars: "allDigits ds \<Longrightarrow> set ds \<subseteq> set literalChars"
  using digit_chars by (fastforce simp: allDigits_def list_all_iff literalChars_def)

lemma numericText_chars: "numericText v \<Longrightarrow> set v \<subseteq> set literalChars"
proof -
  have "set ''-+.eE'' \<subseteq> set literalChars" by (simp add: literalChars_def)
  then show "numericText v \<Longrightarrow> set v \<subseteq> set literalChars"
    unfolding numericText_def by (elim exE conjE disjE) (simp_all add: allDigits_chars)
qed

subsection \<open>Properties\<close>

text \<open>the gate before a \<open>numeric\<close> literal: the parser accepts a text exactly when it is an optional minus, digits, an optional
  fraction and an optional exponent, keeps it unchanged, and such a text has no character outside digits,
  signs, point and \<open>e\<close>; so a literal spliced into SQL cannot end its token.\<close>

theorem numeric_literal_gate:
  "parseNode (NArray [NString ''numeric'', NString v]) = Inr e \<longleftrightarrow>
     e = NumericLiteral v \<and> numericText v \<and> set v \<subseteq> set literalChars"
proof -
  have c: "canonicalTag ''numeric'' = ''numeric''" by code_simp
  have "parseNode (NArray [NString ''numeric'', NString v]) =
      (if validNumericLiteral v then Inr (NumericLiteral v) else Inl (BadLiteral ''numeric'' v))"
    by (subst parseNode.simps)
       (simp add: parseNodeStep_def parseArrayExpression_def itemsOf_def strOf_def c parseTag_def
         parseValidatedStringArgLiteral_def)
  then show ?thesis using numericText_chars [of v] by (auto simp: validNumericLiteral_iff split: if_splits)
qed

end
