(* ===== verification/Expr_Range.thy ===== *)
theory Expr_Range
  imports Expr_Parse
begin

text \<open>
  What the expression parser can return.  \<open>wf_expr\<close> describes the trees the later passes rely on, and
  \<open>unparse\<close> writes such a tree back as a document.  The parser returns well-formed trees only, and every
  well-formed tree is the parse of its document, so \<open>wf_expr\<close> is exactly the parser's range.
\<close>

subsection \<open>Well-formed trees\<close>

text \<open>The folding operators that reach a tree through \<open>foldExpression\<close>: the tags \<open>.\<close> and \<open>*\<close> are taken by
  the name lookup and the star form before the operator tables are asked.\<close>

definition foldTags :: "string list" where
  "foldTags =
     [''and'', ''or'', ''+'', ''-'', ''/'', ''^'', ''%'', ''|'', ''&'', ''->'', ''->>'', ''#>'',
      ''#>>'', ''||'', ''||?'', ''??'', ''<='', ''>='', ''<'', ''>'', ''='', ''<>'',
      ''is_distinct_from'', ''is_not_distinct_from'']"

definition isIdentifier :: "expression \<Rightarrow> bool" where
  "isIdentifier e = (case e of Identifier _ \<Rightarrow> True | _ \<Rightarrow> False)"

fun wf_expr :: "expression \<Rightarrow> bool" where
  "wf_expr (BigIntLiteral s) = validBigIntLiteral s"
| "wf_expr (NumericLiteral s) = validNumericLiteral s"
| "wf_expr DefaultKeyword = False"
| "wf_expr (UnaryExpr op e) = (op \<in> set unaryOperators \<and> wf_expr e)"
| "wf_expr (BinaryExpr op l r) = (op \<in> set binaryOperators \<and> wf_expr l \<and> wf_expr r)"
| "wf_expr (FoldedExpr op l r) =
     (wf_expr l \<and> wf_expr r \<and> (op \<in> set foldTags \<or> op = ''.'' \<and> isIdentifier r))"
| "wf_expr (BetweenExpr neg a b c) = (wf_expr a \<and> wf_expr b \<and> wf_expr c)"
| "wf_expr (InExpr neg s cs) = (wf_expr s \<and> (\<forall>c \<in> set cs. wf_expr c))"
| "wf_expr (AnyAllExpr al op s a) =
     (knownOperator op \<and> canonicalTag op = op \<and> wf_expr s \<and> wf_expr a)"
| "wf_expr (ConcatWsExpr s as) = (wf_expr s \<and> (\<forall>a \<in> set as. wf_expr a))"
| "wf_expr (CoalesceExpr as) = (\<forall>a \<in> set as. wf_expr a)"
| "wf_expr (FormatExpr f as) = (\<forall>a \<in> set as. wf_expr a)"
| "wf_expr (AggExpr r as fl d ob) =
     ((\<forall>a \<in> set as. wf_expr a) \<and> (\<forall>e \<in> set_option fl. wf_expr e) \<and> (\<forall>t \<in> set ob. wf_expr (fst t)))"
| "wf_expr (CallExpr r as) = (\<forall>a \<in> set as. wf_expr a)"
| "wf_expr (ObjectExpr m) = (distinct (map fst m) \<and> (\<forall>kv \<in> set m. wf_expr (snd kv)))"
| "wf_expr (StarExpr own ex am) =
     (\<forall>m \<in> set_option am. distinct (map fst m) \<and> (\<forall>kv \<in> set m. wf_expr (snd kv)))"
| "wf_expr (ArrExpr as) = (\<forall>a \<in> set as. wf_expr a)"
| "wf_expr (LstExpr as) = (\<forall>a \<in> set as. wf_expr a)"
| "wf_expr (IndexExpr a i) = (wf_expr a \<and> wf_expr i)"
| "wf_expr (SliceExpr a f t) = (wf_expr a \<and> wf_expr f \<and> wf_expr t)"
| "wf_expr (ColExpr c g s) =
     ((\<forall>e \<in> set_option g. e = DefaultKeyword \<or> wf_expr e) \<and>
      (\<forall>e \<in> set_option s. e = DefaultKeyword \<or> wf_expr e) \<and>
      (g = None \<longrightarrow> s = None))"
| "wf_expr (GetExpr c d) =
     (\<forall>e \<in> set_option d. e = DefaultKeyword \<or> wf_expr e)"
| "wf_expr (SetExpr c d) =
     (\<forall>e \<in> set_option d. e = DefaultKeyword \<or> wf_expr e)"
| "wf_expr _ = True"

subsection \<open>Writing a tree as a document\<close>

definition tagged :: "string \<Rightarrow> node list \<Rightarrow> node" where
  "tagged tag rest = NArray (NString tag # rest)"

fun directionTag :: "OrderByDirection \<Rightarrow> string" where
  "directionTag OrderAsc = ''asc''"
| "directionTag OrderDesc = ''desc''"
| "directionTag OrderAscNullsFirst = ''asc-nulls-first''"
| "directionTag OrderDescNullsLast = ''desc-nulls-last''"

definition refNode :: "FunctionRef \<Rightarrow> node" where
  "refNode r = NObject [(''schema'', NString (Schema r)), (''name'', NString (Name r))]"

text \<open>A string in a position that reads a bare string as a name is written as a one-operand \<open>and\<close>.\<close>

definition guardStr :: "expression \<Rightarrow> node \<Rightarrow> node" where
  "guardStr e n = (case e of StringLiteral s \<Rightarrow> tagged ''and'' [NString s] | _ \<Rightarrow> n)"

fun unparse :: "expression \<Rightarrow> node" where
  "unparse NullLiteral = NNull"
| "unparse (BoolLiteral b) = NBool b"
| "unparse (NumberLiteral f) = NNumber (Some f) None"
| "unparse (Identifier n) = tagged ''.'' [NString n]"
| "unparse (StringLiteral s) = NString s"
| "unparse (BigIntLiteral s) = tagged ''bigint'' [NString s]"
| "unparse (NumericLiteral s) = tagged ''numeric'' [NString s]"
| "unparse DefaultKeyword = NString ''default''"
| "unparse (UnaryExpr op e) = tagged op [unparse e]"
| "unparse (BinaryExpr op l r) = tagged op [unparse l, unparse r]"
| "unparse (FoldedExpr op l r) =
     (if op = ''.'' then tagged op [guardStr l (unparse l), case r of Identifier n \<Rightarrow> NString n | _ \<Rightarrow> NNull]
      else tagged op [unparse l, unparse r])"
| "unparse (BetweenExpr neg a b c) =
     tagged (if neg then ''not_between'' else ''between'') [unparse a, unparse b, unparse c]"
| "unparse (InExpr neg s cs) = tagged (if neg then ''not_in'' else ''in'') (unparse s # map unparse cs)"
| "unparse (AnyAllExpr al op s a) = tagged (if al then ''all'' else ''any'') [NString op, unparse s, unparse a]"
| "unparse (ConcatWsExpr s as) = tagged ''concat_ws'' (unparse s # map unparse as)"
| "unparse (CoalesceExpr as) = tagged ''coalesce'' (map unparse as)"
| "unparse (FormatExpr f as) = tagged ''format'' (NString f # map unparse as)"
| "unparse (AggExpr r as fl d ob) =
     tagged ''agg'' [refNode r, NArray (map unparse as),
       NObject ((case fl of None \<Rightarrow> [] | Some e \<Rightarrow> [(''filter'', unparse e)]) @
         [(''distinct'', NBool d),
          (''order_by'', NArray (map (\<lambda>(e, dir). tagged (directionTag dir) [unparse e]) ob))])]"
| "unparse (CallExpr r as) = tagged ''call'' (refNode r # map unparse as)"
| "unparse (ObjectExpr m) = NObject (map (\<lambda>(k, e). (k, unparse e)) m)"
| "unparse (StarExpr own ex am) =
     tagged (if own then ''*~'' else ''*'')
       (NArray (map NString ex) #
        (case am of None \<Rightarrow> [] | Some m \<Rightarrow> [NObject (map (\<lambda>(k, e). (k, unparse e)) m)]))"
| "unparse (ArrExpr as) = tagged ''arr'' (map unparse as)"
| "unparse (LstExpr as) = tagged ''lst'' (map unparse as)"
| "unparse (IndexExpr a i) = tagged ''index'' [unparse a, unparse i]"
| "unparse (SliceExpr a f t) = tagged ''slice'' [unparse a, unparse f, unparse t]"
| "unparse (ColExpr c g s) =
     tagged ''col'' (NString c # (case g of None \<Rightarrow> [] | Some e \<Rightarrow> [guardStr e (unparse e)]) @
       (case s of None \<Rightarrow> [] | Some e \<Rightarrow> [guardStr e (unparse e)]))"
| "unparse (GetExpr c d) = tagged ''get'' (NString c # (case d of None \<Rightarrow> [] | Some e \<Rightarrow> [guardStr e (unparse e)]))"
| "unparse (SetExpr c d) = tagged ''set'' (NString c # (case d of None \<Rightarrow> [] | Some e \<Rightarrow> [guardStr e (unparse e)]))"
| "unparse (ParamExpr n c) = tagged ''$param'' [NString n, NString c]"

subsection \<open>Tags\<close>

definition switchTags :: "string list" where
  "switchTags =
     [''between'', ''not_between'', ''bigint'', ''numeric'', ''in'', ''not_in'', ''any'', ''all'', ''concat_ws'',
      ''coalesce'', ''format'', ''agg'', ''aggregate'', ''call'', ''.'', ''*'', ''*~'', ''arr'', ''array'', ''lst'',
      ''list'', ''index'', ''slice'', ''col'', ''get'', ''set'', ''$param'']"

lemma parseTag_operator: "tag \<notin> set switchTags \<Longrightarrow> parseTag rec tag rest = parseOperator rec tag rest"
  by (simp add: switchTags_def parseTag_def)

lemma operator_tag_check:
  "list_all (\<lambda>op. op \<notin> set switchTags \<and> canonicalTag op = op) (unaryOperators @ binaryOperators @ foldTags)"
  by code_simp

lemma operator_tag:
  "op \<in> set unaryOperators \<union> set binaryOperators \<union> set foldTags \<Longrightarrow> op \<notin> set switchTags \<and> canonicalTag op = op"
  using operator_tag_check by (auto simp: list_all_iff)

lemma switch_tag_check: "list_all (\<lambda>tag. tag = ''aggregate'' \<or> canonicalTag tag = tag) switchTags"
  by code_simp

lemma switch_tag [simp]: "tag \<in> set switchTags \<Longrightarrow> tag \<noteq> ''aggregate'' \<Longrightarrow> canonicalTag tag = tag"
  using switch_tag_check by (auto simp: list_all_iff)

lemma fold_tag_check:
  "list_all (\<lambda>op. map_of foldedOperators op = Some op \<and> op \<notin> set binaryOperators) foldTags"
  by code_simp

lemma fold_tag: "op \<in> set foldTags \<Longrightarrow> map_of foldedOperators op = Some op \<and> op \<notin> set binaryOperators"
  using fold_tag_check by (auto simp: list_all_iff)

lemma folded_range_check: "list_all (\<lambda>(k, op). op \<in> {''.'', ''*''} \<or> op \<in> set foldTags) foldedOperators"
  by code_simp

lemma folded_dot_star_check: "list_all (\<lambda>(k, op). op \<in> {''.'', ''*''} \<longrightarrow> k = op) foldedOperators"
  by code_simp

lemma folded_range:
  assumes "map_of foldedOperators tag = Some op" and "tag \<notin> set switchTags"
  shows "op \<in> set foldTags"
proof -
  have "(tag, op) \<in> set foldedOperators" using assms(1) by (rule map_of_SomeD)
  then have "op \<in> {''.'', ''*''} \<or> op \<in> set foldTags" "op \<in> {''.'', ''*''} \<longrightarrow> tag = op"
    using folded_range_check folded_dot_star_check by (auto simp: list_all_iff)
  then show ?thesis using assms(2) by (auto simp: switchTags_def)
qed

subsection \<open>Every well-formed tree is the parse of its document\<close>

lemma parseNode_simps:
  "parseNode NNull = Inr NullLiteral"
  "parseNode (NBool b) = Inr (BoolLiteral b)"
  "parseNode (NNumber (Some f) i) = Inr (NumberLiteral f)"
  "parseNode (NString s) = Inr (StringLiteral s)"
  "parseNode (NObject m) = bindR (forMap (\<lambda>k. parseNode) m) (\<lambda>fields. Inr (ObjectExpr fields))"
  "parseNode (tagged tag rest) = parseTag parseNode (canonicalTag tag) rest"
  by (subst parseNode.simps, simp add: parseNodeStep_def boolOf_def StrictBool_def StrictFloat64_def strOf_def
      parseObjectFields_def fieldsOf_def tagged_def parseArrayExpression_def itemsOf_def)+

lemma strOf_NString [simp]: "strOf (NString s) = Inr s"
  by (simp add: strOf_def)

lemma boolOf_NBool [simp]: "boolOf (NBool b) = Inr b"
  by (simp add: boolOf_def StrictBool_def)

lemma itemsOf_NArray [simp]: "itemsOf (NArray items) = Inr items"
  by (simp add: itemsOf_def)

lemma fieldsOf_NObject [simp]: "fieldsOf (NObject m) = Inr m"
  by (simp add: fieldsOf_def)

lemma traverse_roundtrip: "(\<And>x. x \<in> set xs \<Longrightarrow> f (g x) = Inr x) \<Longrightarrow> traverse f (map g xs) = Inr xs"
  by (induction xs) simp_all

lemma forMap_roundtrip:
  "(\<And>k x. (k, x) \<in> set m \<Longrightarrow> f (g x) = Inr x) \<Longrightarrow> forMap (\<lambda>k. f) (map (\<lambda>(k, x). (k, g x)) m) = Inr m"
proof (induction m)
  case (Cons kv m)
  obtain k x where kv: "kv = (k, x)" by (cases kv)
  have "f (g x) = Inr x" using Cons.prems [of k x] kv by simp
  moreover have "forMap (\<lambda>k. f) (map (\<lambda>(k, x). (k, g x)) m) = Inr m"
    by (rule Cons.IH) (use Cons.prems in auto)
  ultimately show ?case by (simp add: kv)
qed simp

lemma parseFunctionRef_refNode [simp]: "parseFunctionRef (refNode r) = Inr r"
  by (simp add: parseFunctionRef_def refNode_def)

lemma guardStr_not_string: "wf_expr e \<Longrightarrow> guardStr e (unparse e) \<noteq> NString s"
  by (cases e) (auto simp: guardStr_def tagged_def)

lemma guardStr_default [simp]: "guardStr DefaultKeyword n = n"
  by (simp add: guardStr_def)

lemma guardStr_cases: "(\<exists>s. e = StringLiteral s) \<or> guardStr e n = n"
  by (cases e) (simp_all add: guardStr_def)

lemma parse_guardStr: "parseNode (unparse e) = Inr e \<Longrightarrow> parseNode (guardStr e (unparse e)) = Inr e"
proof -
  have "canonicalTag ''and'' = ''and''" "''and'' \<notin> set switchTags" "map_of foldedOperators ''and'' = Some ''and''"
    using operator_tag [of "''and''"] fold_tag [of "''and''"] by (simp_all add: foldTags_def)
  then have "parseNode (tagged ''and'' [NString s]) = Inr (StringLiteral s)" for s
    by (simp add: parseNode_simps parseTag_operator parseOperator_def parseExpressionList_def foldExpression_def
        unaryOperators_def)
  then show "parseNode (unparse e) = Inr e \<Longrightarrow> parseNode (guardStr e (unparse e)) = Inr e"
    using guardStr_cases [of e "unparse e"] by (auto simp: guardStr_def)
qed

lemma parseDefault_roundtrip:
  assumes "e = DefaultKeyword \<or> wf_expr e"
    and "wf_expr e \<Longrightarrow> parseNode (unparse e) = Inr e"
  shows "parseDefaultPosition parseNode (guardStr e (unparse e)) = Inr e"
  using assms guardStr_not_string [of e] parse_guardStr [of e] by (auto simp: parseDefaultPosition_def)

lemma direction_tags: "map_of orderByDirectionTags (directionTag d) = Some d"
  by (cases d) (simp_all add: orderByDirectionTags_def)

lemma orderTerm_roundtrip: "f (unparse e) = Inr e \<Longrightarrow>
    parseOrderByTerm f (tagged (directionTag d) [unparse e]) = Inr (e, d)"
  by (simp add: parseOrderByTerm_def tagged_def direction_tags)

lemma foldExpression_two: "foldExpression op [a, b] = Inr (FoldedExpr op a b)"
  by (simp add: foldExpression_def foldLeft_def)

lemma parse_unary:
  assumes "op \<in> set unaryOperators"
  shows "parseNode (tagged op [n]) = bindR (parseNode n) (\<lambda>e. Inr (UnaryExpr op e))"
  using operator_tag [of op] assms by (simp add: parseNode_simps parseTag_operator parseOperator_def)

lemma parse_binary:
  assumes "op \<in> set binaryOperators"
  shows "parseNode (tagged op [l, r]) =
    bindR (parseNode l) (\<lambda>a. bindR (parseNode r) (\<lambda>b. Inr (BinaryExpr op a b)))"
  using operator_tag [of op] assms by (simp add: parseNode_simps parseTag_operator parseOperator_def)

lemma parse_folded:
  assumes "op \<in> set foldTags" and "parseNode l = Inr a" and "parseNode r = Inr b"
  shows "parseNode (tagged op [l, r]) = Inr (FoldedExpr op a b)"
  using operator_tag [of op] fold_tag [OF assms(1)] assms
  by (simp add: parseNode_simps parseTag_operator parseOperator_def parseExpressionList_def foldExpression_two)

text \<open>The productions on documents that \<open>unparse\<close> writes.\<close>

lemma parse_tagged:
  "tag \<in> set switchTags \<Longrightarrow> tag \<noteq> ''aggregate'' \<Longrightarrow> parseNode (tagged tag rest) = parseTag parseNode tag rest"
  by (simp add: parseNode_simps)

lemmas production_defs = parseTag_def parseBetween_def parseIn_def parseAnyAll_def parseConcatWs_def
  parseFormat_def parseAgg_def parseCallTag_def parseDot_def parseIndex_def parseSlice_def parseCol_def
  parseGetOrSet_def parseParam_def parseValidatedStringArgLiteral_def parseExpressionList_def
  parseStarTag_def

lemma parse_list_tags:
  assumes "\<And>e. e \<in> set as \<Longrightarrow> parseNode (unparse e) = Inr e"
  shows "parseNode (tagged ''coalesce'' (map unparse as)) = Inr (CoalesceExpr as)"
    and "parseNode (tagged ''arr'' (map unparse as)) = Inr (ArrExpr as)"
    and "parseNode (tagged ''lst'' (map unparse as)) = Inr (LstExpr as)"
    and "parseNode (tagged ''format'' (NString f # map unparse as)) = Inr (FormatExpr f as)"
    and "parseNode (tagged ''call'' (refNode r # map unparse as)) = Inr (CallExpr r as)"
    and "parseNode s = Inr e \<Longrightarrow> parseNode (tagged ''concat_ws'' (s # map unparse as)) = Inr (ConcatWsExpr e as)"
    and "parseNode s = Inr e \<Longrightarrow>
      parseNode (tagged (if neg then ''not_in'' else ''in'') (s # map unparse as)) = Inr (InExpr neg e as)"
  using traverse_roundtrip [of as parseNode unparse] assms
  by (simp_all add: parse_tagged switchTags_def production_defs)

lemma parse_fixed_tags:
  assumes "parseNode a = Inr x" and "parseNode b = Inr y" and "parseNode c = Inr z"
  shows "parseNode (tagged ''index'' [a, b]) = Inr (IndexExpr x y)"
    and "parseNode (tagged ''slice'' [a, b, c]) = Inr (SliceExpr x y z)"
    and "parseNode (tagged (if neg then ''not_between'' else ''between'') [a, b, c]) = Inr (BetweenExpr neg x y z)"
    and "knownOperator op \<Longrightarrow> canonicalTag op = op \<Longrightarrow>
      parseNode (tagged (if al then ''all'' else ''any'') [NString op, a, b]) = Inr (AnyAllExpr al op x y)"
  using assms by (simp_all add: parse_tagged switchTags_def production_defs)

lemma parse_name: "parseNode (tagged ''.'' [NString n]) = Inr (Identifier n)"
  by (simp add: parse_tagged switchTags_def production_defs)

lemma parse_hop:
  assumes "parseNode a = Inr x" and "\<And>s. a \<noteq> NString s"
  shows "parseNode (tagged ''.'' [a, NString n]) = Inr (FoldedExpr ''.'' x (Identifier n))"
proof -
  have "StrictString a = Inl NotString"
    using assms(2) [of "case a of NString s \<Rightarrow> s | _ \<Rightarrow> []"] by (cases a) (simp_all add: StrictString_def)
  then show ?thesis using assms(1) by (simp add: parse_tagged switchTags_def production_defs)
qed

lemma parse_literals:
  "parseNode (tagged ''$param'' [NString n, NString c]) = Inr (ParamExpr n c)"
  "validBigIntLiteral v \<Longrightarrow> parseNode (tagged ''bigint'' [NString v]) = Inr (BigIntLiteral v)"
  "validNumericLiteral v \<Longrightarrow> parseNode (tagged ''numeric'' [NString v]) = Inr (NumericLiteral v)"
  by (simp_all add: parse_tagged switchTags_def production_defs)

text \<open>A default slot that is written out reads back.\<close>

definition slotReads :: "expression option \<Rightarrow> bool" where
  "slotReads d \<longleftrightarrow> (\<forall>e \<in> set_option d. parseDefaultPosition parseNode (guardStr e (unparse e)) = Inr e)"

lemma parse_columns:
  assumes "slotReads g" and "slotReads s"
  shows "parseNode (tagged ''get'' (NString c # (case g of None \<Rightarrow> [] | Some e \<Rightarrow> [guardStr e (unparse e)]))) = Inr (GetExpr c g)"
    and "parseNode (tagged ''set'' (NString c # (case g of None \<Rightarrow> [] | Some e \<Rightarrow> [guardStr e (unparse e)]))) = Inr (SetExpr c g)"
    and "(g = None \<longrightarrow> s = None) \<Longrightarrow> parseNode (tagged ''col'' (NString c # (case g of None \<Rightarrow> [] | Some e \<Rightarrow> [guardStr e (unparse e)]) @
       (case s of None \<Rightarrow> [] | Some e \<Rightarrow> [guardStr e (unparse e)]))) = Inr (ColExpr c g s)"
  using assms
  by (cases g; cases s; simp add: slotReads_def parse_tagged switchTags_def production_defs optDefault_def)+

lemma parse_star:
  assumes "\<And>m. am = Some m \<Longrightarrow> distinct (map fst m) \<and> (\<forall>kv \<in> set m. parseNode (unparse (snd kv)) = Inr (snd kv))"
  shows "parseNode (unparse (StarExpr own ex am)) = Inr (StarExpr own ex am)"
proof -
  have ex: "parseStringListValue (NArray (map NString ex)) = Inr ex"
    using traverse_roundtrip [of ex strOf NString] by (simp add: parseStringListValue_def)
  have obj: "parseObjectFields parseNode (NObject (map (\<lambda>(k, e). (k, unparse e)) m)) = Inr m"
    if "am = Some m" for m
    unfolding parseObjectFields_def using assms [OF that] forMap_roundtrip [of m parseNode unparse]
    by force
  have "putAll [] m = m" if "am = Some m" for m using assms [OF that] putAll_distinct [of "[]" m] by simp
  then show ?thesis
    using ex obj by (cases am) (auto simp: parse_tagged switchTags_def production_defs)
qed

lemma parse_agg:
  assumes "\<And>e. e \<in> set as \<Longrightarrow> parseNode (unparse e) = Inr e"
    and "\<And>e. e \<in> set_option fl \<Longrightarrow> parseNode (unparse e) = Inr e"
    and "\<And>t. t \<in> set ob \<Longrightarrow> parseNode (unparse (fst t)) = Inr (fst t)"
  shows "parseNode (unparse (AggExpr r as fl d ob)) = Inr (AggExpr r as fl d ob)"
proof -
  let ?oterm = "\<lambda>(e, dir). tagged (directionTag dir) [unparse e]"
  have ob: "traverse (parseOrderByTerm parseNode) (map ?oterm ob) = Inr ob"
    using assms(3) by (intro traverse_roundtrip) (auto simp: orderTerm_roundtrip)
  have as: "traverse parseNode (map unparse as) = Inr as" by (rule traverse_roundtrip) (rule assms(1))
  show ?thesis
    using ob as assms(2)
    by (cases fl) (simp_all add: parse_tagged switchTags_def production_defs parseAggOptions_def parseAggOption_def
        noAggOptions_def)
qed

lemma parse_unparse: "wf_expr e \<Longrightarrow> parseNode (unparse e) = Inr e"
proof (induction e)
  case (FoldedExpr op l r)
  show ?case
  proof (cases "op = ''.''")
    case True
    then obtain n where "r = Identifier n"
      using FoldedExpr.prems by (auto simp: foldTags_def isIdentifier_def split: expression.split_asm)
    then show ?thesis
      using True FoldedExpr parse_hop [OF parse_guardStr guardStr_not_string] by simp
  next
    case False
    then show ?thesis using FoldedExpr by (simp add: parse_folded)
  qed
next
  case (ObjectExpr m)
  have "parseNode (unparse e) = Inr e" if "(k, e) \<in> set m" for k e
    using ObjectExpr.IH [OF that, of e] ObjectExpr.prems that by (force intro: snds.intros)
  then have "forMap (\<lambda>k. parseNode) (map (\<lambda>(k, e). (k, unparse e)) m) = Inr m"
    by (rule forMap_roundtrip)
  then show ?case by (simp add: parseNode_simps)
next
  case (AggExpr r as fl d ob)
  show ?case
  proof (rule parse_agg)
    show "parseNode (unparse e) = Inr e" if "e \<in> set as" for e using AggExpr.IH(1) AggExpr.prems that by simp
    show "parseNode (unparse e) = Inr e" if "e \<in> set_option fl" for e
      using AggExpr.IH(2) AggExpr.prems that by simp
    show "parseNode (unparse (fst t)) = Inr (fst t)" if "t \<in> set ob" for t
      using AggExpr.IH(3) [OF that fsts.intros] AggExpr.prems that by simp
  qed
next
  case (StarExpr own ex am)
  show ?case
  proof (rule parse_star)
    fix m assume am: "am = Some m"
    have "parseNode (unparse (snd kv)) = Inr (snd kv)" if "kv \<in> set m" for kv
      using StarExpr.IH [of m kv "snd kv"] StarExpr.prems am that by (simp add: snds.intros)
    then show "distinct (map fst m) \<and> (\<forall>kv \<in> set m. parseNode (unparse (snd kv)) = Inr (snd kv))"
      using StarExpr.prems am by simp
  qed
next
  case (ColExpr c g s)
  then show ?case by (simp add: parse_columns slotReads_def parseDefault_roundtrip)
next
  case (GetExpr c d)
  then show ?case by (simp add: parse_columns [where s = None] slotReads_def parseDefault_roundtrip)
next
  case (SetExpr c d)
  then show ?case by (simp add: parse_columns [where s = None] slotReads_def parseDefault_roundtrip)
qed (simp_all add: parseNode_simps(1-4) parse_name parse_literals parse_unary parse_binary parse_list_tags
    parse_fixed_tags)

subsection \<open>The parser returns well-formed trees\<close>

definition fit :: "nat \<Rightarrow> node \<Rightarrow> bool" where
  "fit N m \<longleftrightarrow> size m < N \<and> wf_node m"

definition soundBelow :: "exparser \<Rightarrow> nat \<Rightarrow> bool" where
  "soundBelow rec N \<longleftrightarrow> (\<forall>m e. fit N m \<longrightarrow> rec m = Inr e \<longrightarrow> wf_expr e)"

lemma soundBelowD: "soundBelow rec N \<Longrightarrow> fit N m \<Longrightarrow> rec m = Inr e \<Longrightarrow> wf_expr e"
  by (simp add: soundBelow_def)

lemma fit_item: "fit N (NArray items) \<Longrightarrow> x \<in> set items \<Longrightarrow> fit N x"
  using size_item [of x items] by (simp add: fit_def del: node.size)

lemma fit_field: "fit N (NObject m) \<Longrightarrow> (k, v) \<in> set m \<Longrightarrow> fit N v"
  using size_field [of k v m] by (force simp: fit_def simp del: node.size)

lemma parseExpressionList_sound:
  assumes "soundBelow rec N" and "list_all (fit N) ns" and "parseExpressionList rec ns = Inr es"
  shows "\<forall>e \<in> set es. wf_expr e"
proof
  fix e assume "e \<in> set es"
  then obtain x where "x \<in> set ns" "rec x = Inr e"
    using traverse_set [of rec ns es e] assms(3) by (auto simp: parseExpressionList_def)
  then show "wf_expr e" using assms(1,2) soundBelowD by (auto simp: list_all_iff)
qed

lemma fields_sound:
  assumes "soundBelow rec N" and "distinct (map fst m)" and "\<And>k v. (k, v) \<in> set m \<Longrightarrow> fit N v"
    and "forMap (\<lambda>k. rec) m = Inr m'"
  shows "distinct (map fst m') \<and> (\<forall>kv \<in> set m'. wf_expr (snd kv))"
proof
  show "distinct (map fst m')" using forMap_keys [OF assms(4)] assms(2) by simp
  show "\<forall>kv \<in> set m'. wf_expr (snd kv)"
    using forMap_mem [OF assms(4)] assms(1,3) by (fastforce dest: soundBelowD)
qed

lemma parseObjectFields_sound:
  assumes "soundBelow rec N" and "fit N n" and "parseObjectFields rec n = Inr m'"
  shows "distinct (map fst m') \<and> (\<forall>kv \<in> set m'. wf_expr (snd kv))"
proof -
  obtain m where "n = NObject m" "forMap (\<lambda>k. rec) m = Inr m'"
    using assms(3) by (auto simp: parseObjectFields_def bindR_eq_Inr_iff fieldsOf_def mapErr_eq_Inr_iff)
  then show ?thesis
    using fields_sound [OF assms(1), of m m'] fit_field assms(2) by (auto simp: fit_def)
qed

lemma parseOrderByTerm_sound:
  assumes "soundBelow rec N" and "fit N n" and "parseOrderByTerm rec n = Inr t"
  shows "wf_expr (fst t)"
proof (cases "\<exists>tag e dir. n = NArray [NString tag, e] \<and> map_of orderByDirectionTags tag = Some dir")
  case True
  then obtain tag e dir where "n = NArray [NString tag, e]" "map_of orderByDirectionTags tag = Some dir" by blast
  then show ?thesis
    using assms fit_item [of N "[NString tag, e]" e] by (auto simp: parseOrderByTerm_def bindR_eq_Inr_iff dest: soundBelowD)
next
  case False
  then have "parseOrderByTerm rec n = bindR (rec n) (\<lambda>x. Inr (x, OrderAsc))"
    by (auto simp: parseOrderByTerm_def split: node.split list.split option.split)
  then have "bindR (rec n) (\<lambda>x. Inr (x, OrderAsc)) = Inr t" using assms(3) by simp
  then obtain x where "rec n = Inr x" "t = (x, OrderAsc)" by (auto simp: bindR_eq_Inr_iff)
  then show ?thesis using assms(1,2) soundBelowD by simp
qed

definition wf_options :: "AggOptions \<Rightarrow> bool" where
  "wf_options agg \<longleftrightarrow> (\<forall>e \<in> set_option (aggFilter agg). wf_expr e) \<and> (\<forall>t \<in> set (aggOrderBy agg). wf_expr (fst t))"

lemma wf_noAggOptions: "wf_options noAggOptions"
  by (simp add: wf_options_def noAggOptions_def)

lemma parseAggOption_sound:
  assumes "soundBelow rec N" and "fit N v" and "wf_options agg" and "parseAggOption rec k v agg = Inr agg'"
  shows "wf_options agg'"
proof -
  have "wf_expr (fst t)" if "v = NArray items" "traverse (parseOrderByTerm rec) items = Inr ts" "t \<in> set ts" for items ts t
    using traverse_set [OF that(2,3)] that(1) assms(1,2) fit_item parseOrderByTerm_sound by blast
  then show ?thesis
    using assms by (auto simp: parseAggOption_def bindR_eq_Inr_iff itemsOf_def mapErr_eq_Inr_iff wf_options_def
        dest: soundBelowD split: if_splits)
qed

lemma aggOptionLoop_sound:
  "soundBelow rec N \<Longrightarrow> \<forall>kv \<in> set m. fit N (snd kv) \<Longrightarrow> wf_options agg \<Longrightarrow>
     aggOptionLoop rec m agg = Inr agg' \<Longrightarrow> wf_options agg'"
  by (induction rec m agg rule: aggOptionLoop.induct)
     (auto simp: bindR_eq_Inr_iff dest: parseAggOption_sound)

lemma parseAggOptions_sound:
  assumes "soundBelow rec N" and "fit N n" and "parseAggOptions rec n = Inr opts"
  shows "wf_options opts"
proof -
  obtain m where m: "n = NObject m" "aggOptionLoop rec m noAggOptions = Inr opts"
    using assms(3) by (auto simp: parseAggOptions_def bindR_eq_Inr_iff fieldsOf_def mapErr_eq_Inr_iff)
  moreover have "\<forall>kv \<in> set m. fit N (snd kv)" using fit_field assms(2) m(1) by force
  ultimately show ?thesis using aggOptionLoop_sound [OF assms(1)] wf_noAggOptions by blast
qed

lemma parseAgg_sound:
  assumes "soundBelow rec N" and "list_all (fit N) rest" and "parseAgg rec tag rest = Inr e"
  shows "wf_expr e"
proof -
  obtain i a os where r: "rest = i # a # os"
    using assms(3) by (auto simp: parseAgg_def split: list.split_asm)
  obtain ident items args opts where h: "a = NArray items" "parseExpressionList rec items = Inr args"
    "(case os of o' # _ \<Rightarrow> parseAggOptions rec o' | [] \<Rightarrow> Inr noAggOptions) = Inr opts"
    "e = AggExpr ident args (aggFilter opts) (aggDistinct opts) (aggOrderBy opts)"
    using assms(3) r by (auto simp: parseAgg_def bindR_eq_Inr_iff itemsOf_def mapErr_eq_Inr_iff split: if_splits)
  have "list_all (fit N) items" using assms(2) r h(1) fit_item by (auto simp: list_all_iff)
  then have "\<forall>x \<in> set args. wf_expr x" using parseExpressionList_sound assms(1) h(2) by blast
  moreover have "wf_options opts"
    using h(3) assms(2) r parseAggOptions_sound [OF assms(1)]
    by (cases os) (auto simp: wf_noAggOptions)
  ultimately show ?thesis using h(4) by (simp add: wf_options_def)
qed

lemma starLoop_sound:
  assumes "soundBelow rec N" and "starLoop rec tag ex am ns = Inr (ex', am')" and "list_all (fit N) ns"
    and "\<forall>m \<in> set_option am. distinct (map fst m) \<and> (\<forall>kv \<in> set m. wf_expr (snd kv))"
  shows "\<forall>m \<in> set_option am'. distinct (map fst m) \<and> (\<forall>kv \<in> set m. wf_expr (snd kv))"
  using assms(2-4)
proof (induction ns arbitrary: ex am)
  case (Cons n ns)
  show ?case
  proof (cases "Kind n = KindObject")
    case True
    then obtain a where a: "parseObjectFields rec n = Inr a"
      "starLoop rec tag ex (Some (putAll (case am of None \<Rightarrow> [] | Some m \<Rightarrow> m) a)) ns = Inr (ex', am')"
      using Cons.prems(1) by (auto simp: bindR_eq_Inr_iff)
    have "\<forall>kv \<in> set a. wf_expr (snd kv)"
      using parseObjectFields_sound [OF assms(1) _ a(1)] Cons.prems(2) by simp
    then have "distinct (map fst (putAll (case am of None \<Rightarrow> [] | Some m \<Rightarrow> m) a)) \<and>
        (\<forall>kv \<in> set (putAll (case am of None \<Rightarrow> [] | Some m \<Rightarrow> m) a). wf_expr (snd kv))"
      using Cons.prems(3) set_putAll [of "case am of None \<Rightarrow> [] | Some m \<Rightarrow> m" a]
        putAll_keys [of "case am of None \<Rightarrow> [] | Some m \<Rightarrow> m" a]
      by (cases am) (simp_all, blast+)
    then show ?thesis using Cons.IH [OF a(2)] Cons.prems(2) by simp
  next
    case False
    then obtain ex2 where "starLoop rec tag ex2 am ns = Inr (ex', am')"
      using Cons.prems(1) by (auto simp: bindR_eq_Inr_iff split: NodeKind.split_asm)
    from Cons.IH [OF this] Cons.prems(2,3) show ?thesis by (simp del: starLoop.simps)
  qed
qed simp

lemma dotHops_sound: "dotHops base ns = Inr e \<Longrightarrow> wf_expr base \<Longrightarrow> wf_expr e"
  by (induction base ns rule: dotHops.induct) (auto simp: bindR_eq_Inr_iff isIdentifier_def)

lemma foldl_wf: "op \<in> set foldTags \<Longrightarrow> wf_expr e \<Longrightarrow> \<forall>x \<in> set es. wf_expr x \<Longrightarrow> wf_expr (foldLeft op e es)"
  unfolding foldLeft_def by (induction es arbitrary: e) auto

lemma foldPairs_wf: "op \<in> set foldTags \<Longrightarrow> \<forall>x \<in> set es. wf_expr x \<Longrightarrow> \<forall>x \<in> set (foldPairs op es). wf_expr x"
  by (induction op es rule: foldPairs.induct) auto

lemma foldExpression_sound:
  assumes "op \<in> set foldTags" and "\<forall>x \<in> set es. wf_expr x" and "foldExpression op es = Inr e"
  shows "wf_expr e"
proof -
  have and_tag: "''and'' \<in> set foldTags" by (simp add: foldTags_def)
  show ?thesis
    using assms foldPairs_wf [OF assms(1,2)]
    by (auto simp: foldExpression_def intro!: foldl_wf [OF assms(1)] foldl_wf [OF and_tag]
        split: list.split_asm if_splits)
qed

text \<open>A default slot and the operators.\<close>

lemma optDefault_sound:
  assumes "soundBelow rec N" and "list_all (fit N) ns" and "optDefault rec ns = Inr d"
  shows "\<forall>e \<in> set_option d. e = DefaultKeyword \<or> wf_expr e"
  using assms by (cases ns) (auto simp: optDefault_def parseDefaultPosition_def bindR_eq_Inr_iff
      dest: soundBelowD split: if_splits)

lemma parseOperator_sound:
  assumes "soundBelow rec N" and "list_all (fit N) rest" and "tag \<notin> set switchTags"
    and "parseOperator rec tag rest = Inr e"
  shows "wf_expr e"
proof -
  have item: "wf_expr x" if "rec (rest ! i) = Inr x" "i < length rest" for i x
    using assms(1,2) that soundBelowD by (auto simp: list_all_length)
  consider (unary) x where "tag \<in> set unaryOperators" "length rest = 1" "rec (rest ! 0) = Inr x" "e = UnaryExpr tag x"
    | (binary) x y where "tag \<in> set binaryOperators" "length rest = 2" "rec (rest ! 0) = Inr x"
        "rec (rest ! 1) = Inr y" "e = BinaryExpr tag x y"
    | (folded) op es where "map_of foldedOperators tag = Some op" "parseExpressionList rec rest = Inr es"
        "foldExpression op es = Inr e"
    using assms(4) by (auto simp: parseOperator_def bindR_eq_Inr_iff split: if_splits option.split_asm)
  then show ?thesis
  proof cases
    case unary
    then show ?thesis using item [of 0 x] by simp
  next
    case binary
    then show ?thesis using item [of 0 x] item [of 1 y] by simp
  next
    case folded
    then show ?thesis
      using foldExpression_sound [OF folded_range [OF folded(1) assms(3)]] parseExpressionList_sound assms(1,2)
      by blast
  qed
qed

lemma fixed_forms_sound:
  assumes "soundBelow rec N" and "list_all (fit N) rest"
  shows "parseBetween rec tag rest = Inr e \<Longrightarrow> wf_expr e"
    and "parseAnyAll rec tag rest = Inr e \<Longrightarrow> wf_expr e"
    and "parseIndex rec tag rest = Inr e \<Longrightarrow> wf_expr e"
    and "parseSlice rec tag rest = Inr e \<Longrightarrow> wf_expr e"
  using assms
  by (auto simp: parseBetween_def parseAnyAll_def parseIndex_def parseSlice_def bindR_eq_Inr_iff Let_def
      canonicalTag_idem dest: soundBelowD split: list.split_asm if_splits)

lemma list_forms_sound:
  assumes "soundBelow rec N" and "list_all (fit N) rest"
  shows "parseIn rec tag rest = Inr e \<Longrightarrow> wf_expr e"
    and "parseConcatWs rec tag rest = Inr e \<Longrightarrow> wf_expr e"
    and "parseFormat rec tag rest = Inr e \<Longrightarrow> wf_expr e"
    and "parseCallTag rec tag rest = Inr e \<Longrightarrow> wf_expr e"
    and "parseDot rec tag rest = Inr e \<Longrightarrow> wf_expr e"
  using assms parseExpressionList_sound [OF assms(1)] soundBelowD [OF assms(1)] dotHops_sound
  by (cases rest; auto simp: parseIn_def parseConcatWs_def parseFormat_def parseCallTag_def parseDot_def
      bindR_eq_Inr_iff split: sum.split_asm if_splits)+

lemma column_forms_sound:
  assumes "soundBelow rec N" and "list_all (fit N) rest"
  shows "parseStarTag rec own rest = Inr e \<Longrightarrow> wf_expr e"
    and "parseCol rec rest = Inr e \<Longrightarrow> wf_expr e"
    and "parseGetOrSet rec tag rest = Inr e \<Longrightarrow> wf_expr e"
proof -
  show "parseStarTag rec own rest = Inr e \<Longrightarrow> wf_expr e"
    using starLoop_sound [OF assms(1) _ assms(2)] by (fastforce simp: parseStarTag_def bindR_eq_Inr_iff)
  have slot: "\<forall>x \<in> set_option d. x = DefaultKeyword \<or> wf_expr x" if "optDefault rec (drop k rest) = Inr d" for k d
    by (rule optDefault_sound [OF assms(1) _ that]) (use assms(2) in \<open>auto simp: list_all_iff dest: in_set_dropD\<close>)
  have absent: "s = None" if "optDefault rec (drop (Suc 0) rest) = Inr None" "optDefault rec (drop 2 rest) = Inr s" for s
    using that by (cases rest rule: list.exhaust; cases "tl rest")
      (auto simp: optDefault_def bindR_eq_Inr_iff split: list.split_asm)
  show "parseCol rec rest = Inr e \<Longrightarrow> wf_expr e"
    using slot [of 1] slot [of 2] absent by (auto simp: parseCol_def bindR_eq_Inr_iff split: if_splits)
  show "parseGetOrSet rec tag rest = Inr e \<Longrightarrow> wf_expr e"
    using slot [of 1] by (auto simp: parseGetOrSet_def bindR_eq_Inr_iff split: if_splits)
qed

lemma literal_sound:
  "parseValidatedStringArgLiteral tag rest validBigIntLiteral BigIntLiteral = Inr e \<Longrightarrow> wf_expr e"
  "parseValidatedStringArgLiteral tag rest validNumericLiteral NumericLiteral = Inr e \<Longrightarrow> wf_expr e"
  "parseParam tag rest = Inr e \<Longrightarrow> wf_expr e"
  by (auto simp: parseValidatedStringArgLiteral_def parseParam_def bindR_eq_Inr_iff
      split: list.split_asm if_splits)

lemma items_sound:
  assumes "soundBelow rec N" and "list_all (fit N) rest"
  shows "bindR (parseExpressionList rec rest) (\<lambda>as. Inr (CoalesceExpr as)) = Inr e \<Longrightarrow> wf_expr e"
    and "bindR (parseExpressionList rec rest) (\<lambda>as. Inr (ArrExpr as)) = Inr e \<Longrightarrow> wf_expr e"
    and "bindR (parseExpressionList rec rest) (\<lambda>as. Inr (LstExpr as)) = Inr e \<Longrightarrow> wf_expr e"
  using parseExpressionList_sound [OF assms] by (auto simp: bindR_eq_Inr_iff)

lemma if_InrE:
  "(if b then x else y) = Inr e \<Longrightarrow> (b \<Longrightarrow> x = Inr e \<Longrightarrow> P) \<Longrightarrow> (\<not> b \<Longrightarrow> y = Inr e \<Longrightarrow> P) \<Longrightarrow> P"
  by (cases b) simp_all

lemma parseTag_sound:
  assumes "soundBelow rec N" and "list_all (fit N) rest" and "parseTag rec tag rest = Inr e"
  shows "wf_expr e"
  using assms(3) unfolding parseTag_def
  by (elim if_InrE)
     (erule fixed_forms_sound [OF assms(1,2)] list_forms_sound [OF assms(1,2)] column_forms_sound [OF assms(1,2)]
        parseAgg_sound [OF assms(1,2)] literal_sound items_sound [OF assms(1,2)]
      | erule parseOperator_sound [OF assms(1,2), rotated], simp add: switchTags_def)+

lemma parseNode_sound: "wf_node n \<Longrightarrow> parseNode n = Inr e \<Longrightarrow> wf_expr e"
proof -
  have "\<forall>e. wf_node n \<longrightarrow> parseNode n = Inr e \<longrightarrow> wf_expr e"
  proof (rule parser.run_invariant [where P = "\<lambda>n r. \<forall>e. wf_node n \<longrightarrow> r = Inr e \<longrightarrow> wf_expr e"])
    fix n :: node assume IH: "\<And>m. size m < size n \<Longrightarrow> \<forall>e. wf_node m \<longrightarrow> parseNode m = Inr e \<longrightarrow> wf_expr e"
    have below: "soundBelow parseNode (size n)" unfolding soundBelow_def fit_def using IH by blast
    show "\<forall>e. wf_node n \<longrightarrow> parseNodeStep parseNode n = Inr e \<longrightarrow> wf_expr e"
    proof (cases n)
      case (NArray items)
      have "list_all (fit (size n)) items" if "wf_node n"
        using that NArray size_item by (auto simp: list_all_iff fit_def simp del: node.size)
      then have "wf_node n \<Longrightarrow> items = t # rest \<Longrightarrow> list_all (fit (size n)) rest" for t rest by simp
      then show ?thesis
        using NArray parseTag_sound [OF below]
        by (cases items) (auto simp: parseNodeStep_def parseArrayExpression_def itemsOf_def bindR_eq_Inr_iff)
    next
      case (NObject m)
      have "fit (size n) v" if "wf_node n" "(k, v) \<in> set m" for k v
        using size_field [OF that(2)] that NObject by (force simp: fit_def simp del: node.size)
      then have "distinct (map fst m') \<and> (\<forall>kv \<in> set m'. wf_expr (snd kv))"
        if "wf_node n" "forMap (\<lambda>k. parseNode) m = Inr m'" for m'
        using fields_sound [OF below, of m m'] that NObject by simp
      then show ?thesis
        using NObject by (auto simp: parseNodeStep_def parseObjectFields_def fieldsOf_def bindR_eq_Inr_iff)
    qed (auto simp: parseNodeStep_def bindR_eq_Inr_iff)
  qed
  then show "wf_node n \<Longrightarrow> parseNode n = Inr e \<Longrightarrow> wf_expr e" by blast
qed

lemma wf_tagged [simp]: "wf_node (tagged tag rest) \<longleftrightarrow> (\<forall>n \<in> set rest. wf_node n)"
  by (simp add: tagged_def)

lemma wf_refNode [simp]: "wf_node (refNode r)"
  by (simp add: refNode_def)

lemma wf_guardStr: "wf_node n \<Longrightarrow> wf_node (guardStr e n)"
  using guardStr_cases [of e n] by (auto simp: guardStr_def)

lemma unparse_wf: "wf_expr e \<or> e = DefaultKeyword \<Longrightarrow> wf_node (unparse e)"
proof (induction e)
  case (AggExpr r as fl d ob)
  have "wf_node (unparse e)" if "(e, dir) \<in> set ob" for e dir
    using AggExpr.IH(3) [OF that, of e] AggExpr.prems that by (force intro: fsts.intros)
  then show ?case using AggExpr by (cases fl) auto
next
  case (ObjectExpr m)
  have "wf_node (unparse e)" if "(k, e) \<in> set m" for k e
    using ObjectExpr.IH [OF that, of e] ObjectExpr.prems that by (force intro: snds.intros)
  then show ?case using ObjectExpr.prems by (auto simp: comp_def case_prod_unfold)
next
  case (StarExpr own ex am)
  have "wf_node (unparse e)" if "am = Some m" "(k, e) \<in> set m" for m k e
    using StarExpr.IH [of m "(k, e)" e] StarExpr.prems that by (force intro: snds.intros)
  then show ?case using StarExpr.prems by (cases am) (auto simp: comp_def case_prod_unfold)
next
  case (ColExpr c g s)
  then show ?case by (cases g; cases s) (auto intro: wf_guardStr)
next
  case (GetExpr c d)
  then show ?case by (cases d) (auto intro: wf_guardStr)
next
  case (SetExpr c d)
  then show ?case by (cases d) (auto intro: wf_guardStr)
next
  case (FoldedExpr op l r)
  then show ?case by (auto intro: wf_guardStr split: expression.split)
qed auto

subsection \<open>Comparison chains\<close>

text \<open>The conjuncts of a left-nested conjunction.\<close>

fun conjuncts :: "expression \<Rightarrow> expression list" where
  "conjuncts (FoldedExpr op l r) = (if op = ''and'' then conjuncts l @ [r] else [FoldedExpr op l r])"
| "conjuncts e = [e]"

lemma conjuncts_foldLeft: "conjuncts (foldLeft ''and'' p ps) = conjuncts p @ ps"
  unfolding foldLeft_def by (induction ps arbitrary: p) simp_all

lemma foldPairs_index:
  "foldPairs op es = map (\<lambda>i. FoldedExpr op (es ! i) (es ! Suc i)) [0..<length es - 1]"
proof (induction op es rule: foldPairs.induct)
  case (1 op a b es)
  have "[0..<Suc (length es)] = 0 # map Suc [0..<length es]"
    by (simp add: map_Suc_upt upt_conv_Cons del: upt_Suc)
  then show ?case using 1 by (simp del: upt_Suc)
qed simp_all

lemma and_not_comparison: "''and'' \<notin> set comparisonFoldOps"
  by (simp add: comparisonFoldOps_def)

subsection \<open>Properties\<close>

text \<open>C9: the range of the expression parser: the trees it returns, over all documents that hold a key once per
  object, are exactly the well-formed ones: known operators at their arity, a name on the right of every
  dot, gated literals, a \<open>default\<close> keyword in default slots only, distinct keys.\<close>

theorem parser_range: "(\<exists>n. wf_node n \<and> parseNode n = Inr e) \<longleftrightarrow> wf_expr e"
  using parseNode_sound parse_unparse unparse_wf by blast

text \<open>C8: the parser reads back what is written: a well-formed tree written as a document with one
  tagged array per node parses to the same tree.\<close>

theorem parse_unparse_roundtrip:
  assumes "wf_expr e"
  shows "parseNode (unparse e) = Inr e"
  using assms by (rule parse_unparse)

theorem parse_unparse_roundtrip_witness:
  "parseNode (unparse (FoldedExpr ''and'' (UnaryExpr ''not'' (Identifier ''a'')) (ColExpr ''c'' (Some DefaultKeyword) None))) =
     Inr (FoldedExpr ''and'' (UnaryExpr ''not'' (Identifier ''a'')) (ColExpr ''c'' (Some DefaultKeyword) None))"
  by (rule parse_unparse_roundtrip) (simp add: unaryOperators_def foldTags_def)

text \<open>the word form of an operator and its tag are interchangeable in front of any operands.\<close>

theorem word_form_equivalent:
  "parseNode (NArray (NString w # rest)) = parseNode (NArray (NString (canonicalTag w) # rest))"
  using parseNode_simps(6) [of w rest] parseNode_simps(6) [of "canonicalTag w" rest]
  by (simp add: tagged_def canonicalTag_idem)

text \<open>a comparison with several operands means that it holds between every two neighbours: the parsed
  tree is the conjunction of the comparisons of adjacent operands, in order.\<close>

theorem comparison_chain:
  assumes "op \<in> set comparisonFoldOps" and "2 \<le> length es"
  shows "\<exists>e. foldExpression op es = Inr e \<and>
    conjuncts e = map (\<lambda>i. FoldedExpr op (es ! i) (es ! Suc i)) [0..<length es - 1]"
proof -
  obtain a b es' where es: "es = a # b # es'"
    using assms(2) by (cases es; cases "tl es") auto
  have "op \<noteq> ''and''" using assms(1) and_not_comparison by auto
  then have "conjuncts (foldLeft ''and'' (FoldedExpr op a b) (foldPairs op (b # es'))) = foldPairs op es"
    by (simp add: conjuncts_foldLeft es)
  moreover have "foldExpression op es = Inr (foldLeft ''and'' (FoldedExpr op a b) (foldPairs op (b # es')))"
    using assms(1) by (simp add: es foldExpression_def)
  ultimately show ?thesis by (auto simp: foldPairs_index)
qed

theorem comparison_chain_witness:
  "\<exists>e. foldExpression ''<'' [Identifier ''a'', Identifier ''b'', Identifier ''c''] = Inr e \<and>
     conjuncts e = [FoldedExpr ''<'' (Identifier ''a'') (Identifier ''b''),
                    FoldedExpr ''<'' (Identifier ''b'') (Identifier ''c'')]"
  using comparison_chain [of "''<''" "[Identifier ''a'', Identifier ''b'', Identifier ''c'']"]
  by (simp add: comparisonFoldOps_def upt_rec)



end
