(* ===== verification/Node_Parse.thy ===== *)
theory Node_Parse
  imports Expr_Range
begin

text \<open>
  The query parser, \<open>query/node_parse.go\<close> and \<open>query/wellknown_parse.go\<close>: a decoded document becomes a
  relation tree, a write, the call of a well-known query, or a sequence of those.  A pointer that may be nil
  is an option; \<open>ParsedQuery\<close>, of which the source sets exactly one field, is a datatype.  The
  text of a node (\<open>Raw\<close>) comes from the JSON and CBOR libraries and is the parameter \<open>raw\<close>.
\<close>

subsection \<open>Raw relations\<close>

datatype rawRelation = RawRelation
  (rrRelation: string)
  (rrFunction: string)
  (rrIsFunction: bool)
  (rrSchema: string)
  (rrAlias: string)
  (rrOn: "(string \<times> string) list option")
  (rrArgumentsPositional: "expression list option")
  (rrArgumentsNamed: "(string \<times> expression) list option")
  (rrWhere: "expression option")
  (rrWriteMode: string)
  (rrOnConflictConstraintName: string)
  (rrOnConflictColumns: "string list option")
  (rrInsertColumns: "string list option")
  (rrUpdateColumns: "string list option")
  (rrJoin: "(string \<times> rawRelation) list option")
  (rrSelect: "expression option")
  (rrDistinct: bool)
  (rrDistinctOn: "expression list option")
  (rrOrderBy: "(expression \<times> OrderByDirection) list option")
  (rrOffset: "int option")
  (rrLimit: "int option")

type_synonym relparser = "node \<Rightarrow> ex_error + rawRelation"

text \<open>The recurring \<open>if x, ok := n.ObjectGet(key); ok\<close>: the default when the key is absent.\<close>

definition optField :: "node \<Rightarrow> string \<Rightarrow> 'a \<Rightarrow> (node \<Rightarrow> ex_error + 'a) \<Rightarrow> ex_error + 'a" where
  "optField n key dflt f = (case ObjectGet n key of None \<Rightarrow> Inr dflt | Some x \<Rightarrow> f x)"

definition parseStringMap :: "node \<Rightarrow> ex_error + string gomap" where
  "parseStringMap n = bindR (fieldsOf n) (forMap (\<lambda>k v. strOf v))"

definition int64Of :: "node \<Rightarrow> ex_error + int" where
  "int64Of n = mapErr NodeErr (StrictInt64 n)"

definition presentR :: "ex_error + 'a \<Rightarrow> ex_error + 'a option" where
  "presentR m = bindR m (\<lambda>x. Inr (Some x))"

text \<open>\<open>relation\<close> and \<open>function\<close>: exactly one of them, and not the empty name.\<close>

definition parseSource :: "node \<Rightarrow> ex_error + (string \<times> string \<times> bool)" where
  "parseSource n =
     (case (ObjectGet n ''relation'', ObjectGet n ''function'') of
        (Some _, Some _) \<Rightarrow> Inl BothRelationAndFunction
      | (None, None) \<Rightarrow> Inl NeitherRelationNorFunction
      | (Some relNode, None) \<Rightarrow> bindR (strOf relNode) (\<lambda>r.
          if r = [] then Inl (EmptyName ''relation'') else Inr (r, [], False))
      | (None, Some fnNode) \<Rightarrow> bindR (strOf fnNode) (\<lambda>f.
          if f = [] then Inl (EmptyName ''function'') else Inr ([], f, True)))"

definition parseArguments ::
  "bool \<Rightarrow> node \<Rightarrow> ex_error + (expression list option \<times> expression gomap option)" where
  "parseArguments isFunction args =
     (if \<not> isFunction then Inl ArgumentsNeedFunction
      else
        (case Kind args of
           KindArray \<Rightarrow> bindR (itemsOf args) (\<lambda>items.
             bindR (parseExpressionList parseNode items) (\<lambda>es. Inr (Some es, None)))
         | KindObject \<Rightarrow> bindR (parseObjectFields parseNode args) (\<lambda>m. Inr (None, Some m))
         | _ \<Rightarrow> Inl (FieldKindErr ''arguments'')))"

definition parseOnConflict :: "node \<Rightarrow> ex_error + (string \<times> string list option)" where
  "parseOnConflict oc =
     (case Kind oc of
        KindString \<Rightarrow> bindR (strOf oc) (\<lambda>s. Inr (s, None))
      | KindArray \<Rightarrow> bindR (parseStringListValue oc) (\<lambda>cs. Inr ([], Some cs))
      | _ \<Rightarrow> Inl (FieldKindErr ''on_conflict''))"

definition parseJoin :: "relparser \<Rightarrow> node \<Rightarrow> ex_error + rawRelation gomap" where
  "parseJoin rec j = bindR (fieldsOf j) (forMap (\<lambda>alias child. rec child))"

definition parseOrderBy :: "node \<Rightarrow> ex_error + OrderByTerm list" where
  "parseOrderBy ob = bindR (itemsOf ob) (traverse (parseOrderByTerm parseNode))"

definition parseExprArray :: "node \<Rightarrow> ex_error + expression list" where
  "parseExprArray n = bindR (itemsOf n) (parseExpressionList parseNode)"

definition parseRawRelationStep :: "relparser \<Rightarrow> node \<Rightarrow> ex_error + rawRelation" where
  "parseRawRelationStep rec n =
     bindR (parseSource n) (\<lambda>(relation, function', isFunction).
     bindR (optField n ''schema'' [] strOf) (\<lambda>schema.
     bindR (optField n ''alias'' [] strOf) (\<lambda>alias.
     bindR (optField n ''on'' None (\<lambda>x. presentR (parseStringMap x))) (\<lambda>on.
     bindR (optField n ''arguments'' (None, None) (parseArguments isFunction)) (\<lambda>(positional, named).
     bindR (optField n ''where'' None (\<lambda>x. presentR (parseNode x))) (\<lambda>whereE.
     bindR (optField n ''write_mode'' [] strOf) (\<lambda>writeMode.
     bindR (optField n ''on_conflict'' ([], None) parseOnConflict) (\<lambda>(constraint, columns).
     bindR (optField n ''insert_columns'' None (\<lambda>x. presentR (parseStringListValue x))) (\<lambda>insertColumns.
     bindR (optField n ''update_columns'' None (\<lambda>x. presentR (parseStringListValue x))) (\<lambda>updateColumns.
     bindR (optField n ''join'' None (\<lambda>x. presentR (parseJoin rec x))) (\<lambda>join.
     bindR (optField n ''select'' None (\<lambda>x. presentR (parseNode x))) (\<lambda>select.
     bindR (optField n ''distinct'' False boolOf) (\<lambda>distinctB.
     bindR (optField n ''distinct_on'' None (\<lambda>x. presentR (parseExprArray x))) (\<lambda>distinctOn.
     bindR (optField n ''order_by'' None (\<lambda>x. presentR (parseOrderBy x))) (\<lambda>orderBy.
     bindR (optField n ''offset'' None (\<lambda>x. presentR (int64Of x))) (\<lambda>offset.
     bindR (optField n ''limit'' None (\<lambda>x. presentR (int64Of x))) (\<lambda>limit.
     Inr (RawRelation relation function' isFunction schema alias on positional named whereE writeMode
       constraint columns insertColumns updateColumns join select distinctB distinctOn orderBy offset
       limit))))))))))))))))))"

lemma parseJoin_local:
  assumes "\<And>m. size m < size j \<Longrightarrow> f m = g m"
  shows "parseJoin f j = parseJoin g j"
  unfolding parseJoin_def
  by (rule bindR_cong [OF refl], rule forMap_cong [OF refl])
     (use assms size_field in \<open>auto simp: fieldsOf_def mapErr_eq_Inr_iff simp del: node.size\<close>)

lemma parseRawRelationStep_local:
  assumes "\<And>m. size m < size n \<Longrightarrow> f m = g m"
  shows "parseRawRelationStep f n = parseRawRelationStep g n"
proof -
  have "optField n ''join'' None (\<lambda>x. presentR (parseJoin f x)) =
      optField n ''join'' None (\<lambda>x. presentR (parseJoin g x))"
    using parseJoin_local [of _ f g] assms size_get [of n "''join''"]
    by (force simp: optField_def split: option.split)
  then show ?thesis by (simp only: parseRawRelationStep_def)
qed

lemma parseRawRelationStep_cong [fundef_cong]:
  "n = n' \<Longrightarrow> (\<And>m. size m < size n' \<Longrightarrow> f m = g m) \<Longrightarrow> parseRawRelationStep f n = parseRawRelationStep g n'"
  using parseRawRelationStep_local by blast

function parseRawRelation :: "node \<Rightarrow> ex_error + rawRelation" where
  "parseRawRelation n = parseRawRelationStep parseRawRelation n"
  by pat_completeness auto
termination
  by (relation "measure size") auto

declare parseRawRelation.simps [simp del]

interpretation relations: open_recursion parseRawRelationStep parseRawRelation
  by unfold_locales (fact parseRawRelation.simps, fact parseRawRelationStep_local)

subsection \<open>Queries\<close>

record rawWellKnown =
  wkName :: string
  wkParams :: "string option"

record rawWriteQuery =
  wqQuery :: "rawRelation option"
  wqWellKnown :: "rawWellKnown option"
  wqData :: "node option"
  wqReturns :: string
  wqCount :: bool
  wqStats :: bool
  wqQueryPlan :: bool
  wqSql :: bool
  wqRollback :: bool

datatype ParsedQuery =
    QRelation rawRelation
  | QWrite rawWriteQuery
  | QWellKnown rawWellKnown
  | QSequence "ParsedQuery list"

definition validReturnsValues :: "string list" where
  "validReturnsValues = ['''', ''none'', ''results'']"

definition ValidateReturns :: "rawWriteQuery \<Rightarrow> ex_error + unit" where
  "ValidateReturns rq = guardR (wqReturns rq \<in> set validReturnsValues) (InvalidReturns (wqReturns rq))"

definition boolField :: "node \<Rightarrow> string \<Rightarrow> ex_error + (bool \<times> bool)" where
  "boolField n key =
     (case ObjectGet n key of
        None \<Rightarrow> Inr (False, False)
      | Some x \<Rightarrow> bindR (boolOf x) (\<lambda>b. Inr (b, True)))"

definition parseRawWellKnown ::
  "(node \<Rightarrow> ex_error + string) \<Rightarrow> node \<Rightarrow> node \<Rightarrow> ex_error + rawWellKnown" where
  "parseRawWellKnown raw n wk =
     bindR (strOf wk) (\<lambda>name.
     bindR (optField n ''params'' None (\<lambda>p. presentR (raw p))) (\<lambda>params.
     Inr \<lparr>wkName = name, wkParams = params\<rparr>))"

definition parseTarget ::
  "(node \<Rightarrow> ex_error + string) \<Rightarrow> node \<Rightarrow> ex_error + (rawRelation option \<times> rawWellKnown option)" where
  "parseTarget raw q =
     (case ObjectGet q ''wellknown'' of
        Some wk \<Rightarrow> bindR (parseRawWellKnown raw q wk) (\<lambda>w. Inr (None, Some w))
      | None \<Rightarrow> bindR (parseRawRelation q) (\<lambda>rel. Inr (Some rel, None)))"

definition parseWrite :: "(node \<Rightarrow> ex_error + string) \<Rightarrow> node \<Rightarrow> node \<Rightarrow> ex_error + rawWriteQuery" where
  "parseWrite raw n q =
     bindR (parseTarget raw q) (\<lambda>(query, wellKnown).
     bindR (optField n ''returns'' [] strOf) (\<lambda>returns.
     bindR (boolField n ''count'') (\<lambda>(count, _).
     bindR (boolField n ''stats'') (\<lambda>(stats, _).
     bindR (boolField n ''query_plan'') (\<lambda>(queryPlan, _).
     bindR (boolField n ''sql'') (\<lambda>(sql, _).
     bindR (boolField n ''rollback'') (\<lambda>(rollback, _).
     let rq = \<lparr>wqQuery = query, wqWellKnown = wellKnown, wqData = ObjectGet n ''data'', wqReturns = returns,
               wqCount = count, wqStats = stats, wqQueryPlan = queryPlan, wqSql = sql, wqRollback = rollback\<rparr>
     in bindR (ValidateReturns rq) (\<lambda>_. Inr rq))))))))"

definition parseQueryObject :: "(node \<Rightarrow> ex_error + string) \<Rightarrow> node \<Rightarrow> ex_error + ParsedQuery" where
  "parseQueryObject raw n =
     (case ObjectGet n ''wellknown'' of
        Some wk \<Rightarrow>
          bindR (parseRawWellKnown raw n wk) (\<lambda>rawWK.
          if ObjectGet n ''data'' \<noteq> None then Inl WellKnownTakesData else Inr (QWellKnown rawWK))
      | None \<Rightarrow>
          (case ObjectGet n ''query'' of
             Some q \<Rightarrow> bindR (parseWrite raw n q) (\<lambda>rq. Inr (QWrite rq))
           | None \<Rightarrow> bindR (parseRawRelation n) (\<lambda>rel. Inr (QRelation rel))))"

fun parseQueryNode :: "(node \<Rightarrow> ex_error + string) \<Rightarrow> node \<Rightarrow> ex_error + ParsedQuery" where
  "parseQueryNode raw (NArray items) = bindR (traverse (parseQueryNode raw) items) (\<lambda>seq. Inr (QSequence seq))"
| "parseQueryNode raw (NObject m) = parseQueryObject raw (NObject m)"
| "parseQueryNode raw n = Inl (TopLevelKind (Kind n))"

text \<open>\<open>ParseQuery\<close> and \<open>ParseExpression\<close> on the bytes of a document; \<open>decode\<close> is the JSON parser.\<close>

definition ParseQuery ::
  "(string \<Rightarrow> node option) \<Rightarrow> (node \<Rightarrow> ex_error + string) \<Rightarrow> string \<Rightarrow> ex_error + ParsedQuery" where
  "ParseQuery decode raw bytes =
     (case decode (TrimSpace bytes) of None \<Rightarrow> Inl InvalidJSON | Some root \<Rightarrow> parseQueryNode raw root)"

definition ParseExpression :: "(string \<Rightarrow> node option) \<Rightarrow> string \<Rightarrow> ex_error + expression" where
  "ParseExpression decode bytes =
     (if TrimSpace bytes = [] then Inr NullLiteral
      else (case decode (TrimSpace bytes) of None \<Rightarrow> Inl InvalidJSON | Some root \<Rightarrow> parseNode root))"

subsection \<open>Definitions of well-known queries\<close>

record RawWellKnownParam =
  wpType :: string
  wpDefault :: "string option"

record RawWellKnownDefinition =
  wdName :: string
  wdParams :: "RawWellKnownParam gomap"
  wdQuery :: rawRelation
  wdQueryRaw :: string

definition parseWellKnownParam :: "(node \<Rightarrow> ex_error + string) \<Rightarrow> node \<Rightarrow> ex_error + RawWellKnownParam" where
  "parseWellKnownParam raw pnode =
     bindR (optField pnode ''type'' [] strOf) (\<lambda>t.
     bindR (optField pnode ''default'' None (\<lambda>d. presentR (raw d))) (\<lambda>d.
     Inr \<lparr>wpType = t, wpDefault = d\<rparr>))"

definition parseWellKnownParams ::
  "(node \<Rightarrow> ex_error + string) \<Rightarrow> node \<Rightarrow> ex_error + RawWellKnownParam gomap" where
  "parseWellKnownParams raw p =
     (if Kind p = KindNull then Inr []
      else bindR (fieldsOf p) (forMap (\<lambda>pname pnode. parseWellKnownParam raw pnode)))"

definition parseWellKnownDefinition ::
  "(node \<Rightarrow> ex_error + string) \<Rightarrow> node \<Rightarrow> ex_error + RawWellKnownDefinition" where
  "parseWellKnownDefinition raw n =
     (case ObjectGet n ''name'' of
        None \<Rightarrow> Inl (EmptyName ''name'')
      | Some nameNode \<Rightarrow>
          bindR (strOf nameNode) (\<lambda>name.
          case ObjectGet n ''query'' of
            None \<Rightarrow> Inl (EmptyName ''query'')
          | Some queryNode \<Rightarrow>
              bindR (parseRawRelation queryNode) (\<lambda>rel.
              bindR (raw queryNode) (\<lambda>queryRaw.
              bindR (optField n ''params'' [] (parseWellKnownParams raw)) (\<lambda>params.
              Inr \<lparr>wdName = name, wdParams = params, wdQuery = rel, wdQueryRaw = queryRaw\<rparr>)))))"

definition ParseWellKnownNode ::
  "(node \<Rightarrow> ex_error + string) \<Rightarrow> node \<Rightarrow> ex_error + RawWellKnownDefinition list" where
  "ParseWellKnownNode raw root =
     (case root of
        NArray items \<Rightarrow> if items = [] then Inl EmptyArray else traverse (parseWellKnownDefinition raw) items
      | _ \<Rightarrow> bindR (parseWellKnownDefinition raw root) (\<lambda>def. Inr [def]))"

definition ParseWellKnownFile ::
  "(string \<Rightarrow> node option) \<Rightarrow> (node \<Rightarrow> ex_error + string) \<Rightarrow> string \<Rightarrow> ex_error + RawWellKnownDefinition list" where
  "ParseWellKnownFile decode raw bytes =
     (case decode (TrimSpace bytes) of None \<Rightarrow> Inl InvalidJSON | Some root \<Rightarrow> ParseWellKnownNode raw root)"

subsection \<open>What a parsed relation holds\<close>

text \<open>Inversion of the parser: every field of the result is the parse of the key it comes from.\<close>

lemma parseRawRelationStep_fields:
  assumes "parseRawRelationStep rec n = Inr r"
  shows "parseSource n = Inr (rrRelation r, rrFunction r, rrIsFunction r)"
    and "optField n ''schema'' [] strOf = Inr (rrSchema r)"
    and "optField n ''on'' None (\<lambda>x. presentR (parseStringMap x)) = Inr (rrOn r)"
    and "optField n ''arguments'' (None, None) (parseArguments (rrIsFunction r)) =
      Inr (rrArgumentsPositional r, rrArgumentsNamed r)"
    and "optField n ''where'' None (\<lambda>x. presentR (parseNode x)) = Inr (rrWhere r)"
    and "optField n ''write_mode'' [] strOf = Inr (rrWriteMode r)"
    and "optField n ''on_conflict'' ([], None) parseOnConflict =
      Inr (rrOnConflictConstraintName r, rrOnConflictColumns r)"
    and "optField n ''insert_columns'' None (\<lambda>x. presentR (parseStringListValue x)) = Inr (rrInsertColumns r)"
    and "optField n ''update_columns'' None (\<lambda>x. presentR (parseStringListValue x)) = Inr (rrUpdateColumns r)"
    and "optField n ''join'' None (\<lambda>x. presentR (parseJoin rec x)) = Inr (rrJoin r)"
    and "optField n ''select'' None (\<lambda>x. presentR (parseNode x)) = Inr (rrSelect r)"
    and "optField n ''distinct_on'' None (\<lambda>x. presentR (parseExprArray x)) = Inr (rrDistinctOn r)"
    and "optField n ''order_by'' None (\<lambda>x. presentR (parseOrderBy x)) = Inr (rrOrderBy r)"
  using assms unfolding parseRawRelationStep_def by (auto simp: bindR_eq_Inr_iff)

lemma optField_present:
  "optField n key None (\<lambda>x. presentR (f x)) = Inr d \<longleftrightarrow>
     (case ObjectGet n key of None \<Rightarrow> d = None | Some x \<Rightarrow> (\<exists>y. f x = Inr y \<and> d = Some y))"
  by (cases "ObjectGet n key") (auto simp: optField_def presentR_def bindR_eq_Inr_iff)

lemma optField_absent: "ObjectGet n key = None \<Longrightarrow> optField n key dflt f = Inr d \<longleftrightarrow> d = dflt"
  by (auto simp: optField_def)

fun wf_relation :: "rawRelation \<Rightarrow> bool" where
  "wf_relation (RawRelation relation function' isFunction schema alias on positional named whereE writeMode
       constraint columns insertColumns updateColumns join select distinctB distinctOn orderBy offset limit) =
     ((if isFunction then relation = [] \<and> function' \<noteq> [] else relation \<noteq> [] \<and> function' = []) \<and>
      (\<not> isFunction \<longrightarrow> positional = None \<and> named = None) \<and> (positional = None \<or> named = None) \<and>
      (constraint = [] \<or> columns = None) \<and>
      (\<forall>es \<in> set_option positional. \<forall>e \<in> set es. wf_expr e) \<and>
      (\<forall>m \<in> set_option named. distinct (map fst m) \<and> (\<forall>kv \<in> set m. wf_expr (snd kv))) \<and>
      (\<forall>e \<in> set_option whereE. wf_expr e) \<and> (\<forall>e \<in> set_option select. wf_expr e) \<and>
      (\<forall>es \<in> set_option distinctOn. \<forall>e \<in> set es. wf_expr e) \<and>
      (\<forall>ts \<in> set_option orderBy. \<forall>t \<in> set ts. wf_expr (fst t)) \<and>
      (\<forall>m \<in> set_option join. distinct (map fst m) \<and> (\<forall>kv \<in> set m. wf_relation (snd kv))))"

lemma parseSource_wf:
  "parseSource n = Inr (relation, function', isFunction) \<Longrightarrow>
     (if isFunction then relation = [] \<and> function' \<noteq> [] else relation \<noteq> [] \<and> function' = [])"
  by (auto simp: parseSource_def bindR_eq_Inr_iff split: option.split_asm if_splits)

lemma wf_get: "wf_node n \<Longrightarrow> ObjectGet n key = Some x \<Longrightarrow> wf_node x"
  by (cases n) (force simp: ObjectGet_def dest: map_of_SomeD)+

text \<open>The whole parser, not only a step below some node, is sound on well-formed nodes.\<close>

lemma parseNode_soundBelow: "soundBelow parseNode N"
  by (auto simp: soundBelow_def fit_def intro: parseNode_sound)

lemma fit_wf: "wf_node n \<Longrightarrow> fit (Suc (size n)) n"
  by (simp add: fit_def)

lemma items_wf: "wf_node (NArray items) \<Longrightarrow> list_all (fit (Suc (size (NArray items)))) items"
  using size_item by (auto simp: list_all_iff fit_def simp del: node.size intro: less_SucI)

lemma parseExprArray_wf: "wf_node n \<Longrightarrow> parseExprArray n = Inr es \<Longrightarrow> \<forall>e \<in> set es. wf_expr e"
  using parseExpressionList_sound [OF parseNode_soundBelow items_wf]
  by (auto simp: parseExprArray_def bindR_eq_Inr_iff itemsOf_def mapErr_eq_Inr_iff)

lemma parseOrderBy_wf:
  assumes "wf_node n" and "parseOrderBy n = Inr ts"
  shows "\<forall>t \<in> set ts. wf_expr (fst t)"
proof
  fix t assume t: "t \<in> set ts"
  obtain items where items: "n = NArray items" "traverse (parseOrderByTerm parseNode) items = Inr ts"
    using assms(2) by (auto simp: parseOrderBy_def bindR_eq_Inr_iff itemsOf_def mapErr_eq_Inr_iff)
  obtain x where "x \<in> set items" "parseOrderByTerm parseNode x = Inr t" using traverse_set [OF items(2) t] by blast
  then show "wf_expr (fst t)"
    using parseOrderByTerm_sound [OF parseNode_soundBelow fit_wf, of x t] assms(1) items(1) by simp
qed

lemma parseArguments_wf:
  assumes "wf_node x" and "parseArguments isFunction x = Inr (positional, named)"
  shows "isFunction \<and> (positional = None \<or> named = None) \<and> (\<forall>es \<in> set_option positional. \<forall>e \<in> set es. wf_expr e) \<and>
    (\<forall>m \<in> set_option named. distinct (map fst m) \<and> (\<forall>kv \<in> set m. wf_expr (snd kv)))"
proof (cases "Kind x")
  case KindArray
  then obtain items es where i: "x = NArray items" "parseExpressionList parseNode items = Inr es" "isFunction"
      "positional = Some es" "named = None"
    using assms(2) by (auto simp: parseArguments_def bindR_eq_Inr_iff itemsOf_def mapErr_eq_Inr_iff split: if_splits)
  then show ?thesis
    using parseExpressionList_sound [OF parseNode_soundBelow items_wf] assms(1) by auto
next
  case KindObject
  then obtain m where "parseObjectFields parseNode x = Inr m" "isFunction" "positional = None" "named = Some m"
    using assms(2) by (auto simp: parseArguments_def bindR_eq_Inr_iff split: if_splits)
  then show ?thesis
    using parseObjectFields_sound [OF parseNode_soundBelow fit_wf [OF assms(1)]] by auto
qed (use assms(2) in \<open>auto simp: parseArguments_def split: if_splits\<close>)

lemma parseOnConflict_wf: "parseOnConflict x = Inr (constraint, columns) \<Longrightarrow> constraint = [] \<or> columns = None"
  by (cases "Kind x") (auto simp: parseOnConflict_def bindR_eq_Inr_iff)

lemma parseJoin_wf:
  assumes "wf_node j" and "parseJoin rec j = Inr m"
    and "\<And>c r. size c < size j \<Longrightarrow> wf_node c \<Longrightarrow> rec c = Inr r \<Longrightarrow> wf_relation r"
  shows "distinct (map fst m) \<and> (\<forall>kv \<in> set m. wf_relation (snd kv))"
proof -
  obtain fs where fs: "j = NObject fs" "forMap (\<lambda>k. rec) fs = Inr m"
    using assms(2) by (auto simp: parseJoin_def bindR_eq_Inr_iff fieldsOf_def mapErr_eq_Inr_iff)
  have "wf_relation r" if kr: "(k, r) \<in> set m" for k r
  proof -
    obtain c where c: "(k, c) \<in> set fs" "rec c = Inr r" using forMap_mem [OF fs(2) kr] by blast
    have "wf_node c" using assms(1) fs(1) c(1) by force
    then show ?thesis using assms(3) [OF _ _ c(2)] size_field [OF c(1)] fs(1) by simp
  qed
  then show ?thesis using forMap_keys [OF fs(2)] assms(1) fs(1) by auto
qed

lemma wf_relation_iff:
  "wf_relation r \<longleftrightarrow>
     (if rrIsFunction r then rrRelation r = [] \<and> rrFunction r \<noteq> [] else rrRelation r \<noteq> [] \<and> rrFunction r = []) \<and>
     (\<not> rrIsFunction r \<longrightarrow> rrArgumentsPositional r = None \<and> rrArgumentsNamed r = None) \<and>
     (rrArgumentsPositional r = None \<or> rrArgumentsNamed r = None) \<and>
     (rrOnConflictConstraintName r = [] \<or> rrOnConflictColumns r = None) \<and>
     (\<forall>es \<in> set_option (rrArgumentsPositional r). \<forall>e \<in> set es. wf_expr e) \<and>
     (\<forall>m \<in> set_option (rrArgumentsNamed r). distinct (map fst m) \<and> (\<forall>kv \<in> set m. wf_expr (snd kv))) \<and>
     (\<forall>e \<in> set_option (rrWhere r). wf_expr e) \<and> (\<forall>e \<in> set_option (rrSelect r). wf_expr e) \<and>
     (\<forall>es \<in> set_option (rrDistinctOn r). \<forall>e \<in> set es. wf_expr e) \<and>
     (\<forall>ts \<in> set_option (rrOrderBy r). \<forall>t \<in> set ts. wf_expr (fst t)) \<and>
     (\<forall>m \<in> set_option (rrJoin r). distinct (map fst m) \<and> (\<forall>kv \<in> set m. wf_relation (snd kv)))"
  by (cases r) simp

lemma parseRawRelationStep_wf:
  assumes n: "wf_node n" and p: "parseRawRelationStep rec n = Inr r"
    and IH: "\<And>c r. size c < size n \<Longrightarrow> wf_node c \<Longrightarrow> rec c = Inr r \<Longrightarrow> wf_relation r"
  shows "wf_relation r"
proof -
  note f = parseRawRelationStep_fields [OF p]
  have args: "(\<not> rrIsFunction r \<longrightarrow> rrArgumentsPositional r = None \<and> rrArgumentsNamed r = None) \<and>
     (rrArgumentsPositional r = None \<or> rrArgumentsNamed r = None) \<and>
     (\<forall>es \<in> set_option (rrArgumentsPositional r). \<forall>e \<in> set es. wf_expr e) \<and>
     (\<forall>m \<in> set_option (rrArgumentsNamed r). distinct (map fst m) \<and> (\<forall>kv \<in> set m. wf_expr (snd kv)))"
    using f(4) parseArguments_wf wf_get [OF n] by (cases "ObjectGet n ''arguments''") (fastforce simp: optField_def)+
  have conflict: "rrOnConflictConstraintName r = [] \<or> rrOnConflictColumns r = None"
    using f(7) parseOnConflict_wf by (cases "ObjectGet n ''on_conflict''") (auto simp: optField_def)
  have exprs: "\<forall>e \<in> set_option (rrWhere r). wf_expr e" "\<forall>e \<in> set_option (rrSelect r). wf_expr e"
    using f(5,11) parseNode_sound wf_get [OF n] by (fastforce simp: optField_present split: option.split_asm)+
  have lists: "\<forall>es \<in> set_option (rrDistinctOn r). \<forall>e \<in> set es. wf_expr e"
    "\<forall>ts \<in> set_option (rrOrderBy r). \<forall>t \<in> set ts. wf_expr (fst t)"
    using f(12,13) parseExprArray_wf parseOrderBy_wf wf_get [OF n]
    by (fastforce simp: optField_present split: option.split_asm)+
  have "distinct (map fst m) \<and> (\<forall>kv \<in> set m. wf_relation (snd kv))" if m: "rrJoin r = Some m" for m
  proof -
    obtain j where j: "ObjectGet n ''join'' = Some j" "parseJoin rec j = Inr m"
      using f(10) m by (auto simp: optField_present split: option.split_asm)
    show ?thesis
      by (rule parseJoin_wf [OF wf_get [OF n j(1)] j(2)]) (rule IH [OF less_trans [OF _ size_get [OF j(1)]]])
  qed
  then have join: "\<forall>m \<in> set_option (rrJoin r). distinct (map fst m) \<and> (\<forall>kv \<in> set m. wf_relation (snd kv))"
    by (cases "rrJoin r") simp_all
  note split = conjunct1 [OF args] conjunct1 [OF conjunct2 [OF args]] conjunct1 [OF conjunct2 [OF conjunct2 [OF args]]]
    conjunct2 [OF conjunct2 [OF conjunct2 [OF args]]]
  show ?thesis
    by (subst wf_relation_iff) (intro conjI parseSource_wf [OF f(1)] split conflict exprs lists join)
qed

lemma parseRawRelation_sound: "wf_node n \<Longrightarrow> parseRawRelation n = Inr r \<Longrightarrow> wf_relation r"
  using relations.run_invariant [where P = "\<lambda>n q. \<forall>r. wf_node n \<longrightarrow> q = Inr r \<longrightarrow> wf_relation r"]
    parseRawRelationStep_wf [of _ parseRawRelation] by blast

subsection \<open>Reading is all a parsed relation does when it has no writing keys\<close>

text \<open>No field of the relation that writes is set, nor of any relation joined to it.\<close>

fun readOnly :: "rawRelation \<Rightarrow> bool" where
  "readOnly (RawRelation relation function' isFunction schema alias on positional named whereE writeMode
       constraint columns insertColumns updateColumns join select distinctB distinctOn orderBy offset limit) =
     (writeMode = [] \<and> constraint = [] \<and> columns = None \<and> insertColumns = None \<and> updateColumns = None \<and>
      (\<forall>m \<in> set_option join. \<forall>kv \<in> set m. readOnly (snd kv)))"

lemma readOnly_iff:
  "readOnly r \<longleftrightarrow> rrWriteMode r = [] \<and> rrOnConflictConstraintName r = [] \<and> rrOnConflictColumns r = None \<and>
     rrInsertColumns r = None \<and> rrUpdateColumns r = None \<and>
     (\<forall>m \<in> set_option (rrJoin r). \<forall>kv \<in> set m. readOnly (snd kv))"
  by (cases r) simp

text \<open>The document has no writing key, at the root or in any joined relation.\<close>

inductive noWriteNode :: "node \<Rightarrow> bool" where
  noWriteNode: "(\<And>key. key \<in> {''write_mode'', ''on_conflict'', ''insert_columns'', ''update_columns''} \<Longrightarrow>
      ObjectGet n key = None) \<Longrightarrow>
    (\<And>j fs k c. ObjectGet n ''join'' = Some j \<Longrightarrow> j = NObject fs \<Longrightarrow> (k, c) \<in> set fs \<Longrightarrow> noWriteNode c) \<Longrightarrow>
    noWriteNode n"

lemma parseRawRelation_readOnly:
  assumes "noWriteNode n" and "parseRawRelation n = Inr r"
  shows "readOnly r"
  using assms
proof (induction n arbitrary: r rule: noWriteNode.induct)
  case (noWriteNode n)
  have p: "parseRawRelationStep parseRawRelation n = Inr r" using noWriteNode.prems parseRawRelation.simps by metis
  note f = parseRawRelationStep_fields [OF p]
  have "readOnly (snd kv)" if m: "rrJoin r = Some m" and kv: "kv \<in> set m" for m kv
  proof -
    obtain j fs where j: "ObjectGet n ''join'' = Some j" "j = NObject fs" "forMap (\<lambda>k. parseRawRelation) fs = Inr m"
      using f(10) m by (auto simp: optField_present parseJoin_def bindR_eq_Inr_iff fieldsOf_def mapErr_eq_Inr_iff
          split: option.split_asm)
    obtain c where "(fst kv, c) \<in> set fs" "parseRawRelation c = Inr (snd kv)"
      using forMap_mem [OF j(3), of "fst kv" "snd kv"] kv by auto
    then show ?thesis using noWriteNode.IH [OF j(1,2)] by blast
  qed
  moreover have "ObjectGet n ''write_mode'' = None" "ObjectGet n ''on_conflict'' = None"
    "ObjectGet n ''insert_columns'' = None" "ObjectGet n ''update_columns'' = None"
    by (rule noWriteNode.hyps(1), simp)+
  ultimately show ?case
    using f(6-9) by (subst readOnly_iff) (auto simp: optField_absent)
qed

subsection \<open>Properties\<close>

text \<open>C32: every relation the parser returns is well formed at every join depth: exactly one of a relation
  and a function name, not empty; arguments only for a function and in one of the two forms; one form
  of the conflict target; well-formed expressions; distinct join aliases.\<close>

theorem parsed_relation_wf:
  assumes "wf_node n" and "parseRawRelation n = Inr r"
  shows "wf_relation r"
  using assms by (rule parseRawRelation_sound)

definition sampleRelation :: node where
  "sampleRelation =
     NObject [(''relation'', NString ''film''), (''limit'', NNumber None (Some 3)),
       (''join'', NObject [(''actors'', NObject [(''function'', NString ''cast_of''),
          (''arguments'', NArray [NArray [NString ''.'', NString ''id'']])])])]"

definition sampleParsed :: rawRelation where
  "sampleParsed =
     RawRelation ''film'' [] False [] [] None None None None [] [] None None None
       (Some [(''actors'', RawRelation [] ''cast_of'' True [] [] None (Some [Identifier ''id'']) None None [] []
          None None None None None False None None None None)])
       None False None None None (Some 3)"

lemma sample_parses: "wf_node sampleRelation" "parseRawRelation sampleRelation = Inr sampleParsed"
  by code_simp+

theorem parsed_relation_wf_witness: "wf_relation sampleParsed"
  using parsed_relation_wf [OF sample_parses] .



end
