(* ===== verification/Get_Pipeline.thy ===== *)
theory Get_Pipeline
  imports Query_Relation Node_Parse
begin

text \<open>
  The two halves of \<open>GET /rel\<close> together: the query string is decoded and compiled (\<open>querystring\<close>), written as JSON,
  and the JSON is read by the query parser (\<open>query\<close>).  The JSON encoder and decoder are third-party; what
  is relied on is that decoding gives back the value that was encoded, in the form the parser sees
  it (\<open>encodes\<close>).
\<close>

subsection \<open>The JSON codec\<close>

text \<open>\<open>encodes v n\<close>: the node \<open>n\<close> is what the parser sees of the JSON text of the Go value \<open>v\<close>.  The order of an object's
  fields is free.\<close>

inductive encodes :: "goval \<Rightarrow> node \<Rightarrow> bool" where
  enc_nil: "encodes GNil NNull"
| enc_bool: "encodes (GBool b) (NBool b)"
| enc_num: "encodes (GNum f) (NNumber (Some f) i)"
| enc_int: "encodes (GInt i) (NNumber f (Some i))"
| enc_str: "encodes (GStr s) (NString s)"
| enc_arr: "list_all2 encodes vs ns \<Longrightarrow> encodes (GArr vs) (NArray ns)"
| enc_obj: "distinct (map fst m') \<Longrightarrow>
     (\<forall>k v. map_of m k = Some v \<longrightarrow> (\<exists>n. map_of m' k = Some n \<and> encodes v n)) \<Longrightarrow>
     (\<forall>k. map_of m k = None \<longrightarrow> map_of m' k = None) \<Longrightarrow> encodes (GObj m) (NObject m')"

inductive_cases encodes_objE: "encodes (GObj m) n"
inductive_cases encodes_toObjE: "encodes v (NObject m')"

text \<open>What the composition relies on: a text the encoder returns decodes to a node of the value.\<close>

definition json_codec :: "(goval \<Rightarrow> qs_error + string) \<Rightarrow> (string \<Rightarrow> node option) \<Rightarrow> bool" where
  "json_codec marshal decode \<longleftrightarrow>
     (\<forall>v b. marshal v = Inr b \<longrightarrow> (\<exists>n. decode (TrimSpace b) = Some n \<and> encodes v n))"

text \<open>The whole path of a \<open>GET /rel\<close> query string.\<close>

definition parseGetQuery ::
  "(goval \<Rightarrow> qs_error + string) \<Rightarrow> (string \<Rightarrow> node option) \<Rightarrow> (node \<Rightarrow> ex_error + string) \<Rightarrow> string \<Rightarrow>
     qs_error + (ex_error + ParsedQuery)" where
  "parseGetQuery marshal decode raw qs =
     bindR (DecodeRelation marshal qs) (\<lambda>b. Inr (ParseQuery decode raw b))"

subsection \<open>Keys survive the codec\<close>

lemma encodes_fields:
  assumes "encodes (GObj m) n"
  shows "\<exists>m'. n = NObject m' \<and> (\<forall>k v. map_of m k = Some v \<longrightarrow> (\<exists>x. map_of m' k = Some x \<and> encodes v x)) \<and>
    (\<forall>k. map_of m k = None \<longrightarrow> map_of m' k = None)"
  using assms by (elim encodes_objE) (intro exI conjI; simp)

lemma encodes_get_some:
  assumes "encodes (GObj m) n" and "map_of m k = Some v"
  shows "\<exists>x. ObjectGet n k = Some x \<and> encodes v x"
  using encodes_fields [OF assms(1)] assms(2) by (elim exE conjE) simp

lemma encodes_get_none:
  assumes "encodes (GObj m) n"
  shows "ObjectGet n k = None \<longleftrightarrow> map_of m k = None"
proof (cases "map_of m k")
  case None
  then show ?thesis using encodes_fields [OF assms] by (elim exE conjE) simp
next
  case (Some v)
  then show ?thesis using encodes_get_some [OF assms Some] by auto
qed

lemma ObjectGet_leaf: "(\<And>m. n \<noteq> NObject m) \<Longrightarrow> ObjectGet n k = None"
  by (simp add: ObjectGet_def split: node.split)

lemma noWriteNode_leaf: "(\<And>m. n \<noteq> NObject m) \<Longrightarrow> noWriteNode n"
  by (rule noWriteNode.intros) (simp_all add: ObjectGet_leaf)

lemma encodes_noWrite:
  assumes "encodes (GObj rel) n" and "\<And>aliases sub. subRelation rel aliases = Some sub \<Longrightarrow> noWriteKeys sub"
  shows "noWriteNode n"
  using assms
proof (induction n arbitrary: rel rule: measure_induct_rule [of size])
  case (less n)
  show ?case
  proof (rule noWriteNode.intros)
    fix key :: string assume "key \<in> {''write_mode'', ''on_conflict'', ''insert_columns'', ''update_columns''}"
    moreover have "noWriteKeys rel" using less.prems(2) [of "[]"] by simp
    ultimately show "ObjectGet n key = None"
      using encodes_get_none [OF less.prems(1)] by (auto simp: noWriteKeys_def getOnlyForbiddenFields_def)
  next
    fix j fs k c assume j: "ObjectGet n ''join'' = Some j" "j = NObject fs" and c: "(k, c) \<in> set fs"
    show "noWriteNode c"
    proof (cases "\<exists>m. c = NObject m")
      case False
      then show ?thesis using noWriteNode_leaf by blast
    next
      case True
      obtain jv where jv: "map_of rel ''join'' = Some jv"
        using encodes_get_none [OF less.prems(1), of "''join''"] j(1) by (cases "map_of rel ''join''") auto
      then have "encodes jv (NObject fs)" using encodes_get_some [OF less.prems(1) jv] j by simp
      then obtain jm where jm: "jv = GObj jm" "encodes (GObj jm) (NObject fs)" "distinct (map fst fs)"
        by (auto elim: encodes_toObjE)
      have "map_of fs k = Some c" using jm(3) c by simp
      then obtain cv where cv: "map_of jm k = Some cv" "encodes cv c"
        using encodes_get_none [OF jm(2), of k] encodes_get_some [OF jm(2), of k] by (cases "map_of jm k") auto
      then obtain cm where cm: "cv = GObj cm" using True by (auto elim: encodes_toObjE)
      have "size c < size n" using size_field [OF c] size_get [OF j(1)] j(2) by simp
      moreover have "noWriteKeys sub" if "subRelation cm aliases = Some sub" for aliases sub
        using less.prems(2) [of "k # aliases"] jv jm(1) cv(1) cm that by simp
      ultimately show ?thesis using less.IH cv(2) cm by blast
    qed
  qed
qed

lemma known_not_query: "knownKeys rel \<Longrightarrow> map_of rel ''wellknown'' = None \<and> map_of rel ''query'' = None"
  by (auto simp: knownKeys_def relationFieldKinds_def)

subsection \<open>Properties\<close>

text \<open>C1: no \<open>GET /rel\<close> request writes: whatever the query string, if it is accepted and its JSON parses, the parsed
  query is a relation, never a write and never a sequence, and neither it nor any relation
  joined at any depth has a write mode, a conflict target, insert columns or update columns.\<close>

theorem get_pipeline_read_only:
  assumes "json_codec marshal decode" and "parseGetQuery marshal decode raw qs = Inr (Inr q)"
  shows "\<exists>r. q = QRelation r \<and> readOnly r"
proof -
  obtain b where b: "DecodeRelation marshal qs = Inr b" "ParseQuery decode raw b = Inr q"
    using assms(2) by (auto simp: parseGetQuery_def bindR_eq_Inr_iff)
  then obtain tree rel where h: "compileRelation tree = Inr rel" "rejectGetOnlyFields rel = Inr ()"
    "marshal (GObj rel) = Inr b"
    by (auto elim: DecodeRelation_okE)
  obtain n where n: "decode (TrimSpace b) = Some n" "encodes (GObj rel) n"
    using assms(1) h(3) unfolding json_codec_def by blast
  have sub: "noWriteKeys sub" if "subRelation rel aliases = Some sub" for aliases sub
    using rejectGetOnlyFields_root rejectGetOnlyFields_deep [OF h(2) that] by blast
  obtain m where m: "n = NObject m" using n(2) by (auto elim: encodes_objE)
  have "ObjectGet n ''wellknown'' = None" "ObjectGet n ''query'' = None"
    using encodes_get_none [OF n(2)] known_not_query [OF compileRelation_known [OF h(1)]] by auto
  then obtain r where "parseRawRelation n = Inr r" "q = QRelation r"
    using b(2) n(1) m by (auto simp: ParseQuery_def parseQueryObject_def bindR_eq_Inr_iff)
  moreover have "noWriteNode n" by (rule encodes_noWrite [OF n(2)]) (rule sub)
  ultimately show ?thesis using parseRawRelation_readOnly by blast
qed

text \<open>A codec of one value, with its text.\<close>

definition oneTree :: goval where
  "oneTree = GObj [(''relation'', GStr ''film'')]"

definition oneMarshal :: "goval \<Rightarrow> qs_error + string" where
  "oneMarshal v = (if v = oneTree then Inr ''J'' else Inl PanicIndex)"

definition oneDecode :: "string \<Rightarrow> node option" where
  "oneDecode s = (if s = ''J'' then Some (NObject [(''relation'', NString ''film'')]) else None)"

theorem get_pipeline_read_only_witness:
  "\<exists>r. parseGetQuery oneMarshal oneDecode (\<lambda>n. Inr []) ''relation=film'' = Inr (Inr (QRelation r)) \<and> readOnly r"
proof -
  have trim: "TrimSpace ''J'' = ''J''" by (rule TrimSpace_id) (simp_all add: isIdentPart_def isIdentStart_def less_eq_char_def)
  have enc: "encodes oneTree (NObject [(''relation'', NString ''film'')])"
    unfolding oneTree_def by (rule enc_obj) (auto intro: enc_str)
  have codec: "json_codec oneMarshal oneDecode"
    unfolding json_codec_def using enc by (auto simp: oneMarshal_def oneDecode_def trim split: if_splits)
  have "isOk (DecodeRelation oneMarshal ''relation=film'')" by code_simp
  then obtain b where b: "DecodeRelation oneMarshal ''relation=film'' = Inr b" by (auto simp: isOk_iff)
  then have "b = ''J''" by (auto elim!: DecodeRelation_okE simp: oneMarshal_def split: if_splits)
  moreover have "isOk (parseQueryNode (\<lambda>n. Inr []) (NObject [(''relation'', NString ''film'')]))" by code_simp
  ultimately obtain q where "parseGetQuery oneMarshal oneDecode (\<lambda>n. Inr []) ''relation=film'' = Inr (Inr q)"
    using b trim by (auto simp: parseGetQuery_def ParseQuery_def oneDecode_def isOk_iff simp del: parseQueryNode.simps)
  then show ?thesis using get_pipeline_read_only [OF codec] by metis
qed

text \<open>An empty \<open>order_by\<close> value is accepted by the query-string layer as a nil slice, which becomes JSON \<open>null\<close>, which the
  query parser refuses.\<close>

lemma empty_order_by_refused:
  "compileField kindOrderByList (GStr []) = Inr GNil \<and> (encodes GNil n \<longrightarrow> parseOrderBy n = Inl (NodeErr NotArray))"
  by (auto simp: compileField.simps compileLeafField_def asString_def compileOrderBy_def atEnd_def sliceValue_def
      parseOrderBy_def itemsOf_def arrayItems_def elim: encodes.cases)

end
