(* ===== verification/Go_Format.thy ===== *)
theory Go_Format
  imports Go_Strings
begin

text \<open>
  Decimal texts of integers: \<open>strconv.FormatInt\<close>, \<open>strconv.FormatUint\<close> and \<open>big.Int.String\<close> in base 10, and
  that reading such a text gives the number back.
\<close>

fun showDigit :: "nat \<Rightarrow> char" where
  "showDigit d = ''0123456789'' ! d"

fun showNat :: "nat \<Rightarrow> string" where
  "showNat n = (if n < 10 then [showDigit n] else showNat (n div 10) @ [showDigit (n mod 10)])"

declare showNat.simps [simp del] showDigit.simps [simp del]

definition FormatInt :: "int \<Rightarrow> string" where
  "FormatInt i = (if i < 0 then CHR ''-'' # showNat (nat (- i)) else showNat (nat i))"

lemma showDigit_facts:
  assumes "d < 10"
  shows "isDigit (showDigit d)" and "digit_val (showDigit d) = int d" and "showDigit d = CHR ''0'' \<Longrightarrow> d = 0"
proof -
  have "d \<in> set [0, 1, 2, 3, 4, 5, 6, 7, 8, 9]"
    using assms by (simp add: eval_nat_numeral less_Suc_eq)
  moreover have "list_all (\<lambda>d. isDigit (showDigit d) \<and> digit_val (showDigit d) = int d \<and>
      (showDigit d = CHR ''0'' \<longrightarrow> d = 0)) [0, 1, 2, 3, 4, 5, 6, 7, 8, 9]"
    by code_simp
  ultimately show "isDigit (showDigit d)" "digit_val (showDigit d) = int d" "showDigit d = CHR ''0'' \<Longrightarrow> d = 0"
    unfolding list_all_iff by blast+
qed

lemma digit_showDigit:
  assumes "isDigit c"
  obtains k where "k < 10" "c = showDigit k"
proof -
  define k :: nat where "k = of_char c - 48"
  have "48 \<le> (of_char c :: nat)" "(of_char c :: nat) \<le> 57"
    using assms by (auto simp: isDigit_def less_eq_char_def)
  then have n: "of_char c = 48 + k" "k < 10" by (simp_all add: k_def)
  from n(2) have "k \<in> set [0, 1, 2, 3, 4, 5, 6, 7, 8, 9]"
    by (simp add: eval_nat_numeral less_Suc_eq)
  moreover have "list_all (\<lambda>k. char_of (48 + k) = showDigit k) [0, 1, 2, 3, 4, 5, 6, 7, 8, 9]" by code_simp
  ultimately have "char_of (48 + k) = showDigit k" unfolding list_all_iff by blast
  then have "c = showDigit k" by (simp only: n(1) [symmetric] char_of_char)
  then show ?thesis using that n(2) by blast
qed

lemma showNat_not_Nil [simp]: "showNat n \<noteq> []"
  by (subst showNat.simps) simp

lemma showNat_digits: "list_all isDigit (showNat n)"
proof (induction n rule: showNat.induct)
  case (1 n)
  then show ?case by (subst showNat.simps) (simp add: showDigit_facts(1))
qed

lemma int_of_digits_acc_append:
  "int_of_digits_acc n (s @ t) = int_of_digits_acc (int_of_digits_acc n s) t"
  by (induction s arbitrary: n) simp_all

lemma int_of_digits_showNat [simp]: "int_of_digits (showNat n) = int n"
proof (induction n rule: showNat.induct)
  case (1 n)
  show ?case
  proof (cases "n < 10")
    case True
    then show ?thesis by (subst showNat.simps) (simp add: int_of_digits_def showDigit_facts(2))
  next
    case False
    then have "int_of_digits (showNat (n div 10)) = int (n div 10)" by (rule 1)
    then show ?thesis
      using False by (subst showNat.simps)
        (simp add: int_of_digits_def int_of_digits_acc_append showDigit_facts(2) zdiv_int zmod_int)
  qed
qed

lemma hd_showNat: "hd (showNat n) = CHR ''0'' \<Longrightarrow> n = 0"
proof (induction n rule: showNat.induct)
  case (1 n)
  show ?case
  proof (cases "n < 10")
    case True
    then show ?thesis using "1.prems" showDigit_facts(3) by (simp add: showNat.simps [of n])
  next
    case False
    then have "n div 10 = 0" using 1 by (simp add: showNat.simps [of n])
    with False show ?thesis by simp
  qed
qed

lemma digit_not_minus: "isDigit c \<Longrightarrow> c \<noteq> CHR ''-'' \<and> c \<noteq> CHR ''+''"
  by (auto simp: isDigit_def less_eq_char_def)

lemma hd_showNat_digit: "isDigit (hd (showNat n))"
  using showNat_digits [of n] by (cases "showNat n") simp_all

lemma Atoi_FormatInt: "in_int64 i \<Longrightarrow> Atoi (FormatInt i) = Some i"
proof -
  assume i: "in_int64 i"
  have "Atoi (showNat n) = (if in_int64 (int n) then Some (int n) else None)" for n
  proof -
    obtain c cs where s: "showNat n = c # cs" by (cases "showNat n") simp_all
    have c: "c \<noteq> CHR ''-''" "c \<noteq> CHR ''+''" using hd_showNat_digit [of n] digit_not_minus [of c] s by auto
    show ?thesis
      using showNat_digits [of n] int_of_digits_showNat [of n] c unfolding s by (simp add: Atoi_def Let_def)
  qed
  moreover have "Atoi (CHR ''-'' # showNat n) = (if in_int64 (- int n) then Some (- int n) else None)" for n
    using showNat_digits [of n] by (simp add: Atoi_def Let_def)
  ultimately show ?thesis using i by (simp add: FormatInt_def)
qed

end
