(* ===== verification/Sql_Writer.thy ===== *)
theory Sql_Writer
  imports Go_Format "HOL-Library.Monad_Syntax"
begin

text \<open>
  The SQL text writer, \<open>writer/writer.go\<close> and \<open>writer/pg.go\<close>.  A writer is its buffer with the indentation to put in front of the next line;
  \<open>SQLWriter\<close> embeds it and adds the bind slots, which the record extension mirrors, so every operation of the
  plain writer works on both.  A callback of the source (\<open>fn func()\<close>) is a function on the writer that
  may panic.
\<close>

subsection \<open>The plain writer\<close>

record Writer =
  buf :: string
  indentation :: nat
  indentUnit :: string
  atLineStart :: bool

datatype writer_error =
    UnindentWithoutIndent
  | UnresolvedParam string
  | NoValueFor string

abbreviation newline :: char where "newline \<equiv> CHR 0x0A"

definition New :: Writer where
  "New = \<lparr>buf = [], indentation = 0, indentUnit = ''  '', atLineStart = True\<rparr>"

text \<open>One line of the text: the indentation goes in front of the first character of a line.\<close>

definition writeLine :: "string \<Rightarrow> 'x Writer_scheme \<Rightarrow> 'x Writer_scheme" where
  "writeLine line w =
     (if line = [] then w
      else
        (let w' = (if atLineStart w
                   then w\<lparr>buf := buf w @ concat (replicate (indentation w) (indentUnit w)), atLineStart := False\<rparr>
                   else w)
         in w'\<lparr>buf := buf w' @ line\<rparr>))"

definition breakLine :: "'x Writer_scheme \<Rightarrow> 'x Writer_scheme" where
  "breakLine w = w\<lparr>buf := buf w @ [newline], atLineStart := True\<rparr>"

definition Write :: "string \<Rightarrow> 'x Writer_scheme \<Rightarrow> 'x Writer_scheme" where
  "Write s w =
     (if s = [] then w
      else
        (let ls = split_on newline s
         in fold (\<lambda>line w. writeLine line (breakLine w)) (tl ls) (writeLine (hd ls) w)))"

definition Indent :: "'x Writer_scheme \<Rightarrow> 'x Writer_scheme" where
  "Indent w = w\<lparr>indentation := Suc (indentation w)\<rparr>"

definition Unindent :: "'x Writer_scheme \<Rightarrow> writer_error + 'x Writer_scheme" where
  "Unindent w = (if indentation w = 0 then Inl UnindentWithoutIndent else Inr (w\<lparr>indentation := indentation w - 1\<rparr>))"

definition Indented ::
  "('x Writer_scheme \<Rightarrow> writer_error + 'x Writer_scheme) \<Rightarrow> 'x Writer_scheme \<Rightarrow> writer_error + 'x Writer_scheme" where
  "Indented fn w = bindR (fn (Indent w)) Unindent"

definition Surround ::
  "string \<Rightarrow> string \<Rightarrow> ('x Writer_scheme \<Rightarrow> writer_error + 'x Writer_scheme) \<Rightarrow> 'x Writer_scheme \<Rightarrow>
     writer_error + 'x Writer_scheme" where
  "Surround start end' fn w = bindR (fn (Write start w)) (\<lambda>w'. Inr (Write end' w'))"

definition Paren ::
  "('x Writer_scheme \<Rightarrow> writer_error + 'x Writer_scheme) \<Rightarrow> 'x Writer_scheme \<Rightarrow> writer_error + 'x Writer_scheme" where
  "Paren fn w = Surround ''('' '')'' fn w"

text \<open>The loop of \<open>List\<close> once the first item is written.\<close>

fun listRest :: "string \<Rightarrow> ('i \<Rightarrow> 'x Writer_scheme \<Rightarrow> writer_error + 'x Writer_scheme) \<Rightarrow> 'i list \<Rightarrow>
    'x Writer_scheme \<Rightarrow> writer_error + 'x Writer_scheme" where
  "listRest sep fn [] w = Inr w"
| "listRest sep fn (i # is) w = bindR (fn i (Write sep w)) (listRest sep fn is)"

definition ListW :: "string \<Rightarrow> 'i list \<Rightarrow> ('i \<Rightarrow> 'x Writer_scheme \<Rightarrow> writer_error + 'x Writer_scheme) \<Rightarrow>
    'x Writer_scheme \<Rightarrow> writer_error + 'x Writer_scheme" where
  "ListW sep items fn w =
     (case items of [] \<Rightarrow> Inr w | i # is \<Rightarrow> bindR (fn i w) (listRest sep fn is))"

text \<open>\<open>ListSeq\<close> keeps a flag instead of an index; the sequence is the list of what it yields.\<close>

fun listSeqLoop :: "bool \<Rightarrow> string \<Rightarrow> ('i \<Rightarrow> 'x Writer_scheme \<Rightarrow> writer_error + 'x Writer_scheme) \<Rightarrow> 'i list \<Rightarrow>
    'x Writer_scheme \<Rightarrow> writer_error + 'x Writer_scheme" where
  "listSeqLoop first sep fn [] w = Inr w"
| "listSeqLoop first sep fn (i # is) w =
     bindR (fn i (if first then w else Write sep w)) (listSeqLoop False sep fn is)"

definition ListSeq :: "string \<Rightarrow> 'i list \<Rightarrow> ('i \<Rightarrow> 'x Writer_scheme \<Rightarrow> writer_error + 'x Writer_scheme) \<Rightarrow>
    'x Writer_scheme \<Rightarrow> writer_error + 'x Writer_scheme" where
  "ListSeq sep items fn w = listSeqLoop True sep fn items w"

text \<open>\<open>SeparatedBy\<close> loops until its callback says there is no more; the callback's captured variables are the
  state \<open>'s\<close>.  A callback that always asks for more never returns, which is the value \<open>None\<close>.\<close>

partial_function (option) SeparatedBy ::
  "string \<Rightarrow> ('s \<Rightarrow> 'x Writer_scheme \<Rightarrow> bool \<times> 's \<times> 'x Writer_scheme) \<Rightarrow> 's \<Rightarrow> 'x Writer_scheme \<Rightarrow>
     ('s \<times> 'x Writer_scheme) option" where
  "SeparatedBy sep fn s w =
     (case fn s w of (again, s', w') \<Rightarrow>
        if again then SeparatedBy sep fn s' (Write sep w') else Some (s', w'))"

definition SurroundList ::
  "string \<Rightarrow> string \<Rightarrow> string \<Rightarrow> 'i list \<Rightarrow> ('i \<Rightarrow> 'x Writer_scheme \<Rightarrow> writer_error + 'x Writer_scheme) \<Rightarrow>
     'x Writer_scheme \<Rightarrow> writer_error + 'x Writer_scheme" where
  "SurroundList start sep end' items fn w =
     bindR (Indented (ListW sep items fn) (Write start w)) (\<lambda>w'. Inr (Write end' w'))"

definition String :: "'x Writer_scheme \<Rightarrow> string" where
  "String w = buf w"

subsection \<open>Bind slots\<close>

record 'v sqlBindSlot =
  slotName :: string
  slotValue :: 'v

record 'v SQLWriter = Writer +
  slots :: "'v sqlBindSlot list"

definition NewSQL :: "'v SQLWriter" where
  "NewSQL = \<lparr>buf = [], indentation = 0, indentUnit = ''  '', atLineStart = True, slots = []\<rparr>"

text \<open>\<open>$%d\<close>.\<close>

definition placeholder :: "nat \<Rightarrow> string" where
  "placeholder n = CHR ''$'' # showNat n"

definition Bind :: "'v \<Rightarrow> 'v SQLWriter \<Rightarrow> 'v SQLWriter" where
  "Bind value w =
     (let w' = w\<lparr>slots := slots w @ [\<lparr>slotName = [], slotValue = value\<rparr>]\<rparr>
      in Write (placeholder (length (slots w'))) w')"

text \<open>A named slot has no value: \<open>nil\<close>.\<close>

definition BindParam :: "'v \<Rightarrow> string \<Rightarrow> 'v SQLWriter \<Rightarrow> 'v SQLWriter" where
  "BindParam nil name w =
     (let w' = w\<lparr>slots := slots w @ [\<lparr>slotName = name, slotValue = nil\<rparr>]\<rparr>
      in Write (placeholder (length (slots w'))) w')"

definition Args :: "'v SQLWriter \<Rightarrow> writer_error + 'v list" where
  "Args w =
     traverse (\<lambda>s. if slotName s \<noteq> [] then Inl (UnresolvedParam (slotName s)) else Inr (slotValue s)) (slots w)"

fun paramNamesLoop :: "string list \<Rightarrow> 'v sqlBindSlot list \<Rightarrow> string list" where
  "paramNamesLoop seen [] = []"
| "paramNamesLoop seen (s # ss) =
     (if slotName s = [] \<or> slotName s \<in> set seen then paramNamesLoop seen ss
      else slotName s # paramNamesLoop (slotName s # seen) ss)"

definition ParamNames :: "'v SQLWriter \<Rightarrow> string list" where
  "ParamNames w = paramNamesLoop [] (slots w)"

definition ResolveArgs :: "'v gomap \<Rightarrow> 'v SQLWriter \<Rightarrow> writer_error + 'v list" where
  "ResolveArgs paramValues w =
     traverse (\<lambda>s. if slotName s = [] then Inr (slotValue s)
                   else (case map_of paramValues (slotName s) of
                           None \<Rightarrow> Inl (NoValueFor (slotName s)) | Some v \<Rightarrow> Inr v)) (slots w)"

subsection \<open>Identifiers\<close>

definition isLowerStart :: "char \<Rightarrow> bool" where
  "isLowerStart c \<longleftrightarrow> c = CHR ''_'' \<or> (CHR ''a'' \<le> c \<and> c \<le> CHR ''z'')"

definition isLowerPart :: "char \<Rightarrow> bool" where
  "isLowerPart c \<longleftrightarrow> isLowerStart c \<or> isDigit c"

text \<open>\<open>^[a-z_][a-z0-9_]*$\<close>\<close>

definition validUnquotedSQLId :: "string \<Rightarrow> bool" where
  "validUnquotedSQLId p = (case p of [] \<Rightarrow> False | c # cs \<Rightarrow> isLowerStart c \<and> list_all isLowerPart cs)"

definition sqlReservedKeywords :: "string list" where
  "sqlReservedKeywords =
     [''all'', ''analyse'', ''analyze'', ''and'', ''any'', ''array'', ''as'', ''asc'', ''asymmetric'', ''both'',
      ''case'', ''cast'', ''check'', ''collate'', ''column'', ''constraint'', ''create'', ''current_catalog'',
      ''current_date'', ''current_role'', ''current_time'', ''current_timestamp'', ''current_user'', ''default'',
      ''deferrable'', ''desc'', ''distinct'', ''do'', ''else'', ''end'', ''except'', ''false'', ''fetch'', ''for'',
      ''foreign'', ''from'', ''grant'', ''group'', ''having'', ''in'', ''initially'', ''intersect'', ''into'',
      ''lateral'', ''leading'', ''limit'', ''localtime'', ''localtimestamp'', ''not'', ''null'', ''offset'', ''on'',
      ''only'', ''or'', ''order'', ''placing'', ''primary'', ''references'', ''returning'', ''select'',
      ''session_user'', ''some'', ''symmetric'', ''table'', ''then'', ''to'', ''trailing'', ''true'', ''union'',
      ''unique'', ''user'', ''using'', ''variadic'', ''when'', ''where'', ''window'', ''with'']"

abbreviation dquote :: char where "dquote \<equiv> CHR 0x22"

definition doubleQuotes :: "string \<Rightarrow> string" where
  "doubleQuotes p = concat (map (\<lambda>c. if c = dquote then [dquote, dquote] else [c]) p)"

definition escapeSQLIdPart :: "string \<Rightarrow> string" where
  "escapeSQLIdPart p =
     (if p \<noteq> [] \<and> validUnquotedSQLId p \<and> p \<notin> set sqlReservedKeywords then p
      else dquote # doubleQuotes p @ [dquote])"

definition EscapeSQLId :: "string \<Rightarrow> string" where
  "EscapeSQLId ident = join_with CHR ''.'' (map escapeSQLIdPart (split_on CHR ''.'' ident))"

definition WriteId :: "string \<Rightarrow> 'x Writer_scheme \<Rightarrow> 'x Writer_scheme" where
  "WriteId ident w = Write (EscapeSQLId ident) w"

subsection \<open>Writing character by character\<close>

text \<open>The reference: one character at a time, the indentation in front of the first character of a line.\<close>

definition writeChar :: "char \<Rightarrow> 'x Writer_scheme \<Rightarrow> 'x Writer_scheme" where
  "writeChar c w = (if c = newline then breakLine w else writeLine [c] w)"

lemma writeLine_Cons: "c \<noteq> newline \<Longrightarrow> writeLine (c # cs) w = writeLine cs (writeChar c w)"
  by (auto simp: writeLine_def writeChar_def Let_def)

lemma writeLine_chars: "newline \<notin> set line \<Longrightarrow> writeLine line w = fold writeChar line w"
proof (induction line arbitrary: w)
  case Nil
  then show ?case by (simp add: writeLine_def)
next
  case (Cons c line)
  then show ?case using writeLine_Cons [of c line w] by auto
qed

lemma fold_writeChar_join:
  "(\<And>l. l \<in> set ls \<Longrightarrow> newline \<notin> set l) \<Longrightarrow> newline \<notin> set l0 \<Longrightarrow>
     fold (\<lambda>line w. writeLine line (breakLine w)) ls (writeLine l0 w) =
     fold writeChar (join_with newline (l0 # ls)) w"
proof (induction ls arbitrary: l0 w)
  case Nil
  then show ?case by (simp add: writeLine_chars)
next
  case (Cons l ls)
  have "breakLine v = writeChar newline v" for v :: "'a Writer_scheme" by (simp add: writeChar_def)
  then show ?case using Cons by (simp add: writeLine_chars)
qed

lemma Write_chars: "Write s w = fold writeChar s w"
proof (cases "s = []")
  case False
  obtain l0 ls where l: "split_on newline s = l0 # ls" by (cases "split_on newline s") auto
  have "newline \<notin> set x" if "x \<in> set (l0 # ls)" for x
    using split_on_no_sep [of x newline s] l that by simp
  then have "fold (\<lambda>line w. writeLine line (breakLine w)) ls (writeLine l0 w) =
      fold writeChar (join_with newline (l0 # ls)) w"
    by (intro fold_writeChar_join) auto
  then show ?thesis using False join_split_on [of newline s] l by (simp add: Write_def)
qed (simp add: Write_def)

lemma writeChar_fields [simp]:
  "indentation (writeChar c w) = indentation w" "indentUnit (writeChar c w) = indentUnit w"
  by (simp_all add: writeChar_def breakLine_def writeLine_def Let_def)

lemma Write_fields [simp]:
  "indentation (Write s w) = indentation w" "indentUnit (Write s w) = indentUnit w"
proof -
  have "indentation (fold writeChar s w) = indentation w \<and> indentUnit (fold writeChar s w) = indentUnit w"
    by (induction s arbitrary: w) simp_all
  then show "indentation (Write s w) = indentation w" "indentUnit (Write s w) = indentUnit w"
    by (simp_all add: Write_chars)
qed

lemma Write_append: "Write t (Write s w) = Write (s @ t) w"
  by (simp add: Write_chars)

lemma Write_Nil [simp]: "Write [] w = w"
  by (simp add: Write_def)

lemma writeChar_flat: "indentation w = 0 \<Longrightarrow> buf (writeChar c w) = buf w @ [c]"
  by (simp add: writeChar_def breakLine_def writeLine_def Let_def)

lemma Write_flat: "indentation w = 0 \<Longrightarrow> buf (Write s w) = buf w @ s"
proof -
  have "indentation w = 0 \<Longrightarrow> buf (fold writeChar s w) = buf w @ s"
    by (induction s arbitrary: w) (simp_all add: writeChar_flat)
  then show "indentation w = 0 \<Longrightarrow> buf (Write s w) = buf w @ s" by (simp add: Write_chars)
qed

lemma Write_oneLine:
  assumes "newline \<notin> set s" and "\<not> atLineStart w"
  shows "buf (Write s w) = buf w @ s \<and> \<not> atLineStart (Write s w)"
proof -
  have "Write s w = writeLine s w" using assms(1) by (simp add: Write_chars writeLine_chars)
  then show ?thesis using assms(2) by (simp add: writeLine_def)
qed

subsection \<open>Balanced indentation\<close>

text \<open>The contract of a callback: it leaves the indentation as it found it and does not panic.\<close>

locale balanced_callbacks =
  fixes fn :: "'i \<Rightarrow> 'x Writer_scheme \<Rightarrow> writer_error + 'x Writer_scheme"
  assumes fn_balanced: "\<exists>w'. fn i w = Inr w' \<and> indentation w' = indentation w"
begin

lemma listRest_balanced: "\<exists>w'. listRest sep fn is w = Inr w' \<and> indentation w' = indentation w"
proof (induction "is" arbitrary: w)
  case (Cons i "is")
  obtain w1 where w1: "fn i (Write sep w) = Inr w1" "indentation w1 = indentation w"
    using fn_balanced [of i "Write sep w"] by auto
  then show ?case using Cons [of w1] by auto
qed simp

lemma ListW_balanced: "\<exists>w'. ListW sep items fn w = Inr w' \<and> indentation w' = indentation w"
proof (cases items)
  case (Cons i "is")
  obtain w1 where "fn i w = Inr w1" "indentation w1 = indentation w" using fn_balanced by blast
  then show ?thesis using Cons listRest_balanced [of sep "is" w1] by (auto simp: ListW_def)
qed (simp add: ListW_def)

lemma listSeqLoop_rest: "listSeqLoop False sep fn is w = listRest sep fn is w"
  by (induction "is" arbitrary: w) (auto intro!: bindR_cong)

lemma ListSeq_ListW: "ListSeq sep items fn w = ListW sep items fn w"
  by (cases items) (simp_all add: ListSeq_def ListW_def listSeqLoop_rest cong: bindR_cong)

lemma SurroundList_balanced: "\<exists>w'. SurroundList start sep end' items fn w = Inr w' \<and> indentation w' = indentation w"
proof -
  obtain w1 where "ListW sep items fn (Indent (Write start w)) = Inr w1" "indentation w1 = Suc (indentation w)"
    using ListW_balanced [of sep items "Indent (Write start w)"] by (auto simp: Indent_def)
  then show ?thesis by (simp add: SurroundList_def Indented_def Unindent_def)
qed

end

text \<open>Writing one item's text is such a callback.\<close>

interpretation texts: balanced_callbacks "\<lambda>s w. Inr (Write s w)"
  by unfold_locales simp

interpretation ids: balanced_callbacks "\<lambda>s w. Inr (WriteId s w)"
  by unfold_locales (simp add: WriteId_def)

text \<open>\<open>SeparatedBy\<close> over a callback that yields the items of a non-empty list ends, with the text of the list.\<close>

fun yieldItems :: "string list \<Rightarrow> 'x Writer_scheme \<Rightarrow> bool \<times> string list \<times> 'x Writer_scheme" where
  "yieldItems [] w = (False, [], w)"
| "yieldItems (s # ss) w = (ss \<noteq> [], ss, Write s w)"

lemma SeparatedBy_items:
  "SeparatedBy sep yieldItems (s # ss) w = Some ([], Write (concat (s # map (\<lambda>t. sep @ t) ss)) w)"
proof (induction ss arbitrary: s w)
  case Nil
  then show ?case by (subst SeparatedBy.simps) simp
next
  case (Cons t ss)
  then show ?case by (subst SeparatedBy.simps) (simp add: Write_append)
qed

subsection \<open>Reading an identifier back\<close>

text \<open>
  How PostgreSQL's lexer reads a dotted name: a part is quoted, with doubled quotes inside, or a
  bare word; a bare word that is a reserved keyword is not a name.
\<close>

fun readQuoted :: "string \<Rightarrow> (string \<times> string) option" where
  "readQuoted [] = None"
| "readQuoted (c # cs) =
     (if c = dquote then
        (case cs of
           d # ds \<Rightarrow> if d = dquote then map_option (\<lambda>(b, r). (dquote # b, r)) (readQuoted ds) else Some ([], cs)
         | [] \<Rightarrow> Some ([], cs))
      else map_option (\<lambda>(b, r). (c # b, r)) (readQuoted cs))"

definition readPart :: "string \<Rightarrow> (string \<times> string) option" where
  "readPart s =
     (case s of
        [] \<Rightarrow> None
      | c # cs \<Rightarrow>
          if c = dquote then readQuoted cs
          else if isLowerStart c then
            (let p = c # takeWhile isLowerPart cs
             in if p \<in> set sqlReservedKeywords then None else Some (p, dropWhile isLowerPart cs))
          else None)"

fun readName :: "nat \<Rightarrow> string \<Rightarrow> string list option" where
  "readName 0 s = None"
| "readName (Suc n) s =
     (case readPart s of
        None \<Rightarrow> None
      | Some (p, []) \<Rightarrow> Some [p]
      | Some (p, c # r) \<Rightarrow> if c = CHR ''.'' then map_option ((#) p) (readName n r) else None)"

definition readSqlName :: "string \<Rightarrow> string list option" where
  "readSqlName s = readName (Suc (length s)) s"

lemma doubleQuotes_simps [simp]:
  "doubleQuotes [] = []"
  "doubleQuotes (c # cs) = (if c = dquote then dquote # dquote # doubleQuotes cs else c # doubleQuotes cs)"
  by (simp_all add: doubleQuotes_def)

lemma readQuoted_escaped:
  "r = [] \<or> hd r \<noteq> dquote \<Longrightarrow> readQuoted (doubleQuotes p @ dquote # r) = Some (p, r)"
  by (induction p) (auto split: list.split)

lemma lowerStart_facts: "isLowerStart c \<Longrightarrow> c \<noteq> dquote"
  by (auto simp: isLowerStart_def less_eq_char_def)

lemma dot_not_lower: "\<not> isLowerPart CHR ''.''"
  by (simp add: isLowerPart_def isLowerStart_def isDigit_def less_eq_char_def)

lemma readPart_escaped:
  assumes "r = [] \<or> hd r = CHR ''.''"
  shows "readPart (escapeSQLIdPart p @ r) = Some (p, r)"
proof (cases "p \<noteq> [] \<and> validUnquotedSQLId p \<and> p \<notin> set sqlReservedKeywords")
  case True
  then obtain c cs where p: "p = c # cs" "isLowerStart c" "list_all isLowerPart cs"
    by (cases p) (auto simp: validUnquotedSQLId_def)
  have "takeWhile isLowerPart (cs @ r) = cs" "dropWhile isLowerPart (cs @ r) = r"
    using p(3) assms dot_not_lower by (cases r; auto simp: list_all_iff takeWhile_append2 dropWhile_append2)+
  then show ?thesis
    using True p lowerStart_facts [OF p(2)] by (simp add: escapeSQLIdPart_def readPart_def)
next
  case False
  have "readQuoted (doubleQuotes p @ dquote # r) = Some (p, r)"
    by (rule readQuoted_escaped) (use assms in auto)
  then show ?thesis using False by (auto simp: escapeSQLIdPart_def readPart_def)
qed

lemma readName_escaped:
  "ps \<noteq> [] \<Longrightarrow> length ps \<le> n \<Longrightarrow> readName n (join_with CHR ''.'' (map escapeSQLIdPart ps)) = Some ps"
proof (induction ps arbitrary: n)
  case (Cons p ps)
  obtain m where n: "n = Suc m" using Cons.prems by (cases n) auto
  show ?case
  proof (cases ps)
    case Nil
    then show ?thesis using n readPart_escaped [of "[]" p] by simp
  next
    case (Cons q qs)
    then show ?thesis
      using n Cons.IH [of m] Cons.prems
        readPart_escaped [of "CHR ''.'' # join_with CHR ''.'' (map escapeSQLIdPart ps)" p] by simp
  qed
qed simp

lemma escapeSQLIdPart_not_Nil [simp]: "escapeSQLIdPart p \<noteq> []"
  by (simp add: escapeSQLIdPart_def)

lemma length_join_parts: "length ps \<le> Suc (length (join_with c ps))"
  by (induction c ps rule: join_with.induct) auto

subsection \<open>Placeholders\<close>

datatype 'v sqlOp = OText string | OBind 'v | OParam string

fun runOp :: "'v \<Rightarrow> 'v sqlOp \<Rightarrow> 'v SQLWriter \<Rightarrow> 'v SQLWriter" where
  "runOp nil (OText s) w = Write s w"
| "runOp nil (OBind v) w = Bind v w"
| "runOp nil (OParam n) w = BindParam nil n w"

text \<open>The text a statement should have: every bound value is the next number.\<close>

fun numbered :: "nat \<Rightarrow> 'v sqlOp list \<Rightarrow> string" where
  "numbered k [] = []"
| "numbered k (OText s # ops) = s @ numbered k ops"
| "numbered k (OBind v # ops) = placeholder (Suc k) @ numbered (Suc k) ops"
| "numbered k (OParam n # ops) = placeholder (Suc k) @ numbered (Suc k) ops"

fun slotsOf :: "'v \<Rightarrow> 'v sqlOp list \<Rightarrow> 'v sqlBindSlot list" where
  "slotsOf nil [] = []"
| "slotsOf nil (OText s # ops) = slotsOf nil ops"
| "slotsOf nil (OBind v # ops) = \<lparr>slotName = [], slotValue = v\<rparr> # slotsOf nil ops"
| "slotsOf nil (OParam n # ops) = \<lparr>slotName = n, slotValue = nil\<rparr> # slotsOf nil ops"

lemma writeChar_slots [simp]: "slots (writeChar c w) = slots w"
  by (simp add: writeChar_def breakLine_def writeLine_def Let_def)

lemma Write_slots [simp]: "slots (Write s w) = slots w"
proof -
  have "slots (fold writeChar s w) = slots w" by (induction s arbitrary: w) simp_all
  then show ?thesis by (simp add: Write_chars)
qed

lemma runOp_effect:
  assumes "indentation w = 0"
  shows "indentation (runOp nil op w) = 0 \<and> slots (runOp nil op w) = slots w @ slotsOf nil [op] \<and>
    buf (runOp nil op w) = buf w @ numbered (length (slots w)) [op]"
  using assms by (cases op) (simp_all add: Bind_def BindParam_def Let_def Write_flat)

lemma numbered_Cons: "numbered k (op # ops) = numbered k [op] @ numbered (k + length (slotsOf nil [op])) ops"
  by (cases op) simp_all

lemma slotsOf_Cons: "slotsOf nil (op # ops) = slotsOf nil [op] @ slotsOf nil ops"
  by (cases op) simp_all

lemma run_effect:
  "indentation w = 0 \<Longrightarrow>
     buf (fold (runOp nil) ops w) = buf w @ numbered (length (slots w)) ops \<and>
     slots (fold (runOp nil) ops w) = slots w @ slotsOf nil ops"
proof (induction ops arbitrary: w)
  case (Cons op ops)
  then show ?case
    using runOp_effect [OF Cons.prems, of nil op] numbered_Cons [of "length (slots w)" op ops nil]
      slotsOf_Cons [of nil op ops] by simp
qed simp

subsection \<open>Properties\<close>

text \<open>the writer does not depend on how its text is cut into calls: \<open>Write\<close> is the character-by-character writer, and two
  writes in a row are one write of both texts, whatever the indentation.\<close>

theorem Write_chunks: "Write s w = fold writeChar s w \<and> Write t (Write s w) = Write (s @ t) w"
  by (simp add: Write_chars)


text \<open>C35: placeholders are numbered without gaps: a statement built from any mix of texts, bound values and
  named parameters has the texts in order with \<open>$1\<close>, \<open>$2\<close>, \<dots> where the values stand, and slot number
  \<open>k\<close> is the value or the name behind \<open>$k\<close>.\<close>

theorem placeholders_in_order:
  "buf (fold (runOp nil) ops NewSQL) = numbered 0 ops \<and> slots (fold (runOp nil) ops NewSQL) = slotsOf nil ops"
  using run_effect [of NewSQL nil ops] by (simp add: NewSQL_def)

text \<open>resolving a statement's arguments: it succeeds exactly when every parameter name the statement lists has a
  value among the request's.\<close>

theorem ResolveArgs_ok_iff: "isOk (ResolveArgs vals w) \<longleftrightarrow> (set (ParamNames w) \<subseteq> fst ` set vals)"
proof -
  have names: "set (paramNamesLoop seen ss) = {slotName s | s. s \<in> set ss \<and> slotName s \<noteq> []} - set seen"
    for seen and ss :: "'a sqlBindSlot list"
    by (induction seen ss rule: paramNamesLoop.induct) auto
  show ?thesis
    unfolding ResolveArgs_def traverse_ok_iff ParamNames_def names
    by (auto simp: map_of_eq_None_iff split: option.split)
qed

text \<open>writing a list inside brackets keeps the indentation balanced: with callbacks that write identifiers,
  \<open>SurroundList\<close> never panics and leaves the indentation as it was, and the two list loops of the
  source agree.\<close>

theorem identifier_list_balanced:
  "(\<exists>w'. SurroundList start sep end' names (\<lambda>s w. Inr (WriteId s w)) w = Inr w' \<and> indentation w' = indentation w) \<and>
   ListSeq sep names (\<lambda>s w. Inr (WriteId s w)) w = ListW sep names (\<lambda>s w. Inr (WriteId s w)) w"
  using ids.SurroundList_balanced ids.ListSeq_ListW by blast

text \<open>\<open>SeparatedBy\<close> ends on a callback that runs out of items, with the items' texts and the separator between
  them.\<close>

theorem SeparatedBy_ends:
  "SeparatedBy sep yieldItems (s # ss) w = Some ([], Write (concat (s # map (\<lambda>t. sep @ t) ss)) w)"
  by (rule SeparatedBy_items)

text \<open>A parameter with an empty name is indistinguishable from a bound null: it is not listed and needs no value.\<close>

lemma empty_param_is_null:
  "BindParam nil [] w = Bind nil w \<and> ParamNames (BindParam nil [] NewSQL) = [] \<and>
   ResolveArgs [] (BindParam nil [] NewSQL) = Inr [nil]"
  by (simp add: BindParam_def Bind_def ParamNames_def ResolveArgs_def Let_def NewSQL_def)

end
