(* ===== verification/Hold_Writer.thy ===== *)
theory Hold_Writer
  imports Rel_Prelude
begin

text \<open>
  The response writer that holds back the first bytes, \<open>relexec/hold.go\<close>.  The writer underneath is an \<open>io.Writer\<close> outside the source: a
  function \<open>wr\<close> on its state \<open>'o\<close> that returns the number of bytes taken and an error.  What is relied on is the
  interface's own rule (\<open>faithful_sink\<close>): no error means that all the bytes were taken, in order.  The pool that
  recycles buffers only saves allocations: a buffer taken from it is emptied first.
\<close>

datatype io_error = WriteFailed

type_synonym 'o io_writer = "string \<Rightarrow> 'o \<Rightarrow> (nat \<times> io_error option) \<times> 'o"

record 'o holdWriter =
  sink :: 'o
  held :: string
  limit :: int
  released :: bool

definition newHoldWriter :: "'o \<Rightarrow> int \<Rightarrow> 'o holdWriter" where
  "newHoldWriter w lim = \<lparr>sink = w, held = [], limit = lim, released = False\<rparr>"

definition release :: "'o io_writer \<Rightarrow> 'o holdWriter \<Rightarrow> io_error option \<times> 'o holdWriter" where
  "release wr h =
     (let h1 = h\<lparr>released := True\<rparr> in
      if held h1 = [] then (None, h1)
      else (let ((_, err), o') = wr (held h1) (sink h1)
            in (err, h1\<lparr>sink := o', held := []\<rparr>)))"

definition passOn :: "'o io_writer \<Rightarrow> string \<Rightarrow> 'o holdWriter \<Rightarrow> (nat \<times> io_error option) \<times> 'o holdWriter" where
  "passOn wr p h = (let (r, o') = wr p (sink h) in (r, h\<lparr>sink := o'\<rparr>))"

definition HoldWrite :: "'o io_writer \<Rightarrow> string \<Rightarrow> 'o holdWriter \<Rightarrow> (nat \<times> io_error option) \<times> 'o holdWriter" where
  "HoldWrite wr p h =
     (if released h then passOn wr p h
      else if int (length (held h)) + int (length p) \<le> limit h then
        ((length p, None), h\<lparr>held := held h @ p\<rparr>)
      else
        (case release wr h of
           (Some err, h') \<Rightarrow> ((0, Some err), h')
         | (None, h') \<Rightarrow> passOn wr p h'))"

definition Flush :: "'o io_writer \<Rightarrow> 'o holdWriter \<Rightarrow> io_error option \<times> 'o holdWriter" where
  "Flush wr h = (if released h then (None, h) else release wr h)"

definition Close :: "'o holdWriter \<Rightarrow> 'o holdWriter" where
  "Close h = h\<lparr>held := []\<rparr>"

subsection \<open>Runs\<close>

definition faithful_sink :: "'o io_writer \<Rightarrow> ('o \<Rightarrow> string) \<Rightarrow> bool" where
  "faithful_sink wr content \<longleftrightarrow>
     (\<forall>p w n w'. wr p w = ((n, None), w') \<longrightarrow> n = length p \<and> content w' = content w @ p)"

text \<open>\<open>runs wr h t h'\<close>: from \<open>h\<close>, calls that all succeed and write the bytes \<open>t\<close> lead to \<open>h'\<close>.\<close>

inductive runs :: "'o io_writer \<Rightarrow> 'o holdWriter \<Rightarrow> string \<Rightarrow> 'o holdWriter \<Rightarrow> bool" for wr h0 where
  start: "runs wr h0 [] h0"
| wrote: "runs wr h0 t h \<Longrightarrow> HoldWrite wr p h = ((n, None), h') \<Longrightarrow> runs wr h0 (t @ p) h'"
| flushed: "runs wr h0 t h \<Longrightarrow> Flush wr h = (None, h') \<Longrightarrow> runs wr h0 t h'"

definition holdInv :: "('o \<Rightarrow> string) \<Rightarrow> 'o \<Rightarrow> int \<Rightarrow> string \<Rightarrow> 'o holdWriter \<Rightarrow> bool" where
  "holdInv content w lim t h \<longleftrightarrow>
     limit h = lim \<and> content (sink h) @ held h = content w @ t \<and> (released h \<longrightarrow> held h = []) \<and>
     (\<not> released h \<longrightarrow> sink h = w \<and> held h = t \<and> (t = [] \<or> int (length t) \<le> lim))"

lemma holdInv_new: "holdInv content w lim [] (newHoldWriter w lim)"
  by (simp add: holdInv_def newHoldWriter_def)

lemma release_inv:
  assumes "faithful_sink wr content" and "holdInv content w lim t h" and "release wr h = (None, h')"
  shows "holdInv content w lim t h' \<and> released h'"
proof (cases "held h = []")
  case True
  then show ?thesis using assms(2,3) by (auto simp: release_def holdInv_def)
next
  case False
  obtain n e w' where wr: "wr (held h) (sink h) = ((n, e), w')" by (metis prod.exhaust)
  then have h': "e = None" "h' = h\<lparr>released := True, sink := w', held := []\<rparr>"
    using assms(3) False by (auto simp: release_def Let_def)
  then have "content w' = content (sink h) @ held h"
    using assms(1) wr unfolding faithful_sink_def by blast
  then show ?thesis using assms(2) h'(2) by (simp add: holdInv_def)
qed

lemma passOn_inv:
  assumes "faithful_sink wr content" and "holdInv content w lim t h" and "released h"
    and "passOn wr p h = ((n, None), h')"
  shows "holdInv content w lim (t @ p) h'"
proof -
  obtain w' where w': "wr p (sink h) = ((n, None), w')" "h' = h\<lparr>sink := w'\<rparr>"
    using assms(4) by (auto simp: passOn_def Let_def split: prod.splits)
  then have "content w' = content (sink h) @ p" using assms(1) unfolding faithful_sink_def by blast
  then show ?thesis using assms(2,3) w'(2) by (auto simp: holdInv_def)
qed

lemma HoldWrite_inv:
  assumes "faithful_sink wr content" and "holdInv content w lim t h" and "HoldWrite wr p h = ((n, None), h')"
  shows "holdInv content w lim (t @ p) h'"
proof -
  consider (pass) "released h" "passOn wr p h = ((n, None), h')"
    | (hold) "\<not> released h" "int (length (held h)) + int (length p) \<le> limit h" "h' = h\<lparr>held := held h @ p\<rparr>"
    | (spill) h1 where "release wr h = (None, h1)" "passOn wr p h1 = ((n, None), h')"
    using assms(3) by (auto simp: HoldWrite_def split: if_splits prod.splits option.splits)
  then show ?thesis
  proof cases
    case pass
    then show ?thesis by (rule passOn_inv [OF assms(1,2)])
  next
    case hold
    then show ?thesis using assms(2) by (auto simp: holdInv_def)
  next
    case spill
    have "holdInv content w lim t h1" "released h1" using release_inv [OF assms(1,2) spill(1)] by auto
    then show ?thesis using spill(2) by (rule passOn_inv [OF assms(1)])
  qed
qed

lemma runs_inv:
  assumes "runs wr (newHoldWriter w lim) t h" and "faithful_sink wr content"
  shows "holdInv content w lim t h"
  using assms(1)
proof (induction rule: runs.induct)
  case start
  then show ?case by (rule holdInv_new)
next
  case (wrote t h p n h')
  show ?case by (rule HoldWrite_inv [OF assms(2) wrote.IH wrote.hyps(2)])
next
  case (flushed t h h')
  show ?case
  proof (cases "released h")
    case True
    then show ?thesis using flushed by (simp add: Flush_def)
  next
    case False
    then have "release wr h = (None, h')" using flushed.hyps(2) by (simp add: Flush_def)
    then show ?thesis using release_inv [OF assms(2) flushed.IH] by blast
  qed
qed

subsection \<open>Properties\<close>

text \<open>C36: no byte is lost, doubled or reordered: after any successful calls, what the writer underneath has
  received followed by what is still held is exactly what was written, and nothing is held any more once
  bytes have been passed on.\<close>

theorem hold_bytes_in_order:
  assumes "runs wr (newHoldWriter w lim) t h" and "faithful_sink wr content"
  shows "content (sink h) @ held h = content w @ t \<and> (released h \<longrightarrow> held h = [])"
  using runs_inv [OF assms] by (simp add: holdInv_def)

text \<open>A writer that appends to a string.\<close>

definition appendSink :: "string io_writer" where
  "appendSink p w = ((length p, None), w @ p)"

lemma appendSink_faithful: "faithful_sink appendSink (\<lambda>w. w)"
  by (auto simp: faithful_sink_def appendSink_def)

lemma appendSink_run:
  "runs appendSink (newHoldWriter [] 2) ''abc'' \<lparr>sink = ''abc'', held = [], limit = 2, released = True\<rparr>"
proof -
  have "runs appendSink (newHoldWriter [] 2) ''ab'' \<lparr>sink = [], held = ''ab'', limit = 2, released = False\<rparr>"
    using runs.wrote [OF runs.start, of appendSink "''ab''" "newHoldWriter [] 2"]
    by (simp add: HoldWrite_def newHoldWriter_def)
  from runs.wrote [OF this, of "''c''"] show ?thesis
    by (simp add: HoldWrite_def newHoldWriter_def release_def passOn_def appendSink_def)
qed

theorem hold_bytes_in_order_witness:
  "sink \<lparr>sink = ''abc'', held = [], limit = 2, released = True\<rparr> @ [] = [] @ ''abc''"
  using hold_bytes_in_order [OF appendSink_run appendSink_faithful] by simp

inductive writes :: "'o io_writer \<Rightarrow> 'o holdWriter \<Rightarrow> string \<Rightarrow> 'o holdWriter \<Rightarrow> bool" for wr h0 where
  w_start: "writes wr h0 [] h0"
| w_step: "writes wr h0 t h \<Longrightarrow> HoldWrite wr p h = (r, h') \<Longrightarrow> writes wr h0 (t @ p) h'"

text \<open>an error can still be answered while the response is small: as long as nothing was flushed and at most the
  limit was written, the writer underneath has not been touched.\<close>

theorem hold_small_response_untouched:
  assumes "writes wr (newHoldWriter w lim) t h" and "int (length t) \<le> lim"
  shows "sink h = w \<and> held h = t \<and> \<not> released h"
proof -
  have "int (length t) \<le> lim \<longrightarrow> sink h = w \<and> held h = t \<and> \<not> released h \<and> limit h = lim"
    using assms(1)
  proof (induction rule: writes.induct)
    case w_start
    then show ?case by (simp add: newHoldWriter_def)
  next
    case (w_step t h p r h')
    then show ?case by (auto simp: HoldWrite_def)
  qed
  then show ?thesis using assms(2) by blast
qed

theorem hold_small_response_untouched_witness:
  "held (snd (HoldWrite appendSink ''ab'' (newHoldWriter [] 2))) = ''ab''"
proof -
  have "writes appendSink (newHoldWriter [] 2) ([] @ ''ab'') (snd (HoldWrite appendSink ''ab'' (newHoldWriter [] 2)))"
    by (rule writes.w_step [OF writes.w_start, of _ _ _ "fst (HoldWrite appendSink ''ab'' (newHoldWriter [] 2))"]) simp
  then show ?thesis using hold_small_response_untouched by fastforce
qed



end
