(* ===== verification/Go_Bytes.thy ===== *)
theory Go_Bytes
  imports Go_Strings "HOL-Library.Word"
begin

text \<open>
  Bytes, UTF-8 and big-endian integers, as Go's \<open>unicode/utf8\<close>, \<open>encoding/binary\<close> and \<open>math/big\<close> treat
  them.  A byte of a binary document is an \<open>8 word\<close>; a Go string is a \<open>char list\<close> with one \<open>char\<close> per byte,
  and \<open>byteOf\<close> and \<open>charOf\<close> go between the two.
\<close>

unbundle bit_operations_syntax

type_synonym byte = "8 word"
type_synonym bytes = "byte list"

subsection \<open>Bytes and characters\<close>

definition byteOf :: "char \<Rightarrow> byte" where
  "byteOf c = word_of_nat (of_char c)"

definition charOf :: "byte \<Rightarrow> char" where
  "charOf b = char_of (unat b)"

lemma charOf_byteOf [simp]: "charOf (byteOf c) = c"
proof -
  have "(of_char c :: nat) < 256" using of_char_mod_256 [of c] by (metis mod_less_divisor zero_less_numeral)
  then have "unat (byteOf c) = of_char c" by (simp add: byteOf_def unat_of_nat take_bit_nat_eq_self_iff)
  then show ?thesis by (simp add: charOf_def)
qed

lemma byteOf_charOf [simp]: "byteOf (charOf b) = b"
proof -
  have "unat b < 256" using unsigned_less [of b] by simp
  then have "of_char (char_of (unat b)) = unat b" by (simp add: of_char_of)
  then show ?thesis by (simp add: byteOf_def charOf_def)
qed

lemma map_charOf_byteOf [simp]: "map charOf (map byteOf s) = s"
  by (simp add: comp_def)

lemma map_byteOf_charOf [simp]: "map byteOf (map charOf bs) = bs"
  by (simp add: comp_def)

subsection \<open>UTF-8\<close>

definition runeError :: nat where
  "runeError = 0xFFFD"

definition codeOf :: "char \<Rightarrow> nat" where
  "codeOf c = of_char c"

definition cont :: "nat \<Rightarrow> nat \<Rightarrow> char \<Rightarrow> bool" where
  "cont lo hi c \<longleftrightarrow> lo \<le> codeOf c \<and> codeOf c \<le> hi"

text \<open>The range the second byte of a sequence has to be in, by the first byte.\<close>

definition secondRange :: "nat \<Rightarrow> nat \<times> nat" where
  "secondRange b0 =
     (if b0 = 0xE0 then (0xA0, 0xBF) else if b0 = 0xED then (0x80, 0x9F)
      else if b0 = 0xF0 then (0x90, 0xBF) else if b0 = 0xF4 then (0x80, 0x8F) else (0x80, 0xBF))"

text \<open>\<open>utf8.DecodeRune\<close>: the first rune and its width; an invalid or truncated sequence is the replacement
  rune of width 1.\<close>

definition DecodeRune :: "string \<Rightarrow> nat \<times> nat" where
  "DecodeRune s =
     (case s of
        [] \<Rightarrow> (runeError, 0)
      | c0 # rest \<Rightarrow>
          (let b0 = codeOf c0; (lo, hi) = secondRange b0 in
           if b0 < 0x80 then (b0, 1)
           else if 0xC2 \<le> b0 \<and> b0 \<le> 0xDF then
             (case rest of c1 # _ \<Rightarrow>
                if cont lo hi c1 then ((b0 mod 32) * 64 + codeOf c1 mod 64, 2) else (runeError, 1)
              | _ \<Rightarrow> (runeError, 1))
           else if 0xE0 \<le> b0 \<and> b0 \<le> 0xEF then
             (case rest of c1 # c2 # _ \<Rightarrow>
                if cont lo hi c1 \<and> cont 0x80 0xBF c2
                then ((b0 mod 16) * 4096 + (codeOf c1 mod 64) * 64 + codeOf c2 mod 64, 3) else (runeError, 1)
              | _ \<Rightarrow> (runeError, 1))
           else if 0xF0 \<le> b0 \<and> b0 \<le> 0xF4 then
             (case rest of c1 # c2 # c3 # _ \<Rightarrow>
                if cont lo hi c1 \<and> cont 0x80 0xBF c2 \<and> cont 0x80 0xBF c3
                then ((b0 mod 8) * 262144 + (codeOf c1 mod 64) * 4096 + (codeOf c2 mod 64) * 64 + codeOf c3 mod 64, 4)
                else (runeError, 1)
              | _ \<Rightarrow> (runeError, 1))
           else (runeError, 1)))"

text \<open>\<open>utf8.AppendRune\<close>: a surrogate half or a value above the last code point is written as the replacement
  rune.\<close>

definition encodeRune :: "nat \<Rightarrow> string" where
  "encodeRune r =
     (if r < 0x80 then [char_of r]
      else if r < 0x800 then [char_of (0xC0 + r div 64), char_of (0x80 + r mod 64)]
      else if (0xD800 \<le> r \<and> r < 0xE000) \<or> 0x10FFFF < r then [CHR 0xEF, CHR 0xBF, CHR 0xBD]
      else if r < 0x10000 then
        [char_of (0xE0 + r div 4096), char_of (0x80 + r div 64 mod 64), char_of (0x80 + r mod 64)]
      else
        [char_of (0xF0 + r div 262144), char_of (0x80 + r div 4096 mod 64), char_of (0x80 + r div 64 mod 64),
         char_of (0x80 + r mod 64)])"

definition AppendRune :: "string \<Rightarrow> nat \<Rightarrow> string" where
  "AppendRune out r = out @ encodeRune r"

lemma DecodeRune_width: "s \<noteq> [] \<Longrightarrow> 1 \<le> snd (DecodeRune s) \<and> snd (DecodeRune s) \<le> 4"
  by (auto simp: DecodeRune_def Let_def split: list.splits prod.splits)

text \<open>\<open>utf8.Valid\<close>: no position decodes to an error of width 1.\<close>

function utf8Valid :: "string \<Rightarrow> bool" where
  "utf8Valid s =
     (if s = [] then True
      else (let (r, n) = DecodeRune s in (r \<noteq> runeError \<or> n \<noteq> 1) \<and> utf8Valid (drop n s)))"
  by pat_completeness auto
termination
proof (relation "measure length")
  fix s :: string and x r n
  assume "s \<noteq> []" "x = DecodeRune s" "(r, n) = x"
  then have "1 \<le> n" using DecodeRune_width [of s] by (cases "DecodeRune s") auto
  then show "(drop n s, s) \<in> measure length" using \<open>s \<noteq> []\<close> by simp
qed simp

declare utf8Valid.simps [simp del]

subsection \<open>Big-endian integers\<close>

text \<open>\<open>binary.BigEndian.UintN\<close>.\<close>

definition bigEndian :: "bytes \<Rightarrow> 64 word" where
  "bigEndian raw = foldl (\<lambda>acc b. push_bit 8 acc OR ucast b) 0 raw"

text \<open>\<open>big.Int.Bytes\<close> and \<open>big.Int.SetBytes\<close>: no leading zero byte, and none at all for 0.\<close>

function natBytesRev :: "nat \<Rightarrow> bytes" where
  "natBytesRev n = (if n = 0 then [] else word_of_nat (n mod 256) # natBytesRev (n div 256))"
  by pat_completeness auto
termination
  by (relation "measure id") auto

declare natBytesRev.simps [simp del]

definition natBytes :: "nat \<Rightarrow> bytes" where
  "natBytes n = rev (natBytesRev n)"

definition SetBytes :: "bytes \<Rightarrow> nat" where
  "SetBytes bs = foldl (\<lambda>acc b. 256 * acc + unat b) 0 bs"

lemma natBytesRev_value: "foldr (\<lambda>b acc. 256 * acc + unat b) (natBytesRev n) 0 = n"
proof (induction n rule: natBytesRev.induct)
  case (1 n)
  have "unat (word_of_nat (n mod 256) :: byte) = n mod 256"
    by (simp add: unat_of_nat take_bit_nat_eq_self_iff)
  then show ?case using 1 by (subst natBytesRev.simps) simp
qed

lemma SetBytes_natBytes [simp]: "SetBytes (natBytes n) = n"
  by (simp add: SetBytes_def natBytes_def foldl_conv_foldr natBytesRev_value)

lemma byte_split:
  fixes v :: "64 word"
  shows "push_bit 8 (drop_bit (k + 8) v) OR ucast (ucast (drop_bit k v) :: byte) = drop_bit k v"
  by (rule bit_word_eqI) (auto simp: bit_simps)

lemma top_byte:
  fixes v :: "64 word"
  assumes "take_bit (k + 8) v = v"
  shows "ucast (ucast (drop_bit k v) :: byte) = drop_bit k v"
proof -
  have "\<not> bit v (k + n)" if "8 \<le> n" for n
    using that by (subst assms [symmetric]) (simp add: bit_simps)
  then show ?thesis by (intro bit_word_eqI) (auto simp: bit_simps, meson not_less)
qed

lemma take_bit_le:
  fixes v :: "64 word"
  assumes "uint v < 2 ^ n"
  shows "take_bit n v = v"
  using assms by (simp add: word_uint_eq_iff unsigned_take_bit_eq take_bit_int_eq_self_iff)

text \<open>Reading back the big-endian bytes of a value, at the widths of the format.\<close>

lemma bigEndian_1: "v \<le> 0xFF \<Longrightarrow> bigEndian [ucast v] = v"
  using top_byte [of 0 v] by (simp add: bigEndian_def take_bit_le word_le_def)

lemma bigEndian_2: "v \<le> 0xFFFF \<Longrightarrow> bigEndian [ucast (drop_bit 8 v), ucast v] = v"
  using top_byte [of 8 v] byte_split [of 0 v]
  by (simp add: bigEndian_def take_bit_le word_le_def)

lemma bigEndian_4:
  "v \<le> 0xFFFFFFFF \<Longrightarrow>
     bigEndian [ucast (drop_bit 24 v), ucast (drop_bit 16 v), ucast (drop_bit 8 v), ucast v] = v"
  using top_byte [of 24 v] byte_split [of 16 v] byte_split [of 8 v] byte_split [of 0 v]
  by (simp add: bigEndian_def take_bit_le word_le_def)

lemma bigEndian_8:
  "bigEndian [ucast (drop_bit 56 v), ucast (drop_bit 48 v), ucast (drop_bit 40 v), ucast (drop_bit 32 v),
     ucast (drop_bit 24 v), ucast (drop_bit 16 v), ucast (drop_bit 8 v), ucast v] = v"
proof -
  have "take_bit 64 v = v" using unsigned_less [of v] by (intro take_bit_le) simp
  then have top: "ucast (ucast (drop_bit 56 v) :: byte) = drop_bit 56 v" using top_byte [of 56 v] by simp
  have low: "push_bit 8 (drop_bit 8 v) OR ucast (ucast v :: byte) = v" using byte_split [of 0 v] by simp
  show ?thesis
    using byte_split [of 48 v] byte_split [of 40 v] byte_split [of 32 v] byte_split [of 24 v] byte_split [of 16 v]
      byte_split [of 8 v]
    by (simp del: push_bit_or add: bigEndian_def top low)
qed

end
