(* ===== verification/Go_Floats.thy ===== *)
theory Go_Floats
  imports Go_Bytes
begin

text \<open>
  \<open>float64\<close> arithmetic as the program uses it: the bit patterns of \<open>math.Float64bits\<close>, the widening of
  half and single precision, and the operations, each the exact result rounded once by \<open>round_f64\<close>.
  A finite value is sign, mantissa and exponent with the mantissa below \<open>2^53\<close>.
\<close>

subsection \<open>Bit patterns\<close>

definition Float64frombits :: "64 word \<Rightarrow> f64" where
  "Float64frombits b =
     (let s = bit b 63; e = uint (take_bit 11 (drop_bit 52 b)); frac = uint (take_bit 52 b) in
      if e = 0x7FF then (if frac = 0 then Inf s else NaN)
      else if e = 0 then (if frac = 0 then Fin s 0 0 else Fin s frac (- 1074))
      else Fin s (frac + 2 ^ 52) (e - 1075))"

definition signBit :: "bool \<Rightarrow> 64 word" where
  "signBit s = (if s then push_bit 63 1 else 0)"

text \<open>The bits of a value in normal form; \<open>math.NaN()\<close> has the payload 1.\<close>

definition Float64bits :: "f64 \<Rightarrow> 64 word" where
  "Float64bits f =
     (case f of
        NaN \<Rightarrow> 0x7FF8000000000001
      | Inf s \<Rightarrow> signBit s OR 0x7FF0000000000000
      | Fin s m e \<Rightarrow>
          if m < 2 ^ 52 then signBit s OR word_of_int m
          else signBit s OR push_bit 52 (word_of_int (e + 1075)) OR word_of_int (m - 2 ^ 52))"

definition f64_wf :: "f64 \<Rightarrow> bool" where
  "f64_wf f =
     (case f of
        Fin s m e \<Rightarrow> (m = 0 \<and> e = 0) \<or> (0 < m \<and> m < 2 ^ 52 \<and> e = - 1074) \<or>
          (2 ^ 52 \<le> m \<and> m < 2 ^ 53 \<and> - 1074 \<le> e \<and> e \<le> 971)
      | _ \<Rightarrow> True)"

subsection \<open>Exact values and rounding\<close>

text \<open>\<open>n * 2^e\<close> rounded.\<close>

definition roundScaled :: "bool \<Rightarrow> int \<Rightarrow> int \<Rightarrow> f64" where
  "roundScaled s n e = (if 0 \<le> e then round_f64 s (n * 2 ^ nat e) 1 else round_f64 s n (2 ^ nat (- e)))"

definition floatOfInt :: "int \<Rightarrow> f64" where
  "floatOfInt i = round_f64 (i < 0) \<bar>i\<bar> 1"

definition signedMant :: "bool \<Rightarrow> int \<Rightarrow> int" where
  "signedMant s m = (if s then - m else m)"

fun fadd :: "f64 \<Rightarrow> f64 \<Rightarrow> f64" where
  "fadd (Fin s1 m1 e1) (Fin s2 m2 e2) =
     (let e = min e1 e2;
          n = signedMant s1 m1 * 2 ^ nat (e1 - e) + signedMant s2 m2 * 2 ^ nat (e2 - e)
      in if n = 0 then Fin (s1 \<and> s2) 0 0 else roundScaled (n < 0) \<bar>n\<bar> e)"
| "fadd NaN _ = NaN"
| "fadd _ NaN = NaN"
| "fadd (Inf s1) (Inf s2) = (if s1 = s2 then Inf s1 else NaN)"
| "fadd (Inf s) _ = Inf s"
| "fadd _ (Inf s) = Inf s"

fun fneg :: "f64 \<Rightarrow> f64" where
  "fneg (Fin s m e) = Fin (\<not> s) m e"
| "fneg (Inf s) = Inf (\<not> s)"
| "fneg NaN = NaN"

definition fsub :: "f64 \<Rightarrow> f64 \<Rightarrow> f64" where
  "fsub x y = fadd x (fneg y)"

fun fmul :: "f64 \<Rightarrow> f64 \<Rightarrow> f64" where
  "fmul (Fin s1 m1 e1) (Fin s2 m2 e2) = roundScaled (s1 \<noteq> s2) (m1 * m2) (e1 + e2)"
| "fmul NaN _ = NaN"
| "fmul _ NaN = NaN"
| "fmul (Inf s1) (Inf s2) = Inf (s1 \<noteq> s2)"
| "fmul (Inf s1) (Fin s2 m _) = (if m = 0 then NaN else Inf (s1 \<noteq> s2))"
| "fmul (Fin s1 m _) (Inf s2) = (if m = 0 then NaN else Inf (s1 \<noteq> s2))"

text \<open>Division of a finite value by a positive integer.\<close>

definition fdivInt :: "f64 \<Rightarrow> int \<Rightarrow> f64" where
  "fdivInt f d =
     (case f of
        Fin s m e \<Rightarrow>
          if 0 \<le> e then round_f64 s (m * 2 ^ nat e) d else round_f64 s m (2 ^ nat (- e) * d)
      | _ \<Rightarrow> f)"

text \<open>\<open>math.Floor\<close> and \<open>math.Round\<close> (half away from zero) of a finite value, as integers.\<close>

definition floorF :: "f64 \<Rightarrow> int" where
  "floorF f =
     (case f of
        Fin s m e \<Rightarrow> if 0 \<le> e then signedMant s m * 2 ^ nat e else signedMant s m div 2 ^ nat (- e)
      | _ \<Rightarrow> 0)"

definition roundF :: "f64 \<Rightarrow> int" where
  "roundF f =
     (case f of
        Fin s m e \<Rightarrow>
          signedMant s (if 0 \<le> e then m * 2 ^ nat e else (2 * m + 2 ^ nat (- e)) div (2 * 2 ^ nat (- e)))
      | _ \<Rightarrow> 0)"

definition finite_f64 :: "f64 \<Rightarrow> bool" where
  "finite_f64 f = (case f of Fin _ _ _ \<Rightarrow> True | _ \<Rightarrow> False)"

text \<open>\<open>math.Abs(f) > n\<close> for an integer.\<close>

definition absAbove :: "f64 \<Rightarrow> int \<Rightarrow> bool" where
  "absAbove f n =
     (case f of
        Fin s m e \<Rightarrow> if 0 \<le> e then m * 2 ^ nat e > n else m > n * 2 ^ nat (- e)
      | Inf _ \<Rightarrow> True
      | NaN \<Rightarrow> False)"

subsection \<open>Widening\<close>

definition float32ToFloat64 :: "32 word \<Rightarrow> f64" where
  "float32ToFloat64 b =
     (let s = bit b 31; e = uint (take_bit 8 (drop_bit 23 b)); frac = uint (take_bit 23 b) in
      if e = 0xFF then (if frac = 0 then Inf s else NaN)
      else if e = 0 then roundScaled s frac (- 149)
      else roundScaled s (frac + 2 ^ 23) (e - 150))"

end
