(* ===== verification/Cbor_Encode.thy ===== *)
theory Cbor_Encode
  imports Go_Floats
begin

text \<open>
  The CBOR writer, \<open>cborenc/encode.go\<close>: every \<open>Append\<close> function takes the bytes written so far and returns
  them with one item, or the head of one, behind.  \<open>uint64\<close> and \<open>int64\<close> are 64-bit words, an \<open>int64\<close> read by
  \<open>sint\<close>; lengths are natural numbers converted to \<open>uint64\<close> where the code does.
\<close>

subsection \<open>Constants\<close>

definition IndefiniteArray :: byte where "IndefiniteArray = push_bit 5 4 OR 31"
definition IndefiniteMap :: byte where "IndefiniteMap = push_bit 5 5 OR 31"
definition Break :: byte where "Break = 0xFF"

definition valueFalse :: byte where "valueFalse = push_bit 5 7 OR 20"
definition valueTrue :: byte where "valueTrue = push_bit 5 7 OR 21"
definition valueNull :: byte where "valueNull = push_bit 5 7 OR 22"

definition TagEpochDateTime :: "64 word" where "TagEpochDateTime = 1"
definition TagPositiveBignum :: "64 word" where "TagPositiveBignum = 2"
definition TagNegativeBignum :: "64 word" where "TagNegativeBignum = 3"
definition TagDecimal :: "64 word" where "TagDecimal = 4"
definition TagUUID :: "64 word" where "TagUUID = 37"
definition TagEpochDate :: "64 word" where "TagEpochDate = 100"

definition TagStructureDef :: nat where "TagStructureDef = 0xDFFF"
definition StructureTagBase :: nat where "StructureTagBase = 0xE000"
definition MaxStructures :: nat where "MaxStructures = 0x1FFF"

subsection \<open>Heads\<close>

definition AppendHead :: "bytes \<Rightarrow> byte \<Rightarrow> 64 word \<Rightarrow> bytes" where
  "AppendHead dst major v =
     (let m = push_bit 5 major in
      if v < 24 then dst @ [m OR ucast v]
      else if v \<le> 0xFF then dst @ [m OR 24, ucast v]
      else if v \<le> 0xFFFF then dst @ [m OR 25, ucast (drop_bit 8 v), ucast v]
      else if v \<le> 0xFFFFFFFF then
        dst @ [m OR 26, ucast (drop_bit 24 v), ucast (drop_bit 16 v), ucast (drop_bit 8 v), ucast v]
      else
        dst @ [m OR 27, ucast (drop_bit 56 v), ucast (drop_bit 48 v), ucast (drop_bit 40 v), ucast (drop_bit 32 v),
               ucast (drop_bit 24 v), ucast (drop_bit 16 v), ucast (drop_bit 8 v), ucast v])"

definition AppendUint :: "bytes \<Rightarrow> 64 word \<Rightarrow> bytes" where
  "AppendUint dst v = AppendHead dst 0 v"

definition AppendInt :: "bytes \<Rightarrow> 64 word \<Rightarrow> bytes" where
  "AppendInt dst v = (if 0 \<le> sint v then AppendHead dst 0 v else AppendHead dst 1 (- 1 - v))"

definition AppendFloat64 :: "bytes \<Rightarrow> f64 \<Rightarrow> bytes" where
  "AppendFloat64 dst f =
     (let b = Float64bits f in
      dst @ [push_bit 5 7 OR 27, ucast (drop_bit 56 b), ucast (drop_bit 48 b), ucast (drop_bit 40 b),
             ucast (drop_bit 32 b), ucast (drop_bit 24 b), ucast (drop_bit 16 b), ucast (drop_bit 8 b), ucast b])"

definition AppendBool :: "bytes \<Rightarrow> bool \<Rightarrow> bytes" where
  "AppendBool dst v = (if v then dst @ [valueTrue] else dst @ [valueFalse])"

definition AppendNull :: "bytes \<Rightarrow> bytes" where
  "AppendNull dst = dst @ [valueNull]"

definition AppendBytes :: "bytes \<Rightarrow> bytes \<Rightarrow> bytes" where
  "AppendBytes dst b = AppendHead dst 2 (word_of_nat (length b)) @ b"

definition AppendTextBytes :: "bytes \<Rightarrow> bytes \<Rightarrow> bytes" where
  "AppendTextBytes dst s = AppendHead dst 3 (word_of_nat (length s)) @ s"

definition AppendText :: "bytes \<Rightarrow> string \<Rightarrow> bytes" where
  "AppendText dst s = AppendHead dst 3 (word_of_nat (length s)) @ map byteOf s"

definition AppendTag :: "bytes \<Rightarrow> 64 word \<Rightarrow> bytes" where
  "AppendTag dst tag = AppendHead dst 6 tag"

definition AppendArrayHead :: "bytes \<Rightarrow> nat \<Rightarrow> bytes" where
  "AppendArrayHead dst n = AppendHead dst 4 (word_of_nat n)"

definition AppendMapHead :: "bytes \<Rightarrow> nat \<Rightarrow> bytes" where
  "AppendMapHead dst n = AppendHead dst 5 (word_of_nat n)"

subsection \<open>Structures\<close>

definition AppendStructureDef :: "bytes \<Rightarrow> nat \<Rightarrow> string list \<Rightarrow> bytes" where
  "AppendStructureDef dst ident names =
     (let d1 = AppendTag dst (word_of_nat TagStructureDef);
          d2 = AppendArrayHead d1 (length names + 2);
          d3 = AppendUint d2 (word_of_nat (StructureTagBase + ident));
          d4 = AppendArrayHead d3 (length names)
      in foldl AppendText d4 names)"

definition AppendStructureRef :: "bytes \<Rightarrow> nat \<Rightarrow> nat \<Rightarrow> bytes" where
  "AppendStructureRef dst ident n = AppendArrayHead (AppendTag dst (word_of_nat (StructureTagBase + ident))) n"

subsection \<open>Numbers, dates and identifiers\<close>

text \<open>The loop over at most 19 digits, in \<open>uint64\<close> arithmetic.\<close>

definition uintOfDigits :: "string \<Rightarrow> 64 word" where
  "uintOfDigits ds = foldl (\<lambda>v c. v * 10 + ucast (byteOf c - 48)) 0 ds"

definition AppendInteger :: "bytes \<Rightarrow> string \<Rightarrow> bytes" where
  "AppendInteger dst text =
     (let neg = (text \<noteq> [] \<and> hd text = CHR ''-'');
          digits = dropWhile (\<lambda>c. c = CHR ''0'') (if neg then tl text else text)
      in if digits = [] then AppendUint dst 0
         else if length digits \<le> 19 then
           (let v = uintOfDigits digits in if \<not> neg then AppendUint dst v else AppendHead dst 1 (v - 1))
         else
           (let n = int_of_digits digits in
            if \<not> neg \<and> n < 2 ^ 64 then AppendUint dst (word_of_int n)
            else if neg then
              (let n1 = n - 1 in
               if n1 < 2 ^ 64 then AppendHead dst 1 (word_of_int n1)
               else AppendBytes (AppendTag dst TagNegativeBignum) (natBytes (nat n1)))
            else AppendBytes (AppendTag dst TagPositiveBignum) (natBytes (nat n))))"

definition AppendDecimal :: "bytes \<Rightarrow> string \<Rightarrow> 64 word \<Rightarrow> bytes" where
  "AppendDecimal dst mantissa exp =
     (let d1 = AppendTag dst TagDecimal; d2 = AppendArrayHead d1 2; d3 = AppendInt d2 exp
      in AppendInteger d3 mantissa)"

definition AppendEpoch :: "bytes \<Rightarrow> 64 word \<Rightarrow> int \<Rightarrow> bytes" where
  "AppendEpoch dst sec micros =
     (let d1 = AppendTag dst TagEpochDateTime in
      if micros = 0 then AppendInt d1 sec
      else AppendFloat64 d1 (fadd (floatOfInt (sint sec)) (fdivInt (floatOfInt micros) 1000000)))"

definition AppendUUID :: "bytes \<Rightarrow> bytes \<Rightarrow> bytes" where
  "AppendUUID dst uuid = AppendBytes (AppendTag dst TagUUID) uuid"

definition AppendEpochDate :: "bytes \<Rightarrow> 64 word \<Rightarrow> bytes" where
  "AppendEpochDate dst days = AppendInt (AppendTag dst TagEpochDate) days"

subsection \<open>The contract of an append function\<close>

text \<open>What is written does not depend on what was written before, so a document is the concatenation of what
  its parts are written as.\<close>

locale appender =
  fixes app :: "bytes \<Rightarrow> 'v \<Rightarrow> bytes"
  assumes app_append: "app (d @ e) v = d @ app e v"
begin

lemma app_written: "app d v = d @ app [] v"
  using app_append [of d "[]" v] by simp

lemma foldl_written: "foldl app d vs = d @ concat (map (app []) vs)"
proof (induction vs arbitrary: d)
  case (Cons v vs)
  then show ?case using app_written [of d v] by simp
qed simp

end

lemma AppendHead_append [simp]: "AppendHead (d @ e) major v = d @ AppendHead e major v"
  by (simp add: AppendHead_def Let_def)

lemma AppendHead_not_Nil [simp]: "AppendHead dst major v \<noteq> []"
  by (simp add: AppendHead_def Let_def)

interpretation headItem: appender "\<lambda>d (major, v). AppendHead d major v"
  by unfold_locales (simp split: prod.split)

interpretation intItem: appender AppendInt
  by unfold_locales (simp add: AppendInt_def)

interpretation floatItem: appender AppendFloat64
  by unfold_locales (simp add: AppendFloat64_def Let_def)

interpretation boolItem: appender AppendBool
  by unfold_locales (simp add: AppendBool_def)

interpretation blobItem: appender AppendBytes
  by unfold_locales (simp add: AppendBytes_def)

interpretation textBytesItem: appender AppendTextBytes
  by unfold_locales (simp add: AppendTextBytes_def)

interpretation textItem: appender AppendText
  by unfold_locales (simp add: AppendText_def)

interpretation integerItem: appender AppendInteger
  by unfold_locales (simp add: AppendInteger_def AppendUint_def AppendTag_def Let_def blobItem.app_append)

interpretation decimalItem: appender "\<lambda>d (mantissa, exp). AppendDecimal d mantissa exp"
  by unfold_locales
     (simp add: AppendDecimal_def AppendTag_def AppendArrayHead_def Let_def intItem.app_append integerItem.app_append
       split: prod.split)

interpretation epochDateItem: appender AppendEpochDate
  by unfold_locales (simp add: AppendEpochDate_def AppendTag_def intItem.app_append)

interpretation structureDefItem: appender "\<lambda>d (ident, names). AppendStructureDef d ident names"
  by unfold_locales
     (simp add: AppendStructureDef_def AppendTag_def AppendArrayHead_def AppendUint_def Let_def
       textItem.foldl_written [of "_ @ _"] textItem.foldl_written [of "AppendHead _ _ _"] split: prod.split)

lemma AppendText_bytes: "AppendText dst s = AppendTextBytes dst (map byteOf s)"
  by (simp add: AppendText_def AppendTextBytes_def)

end
