(* ===== verification/Cbor_Decode.thy ===== *)
theory Cbor_Decode
  imports Cbor_Encode Go_Format
begin

text \<open>
  The CBOR reader of \<open>query/node_cbor.go\<close>.  A document is read in one pass into a flat arena: a list of
  \<open>cnode\<close>s that refer to each other, to the input and to side tables by index.  The decoder state is the
  arena with the read position and the structures defined so far.  The record extends \<open>cborDoc\<close>, so the
  document is the decoder without its last two fields.  Indexes of nodes are \<open>int32\<close> in the source and
  natural numbers here; every node takes at least one byte of input, so they agree on any input below
  \<open>2^31\<close> bytes.  The parser of RFC 3339 texts is an argument, \<open>timeParse\<close>; an instant is seconds since
  1970 and nanoseconds.
\<close>

subsection \<open>The arena\<close>

datatype cborItem =
    itNull | itFalse | itTrue | itInt | itUint | itNegBig | itFloat | itNumText | itText | itBytes
  | itArray | itMap | itInstant | itDate | itUUID | itBadTag

record cnode =
  item :: cborItem
  chunked :: bool
  ca :: nat
  cb :: nat
  extra :: "64 word"

type_synonym gotime = "int \<times> int"

record cborDoc =
  data :: bytes
  nodes :: "cnode list"
  kids :: "nat list"
  strs :: "string list"
  blobs :: "bytes list"
  times :: "gotime list"

record cborDecoder = cborDoc +
  pos :: nat
  structs :: "nat \<Rightarrow> nat list option"

datatype cbor_error =
    UnexpectedEnd | ReservedInformation | IndefiniteInteger | IndefiniteTag | UnexpectedBreak
  | UnsupportedSimple | StringPastEnd | TextNotUTF8 | BadChunk | CountPastEnd | TooDeep | KeyNotText
  | DuplicateKey | BadDateTime | EpochOutOfRange | StructureNotArray | StructureTooShort | BadStructureId
  | StructureCount | UndefinedStructure | NamesNotArray | NameNotText | DuplicateName | ExtraneousData
  | LoopFuel

type_synonym 'a cborReader = "cborDecoder \<Rightarrow> cbor_error + 'a \<times> cborDecoder"

definition cborMaxDepth :: nat where "cborMaxDepth = 64"

definition maxInt64 :: "64 word" where "maxInt64 = 0x7FFFFFFFFFFFFFFF"

definition plainNode :: "cborItem \<Rightarrow> 64 word \<Rightarrow> cnode" where
  "plainNode it x = \<lparr>item = it, chunked = False, ca = 0, cb = 0, extra = x\<rparr>"

definition spanNode :: "cborItem \<Rightarrow> nat \<Rightarrow> nat \<Rightarrow> cnode" where
  "spanNode it a b = \<lparr>item = it, chunked = False, ca = a, cb = b, extra = 0\<rparr>"

definition cnodeBytes :: "'x cborDoc_scheme \<Rightarrow> cnode \<Rightarrow> bytes" where
  "cnodeBytes d n = (if chunked n then blobs d ! ca n else take (cb n) (drop (ca n) (data d)))"

definition textOf :: "'x cborDoc_scheme \<Rightarrow> cnode \<Rightarrow> string" where
  "textOf d n = map charOf (cnodeBytes d n)"

subsection \<open>Heads\<close>

definition remaining :: "cborDecoder \<Rightarrow> nat" where
  "remaining d = length (data d) - pos d"

definition add :: "cnode \<Rightarrow> cborDecoder \<Rightarrow> nat \<times> cborDecoder" where
  "add n d = (length (nodes d), d\<lparr>nodes := nodes d @ [n]\<rparr>)"

definition addText :: "cborItem \<Rightarrow> string \<Rightarrow> nat \<Rightarrow> 64 word \<Rightarrow> cborDecoder \<Rightarrow> nat \<times> cborDecoder" where
  "addText it text b x d =
     (let d1 = d\<lparr>strs := strs d @ [text]\<rparr> in
      add \<lparr>item = it, chunked = False, ca = length (strs d1) - 1, cb = b, extra = x\<rparr> d1)"

definition addInstant :: "gotime \<Rightarrow> cborDecoder \<Rightarrow> nat \<times> cborDecoder" where
  "addInstant t d =
     (let d1 = d\<lparr>times := times d @ [t]\<rparr> in
      add (plainNode itInstant (word_of_nat (length (times d1) - 1))) d1)"

definition head :: "(byte \<times> byte \<times> 64 word \<times> bool) cborReader" where
  "head d =
     (if remaining d < 1 then Inl UnexpectedEnd
      else
        let b = data d ! pos d; d1 = d\<lparr>pos := pos d + 1\<rparr>; major = drop_bit 5 b; ai = b AND 0x1F in
        if ai < 24 then Inr ((major, ai, ucast ai, False), d1)
        else if ai = 24 \<or> ai = 25 \<or> ai = 26 \<or> ai = 27 then
          (let size = 2 ^ unat (ai - 24) in
           if remaining d1 < size then Inl UnexpectedEnd
           else Inr ((major, ai, bigEndian (take size (drop (pos d1) (data d1))), False), d1\<lparr>pos := pos d1 + size\<rparr>))
        else if ai = 31 then Inr ((major, ai, 0, True), d1)
        else Inl ReservedInformation)"

definition countFits :: "64 word \<Rightarrow> nat \<Rightarrow> cborDecoder \<Rightarrow> cbor_error + unit" where
  "countFits n perElement d = guardR (unat n \<le> remaining d div perElement) CountPastEnd"

subsection \<open>Simple values and strings\<close>

definition float16ToFloat64 :: "64 word \<Rightarrow> f64" where
  "float16ToFloat64 h =
     (let s = bit h 15; e = uint (take_bit 5 (drop_bit 10 h)); frac = uint (take_bit 10 h) in
      if e = 0 then roundScaled s frac (- 24)
      else if e = 31 then (if frac = 0 then Inf s else NaN)
      else roundScaled s (frac + 0x400) (e - 25))"

text \<open>\<open>math.Float64bits(float64(math.Float32frombits(b)))\<close>: the conversion of a NaN keeps its sign and payload and
  makes it quiet.\<close>

definition float32Bits :: "32 word \<Rightarrow> 64 word" where
  "float32Bits b =
     (case float32ToFloat64 b of
        NaN \<Rightarrow> signBit (bit b 31) OR 0x7FF8000000000000 OR push_bit 29 (ucast (take_bit 23 b))
      | f \<Rightarrow> Float64bits f)"

definition simpleItem :: "byte \<Rightarrow> 64 word \<Rightarrow> bool \<Rightarrow> nat cborReader" where
  "simpleItem ai val indef d =
     (if indef then Inl UnexpectedBreak
      else if ai = 20 then Inr (add (plainNode itFalse 0) d)
      else if ai = 21 then Inr (add (plainNode itTrue 0) d)
      else if ai = 22 \<or> ai = 23 then Inr (add (plainNode itNull 0) d)
      else if ai = 25 then Inr (add (plainNode itFloat (Float64bits (float16ToFloat64 val))) d)
      else if ai = 26 then Inr (add (plainNode itFloat (float32Bits (ucast val))) d)
      else if ai = 27 then Inr (add (plainNode itFloat val) d)
      else Inl UnsupportedSimple)"

definition chunkOk :: "byte \<Rightarrow> bytes \<Rightarrow> bool" where
  "chunkOk major chunk \<longleftrightarrow> major \<noteq> 3 \<or> utf8Valid (map charOf chunk)"

text \<open>The chunks of an indefinite-length string, up to the break.  Every chunk takes a byte, so the bytes
  left bound the number of turns.\<close>

fun chunkLoop :: "nat \<Rightarrow> byte \<Rightarrow> bytes \<Rightarrow> bytes cborReader" where
  "chunkLoop 0 major assembled d = Inl LoopFuel"
| "chunkLoop (Suc fuel) major assembled d =
     (if remaining d < 1 then Inl UnexpectedEnd
      else if data d ! pos d = 0xFF then Inr (assembled, d\<lparr>pos := pos d + 1\<rparr>)
      else
        bindR (head d) (\<lambda>((m, _, n, ind), d1).
          if m \<noteq> major \<or> ind then Inl BadChunk
          else if unat n > remaining d1 then Inl StringPastEnd
          else
            let chunk = take (unat n) (drop (pos d1) (data d1)); d2 = d1\<lparr>pos := pos d1 + unat n\<rparr> in
            if \<not> chunkOk major chunk then Inl TextNotUTF8
            else chunkLoop fuel major (assembled @ chunk) d2))"

definition stringItem :: "byte \<Rightarrow> 64 word \<Rightarrow> bool \<Rightarrow> nat cborReader" where
  "stringItem major len indef d =
     (let kind = (if major = 3 then itText else itBytes) in
      if \<not> indef then
        if unat len > remaining d then Inl StringPastEnd
        else
          let off = pos d; d1 = d\<lparr>pos := pos d + unat len\<rparr> in
          if \<not> chunkOk major (take (unat len) (drop off (data d))) then Inl TextNotUTF8
          else Inr (add (spanNode kind off (unat len)) d1)
      else
        bindR (chunkLoop (Suc (remaining d)) major [] d) (\<lambda>(assembled, d1).
          let d2 = d1\<lparr>blobs := blobs d1 @ [assembled]\<rparr> in
          Inr (add \<lparr>item = kind, chunked = True, ca = length (blobs d2) - 1, cb = length assembled, extra = 0\<rparr> d2)))"

subsection \<open>Arrays and maps\<close>

text \<open>\<open>rec\<close> reads the item one level down.  The slots of a container of known length are reserved in \<open>kids\<close>
  before its elements are read, and filled one by one.\<close>

fun fillSlots :: "nat cborReader \<Rightarrow> nat \<Rightarrow> nat \<Rightarrow> unit cborReader" where
  "fillSlots rec slot 0 d = Inr ((), d)"
| "fillSlots rec slot (Suc n) d =
     bindR (rec d) (\<lambda>(e, d1). fillSlots rec (slot + 1) n (d1\<lparr>kids := (kids d1)[slot := e]\<rparr>))"

fun elemsUntilBreak :: "nat \<Rightarrow> nat cborReader \<Rightarrow> nat list \<Rightarrow> nat list cborReader" where
  "elemsUntilBreak 0 rec elems d = Inl LoopFuel"
| "elemsUntilBreak (Suc fuel) rec elems d =
     (if remaining d < 1 then Inl UnexpectedEnd
      else if data d ! pos d = 0xFF then Inr (elems, d\<lparr>pos := pos d + 1\<rparr>)
      else bindR (rec d) (\<lambda>(e, d1). elemsUntilBreak fuel rec (elems @ [e]) d1))"

definition arrayItem :: "(nat \<Rightarrow> nat cborReader) \<Rightarrow> 64 word \<Rightarrow> bool \<Rightarrow> nat \<Rightarrow> nat cborReader" where
  "arrayItem rec n indef depth d =
     (if depth \<ge> cborMaxDepth then Inl TooDeep
      else if indef then
        bindR (elemsUntilBreak (Suc (remaining d)) (rec (depth + 1)) [] d) (\<lambda>(elems, d1).
          let start = length (kids d1); d2 = d1\<lparr>kids := kids d1 @ elems\<rparr> in
          Inr (add (spanNode itArray start (length elems)) d2))
      else
        bindR (countFits n 1 d) (\<lambda>_.
          let start = length (kids d); d1 = d\<lparr>kids := kids d @ replicate (unat n) 0\<rparr> in
          bindR (fillSlots (rec (depth + 1)) start (unat n) d1) (\<lambda>(_, d2).
            Inr (add (spanNode itArray start (unat n)) d2))))"

definition readPair :: "nat cborReader \<Rightarrow> (nat \<times> nat) cborReader" where
  "readPair rec d =
     bindR (rec d) (\<lambda>(k, d1).
       if item (nodes d1 ! k) \<noteq> itText then Inl KeyNotText
       else bindR (rec d1) (\<lambda>(v, d2). Inr ((k, v), d2)))"

fun fillPairs :: "nat cborReader \<Rightarrow> nat \<Rightarrow> nat \<Rightarrow> unit cborReader" where
  "fillPairs rec slot 0 d = Inr ((), d)"
| "fillPairs rec slot (Suc n) d =
     bindR (readPair rec d) (\<lambda>((k, v), d1).
       fillPairs rec (slot + 2) n (d1\<lparr>kids := (kids d1)[slot := k, slot + 1 := v]\<rparr>))"

fun pairsUntilBreak :: "nat \<Rightarrow> nat cborReader \<Rightarrow> nat list \<Rightarrow> nat list cborReader" where
  "pairsUntilBreak 0 rec ks d = Inl LoopFuel"
| "pairsUntilBreak (Suc fuel) rec ks d =
     (if remaining d < 1 then Inl UnexpectedEnd
      else if data d ! pos d = 0xFF then Inr (ks, d\<lparr>pos := pos d + 1\<rparr>)
      else bindR (readPair rec d) (\<lambda>((k, v), d1). pairsUntilBreak fuel rec (ks @ [k, v]) d1))"

fun seenBefore :: "string list \<Rightarrow> string list \<Rightarrow> bool" where
  "seenBefore seen [] = False"
| "seenBefore seen (k # ks) = (k \<in> set seen \<or> seenBefore (k # seen) ks)"

definition checkDistinctKeys :: "nat \<Rightarrow> nat \<Rightarrow> cborDecoder \<Rightarrow> cbor_error + unit" where
  "checkDistinctKeys start pairs d =
     (let key = (\<lambda>i. textOf d (nodes d ! (kids d ! (start + 2 * i)))) in
      if pairs \<le> 8 then
        guardR (\<not> list_ex (\<lambda>i. list_ex (\<lambda>j. key i = key j) [0..<i]) [1..<pairs]) DuplicateKey
      else guardR (\<not> seenBefore [] (map key [0..<pairs])) DuplicateKey)"

definition mapItem :: "(nat \<Rightarrow> nat cborReader) \<Rightarrow> 64 word \<Rightarrow> bool \<Rightarrow> nat \<Rightarrow> nat cborReader" where
  "mapItem rec n indef depth d =
     (if depth \<ge> cborMaxDepth then Inl TooDeep
      else if indef then
        bindR (pairsUntilBreak (Suc (remaining d)) (rec (depth + 1)) [] d) (\<lambda>(ks, d1).
          let start = length (kids d1); d2 = d1\<lparr>kids := kids d1 @ ks\<rparr>; count = length ks div 2 in
          bindR (checkDistinctKeys start count d2) (\<lambda>_. Inr (add (spanNode itMap start count) d2)))
      else
        bindR (countFits n 2 d) (\<lambda>_.
          let start = length (kids d); d1 = d\<lparr>kids := kids d @ replicate (2 * unat n) 0\<rparr> in
          bindR (fillPairs (rec (depth + 1)) start (unat n) d1) (\<lambda>(_, d2).
            bindR (checkDistinctKeys start (unat n) d2) (\<lambda>_. Inr (add (spanNode itMap start (unat n)) d2)))))"

subsection \<open>Integers as text\<close>

definition integerText :: "'x cborDoc_scheme \<Rightarrow> cnode \<Rightarrow> string option" where
  "integerText d n =
     (case item n of
        itInt \<Rightarrow> Some (FormatInt (sint (extra n)))
      | itUint \<Rightarrow> Some (FormatInt (uint (extra n)))
      | itNegBig \<Rightarrow> Some (FormatInt (- (uint (extra n) + 1)))
      | itNumText \<Rightarrow> if cb n = 0 then Some (strs d ! ca n) else None
      | _ \<Rightarrow> None)"

subsection \<open>Tags\<close>

text \<open>\<open>time.Unix\<close>, with the nanoseconds brought into a second.\<close>

definition timeUnix :: "int \<Rightarrow> int \<Rightarrow> gotime" where
  "timeUnix sec nsec = (sec + nsec div 1000000000, nsec mod 1000000000)"

definition epochOfFloat :: "f64 \<Rightarrow> cbor_error + gotime" where
  "epochOfFloat f =
     (if \<not> finite_f64 f \<or> absAbove f 9000000000000000000 then Inl EpochOutOfRange
      else
        let sec = floorF f in
        Inr (timeUnix sec (roundF (fmul (fsub f (floatOfInt sec)) (floatOfInt 1000000000)))))"

definition isStructureTag :: "64 word \<Rightarrow> bool" where
  "isStructureTag tag \<longleftrightarrow>
     unat tag = TagStructureDef \<or> (StructureTagBase \<le> unat tag \<and> unat tag < StructureTagBase + MaxStructures)"

definition badTag :: "64 word \<Rightarrow> nat cborReader" where
  "badTag tag d = Inr (add (plainNode itBadTag tag) d)"

text \<open>The meaning of a tag over its content, the node just read.\<close>

definition bignumTag :: "64 word \<Rightarrow> cnode \<Rightarrow> nat cborReader" where
  "bignumTag tag content d =
     (if item content \<noteq> itBytes then badTag tag d
      else
        let n = int (SetBytes (cnodeBytes d content)) in
        Inr (addText itNumText (FormatInt (if tag = 3 then - (n + 1) else n)) 0 0 d))"

definition dateTimeTag :: "(string \<Rightarrow> gotime option) \<Rightarrow> cnode \<Rightarrow> nat cborReader" where
  "dateTimeTag timeParse content d =
     (if item content \<noteq> itText then badTag 0 d
      else
        (case timeParse (textOf d content) of
           None \<Rightarrow> Inl BadDateTime
         | Some t \<Rightarrow> Inr (addInstant t d)))"

definition epochTag :: "cnode \<Rightarrow> nat cborReader" where
  "epochTag content d =
     (case item content of
        itInt \<Rightarrow> Inr (addInstant (timeUnix (sint (extra content)) 0) d)
      | itUint \<Rightarrow> Inl EpochOutOfRange
      | itFloat \<Rightarrow> bindR (epochOfFloat (Float64frombits (extra content))) (\<lambda>t. Inr (addInstant t d))
      | _ \<Rightarrow> badTag 1 d)"

definition decimalTag :: "cnode \<Rightarrow> nat cborReader" where
  "decimalTag content d =
     (if item content \<noteq> itArray \<or> cb content \<noteq> 2 then badTag 4 d
      else
        let e = nodes d ! (kids d ! ca content); mant = nodes d ! (kids d ! (ca content + 1)) in
        if item e \<noteq> itInt then badTag 4 d
        else
          (case integerText d mant of
             None \<Rightarrow> badTag 4 d
           | Some text \<Rightarrow> Inr (addText itNumText text 1 (extra e) d)))"

definition uuidTag :: "cnode \<Rightarrow> nat cborReader" where
  "uuidTag content d =
     (if item content \<noteq> itBytes \<or> cb content \<noteq> 16 then badTag 37 d
      else Inr (add \<lparr>item = itUUID, chunked = chunked content, ca = ca content, cb = cb content, extra = 0\<rparr> d))"

definition dateTag :: "cnode \<Rightarrow> nat cborReader" where
  "dateTag content d =
     (if item content \<noteq> itInt then badTag 100 d else Inr (add (plainNode itDate (extra content)) d))"

definition tagContent :: "(string \<Rightarrow> gotime option) \<Rightarrow> 64 word \<Rightarrow> cnode \<Rightarrow> nat cborReader" where
  "tagContent timeParse tag content d =
     (if tag = 2 \<or> tag = 3 then bignumTag tag content d
      else if tag = 0 then dateTimeTag timeParse content d
      else if tag = 1 then epochTag content d
      else if tag = 4 then decimalTag content d
      else if tag = 37 then uuidTag content d
      else if tag = 100 then dateTag content d
      else badTag tag d)"

subsection \<open>Structures\<close>

fun readNames :: "nat cborReader \<Rightarrow> nat \<Rightarrow> nat list cborReader" where
  "readNames rec 0 d = Inr ([], d)"
| "readNames rec (Suc n) d =
     bindR (rec d) (\<lambda>(k, d1).
       if item (nodes d1 ! k) \<noteq> itText then Inl NameNotText
       else bindR (readNames rec n d1) (\<lambda>(ks, d2). Inr (k # ks, d2)))"

definition structureNames :: "(nat \<Rightarrow> nat cborReader) \<Rightarrow> nat \<Rightarrow> nat list cborReader" where
  "structureNames rec depth d =
     bindR (head d) (\<lambda>((major, _, n, indef), d1).
       if major \<noteq> 4 \<or> indef then Inl NamesNotArray
       else
         bindR (countFits n 1 d1) (\<lambda>_.
         bindR (readNames (rec (depth + 1)) (unat n) d1) (\<lambda>(names, d2).
           if seenBefore [] (map (\<lambda>k. textOf d2 (nodes d2 ! k)) names) then Inl DuplicateName
           else Inr (names, d2))))"

definition structureDef :: "(nat \<Rightarrow> nat cborReader) \<Rightarrow> 64 word \<Rightarrow> nat \<Rightarrow> nat list cborReader" where
  "structureDef rec n depth d =
     (if unat n < 2 then Inl StructureTooShort
      else
        bindR (rec (depth + 2) d) (\<lambda>(idTag, d1).
          let ident = nodes d1 ! idTag; i = sint (extra ident) in
          if item ident \<noteq> itInt \<or> i < int StructureTagBase \<or> i \<ge> int (StructureTagBase + MaxStructures) then
            Inl BadStructureId
          else
            bindR (structureNames rec (depth + 2) d1) (\<lambda>(names, d2).
              if unat n \<noteq> length names + 2 then Inl StructureCount
              else Inr (names, d2\<lparr>structs := (structs d2)(nat i - StructureTagBase := Some names)\<rparr>))))"

definition structureRef :: "64 word \<Rightarrow> 64 word \<Rightarrow> nat list cborReader" where
  "structureRef tag n d =
     (case structs d (unat tag - StructureTagBase) of
        None \<Rightarrow> Inl UndefinedStructure
      | Some names \<Rightarrow> if unat n \<noteq> length names then Inl StructureCount else Inr (names, d))"

fun fillValues :: "nat cborReader \<Rightarrow> nat \<Rightarrow> nat list \<Rightarrow> unit cborReader" where
  "fillValues rec slot [] d = Inr ((), d)"
| "fillValues rec slot (k # ks) d =
     bindR (rec d) (\<lambda>(v, d1). fillValues rec (slot + 2) ks (d1\<lparr>kids := (kids d1)[slot := k, slot + 1 := v]\<rparr>))"

definition structureItem :: "(nat \<Rightarrow> nat cborReader) \<Rightarrow> 64 word \<Rightarrow> nat \<Rightarrow> nat cborReader" where
  "structureItem rec tag depth d =
     (if depth + 1 \<ge> cborMaxDepth then Inl TooDeep
      else
        bindR (head d) (\<lambda>((major, _, n, indef), d1).
          if major \<noteq> 4 \<or> indef then Inl StructureNotArray
          else
            bindR (countFits n 1 d1) (\<lambda>_.
            bindR (if unat tag = TagStructureDef then structureDef rec n depth d1 else structureRef tag n d1)
              (\<lambda>(names, d2).
                let start = length (kids d2); d3 = d2\<lparr>kids := kids d2 @ replicate (2 * length names) 0\<rparr> in
                bindR (fillValues (rec (depth + 2)) start names d3) (\<lambda>(_, d4).
                  Inr (add (spanNode itMap start (length names)) d4))))))"

definition tagItem :: "(string \<Rightarrow> gotime option) \<Rightarrow> (nat \<Rightarrow> nat cborReader) \<Rightarrow> 64 word \<Rightarrow> nat \<Rightarrow> nat cborReader" where
  "tagItem timeParse rec tag depth d =
     (if depth \<ge> cborMaxDepth then Inl TooDeep
      else if isStructureTag tag then structureItem rec tag depth d
      else bindR (rec (depth + 1) d) (\<lambda>(c, d1). tagContent timeParse tag (nodes d1 ! c) d1))"

subsection \<open>Items\<close>

definition intItem :: "64 word \<Rightarrow> bool \<Rightarrow> nat cborReader" where
  "intItem val indef d =
     (if indef then Inl IndefiniteInteger
      else if val > maxInt64 then Inr (add (plainNode itUint val) d)
      else Inr (add (plainNode itInt val) d))"

definition negIntItem :: "64 word \<Rightarrow> bool \<Rightarrow> nat cborReader" where
  "negIntItem val indef d =
     (if indef then Inl IndefiniteInteger
      else if val > maxInt64 then Inr (add (plainNode itNegBig val) d)
      else Inr (add (plainNode itInt (- 1 - val)) d))"

definition itemStep :: "(string \<Rightarrow> gotime option) \<Rightarrow> (nat \<Rightarrow> nat cborReader) \<Rightarrow> nat \<Rightarrow> nat cborReader" where
  "itemStep timeParse rec depth d =
     bindR (head d) (\<lambda>((major, ai, val, indef), d1).
       if major = 0 then intItem val indef d1
       else if major = 1 then negIntItem val indef d1
       else if major = 2 \<or> major = 3 then stringItem major val indef d1
       else if major = 4 then arrayItem rec val indef depth d1
       else if major = 5 then mapItem rec val indef depth d1
       else if major = 6 then (if indef then Inl IndefiniteTag else tagItem timeParse rec val depth d1)
       else simpleItem ai val indef d1)"

text \<open>The recursion ends because an item below the deepest level allowed is refused.\<close>

lemma itemStep_cong [fundef_cong]:
  assumes "tp = tp'" "depth = depth'" "d = d'"
    and "\<And>e x. depth' < e \<Longrightarrow> depth' < cborMaxDepth \<Longrightarrow> rec e x = rec' e x"
  shows "itemStep tp rec depth d = itemStep tp' rec' depth' d'"
proof -
  have eq: "arrayItem rec n indef depth x = arrayItem rec' n indef depth x \<and>
      mapItem rec n indef depth x = mapItem rec' n indef depth x \<and>
      tagItem tp rec tag depth x = tagItem tp rec' tag depth x" for n indef tag x
  proof (cases "depth < cborMaxDepth")
    case True
    have r: "rec (depth + 1) = rec' (depth + 1)" "rec (depth + 2) = rec' (depth + 2)"
      "rec (depth + 2 + 1) = rec' (depth + 2 + 1)"
      using assms(2,4) True by (intro ext; simp)+
    then show ?thesis
      by (simp only: arrayItem_def mapItem_def tagItem_def structureItem_def structureDef_def structureNames_def)
  qed (simp add: arrayItem_def mapItem_def tagItem_def)
  show ?thesis
    unfolding itemStep_def assms(1-3) [symmetric] by (rule bindR_cong [OF refl]) (simp add: eq split: prod.split)
qed

function readItem :: "(string \<Rightarrow> gotime option) \<Rightarrow> nat \<Rightarrow> nat cborReader" where
  "readItem timeParse depth d = itemStep timeParse (readItem timeParse) depth d"
  by pat_completeness auto
termination
  by (relation "measure (\<lambda>(_, depth, _). cborMaxDepth - depth)") auto

declare readItem.simps [simp del]

definition startDecoder :: "bytes \<Rightarrow> cborDecoder" where
  "startDecoder bs =
     \<lparr>data = bs, nodes = [], kids = [], strs = [], blobs = [], times = [], pos = 0, structs = (\<lambda>_. None)\<rparr>"

definition NewCBORNode :: "(string \<Rightarrow> gotime option) \<Rightarrow> bytes \<Rightarrow> cbor_error + (nat \<times> cborDecoder)" where
  "NewCBORNode timeParse bs =
     bindR (readItem timeParse 0 (startDecoder bs)) (\<lambda>(idx, d).
       if pos d \<noteq> length bs then Inl ExtraneousData else Inr (idx, d))"

end
