(* ===== verification/Cbor_Tree.thy ===== *)
theory Cbor_Tree
  imports Cbor_Decode
begin

text \<open>
  What a CBOR document means, without an arena: \<open>treeItem\<close> reads an item from a list of bytes and returns
  it as a tree with the bytes left.  It is the specification the arena of \<open>Cbor_Decode\<close> is measured against:
  same language, same errors, and a value that no longer depends on indexes and side tables.
\<close>

datatype ctree =
    CNull
  | CBool bool
  | CInt "64 word"
  | CUint "64 word"
  | CNegBig "64 word"
  | CFloat "64 word"
  | CBig string
  | CDecimal string "64 word"
  | CText string
  | CBytes bytes
  | CArray "ctree list"
  | CMap "(string \<times> ctree) list"
  | CInstant gotime
  | CDate "64 word"
  | CUUID bytes
  | CBadTag "64 word"

type_synonym treeState = "bytes \<times> (nat \<Rightarrow> string list option)"
type_synonym 'a treeReader = "treeState \<Rightarrow> cbor_error + 'a \<times> treeState"

subsection \<open>Heads, simple values and strings\<close>

definition treeHead :: "(byte \<times> byte \<times> 64 word \<times> bool) treeReader" where
  "treeHead = (\<lambda>(bs, env).
     case bs of
       [] \<Rightarrow> Inl UnexpectedEnd
     | b # rest \<Rightarrow>
         let major = drop_bit 5 b; ai = b AND 0x1F in
         if ai < 24 then Inr ((major, ai, ucast ai, False), rest, env)
         else if ai = 24 \<or> ai = 25 \<or> ai = 26 \<or> ai = 27 then
           (let size = 2 ^ unat (ai - 24) in
            if length rest < size then Inl UnexpectedEnd
            else Inr ((major, ai, bigEndian (take size rest), False), drop size rest, env))
         else if ai = 31 then Inr ((major, ai, 0, True), rest, env)
         else Inl ReservedInformation)"

definition treeCount :: "64 word \<Rightarrow> nat \<Rightarrow> treeState \<Rightarrow> cbor_error + unit" where
  "treeCount n per st = guardR (unat n \<le> length (fst st) div per) CountPastEnd"

definition treeSimple :: "byte \<Rightarrow> 64 word \<Rightarrow> bool \<Rightarrow> cbor_error + ctree" where
  "treeSimple ai val indef =
     (if indef then Inl UnexpectedBreak
      else if ai = 20 then Inr (CBool False)
      else if ai = 21 then Inr (CBool True)
      else if ai = 22 \<or> ai = 23 then Inr CNull
      else if ai = 25 then Inr (CFloat (Float64bits (float16ToFloat64 val)))
      else if ai = 26 then Inr (CFloat (float32Bits (ucast val)))
      else if ai = 27 then Inr (CFloat val)
      else Inl UnsupportedSimple)"

fun treeChunks :: "nat \<Rightarrow> byte \<Rightarrow> bytes \<Rightarrow> bytes treeReader" where
  "treeChunks 0 major assembled st = Inl LoopFuel"
| "treeChunks (Suc fuel) major assembled st =
     (if length (fst st) < 1 then Inl UnexpectedEnd
      else if hd (fst st) = 0xFF then Inr (assembled, tl (fst st), snd st)
      else
        bindR (treeHead st) (\<lambda>((m, _, n, ind), st1).
          if m \<noteq> major \<or> ind then Inl BadChunk
          else if unat n > length (fst st1) then Inl StringPastEnd
          else if \<not> chunkOk major (take (unat n) (fst st1)) then Inl TextNotUTF8
          else treeChunks fuel major (assembled @ take (unat n) (fst st1)) (drop (unat n) (fst st1), snd st1)))"

definition stringTree :: "byte \<Rightarrow> bytes \<Rightarrow> ctree" where
  "stringTree major s = (if major = 3 then CText (map charOf s) else CBytes s)"

definition treeString :: "byte \<Rightarrow> 64 word \<Rightarrow> bool \<Rightarrow> ctree treeReader" where
  "treeString major len indef st =
     (if \<not> indef then
        if unat len > length (fst st) then Inl StringPastEnd
        else if \<not> chunkOk major (take (unat len) (fst st)) then Inl TextNotUTF8
        else Inr (stringTree major (take (unat len) (fst st)), drop (unat len) (fst st), snd st)
      else
        bindR (treeChunks (Suc (length (fst st))) major [] st) (\<lambda>(assembled, st1).
          Inr (stringTree major assembled, st1)))"

subsection \<open>Containers\<close>

fun treeElems :: "ctree treeReader \<Rightarrow> nat \<Rightarrow> ctree list treeReader" where
  "treeElems rec 0 st = Inr ([], st)"
| "treeElems rec (Suc n) st =
     bindR (rec st) (\<lambda>(t, st1). bindR (treeElems rec n st1) (\<lambda>(ts, st2). Inr (t # ts, st2)))"

fun treeUntilBreak :: "nat \<Rightarrow> 'a treeReader \<Rightarrow> 'a list \<Rightarrow> 'a list treeReader" where
  "treeUntilBreak 0 rec acc st = Inl LoopFuel"
| "treeUntilBreak (Suc fuel) rec acc st =
     (if length (fst st) < 1 then Inl UnexpectedEnd
      else if hd (fst st) = 0xFF then Inr (acc, tl (fst st), snd st)
      else bindR (rec st) (\<lambda>(t, st1). treeUntilBreak fuel rec (acc @ [t]) st1))"

definition treeArray :: "(nat \<Rightarrow> ctree treeReader) \<Rightarrow> 64 word \<Rightarrow> bool \<Rightarrow> nat \<Rightarrow> ctree treeReader" where
  "treeArray rec n indef depth st =
     (if depth \<ge> cborMaxDepth then Inl TooDeep
      else if indef then
        bindR (treeUntilBreak (Suc (length (fst st))) (rec (depth + 1)) [] st) (\<lambda>(ts, st1). Inr (CArray ts, st1))
      else
        bindR (treeCount n 1 st) (\<lambda>_.
        bindR (treeElems (rec (depth + 1)) (unat n) st) (\<lambda>(ts, st1). Inr (CArray ts, st1))))"

definition treePair :: "ctree treeReader \<Rightarrow> (string \<times> ctree) treeReader" where
  "treePair rec st =
     bindR (rec st) (\<lambda>(k, st1).
       case k of
         CText s \<Rightarrow> bindR (rec st1) (\<lambda>(v, st2). Inr ((s, v), st2))
       | _ \<Rightarrow> Inl KeyNotText)"

fun treePairs :: "ctree treeReader \<Rightarrow> nat \<Rightarrow> (string \<times> ctree) list treeReader" where
  "treePairs rec 0 st = Inr ([], st)"
| "treePairs rec (Suc n) st =
     bindR (treePair rec st) (\<lambda>(p, st1). bindR (treePairs rec n st1) (\<lambda>(ps, st2). Inr (p # ps, st2)))"

definition treeMapOf :: "(string \<times> ctree) list \<Rightarrow> cbor_error + ctree" where
  "treeMapOf ps = (if distinct (map fst ps) then Inr (CMap ps) else Inl DuplicateKey)"

definition treeMap :: "(nat \<Rightarrow> ctree treeReader) \<Rightarrow> 64 word \<Rightarrow> bool \<Rightarrow> nat \<Rightarrow> ctree treeReader" where
  "treeMap rec n indef depth st =
     (if depth \<ge> cborMaxDepth then Inl TooDeep
      else if indef then
        bindR (treeUntilBreak (Suc (length (fst st))) (treePair (rec (depth + 1))) [] st) (\<lambda>(ps, st1).
          bindR (treeMapOf ps) (\<lambda>t. Inr (t, st1)))
      else
        bindR (treeCount n 2 st) (\<lambda>_.
        bindR (treePairs (rec (depth + 1)) (unat n) st) (\<lambda>(ps, st1).
          bindR (treeMapOf ps) (\<lambda>t. Inr (t, st1)))))"

subsection \<open>Tags and structures\<close>

definition treeIntegerText :: "ctree \<Rightarrow> string option" where
  "treeIntegerText t =
     (case t of
        CInt x \<Rightarrow> Some (FormatInt (sint x))
      | CUint x \<Rightarrow> Some (FormatInt (uint x))
      | CNegBig x \<Rightarrow> Some (FormatInt (- (uint x + 1)))
      | CBig s \<Rightarrow> Some s
      | _ \<Rightarrow> None)"

definition treeTag :: "(string \<Rightarrow> gotime option) \<Rightarrow> 64 word \<Rightarrow> ctree \<Rightarrow> cbor_error + ctree" where
  "treeTag timeParse tag t =
     (if tag = 2 \<or> tag = 3 then
        (case t of
           CBytes bs \<Rightarrow> Inr (CBig (FormatInt (if tag = 3 then - (int (SetBytes bs) + 1) else int (SetBytes bs))))
         | _ \<Rightarrow> Inr (CBadTag tag))
      else if tag = 0 then
        (case t of
           CText s \<Rightarrow> (case timeParse s of None \<Rightarrow> Inl BadDateTime | Some x \<Rightarrow> Inr (CInstant x))
         | _ \<Rightarrow> Inr (CBadTag tag))
      else if tag = 1 then
        (case t of
           CInt x \<Rightarrow> Inr (CInstant (timeUnix (sint x) 0))
         | CUint x \<Rightarrow> Inl EpochOutOfRange
         | CFloat x \<Rightarrow> bindR (epochOfFloat (Float64frombits x)) (\<lambda>y. Inr (CInstant y))
         | _ \<Rightarrow> Inr (CBadTag tag))
      else if tag = 4 then
        (case t of
           CArray [CInt e, m] \<Rightarrow>
             (case treeIntegerText m of Some s \<Rightarrow> Inr (CDecimal s e) | None \<Rightarrow> Inr (CBadTag tag))
         | _ \<Rightarrow> Inr (CBadTag tag))
      else if tag = 37 then
        (case t of CBytes bs \<Rightarrow> if length bs = 16 then Inr (CUUID bs) else Inr (CBadTag tag) | _ \<Rightarrow> Inr (CBadTag tag))
      else if tag = 100 then (case t of CInt x \<Rightarrow> Inr (CDate x) | _ \<Rightarrow> Inr (CBadTag tag))
      else Inr (CBadTag tag))"

fun treeNameList :: "ctree treeReader \<Rightarrow> nat \<Rightarrow> string list treeReader" where
  "treeNameList rec 0 st = Inr ([], st)"
| "treeNameList rec (Suc n) st =
     bindR (rec st) (\<lambda>(k, st1).
       case k of
         CText s \<Rightarrow> bindR (treeNameList rec n st1) (\<lambda>(ss, st2). Inr (s # ss, st2))
       | _ \<Rightarrow> Inl NameNotText)"

definition treeNames :: "(nat \<Rightarrow> ctree treeReader) \<Rightarrow> nat \<Rightarrow> string list treeReader" where
  "treeNames rec depth st =
     bindR (treeHead st) (\<lambda>((major, _, n, indef), st1).
       if major \<noteq> 4 \<or> indef then Inl NamesNotArray
       else
         bindR (treeCount n 1 st1) (\<lambda>_.
         bindR (treeNameList (rec (depth + 1)) (unat n) st1) (\<lambda>(names, st2).
           if distinct names then Inr (names, st2) else Inl DuplicateName)))"

definition treeStructureDef :: "(nat \<Rightarrow> ctree treeReader) \<Rightarrow> 64 word \<Rightarrow> nat \<Rightarrow> string list treeReader" where
  "treeStructureDef rec n depth st =
     (if unat n < 2 then Inl StructureTooShort
      else
        bindR (rec (depth + 2) st) (\<lambda>(t, st1).
          case t of
            CInt x \<Rightarrow>
              if sint x < int StructureTagBase \<or> sint x \<ge> int (StructureTagBase + MaxStructures) then
                Inl BadStructureId
              else
                bindR (treeNames rec (depth + 2) st1) (\<lambda>(names, st2).
                  if unat n \<noteq> length names + 2 then Inl StructureCount
                  else Inr (names, fst st2, (snd st2)(nat (sint x) - StructureTagBase := Some names)))
          | _ \<Rightarrow> Inl BadStructureId))"

definition treeStructureRef :: "64 word \<Rightarrow> 64 word \<Rightarrow> string list treeReader" where
  "treeStructureRef tag n st =
     (case snd st (unat tag - StructureTagBase) of
        None \<Rightarrow> Inl UndefinedStructure
      | Some names \<Rightarrow> if unat n \<noteq> length names then Inl StructureCount else Inr (names, st))"

definition treeStructure :: "(nat \<Rightarrow> ctree treeReader) \<Rightarrow> 64 word \<Rightarrow> nat \<Rightarrow> ctree treeReader" where
  "treeStructure rec tag depth st =
     (if depth + 1 \<ge> cborMaxDepth then Inl TooDeep
      else
        bindR (treeHead st) (\<lambda>((major, _, n, indef), st1).
          if major \<noteq> 4 \<or> indef then Inl StructureNotArray
          else
            bindR (treeCount n 1 st1) (\<lambda>_.
            bindR (if unat tag = TagStructureDef then treeStructureDef rec n depth st1 else treeStructureRef tag n st1)
              (\<lambda>(names, st2).
                bindR (treeElems (rec (depth + 2)) (length names) st2) (\<lambda>(ts, st3).
                  Inr (CMap (zip names ts), st3))))))"

definition treeTagged :: "(string \<Rightarrow> gotime option) \<Rightarrow> (nat \<Rightarrow> ctree treeReader) \<Rightarrow> 64 word \<Rightarrow> nat \<Rightarrow> ctree treeReader" where
  "treeTagged timeParse rec tag depth st =
     (if depth \<ge> cborMaxDepth then Inl TooDeep
      else if isStructureTag tag then treeStructure rec tag depth st
      else
        bindR (rec (depth + 1) st) (\<lambda>(t, st1). bindR (treeTag timeParse tag t) (\<lambda>t'. Inr (t', st1))))"

subsection \<open>Items\<close>

definition treeInt :: "64 word \<Rightarrow> bool \<Rightarrow> cbor_error + ctree" where
  "treeInt val indef =
     (if indef then Inl IndefiniteInteger else if val > maxInt64 then Inr (CUint val) else Inr (CInt val))"

definition treeNegInt :: "64 word \<Rightarrow> bool \<Rightarrow> cbor_error + ctree" where
  "treeNegInt val indef =
     (if indef then Inl IndefiniteInteger else if val > maxInt64 then Inr (CNegBig val) else Inr (CInt (- 1 - val)))"

definition treeStep :: "(string \<Rightarrow> gotime option) \<Rightarrow> (nat \<Rightarrow> ctree treeReader) \<Rightarrow> nat \<Rightarrow> ctree treeReader" where
  "treeStep timeParse rec depth st =
     bindR (treeHead st) (\<lambda>((major, ai, val, indef), st1).
       if major = 0 then bindR (treeInt val indef) (\<lambda>t. Inr (t, st1))
       else if major = 1 then bindR (treeNegInt val indef) (\<lambda>t. Inr (t, st1))
       else if major = 2 \<or> major = 3 then treeString major val indef st1
       else if major = 4 then treeArray rec val indef depth st1
       else if major = 5 then treeMap rec val indef depth st1
       else if major = 6 then (if indef then Inl IndefiniteTag else treeTagged timeParse rec val depth st1)
       else bindR (treeSimple ai val indef) (\<lambda>t. Inr (t, st1)))"

lemma treeStep_cong [fundef_cong]:
  assumes "tp = tp'" "depth = depth'" "st = st'"
    and "\<And>e x. depth' < e \<Longrightarrow> depth' < cborMaxDepth \<Longrightarrow> rec e x = rec' e x"
  shows "treeStep tp rec depth st = treeStep tp' rec' depth' st'"
proof -
  have eq: "treeArray rec n indef depth x = treeArray rec' n indef depth x \<and>
      treeMap rec n indef depth x = treeMap rec' n indef depth x \<and>
      treeTagged tp rec tag depth x = treeTagged tp rec' tag depth x" for n indef tag x
  proof (cases "depth < cborMaxDepth")
    case True
    have r: "rec (depth + 1) = rec' (depth + 1)" "rec (depth + 2) = rec' (depth + 2)"
      "rec (depth + 2 + 1) = rec' (depth + 2 + 1)"
      using assms(2,4) True by (intro ext; simp)+
    then show ?thesis
      by (simp only: treeArray_def treeMap_def treeTagged_def treeStructure_def treeStructureDef_def treeNames_def)
  qed (simp add: treeArray_def treeMap_def treeTagged_def)
  show ?thesis
    unfolding treeStep_def assms(1-3) [symmetric] by (rule bindR_cong [OF refl]) (simp add: eq split: prod.split)
qed

function treeItem :: "(string \<Rightarrow> gotime option) \<Rightarrow> nat \<Rightarrow> ctree treeReader" where
  "treeItem timeParse depth st = treeStep timeParse (treeItem timeParse) depth st"
  by pat_completeness auto
termination
  by (relation "measure (\<lambda>(_, depth, _). cborMaxDepth - depth)") auto

declare treeItem.simps [simp del]

definition readTree :: "(string \<Rightarrow> gotime option) \<Rightarrow> bytes \<Rightarrow> cbor_error + ctree" where
  "readTree timeParse bs =
     bindR (treeItem timeParse 0 (bs, \<lambda>_. None)) (\<lambda>(t, rest, _). if rest \<noteq> [] then Inl ExtraneousData else Inr t)"

end
