(* ===== verification/Cbor_Arena.thy ===== *)
theory Cbor_Arena
  imports Cbor_Tree "HOL-Library.Sublist"
begin

text \<open>
  What the nodes of the arena stand for.  \<open>repr d i t\<close> says that node \<open>i\<close> of the document \<open>d\<close> is the tree \<open>t\<close>.
  \<open>arena_inv\<close> is the invariant of the decoder state and \<open>grown\<close> how a state may change while an item is read:
  tables only get longer, and new containers use slots of \<open>kids\<close> reserved since.  With them, a node once built
  keeps its meaning, also while the slots of the containers around it are still being filled.
\<close>

subsection \<open>Trees in the arena\<close>

definition kidSlots :: "cnode \<Rightarrow> nat set" where
  "kidSlots n =
     (case item n of
        itArray \<Rightarrow> {ca n..<ca n + cb n}
      | itMap \<Rightarrow> {ca n..<ca n + 2 * cb n}
      | _ \<Rightarrow> {})"

definition validSpan :: "cborDecoder \<Rightarrow> cnode \<Rightarrow> bool" where
  "validSpan d n \<longleftrightarrow> (if chunked n then ca n < length (blobs d) else ca n + cb n \<le> length (data d))"

fun leaf :: "cborDecoder \<Rightarrow> cnode \<Rightarrow> ctree \<Rightarrow> bool" where
  "leaf d n CNull = (item n = itNull)"
| "leaf d n (CBool b) = (item n = (if b then itTrue else itFalse))"
| "leaf d n (CInt x) = (item n = itInt \<and> extra n = x)"
| "leaf d n (CUint x) = (item n = itUint \<and> extra n = x)"
| "leaf d n (CNegBig x) = (item n = itNegBig \<and> extra n = x)"
| "leaf d n (CFloat x) = (item n = itFloat \<and> extra n = x)"
| "leaf d n (CBig s) = (item n = itNumText \<and> cb n = 0 \<and> ca n < length (strs d) \<and> strs d ! ca n = s)"
| "leaf d n (CDecimal s e) =
     (item n = itNumText \<and> cb n = 1 \<and> ca n < length (strs d) \<and> strs d ! ca n = s \<and> extra n = e)"
| "leaf d n (CText s) = (item n = itText \<and> validSpan d n \<and> textOf d n = s)"
| "leaf d n (CBytes bs) = (item n = itBytes \<and> validSpan d n \<and> cnodeBytes d n = bs \<and> cb n = length bs)"
| "leaf d n (CInstant t) =
     (item n = itInstant \<and> unat (extra n) < length (times d) \<and> times d ! unat (extra n) = t)"
| "leaf d n (CDate x) = (item n = itDate \<and> extra n = x)"
| "leaf d n (CUUID bs) = (item n = itUUID \<and> validSpan d n \<and> cnodeBytes d n = bs \<and> cb n = length bs)"
| "leaf d n (CBadTag x) = (item n = itBadTag \<and> extra n = x)"
| "leaf d n (CArray ts) = False"
| "leaf d n (CMap ps) = False"

definition textNode :: "cborDecoder \<Rightarrow> nat \<Rightarrow> string \<Rightarrow> bool" where
  "textNode d i s \<longleftrightarrow> i < length (nodes d) \<and> leaf d (nodes d ! i) (CText s)"

inductive repr :: "cborDecoder \<Rightarrow> nat \<Rightarrow> ctree \<Rightarrow> bool" for d where
  leafI: "i < length (nodes d) \<Longrightarrow> leaf d (nodes d ! i) t \<Longrightarrow> repr d i t"
| arrayI: "i < length (nodes d) \<Longrightarrow> item (nodes d ! i) = itArray \<Longrightarrow> cb (nodes d ! i) = length ts \<Longrightarrow>
    ca (nodes d ! i) + length ts \<le> length (kids d) \<Longrightarrow>
    (\<And>j. j < length ts \<Longrightarrow> kids d ! (ca (nodes d ! i) + j) < i) \<Longrightarrow>
    (\<And>j. j < length ts \<Longrightarrow> repr d (kids d ! (ca (nodes d ! i) + j)) (ts ! j)) \<Longrightarrow> repr d i (CArray ts)"
| mapI: "i < length (nodes d) \<Longrightarrow> item (nodes d ! i) = itMap \<Longrightarrow> cb (nodes d ! i) = length ps \<Longrightarrow>
    ca (nodes d ! i) + 2 * length ps \<le> length (kids d) \<Longrightarrow>
    (\<And>j. j < length ps \<Longrightarrow> textNode d (kids d ! (ca (nodes d ! i) + 2 * j)) (fst (ps ! j))) \<Longrightarrow>
    (\<And>j. j < length ps \<Longrightarrow> kids d ! (ca (nodes d ! i) + 2 * j + 1) < i) \<Longrightarrow>
    (\<And>j. j < length ps \<Longrightarrow> repr d (kids d ! (ca (nodes d ! i) + 2 * j + 1)) (snd (ps ! j))) \<Longrightarrow>
    repr d i (CMap ps)"

inductive_cases repr_leafE: "repr d i t"
inductive_cases repr_arrayE: "repr d i (CArray ts)"
inductive_cases repr_mapE: "repr d i (CMap ps)"

fun itemOf :: "ctree \<Rightarrow> cborItem" where
  "itemOf CNull = itNull"
| "itemOf (CBool b) = (if b then itTrue else itFalse)"
| "itemOf (CInt _) = itInt"
| "itemOf (CUint _) = itUint"
| "itemOf (CNegBig _) = itNegBig"
| "itemOf (CFloat _) = itFloat"
| "itemOf (CBig _) = itNumText"
| "itemOf (CDecimal _ _) = itNumText"
| "itemOf (CText _) = itText"
| "itemOf (CBytes _) = itBytes"
| "itemOf (CInstant _) = itInstant"
| "itemOf (CDate _) = itDate"
| "itemOf (CUUID _) = itUUID"
| "itemOf (CBadTag _) = itBadTag"
| "itemOf (CArray _) = itArray"
| "itemOf (CMap _) = itMap"

lemma leaf_item: "leaf d n t \<Longrightarrow> item n = itemOf t"
  by (cases t) auto

lemma repr_item: "repr d i t \<Longrightarrow> i < length (nodes d) \<and> item (nodes d ! i) = itemOf t"
  by (auto elim!: repr.cases dest: leaf_item)

lemma repr_leaf: "repr d i t \<Longrightarrow> itemOf t \<noteq> itArray \<Longrightarrow> itemOf t \<noteq> itMap \<Longrightarrow> leaf d (nodes d ! i) t"
  by (auto elim: repr.cases)

lemma repr_text: "repr d i (CText s) \<Longrightarrow> textNode d i s"
  using repr_leaf [of d i "CText s"] repr_item [of d i "CText s"] by (simp add: textNode_def)

subsection \<open>How the state grows\<close>

definition sameTables :: "cborDecoder \<Rightarrow> cborDecoder \<Rightarrow> bool" where
  "sameTables d d' \<longleftrightarrow> data d' = data d \<and> prefix (nodes d) (nodes d') \<and> prefix (strs d) (strs d') \<and>
     prefix (blobs d) (blobs d') \<and> prefix (times d) (times d')"

definition grown :: "nat \<Rightarrow> cborDecoder \<Rightarrow> cborDecoder \<Rightarrow> bool" where
  "grown c d d' \<longleftrightarrow> sameTables d d' \<and> prefix (kids d) (kids d') \<and> pos d \<le> pos d' \<and>
     length (nodes d') + c + pos d \<le> length (nodes d) + pos d' \<and>
     length (times d') + c + pos d \<le> length (times d) + pos d' \<and>
     (\<forall>j. length (nodes d) \<le> j \<and> j < length (nodes d') \<longrightarrow>
        kidSlots (nodes d' ! j) \<subseteq> {length (kids d)..<length (kids d')})"

definition arena_inv :: "cborDecoder \<Rightarrow> bool" where
  "arena_inv d \<longleftrightarrow> pos d \<le> length (data d) \<and> length (data d) < 2 ^ 31 \<and>
     length (times d) \<le> pos d \<and> length (nodes d) \<le> pos d \<and>
     (\<forall>j < length (nodes d). kidSlots (nodes d ! j) \<subseteq> {..<length (kids d)})"

lemma prefix_nth: "prefix xs ys \<Longrightarrow> i < length xs \<Longrightarrow> ys ! i = xs ! i \<and> i < length ys"
  by (auto simp: prefix_def nth_append)

lemma sameTables_refl [simp]: "sameTables d d"
  by (simp add: sameTables_def)

lemma sameTables_trans: "sameTables d d' \<Longrightarrow> sameTables d' d'' \<Longrightarrow> sameTables d d''"
  unfolding sameTables_def using prefix_order.trans by fastforce

lemma leaf_same:
  assumes "leaf d n t" "sameTables d d'"
  shows "leaf d' n t"
proof -
  have p: "data d' = data d" "prefix (strs d) (strs d')" "prefix (blobs d) (blobs d')" "prefix (times d) (times d')"
    using assms(2) by (simp_all add: sameTables_def)
  have span: "validSpan d' n \<and> cnodeBytes d' n = cnodeBytes d n \<and> textOf d' n = textOf d n" if "validSpan d n"
    using that p(1) prefix_nth [OF p(3), of "ca n"]
    by (auto simp: validSpan_def cnodeBytes_def textOf_def split: if_splits)
  show ?thesis
    using assms(1) span prefix_nth [OF p(2), of "ca n"] prefix_nth [OF p(4), of "unat (extra n)"]
    by (cases t) auto
qed

lemma textNode_same: "textNode d i s \<Longrightarrow> sameTables d d' \<Longrightarrow> textNode d' i s"
  using leaf_same prefix_nth [of "nodes d" "nodes d'" i]
  by (auto simp: textNode_def sameTables_def simp del: leaf.simps)

lemma repr_frame:
  assumes "repr d i t" and same: "sameTables d d'"
    and slots: "\<And>j k. j < length (nodes d) \<Longrightarrow> k \<in> kidSlots (nodes d ! j) \<Longrightarrow> k < length (kids d') \<and> kids d' ! k = kids d ! k"
    and bound: "length (kids d) \<le> length (kids d')"
  shows "repr d' i t"
  using assms(1)
proof (induction rule: repr.induct)
  case (leafI i t)
  then show ?case
    using same prefix_nth [of "nodes d" "nodes d'" i] leaf_same [OF _ same] by (auto simp: sameTables_def intro: repr.leafI)
next
  case (arrayI i ts)
  have n: "nodes d' ! i = nodes d ! i" "i < length (nodes d')"
    using same prefix_nth [of "nodes d" "nodes d'" i] arrayI.hyps by (auto simp: sameTables_def)
  have "kids d' ! (ca (nodes d ! i) + j) = kids d ! (ca (nodes d ! i) + j)" if "j < length ts" for j
    using slots [OF arrayI.hyps(1)] that arrayI.hyps by (simp add: kidSlots_def)
  then show ?case using arrayI n bound by (intro repr.arrayI) simp_all
next
  case (mapI i ps)
  have n: "nodes d' ! i = nodes d ! i" "i < length (nodes d')"
    using same prefix_nth [of "nodes d" "nodes d'" i] mapI.hyps by (auto simp: sameTables_def)
  have k: "kids d' ! (ca (nodes d ! i) + 2 * j) = kids d ! (ca (nodes d ! i) + 2 * j)"
    "kids d' ! (ca (nodes d ! i) + 2 * j + 1) = kids d ! (ca (nodes d ! i) + 2 * j + 1)" if "j < length ps" for j
    using slots [OF mapI.hyps(1), of "ca (nodes d ! i) + 2 * j"] slots [OF mapI.hyps(1), of "ca (nodes d ! i) + 2 * j + 1"]
      that mapI.hyps by (simp_all add: kidSlots_def)
  show ?case
    using mapI n bound textNode_same [OF _ same] by (intro repr.mapI) (simp_all add: k k(2) [simplified])
qed

lemma grown_refl [simp]: "grown 0 d d"
  by (auto simp: grown_def)

lemma grown_trans:
  assumes "grown a d d'" "grown b d' d''"
  shows "grown (a + b) d d''"
proof -
  have "kidSlots (nodes d'' ! j) \<subseteq> {length (kids d)..<length (kids d'')}"
    if j: "length (nodes d) \<le> j" "j < length (nodes d'')" for j
  proof (cases "j < length (nodes d')")
    case True
    then have "nodes d'' ! j = nodes d' ! j"
      using assms(2) prefix_nth [of "nodes d'" "nodes d''" j] by (simp add: grown_def sameTables_def)
    then show ?thesis using assms True j by (fastforce simp: grown_def dest: prefix_length_le)
  next
    case False
    then have "kidSlots (nodes d'' ! j) \<subseteq> {length (kids d')..<length (kids d'')}"
      using assms(2) j by (simp add: grown_def)
    then show ?thesis using assms(1) by (fastforce simp: grown_def dest: prefix_length_le)
  qed
  then show ?thesis
    using assms sameTables_trans prefix_order.trans by (fastforce simp: grown_def)
qed

lemma grown_weaken: "grown a d d' \<Longrightarrow> b \<le> a \<Longrightarrow> grown b d d'"
  by (auto simp: grown_def)

lemma repr_grown:
  assumes "arena_inv d" "repr d i t" "grown c d d'"
  shows "repr d' i t"
proof (rule repr_frame [OF assms(2)])
  show "sameTables d d'" using assms(3) by (simp add: grown_def)
  show "length (kids d) \<le> length (kids d')" using assms(3) by (simp add: grown_def prefix_length_le)
  fix j k
  assume "j < length (nodes d)" "k \<in> kidSlots (nodes d ! j)"
  then have "k < length (kids d)" using assms(1) by (auto simp: arena_inv_def)
  then show "k < length (kids d') \<and> kids d' ! k = kids d ! k"
    using assms(3) prefix_nth [of "kids d" "kids d'" k] by (simp add: grown_def)
qed

subsection \<open>Reserved slots\<close>

text \<open>The state against the bytes left and the structures defined so far.\<close>

definition matches :: "cborDecoder \<Rightarrow> treeState \<Rightarrow> bool" where
  "matches d st \<longleftrightarrow> arena_inv d \<and> fst st = drop (pos d) (data d) \<and>
     (\<forall>k. rel_option (list_all2 (textNode d)) (structs d k) (snd st k))"

lemma matches_inv: "matches d st \<Longrightarrow> arena_inv d"
  by (simp add: matches_def)

lemma textNodes_same: "list_all2 (textNode d) is ss \<Longrightarrow> sameTables d d' \<Longrightarrow> list_all2 (textNode d') is ss"
  by (erule list_all2_mono) (rule textNode_same)

lemma structs_same:
  assumes "\<forall>k. rel_option (list_all2 (textNode d)) (f k) (g k)" "sameTables d d'"
  shows "\<forall>k. rel_option (list_all2 (textNode d')) (f k) (g k)"
proof
  fix k
  show "rel_option (list_all2 (textNode d')) (f k) (g k)"
    using assms(1) [rule_format, of k] by (rule option.rel_mono_strong) (rule textNodes_same [OF _ assms(2)])
qed

text \<open>Slots \<open>lo\<close> to \<open>hi\<close> are reserved by a container that is being read since \<open>d0\<close>: no node uses them yet.\<close>

definition reserving :: "nat \<Rightarrow> cborDecoder \<Rightarrow> nat \<Rightarrow> nat \<Rightarrow> cborDecoder \<Rightarrow> treeState \<Rightarrow> bool" where
  "reserving c d0 lo hi d st \<longleftrightarrow> matches d st \<and> grown c d0 d \<and> length (kids d0) \<le> lo \<and> hi \<le> length (kids d) \<and>
     (\<forall>j < length (nodes d). kidSlots (nodes d ! j) \<inter> {lo..<hi} = {})"

lemma reserving_step:
  assumes r: "reserving c d0 lo hi d st" and g: "grown 0 d d'" and m: "matches d' st'"
  shows "reserving c d0 lo hi d' st'"
proof -
  have k: "length (kids d) \<le> length (kids d')" using g by (simp add: grown_def prefix_length_le)
  have "kidSlots (nodes d' ! j) \<inter> {lo..<hi} = {}" if j: "j < length (nodes d')" for j
  proof (cases "j < length (nodes d)")
    case True
    then show ?thesis
      using r g prefix_nth [of "nodes d" "nodes d'" j] by (simp add: reserving_def grown_def sameTables_def)
  next
    case False
    then have "kidSlots (nodes d' ! j) \<subseteq> {length (kids d)..<length (kids d')}" using g j by (simp add: grown_def)
    then show ?thesis using r by (auto simp: reserving_def)
  qed
  then show ?thesis using r m k grown_trans [OF _ g, of c d0] by (simp add: reserving_def)
qed

lemma reserving_write:
  fixes e :: nat
  assumes r: "reserving c d0 lo hi d st" and s: "lo \<le> s" "s < hi"
  defines "d' \<equiv> d\<lparr>kids := (kids d)[s := e]\<rparr>"
  shows "reserving c d0 lo hi d' st" and "repr d i t \<Longrightarrow> repr d' i t"
proof -
  have same: "sameTables d d'" by (simp add: d'_def sameTables_def)
  have "prefix (kids d0) ((kids d)[s := e])"
    using r s(1) by (auto simp: reserving_def grown_def prefix_def list_update_append)
  then have "grown c d0 d'"
    using r same sameTables_trans by (fastforce simp: reserving_def grown_def d'_def)
  moreover have "matches d' st"
    using r structs_same [OF _ same] by (auto simp: reserving_def matches_def arena_inv_def d'_def)
  ultimately show "reserving c d0 lo hi d' st" using r by (simp add: reserving_def d'_def)
  assume rep: "repr d i t"
  have slot: "k \<noteq> s \<and> k < length (kids d)" if "j < length (nodes d)" "k \<in> kidSlots (nodes d ! j)" for j k
    using r that s by (fastforce simp: reserving_def matches_def arena_inv_def)
  show "repr d' i t"
  proof (rule repr_frame [OF rep same])
    fix j k
    assume "j < length (nodes d)" "k \<in> kidSlots (nodes d ! j)"
    then show "k < length (kids d') \<and> kids d' ! k = kids d ! k" using slot [of j k] by (simp add: d'_def)
  qed (simp add: d'_def)
qed

lemma reserving_start:
  assumes "matches d st" "grown c d0 d"
  shows "reserving c d0 (length (kids d)) (length (kids d) + n) (d\<lparr>kids := kids d @ replicate n 0\<rparr>) st"
proof -
  let ?d = "d\<lparr>kids := kids d @ replicate n 0\<rparr>"
  have same: "sameTables d ?d" by (simp add: sameTables_def)
  have inv: "kidSlots (nodes d ! j) \<subseteq> {..<length (kids d)}" if "j < length (nodes d)" for j
    using assms(1) that by (simp add: matches_def arena_inv_def)
  have "matches ?d st"
    using assms(1) structs_same [OF _ same] by (fastforce simp: matches_def arena_inv_def)
  moreover have "grown c d0 ?d"
    using assms(2) sameTables_trans [OF _ same] by (fastforce simp: grown_def)
  ultimately show ?thesis
    using inv assms(2) by (fastforce simp: reserving_def grown_def dest: prefix_length_le)
qed

text \<open>Adding the node of the item that was started at \<open>d0\<close>, whose first byte pays for it.\<close>

lemma add_node:
  assumes m: "matches d st" and g: "grown 1 d0 d" and i0: "arena_inv d0"
    and slots: "kidSlots n \<subseteq> {length (kids d0)..<length (kids d)}"
    and same: "sameTables d d'" and n: "nodes d' = nodes d @ [n]"
    and eq: "kids d' = kids d" "pos d' = pos d" "structs d' = structs d" "length (times d') \<le> length (times d) + 1"
  shows "matches d' st" and "grown 0 d0 d'" and "repr d i t \<Longrightarrow> repr d' i t"
    and "length (nodes d0) < length (nodes d')"
proof -
  have dat: "data d' = data d" using same by (simp add: sameTables_def)
  have len: "length (nodes d) + 1 \<le> pos d" "length (times d) + 1 \<le> pos d"
    using g i0 by (auto simp: grown_def arena_inv_def)
  have k: "kidSlots (nodes d' ! j) \<subseteq> {..<length (kids d)}" if "j < length (nodes d')" for j
    using m slots that by (auto simp: matches_def arena_inv_def n nth_append less_Suc_eq split: if_splits)
  have "\<forall>k. rel_option (list_all2 (textNode d')) (structs d k) (snd st k)"
    using m by (intro structs_same [OF _ same]) (simp add: matches_def)
  then show "matches d' st"
    using m len k eq by (auto simp: matches_def arena_inv_def n dat)
  have "kidSlots (nodes d' ! j) \<subseteq> {length (kids d0)..<length (kids d)}"
    if "length (nodes d0) \<le> j" "j < length (nodes d')" for j
    using g slots that by (cases "j < length (nodes d)") (simp_all add: grown_def n nth_append)
  then show "grown 0 d0 d'"
    using g eq sameTables_trans [OF _ same] by (auto simp: grown_def n)
  show "length (nodes d0) < length (nodes d')"
    using g by (auto simp: grown_def sameTables_def n dest: prefix_length_le)
  assume rep: "repr d i t"
  show "repr d' i t"
    using m eq by (intro repr_frame [OF rep same]) (auto simp: matches_def arena_inv_def)
qed

end
