(* ===== verification/Cbor_Refine.thy ===== *)
theory Cbor_Refine
  imports Cbor_Arena
begin

text \<open>
  The arena decoder refines the tree reader: on every input below \<open>2^31\<close> bytes both return the same error, or
  the tree is what the returned node stands for.  \<open>simulates\<close> relates one call on each side; the proof follows
  the code function by function.
\<close>

subsection \<open>One call on each side\<close>

definition simulates ::
  "nat \<Rightarrow> cborDecoder \<Rightarrow> (cborDecoder \<Rightarrow> 'a \<Rightarrow> 'b \<Rightarrow> bool) \<Rightarrow> cbor_error + 'a \<times> cborDecoder \<Rightarrow>
     cbor_error + 'b \<times> treeState \<Rightarrow> bool" where
  "simulates c d Q m mT \<longleftrightarrow>
     (case mT of
        Inl e \<Rightarrow> m = Inl e \<and> e \<noteq> LoopFuel
      | Inr (y, st') \<Rightarrow> \<exists>x d'. m = Inr (x, d') \<and> matches d' st' \<and> grown c d d' \<and> Q d' x y)"

lemma sim_Inl: "e \<noteq> LoopFuel \<Longrightarrow> simulates c d Q (Inl e) (Inl e)"
  by (simp add: simulates_def)

lemma sim_Inr: "matches d' st' \<Longrightarrow> grown c d d' \<Longrightarrow> Q d' x y \<Longrightarrow> simulates c d Q (Inr (x, d')) (Inr (y, st'))"
  by (simp add: simulates_def)

lemma sim_bind:
  assumes "simulates a d Q m mT"
    and "\<And>x d' y st'. matches d' st' \<Longrightarrow> grown a d d' \<Longrightarrow> Q d' x y \<Longrightarrow> simulates c d0 Q2 (f (x, d')) (g (y, st'))"
  shows "simulates c d0 Q2 (bindR m f) (bindR mT g)"
proof (cases mT)
  case (Inl e)
  then show ?thesis using assms(1) by (simp add: simulates_def)
next
  case (Inr p)
  then obtain y st' where mT: "mT = Inr (y, st')" by (cases p) simp
  then obtain x d' where "m = Inr (x, d')" "matches d' st'" "grown a d d'" "Q d' x y"
    using assms(1) by (auto simp: simulates_def)
  then show ?thesis using assms(2) mT by simp
qed

lemma sim_if:
  assumes "b = b'" and "b' \<Longrightarrow> simulates c d Q m mT" and "\<not> b' \<Longrightarrow> simulates c d Q n nT"
  shows "simulates c d Q (if b then m else n) (if b' then mT else nT)"
  using assms by simp

lemma sim_bind_pure:
  assumes "k = k'" and "\<And>e. k' = Inl e \<Longrightarrow> e \<noteq> LoopFuel" and "\<And>u. k' = Inr u \<Longrightarrow> simulates c d Q (f u) (g u)"
  shows "simulates c d Q (bindR k f) (bindR k' g)"
  using assms by (cases k') (simp_all add: sim_Inl)

lemma sim_from:
  assumes "simulates b d' Q m mT" and "grown a d d'" and "c \<le> a + b"
  shows "simulates c d Q m mT"
  using assms(1) grown_weaken [OF grown_trans [OF assms(2)] assms(3)]
  by (auto simp: simulates_def split: sum.splits)

lemma matches_rest: "matches d st \<Longrightarrow> length (fst st) = remaining d"
  by (simp add: matches_def remaining_def)

lemma matches_hd: "matches d st \<Longrightarrow> fst st \<noteq> [] \<Longrightarrow> hd (fst st) = data d ! pos d"
  by (auto simp: matches_def hd_drop_conv_nth)

text \<open>Moving the read position.\<close>

lemma advance:
  assumes "matches d st" and "n \<le> length (fst st)"
  defines "d' \<equiv> d\<lparr>pos := pos d + n\<rparr>"
  shows "matches d' (drop n (fst st), snd st)" and "grown n d d'"
proof -
  have same: "sameTables d d'" by (simp add: d'_def sameTables_def)
  show "matches d' (drop n (fst st), snd st)"
    using assms(1,2) structs_same [OF _ same]
    by (auto simp: matches_def arena_inv_def d'_def add.commute)
  show "grown n d d'" using same by (auto simp: grown_def d'_def)
qed

lemma head_sim:
  assumes m: "matches d st"
  shows "simulates 1 d (\<lambda>_. (=)) (head d) (treeHead st)"
proof (cases "fst st")
  case Nil
  then show ?thesis
    using matches_rest [OF m] by (cases st) (simp add: head_def treeHead_def sim_Inl)
next
  case (Cons b rest)
  have b: "data d ! pos d = b" using matches_hd [OF m] Cons by simp
  define d1 where "d1 = d\<lparr>pos := pos d + 1\<rparr>"
  have m1: "matches d1 (rest, snd st)" "grown 1 d d1"
    using advance [OF m, of 1] Cons by (simp_all add: d1_def)
  have r: "remaining d \<noteq> 0" using matches_rest [OF m] Cons by simp
  have d1r: "drop (pos d1) (data d1) = rest" "remaining d1 = length rest"
    using m1(1) matches_rest [OF m1(1)] by (simp_all add: matches_def)
  have big: "simulates 1 d (\<lambda>_. (=))
      (if remaining d1 < n then Inl UnexpectedEnd else Inr (x (take n (drop (pos d1) (data d1))), d1\<lparr>pos := pos d1 + n\<rparr>))
      (if length rest < n then Inl UnexpectedEnd else Inr (x (take n rest), drop n rest, snd st))"
    for n :: nat and x :: "bytes \<Rightarrow> byte \<times> byte \<times> 64 word \<times> bool"
  proof (cases "length rest < n")
    case False
    then show ?thesis
      using advance [OF m1(1), of n] grown_trans [OF m1(2), of n] d1r
      by (auto intro!: sim_Inr intro: grown_weaken)
  qed (simp add: d1r sim_Inl)
  obtain env where st: "st = (b # rest, env)" using Cons by (cases st) simp
  have d1: "\<not> remaining d < 1" "matches d1 (rest, env)" "grown 1 d d1" using r m1 st by simp_all
  show ?thesis
    unfolding st head_def treeHead_def Let_def prod.case list.case b d1_def [symmetric] if_not_P [OF d1(1)]
    by (intro sim_if refl sim_Inr sim_Inl d1 big [unfolded st snd_conv]) simp
qed

subsection \<open>Nodes without children\<close>

definition itemQ :: "cborDecoder \<Rightarrow> cborDecoder \<Rightarrow> nat \<Rightarrow> ctree \<Rightarrow> bool" where
  "itemQ d d' i t \<longleftrightarrow> repr d' i t \<and> length (nodes d) < length (nodes d')"

definition simItem :: "nat cborReader \<Rightarrow> ctree treeReader \<Rightarrow> bool" where
  "simItem rec recT \<longleftrightarrow> (\<forall>d st. matches d st \<longrightarrow> simulates 0 d (itemQ d) (rec d) (recT st))"

lemma simItemD: "simItem rec recT \<Longrightarrow> matches d st \<Longrightarrow> simulates 0 d (itemQ d) (rec d) (recT st)"
  unfolding simItem_def by blast

lemma consumes:
  assumes "matches d st" "matches d' st'" "grown 0 d d'" "length (nodes d) < length (nodes d')"
  shows "length (fst st') < length (fst st)"
  using assms by (auto simp: grown_def sameTables_def matches_def arena_inv_def)

lemma add_leaf_with:
  assumes m: "matches d st" and g: "grown 1 d0 d" and i0: "arena_inv d0" and same: "sameTables d d1"
    and eq: "nodes d1 = nodes d" "kids d1 = kids d" "pos d1 = pos d" "structs d1 = structs d"
      "length (times d1) \<le> length (times d) + 1"
    and slots: "kidSlots n = {}" and l: "leaf d1 n t"
  shows "simulates 0 d0 (itemQ d0) (Inr (add n d1)) (Inr (t, st))"
proof -
  let ?d = "d1\<lparr>nodes := nodes d1 @ [n]\<rparr>"
  have s1: "sameTables d1 ?d" by (simp add: sameTables_def)
  have s: "sameTables d ?d" using same s1 by (rule sameTables_trans)
  note a = add_node [OF m g i0 _ s, of n]
  have "leaf ?d n t" using l s1 by (rule leaf_same)
  then have "repr ?d (length (nodes d)) t" using eq(1) by (intro repr.leafI) simp_all
  then show ?thesis
    using a slots eq unfolding add_def by (intro sim_Inr) (simp_all add: itemQ_def)
qed

lemma add_leaf:
  assumes "matches d st" "grown 1 d0 d" "arena_inv d0" "kidSlots n = {}" "leaf d n t"
  shows "simulates 0 d0 (itemQ d0) (Inr (add n d)) (Inr (t, st))"
  using assms by (intro add_leaf_with) auto

lemma plain_leaf:
  assumes "matches d st" "grown 1 d0 d" "arena_inv d0" "it \<noteq> itArray" "it \<noteq> itMap" "leaf d (plainNode it x) t"
  shows "simulates 0 d0 (itemQ d0) (Inr (add (plainNode it x) d)) (Inr (t, st))"
  using assms by (intro add_leaf) (auto simp: kidSlots_def plainNode_def split: cborItem.split)

lemma addText_leaf:
  assumes "matches d st" "grown 1 d0 d" "arena_inv d0" "t = CBig s \<and> b = 0 \<or> t = CDecimal s x \<and> b = 1"
  shows "simulates 0 d0 (itemQ d0) (Inr (addText itNumText s b x d)) (Inr (t, st))"
  unfolding addText_def Let_def
  using assms by (intro add_leaf_with [of d]) (auto simp: sameTables_def kidSlots_def)

lemma addInstant_leaf:
  assumes m: "matches d st" and "grown 1 d0 d" "arena_inv d0"
  shows "simulates 0 d0 (itemQ d0) (Inr (addInstant x d)) (Inr (CInstant x, st))"
proof -
  have "length (times d) < 2 ^ 64" using m by (auto simp: matches_def arena_inv_def)
  then have "unat (word_of_nat (length (times d)) :: 64 word) = length (times d)"
    by (simp add: unat_of_nat take_bit_nat_eq_self_iff)
  then show ?thesis
    unfolding addInstant_def Let_def
    using assms by (intro add_leaf_with [of d]) (auto simp: plainNode_def sameTables_def kidSlots_def)
qed

lemma int_sim:
  assumes "matches d st" "grown 1 d0 d" "arena_inv d0"
  shows "simulates 0 d0 (itemQ d0) (intItem val indef d) (bindR (treeInt val indef) (\<lambda>t. Inr (t, st)))"
    and "simulates 0 d0 (itemQ d0) (negIntItem val indef d) (bindR (treeNegInt val indef) (\<lambda>t. Inr (t, st)))"
    and "simulates 0 d0 (itemQ d0) (simpleItem ai val indef d) (bindR (treeSimple ai val indef) (\<lambda>t. Inr (t, st)))"
  using assms
  by (auto simp: intItem_def treeInt_def negIntItem_def treeNegInt_def simpleItem_def treeSimple_def plainNode_def
      intro!: sim_Inl plain_leaf [unfolded plainNode_def])


subsection \<open>Strings\<close>

lemma consumes_byte:
  assumes "matches d st" "matches d' st'" "grown 1 d d'"
  shows "length (fst st') < length (fst st)"
  using assms by (auto simp: grown_def sameTables_def matches_def arena_inv_def dest!: prefix_length_le)

lemma at_break:
  assumes m: "matches d st" and ne: "\<not> length (fst st) < 1" and q: "Q (d\<lparr>pos := pos d + 1\<rparr>) x y"
  shows "simulates 0 d Q (Inr (x, d\<lparr>pos := pos d + 1\<rparr>)) (Inr (y, tl (fst st), snd st))"
  using advance [OF m, of 1] ne q by (intro sim_Inr) (auto simp: drop_Suc intro: grown_weaken)

lemma chunkLoop_sim:
  "matches d st \<Longrightarrow> length (fst st) < fuel \<Longrightarrow>
     simulates 0 d (\<lambda>_. (=)) (chunkLoop fuel major acc d) (treeChunks fuel major acc st)"
proof (induction fuel arbitrary: d st acc)
  case (Suc fuel)
  note m = Suc.prems(1)
  have eqs: "(remaining d < 1) = (length (fst st) < 1)" using matches_rest [OF m] by simp
  have b: "(data d ! pos d = 0xFF) = (hd (fst st) = 0xFF)" if "\<not> length (fst st) < 1"
    using matches_hd [OF m] that by auto
  have next_chunk: "simulates 0 d (\<lambda>_. (=)) (chunkLoop fuel major acc' (d1\<lparr>pos := pos d1 + n\<rparr>))
      (treeChunks fuel major acc' (drop n (fst st1), snd st1))"
    if m1: "matches d1 st1" "grown 1 d d1" and n: "n \<le> length (fst st1)" for acc' d1 st1 n
  proof (rule sim_from [OF Suc.IH])
    show "matches (d1\<lparr>pos := pos d1 + n\<rparr>) (drop n (fst st1), snd st1)" using advance [OF m1(1) n] by simp
    show "length (fst (drop n (fst st1), snd st1)) < fuel" using consumes_byte [OF m m1] Suc.prems(2) by simp
    show "grown (1 + n) d (d1\<lparr>pos := pos d1 + n\<rparr>)" using grown_trans [OF m1(2) advance(2) [OF m1(1) n]] .
  qed simp
  show ?case
    unfolding chunkLoop.simps treeChunks.simps
  proof (intro sim_if sim_Inl eqs b at_break [OF m] refl sim_bind [OF head_sim [OF m]], goal_cases)
    case (4 x d1 y st1)
    obtain mj ai n ind where y: "y = (mj, ai, n, ind)" by (cases y)
    have r: "remaining d1 = length (fst st1)" "drop (pos d1) (data d1) = fst st1"
      using 4 matches_rest [of d1 st1] by (simp_all add: matches_def)
    show ?case
      unfolding 4(5) y prod.case Let_def r using 4 by (intro sim_if sim_Inl refl next_chunk) simp_all
  qed simp_all
qed simp

lemma string_sim:
  assumes m: "matches d st" and g: "grown 1 d0 d" and i0: "arena_inv d0" and mj: "major = 2 \<or> major = 3"
  shows "simulates 0 d0 (itemQ d0) (stringItem major len indef d) (treeString major len indef st)"
proof (cases indef)
  case True
  have chunks: "simulates 1 d0 (\<lambda>_. (=)) (chunkLoop (Suc (remaining d)) major [] d)
      (treeChunks (Suc (length (fst st))) major [] st)"
    unfolding matches_rest [OF m, symmetric] by (rule sim_from [OF chunkLoop_sim [OF m] g]) simp_all
  have "simulates 0 d0 (itemQ d0)
      (Inr (add \<lparr>item = if major = 3 then itText else itBytes, chunked = True,
         ca = length (blobs (d1\<lparr>blobs := blobs d1 @ [s]\<rparr>)) - 1, cb = length s, extra = 0\<rparr> (d1\<lparr>blobs := blobs d1 @ [s]\<rparr>)))
      (Inr (stringTree major s, st1))" if "matches d1 st1" "grown 1 d0 d1" for d1 st1 s
    using that i0 mj
    by (intro add_leaf_with [of d1])
       (auto simp: sameTables_def kidSlots_def stringTree_def validSpan_def cnodeBytes_def textOf_def)
  then show ?thesis
    using True unfolding stringItem_def treeString_def Let_def
    by (simp only: not_True_eq_False if_False) (rule sim_bind [OF chunks], auto)
next
  case False
  have r: "remaining d = length (fst st)" "drop (pos d) (data d) = fst st"
    using m matches_rest [OF m] by (simp_all add: matches_def)
  have "simulates 0 d0 (itemQ d0)
      (Inr (add (spanNode (if major = 3 then itText else itBytes) (pos d) (unat len)) (d\<lparr>pos := pos d + unat len\<rparr>)))
      (Inr (stringTree major (take (unat len) (fst st)), drop (unat len) (fst st), snd st))"
    if fits: "unat len \<le> length (fst st)"
  proof (rule add_leaf)
    let ?d = "d\<lparr>pos := pos d + unat len\<rparr>" and ?n = "spanNode (if major = 3 then itText else itBytes) (pos d) (unat len)"
    show "matches ?d (drop (unat len) (fst st), snd st)" by (rule advance(1) [OF m fits])
    show "grown 1 d0 ?d" using grown_weaken [OF grown_trans [OF g advance(2) [OF m fits]]] by simp
    show "kidSlots ?n = {}" by (simp add: kidSlots_def spanNode_def)
    have "pos d + unat len \<le> length (data d)" using m fits r(1) by (auto simp: matches_def arena_inv_def remaining_def)
    then show "leaf ?d ?n (stringTree major (take (unat len) (fst st)))"
      using mj fits r(2) by (auto simp: stringTree_def validSpan_def cnodeBytes_def textOf_def spanNode_def)
  qed (rule i0)
  then show ?thesis
    using False r unfolding stringItem_def treeString_def Let_def
    by (simp only: not_False_eq_True if_True) (intro sim_if sim_Inl refl; simp)
qed


subsection \<open>Arrays\<close>

lemma sim_result:
  assumes "simulates c d Q m mT" and "\<And>d' x y. Q d' x y \<Longrightarrow> Q2 d' x (h y)"
  shows "simulates c d Q2 m (bindR mT (\<lambda>(y, st). Inr (h y, st)))"
  using assms by (auto simp: simulates_def split: sum.splits)

lemma append_kids:
  fixes ks :: "nat list"
  assumes m: "matches d st" and g: "grown c d0 d"
  defines "d' \<equiv> d\<lparr>kids := kids d @ ks\<rparr>"
  shows "matches d' st" and "grown c d0 d'" and "repr d i t \<Longrightarrow> repr d' i t" and "textNode d i s \<Longrightarrow> textNode d' i s"
proof -
  have same: "sameTables d d'" by (simp add: d'_def sameTables_def)
  have slots: "kidSlots (nodes d ! j) \<subseteq> {..<length (kids d)}" if "j < length (nodes d)" for j
    using m that by (simp add: matches_def arena_inv_def)
  show "matches d' st"
    using m slots structs_same [OF _ same, of "structs d" "snd st"] by (fastforce simp: matches_def arena_inv_def d'_def)
  show "grown c d0 d'" using g sameTables_trans [OF _ same] by (fastforce simp: grown_def d'_def)
  show "textNode d i s \<Longrightarrow> textNode d' i s" by (rule textNode_same [OF _ same])
  assume rep: "repr d i t"
  show "repr d' i t"
    by (rule repr_frame [OF rep same]) (use slots in \<open>fastforce simp: d'_def nth_append\<close>)+
qed

lemma add_array:
  assumes m: "matches d st" and g: "grown 1 d0 d" and i0: "arena_inv d0" and lo: "length (kids d0) \<le> a"
    and hi: "a + length ts \<le> length (kids d)" and r: "\<And>j. j < length ts \<Longrightarrow> repr d (kids d ! (a + j)) (ts ! j)"
  shows "simulates 0 d0 (itemQ d0) (Inr (add (spanNode itArray a (length ts)) d)) (Inr (CArray ts, st))"
proof -
  let ?n = "spanNode itArray a (length ts)"
  let ?d = "d\<lparr>nodes := nodes d @ [?n]\<rparr>"
  have s: "sameTables d ?d" by (simp add: sameTables_def)
  have slots: "kidSlots ?n \<subseteq> {length (kids d0)..<length (kids d)}" using lo hi by (auto simp: kidSlots_def spanNode_def)
  note a = add_node [OF m g i0 slots s]
  have "repr ?d (length (nodes d)) (CArray ts)"
    using hi r a(3) repr_item [OF r] by (intro repr.arrayI) (simp_all add: spanNode_def)
  then show ?thesis unfolding add_def using a by (intro sim_Inr) (simp_all add: itemQ_def)
qed

lemma fillSlots_sim:
  assumes "simItem rec recT"
  shows "reserving c d0 lo hi d st \<Longrightarrow> lo + length acc + n = hi \<Longrightarrow>
    (\<And>j. j < length acc \<Longrightarrow> repr d (kids d ! (lo + j)) (acc ! j)) \<Longrightarrow>
    simulates c d0 (\<lambda>d' _ ts. hi \<le> length (kids d') \<and> length ts = n \<and>
        (\<forall>j < length acc + n. repr d' (kids d' ! (lo + j)) ((acc @ ts) ! j)))
      (fillSlots rec (lo + length acc) n d) (treeElems recT n st)"
proof (induction n arbitrary: d st acc)
  case 0
  then show ?case by (auto simp: reserving_def nth_append intro!: sim_Inr)
next
  case (Suc n)
  have m: "matches d st" and g: "grown c d0 d" using Suc.prems(1) by (simp_all add: reserving_def)
  show ?case
    unfolding fillSlots.simps treeElems.simps
  proof (rule sim_bind [OF simItemD [OF assms m]], goal_cases)
    case (1 e d1 t st1)
    let ?s = "lo + length acc" and ?d = "d1\<lparr>kids := (kids d1)[lo + length acc := e]\<rparr>"
    have res: "reserving c d0 lo hi d1 st1" using reserving_step [OF Suc.prems(1) 1(2,1)] .
    have s: "lo \<le> ?s" "?s < hi" "?s < length (kids d1)" using Suc.prems(2) res by (simp_all add: reserving_def)
    note w = reserving_write [where e = e, OF res s(1,2)]
    have rest: "repr ?d (kids ?d ! (lo + j)) ((acc @ [t]) ! j)" if j: "j < length (acc @ [t])" for j
    proof (cases "j < length acc")
      case True
      have "kids d1 ! (lo + j) = kids d ! (lo + j)"
        using 1(2) prefix_nth [of "kids d" "kids d1" "lo + j"] True Suc.prems(1,2) by (simp add: grown_def reserving_def)
      then have "repr d1 (kids d1 ! (lo + j)) (acc ! j)"
        using Suc.prems(3) [OF True] repr_grown [OF matches_inv [OF m] _ 1(2)] by simp
      then show ?thesis using w(2) True by (simp add: nth_append)
    next
      case False
      then have "j = length acc" using j by simp
      then show ?thesis using 1(3) s w(2) by (simp add: itemQ_def)
    qed
    show ?case
      unfolding prod.case
      using Suc.IH [OF w(1), of "acc @ [t]"] Suc.prems(2) rest
      by (intro sim_result [where Q = "\<lambda>d' _ ts. hi \<le> length (kids d') \<and> length ts = n \<and>
          (\<forall>j < length (acc @ [t]) + n. repr d' (kids d' ! (lo + j)) (((acc @ [t]) @ ts) ! j))"]) simp_all
  qed
qed


lemma elems_sim:
  assumes "simItem rec recT"
  shows "matches d st \<Longrightarrow> length (fst st) < fuel \<Longrightarrow> list_all2 (repr d) es acc \<Longrightarrow>
    simulates 0 d (\<lambda>d'. list_all2 (repr d')) (elemsUntilBreak fuel rec es d) (treeUntilBreak fuel recT acc st)"
proof (induction fuel arbitrary: d st es acc)
  case (Suc fuel)
  note m = Suc.prems(1)
  have eqs: "(remaining d < 1) = (length (fst st) < 1)" using matches_rest [OF m] by simp
  have b: "(data d ! pos d = 0xFF) = (hd (fst st) = 0xFF)" if "\<not> length (fst st) < 1"
    using matches_hd [OF m] that by auto
  have kept: "list_all2 (repr d') es acc" if "grown c d d'" for c d'
    using Suc.prems(3) by (rule list_all2_mono) (rule repr_grown [OF matches_inv [OF m] _ that])
  show ?case
    unfolding elemsUntilBreak.simps treeUntilBreak.simps
  proof (intro sim_if sim_Inl eqs b at_break [OF m] sim_bind [OF simItemD [OF assms m]], goal_cases)
    case 4
    then show ?case using kept [OF advance(2) [OF m, of 1]] by (cases "fst st") simp_all
  next
    case (5 e d1 t st1)
    then have "length (nodes d) < length (nodes d1)" "repr d1 e t" by (simp_all add: itemQ_def)
    then have "simulates 0 d1 (\<lambda>d'. list_all2 (repr d')) (elemsUntilBreak fuel rec (es @ [e]) d1)
        (treeUntilBreak fuel recT (acc @ [t]) st1)"
      using Suc.IH 5(3) consumes [OF m 5(3,4)] Suc.prems(2) kept [OF 5(4)] by (simp add: list_all2_appendI)
    then show ?case unfolding prod.case by (rule sim_from [OF _ 5(4)]) simp
  qed simp_all
qed simp

lemma array_sim:
  assumes rec: "depth < cborMaxDepth \<Longrightarrow> simItem (rec (depth + 1)) (recT (depth + 1))"
    and m: "matches d st" and g: "grown 1 d0 d" and i0: "arena_inv d0"
  shows "simulates 0 d0 (itemQ d0) (arrayItem rec n indef depth d) (treeArray recT n indef depth st)"
  unfolding arrayItem_def treeArray_def
proof (intro sim_if refl sim_Inl, goal_cases)
  case 2
  then have r: "simItem (rec (depth + 1)) (recT (depth + 1))" using rec by simp
  have "simulates 1 d0 (\<lambda>d'. list_all2 (repr d')) (elemsUntilBreak (Suc (remaining d)) (rec (depth + 1)) [] d)
      (treeUntilBreak (Suc (length (fst st))) (recT (depth + 1)) [] st)"
    unfolding matches_rest [OF m, symmetric] by (rule sim_from [OF elems_sim [OF r m] g]) simp_all
  then show ?case
  proof (rule sim_bind, goal_cases)
    case (1 es d1 ts st1)
    note k = append_kids [OF 1(1,2), where ks = es]
    have "length es = length ts" using 1(3) by (rule list_all2_lengthD)
    moreover have "repr (d1\<lparr>kids := kids d1 @ es\<rparr>) ((kids d1 @ es) ! (length (kids d1) + j)) (ts ! j)" if "j < length ts" for j
      using k(3) list_all2_nthD2 [OF 1(3) that] by simp
    ultimately show ?case
      using add_array [OF k(1,2) i0, of "length (kids d1)" ts] 1(2) by (auto simp: grown_def dest: prefix_length_le)
  qed
next
  case 3
  then have r: "simItem (rec (depth + 1)) (recT (depth + 1))" using rec by simp
  have c: "countFits n 1 d = treeCount n 1 st" using matches_rest [OF m] by (simp add: countFits_def treeCount_def)
  let ?lo = "length (kids d)"
  show ?case
  proof (rule sim_bind_pure [OF c], goal_cases)
    case (2 u)
    have res: "reserving 1 d0 ?lo (?lo + unat n) (d\<lparr>kids := kids d @ replicate (unat n) 0\<rparr>) st"
      using reserving_start [OF m g] .
    have "simulates 1 d0 (\<lambda>d' _ ts. ?lo + unat n \<le> length (kids d') \<and> length ts = unat n \<and>
          (\<forall>j < unat n. repr d' (kids d' ! (?lo + j)) (ts ! j)))
        (fillSlots (rec (depth + 1)) ?lo (unat n) (d\<lparr>kids := kids d @ replicate (unat n) 0\<rparr>))
        (treeElems (recT (depth + 1)) (unat n) st)"
      using fillSlots_sim [OF r res, of "[]" "unat n"] by simp
    then show ?case
      unfolding Let_def
    proof (rule sim_bind, goal_cases)
      case (1 u d1 ts st1)
      then have "?lo + length ts \<le> length (kids d1)" "length ts = unat n"
        "\<And>j. j < length ts \<Longrightarrow> repr d1 (kids d1 ! (?lo + j)) (ts ! j)" by simp_all
      then show ?case
        using add_array [OF 1(1) _ i0, of ?lo ts] 1(2) g by (auto simp: grown_def dest: prefix_length_le)
    qed
  qed (auto simp: treeCount_def guardR_def split: if_splits)
qed simp_all


subsection \<open>Maps\<close>

definition pairsAt :: "cborDecoder \<Rightarrow> nat list \<Rightarrow> nat \<Rightarrow> (string \<times> ctree) list \<Rightarrow> bool" where
  "pairsAt d ks a ps \<longleftrightarrow>
     (\<forall>j < length ps. textNode d (ks ! (a + 2 * j)) (fst (ps ! j)) \<and> repr d (ks ! (a + 2 * j + 1)) (snd (ps ! j)))"

lemma seenBefore_distinct: "seenBefore seen ks \<longleftrightarrow> \<not> (distinct ks \<and> set seen \<inter> set ks = {})"
  by (induction ks arbitrary: seen) auto

lemma distinct_pairwise: "\<not> list_ex (\<lambda>i. list_ex (\<lambda>j. xs ! i = xs ! j) [0..<i]) [1..<length xs] \<longleftrightarrow> distinct xs"
proof -
  have "list_ex (\<lambda>i. list_ex (\<lambda>j. xs ! i = xs ! j) [0..<i]) [1..<length xs] \<longleftrightarrow>
      (\<exists>i < length xs. \<exists>j < i. xs ! i = xs ! j)"
    by (fastforce simp: list_ex_iff)
  then show ?thesis
    by (auto simp: distinct_conv_nth) (metis linorder_neqE_nat)+
qed

lemma checkDistinctKeys_eq:
  assumes p: "pairsAt d (kids d) a ps"
  shows "checkDistinctKeys a (length ps) d = guardR (distinct (map fst ps)) DuplicateKey"
proof -
  have key: "textOf d (nodes d ! (kids d ! (a + 2 * i))) = map fst ps ! i" if "i < length ps" for i
    using p that by (simp add: pairsAt_def textNode_def)
  have "list_ex (\<lambda>i. list_ex (\<lambda>j. textOf d (nodes d ! (kids d ! (a + 2 * i))) =
        textOf d (nodes d ! (kids d ! (a + 2 * j)))) [0..<i]) [1..<length ps] \<longleftrightarrow>
      list_ex (\<lambda>i. list_ex (\<lambda>j. map fst ps ! i = map fst ps ! j) [0..<i]) [1..<length (map fst ps)]"
    using key by (fastforce simp: list_ex_iff)
  then have "(\<not> list_ex (\<lambda>i. list_ex (\<lambda>j. textOf d (nodes d ! (kids d ! (a + 2 * i))) =
        textOf d (nodes d ! (kids d ! (a + 2 * j)))) [0..<i]) [1..<length ps]) = distinct (map fst ps)"
    by (simp only: distinct_pairwise)
  moreover have "map (\<lambda>i. textOf d (nodes d ! (kids d ! (a + 2 * i)))) [0..<length ps] = map fst ps"
    using key by (intro nth_equalityI) simp_all
  ultimately show ?thesis
    unfolding checkDistinctKeys_def Let_def by (simp only: seenBefore_distinct) simp
qed

lemma readPair_sim:
  assumes "simItem rec recT" and m: "matches d st"
  shows "simulates 0 d (\<lambda>d' (k, v) (s, t). textNode d' k s \<and> repr d' v t \<and> length (nodes d) < length (nodes d'))
    (readPair rec d) (treePair recT st)"
  unfolding readPair_def treePair_def
proof (rule sim_bind [OF simItemD [OF assms(1) m]], goal_cases)
  case (1 k d1 kt st1)
  then have r: "repr d1 k kt" "length (nodes d) < length (nodes d1)" by (simp_all add: itemQ_def)
  show ?case
  proof (cases "itemOf kt = itText")
    case True
    then obtain s where kt: "kt = CText s" by (cases kt) (auto split: if_splits)
    have it: "item (nodes d1 ! k) = itText" using repr_item [OF r(1)] True by simp
    show ?thesis
      unfolding prod.case kt ctree.case it
    proof (simp, rule sim_bind [OF simItemD [OF assms(1) 1(1)]], goal_cases)
      case (1 v d2 vt st2)
      then have "textNode d2 k s"
        using textNode_same [OF repr_text] r(1) kt by (simp add: grown_def)
      then show ?case
        using 1 r(2) grown_trans [OF \<open>grown 0 d d1\<close> 1(2)] by (auto simp: itemQ_def intro!: sim_Inr)
    qed
  next
    case False
    then show ?thesis
      using repr_item [OF r(1)] by (cases kt) (auto intro!: sim_Inl split: if_splits)
  qed
qed

lemma add_map:
  assumes m: "matches d st" and g: "grown 1 d0 d" and i0: "arena_inv d0" and lo: "length (kids d0) \<le> a"
    and hi: "a + 2 * length ps \<le> length (kids d)" and r: "pairsAt d (kids d) a ps"
  shows "simulates 0 d0 (itemQ d0) (Inr (add (spanNode itMap a (length ps)) d)) (Inr (CMap ps, st))"
proof -
  let ?n = "spanNode itMap a (length ps)"
  let ?d = "d\<lparr>nodes := nodes d @ [?n]\<rparr>"
  have s: "sameTables d ?d" by (simp add: sameTables_def)
  have slots: "kidSlots ?n \<subseteq> {length (kids d0)..<length (kids d)}" using lo hi by (auto simp: kidSlots_def spanNode_def)
  note a = add_node [OF m g i0 slots s]
  have "kids d ! (a + 2 * j + 1) < length (nodes d)" if "j < length ps" for j
    using r that repr_item unfolding pairsAt_def by blast
  then have "repr ?d (length (nodes d)) (CMap ps)"
    using hi r a(3) textNode_same [OF _ s] by (intro repr.mapI) (simp_all add: spanNode_def pairsAt_def)
  then show ?thesis unfolding add_def using a by (intro sim_Inr) (simp_all add: itemQ_def)
qed

lemma checked_map:
  assumes "matches d st" "grown 1 d0 d" "arena_inv d0" "length (kids d0) \<le> a" "a + 2 * length ps \<le> length (kids d)"
    "pairsAt d (kids d) a ps"
  shows "simulates 0 d0 (itemQ d0)
    (bindR (checkDistinctKeys a (length ps) d) (\<lambda>_. Inr (add (spanNode itMap a (length ps)) d)))
    (bindR (treeMapOf ps) (\<lambda>t. Inr (t, st)))"
  using add_map [OF assms] checkDistinctKeys_eq [OF assms(6)] by (simp add: treeMapOf_def sim_Inl)


lemma pairsAt_grown:
  assumes "arena_inv d" "grown c d d'" "pairsAt d (kids d) a ps" "a + 2 * length ps \<le> length (kids d)"
  shows "pairsAt d' (kids d') a ps"
  unfolding pairsAt_def
proof (intro allI impI)
  fix j
  assume j: "j < length ps"
  have p: "prefix (kids d) (kids d')" "sameTables d d'" using assms(2) by (simp_all add: grown_def)
  have "kids d' ! (a + 2 * j) = kids d ! (a + 2 * j)" "kids d' ! (a + 2 * j + 1) = kids d ! (a + 2 * j + 1)"
    using prefix_nth [OF p(1)] assms(4) j by simp_all
  then show "textNode d' (kids d' ! (a + 2 * j)) (fst (ps ! j)) \<and> repr d' (kids d' ! (a + 2 * j + 1)) (snd (ps ! j))"
    using assms(3) j textNode_same [OF _ p(2)] repr_grown [OF assms(1) _ assms(2)] by (simp add: pairsAt_def)
qed

text \<open>Storing a key and its value in the next two reserved slots.\<close>

lemma write_pair:
  assumes res: "reserving c d0 lo hi d st" and room: "lo + 2 * length acc + 2 \<le> hi"
    and p: "pairsAt d (kids d) lo acc" and k: "textNode d k s" and v: "repr d v t"
  defines "d' \<equiv> d\<lparr>kids := (kids d)[lo + 2 * length acc := k, lo + 2 * length acc + 1 := v]\<rparr>"
  shows "reserving c d0 lo hi d' st" and "pairsAt d' (kids d') lo (acc @ [(s, t)])" and "sameTables d d'"
proof -
  let ?s = "lo + 2 * length acc" and ?d1 = "d\<lparr>kids := (kids d)[lo + 2 * length acc := k]\<rparr>"
  have b: "lo \<le> ?s" "?s < hi" "lo \<le> ?s + 1" "?s + 1 < hi" using room by simp_all
  have len: "hi \<le> length (kids d)" using res by (simp add: reserving_def)
  note w1 = reserving_write [where e = k, OF res b(1,2)]
  note w2 = reserving_write [where e = v, OF w1(1) b(3,4), simplified]
  show same: "sameTables d d'" by (simp add: d'_def sameTables_def)
  show "reserving c d0 lo hi d' st" using w2(1) by (simp add: d'_def)
  have rep: "repr d i x \<Longrightarrow> repr d' i x" for i x using w1(2) w2(2) by (simp add: d'_def)
  show "pairsAt d' (kids d') lo (acc @ [(s, t)])"
    unfolding pairsAt_def
  proof (intro allI impI)
    fix j
    assume j: "j < length (acc @ [(s, t)])"
    show "textNode d' (kids d' ! (lo + 2 * j)) (fst ((acc @ [(s, t)]) ! j)) \<and>
        repr d' (kids d' ! (lo + 2 * j + 1)) (snd ((acc @ [(s, t)]) ! j))"
    proof (cases "j < length acc")
      case True
      then show ?thesis
        using p rep textNode_same [OF _ same] by (simp add: pairsAt_def nth_append d'_def)
    next
      case False
      then have "j = length acc" using j by simp
      then show ?thesis
        using k v rep textNode_same [OF _ same] len room by (simp add: d'_def nth_list_update)
    qed
  qed
qed

lemma fillPairs_sim:
  assumes "simItem rec recT"
  shows "reserving c d0 lo hi d st \<Longrightarrow> lo + 2 * (length acc + n) = hi \<Longrightarrow> pairsAt d (kids d) lo acc \<Longrightarrow>
    simulates c d0 (\<lambda>d' _ ps. hi \<le> length (kids d') \<and> length ps = n \<and> pairsAt d' (kids d') lo (acc @ ps))
      (fillPairs rec (lo + 2 * length acc) n d) (treePairs recT n st)"
proof (induction n arbitrary: d st acc)
  case 0
  then show ?case by (auto simp: reserving_def intro!: sim_Inr)
next
  case (Suc n)
  have m: "matches d st" using Suc.prems(1) by (simp add: reserving_def)
  show ?case
    unfolding fillPairs.simps treePairs.simps
  proof (rule sim_bind [OF readPair_sim [OF assms m]], goal_cases)
    case (1 kv d1 p st1)
    obtain k v s t where kv: "kv = (k, v)" "p = (s, t)" by (cases kv, cases p)
    have res: "reserving c d0 lo hi d1 st1" using reserving_step [OF Suc.prems(1) 1(2,1)] .
    have "pairsAt d1 (kids d1) lo acc"
      using pairsAt_grown [OF matches_inv [OF m] 1(2) Suc.prems(3)] Suc.prems(1,2) by (simp add: reserving_def)
    then have "reserving c d0 lo hi (d1\<lparr>kids := (kids d1)[lo + 2 * length acc := k, lo + 2 * length acc + 1 := v]\<rparr>) st1"
      "pairsAt (d1\<lparr>kids := (kids d1)[lo + 2 * length acc := k, lo + 2 * length acc + 1 := v]\<rparr>)
        ((kids d1)[lo + 2 * length acc := k, lo + 2 * length acc + 1 := v]) lo (acc @ [(s, t)])"
      using write_pair [OF res, of acc k s v t] 1(3) Suc.prems(2) kv by simp_all
    then show ?case
      unfolding kv prod.case using Suc.IH [of _ st1 "acc @ [(s, t)]"] Suc.prems(2)
      by (intro sim_result [where Q = "\<lambda>d' _ ps. hi \<le> length (kids d') \<and> length ps = n \<and>
          pairsAt d' (kids d') lo ((acc @ [(s, t)]) @ ps)"]) simp_all
  qed
qed

lemma fillValues_sim:
  assumes "simItem rec recT"
  shows "reserving c d0 lo hi d st \<Longrightarrow> lo + 2 * (length acc + length ks) = hi \<Longrightarrow> pairsAt d (kids d) lo acc \<Longrightarrow>
    list_all2 (textNode d) ks names \<Longrightarrow>
    simulates c d0 (\<lambda>d' _ ts. hi \<le> length (kids d') \<and> length ts = length ks \<and>
        pairsAt d' (kids d') lo (acc @ zip names ts))
      (fillValues rec (lo + 2 * length acc) ks d) (treeElems recT (length ks) st)"
proof (induction ks arbitrary: d st acc names)
  case Nil
  then show ?case by (auto simp: reserving_def intro!: sim_Inr)
next
  case (Cons k ks)
  have m: "matches d st" using Cons.prems(1) by (simp add: reserving_def)
  obtain s names' where nm: "names = s # names'" "textNode d k s" "list_all2 (textNode d) ks names'"
    using Cons.prems(4) by (auto simp: list_all2_Cons1)
  show ?case
    unfolding fillValues.simps length_Cons treeElems.simps
  proof (rule sim_bind [OF simItemD [OF assms m]], goal_cases)
    case (1 v d1 t st1)
    have same: "sameTables d d1" using 1(2) by (simp add: grown_def)
    have res: "reserving c d0 lo hi d1 st1" using reserving_step [OF Cons.prems(1) 1(2,1)] .
    have "pairsAt d1 (kids d1) lo acc"
      using pairsAt_grown [OF matches_inv [OF m] 1(2) Cons.prems(3)] Cons.prems(1,2) by (simp add: reserving_def)
    then have w: "reserving c d0 lo hi (d1\<lparr>kids := (kids d1)[lo + 2 * length acc := k, lo + 2 * length acc + 1 := v]\<rparr>) st1"
      "pairsAt (d1\<lparr>kids := (kids d1)[lo + 2 * length acc := k, lo + 2 * length acc + 1 := v]\<rparr>)
        ((kids d1)[lo + 2 * length acc := k, lo + 2 * length acc + 1 := v]) lo (acc @ [(s, t)])"
      "sameTables d1 (d1\<lparr>kids := (kids d1)[lo + 2 * length acc := k, lo + 2 * length acc + 1 := v]\<rparr>)"
      using write_pair [OF res, of acc k s v t] 1(3) Cons.prems(2) textNode_same [OF nm(2) same] by (simp_all add: itemQ_def)
    show ?case
      unfolding prod.case
      using Cons.IH [of _ st1 "acc @ [(s, t)]" names', OF w(1)] w(2) Cons.prems(2)
        textNodes_same [OF textNodes_same [OF nm(3) same] w(3)]
      by (intro sim_result [where Q = "\<lambda>d' _ ts. hi \<le> length (kids d') \<and> length ts = length ks \<and>
          pairsAt d' (kids d') lo ((acc @ [(s, t)]) @ zip names' ts)"]) (simp_all add: nm(1))
  qed
qed


lemma pairsAt_snoc:
  assumes "pairsAt d ks 0 ps" "length ks = 2 * length ps" "textNode d k s" "repr d v t"
  shows "pairsAt d (ks @ [k, v]) 0 (ps @ [(s, t)])"
  using assms by (auto simp: pairsAt_def nth_append less_Suc_eq)

lemma pairs_sim:
  assumes "simItem rec recT"
  shows "matches d st \<Longrightarrow> length (fst st) < fuel \<Longrightarrow> pairsAt d ks 0 ps \<Longrightarrow> length ks = 2 * length ps \<Longrightarrow>
    simulates 0 d (\<lambda>d' ks ps. pairsAt d' ks 0 ps \<and> length ks = 2 * length ps)
      (pairsUntilBreak fuel rec ks d) (treeUntilBreak fuel (treePair recT) ps st)"
proof (induction fuel arbitrary: d st ks ps)
  case (Suc fuel)
  note m = Suc.prems(1)
  have eqs: "(remaining d < 1) = (length (fst st) < 1)" using matches_rest [OF m] by simp
  have b: "(data d ! pos d = 0xFF) = (hd (fst st) = 0xFF)" if "\<not> length (fst st) < 1"
    using matches_hd [OF m] that by auto
  have kept: "pairsAt d' ks 0 ps" if g: "grown c d d'" for c d'
  proof -
    have same: "sameTables d d'" using g by (simp add: grown_def)
    show ?thesis
      using Suc.prems(3) textNode_same [OF _ same] repr_grown [OF matches_inv [OF m] _ g] by (simp add: pairsAt_def)
  qed
  show ?case
    unfolding pairsUntilBreak.simps treeUntilBreak.simps
  proof (intro sim_if sim_Inl eqs b at_break [OF m] sim_bind [OF readPair_sim [OF assms m]], goal_cases)
    case 4
    then show ?case using kept [OF advance(2) [OF m, of 1]] Suc.prems(4) by (cases "fst st") simp_all
  next
    case (5 kv d1 p st1)
    obtain k v s t where kv: "kv = (k, v)" "p = (s, t)" by (cases kv, cases p)
    have "simulates 0 d1 (\<lambda>d' ks ps. pairsAt d' ks 0 ps \<and> length ks = 2 * length ps)
        (pairsUntilBreak fuel rec (ks @ [k, v]) d1) (treeUntilBreak fuel (treePair recT) (ps @ [(s, t)]) st1)"
      using 5 kv consumes [OF m 5(3,4)] Suc.prems pairsAt_snoc [OF kept [OF 5(4)]] by (intro Suc.IH) simp_all
    then show ?case unfolding kv prod.case by (rule sim_from [OF _ 5(4)]) simp
  qed simp_all
qed simp

lemma map_sim:
  assumes rec: "depth < cborMaxDepth \<Longrightarrow> simItem (rec (depth + 1)) (recT (depth + 1))"
    and m: "matches d st" and g: "grown 1 d0 d" and i0: "arena_inv d0"
  shows "simulates 0 d0 (itemQ d0) (mapItem rec n indef depth d) (treeMap recT n indef depth st)"
  unfolding mapItem_def treeMap_def
proof (intro sim_if refl sim_Inl, goal_cases)
  case 2
  then have r: "simItem (rec (depth + 1)) (recT (depth + 1))" using rec by simp
  have "simulates 1 d0 (\<lambda>d' ks ps. pairsAt d' ks 0 ps \<and> length ks = 2 * length ps)
      (pairsUntilBreak (Suc (remaining d)) (rec (depth + 1)) [] d)
      (treeUntilBreak (Suc (length (fst st))) (treePair (recT (depth + 1))) [] st)"
    unfolding matches_rest [OF m, symmetric]
    by (rule sim_from [OF pairs_sim [OF r m] g]) (simp_all add: pairsAt_def)
  then show ?case
  proof (rule sim_bind, goal_cases)
    case (1 ks d1 ps st1)
    note k = append_kids [OF 1(1,2), where ks = ks]
    have "pairsAt (d1\<lparr>kids := kids d1 @ ks\<rparr>) (kids d1 @ ks) (length (kids d1)) ps"
      using 1(3) k(3,4) by (simp add: pairsAt_def nth_append)
    then show ?case
      using checked_map [OF k(1,2) i0, of "length (kids d1)" ps] 1(2,3) by (auto simp: grown_def Let_def dest: prefix_length_le)
  qed
next
  case 3
  then have r: "simItem (rec (depth + 1)) (recT (depth + 1))" using rec by simp
  have c: "countFits n 2 d = treeCount n 2 st" using matches_rest [OF m] by (simp add: countFits_def treeCount_def)
  let ?lo = "length (kids d)"
  show ?case
  proof (rule sim_bind_pure [OF c], goal_cases)
    case (2 u)
    have res: "reserving 1 d0 ?lo (?lo + 2 * unat n) (d\<lparr>kids := kids d @ replicate (2 * unat n) 0\<rparr>) st"
      using reserving_start [OF m g] .
    have "simulates 1 d0 (\<lambda>d' _ ps. ?lo + 2 * unat n \<le> length (kids d') \<and> length ps = unat n \<and> pairsAt d' (kids d') ?lo ps)
        (fillPairs (rec (depth + 1)) ?lo (unat n) (d\<lparr>kids := kids d @ replicate (2 * unat n) 0\<rparr>))
        (treePairs (recT (depth + 1)) (unat n) st)"
      using fillPairs_sim [OF r res, of "[]" "unat n"] by (simp add: pairsAt_def)
    then show ?case
      unfolding Let_def
    proof (rule sim_bind, goal_cases)
      case (1 u d1 ps st1)
      then show ?case
        using checked_map [OF 1(1) _ i0, of ?lo ps] g by (auto simp: grown_def dest: prefix_length_le)
    qed
  qed (auto simp: treeCount_def guardR_def split: if_splits)
qed simp_all

subsection \<open>Tags\<close>

lemma integerText_sim: "repr d i t \<Longrightarrow> integerText d (nodes d ! i) = treeIntegerText t"
  using repr_leaf [of d i t] repr_item [of d i t]
  by (cases t) (auto simp: integerText_def treeIntegerText_def split: if_splits)

lemma badTag_sim:
  assumes "matches d st" "grown 1 d0 d" "arena_inv d0"
  shows "simulates 0 d0 (itemQ d0) (badTag tag d) (Inr (CBadTag tag, st))"
  unfolding badTag_def using assms by (intro plain_leaf) (simp_all add: plainNode_def)

lemma tag_leaf:
  assumes "repr d c t"
  shows "item (nodes d ! c) = itemOf t" and "itemOf t \<noteq> itArray \<Longrightarrow> itemOf t \<noteq> itMap \<Longrightarrow> leaf d (nodes d ! c) t"
  using repr_item [OF assms] repr_leaf [OF assms] by simp_all

lemma bytes_tag_sim:
  assumes m: "matches d st" "grown 1 d0 d" "arena_inv d0" and r: "repr d c t"
  shows "tag = 2 \<or> tag = 3 \<Longrightarrow>
      simulates 0 d0 (itemQ d0) (bignumTag tag (nodes d ! c) d) (bindR (treeTag tp tag t) (\<lambda>t'. Inr (t', st)))"
    and "simulates 0 d0 (itemQ d0) (uuidTag (nodes d ! c) d) (bindR (treeTag tp 37 t) (\<lambda>t'. Inr (t', st)))"
proof -
  note l = tag_leaf [OF r] and bad = badTag_sim [OF m]
  show "simulates 0 d0 (itemQ d0) (bignumTag tag (nodes d ! c) d) (bindR (treeTag tp tag t) (\<lambda>t'. Inr (t', st)))"
    if "tag = 2 \<or> tag = 3"
    using that l bad
    by (cases t) (auto simp: bignumTag_def treeTag_def Let_def intro!: addText_leaf m)
  have u: "leaf d \<lparr>item = itUUID, chunked = chunked (nodes d ! c), ca = ca (nodes d ! c), cb = cb (nodes d ! c), extra = 0\<rparr> (CUUID bs)"
    if "t = CBytes bs" for bs
    using l that by (auto simp: validSpan_def cnodeBytes_def split: if_splits)
  show "simulates 0 d0 (itemQ d0) (uuidTag (nodes d ! c) d) (bindR (treeTag tp 37 t) (\<lambda>t'. Inr (t', st)))"
  proof (cases "\<exists>bs. t = CBytes bs \<and> length bs = 16")
    case True
    then obtain bs where t: "t = CBytes bs" "length bs = 16" by blast
    then show ?thesis
      using l u [OF t(1)] by (auto simp: uuidTag_def treeTag_def kidSlots_def intro!: add_leaf m)
  next
    case False
    then show ?thesis using l bad by (cases t) (auto simp: uuidTag_def treeTag_def)
  qed
qed

lemma time_tag_sim:
  assumes m: "matches d st" "grown 1 d0 d" "arena_inv d0" and r: "repr d c t"
  shows "simulates 0 d0 (itemQ d0) (dateTimeTag tp (nodes d ! c) d) (bindR (treeTag tp 0 t) (\<lambda>t'. Inr (t', st)))"
    and "simulates 0 d0 (itemQ d0) (epochTag (nodes d ! c) d) (bindR (treeTag tp 1 t) (\<lambda>t'. Inr (t', st)))"
    and "simulates 0 d0 (itemQ d0) (dateTag (nodes d ! c) d) (bindR (treeTag tp 100 t) (\<lambda>t'. Inr (t', st)))"
proof -
  note l = tag_leaf [OF r] and bad = badTag_sim [OF m] and inst = addInstant_leaf [OF m]
  show "simulates 0 d0 (itemQ d0) (dateTimeTag tp (nodes d ! c) d) (bindR (treeTag tp 0 t) (\<lambda>t'. Inr (t', st)))"
    using l bad inst by (cases t) (auto simp: dateTimeTag_def treeTag_def intro!: sim_Inl split: option.split)
  have "epochOfFloat f = Inl e \<Longrightarrow> e \<noteq> LoopFuel" for f e
    by (auto simp: epochOfFloat_def Let_def split: if_splits)
  then have "simulates 0 d0 (itemQ d0) (bindR (epochOfFloat f) (\<lambda>t. Inr (addInstant t d)))
      (bindR (bindR (epochOfFloat f) (\<lambda>y. Inr (CInstant y))) (\<lambda>t'. Inr (t', st)))" for f
    using inst by (cases "epochOfFloat f") (auto intro!: sim_Inl)
  then show "simulates 0 d0 (itemQ d0) (epochTag (nodes d ! c) d) (bindR (treeTag tp 1 t) (\<lambda>t'. Inr (t', st)))"
    using l bad inst by (cases t) (auto simp: epochTag_def treeTag_def intro!: sim_Inl)
  show "simulates 0 d0 (itemQ d0) (dateTag (nodes d ! c) d) (bindR (treeTag tp 100 t) (\<lambda>t'. Inr (t', st)))"
    using l bad plain_leaf [OF m, of itDate]
    by (cases t) (auto simp: dateTag_def treeTag_def plainNode_def)
qed

lemma decimal_tag_sim:
  assumes m: "matches d st" "grown 1 d0 d" "arena_inv d0" and r: "repr d c t"
  shows "simulates 0 d0 (itemQ d0) (decimalTag (nodes d ! c) d) (bindR (treeTag tp 4 t) (\<lambda>t'. Inr (t', st)))"
proof (cases "\<exists>e x. t = CArray [e, x]")
  case False
  have "item (nodes d ! c) \<noteq> itArray \<or> cb (nodes d ! c) \<noteq> 2"
  proof (cases "\<exists>ts. t = CArray ts")
    case True
    then obtain ts where ts: "t = CArray ts" by blast
    then have "cb (nodes d ! c) = length ts" using r by (auto elim: repr_arrayE)
    then show ?thesis using False ts by (auto simp: length_Suc_conv eval_nat_numeral)
  next
    case False
    then show ?thesis using tag_leaf(1) [OF r] by (cases t) auto
  qed
  then have n: "decimalTag (nodes d ! c) d = badTag 4 d" unfolding decimalTag_def by (rule if_P)
  have "treeTag tp 4 t = Inr (CBadTag 4)"
    using False by (auto simp: treeTag_def split: ctree.split list.split)
  then show ?thesis using n badTag_sim [OF m] by simp
next
  case True
  then obtain e x where t: "t = CArray [e, x]" by blast
  let ?n = "nodes d ! c"
  from r t have n: "item ?n = itArray" "cb ?n = 2" "\<And>j. j < 2 \<Longrightarrow> repr d (kids d ! (ca ?n + j)) ([e, x] ! j)"
    by (auto elim!: repr_arrayE)
  have e: "repr d (kids d ! ca ?n) e" and x: "repr d (kids d ! (ca ?n + 1)) x" using n(3) [of 0] n(3) [of 1] by simp_all
  have "decimalTag ?n d =
      (if itemOf e \<noteq> itInt then badTag 4 d
       else (case treeIntegerText x of None \<Rightarrow> badTag 4 d
             | Some text \<Rightarrow> Inr (addText itNumText text 1 (extra (nodes d ! (kids d ! ca ?n))) d)))"
    using n integerText_sim [OF x] tag_leaf(1) [OF e] by (simp add: decimalTag_def Let_def)
  then show ?thesis
    using tag_leaf [OF e] badTag_sim [OF m] t
    by (cases e) (auto simp: treeTag_def intro!: addText_leaf m split: option.split)
qed

lemma tag_sim:
  assumes "matches d st" "grown 1 d0 d" "arena_inv d0" "repr d c t"
  shows "simulates 0 d0 (itemQ d0) (tagContent tp tag (nodes d ! c) d) (bindR (treeTag tp tag t) (\<lambda>t'. Inr (t', st)))"
proof -
  have "treeTag tp tag t = Inr (CBadTag tag)"
    if "tag \<noteq> 0" "tag \<noteq> 1" "tag \<noteq> 2" "tag \<noteq> 3" "tag \<noteq> 4" "tag \<noteq> 37" "tag \<noteq> 100"
    using that by (simp add: treeTag_def)
  then show ?thesis
    using bytes_tag_sim [OF assms] time_tag_sim [OF assms] decimal_tag_sim [OF assms] badTag_sim [OF assms(1-3)]
    by (simp add: tagContent_def)
qed


subsection \<open>Structures\<close>

lemma readNames_sim:
  assumes "simItem rec recT"
  shows "matches d st \<Longrightarrow> simulates 0 d (\<lambda>d'. list_all2 (textNode d')) (readNames rec n d) (treeNameList recT n st)"
proof (induction n arbitrary: d st)
  case 0
  then show ?case by (auto intro!: sim_Inr)
next
  case (Suc n)
  show ?case
    unfolding readNames.simps treeNameList.simps
  proof (rule sim_bind [OF simItemD [OF assms Suc.prems]], goal_cases)
    case (1 k d1 kt st1)
    then have r: "repr d1 k kt" by (simp add: itemQ_def)
    show ?case
    proof (cases "\<exists>s. kt = CText s")
      case True
      then obtain s where kt: "kt = CText s" by blast
      have it: "item (nodes d1 ! k) = itText" "textNode d1 k s"
        using repr_item [OF r] repr_text r kt by simp_all
      show ?thesis
        unfolding prod.case kt ctree.case it(1)
      proof (simp, rule sim_bind [OF Suc.IH [OF 1(1)]], goal_cases)
        case (1 ks d2 ss st2)
        then have "textNode d2 k s" using textNode_same [OF it(2)] by (simp add: grown_def)
        then show ?case
          using 1 grown_trans [OF \<open>grown 0 d d1\<close> 1(2)] by (auto intro!: sim_Inr)
      qed
    next
      case False
      then show ?thesis
        using repr_item [OF r] by (cases kt) (auto intro!: sim_Inl)
    qed
  qed
qed

lemma names_text: "list_all2 (textNode d) ks ss \<Longrightarrow> map (\<lambda>k. textOf d (nodes d ! k)) ks = ss"
  by (induction rule: list_all2_induct) (simp_all add: textNode_def)

lemma structureNames_sim:
  assumes rec: "simItem (rec (depth + 1)) (recT (depth + 1))" and m: "matches d st"
  shows "simulates 0 d (\<lambda>d'. list_all2 (textNode d')) (structureNames rec depth d) (treeNames recT depth st)"
  unfolding structureNames_def treeNames_def
proof (rule sim_bind [OF head_sim [OF m]], goal_cases)
  case (1 x d1 y st1)
  obtain mj ai n ind where y: "y = (mj, ai, n, ind)" by (cases y)
  have c: "countFits n 1 d1 = treeCount n 1 st1"
    using matches_rest [OF 1(1)] by (simp add: countFits_def treeCount_def)
  have e: "treeCount n 1 st1 = Inl e \<Longrightarrow> e \<noteq> LoopFuel" for e
    by (auto simp: treeCount_def guardR_def split: if_splits)
  have names: "simulates 0 d (\<lambda>d'. list_all2 (textNode d'))
      (bindR (readNames (rec (depth + 1)) (unat n) d1) (\<lambda>(names, d2).
           if seenBefore [] (map (\<lambda>k. textOf d2 (nodes d2 ! k)) names) then Inl DuplicateName else Inr (names, d2)))
      (bindR (treeNameList (recT (depth + 1)) (unat n) st1) (\<lambda>(names, st2).
           if distinct names then Inr (names, st2) else Inl DuplicateName))"
  proof (rule sim_bind [OF readNames_sim [OF rec 1(1)]], goal_cases)
    case (1 ks d2 ss st2)
    have "grown 0 d d2" using grown_weaken [OF grown_trans [OF \<open>grown 1 d d1\<close> 1(2)]] by simp
    then show ?case
      using 1 names_text [OF 1(3)] by (auto simp: seenBefore_distinct intro!: sim_Inr sim_Inl)
  qed
  show ?case
    unfolding 1(3) y prod.case by (intro sim_if refl sim_Inl sim_bind_pure [OF c e] names) simp_all
qed

lemma define_structure:
  fixes i :: nat
  assumes m: "matches d st" and g: "grown c d0 d" and names: "list_all2 (textNode d) ks ss"
  defines "d' \<equiv> d\<lparr>structs := (structs d)(i := Some ks)\<rparr>"
  shows "matches d' (fst st, (snd st)(i := Some ss))" and "grown c d0 d'" and "list_all2 (textNode d') ks ss"
proof -
  have same: "sameTables d d'" by (simp add: d'_def sameTables_def)
  show names': "list_all2 (textNode d') ks ss" by (rule textNodes_same [OF names same])
  have "\<forall>k. rel_option (list_all2 (textNode d')) (structs d k) (snd st k)"
    using m by (intro structs_same [OF _ same]) (simp add: matches_def)
  then show "matches d' (fst st, (snd st)(i := Some ss))"
    using m names' by (auto simp: matches_def arena_inv_def d'_def)
  show "grown c d0 d'" using g sameTables_trans [OF _ same] by (auto simp: grown_def d'_def)
qed

lemma structureDef_sim:
  assumes rec: "simItem (rec (depth + 2)) (recT (depth + 2))" "simItem (rec (depth + 2 + 1)) (recT (depth + 2 + 1))"
    and m: "matches d st"
  shows "simulates 0 d (\<lambda>d'. list_all2 (textNode d')) (structureDef rec n depth d) (treeStructureDef recT n depth st)"
  unfolding structureDef_def treeStructureDef_def
proof (intro sim_if refl sim_Inl, simp, rule sim_bind [OF simItemD [OF rec(1) m]], goal_cases)
  case (1 c d1 t st1)
  then have r: "repr d1 c t" by (simp add: itemQ_def)
  show ?case
  proof (cases "\<exists>x. t = CInt x")
    case True
    then obtain x where t: "t = CInt x" by blast
    have it: "item (nodes d1 ! c) = itInt" "extra (nodes d1 ! c) = x" using tag_leaf [OF r] t by simp_all
    show ?thesis
      unfolding prod.case t ctree.case Let_def it
    proof (intro sim_if sim_Inl, simp, simp, rule sim_bind [OF structureNames_sim [of rec "depth + 2" recT, OF rec(2) 1(2)]], goal_cases)
      case (1 ks d2 ss st2)
      have "grown 0 d d2" using grown_trans [OF \<open>grown 0 d d1\<close> 1(3)] by simp
      then show ?case
        unfolding prod.case
        using define_structure [OF 1(2) _ 1(4)] list_all2_lengthD [OF 1(4)] by (intro sim_if sim_Inl sim_Inr) simp_all
    qed
  next
    case False
    then show ?thesis
      using tag_leaf(1) [OF r] by (cases t) (auto simp: Let_def intro!: sim_Inl)
  qed
qed

lemma structureRef_sim:
  assumes m: "matches d st"
  shows "simulates 0 d (\<lambda>d'. list_all2 (textNode d')) (structureRef tag n d) (treeStructureRef tag n st)"
proof -
  have "rel_option (list_all2 (textNode d)) (structs d (unat tag - StructureTagBase)) (snd st (unat tag - StructureTagBase))"
    using m by (simp add: matches_def)
  then show ?thesis
    unfolding structureRef_def treeStructureRef_def using m
    by (cases rule: option.rel_cases) (auto dest: list_all2_lengthD intro!: sim_Inl sim_Inr)
qed

lemma structure_sim:
  assumes rec: "\<And>e. depth < e \<Longrightarrow> depth < cborMaxDepth \<Longrightarrow> simItem (rec e) (recT e)"
    and m: "matches d st" and g: "grown 1 d0 d" and i0: "arena_inv d0"
  shows "simulates 0 d0 (itemQ d0) (structureItem rec tag depth d) (treeStructure recT tag depth st)"
  unfolding structureItem_def treeStructure_def
proof (intro sim_if refl sim_Inl, simp, rule sim_bind [OF head_sim [OF m]], goal_cases)
  case (1 x d1 y st1)
  then have rs: "simItem (rec (depth + 2)) (recT (depth + 2))" "simItem (rec (depth + 2 + 1)) (recT (depth + 2 + 1))"
    using rec by simp_all
  obtain mj ai n ind where y: "y = (mj, ai, n, ind)" by (cases y)
  have c: "countFits n 1 d1 = treeCount n 1 st1"
    using matches_rest [OF 1(2)] by (simp add: countFits_def treeCount_def)
  have e: "treeCount n 1 st1 = Inl e \<Longrightarrow> e \<noteq> LoopFuel" for e
    by (auto simp: treeCount_def guardR_def split: if_splits)
  have g1: "grown 1 d0 d1" using grown_weaken [OF grown_trans [OF g 1(3)]] by simp
  have names: "simulates 1 d0 (\<lambda>d'. list_all2 (textNode d'))
      (if unat tag = TagStructureDef then structureDef rec n depth d1 else structureRef tag n d1)
      (if unat tag = TagStructureDef then treeStructureDef recT n depth st1 else treeStructureRef tag n st1)"
    using structureDef_sim [of rec depth recT, OF rs 1(2)] structureRef_sim [OF 1(2)]
    by (intro sim_if refl sim_from [OF _ g1]) auto
  have filled: "simulates 0 d0 (itemQ d0)
      (let start = length (kids d2); d3 = d2\<lparr>kids := kids d2 @ replicate (2 * length ks) 0\<rparr> in
         bindR (fillValues (rec (depth + 2)) start ks d3) (\<lambda>(_, d4). Inr (add (spanNode itMap start (length ks)) d4)))
      (bindR (treeElems (recT (depth + 2)) (length ss) st2) (\<lambda>(ts, st3). Inr (CMap (zip ss ts), st3)))"
    if m2: "matches d2 st2" "grown 1 d0 d2" "list_all2 (textNode d2) ks ss" for d2 st2 ks ss
  proof -
    let ?lo = "length (kids d2)" and ?d = "d2\<lparr>kids := kids d2 @ replicate (2 * length ks) 0\<rparr>"
    have res: "reserving 1 d0 ?lo (?lo + 2 * length ks) ?d st2" by (rule reserving_start [OF m2(1,2)])
    have "sameTables d2 ?d" by (simp add: sameTables_def)
    then have nm: "list_all2 (textNode ?d) ks ss" by (rule textNodes_same [OF m2(3)])
    have len: "length ks = length ss" using m2(3) by (rule list_all2_lengthD)
    have "simulates 1 d0 (\<lambda>d' _ ts. ?lo + 2 * length ks \<le> length (kids d') \<and> length ts = length ks \<and>
          pairsAt d' (kids d') ?lo (zip ss ts))
        (fillValues (rec (depth + 2)) ?lo ks ?d) (treeElems (recT (depth + 2)) (length ks) st2)"
      using fillValues_sim [OF rs(1) res, of "[]" ks ss] nm by (simp add: pairsAt_def)
    then show ?thesis
      unfolding Let_def len [symmetric]
    proof (rule sim_bind, goal_cases)
      case (1 u d4 ts st3)
      then show ?case
        using add_map [OF 1(1,2) i0, of ?lo "zip ss ts"] m2(2) len by (auto simp: grown_def dest: prefix_length_le)
    qed
  qed
  show ?case
    unfolding 1(4) y prod.case
    by (intro sim_if refl sim_Inl sim_bind_pure [OF c e] sim_bind [OF names]) (use filled in auto)
qed

subsection \<open>Items\<close>

lemma tagged_sim:
  assumes rec: "\<And>e. depth < e \<Longrightarrow> depth < cborMaxDepth \<Longrightarrow> simItem (rec e) (recT e)"
    and m: "matches d st" and g: "grown 1 d0 d" and i0: "arena_inv d0"
  shows "simulates 0 d0 (itemQ d0) (tagItem tp rec tag depth d) (treeTagged tp recT tag depth st)"
  unfolding tagItem_def treeTagged_def
proof (intro sim_if refl sim_Inl structure_sim [OF rec m g i0], goal_cases)
  case 4
  then have r: "simItem (rec (depth + 1)) (recT (depth + 1))" using rec by simp
  show ?case
  proof (rule sim_bind [OF simItemD [OF r m]], goal_cases)
    case (1 c d1 t st1)
    have "grown 1 d0 d1" using grown_trans [OF g 1(2)] by simp
    then show ?case using tag_sim [OF 1(1) _ i0] 1(3) by (simp add: itemQ_def)
  qed
qed simp_all

lemma itemStep_sim:
  assumes rec: "\<And>e. depth < e \<Longrightarrow> depth < cborMaxDepth \<Longrightarrow> simItem (rec e) (recT e)"
  shows "simItem (itemStep tp rec depth) (treeStep tp recT depth)"
  unfolding simItem_def
proof (intro allI impI)
  fix d st
  assume m: "matches d st"
  note i = matches_inv [OF m]
  show "simulates 0 d (itemQ d) (itemStep tp rec depth d) (treeStep tp recT depth st)"
    unfolding itemStep_def treeStep_def
  proof (rule sim_bind [OF head_sim [OF m]], goal_cases)
    case (1 x d1 y st1)
    obtain mj ai n ind where y: "y = (mj, ai, n, ind)" by (cases y)
    show ?case
      unfolding 1(3) y prod.case
      by (intro sim_if refl sim_Inl int_sim [OF 1(1,2) i] string_sim [OF 1(1,2) i] array_sim [OF _ 1(1,2) i]
          map_sim [OF _ 1(1,2) i] tagged_sim [OF rec 1(1,2) i]) (auto intro: rec)
  qed
qed

lemma readItem_sim: "simItem (readItem tp depth) (treeItem tp depth)"
proof (induction "cborMaxDepth - depth" arbitrary: depth rule: less_induct)
  case less
  have "simItem (itemStep tp (readItem tp) depth) (treeStep tp (treeItem tp) depth)"
    by (rule itemStep_sim) (rule less, simp)
  moreover have "readItem tp depth = itemStep tp (readItem tp) depth" "treeItem tp depth = treeStep tp (treeItem tp) depth"
    by (simp_all add: fun_eq_iff readItem.simps [of tp depth] treeItem.simps [of tp depth])
  ultimately show ?case by simp
qed


lemma start_matches: "length bs < 2 ^ 31 \<Longrightarrow> matches (startDecoder bs) (bs, \<lambda>_. None)"
  by (simp add: matches_def arena_inv_def startDecoder_def)

lemma NewCBORNode_sim:
  assumes "length bs < 2 ^ 31"
  shows "case readTree tp bs of
      Inl e \<Rightarrow> NewCBORNode tp bs = Inl e \<and> e \<noteq> LoopFuel
    | Inr t \<Rightarrow> \<exists>i d. NewCBORNode tp bs = Inr (i, d) \<and> repr d i t \<and> arena_inv d \<and> data d = bs"
proof -
  have "simulates 0 (startDecoder bs) (itemQ (startDecoder bs)) (readItem tp 0 (startDecoder bs))
      (treeItem tp 0 (bs, \<lambda>_. None))"
    using simItemD [OF readItem_sim start_matches [OF assms]] .
  then show ?thesis
  proof (cases "treeItem tp 0 (bs, \<lambda>_. None)")
    case (Inr p)
    then obtain t rest env where p: "treeItem tp 0 (bs, \<lambda>_. None) = Inr (t, rest, env)" by (cases p) simp
    then obtain i d where d: "readItem tp 0 (startDecoder bs) = Inr (i, d)" "matches d (rest, env)"
      "grown 0 (startDecoder bs) d" "repr d i t"
      using \<open>simulates _ _ _ _ _\<close> by (auto simp: simulates_def itemQ_def)
    have dat: "data d = bs" using d(3) by (simp add: grown_def sameTables_def startDecoder_def)
    then have "(pos d \<noteq> length bs) = (rest \<noteq> [])" using d(2) by (auto simp: matches_def arena_inv_def)
    then show ?thesis
      using p d dat matches_inv [OF d(2)] by (simp add: readTree_def NewCBORNode_def)
  qed (simp add: simulates_def readTree_def NewCBORNode_def)
qed

text \<open>A node stands for one tree only.\<close>

lemma repr_unique: "repr d i t \<Longrightarrow> repr d i t' \<Longrightarrow> t = t'"
proof (induction arbitrary: t' rule: repr.induct)
  case (leafI i t)
  have "itemOf t' = itemOf t" using repr_item [OF leafI.prems] leaf_item [OF leafI.hyps(2)] by simp
  moreover have "itemOf t \<noteq> itArray" "itemOf t \<noteq> itMap" using leafI.hyps(2) by (cases t; simp)+
  ultimately show ?case
    using repr_leaf [OF leafI.prems] leafI.hyps(2) by (cases t; cases t') (auto split: if_splits)
next
  case (arrayI i ts)
  from arrayI.prems arrayI.hyps(2) obtain ts' where t': "t' = CArray ts'"
    using repr_item [OF arrayI.prems] by (cases t') (auto split: if_splits)
  from arrayI.prems have "length ts' = length ts" "\<And>j. j < length ts' \<Longrightarrow> repr d (kids d ! (ca (nodes d ! i) + j)) (ts' ! j)"
    unfolding t' using arrayI.hyps(3) by (auto elim!: repr_arrayE)
  then show ?case unfolding t' using arrayI.IH by (auto intro!: nth_equalityI)
next
  case (mapI i ps)
  from mapI.prems mapI.hyps(2) obtain ps' where t': "t' = CMap ps'"
    using repr_item [OF mapI.prems] by (cases t') (auto split: if_splits)
  from mapI.prems have l: "length ps' = length ps"
    and k: "\<And>j. j < length ps' \<Longrightarrow> textNode d (kids d ! (ca (nodes d ! i) + 2 * j)) (fst (ps' ! j))"
    and v: "\<And>j. j < length ps' \<Longrightarrow> repr d (kids d ! (ca (nodes d ! i) + 2 * j + 1)) (snd (ps' ! j))"
    unfolding t' using mapI.hyps(3) by (auto elim!: repr_mapE)
  have "ps ! j = ps' ! j" if "j < length ps" for j
    using mapI.hyps(5) [OF that] k mapI.IH [OF that v] that l by (auto simp: textNode_def prod_eq_iff)
  then show ?case unfolding t' using l by (auto intro!: nth_equalityI)
qed

subsection \<open>Properties\<close>

text \<open>C11: the arena of the CBOR adapter holds the document: on an input below \<open>2^31\<close> bytes \<open>NewCBORNode\<close> fails exactly
  when the direct reader does, with the same error, and otherwise the node it returns stands for the tree that
  reader returns, and for no other.\<close>

theorem NewCBORNode_refines:
  assumes "length bs < 2 ^ 31"
  shows "(NewCBORNode tp bs = Inl e \<longleftrightarrow> readTree tp bs = Inl e) \<and>
    ((\<exists>i d. NewCBORNode tp bs = Inr (i, d) \<and> repr d i t) \<longleftrightarrow> readTree tp bs = Inr t)"
  using NewCBORNode_sim [OF assms, of tp] repr_unique by (cases "readTree tp bs") auto

theorem NewCBORNode_refines_witness:
  "\<exists>i d. NewCBORNode (\<lambda>_. None) [0x81, 0xF6] = Inr (i, d) \<and> repr d i (CArray [CNull])"
proof -
  have "readTree (\<lambda>_. None) [0x81, 0xF6] = Inr (CArray [CNull])"
    by (simp add: readTree_def treeItem.simps treeStep_def treeHead_def treeArray_def treeCount_def treeSimple_def
        cborMaxDepth_def Let_def)
  then show ?thesis
    using NewCBORNode_refines [of "[0x81, 0xF6]" "\<lambda>_. None" _ "CArray [CNull]"] by simp
qed



end
