(* ===== verification/Cbor_Roundtrip.thy ===== *)
theory Cbor_Roundtrip
  imports Cbor_Refine
begin

text \<open>
  Writing and reading: what the functions of \<open>cborenc/encode.go\<close> append, the reader of \<open>query/node_cbor.go\<close>
  reads back.  \<open>encodeTree\<close> composes them over a whole document, with containers of known or of
  indefinite length.
\<close>

subsection \<open>Heads\<close>

lemma head_byte:
  fixes m x :: byte
  assumes "take_bit 3 m = m" "take_bit 5 x = x"
  shows "drop_bit 5 (push_bit 5 m OR x) = m" and "(push_bit 5 m OR x) AND 0x1F = x"
proof -
  have m: "n < 3" if "bit m n" for n using that by (subst (asm) assms(1) [symmetric]) (simp add: bit_simps)
  have x: "n < 5" if "bit x n" for n using that by (subst (asm) assms(2) [symmetric]) (simp add: bit_simps)
  show "drop_bit 5 (push_bit 5 m OR x) = m"
    by (rule bit_word_eqI) (auto simp: bit_simps dest: x m)
  have "mask 5 = (0x1F :: byte)" by (simp add: mask_eq_exp_minus_1)
  then have "(push_bit 5 m OR x) AND 0x1F = take_bit 5 (push_bit 5 m OR x)" by (simp add: take_bit_eq_mask)
  also have "\<dots> = x" by (rule bit_word_eqI) (auto simp: bit_simps dest: x)
  finally show "(push_bit 5 m OR x) AND 0x1F = x" .
qed

lemma small_take_bit: "uint (x :: byte) < 2 ^ n \<Longrightarrow> take_bit n x = x"
  by (simp add: word_uint_eq_iff unsigned_take_bit_eq take_bit_int_eq_self_iff)

lemma ucast_small:
  fixes v :: "64 word"
  assumes "v < 24"
  shows "uint (ucast v :: byte) = uint v" and "ucast (ucast v :: byte) = v" and "(ucast v :: byte) < 24"
proof -
  have v: "uint v < 24" using assms by (simp add: word_less_def)
  then show u: "uint (ucast v :: byte) = uint v" by (simp add: unsigned_ucast_eq unsigned_take_bit_eq take_bit_int_eq_self_iff)
  show "ucast (ucast v :: byte) = v" using top_byte [of 0 v] take_bit_le [of v 8] v by simp
  show "(ucast v :: byte) < 24" using u v by (simp add: word_less_def)
qed

lemma treeHead_AppendHead:
  assumes "uint major < 8"
  shows "\<exists>ai. treeHead (AppendHead [] major v @ rest, env) = Inr ((major, ai, v, False), rest, env)"
proof -
  have m: "take_bit 3 major = major" using assms by (intro small_take_bit) simp
  have b: "drop_bit 5 (push_bit 5 major OR x) = major" "(push_bit 5 major OR x) AND 0x1F = x" if "uint x < 32" for x
    using head_byte [OF m small_take_bit [of x 5]] that by simp_all
  consider "v < 24" | "\<not> v < 24" "v \<le> 0xFF" | "\<not> v \<le> 0xFF" "\<not> v < 24" "v \<le> 0xFFFF"
    | "\<not> v \<le> 0xFF" "\<not> v < 24" "\<not> v \<le> 0xFFFF" "v \<le> 0xFFFFFFFF"
    | "\<not> v \<le> 0xFF" "\<not> v < 24" "\<not> v \<le> 0xFFFF" "\<not> v \<le> 0xFFFFFFFF" by blast
  then show ?thesis
  proof cases
    case 1
    note u = ucast_small [OF 1]
    have "uint (ucast v :: byte) < 32" using u(1) 1 by (simp add: word_less_def)
    then show ?thesis using 1 u b by (simp add: AppendHead_def treeHead_def Let_def)
  next
    case 2
    then show ?thesis
      using b [of 24] bigEndian_1 [of v] by (simp add: AppendHead_def treeHead_def Let_def)
  next
    case 3
    then show ?thesis
      using b [of 25] bigEndian_2 [of v] by (simp add: AppendHead_def treeHead_def Let_def)
  next
    case 4
    then show ?thesis
      using b [of 26] bigEndian_4 [of v] by (simp add: AppendHead_def treeHead_def Let_def)
  next
    case 5
    then show ?thesis
      using b [of 27] bigEndian_8 [of v] by (simp add: AppendHead_def treeHead_def Let_def)
  qed
qed


subsection \<open>Integers\<close>

text \<open>The value of a decimal integer text, and the texts \<open>AppendInteger\<close> is called on.\<close>

definition negText :: "string \<Rightarrow> bool" where
  "negText s \<longleftrightarrow> s \<noteq> [] \<and> hd s = CHR ''-''"

definition textDigits :: "string \<Rightarrow> string" where
  "textDigits s = (if negText s then tl s else s)"

definition integerValue :: "string \<Rightarrow> int" where
  "integerValue s = (if negText s then - int_of_digits (textDigits s) else int_of_digits (textDigits s))"

definition integerSyntax :: "string \<Rightarrow> bool" where
  "integerSyntax s \<longleftrightarrow> textDigits s \<noteq> [] \<and> list_all isDigit (textDigits s)"

lemma digit_val_bounds: "isDigit c \<Longrightarrow> 0 \<le> digit_val c \<and> digit_val c < 10"
  by (elim digit_showDigit) (simp add: showDigit_facts(2))

lemma digits_acc_bounds:
  "list_all isDigit ds \<Longrightarrow> 0 \<le> n \<Longrightarrow>
     n * 10 ^ length ds \<le> int_of_digits_acc n ds \<and> int_of_digits_acc n ds < (n + 1) * 10 ^ length ds"
proof (induction ds arbitrary: n)
  case (Cons c ds)
  have c: "0 \<le> digit_val c" "digit_val c < 10" using Cons.prems digit_val_bounds by simp_all
  have "(10 * n + digit_val c) * 10 ^ length ds \<le> int_of_digits_acc n (c # ds)"
    "int_of_digits_acc n (c # ds) < (10 * n + digit_val c + 1) * 10 ^ length ds"
    using Cons.IH [of "10 * n + digit_val c"] Cons.prems c by simp_all
  moreover have "n * 10 ^ length (c # ds) \<le> (10 * n + digit_val c) * 10 ^ length ds"
    using c by (simp add: algebra_simps)
  moreover have "(10 * n + digit_val c + 1) * 10 ^ length ds \<le> (n + 1) * 10 ^ length (c # ds)"
    using c mult_right_mono [of "digit_val c + 1" 10 "10 ^ length ds"] by (simp add: algebra_simps)
  ultimately show ?case by linarith
qed simp

lemma int_of_digits_bounds: "list_all isDigit ds \<Longrightarrow> 0 \<le> int_of_digits ds \<and> int_of_digits ds < 10 ^ length ds"
  using digits_acc_bounds [of ds 0] by (simp add: int_of_digits_def)

lemma int_of_digits_zeros: "int_of_digits (dropWhile (\<lambda>c. c = CHR ''0'') ds) = int_of_digits ds"
  by (induction ds) (simp_all add: int_of_digits_def digit_val_def)

lemma int_of_digits_pos:
  assumes "list_all isDigit ds" "dropWhile (\<lambda>c. c = CHR ''0'') ds = c # cs"
  shows "0 < int_of_digits ds"
proof -
  have c: "c \<noteq> CHR ''0''" "isDigit c" "list_all isDigit cs"
    using assms hd_dropWhile [of "\<lambda>c. c = CHR ''0''" ds] set_dropWhileD [of _ "\<lambda>c. c = CHR ''0''" ds]
    by (auto simp: list_all_iff)
  obtain k where k: "k < 10" "c = showDigit k" using c(2) by (rule digit_showDigit)
  have "showDigit 0 = CHR ''0''" by code_simp
  then have "k \<noteq> 0" using c(1) k by (cases "k = 0") simp_all
  then have "1 \<le> digit_val c" using showDigit_facts(2) [OF k(1)] k(2) by simp
  then have "1 \<le> digit_val c * 10 ^ length cs" by (simp add: int_one_le_iff_zero_less)
  moreover have "digit_val c * 10 ^ length cs \<le> int_of_digits_acc (digit_val c) cs"
    using digits_acc_bounds [OF c(3), of "digit_val c"] \<open>1 \<le> digit_val c\<close> by simp
  ultimately have "0 < int_of_digits (c # cs)" by (simp add: int_of_digits_def)
  then show ?thesis using assms(2) int_of_digits_zeros [of ds] by simp
qed

lemma uintOfDigits_acc:
  "list_all isDigit ds \<Longrightarrow>
     foldl (\<lambda>v c. v * 10 + ucast (byteOf c - 48)) (word_of_int n) ds = (word_of_int (int_of_digits_acc n ds) :: 64 word)"
proof (induction ds arbitrary: n)
  case (Cons c ds)
  have "isDigit c" using Cons.prems by simp
  then obtain k where k: "k < 10" "c = showDigit k" by (rule digit_showDigit)
  then have "k \<in> set [0, 1, 2, 3, 4, 5, 6, 7, 8, 9]" by (simp add: eval_nat_numeral less_Suc_eq)
  moreover have "list_all (\<lambda>k. ucast (byteOf (showDigit k) - 48) = (word_of_nat k :: 64 word)) [0, 1, 2, 3, 4, 5, 6, 7, 8, 9]"
    by code_simp
  ultimately have "ucast (byteOf c - 48) = (word_of_nat k :: 64 word)" unfolding list_all_iff k(2) by blast
  then have "ucast (byteOf c - 48) = (word_of_int (digit_val c) :: 64 word)"
    using showDigit_facts(2) [OF k(1)] k(2) by simp
  then have "word_of_int n * 10 + ucast (byteOf c - 48) = (word_of_int (10 * n + digit_val c) :: 64 word)"
    by (simp add: mult.commute)
  then show ?case
    using Cons.IH [of "10 * n + digit_val c"] Cons.prems by (simp only: foldl.simps int_of_digits_acc.simps list.pred_inject)
qed simp

lemma uintOfDigits_eq: "list_all isDigit ds \<Longrightarrow> uintOfDigits ds = word_of_int (int_of_digits ds)"
  using uintOfDigits_acc [of ds 0] by (simp add: uintOfDigits_def int_of_digits_def)

text \<open>How an integer is written: a CBOR integer when it fits 64 bits, else a bignum.\<close>

definition encodeInt :: "int \<Rightarrow> bytes" where
  "encodeInt i =
     (if 0 \<le> i \<and> i < 2 ^ 64 then AppendHead [] 0 (word_of_int i)
      else if - (2 ^ 64) \<le> i \<and> i < 0 then AppendHead [] 1 (word_of_int (- 1 - i))
      else if 0 \<le> i then AppendBytes (AppendTag [] TagPositiveBignum) (natBytes (nat i))
      else AppendBytes (AppendTag [] TagNegativeBignum) (natBytes (nat (- 1 - i))))"

lemma AppendInteger_value:
  assumes "integerSyntax s"
  shows "AppendInteger [] s = encodeInt (integerValue s)"
proof -
  let ?ds = "textDigits s" and ?z = "dropWhile (\<lambda>c. c = CHR ''0'') (textDigits s)"
  have ds: "list_all isDigit ?ds" using assms by (simp add: integerSyntax_def)
  then have z: "list_all isDigit ?z" by (auto simp: list_all_iff dest: set_dropWhileD)
  have v: "int_of_digits ?z = int_of_digits ?ds" by (rule int_of_digits_zeros)
  have ai: "AppendInteger [] s =
     (if ?z = [] then AppendUint [] 0
      else if length ?z \<le> 19 then
        (if \<not> negText s then AppendUint [] (uintOfDigits ?z) else AppendHead [] 1 (uintOfDigits ?z - 1))
      else if \<not> negText s \<and> int_of_digits ?z < 2 ^ 64 then AppendUint [] (word_of_int (int_of_digits ?z))
      else if negText s then
        (if int_of_digits ?z - 1 < 2 ^ 64 then AppendHead [] 1 (word_of_int (int_of_digits ?z - 1))
         else AppendBytes (AppendTag [] TagNegativeBignum) (natBytes (nat (int_of_digits ?z - 1))))
      else AppendBytes (AppendTag [] TagPositiveBignum) (natBytes (nat (int_of_digits ?z))))"
    by (simp add: AppendInteger_def Let_def negText_def textDigits_def)
  show ?thesis
  proof (cases ?z)
    case Nil
    then have "int_of_digits ?ds = 0" using v [unfolded Nil] by (simp add: int_of_digits_def)
    then show ?thesis using ai Nil by (simp add: integerValue_def encodeInt_def AppendUint_def)
  next
    case (Cons c cs)
    have pos: "0 < int_of_digits ?ds" using int_of_digits_pos [OF ds Cons] .
    have small: "int_of_digits ?ds < 2 ^ 64" if "length ?z \<le> 19"
    proof -
      have "int_of_digits ?ds < 10 ^ length ?z" using int_of_digits_bounds [OF z] v by simp
      also have "\<dots> \<le> 10 ^ 19" using that by (intro power_increasing) simp_all
      finally show ?thesis by simp
    qed
    have u: "uintOfDigits ?z = word_of_int (int_of_digits ?ds)" using uintOfDigits_eq [OF z] v by simp
    have "- 1 - (- int_of_digits ?ds) = int_of_digits ?ds - 1" by simp
    then show ?thesis
      unfolding ai u v using Cons pos small by (auto simp: integerValue_def encodeInt_def AppendUint_def)
  qed
qed

text \<open>The integer as the reader returns it.\<close>

definition intTree :: "int \<Rightarrow> ctree" where
  "intTree i =
     (if - (2 ^ 63) \<le> i \<and> i < 2 ^ 63 then CInt (word_of_int i)
      else if 0 \<le> i \<and> i < 2 ^ 64 then CUint (word_of_int i)
      else if - (2 ^ 64) \<le> i \<and> i < 0 then CNegBig (word_of_int (- 1 - i))
      else CBig (FormatInt i))"

lemma uint_word_of_int64: "0 \<le> i \<Longrightarrow> i < 2 ^ 64 \<Longrightarrow> uint (word_of_int i :: 64 word) = i"
  by (simp add: take_bit_int_eq_self_iff unsigned_of_int)

lemma sint_word_of_int64: "- (2 ^ 63) \<le> i \<Longrightarrow> i < 2 ^ 63 \<Longrightarrow> sint (word_of_int i :: 64 word) = i"
  by (simp add: signed_of_int signed_take_bit_int_eq_self)

lemma treeIntegerText_intTree: "treeIntegerText (intTree i) = Some (FormatInt i)"
  using uint_word_of_int64 [of i] uint_word_of_int64 [of "- 1 - i"] sint_word_of_int64 [of i]
  by (auto simp: intTree_def treeIntegerText_def)


subsection \<open>Reading what was written\<close>

lemma word_length: "n < 2 ^ 64 \<Longrightarrow> unat (word_of_nat n :: 64 word) = n"
  by (simp add: unat_of_nat take_bit_nat_eq_self_iff)

lemma major_bounds: "uint (0 :: byte) < 8" "uint (1 :: byte) < 8" "uint (2 :: byte) < 8" "uint (3 :: byte) < 8"
  "uint (4 :: byte) < 8" "uint (5 :: byte) < 8" "uint (6 :: byte) < 8"
  by simp_all

lemma read_uint:
  "treeItem tp depth (AppendHead [] 0 v @ rest, env) = Inr (if v > maxInt64 then CUint v else CInt v, rest, env)"
  using treeHead_AppendHead [OF major_bounds(1), of v rest env]
  by (auto simp: treeItem.simps [of tp depth] treeStep_def treeInt_def)

lemma read_nint:
  "treeItem tp depth (AppendHead [] 1 v @ rest, env) = Inr (if v > maxInt64 then CNegBig v else CInt (- 1 - v), rest, env)"
  using treeHead_AppendHead [OF major_bounds(2), of v rest env]
  by (auto simp: treeItem.simps [of tp depth] treeStep_def treeNegInt_def)

lemma read_string:
  assumes "length s < 2 ^ 64" "major = 2 \<or> major = 3" "chunkOk major s"
  shows "treeItem tp depth (AppendHead [] major (word_of_nat (length s)) @ s @ rest, env) = Inr (stringTree major s, rest, env)"
  using treeHead_AppendHead [of major "word_of_nat (length s)" "s @ rest" env] major_bounds assms word_length [OF assms(1)]
  by (auto simp: treeItem.simps [of tp depth] treeStep_def treeString_def)

lemma read_bytes:
  assumes "length b < 2 ^ 64"
  shows "treeItem tp depth (AppendBytes [] b @ rest, env) = Inr (CBytes b, rest, env)"
  using read_string [OF assms, of 2 tp depth rest env] by (simp add: AppendBytes_def chunkOk_def stringTree_def)

lemma read_text:
  assumes "length s < 2 ^ 64" "utf8Valid s"
  shows "treeItem tp depth (AppendText [] s @ rest, env) = Inr (CText s, rest, env)"
  using read_string [of "map byteOf s" 3 tp depth rest env] assms
  by (simp add: AppendText_def chunkOk_def stringTree_def comp_def)

lemma read_tag:
  assumes "depth < cborMaxDepth" "\<not> isStructureTag tag" "treeItem tp (depth + 1) (bs, env) = Inr (t, rest, env)"
  shows "treeItem tp depth (AppendTag [] tag @ bs, env) = bindR (treeTag tp tag t) (\<lambda>t'. Inr (t', rest, env))"
  using treeHead_AppendHead [OF major_bounds(7), of tag bs env] assms
  by (auto simp: treeItem.simps [of tp depth] treeStep_def treeTagged_def AppendTag_def)

lemma plain_tags: "\<not> isStructureTag 1" "\<not> isStructureTag 2" "\<not> isStructureTag 3" "\<not> isStructureTag 4"
  "\<not> isStructureTag 37" "\<not> isStructureTag 100"
  by (simp_all add: isStructureTag_def TagStructureDef_def StructureTagBase_def MaxStructures_def)

lemma maxInt64_less: "maxInt64 < v \<longleftrightarrow> 2 ^ 63 \<le> uint v"
  by (auto simp: maxInt64_def word_less_def)

lemma read_small_int:
  assumes "- (2 ^ 64) \<le> i" "i < 2 ^ 64"
  shows "treeItem tp depth (encodeInt i @ rest, env) = Inr (intTree i, rest, env)"
proof (cases "0 \<le> i")
  case True
  then show ?thesis
    using read_uint [of tp depth "word_of_int i" rest env] uint_word_of_int64 [of i] assms
    by (auto simp: encodeInt_def intTree_def maxInt64_less)
next
  case False
  then have "0 \<le> - 1 - i" "- 1 - i < 2 ^ 64" using assms by simp_all
  then have u: "uint (word_of_int (- 1 - i) :: 64 word) = - 1 - i" by (rule uint_word_of_int64)
  have "- 1 - (word_of_int (- 1 - i) :: 64 word) = word_of_int i" by simp
  then show ?thesis
    using read_nint [of tp depth "word_of_int (- 1 - i)" rest env] u False assms
    by (auto simp: encodeInt_def intTree_def maxInt64_less)
qed

lemma read_bignum:
  assumes "depth < cborMaxDepth" "length (natBytes n) < 2 ^ 64"
  shows "treeItem tp depth (AppendBytes (AppendTag [] 2) (natBytes n) @ rest, env) = Inr (CBig (FormatInt (int n)), rest, env)"
    and "treeItem tp depth (AppendBytes (AppendTag [] 3) (natBytes n) @ rest, env) = Inr (CBig (FormatInt (- 1 - int n)), rest, env)"
proof -
  have "treeItem tp (depth + 1) (AppendBytes [] (natBytes n) @ rest, env) = Inr (CBytes (natBytes n), rest, env)"
    by (rule read_bytes [OF assms(2)])
  moreover have "AppendBytes (AppendTag [] tag) b = AppendTag [] tag @ AppendBytes [] b" for tag b
    by (rule blobItem.app_written)
  ultimately show
    "treeItem tp depth (AppendBytes (AppendTag [] 2) (natBytes n) @ rest, env) = Inr (CBig (FormatInt (int n)), rest, env)"
    "treeItem tp depth (AppendBytes (AppendTag [] 3) (natBytes n) @ rest, env) = Inr (CBig (FormatInt (- 1 - int n)), rest, env)"
    using read_tag [OF assms(1) plain_tags(2)] read_tag [OF assms(1) plain_tags(3)]
    by (simp_all add: treeTag_def algebra_simps)
qed

lemma read_int:
  assumes "depth < cborMaxDepth" "length (encodeInt i) < 2 ^ 64"
  shows "treeItem tp depth (encodeInt i @ rest, env) = Inr (intTree i, rest, env)"
proof -
  have len: "length b < 2 ^ 64" if "length (AppendBytes d b) < 2 ^ 64" for d b using that by (simp add: AppendBytes_def)
  consider "- (2 ^ 64) \<le> i" "i < 2 ^ 64" | "2 ^ 64 \<le> i" | "i < - (2 ^ 64)" by linarith
  then show ?thesis
  proof cases
    case 1
    then show ?thesis by (rule read_small_int)
  next
    case 2
    then show ?thesis
      using read_bignum(1) [OF assms(1), of "nat i" tp rest env] assms(2) len
      by (simp add: encodeInt_def intTree_def TagPositiveBignum_def)
  next
    case 3
    then show ?thesis
      using read_bignum(2) [OF assms(1), of "nat (- 1 - i)" tp rest env] assms(2) len
      by (simp add: encodeInt_def intTree_def TagNegativeBignum_def)
  qed
qed

lemma AppendInt_encodeInt: "AppendInt [] v = encodeInt (sint v)"
proof (cases "0 \<le> sint v")
  case True
  have "sint v < 2 ^ 63" using sint_lt [of v] by simp
  then show ?thesis using True by (simp add: AppendInt_def encodeInt_def)
next
  case False
  have "- (2 ^ 63) \<le> sint v" using sint_ge [of v] by simp
  moreover have "word_of_int (- 1 - sint v) = - 1 - v" by simp
  ultimately show ?thesis using False by (simp add: AppendInt_def encodeInt_def)
qed

lemma intTree_sint: "intTree (sint v) = CInt v"
  using sint_ge [of v] sint_lt [of v] by (simp add: intTree_def)

lemma read_signed: "treeItem tp depth (AppendInt [] v @ rest, env) = Inr (CInt v, rest, env)"
  using read_small_int [of "sint v"] sint_ge [of v] sint_lt [of v] by (simp add: AppendInt_encodeInt intTree_sint)

lemma treeHead_simple:
  assumes "x = 20 \<or> x = 21 \<or> x = (22 :: byte)"
  shows "treeHead ((push_bit 5 7 OR x) # rest, env) = Inr ((7, x, ucast x, False), rest, env)"
  using assms by (auto simp: treeHead_def Let_def)

lemma read_simple:
  "treeItem tp depth (AppendNull [] @ rest, env) = Inr (CNull, rest, env)"
  "treeItem tp depth (AppendBool [] b @ rest, env) = Inr (CBool b, rest, env)"
  using treeHead_simple [of 20 rest env] treeHead_simple [of 21 rest env] treeHead_simple [of 22 rest env]
  by (simp_all add: AppendNull_def AppendBool_def valueNull_def valueTrue_def valueFalse_def
      treeItem.simps [of tp depth] treeStep_def treeSimple_def)

lemma read_float:
  "treeItem tp depth (AppendFloat64 [] f @ rest, env) = Inr (CFloat (Float64bits f), rest, env)"
  using bigEndian_8 [of "Float64bits f"]
  by (simp add: AppendFloat64_def Let_def treeItem.simps [of tp depth] treeStep_def treeHead_def treeSimple_def)

lemma read_elems:
  assumes "\<And>t rest. t \<in> set ts \<Longrightarrow> rec (enc t @ rest, env) = Inr (t, rest, env)"
  shows "treeElems rec (length ts) (concat (map enc ts) @ rest, env) = Inr (ts, rest, env)"
  using assms by (induction ts) simp_all

lemma read_pairs:
  assumes "\<And>k t rest. (k, t) \<in> set ps \<Longrightarrow> treePair rec (enc (k, t) @ rest, env) = Inr ((k, t), rest, env)"
  shows "treePairs rec (length ps) (concat (map enc ps) @ rest, env) = Inr (ps, rest, env)"
  using assms by (induction ps) (simp_all add: split_paired_all)

lemma read_until_break:
  assumes "\<And>t rest. t \<in> set ts \<Longrightarrow> rec (enc t @ rest, env) = Inr (t, rest, env)"
    and "\<And>t. t \<in> set ts \<Longrightarrow> enc t \<noteq> [] \<and> hd (enc t) \<noteq> 0xFF"
  shows "length ts < fuel \<Longrightarrow>
    treeUntilBreak fuel rec acc (concat (map enc ts) @ Break # rest, env) = Inr (acc @ ts, rest, env)"
  using assms
proof (induction ts arbitrary: acc fuel)
  case Nil
  then show ?case by (cases fuel) (simp_all add: Break_def)
next
  case (Cons t ts)
  obtain fuel' where f: "fuel = Suc fuel'" using Cons.prems by (cases fuel) simp_all
  show ?case using Cons.IH [of fuel' "acc @ [t]"] Cons.prems by (simp add: f hd_append)
qed

lemma read_counted:
  assumes "depth < cborMaxDepth" "n < 2 ^ 64"
  shows "n \<le> length body \<Longrightarrow> treeElems (treeItem tp (Suc depth)) n (body, env) = Inr (ts, rest, env) \<Longrightarrow>
      treeItem tp depth (AppendHead [] 4 (word_of_nat n) @ body, env) = Inr (CArray ts, rest, env)"
    and "n \<le> length body div 2 \<Longrightarrow> treePairs (treeItem tp (Suc depth)) n (body, env) = Inr (ps, rest, env) \<Longrightarrow>
      distinct (map fst ps) \<Longrightarrow>
      treeItem tp depth (AppendHead [] 5 (word_of_nat n) @ body, env) = Inr (CMap ps, rest, env)"
  using treeHead_AppendHead [OF major_bounds(5), of "word_of_nat n" body env]
    treeHead_AppendHead [OF major_bounds(6), of "word_of_nat n" body env] assms(1) word_length [OF assms(2)]
  by (auto simp: treeItem.simps [of tp depth] treeStep_def treeArray_def treeMap_def treeCount_def treeMapOf_def)

lemma read_decimal:
  assumes "depth + 3 \<le> cborMaxDepth" "length (encodeInt i) < 2 ^ 64" "integerSyntax s" "integerValue s = i"
  shows "treeItem tp depth (AppendDecimal [] s e @ rest, env) = Inr (CDecimal (FormatInt i) e, rest, env)"
proof -
  have h: "AppendHead (AppendTag [] 4) 4 2 = AppendTag [] 4 @ AppendHead [] 4 2"
    using AppendHead_append [of "AppendTag [] 4" "[]"] by simp
  have "AppendDecimal [] s e = AppendInteger (AppendInt (AppendHead (AppendTag [] 4) 4 2) e) s"
    by (simp add: AppendDecimal_def AppendArrayHead_def TagDecimal_def Let_def)
  also have "\<dots> = AppendTag [] 4 @ AppendHead [] 4 2 @ AppendInt [] e @ AppendInteger [] s"
    unfolding h by (subst integerItem.app_written, subst intItem.app_written) simp
  finally have s: "AppendDecimal [] s e @ rest = AppendTag [] 4 @ AppendHead [] 4 2 @ AppendInt [] e @ encodeInt i @ rest"
    using AppendInteger_value [OF assms(3)] assms(4) by simp
  have "treeElems (treeItem tp (depth + 2)) 2 (AppendInt [] e @ encodeInt i @ rest, env) = Inr ([CInt e, intTree i], rest, env)"
    using read_signed read_int [of "depth + 2" i] assms by (simp add: numeral_2_eq_2)
  moreover have "2 \<le> length (AppendInt [] e @ encodeInt i @ rest)"
    by (cases "AppendInt [] e"; cases "encodeInt i") (simp_all add: AppendInt_def encodeInt_def AppendBytes_def split: if_splits)
  ultimately have "treeItem tp (depth + 1) (AppendHead [] 4 2 @ AppendInt [] e @ encodeInt i @ rest, env) =
      Inr (CArray [CInt e, intTree i], rest, env)"
    using read_counted(1) [of "Suc depth" 2 _ tp env] assms(1) by simp
  then show ?thesis
    unfolding s using read_tag [OF _ plain_tags(4), of depth] assms(1)
    by (simp add: treeTag_def treeIntegerText_intTree)
qed


subsection \<open>Whole documents\<close>

fun encodeTree :: "bool \<Rightarrow> ctree \<Rightarrow> bytes" where
  "encodeTree indef CNull = AppendNull []"
| "encodeTree indef (CBool b) = AppendBool [] b"
| "encodeTree indef (CInt x) = AppendInt [] x"
| "encodeTree indef (CUint x) = AppendUint [] x"
| "encodeTree indef (CNegBig x) = AppendHead [] 1 x"
| "encodeTree indef (CFloat x) = AppendFloat64 [] (Float64frombits x)"
| "encodeTree indef (CBig s) = AppendInteger [] s"
| "encodeTree indef (CDecimal s e) = AppendDecimal [] s e"
| "encodeTree indef (CText s) = AppendText [] s"
| "encodeTree indef (CBytes b) = AppendBytes [] b"
| "encodeTree indef (CArray ts) =
     (if indef then IndefiniteArray # concat (map (encodeTree indef) ts) @ [Break]
      else AppendArrayHead [] (length ts) @ concat (map (encodeTree indef) ts))"
| "encodeTree indef (CMap ps) =
     (if indef then IndefiniteMap # concat (map (\<lambda>(k, t). AppendText [] k @ encodeTree indef t) ps) @ [Break]
      else AppendMapHead [] (length ps) @ concat (map (\<lambda>(k, t). AppendText [] k @ encodeTree indef t) ps))"
| "encodeTree indef (CInstant (sec, nsec)) = AppendEpoch [] (word_of_int sec) 0"
| "encodeTree indef (CDate x) = AppendEpochDate [] x"
| "encodeTree indef (CUUID b) = AppendUUID [] b"
| "encodeTree indef (CBadTag x) = AppendTag [] x"

text \<open>The trees the encoders can write: numbers in the item they belong in, texts in UTF-8, distinct keys, instants of
  whole seconds.\<close>

fun canonical :: "ctree \<Rightarrow> bool" where
  "canonical (CUint x) \<longleftrightarrow> maxInt64 < x"
| "canonical (CNegBig x) \<longleftrightarrow> maxInt64 < x"
| "canonical (CFloat x) \<longleftrightarrow> Float64bits (Float64frombits x) = x"
| "canonical (CBig s) \<longleftrightarrow> integerSyntax s \<and> intTree (integerValue s) = CBig s"
| "canonical (CDecimal s e) \<longleftrightarrow> integerSyntax s \<and> FormatInt (integerValue s) = s"
| "canonical (CText s) \<longleftrightarrow> utf8Valid s"
| "canonical (CArray ts) \<longleftrightarrow> (\<forall>t \<in> set ts. canonical t)"
| "canonical (CMap ps) \<longleftrightarrow> distinct (map fst ps) \<and> (\<forall>kt \<in> set ps. utf8Valid (fst kt) \<and> canonical (snd kt))"
| "canonical (CInstant (sec, nsec)) \<longleftrightarrow> in_int64 sec \<and> nsec = 0"
| "canonical (CUUID b) \<longleftrightarrow> length b = 16"
| "canonical (CBadTag x) \<longleftrightarrow> False"
| "canonical _ \<longleftrightarrow> True"

fun levels :: "ctree \<Rightarrow> nat" where
  "levels (CArray ts) = Suc (foldr max (map levels ts) 0)"
| "levels (CMap ps) = Suc (foldr max (map (\<lambda>kt. levels (snd kt)) ps) 0)"
| "levels (CDecimal s e) = 3"
| "levels (CBig s) = 1"
| "levels (CInstant x) = 1"
| "levels (CDate x) = 1"
| "levels (CUUID b) = 1"
| "levels _ = 0"

lemma foldr_max: "x \<in> set xs \<Longrightarrow> x \<le> foldr max xs (0 :: nat)"
  by (induction xs) auto

lemma hd_AppendHead:
  assumes "uint major < 7"
  shows "hd (AppendHead [] major v) \<noteq> 0xFF"
proof -
  have m: "take_bit 3 major = major" using assms by (intro small_take_bit) simp
  have ne: "push_bit 5 major OR x \<noteq> 0xFF" if "uint x < 32" for x
  proof
    assume "push_bit 5 major OR x = 0xFF"
    then have "major = drop_bit 5 0xFF" using head_byte(1) [OF m small_take_bit [of x 5]] that by simp
    then show False using assms by simp
  qed
  have "uint (ucast v :: byte) < 32" if "v < 24" using ucast_small(1) [OF that] that by (simp add: word_less_def)
  then show ?thesis
    using ne [of "ucast v"] ne [of 24] ne [of 25] ne [of 26] ne [of 27] by (simp add: AppendHead_def Let_def)
qed

lemma hd_kept: "d \<noteq> [] \<Longrightarrow> hd (AppendHead d major v) = hd d"
  using AppendHead_append [of d "[]" major v] by simp

lemma encodeInt_start: "encodeInt i \<noteq> [] \<and> hd (encodeInt i) \<noteq> 0xFF"
  using hd_AppendHead [of 0] hd_AppendHead [of 1] hd_AppendHead [of 6]
  by (auto simp: encodeInt_def AppendBytes_def AppendTag_def hd_kept)

lemma encodeTree_start:
  assumes "canonical t"
  shows "encodeTree indef t \<noteq> [] \<and> hd (encodeTree indef t) \<noteq> 0xFF"
proof (cases t)
  case (CBig s)
  then show ?thesis using assms AppendInteger_value [of s] encodeInt_start by simp
next
  case (CDecimal s e)
  then show ?thesis
    using hd_AppendHead [of 6]
    by (simp add: AppendDecimal_def AppendTag_def AppendArrayHead_def Let_def hd_kept
        integerItem.app_written [of "AppendInt _ _"] intItem.app_written [of "AppendHead _ _ _"])
next
  case (CInstant x)
  then show ?thesis
    using hd_AppendHead [of 6]
    by (cases x) (simp add: AppendEpoch_def AppendTag_def Let_def intItem.app_written [of "AppendHead _ _ _"])
qed (use assms hd_AppendHead [of 0] hd_AppendHead [of 1] hd_AppendHead [of 2] hd_AppendHead [of 3] hd_AppendHead [of 4]
      hd_AppendHead [of 5] hd_AppendHead [of 6] encodeInt_start in
    \<open>auto simp: AppendNull_def AppendBool_def AppendInt_encodeInt AppendUint_def AppendFloat64_def AppendText_def
      AppendBytes_def AppendArrayHead_def AppendMapHead_def AppendEpochDate_def AppendUUID_def AppendTag_def Let_def
      valueNull_def valueTrue_def valueFalse_def IndefiniteArray_def IndefiniteMap_def hd_kept
      intItem.app_written [of "AppendHead _ _ _"]\<close>)


lemma sublist_lengths:
  "x \<in> set xs \<Longrightarrow> length (f x) \<le> length (concat (map f xs))"
  "(\<And>x. x \<in> set xs \<Longrightarrow> k \<le> length (f x)) \<Longrightarrow> k * length xs \<le> length (concat (map f xs))"
  by (induction xs) (auto simp: add_mono)

lemma treeHead_indefinite:
  "treeHead (IndefiniteArray # rest, env) = Inr ((4, 31, 0, True), rest, env)"
  "treeHead (IndefiniteMap # rest, env) = Inr ((5, 31, 0, True), rest, env)"
  by (simp_all add: treeHead_def IndefiniteArray_def IndefiniteMap_def Let_def)

lemma read_indefinite:
  assumes "depth < cborMaxDepth"
  shows "treeUntilBreak (Suc (length body)) (treeItem tp (Suc depth)) [] (body, env) = Inr (ts, rest, env) \<Longrightarrow>
      treeItem tp depth (IndefiniteArray # body, env) = Inr (CArray ts, rest, env)"
    and "treeUntilBreak (Suc (length body)) (treePair (treeItem tp (Suc depth))) [] (body, env) = Inr (ps, rest, env) \<Longrightarrow>
      distinct (map fst ps) \<Longrightarrow> treeItem tp depth (IndefiniteMap # body, env) = Inr (CMap ps, rest, env)"
  using assms
  by (simp_all add: treeItem.simps [of tp depth] treeStep_def treeArray_def treeMap_def treeHead_indefinite treeMapOf_def
      del: treeUntilBreak.simps)

lemma read_array:
  assumes "depth < cborMaxDepth"
    and item: "\<And>t rest. t \<in> set ts \<Longrightarrow> treeItem tp (Suc depth) (encodeTree indef t @ rest, env) = Inr (t, rest, env)"
    and start: "\<And>t. t \<in> set ts \<Longrightarrow> encodeTree indef t \<noteq> [] \<and> hd (encodeTree indef t) \<noteq> 0xFF"
    and len: "length (encodeTree indef (CArray ts)) < 2 ^ 64"
  shows "treeItem tp depth (encodeTree indef (CArray ts) @ rest, env) = Inr (CArray ts, rest, env)"
proof -
  let ?body = "concat (map (encodeTree indef) ts)"
  have "1 \<le> length (encodeTree indef t)" if "t \<in> set ts" for t using start [OF that] by (cases "encodeTree indef t") auto
  then have n: "length ts \<le> length ?body" using sublist_lengths(2) [of ts 1 "encodeTree indef"] by simp
  show ?thesis
  proof (cases indef)
    case True
    have "treeUntilBreak (Suc (length (?body @ Break # rest))) (treeItem tp (Suc depth)) [] (?body @ Break # rest, env) =
        Inr ([] @ ts, rest, env)"
      using n by (intro read_until_break item start) simp_all
    then show ?thesis using True read_indefinite(1) [OF assms(1)] by (simp del: treeUntilBreak.simps)
  next
    case False
    have "length ts < 2 ^ 64" using n len False by simp
    then show ?thesis
      using False n read_counted(1) [OF assms(1), of "length ts" "?body @ rest" tp env ts rest] read_elems [OF item]
      by (simp add: AppendArrayHead_def)
  qed
qed

lemma read_pair:
  assumes "length k < 2 ^ 64" "utf8Valid k" "\<And>rest. treeItem tp depth (bs @ rest, env) = Inr (t, rest, env)"
  shows "treePair (treeItem tp depth) ((AppendText [] k @ bs) @ rest, env) = Inr ((k, t), rest, env)"
  using read_text [OF assms(1,2)] assms(3) by (simp add: treePair_def)

lemma read_map:
  assumes "depth < cborMaxDepth" "distinct (map fst ps)"
    and item: "\<And>k t rest. (k, t) \<in> set ps \<Longrightarrow> treeItem tp (Suc depth) (encodeTree indef t @ rest, env) = Inr (t, rest, env)"
    and start: "\<And>k t. (k, t) \<in> set ps \<Longrightarrow> utf8Valid k \<and> encodeTree indef t \<noteq> []"
    and len: "length (encodeTree indef (CMap ps)) < 2 ^ 64"
  shows "treeItem tp depth (encodeTree indef (CMap ps) @ rest, env) = Inr (CMap ps, rest, env)"
proof -
  let ?enc = "\<lambda>(k, t). AppendText [] k @ encodeTree indef t"
  let ?body = "concat (map ?enc ps)"
  have start_byte: "AppendText [] k \<noteq> [] \<and> hd (AppendText [] k) \<noteq> 0xFF" for k
    using hd_AppendHead [of 3] by (simp add: AppendText_def)
  have "2 \<le> length (?enc p)" if "p \<in> set ps" for p
    using start [of "fst p" "snd p"] that start_byte [of "fst p"]
    by (cases p; cases "AppendText [] (fst p)"; cases "encodeTree indef (snd p)") auto
  then have n: "2 * length ps \<le> length ?body" by (rule sublist_lengths(2))
  have key: "length k < 2 ^ 64" if "(k, t) \<in> set ps" for k t
  proof -
    have "length (?enc (k, t)) \<le> length ?body" by (rule sublist_lengths(1) [OF that])
    moreover have "length ?body \<le> length (encodeTree indef (CMap ps))" by simp
    ultimately show ?thesis using len by (simp add: AppendText_def)
  qed
  have pair: "treePair (treeItem tp (Suc depth)) (?enc p @ rest, env) = Inr (p, rest, env)" if "p \<in> set ps" for p rest
    using read_pair [OF key _ item] start that by (cases p) fastforce
  show ?thesis
  proof (cases indef)
    case True
    have "treeUntilBreak (Suc (length (?body @ Break # rest))) (treePair (treeItem tp (Suc depth))) [] (?body @ Break # rest, env) =
        Inr ([] @ ps, rest, env)"
      using n start_byte by (intro read_until_break pair) (auto simp: hd_append)
    then show ?thesis using True read_indefinite(2) [OF assms(1)] assms(2) by (simp del: treeUntilBreak.simps)
  next
    case False
    have "length ps < 2 ^ 64" using n len False by simp
    moreover have "treePairs (treeItem tp (Suc depth)) (length ps) (?body @ rest, env) = Inr (ps, rest, env)"
      using pair by (intro read_pairs) blast
    ultimately show ?thesis
      using False n read_counted(2) [OF assms(1), of "length ps" "?body @ rest" tp env ps rest] assms(2)
      by (simp add: AppendMapHead_def)
  qed
qed

lemma read_tagged_leaf:
  assumes "depth < cborMaxDepth"
  shows "treeItem tp depth (AppendEpochDate [] x @ rest, env) = Inr (CDate x, rest, env)"
    and "length b = 16 \<Longrightarrow> treeItem tp depth (AppendUUID [] b @ rest, env) = Inr (CUUID b, rest, env)"
    and "in_int64 sec \<Longrightarrow> treeItem tp depth (AppendEpoch [] (word_of_int sec) 0 @ rest, env) = Inr (CInstant (sec, 0), rest, env)"
  using read_tag [OF assms plain_tags(6) read_signed, of tp x rest env] read_tag [OF assms plain_tags(5) read_bytes, of b tp rest env]
    read_tag [OF assms plain_tags(1) read_signed, of tp "word_of_int sec" rest env] sint_word_of_int64 [of sec]
  by (simp_all add: AppendEpochDate_def AppendUUID_def AppendEpoch_def TagEpochDate_def TagUUID_def TagEpochDateTime_def
      intItem.app_written [of "AppendTag _ _"] blobItem.app_written [of "AppendTag _ _"] treeTag_def timeUnix_def in_int64_def)

lemma read_encoded:
  "canonical t \<Longrightarrow> depth + levels t \<le> cborMaxDepth \<Longrightarrow> length (encodeTree indef t) < 2 ^ 64 \<Longrightarrow>
     treeItem tp depth (encodeTree indef t @ rest, env) = Inr (t, rest, env)"
proof (induction t arbitrary: depth rest)
  case (CBig s)
  then have "AppendInteger [] s = encodeInt (integerValue s)" using AppendInteger_value by simp
  then show ?case using CBig read_int [of depth "integerValue s"] by simp
next
  case (CDecimal s e)
  have "length (encodeInt (integerValue s)) \<le> length (AppendDecimal [] s e)"
    using AppendInteger_value [of s] CDecimal.prems(1)
    by (simp add: AppendDecimal_def Let_def integerItem.app_written [of "AppendInt _ _"])
  then show ?case using CDecimal read_decimal [of depth "integerValue s" s] by simp
next
  case (CArray ts)
  have "treeItem tp (Suc depth) (encodeTree indef t @ rest, env) = Inr (t, rest, env)" if t: "t \<in> set ts" for t rest
  proof (rule CArray.IH [OF t])
    show "canonical t" using CArray.prems(1) t by simp
    show "Suc depth + levels t \<le> cborMaxDepth"
      using CArray.prems(2) foldr_max [of "levels t" "map levels ts"] t by simp
    have "length (encodeTree indef t) \<le> length (concat (map (encodeTree indef) ts))" by (rule sublist_lengths(1) [OF t])
    also have "\<dots> \<le> length (encodeTree indef (CArray ts))" by simp
    finally show "length (encodeTree indef t) < 2 ^ 64" using CArray.prems(3) by simp
  qed
  then show ?case
    using CArray.prems encodeTree_start by (intro read_array) simp_all
next
  case (CMap ps)
  let ?enc = "\<lambda>(k, t). AppendText [] k @ encodeTree indef t"
  have "treeItem tp (Suc depth) (encodeTree indef t @ rest, env) = Inr (t, rest, env)" if t: "(k, t) \<in> set ps" for k t rest
  proof (rule CMap.IH [OF t])
    show "t \<in> Basic_BNFs.snds (k, t)" by simp
    show "canonical t" using CMap.prems(1) t by auto
    show "Suc depth + levels t \<le> cborMaxDepth"
      using CMap.prems(2) foldr_max [of "levels t" "map (\<lambda>kt. levels (snd kt)) ps"] t by force
    have "length (?enc (k, t)) \<le> length (concat (map ?enc ps))" by (rule sublist_lengths(1) [OF t])
    also have "\<dots> \<le> length (encodeTree indef (CMap ps))" by simp
    finally show "length (encodeTree indef t) < 2 ^ 64" using CMap.prems(3) by simp
  qed
  moreover have "encodeTree indef t \<noteq> []" if "(k, t) \<in> set ps" for k t
    using that CMap.prems(1) encodeTree_start [of t indef] by auto
  ultimately show ?case
    using CMap.prems by (intro read_map) auto
next
  case (CUint x)
  then show ?case by (simp add: AppendUint_def read_uint)
next
  case (CInstant x)
  then show ?case using read_tagged_leaf(3) by (cases x) simp
next
  case (CText s)
  then show ?case using read_text [of s] by (simp add: AppendText_def)
next
  case (CBytes b)
  then show ?case using read_bytes [of b] by (simp add: AppendBytes_def)
qed (simp_all add: read_simple read_signed read_nint read_float read_tagged_leaf)

subsection \<open>Properties\<close>



text \<open>integers keep their value at any size: a decimal integer text is written in the shortest item that holds it, a
  64-bit integer or a bignum, and read back as the same number, whose text is the number's own.\<close>

theorem integer_text_roundtrip:
  assumes "integerSyntax s" "length (AppendInteger [] s) < 2 ^ 31"
  shows "\<exists>i d. NewCBORNode tp (AppendInteger [] s) = Inr (i, d) \<and> integerText d (nodes d ! i) = Some (FormatInt (integerValue s))"
proof -
  have e: "AppendInteger [] s = encodeInt (integerValue s)" by (rule AppendInteger_value [OF assms(1)])
  then have "treeItem tp 0 (AppendInteger [] s @ [], \<lambda>_. None) = Inr (intTree (integerValue s), [], \<lambda>_. None)"
    using assms(2) read_int [of 0 "integerValue s" tp "[]" "\<lambda>_. None"] by (simp add: cborMaxDepth_def)
  then have "readTree tp (AppendInteger [] s) = Inr (intTree (integerValue s))" by (simp add: readTree_def)
  then obtain i d where "NewCBORNode tp (AppendInteger [] s) = Inr (i, d)" "repr d i (intTree (integerValue s))"
    using NewCBORNode_sim [OF assms(2), of tp] by auto
  then show ?thesis using integerText_sim treeIntegerText_intTree by fastforce
qed

theorem integer_text_roundtrip_witness:
  "\<exists>i d. NewCBORNode (\<lambda>_. None) (AppendInteger [] ''-007'') = Inr (i, d) \<and> integerText d (nodes d ! i) = Some ''-7''"
proof -
  have "integerSyntax ''-007''" by code_simp
  moreover have "AppendInteger [] ''-007'' = [0x26]" by code_simp
  moreover have "FormatInt (integerValue ''-007'') = ''-7''" by code_simp
  ultimately show ?thesis using integer_text_roundtrip [of "''-007''" "\<lambda>_. None"] by simp
qed

end
