(* ===== verification/Json_Cbor.thy ===== *)
theory Json_Cbor
  imports Cbor_Roundtrip
begin

text \<open>
  The streaming transcoder from JSON to CBOR, \<open>cborenc/json.go\<close>.  The parser state is the text left to read;
  a function takes the bytes written so far and returns them with what it appended.  The position in
  the text only serves the error messages and is left out.
\<close>

datatype json_error =
    EndOfData | TrailingData | UnexpectedByte | BadLiteral | JsonTooDeep | EndInArray | ExpectedCommaOrBracket
  | ExpectedKey | ExpectedColon | EndInObject | ExpectedCommaOrBrace | EndInString | ControlCharacter
  | BadUnicodeEscape | BadEscape | NumberNeedsDigits | FractionNeedsDigits | ExponentNeedsDigits
  | ExponentOutOfRange | JsonFuel

definition maxJSONDepth :: nat where "maxJSONDepth = 1000"

definition jsonSpace :: "char \<Rightarrow> bool" where
  "jsonSpace c \<longleftrightarrow> c = CHR '' '' \<or> c = CHR 0x09 \<or> c = CHR 0x0A \<or> c = CHR 0x0D"

definition skipJSONSpace :: "string \<Rightarrow> string" where
  "skipJSONSpace s = dropWhile jsonSpace s"

subsection \<open>Strings\<close>

text \<open>Four hexadecimal digits: the rune and what follows.\<close>

definition hex4 :: "string \<Rightarrow> (nat \<times> string) option" where
  "hex4 s =
     (case s of
        a # b # c # d # rest \<Rightarrow>
          (case (hex_val a, hex_val b, hex_val c, hex_val d) of
             (Some w, Some x, Some y, Some z) \<Rightarrow> Some (4096 * w + 256 * x + 16 * y + z, rest)
           | _ \<Rightarrow> None)
      | _ \<Rightarrow> None)"

text \<open>A surrogate half: joined with the escape of the other half that follows, or replaced.\<close>

definition joinSurrogate :: "nat \<Rightarrow> string \<Rightarrow> nat \<times> string" where
  "joinSurrogate r s =
     (if 0xD800 \<le> r \<and> r < 0xE000 then
        if r < 0xDC00 \<and> take 2 s = [CHR 0x5C, CHR ''u''] then
          (case hex4 (drop 2 s) of
             Some (r2, rest) \<Rightarrow>
               if 0xDC00 \<le> r2 \<and> r2 < 0xE000 then ((r - 0xD800) * 1024 + (r2 - 0xDC00) + 0x10000, rest)
               else (runeError, s)
           | None \<Rightarrow> (runeError, s))
        else (runeError, s)
      else (r, s))"

lemma hex4_length: "hex4 s = Some (r, rest) \<Longrightarrow> length s = length rest + 4"
  by (auto simp: hex4_def split: list.splits option.splits)

lemma joinSurrogate_length: "joinSurrogate r s = (r', rest) \<Longrightarrow> length rest \<le> length s"
  using hex4_length [of "drop 2 s"]
  by (auto simp: joinSurrogate_def split: if_splits option.splits prod.splits)

function fixUTF8 :: "string \<Rightarrow> string" where
  "fixUTF8 s = (if s = [] then [] else (let (r, n) = DecodeRune s in encodeRune r @ fixUTF8 (drop n s)))"
  by pat_completeness auto
termination
proof (relation "measure length")
  fix s :: string and x r n
  assume "s \<noteq> []" "x = DecodeRune s" "(r, n) = x"
  then have "1 \<le> n" using DecodeRune_width [of s] by (cases "DecodeRune s") auto
  then show "(drop n s, s) \<in> measure length" using \<open>s \<noteq> []\<close> by simp
qed simp

declare fixUTF8.simps [simp del]

definition validUTF8 :: "string \<Rightarrow> string" where
  "validUTF8 b = (if utf8Valid b then b else fixUTF8 b)"

definition simpleEscape :: "char \<Rightarrow> char option" where
  "simpleEscape e =
     (if e = CHR 0x22 \<or> e = CHR 0x5C \<or> e = CHR ''/'' then Some e
      else if e = CHR ''b'' then Some (CHR 0x08)
      else if e = CHR ''f'' then Some (CHR 0x0C)
      else if e = CHR ''n'' then Some (CHR 0x0A)
      else if e = CHR ''r'' then Some (CHR 0x0D)
      else if e = CHR ''t'' then Some (CHR 0x09)
      else None)"

function (sequential) strLoop :: "string \<Rightarrow> string \<Rightarrow> json_error + string \<times> string" where
  "strLoop out [] = Inl EndInString"
| "strLoop out (c # cs) =
     (if c = CHR 0x22 then Inr (validUTF8 out, cs)
      else if codeOf c < 0x20 then Inl ControlCharacter
      else if c \<noteq> CHR 0x5C then strLoop (out @ [c]) cs
      else
        (case cs of
           [] \<Rightarrow> Inl EndInString
         | e # rest \<Rightarrow>
             (case simpleEscape e of
                Some x \<Rightarrow> strLoop (out @ [x]) rest
              | None \<Rightarrow>
                  if e = CHR ''u'' then
                    (case hex4 rest of
                       None \<Rightarrow> Inl BadUnicodeEscape
                     | Some (r, rest1) \<Rightarrow>
                         strLoop (AppendRune out (fst (joinSurrogate r rest1))) (snd (joinSurrogate r rest1)))
                  else Inl BadEscape)))"
  by pat_completeness auto
termination
proof (relation "measure (\<lambda>(_, s). length s)")
  fix out c cs e rest x r rest1
  assume "cs = e # rest" "hex4 rest = Some x" "(r, rest1) = x"
  then have "length rest = length rest1 + 4" using hex4_length [of rest r rest1] by simp
  moreover have "length (snd (joinSurrogate r rest1)) \<le> length rest1"
    using joinSurrogate_length [of r rest1] by (cases "joinSurrogate r rest1") simp
  ultimately show "((AppendRune out (fst (joinSurrogate r rest1)), snd (joinSurrogate r rest1)), (out, c # cs)) \<in>
      measure (\<lambda>(_, s). length s)"
    using \<open>cs = e # rest\<close> by simp
qed simp_all

declare strLoop.simps [simp del]

definition plainChar :: "char \<Rightarrow> bool" where
  "plainChar c \<longleftrightarrow> c \<noteq> CHR 0x22 \<and> c \<noteq> CHR 0x5C \<and> 0x20 \<le> codeOf c"

text \<open>\<open>str\<close>, after the opening quote: the bytes up to the quote when none is special, the loop otherwise.\<close>

definition str :: "string \<Rightarrow> json_error + string \<times> string" where
  "str s =
     (let s0 = takeWhile plainChar s; rest = dropWhile plainChar s in
      if rest \<noteq> [] \<and> hd rest = CHR 0x22 then Inr (validUTF8 s0, tl rest) else strLoop s0 rest)"

subsection \<open>Numbers\<close>

definition digitRun :: "string \<Rightarrow> string \<times> string" where
  "digitRun s = (takeWhile isDigit s, dropWhile isDigit s)"

definition intDigits :: "string \<Rightarrow> json_error + string \<times> string" where
  "intDigits s =
     (if s \<noteq> [] \<and> hd s = CHR ''0'' then Inr ([CHR ''0''], tl s)
      else let (ds, rest) = digitRun s in if ds = [] then Inl NumberNeedsDigits else Inr (ds, rest))"

definition fracDigits :: "string \<Rightarrow> json_error + string \<times> string" where
  "fracDigits s =
     (if s \<noteq> [] \<and> hd s = CHR ''.'' then
        let (ds, rest) = digitRun (tl s) in if ds = [] then Inl FractionNeedsDigits else Inr (ds, rest)
      else Inr ([], s))"

definition expSign :: "string \<Rightarrow> string \<times> string" where
  "expSign s = (if s \<noteq> [] \<and> (hd s = CHR ''+'' \<or> hd s = CHR ''-'') then ([hd s], tl s) else ([], s))"

definition expPart :: "string \<Rightarrow> json_error + int option \<times> string" where
  "expPart s =
     (if s \<noteq> [] \<and> (hd s = CHR ''e'' \<or> hd s = CHR ''E'') then
        let (sign, s1) = expSign (tl s); (ds, rest) = digitRun s1 in
        if ds = [] then Inl ExponentNeedsDigits
        else (case Atoi (sign @ ds) of None \<Rightarrow> Inl ExponentOutOfRange | Some e \<Rightarrow> Inr (Some e, rest))
      else Inr (None, s))"

definition number :: "bytes \<Rightarrow> string \<Rightarrow> json_error + bytes \<times> string" where
  "number dst s =
     (let neg = (hd s = CHR ''-''); sign = (if neg then ''-'' else []) in
      bindR (intDigits (if neg then tl s else s)) (\<lambda>(ip, s1).
      bindR (fracDigits s1) (\<lambda>(fp, s2).
      bindR (expPart s2) (\<lambda>(e, s3).
        if fp = [] \<and> e = None then Inr (AppendInteger dst (sign @ ip), s3)
        else
          Inr (AppendDecimal dst (sign @ ip @ fp)
                 (word_of_int (case e of None \<Rightarrow> 0 | Some x \<Rightarrow> x) - word_of_nat (length fp)), s3)))))"

subsection \<open>Values\<close>

type_synonym jsonWriter = "bytes \<Rightarrow> string \<Rightarrow> json_error + bytes \<times> string"

definition literal :: "string \<Rightarrow> bytes \<Rightarrow> jsonWriter" where
  "literal word cbor dst s =
     (if take (length word) s \<noteq> word then Inl BadLiteral else Inr (dst @ cbor, drop (length word) s))"

text \<open>\<open>rec\<close> writes a value one level down.  Every turn of a loop reads at least one character.\<close>

fun arrayLoop :: "nat \<Rightarrow> jsonWriter \<Rightarrow> jsonWriter" where
  "arrayLoop 0 rec dst s = Inl JsonFuel"
| "arrayLoop (Suc fuel) rec dst s =
     bindR (rec dst s) (\<lambda>(dst1, s1).
       case skipJSONSpace s1 of
         [] \<Rightarrow> Inl EndInArray
       | c # rest \<Rightarrow>
           if c = CHR '','' then arrayLoop fuel rec dst1 rest
           else if c = CHR '']'' then Inr (dst1 @ [Break], rest)
           else Inl ExpectedCommaOrBracket)"

definition array :: "(nat \<Rightarrow> jsonWriter) \<Rightarrow> nat \<Rightarrow> jsonWriter" where
  "array rec depth dst s =
     (if depth \<ge> maxJSONDepth then Inl JsonTooDeep
      else
        let dst1 = dst @ [IndefiniteArray]; s1 = skipJSONSpace (tl s) in
        if s1 \<noteq> [] \<and> hd s1 = CHR '']'' then Inr (dst1 @ [Break], tl s1)
        else arrayLoop (Suc (length s1)) (rec (depth + 1)) dst1 s1)"

definition member :: "jsonWriter \<Rightarrow> jsonWriter" where
  "member rec dst s =
     (let s0 = skipJSONSpace s in
      if s0 = [] \<or> hd s0 \<noteq> CHR 0x22 then Inl ExpectedKey
      else
        bindR (str (tl s0)) (\<lambda>(key, s1).
          let dst1 = AppendTextBytes dst (map byteOf key); s2 = skipJSONSpace s1 in
          if s2 = [] \<or> hd s2 \<noteq> CHR '':'' then Inl ExpectedColon else rec dst1 (tl s2)))"

fun objectLoop :: "nat \<Rightarrow> jsonWriter \<Rightarrow> jsonWriter" where
  "objectLoop 0 rec dst s = Inl JsonFuel"
| "objectLoop (Suc fuel) rec dst s =
     bindR (member rec dst s) (\<lambda>(dst1, s1).
       case skipJSONSpace s1 of
         [] \<Rightarrow> Inl EndInObject
       | c # rest \<Rightarrow>
           if c = CHR '','' then objectLoop fuel rec dst1 rest
           else if c = CHR ''}'' then Inr (dst1 @ [Break], rest)
           else Inl ExpectedCommaOrBrace)"

definition object :: "(nat \<Rightarrow> jsonWriter) \<Rightarrow> nat \<Rightarrow> jsonWriter" where
  "object rec depth dst s =
     (if depth \<ge> maxJSONDepth then Inl JsonTooDeep
      else
        let dst1 = dst @ [IndefiniteMap]; s1 = skipJSONSpace (tl s) in
        if s1 \<noteq> [] \<and> hd s1 = CHR ''}'' then Inr (dst1 @ [Break], tl s1)
        else objectLoop (Suc (length s1)) (rec (depth + 1)) dst1 s1)"

definition valueStep :: "(nat \<Rightarrow> jsonWriter) \<Rightarrow> nat \<Rightarrow> jsonWriter" where
  "valueStep rec depth dst s =
     (case skipJSONSpace s of
        [] \<Rightarrow> Inl EndOfData
      | c # rest \<Rightarrow>
          if c = CHR ''{'' then object rec depth dst (c # rest)
          else if c = CHR ''['' then array rec depth dst (c # rest)
          else if c = CHR 0x22 then bindR (str rest) (\<lambda>(t, s1). Inr (AppendTextBytes dst (map byteOf t), s1))
          else if c = CHR ''-'' \<or> isDigit c then number dst (c # rest)
          else if c = CHR ''t'' then literal ''true'' (AppendBool [] True) dst (c # rest)
          else if c = CHR ''f'' then literal ''false'' (AppendBool [] False) dst (c # rest)
          else if c = CHR ''n'' then literal ''null'' (AppendNull []) dst (c # rest)
          else Inl UnexpectedByte)"

lemma valueStep_cong [fundef_cong]:
  assumes "depth = depth'" "dst = dst'" "s = s'"
    and "\<And>e x y. depth' < e \<Longrightarrow> depth' < maxJSONDepth \<Longrightarrow> rec e x y = rec' e x y"
  shows "valueStep rec depth dst s = valueStep rec' depth' dst' s'"
proof -
  have "array rec depth x y = array rec' depth x y \<and> object rec depth x y = object rec' depth x y" for x y
  proof (cases "depth < maxJSONDepth")
    case True
    then have "rec (depth + 1) = rec' (depth + 1)" using assms(1,4) by (intro ext) simp
    then show ?thesis by (simp only: array_def object_def)
  qed (simp add: array_def object_def)
  then show ?thesis using assms(1-3) by (simp add: valueStep_def split: list.split)
qed

function jsonValue :: "nat \<Rightarrow> jsonWriter" where
  "jsonValue depth dst s = valueStep jsonValue depth dst s"
  by pat_completeness auto
termination
  by (relation "measure (\<lambda>(depth, _, _). maxJSONDepth - depth)") auto

declare jsonValue.simps [simp del]

definition AppendJSON :: "bytes \<Rightarrow> string \<Rightarrow> json_error + bytes" where
  "AppendJSON dst src =
     bindR (jsonValue 0 dst src) (\<lambda>(out, s). if skipJSONSpace s \<noteq> [] then Inl TrailingData else Inr out)"

subsection \<open>Parsing and encoding apart\<close>

text \<open>The reference: the same grammar read into a tree, to be encoded afterwards.\<close>

type_synonym 'a jsonReader = "string \<Rightarrow> json_error + 'a \<times> string"

definition numberTree :: "ctree jsonReader" where
  "numberTree s =
     (let neg = (hd s = CHR ''-''); sign = (if neg then ''-'' else []) in
      bindR (intDigits (if neg then tl s else s)) (\<lambda>(ip, s1).
      bindR (fracDigits s1) (\<lambda>(fp, s2).
      bindR (expPart s2) (\<lambda>(e, s3).
        if fp = [] \<and> e = None then Inr (intTree (integerValue (sign @ ip)), s3)
        else
          Inr (CDecimal (FormatInt (integerValue (sign @ ip @ fp)))
                 (word_of_int (case e of None \<Rightarrow> 0 | Some x \<Rightarrow> x) - word_of_nat (length fp)), s3)))))"

definition literalTree :: "string \<Rightarrow> ctree \<Rightarrow> ctree jsonReader" where
  "literalTree word t s = (if take (length word) s \<noteq> word then Inl BadLiteral else Inr (t, drop (length word) s))"

fun elementsTree :: "nat \<Rightarrow> ctree jsonReader \<Rightarrow> ctree list \<Rightarrow> ctree list jsonReader" where
  "elementsTree 0 rec acc s = Inl JsonFuel"
| "elementsTree (Suc fuel) rec acc s =
     bindR (rec s) (\<lambda>(t, s1).
       case skipJSONSpace s1 of
         [] \<Rightarrow> Inl EndInArray
       | c # rest \<Rightarrow>
           if c = CHR '','' then elementsTree fuel rec (acc @ [t]) rest
           else if c = CHR '']'' then Inr (acc @ [t], rest)
           else Inl ExpectedCommaOrBracket)"

definition arrayTree :: "(nat \<Rightarrow> ctree jsonReader) \<Rightarrow> nat \<Rightarrow> ctree jsonReader" where
  "arrayTree rec depth s =
     (if depth \<ge> maxJSONDepth then Inl JsonTooDeep
      else
        let s1 = skipJSONSpace (tl s) in
        if s1 \<noteq> [] \<and> hd s1 = CHR '']'' then Inr (CArray [], tl s1)
        else bindR (elementsTree (Suc (length s1)) (rec (depth + 1)) [] s1) (\<lambda>(ts, r). Inr (CArray ts, r)))"

definition memberTree :: "ctree jsonReader \<Rightarrow> (string \<times> ctree) jsonReader" where
  "memberTree rec s =
     (let s0 = skipJSONSpace s in
      if s0 = [] \<or> hd s0 \<noteq> CHR 0x22 then Inl ExpectedKey
      else
        bindR (str (tl s0)) (\<lambda>(key, s1).
          let s2 = skipJSONSpace s1 in
          if s2 = [] \<or> hd s2 \<noteq> CHR '':'' then Inl ExpectedColon
          else bindR (rec (tl s2)) (\<lambda>(t, r). Inr ((key, t), r))))"

fun membersTree :: "nat \<Rightarrow> ctree jsonReader \<Rightarrow> (string \<times> ctree) list \<Rightarrow> (string \<times> ctree) list jsonReader" where
  "membersTree 0 rec acc s = Inl JsonFuel"
| "membersTree (Suc fuel) rec acc s =
     bindR (memberTree rec s) (\<lambda>(kt, s1).
       case skipJSONSpace s1 of
         [] \<Rightarrow> Inl EndInObject
       | c # rest \<Rightarrow>
           if c = CHR '','' then membersTree fuel rec (acc @ [kt]) rest
           else if c = CHR ''}'' then Inr (acc @ [kt], rest)
           else Inl ExpectedCommaOrBrace)"

definition objectTree :: "(nat \<Rightarrow> ctree jsonReader) \<Rightarrow> nat \<Rightarrow> ctree jsonReader" where
  "objectTree rec depth s =
     (if depth \<ge> maxJSONDepth then Inl JsonTooDeep
      else
        let s1 = skipJSONSpace (tl s) in
        if s1 \<noteq> [] \<and> hd s1 = CHR ''}'' then Inr (CMap [], tl s1)
        else bindR (membersTree (Suc (length s1)) (rec (depth + 1)) [] s1) (\<lambda>(ps, r). Inr (CMap ps, r)))"

definition jsonStep :: "(nat \<Rightarrow> ctree jsonReader) \<Rightarrow> nat \<Rightarrow> ctree jsonReader" where
  "jsonStep rec depth s =
     (case skipJSONSpace s of
        [] \<Rightarrow> Inl EndOfData
      | c # rest \<Rightarrow>
          if c = CHR ''{'' then objectTree rec depth (c # rest)
          else if c = CHR ''['' then arrayTree rec depth (c # rest)
          else if c = CHR 0x22 then bindR (str rest) (\<lambda>(t, s1). Inr (CText t, s1))
          else if c = CHR ''-'' \<or> isDigit c then numberTree (c # rest)
          else if c = CHR ''t'' then literalTree ''true'' (CBool True) (c # rest)
          else if c = CHR ''f'' then literalTree ''false'' (CBool False) (c # rest)
          else if c = CHR ''n'' then literalTree ''null'' CNull (c # rest)
          else Inl UnexpectedByte)"

lemma jsonStep_cong [fundef_cong]:
  assumes "depth = depth'" "s = s'"
    and "\<And>e x. depth' < e \<Longrightarrow> depth' < maxJSONDepth \<Longrightarrow> rec e x = rec' e x"
  shows "jsonStep rec depth s = jsonStep rec' depth' s'"
proof -
  have "arrayTree rec depth x = arrayTree rec' depth x \<and> objectTree rec depth x = objectTree rec' depth x" for x
  proof (cases "depth < maxJSONDepth")
    case True
    then have "rec (depth + 1) = rec' (depth + 1)" using assms(1,3) by (intro ext) simp
    then show ?thesis by (simp only: arrayTree_def objectTree_def)
  qed (simp add: arrayTree_def objectTree_def)
  then show ?thesis using assms(1,2) by (simp add: jsonStep_def split: list.split)
qed

function jsonTree :: "nat \<Rightarrow> ctree jsonReader" where
  "jsonTree depth s = jsonStep jsonTree depth s"
  by pat_completeness auto
termination
  by (relation "measure (\<lambda>(depth, _). maxJSONDepth - depth)") auto

declare jsonTree.simps [simp del]

definition parseJSON :: "string \<Rightarrow> json_error + ctree" where
  "parseJSON src =
     bindR (jsonTree 0 src) (\<lambda>(t, s). if skipJSONSpace s \<noteq> [] then Inl TrailingData else Inr t)"

subsection \<open>Transcoding is parsing, then encoding\<close>

definition emit :: "bytes \<Rightarrow> json_error + ctree \<times> string \<Rightarrow> json_error + bytes \<times> string" where
  "emit dst m = bindR m (\<lambda>(t, r). Inr (dst @ encodeTree True t, r))"

lemma integerSyntax_FormatInt: "integerSyntax (FormatInt i)" and integerValue_FormatInt: "integerValue (FormatInt i) = i"
proof -
  have n: "\<not> negText (showNat k)" for k
    using hd_showNat_digit [of k] digit_not_minus by (auto simp: negText_def)
  show "integerSyntax (FormatInt i)"
    using n showNat_digits by (simp add: integerSyntax_def FormatInt_def textDigits_def negText_def)
  show "integerValue (FormatInt i) = i"
    using n by (simp add: integerValue_def FormatInt_def textDigits_def negText_def)
qed

lemma encodeTree_intTree: "encodeTree indef (intTree i) = encodeInt i"
  using AppendInteger_value [OF integerSyntax_FormatInt, of i] integerValue_FormatInt [of i] sint_word_of_int64 [of i]
  by (auto simp: intTree_def AppendInt_encodeInt AppendUint_def encodeInt_def)

lemma canonical_intTree: "canonical (intTree i)"
  using integerSyntax_FormatInt [of i] integerValue_FormatInt [of i] uint_word_of_int64 [of i] uint_word_of_int64 [of "- 1 - i"]
  by (auto simp: intTree_def maxInt64_less)

lemma AppendDecimal_value:
  assumes "integerSyntax m"
  shows "AppendDecimal dst m e = dst @ AppendDecimal [] (FormatInt (integerValue m)) e"
proof -
  have "AppendInteger d m = AppendInteger d (FormatInt (integerValue m))" for d
    using AppendInteger_value [OF assms] AppendInteger_value [OF integerSyntax_FormatInt] integerValue_FormatInt
      integerItem.app_written [of d] by simp
  moreover have "AppendDecimal dst m e = dst @ AppendDecimal [] m e"
    using decimalItem.app_written [of dst "(m, e)"] by simp
  ultimately show ?thesis by (simp add: AppendDecimal_def Let_def)
qed

lemma takeWhile_digits: "list_all isDigit (takeWhile isDigit s)"
  by (auto simp: list_all_iff dest: set_takeWhileD)

lemma intDigits_syntax: "intDigits s = Inr (ip, s1) \<Longrightarrow> ip \<noteq> [] \<and> list_all isDigit ip \<and> length s1 < length s"
  using takeWhile_digits [of s] takeWhile_dropWhile_id [of isDigit s]
  by (cases s) (auto simp: intDigits_def digitRun_def isDigit_def less_eq_char_def le_imp_less_Suc length_dropWhile_le split: if_splits)

lemma fracDigits_syntax: "fracDigits s = Inr (fp, s1) \<Longrightarrow> list_all isDigit fp \<and> length s1 \<le> length s"
  using takeWhile_digits [of "tl s"] length_dropWhile_le [of isDigit "tl s"]
  by (cases s) (auto simp: fracDigits_def digitRun_def split: if_splits)

lemma expPart_length: "expPart s = Inr (e, s1) \<Longrightarrow> length s1 \<le> length s"
  using length_dropWhile_le [of isDigit "snd (expSign (tl s))"]
  by (cases s) (auto simp: expPart_def expSign_def digitRun_def Let_def split: if_splits option.splits)

lemma sign_syntax: "ds \<noteq> [] \<Longrightarrow> list_all isDigit ds \<Longrightarrow> integerSyntax ((if neg then ''-'' else []) @ ds)"
  using digit_not_minus by (cases ds) (auto simp: integerSyntax_def textDigits_def negText_def)

lemma number_emit: "number dst s = emit dst (numberTree s)"
proof -
  define sgn where "sgn = (if hd s = CHR ''-'' then ''-'' else [])"
  define s0 where "s0 = (if hd s = CHR ''-'' then tl s else s)"
  have int: "AppendInteger dst (sgn @ ip) = dst @ encodeTree True (intTree (integerValue (sgn @ ip)))"
    if "intDigits s0 = Inr (ip, s1)" for ip s1
    using AppendInteger_value [OF sign_syntax [of ip "hd s = CHR ''-''"]] intDigits_syntax [OF that]
      integerItem.app_written [of dst] by (simp add: encodeTree_intTree sgn_def)
  have dec: "AppendDecimal dst (sgn @ ip @ fp) e = dst @ encodeTree True (CDecimal (FormatInt (integerValue (sgn @ ip @ fp))) e)"
    if "intDigits s0 = Inr (ip, s1)" "fracDigits s1 = Inr (fp, s2)" for ip s1 fp s2 e
    using AppendDecimal_value [OF sign_syntax [of "ip @ fp" "hd s = CHR ''-''"]] intDigits_syntax [OF that(1)] fracDigits_syntax [OF that(2)]
    by (simp add: sgn_def)
  show ?thesis
    unfolding number_def numberTree_def emit_def Let_def sgn_def [symmetric] s0_def [symmetric]
  proof (cases "intDigits s0", goal_cases)
    case (2 p1)
    obtain ip s1 where p1: "p1 = (ip, s1)" by (cases p1)
    note i = 2 [unfolded p1]
    show ?case
    proof (cases "fracDigits s1")
      case (Inr p2)
      obtain fp s2 where p2: "p2 = (fp, s2)" by (cases p2)
      note f = Inr [unfolded p2]
      show ?thesis
        using int [OF i] dec [OF i f] by (cases "expPart s2") (auto simp: i f simp del: encodeTree.simps)
    qed (simp add: i)
  qed simp
qed

lemma literal_emit: "encodeTree True t = cbor \<Longrightarrow> literal word cbor dst s = emit dst (literalTree word t s)"
  by (simp add: literal_def literalTree_def emit_def)

lemma arrayLoop_emit:
  assumes "\<And>dst s. rec dst s = emit dst (recT s)"
  shows "arrayLoop fuel rec (dst @ concat (map (encodeTree True) acc)) s =
    bindR (elementsTree fuel recT acc s) (\<lambda>(ts, r). Inr (dst @ concat (map (encodeTree True) ts) @ [Break], r))"
proof (induction fuel arbitrary: acc s)
  case (Suc fuel)
  show ?case
  proof (cases "recT s")
    case (Inr p)
    then obtain t s1 where t: "recT s = Inr (t, s1)" by (cases p) simp
    show ?thesis
      using Suc.IH [of "acc @ [t]"] by (simp add: assms emit_def t split: list.split)
  qed (simp add: assms emit_def)
qed simp

lemma objectLoop_emit:
  assumes "\<And>dst s. rec dst s = emit dst (recT s)"
  defines "enc \<equiv> \<lambda>(k, t). AppendText [] k @ encodeTree True t"
  shows "objectLoop fuel rec (dst @ concat (map enc acc)) s =
    bindR (membersTree fuel recT acc s) (\<lambda>(ps, r). Inr (dst @ concat (map enc ps) @ [Break], r))"
proof (induction fuel arbitrary: acc s)
  case (Suc fuel)
  have mem: "member rec d s = bindR (memberTree recT s) (\<lambda>(kt, r). Inr (d @ enc kt, r))" for d
  proof -
    have "AppendTextBytes d (map byteOf k) = d @ AppendText [] k" for k
      using textBytesItem.app_written [of d] by (simp add: AppendText_bytes)
    then show ?thesis
      by (auto simp: member_def memberTree_def Let_def assms(1) emit_def enc_def bindR_def split: sum.splits list.splits if_splits)
  qed
  show ?case
  proof (cases "memberTree recT s")
    case (Inr p)
    then obtain kt s1 where t: "memberTree recT s = Inr (kt, s1)" by (cases p) simp
    show ?thesis
      using Suc.IH [of "acc @ [kt]"] by (simp add: mem t split: list.split)
  qed (simp add: mem)
qed simp

lemma valueStep_emit:
  assumes "\<And>e dst s. depth < e \<Longrightarrow> depth < maxJSONDepth \<Longrightarrow> rec e dst s = emit dst (recT e s)"
  shows "valueStep rec depth dst s = emit dst (jsonStep recT depth s)"
proof -
  have arr: "array rec depth dst x = emit dst (arrayTree recT depth x)" for x
  proof (cases "depth < maxJSONDepth")
    case True
    then have "arrayLoop fuel (rec (depth + 1)) (dst @ [IndefiniteArray]) y =
        bindR (elementsTree fuel (recT (depth + 1)) [] y)
          (\<lambda>(ts, r). Inr (dst @ [IndefiniteArray] @ concat (map (encodeTree True) ts) @ [Break], r))" for fuel y
      using arrayLoop_emit [of "rec (depth + 1)" "recT (depth + 1)" fuel "dst @ [IndefiniteArray]" "[]" y] assms by simp
    then show ?thesis
      using True by (auto simp: array_def arrayTree_def emit_def Let_def bindR_def simp del: arrayLoop.simps elementsTree.simps split: sum.split)
  qed (simp add: array_def arrayTree_def emit_def)
  have obj: "object rec depth dst x = emit dst (objectTree recT depth x)" for x
  proof (cases "depth < maxJSONDepth")
    case True
    then have "objectLoop fuel (rec (depth + 1)) (dst @ [IndefiniteMap]) y =
        bindR (membersTree fuel (recT (depth + 1)) [] y)
          (\<lambda>(ps, r). Inr (dst @ [IndefiniteMap] @ concat (map (\<lambda>(k, t). AppendText [] k @ encodeTree True t) ps) @ [Break], r))" for fuel y
      using objectLoop_emit [of "rec (depth + 1)" "recT (depth + 1)" fuel "dst @ [IndefiniteMap]" "[]" y] assms by simp
    then show ?thesis
      using True by (auto simp: object_def objectTree_def emit_def Let_def bindR_def simp del: objectLoop.simps membersTree.simps split: sum.split)
  qed (simp add: object_def objectTree_def emit_def)
  have str_emit: "bindR (str x) (\<lambda>(t, s1). Inr (AppendTextBytes dst (map byteOf t), s1)) =
      emit dst (bindR (str x) (\<lambda>(t, s1). Inr (CText t, s1)))" for x
    using textBytesItem.app_written [of dst]
    by (cases "str x") (auto simp: emit_def AppendText_bytes)
  have err: "Inl e = emit dst (Inl e)" for e by (simp add: emit_def)
  show ?thesis
    unfolding valueStep_def jsonStep_def
    by (simp add: arr obj str_emit number_emit literal_emit err split: list.split)
qed

lemma jsonValue_emit: "jsonValue depth dst s = emit dst (jsonTree depth s)"
proof (induction "maxJSONDepth - depth" arbitrary: depth dst s rule: less_induct)
  case less
  show ?case
    unfolding jsonValue.simps [of depth] jsonTree.simps [of depth] by (rule valueStep_emit) (rule less, simp)
qed

subsection \<open>Texts written are UTF-8\<close>

lemma codeOf_char_of: "n < 256 \<Longrightarrow> codeOf (char_of n) = n"
  by (simp add: codeOf_def)

lemma DecodeRune_3:
  fixes a b c :: nat
  assumes "a < 16" "b < 64" "c < 64" "a = 0 \<Longrightarrow> 32 \<le> b" "a = 13 \<Longrightarrow> b < 32"
  shows "snd (DecodeRune (char_of (0xE0 + a) # char_of (0x80 + b) # char_of (0x80 + c) # s)) = 3"
  using assms by (simp add: DecodeRune_def Let_def codeOf_char_of cont_def secondRange_def) linarith

lemma DecodeRune_4:
  fixes a b c d :: nat
  assumes "a < 5" "b < 64" "c < 64" "d < 64" "a = 0 \<Longrightarrow> 16 \<le> b" "a = 4 \<Longrightarrow> b < 16"
  shows "snd (DecodeRune (char_of (0xF0 + a) # char_of (0x80 + b) # char_of (0x80 + c) # char_of (0x80 + d) # s)) = 4"
  using assms by (simp add: DecodeRune_def Let_def codeOf_char_of cont_def secondRange_def) linarith

lemma DecodeRune_encodeRune:
  "snd (DecodeRune (encodeRune r @ s)) = length (encodeRune r) \<and>
     (fst (DecodeRune (encodeRune r @ s)) \<noteq> runeError \<or> length (encodeRune r) \<noteq> 1)"
proof -
  consider "r < 0x80" | "0x80 \<le> r" "r < 0x800" | "0x800 \<le> r" "(0xD800 \<le> r \<and> r < 0xE000) \<or> 0x10FFFF < r"
    | "0x800 \<le> r" "r < 0x10000" "\<not> (0xD800 \<le> r \<and> r < 0xE000)" | "0x10000 \<le> r" "r \<le> 0x10FFFF"
    by linarith
  then show ?thesis
  proof cases
    case 1
    then show ?thesis by (simp add: encodeRune_def DecodeRune_def Let_def codeOf_char_of runeError_def split: prod.split)
  next
    case 2
    moreover have "2 \<le> r div 64" "r div 64 < 32" using 2 by auto
    ultimately show ?thesis
      by (auto simp: encodeRune_def DecodeRune_def Let_def codeOf_char_of cont_def secondRange_def)
  next
    case 3
    then show ?thesis by (auto simp: encodeRune_def DecodeRune_def Let_def codeOf_def cont_def secondRange_def)
  next
    case 4
    have d: "r div 4096 < 16" "r div 64 mod 64 < 64" "r div 64 = 64 * (r div 4096) + r div 64 mod 64"
      using 4 div_mult2_eq [of r 64 64] by auto
    have b: "r div 4096 = 0 \<Longrightarrow> 32 \<le> r div 64 mod 64" "r div 4096 = 13 \<Longrightarrow> r div 64 mod 64 < 32" using d 4 by auto
    have "encodeRune r = [char_of (0xE0 + r div 4096), char_of (0x80 + r div 64 mod 64), char_of (0x80 + r mod 64)]"
      using 4 unfolding encodeRune_def by auto
    then show ?thesis using DecodeRune_3 [OF d(1,2) _ b, of "r mod 64" s] by simp
  next
    case 5
    have d: "r div 262144 < 5" "r div 4096 mod 64 < 64" "r div 4096 = 64 * (r div 262144) + r div 4096 mod 64"
      using 5 div_mult2_eq [of r 4096 64] by auto
    have b: "r div 262144 = 0 \<Longrightarrow> 16 \<le> r div 4096 mod 64" "r div 262144 = 4 \<Longrightarrow> r div 4096 mod 64 < 16" using d 5 by auto
    have "encodeRune r = [char_of (0xF0 + r div 262144), char_of (0x80 + r div 4096 mod 64), char_of (0x80 + r div 64 mod 64),
        char_of (0x80 + r mod 64)]"
      using 5 unfolding encodeRune_def by simp
    then show ?thesis using DecodeRune_4 [OF d(1,2) _ _ b, of "r div 64 mod 64" "r mod 64" s] by simp
  qed
qed

lemma encodeRune_Nil: "encodeRune r \<noteq> []"
  by (simp add: encodeRune_def)

lemma utf8Valid_encodeRune: "utf8Valid (encodeRune r @ s) = utf8Valid s"
  using DecodeRune_encodeRune [of r s] by (subst utf8Valid.simps) (auto simp: encodeRune_Nil split_beta Let_def)

lemma utf8Valid_fixUTF8: "utf8Valid (fixUTF8 s)"
proof (induction s rule: fixUTF8.induct)
  case (1 s)
  show ?case
  proof (cases "s = []")
    case True
    then show ?thesis by (simp add: fixUTF8.simps utf8Valid.simps)
  next
    case False
    then show ?thesis using 1 by (subst fixUTF8.simps) (auto simp: utf8Valid_encodeRune Let_def split: prod.split)
  qed
qed

lemma utf8Valid_validUTF8: "utf8Valid (validUTF8 s)"
  by (simp add: validUTF8_def utf8Valid_fixUTF8)

lemma joinSurrogate_snd: "length (snd (joinSurrogate r x)) \<le> length x"
  using joinSurrogate_length [of r x] by (cases "joinSurrogate r x") simp

lemma strLoop_result: "strLoop out s = Inr (t, rest) \<Longrightarrow> utf8Valid t \<and> length rest < length s"
proof (induction "length s" arbitrary: out s rule: less_induct)
  case less
  have IH: "utf8Valid t \<and> length rest < length s'" if "strLoop out' s' = Inr (t, rest)" "length s' < length s" for out' s'
    using less.hyps that by simp
  show ?case
  proof (cases s)
    case (Cons c cs)
    consider "c = CHR 0x22" | "c \<noteq> CHR 0x22" "c \<noteq> CHR 0x5C" | "c = CHR 0x5C" by auto
    then show ?thesis
    proof cases
      case 1
      then show ?thesis using less.prems by (auto simp: Cons strLoop.simps utf8Valid_validUTF8)
    next
      case 2
      then have "strLoop (out @ [c]) cs = Inr (t, rest)"
        using less.prems by (simp add: Cons strLoop.simps(2) [of out c] split: if_splits)
      from IH [OF this] show ?thesis by (simp add: Cons)
    next
      case 3
      show ?thesis
      proof (cases cs)
        case Nil
        then show ?thesis using less.prems 3 \<open>s = c # cs\<close> by (simp add: strLoop.simps codeOf_def)
      next
        case (Cons e es)
        have s: "s = CHR 0x5C # e # es" using 3 Cons \<open>s = c # cs\<close> by simp
        show ?thesis
        proof (cases "simpleEscape e")
          case None
          then obtain r rest1 where h: "hex4 es = Some (r, rest1)"
            and l: "strLoop (AppendRune out (fst (joinSurrogate r rest1))) (snd (joinSurrogate r rest1)) = Inr (t, rest)"
            using less.prems by (auto simp: s strLoop.simps(2) [of out] codeOf_def split: if_splits option.splits)
          then show ?thesis
            using IH [OF l] hex4_length [OF h] joinSurrogate_snd [of r rest1] by (simp add: s)
        next
          case (Some x)
          then have "strLoop (out @ [x]) es = Inr (t, rest)"
            using less.prems by (simp add: s strLoop.simps(2) [of out] codeOf_def)
          from IH [OF this] show ?thesis by (simp add: s)
        qed
      qed
    qed
  qed (use less.prems in \<open>simp add: strLoop.simps\<close>)
qed

lemma str_result: "str s = Inr (t, rest) \<Longrightarrow> utf8Valid t \<and> length rest < length s"
  using strLoop_result [of "takeWhile plainChar s" "dropWhile plainChar s" t rest] length_dropWhile_le [of plainChar s]
  by (cases "dropWhile plainChar s") (auto simp: str_def Let_def utf8Valid_validUTF8 split: if_splits)

text \<open>The fast path only skips ahead: reading is the loop from the start.\<close>

lemma strLoop_plain: "list_all plainChar p \<Longrightarrow> strLoop out (p @ s) = strLoop (out @ p) s"
  by (induction p arbitrary: out) (simp_all add: strLoop.simps plainChar_def)

lemma str_strLoop: "str s = strLoop [] s"
proof -
  have "strLoop [] (takeWhile plainChar s @ dropWhile plainChar s) = strLoop (takeWhile plainChar s) (dropWhile plainChar s)"
    by (subst strLoop_plain) (auto simp: list_all_iff dest: set_takeWhileD)
  then have "strLoop [] s = strLoop (takeWhile plainChar s) (dropWhile plainChar s)" by simp
  moreover have "strLoop out (CHR 0x22 # x) = Inr (validUTF8 out, x)" for out x by (simp add: strLoop.simps)
  ultimately show ?thesis
    by (cases "dropWhile plainChar s") (simp_all add: str_def Let_def del: dropWhile_eq_Nil_conv)
qed
subsection \<open>Every document is read to its end\<close>

fun distinctKeys :: "ctree \<Rightarrow> bool" where
  "distinctKeys (CArray ts) \<longleftrightarrow> (\<forall>t \<in> set ts. distinctKeys t)"
| "distinctKeys (CMap ps) \<longleftrightarrow> distinct (map fst ps) \<and> (\<forall>kt \<in> set ps. distinctKeys (snd kt))"
| "distinctKeys _ \<longleftrightarrow> True"

text \<open>A reader that moves forward, does not run out of turns and gives trees the encoders write in one way.\<close>

definition good :: "('a \<Rightarrow> bool) \<Rightarrow> string \<Rightarrow> json_error + 'a \<times> string \<Rightarrow> bool" where
  "good P s m \<longleftrightarrow> m \<noteq> Inl JsonFuel \<and> (\<forall>t r. m = Inr (t, r) \<longrightarrow> length r < length s \<and> P t)"

definition fine :: "ctree \<Rightarrow> bool" where
  "fine t \<longleftrightarrow> (distinctKeys t \<longrightarrow> canonical t)"

lemma goodI: "m \<noteq> Inl JsonFuel \<Longrightarrow> (\<And>t r. m = Inr (t, r) \<Longrightarrow> length r < length s \<and> P t) \<Longrightarrow> good P s m"
  by (simp add: good_def)

lemma goodD: "good P s (Inr (t, r)) \<Longrightarrow> length r < length s" "good P s (Inr (t, r)) \<Longrightarrow> P t"
  by (simp_all add: good_def)

lemma skipJSONSpace_length: "length (skipJSONSpace s) \<le> length s"
  by (simp add: skipJSONSpace_def length_dropWhile_le)

lemma expPart_fuel: "intDigits s \<noteq> Inl JsonFuel" "fracDigits s \<noteq> Inl JsonFuel" "expPart s \<noteq> Inl JsonFuel"
  by (auto simp: intDigits_def fracDigits_def expPart_def Let_def split: prod.split option.split)

lemma strLoop_fuel: "strLoop out s \<noteq> Inl JsonFuel"
  by (induction out s rule: strLoop.induct)
     (subst strLoop.simps, simp split: list.split option.split prod.split)+

lemma str_good: "good utf8Valid s (str s)"
  using str_result by (auto simp: good_def str_strLoop strLoop_fuel)

lemma numberTree_good: "s \<noteq> [] \<Longrightarrow> good fine s (numberTree s)"
proof (rule goodI)
  show "numberTree s \<noteq> Inl JsonFuel"
    using expPart_fuel by (auto simp: numberTree_def Let_def bindR_eq_Inl_iff)
  fix t r
  assume "s \<noteq> []" and n: "numberTree s = Inr (t, r)"
  define s0 where "s0 = (if hd s = CHR ''-'' then tl s else s)"
  have f: "fine (intTree i)" "fine (CDecimal (FormatInt i) x)" for i x
    using canonical_intTree integerSyntax_FormatInt integerValue_FormatInt by (simp_all add: fine_def)
  define sgn where "sgn = (if hd s = CHR ''-'' then ''-'' else [])"
  note n' = n [unfolded numberTree_def Let_def, folded s0_def, folded sgn_def]
  from n' obtain ip s1 where i: "intDigits s0 = Inr (ip, s1)" by (auto simp: bindR_eq_Inr_iff)
  from n' obtain fp s2 where fr: "fracDigits s1 = Inr (fp, s2)" by (auto simp: i bindR_eq_Inr_iff)
  from n' obtain e where e: "expPart s2 = Inr (e, r)" by (auto simp: i fr bindR_eq_Inr_iff split: if_splits)
  have t: "fine t" using n' f by (auto simp: i fr e split: if_splits)
  have "length s0 \<le> length s" by (simp add: s0_def)
  then show "length r < length s \<and> fine t"
    using intDigits_syntax [OF i] fracDigits_syntax [OF fr] expPart_length [OF e] t by simp
qed

lemma literalTree_good: "word \<noteq> [] \<Longrightarrow> canonical t \<Longrightarrow> s \<noteq> [] \<Longrightarrow> good fine s (literalTree word t s)"
  by (auto simp: good_def literalTree_def fine_def)

lemma elementsTree_good:
  assumes "\<And>x. length x \<le> length s \<Longrightarrow> good fine x (rec x)" "list_all fine acc" "length s < fuel"
  shows "good (list_all fine) s (elementsTree fuel rec acc s)"
  using assms
proof (induction fuel arbitrary: acc s)
  case (Suc fuel)
  have g: "good fine s (rec s)" using Suc.prems(1) [of s] by simp
  show ?case
  proof (cases "rec s")
    case (Inr p)
    obtain t s1 where p: "rec s = Inr (t, s1)" using Inr by (cases p) auto
    then have l: "length s1 < length s" and t: "fine t" using goodD [of fine s t s1] g by auto
    show ?thesis
    proof (cases "skipJSONSpace s1")
      case (Cons c rest)
      have r: "length rest < length s1" using skipJSONSpace_length [of s1] Cons by simp
      have "good (list_all fine) rest (elementsTree fuel rec (acc @ [t]) rest)"
        using Suc.prems l r t by (intro Suc.IH) auto
      then show ?thesis
        using l r t Suc.prems(2) by (auto simp: p Cons good_def dest: less_trans)
    qed (simp add: p good_def)
  qed (use g in \<open>auto simp: good_def\<close>)
qed simp

lemma memberTree_good:
  assumes "\<And>x. length x \<le> length s \<Longrightarrow> good fine x (rec x)"
  shows "good (\<lambda>(k, t). utf8Valid k \<and> fine t) s (memberTree rec s)"
proof -
  let ?s0 = "skipJSONSpace s"
  have s0: "length ?s0 \<le> length s" by (rule skipJSONSpace_length)
  show ?thesis
  proof (cases "str (tl ?s0)")
    case (Inr p)
    obtain k s1 where p: "str (tl ?s0) = Inr (k, s1)" using Inr by (cases p) auto
    then have k: "utf8Valid k" and l: "length s1 < length (tl ?s0)"
      using goodD [of utf8Valid "tl ?s0" k s1] str_good [of "tl ?s0"] by auto
    have s2: "length (tl (skipJSONSpace s1)) \<le> length s1" using skipJSONSpace_length [of s1] by simp
    then have g: "good fine (tl (skipJSONSpace s1)) (rec (tl (skipJSONSpace s1)))" using assms l s0 by simp
    have "length (tl (skipJSONSpace s1)) < length s" using s2 l s0 by simp
    then show ?thesis
      using g k by (auto simp: good_def memberTree_def p Let_def bindR_eq_Inl_iff bindR_eq_Inr_iff split: if_splits dest: less_trans)
  qed (use str_good [of "tl ?s0"] in \<open>auto simp: good_def memberTree_def Let_def\<close>)
qed

lemma membersTree_good:
  assumes "\<And>x. length x \<le> length s \<Longrightarrow> good fine x (rec x)" "list_all (\<lambda>(k, t). utf8Valid k \<and> fine t) acc" "length s < fuel"
  shows "good (list_all (\<lambda>(k, t). utf8Valid k \<and> fine t)) s (membersTree fuel rec acc s)"
  using assms
proof (induction fuel arbitrary: acc s)
  case (Suc fuel)
  let ?P = "\<lambda>(k, t). utf8Valid k \<and> fine t"
  have g: "good ?P s (memberTree rec s)" using Suc.prems(1) by (rule memberTree_good)
  show ?case
  proof (cases "memberTree rec s")
    case (Inr p)
    obtain kt s1 where p: "memberTree rec s = Inr (kt, s1)" using Inr by (cases p) auto
    then have l: "length s1 < length s" and t: "?P kt" using goodD [of ?P s kt s1] g by auto
    show ?thesis
    proof (cases "skipJSONSpace s1")
      case (Cons c rest)
      have r: "length rest < length s1" using skipJSONSpace_length [of s1] Cons by simp
      have "good (list_all ?P) rest (membersTree fuel rec (acc @ [kt]) rest)"
        using Suc.prems l r t by (intro Suc.IH) auto
      then show ?thesis
        using l r t Suc.prems(2) by (auto simp: p Cons good_def dest: less_trans)
    qed (simp add: p good_def)
  qed (use g in \<open>auto simp: good_def\<close>)
qed simp

lemma skipJSONSpace_Nil_or: "skipJSONSpace s = c # rest \<Longrightarrow> length rest < length s"
  using skipJSONSpace_length [of s] by simp

lemma arrayTree_good:
  assumes "\<And>x. depth < maxJSONDepth \<Longrightarrow> good fine x (rec (depth + 1) x)" "s \<noteq> []"
  shows "good fine s (arrayTree rec depth s)"
proof (cases "depth < maxJSONDepth")
  case True
  let ?s1 = "skipJSONSpace (tl s)"
  have "length ?s1 < length s" using skipJSONSpace_length [of "tl s"] assms(2) by (cases s) auto
  moreover have "good (list_all fine) ?s1 (elementsTree (Suc (length ?s1)) (rec (depth + 1)) [] ?s1)"
    using assms(1) True by (intro elementsTree_good) auto
  moreover have "fine (CArray ts)" if "list_all fine ts" for ts using that by (auto simp: fine_def list_all_iff)
  ultimately show ?thesis
    using True by (auto simp: good_def arrayTree_def Let_def bindR_eq_Inl_iff bindR_eq_Inr_iff fine_def
        simp del: elementsTree.simps split: if_splits dest: less_trans)
qed (simp add: good_def arrayTree_def)

lemma fine_CMap:
  assumes "list_all (\<lambda>(k, t). utf8Valid k \<and> fine t) ps"
  shows "fine (CMap ps)"
proof -
  have "utf8Valid (fst kt) \<and> fine (snd kt)" if "kt \<in> set ps" for kt
    using assms that by (cases kt) (auto simp: list_all_iff)
  then show ?thesis by (auto simp: fine_def)
qed

lemma objectTree_good:
  assumes "\<And>x. depth < maxJSONDepth \<Longrightarrow> good fine x (rec (depth + 1) x)" "s \<noteq> []"
  shows "good fine s (objectTree rec depth s)"
proof (cases "depth < maxJSONDepth")
  case True
  let ?s1 = "skipJSONSpace (tl s)" and ?P = "\<lambda>(k, t). utf8Valid k \<and> fine t"
  have "length ?s1 < length s" using skipJSONSpace_length [of "tl s"] assms(2) by (cases s) auto
  moreover have "good (list_all ?P) ?s1 (membersTree (Suc (length ?s1)) (rec (depth + 1)) [] ?s1)"
    using assms(1) True by (intro membersTree_good) auto
  ultimately show ?thesis
    using True fine_CMap fine_CMap [of "[]"]
    by (auto simp: good_def objectTree_def Let_def bindR_eq_Inl_iff bindR_eq_Inr_iff
        simp del: membersTree.simps split: if_splits dest: less_trans)
qed (simp add: good_def objectTree_def)

lemma good_shorter: "good P s m \<Longrightarrow> length s \<le> length s' \<Longrightarrow> good P s' m"
  by (auto simp: good_def)

lemma jsonStep_good:
  assumes "\<And>x. depth < maxJSONDepth \<Longrightarrow> good fine x (rec (depth + 1) x)"
  shows "good fine s (jsonStep rec depth s)"
proof (cases "skipJSONSpace s")
  case (Cons c rest)
  have l: "length (c # rest) \<le> length s" using skipJSONSpace_length [of s] Cons by simp
  have "good fine rest (bindR (str rest) (\<lambda>(t, s1). Inr (CText t, s1)))"
    using str_good [of rest] by (auto simp: good_def bindR_eq_Inl_iff bindR_eq_Inr_iff fine_def)
  then have "good fine (c # rest) (bindR (str rest) (\<lambda>(t, s1). Inr (CText t, s1)))" by (rule good_shorter) simp
  moreover have "good fine (c # rest) (arrayTree rec depth (c # rest))" "good fine (c # rest) (objectTree rec depth (c # rest))"
    using assms by (auto intro!: arrayTree_good objectTree_good)
  moreover have "good fine (c # rest) (Inl UnexpectedByte)" by (simp add: good_def)
  ultimately have "good fine (c # rest) (jsonStep rec depth s)"
    by (auto simp: jsonStep_def Cons numberTree_good literalTree_good)
  then show ?thesis using l by (rule good_shorter)
qed (simp add: jsonStep_def good_def)

lemma jsonTree_good: "good fine s (jsonTree depth s)"
proof (induction "maxJSONDepth - depth" arbitrary: depth s rule: less_induct)
  case less
  show ?case
    unfolding jsonTree.simps [of depth] by (rule jsonStep_good) (rule less, simp)
qed

lemma parseJSON_fine: "parseJSON src = Inr t \<Longrightarrow> distinctKeys t \<Longrightarrow> canonical t"
  using jsonTree_good [of src 0] by (auto simp: parseJSON_def bindR_eq_Inr_iff good_def fine_def split: if_splits)

lemma AppendJSON_parse: "AppendJSON dst src = bindR (parseJSON src) (\<lambda>t. Inr (dst @ encodeTree True t))"
  by (cases "jsonTree 0 src") (auto simp: AppendJSON_def parseJSON_def jsonValue_emit emit_def)

subsection \<open>Properties\<close>

text \<open>C21: the streaming transcoder does what reading the whole document into a tree and encoding the tree would do: for every
  text it fails with the same error, or appends to what was already written the encoding of the tree, its containers with
  indefinite length.\<close>

theorem transcoding_is_parse_then_encode:
  "AppendJSON dst src = (case parseJSON src of Inl e \<Rightarrow> Inl e | Inr t \<Rightarrow> Inr (dst @ encodeTree True t))"
  by (simp add: AppendJSON_parse bindR_def)

text \<open>C30: every text is read to a result or to an error of the grammar: no loop of the transcoder runs out of the turns the
  length of the text gives it.\<close>

theorem transcoder_terminates: "AppendJSON dst src \<noteq> Inl JsonFuel"
  using jsonTree_good [of src 0] by (auto simp: AppendJSON_parse parseJSON_def bindR_eq_Inl_iff good_def)

text \<open>the fast path of the string reader, which takes the bytes up to the closing quote at once, agrees with the loop that
  resolves escapes from the first byte, and a string it returns is valid UTF-8 whatever the input was.\<close>

theorem string_fast_path: "str s = strLoop [] s \<and> (case str s of Inl _ \<Rightarrow> True | Inr (t, _) \<Rightarrow> utf8Valid t)"
  using str_result [of s] by (auto simp: str_strLoop [symmetric] split: sum.split)

text \<open>C20: JSON goes through CBOR unchanged: the CBOR written for a JSON document with distinct keys and at most the depth the
  adapter takes is accepted by the adapter, whose root node stands for the document.\<close>

theorem json_cbor_roundtrip:
  assumes "parseJSON src = Inr t" "distinctKeys t" "levels t \<le> cborMaxDepth" "length (encodeTree True t) < 2 ^ 31"
  shows "\<exists>out i d. AppendJSON [] src = Inr out \<and> NewCBORNode tp out = Inr (i, d) \<and> repr d i t"
proof -
  have "canonical t" using assms(1,2) by (rule parseJSON_fine)
  then have "treeItem tp 0 (encodeTree True t @ [], \<lambda>_. None) = Inr (t, [], \<lambda>_. None)"
    using assms by (intro read_encoded) simp_all
  then have "readTree tp (encodeTree True t) = Inr t" by (simp add: readTree_def)
  then show ?thesis using NewCBORNode_sim [OF assms(4), of tp] assms(1) by (auto simp: AppendJSON_parse)
qed

theorem json_cbor_roundtrip_witness:
  "\<exists>out i d. AppendJSON [] ''[null, true, -7]'' = Inr out \<and> NewCBORNode (\<lambda>_. None) out = Inr (i, d) \<and>
     repr d i (CArray [CNull, CBool True, CInt (- 7)])"
proof (rule json_cbor_roundtrip)
  show "parseJSON ''[null, true, -7]'' = Inr (CArray [CNull, CBool True, CInt (- 7)])"
    by code_simp
qed (simp_all add: cborMaxDepth_def AppendNull_def AppendBool_def AppendInt_def AppendHead_def Let_def)

end
