(* ===== verification/Go_Json.thy ===== *)
theory Go_Json
  imports Json_Cbor
begin

text \<open>
  \<open>json.Marshal\<close> of a string, and that the string reader of the transcoder reads it back.  Marshal escapes
  quotes, backslashes, control characters, the characters HTML gives a meaning to and the two line separators;
  bytes that are not UTF-8 become the escaped replacement rune.
\<close>

definition hexDigit :: "nat \<Rightarrow> char" where
  "hexDigit n = ''0123456789abcdef'' ! n"

definition escapeByte :: "char \<Rightarrow> string" where
  "escapeByte c =
     CHR 0x5C #
     (if c = CHR 0x22 \<or> c = CHR 0x5C then [c]
      else if c = CHR 0x08 then ''b''
      else if c = CHR 0x0C then ''f''
      else if c = CHR 0x0A then ''n''
      else if c = CHR 0x0D then ''r''
      else if c = CHR 0x09 then ''t''
      else ''u00'' @ [hexDigit (codeOf c div 16), hexDigit (codeOf c mod 16)])"

definition htmlSafe :: "char \<Rightarrow> bool" where
  "htmlSafe c \<longleftrightarrow> 0x20 \<le> codeOf c \<and> c \<noteq> CHR 0x22 \<and> c \<noteq> CHR 0x5C \<and> c \<noteq> CHR ''<'' \<and> c \<noteq> CHR ''>'' \<and> c \<noteq> CHR ''&''"

definition escapeRune :: "nat \<Rightarrow> string" where
  "escapeRune r =
     [CHR 0x5C, CHR ''u'', hexDigit (r div 4096 mod 16), hexDigit (r div 256 mod 16), hexDigit (r div 16 mod 16), hexDigit (r mod 16)]"

function marshalBody :: "string \<Rightarrow> string" where
  "marshalBody s =
     (if s = [] then []
      else if codeOf (hd s) < 0x80 then
        (if htmlSafe (hd s) then [hd s] else escapeByte (hd s)) @ marshalBody (tl s)
      else
        (let (r, n) = DecodeRune s in
         (if r = runeError \<and> n = 1 then escapeRune runeError
          else if r = 0x2028 \<or> r = 0x2029 then escapeRune r
          else take n s) @ marshalBody (drop n s)))"
  by pat_completeness auto
termination
proof (relation "measure length")
  fix s :: string and x r n
  assume "s \<noteq> []" "x = DecodeRune s" "(r, n) = x"
  then have "1 \<le> n" using DecodeRune_width [of s] by (cases "DecodeRune s") auto
  then show "(drop n s, s) \<in> measure length" using \<open>s \<noteq> []\<close> by simp
qed (simp_all add: hd_Cons_tl)

declare marshalBody.simps [simp del]

definition marshalString :: "string \<Rightarrow> string" where
  "marshalString s = CHR 0x22 # marshalBody s @ [CHR 0x22]"

lemma hex_val_hexDigit:
  assumes "n < 16"
  shows "hex_val (hexDigit n) = Some n"
proof -
  have "n \<in> set [0, 1, 2, 3, 4, 5, 6, 7, 8, 9, 10, 11, 12, 13, 14, 15]"
    using assms by (simp add: eval_nat_numeral less_Suc_eq)
  moreover have "list_all (\<lambda>n. hex_val (hexDigit n) = Some n) [0, 1, 2, 3, 4, 5, 6, 7, 8, 9, 10, 11, 12, 13, 14, 15]"
    by code_simp
  ultimately show ?thesis unfolding list_all_iff by blast
qed

lemma strLoop_simple:
  assumes "simpleEscape e = Some x"
  shows "strLoop out (CHR 0x5C # e # rest) = strLoop (out @ [x]) rest"
  by (subst strLoop.simps) (simp add: assms codeOf_def)

lemma strLoop_unicode:
  assumes "hex4 es = Some (r, rest)" "r < 0xD800 \<or> 0xE000 \<le> r"
  shows "strLoop out (CHR 0x5C # CHR ''u'' # es) = strLoop (AppendRune out r) rest"
proof -
  have "joinSurrogate r rest = (r, rest)" using assms(2) by (auto simp: joinSurrogate_def)
  then show ?thesis by (subst strLoop.simps) (simp add: assms(1) codeOf_def simpleEscape_def)
qed

lemma hex4_digits:
  assumes "a < 16" "b < 16" "c < 16" "d < 16"
  shows "hex4 (hexDigit a # hexDigit b # hexDigit c # hexDigit d # rest) = Some (4096 * a + 256 * b + 16 * c + d, rest)"
  using assms by (simp add: hex4_def hex_val_hexDigit)

lemma strLoop_escapeByte:
  assumes "codeOf c < 0x80"
  shows "strLoop out (escapeByte c @ rest) = strLoop (out @ [c]) rest"
proof -
  let ?k = "codeOf c"
  have zero: "CHR ''0'' = hexDigit 0" by (simp add: hexDigit_def)
  have k: "?k div 16 < 16" "?k mod 16 < 16" "16 * (?k div 16) + ?k mod 16 = ?k" using assms by auto
  have "hex4 (CHR ''0'' # CHR ''0'' # hexDigit (?k div 16) # hexDigit (?k mod 16) # rest) = Some (?k, rest)"
    unfolding zero using hex4_digits [of 0 0 "?k div 16" "?k mod 16" rest] k by simp
  from strLoop_unicode [OF this] have u: "strLoop out (CHR 0x5C # ''u00'' @ hexDigit (?k div 16) # hexDigit (?k mod 16) # rest) = strLoop (out @ [c]) rest"
    using assms by (simp add: AppendRune_def encodeRune_def codeOf_def)
  show ?thesis
    using u by (auto simp: escapeByte_def strLoop_simple simpleEscape_def)
qed

lemma mod_block: "d dvd m \<Longrightarrow> m \<le> a \<Longrightarrow> a < m + d \<Longrightarrow> a mod d = a - m" for a d m :: nat
proof -
  assume "d dvd m" "m \<le> a" "a < m + d"
  moreover obtain k where k: "a = m + k" using \<open>m \<le> a\<close> le_Suc_ex by blast
  ultimately show ?thesis by (metis add_diff_cancel_left' add_less_cancel_left dvdE mod_less mod_mult_self4)
qed

lemma separator_bytes:
  fixes a b c :: nat
  assumes "a mod 16 * 4096 + b mod 64 * 64 + c mod 64 = r" "r = 0x2028 \<or> r = 0x2029"
    "0xE0 \<le> a" "a \<le> 0xEF" "0x80 \<le> b" "b \<le> 0xBF" "0x80 \<le> c" "c \<le> 0xBF"
  shows "a = 0xE2 \<and> b = 0x80 \<and> c = 0x80 + r mod 64"
proof -
  have m: "a mod 16 = a - 0xE0" "b mod 64 = b - 0x80" "c mod 64 = c - 0x80"
    using assms mod_block [of 16 "0xE0" a] mod_block [of 64 "0x80" b] mod_block [of 64 "0x80" c] by simp_all
  obtain x y z where a: "a = 0xE0 + x" "b = 0x80 + y" "c = 0x80 + z"
    using assms(3,5,7) le_Suc_ex by metis
  then have eq: "x * 4096 + y * 64 + z = r" "x < 16" "y < 64" "z < 64"
    using assms unfolding m by auto
  have "x = 2" using eq assms(2) by linarith
  moreover have "y = 0" using eq assms(2) \<open>x = 2\<close> by linarith
  moreover have "z = r mod 64" using eq assms(2) \<open>x = 2\<close> \<open>y = 0\<close> by auto
  ultimately show ?thesis using a by simp
qed

lemma DecodeRune_separator:
  assumes "DecodeRune s = (r, n)" "r = 0x2028 \<or> r = 0x2029"
  shows "take n s = encodeRune r"
proof (cases s)
  case Nil
  then show ?thesis using assms by (simp add: DecodeRune_def runeError_def)
next
  case (Cons a s1)
  have big: "0x2029 < (x mod 8) * 262144 + (y mod 64) * 4096 + z" if "0x90 \<le> y" "y \<le> 0xBF" for x y z :: nat
    using that mod_block [of 64 "0x80" y] by simp
  have big': "0x2029 < (x mod 8) * 262144 + z" if "0xF1 \<le> x" "x \<le> 0xF4" for x z :: nat
    using that mod_block [of 8 "0xF0" x] by simp
  have small: "(x mod 32) * 64 + y mod 64 < 0x2028" for x y :: nat
    using mod_less_divisor [of 32 x] mod_less_divisor [of 64 y] by linarith
  have e: "r \<noteq> runeError" "\<not> r < 128" using assms(2) by (auto simp: runeError_def)
  have two: "\<not> (0xC2 \<le> codeOf a \<and> codeOf a \<le> 0xDF)"
    using assms e small [of "codeOf a"] by (auto simp: Cons DecodeRune_def Let_def split: list.splits if_splits prod.splits)
  have four: "\<not> (0xF0 \<le> codeOf a \<and> codeOf a \<le> 0xF4)"
  proof
    assume f: "0xF0 \<le> codeOf a \<and> codeOf a \<le> 0xF4"
    then obtain b z where "cont (fst (secondRange (codeOf a))) (snd (secondRange (codeOf a))) b"
      and r: "r = (codeOf a mod 8) * 262144 + (codeOf b mod 64) * 4096 + z"
      using assms(1) e by (auto simp: Cons DecodeRune_def Let_def add.assoc split: list.splits if_splits prod.splits)
    then have "codeOf a = 0xF0 \<Longrightarrow> 0x90 \<le> codeOf b \<and> codeOf b \<le> 0xBF" by (simp add: cont_def secondRange_def)
    then have "0x2029 < r"
      using big [of "codeOf b" "codeOf a" z] big' [of "codeOf a" "(codeOf b mod 64) * 4096 + z"] f r
      by (cases "codeOf a = 0xF0") (simp_all add: add.assoc)
    then show False using assms(2) by auto
  qed
  have three: "\<exists>b c rest. s1 = b # c # rest \<and> n = 3 \<and> 0xE0 \<le> codeOf a \<and> codeOf a \<le> 0xEF \<and> 0x80 \<le> codeOf b \<and> codeOf b \<le> 0xBF
      \<and> 0x80 \<le> codeOf c \<and> codeOf c \<le> 0xBF \<and> codeOf a mod 16 * 4096 + codeOf b mod 64 * 64 + codeOf c mod 64 = r"
    using assms(1) e two four by (auto simp: Cons DecodeRune_def Let_def cont_def secondRange_def split: list.splits if_splits)
  then obtain b c rest where s: "s = a # b # c # rest" "n = 3" and v: "codeOf a = 0xE2" "codeOf b = 0x80" "codeOf c = 0x80 + r mod 64"
    using separator_bytes [OF _ assms(2)] Cons by blast
  have "char_of (codeOf x) = x" for x by (simp add: codeOf_def)
  then have "a = char_of (0xE2 :: nat)" "b = char_of (0x80 :: nat)" "c = char_of (0x80 + r mod 64)" using v by metis+
  then show ?thesis using s assms(2) by (auto simp: encodeRune_def)
qed
lemma DecodeRune_high:
  assumes "DecodeRune s = (r, n)" "s \<noteq> []" "0x80 \<le> codeOf (hd s)" "r \<noteq> runeError \<or> n \<noteq> 1"
  shows "list_all (\<lambda>c. 0x80 \<le> codeOf c) (take n s)"
  using assms by (auto simp: DecodeRune_def Let_def cont_def secondRange_def split: list.splits if_splits)

lemma utf8Valid_step:
  assumes "utf8Valid s" "s \<noteq> []" "DecodeRune s = (r, n)"
  shows "(r \<noteq> runeError \<or> n \<noteq> 1) \<and> utf8Valid (drop n s)"
  using assms by (subst (asm) utf8Valid.simps) simp

lemma utf8Valid_ascii: "utf8Valid s \<Longrightarrow> s \<noteq> [] \<Longrightarrow> codeOf (hd s) < 0x80 \<Longrightarrow> utf8Valid (tl s)"
  using utf8Valid_step [of s "codeOf (hd s)" 1] by (cases s) (simp_all add: DecodeRune_def Let_def split: prod.splits)

lemma strLoop_escapeRune:
  assumes "r = 0x2028 \<or> r = 0x2029"
  shows "strLoop out (escapeRune r @ rest) = strLoop (out @ encodeRune r) rest"
proof -
  have "hex4 (hexDigit (r div 4096 mod 16) # hexDigit (r div 256 mod 16) # hexDigit (r div 16 mod 16) # hexDigit (r mod 16) # rest) = Some (r, rest)"
    using hex4_digits [of "r div 4096 mod 16" "r div 256 mod 16" "r div 16 mod 16" "r mod 16" rest] assms by auto
  from strLoop_unicode [OF this] show ?thesis using assms by (auto simp: escapeRune_def AppendRune_def)
qed

lemma strLoop_marshalBody:
  "utf8Valid s \<Longrightarrow> strLoop out (marshalBody s @ CHR 0x22 # rest) = Inr (validUTF8 (out @ s), rest)"
proof (induction s arbitrary: out rule: marshalBody.induct)
  case (1 s)
  consider "s = []" | "s \<noteq> []" "codeOf (hd s) < 0x80" | "s \<noteq> []" "\<not> codeOf (hd s) < 0x80" by blast
  then show ?case
  proof cases
    case 1
    then show ?thesis by (simp add: marshalBody.simps strLoop.simps)
  next
    case 2
    then have IH: "strLoop (out @ [hd s]) (marshalBody (tl s) @ CHR 0x22 # rest) = Inr (validUTF8 (out @ [hd s] @ tl s), rest)"
      using "1.IH"(1) [of "out @ [hd s]"] utf8Valid_ascii [OF "1.prems"] by simp
    have "plainChar (hd s)" if "htmlSafe (hd s)" using that by (simp add: htmlSafe_def plainChar_def)
    then have "strLoop out (marshalBody s @ CHR 0x22 # rest) = strLoop (out @ [hd s]) (marshalBody (tl s) @ CHR 0x22 # rest)"
      using 2 strLoop_plain [of "[hd s]" out] strLoop_escapeByte [of "hd s" out] by (subst marshalBody.simps) simp
    then show ?thesis using IH 2 by simp
  next
    case 3
    obtain r n where d: "DecodeRune s = (r, n)" by (cases "DecodeRune s")
    note v = utf8Valid_step [OF "1.prems" 3(1) d]
    have IH: "strLoop o' (marshalBody (drop n s) @ CHR 0x22 # rest) = Inr (validUTF8 (o' @ drop n s), rest)" for o'
      using "1.IH"(2) [OF 3 d [symmetric] refl] v by simp
    show ?thesis
    proof (cases "r = 0x2028 \<or> r = 0x2029")
      case True
      then have "strLoop out (marshalBody s @ CHR 0x22 # rest) = strLoop (out @ take n s) (marshalBody (drop n s) @ CHR 0x22 # rest)"
        using 3 v DecodeRune_separator [OF d True] strLoop_escapeRune [OF True, of out]
        by (subst marshalBody.simps) (auto simp: d runeError_def)
      then show ?thesis using IH by simp
    next
      case False
      have "list_all plainChar (take n s)"
        using DecodeRune_high [OF d] 3 v by (auto simp: list_all_iff plainChar_def codeOf_def)
      then have "strLoop out (marshalBody s @ CHR 0x22 # rest) = strLoop (out @ take n s) (marshalBody (drop n s) @ CHR 0x22 # rest)"
        using 3 v False strLoop_plain [of "take n s" out] by (subst marshalBody.simps) (auto simp: d)
      then show ?thesis using IH by simp
    qed
  qed
qed

lemma str_marshalBody: "utf8Valid s \<Longrightarrow> str (marshalBody s @ CHR 0x22 # rest) = Inr (s, rest)"
  by (simp add: str_strLoop strLoop_marshalBody validUTF8_def)

end
