(* ===== verification/Go_Ftoa.thy ===== *)
theory Go_Ftoa
  imports Go_Floats Go_Format
begin

text \<open>
  Decimal texts of floating-point numbers: \<open>strconv.ParseFloat\<close> with exponents, and the shortest texts of
  \<open>strconv.FormatFloat\<close> in the formats \<open>'g'\<close> and \<open>'f'\<close> with precision \<open>-1\<close>.
\<close>

subsection \<open>Reading\<close>

text \<open>The value \<open>c * 10^q\<close>, rounded.\<close>

definition decValue :: "bool \<Rightarrow> int \<Rightarrow> int \<Rightarrow> f64" where
  "decValue s c q = (if 0 \<le> q then round_f64 s (c * 10 ^ nat q) 1 else round_f64 s c (10 ^ nat (- q)))"

text \<open>The digits of an exponent; the value is not followed beyond what any float needs.\<close>

definition exponentDigits :: "string \<Rightarrow> int" where
  "exponentDigits ds = foldl (\<lambda>e c. if e < 10000 then e * 10 + digit_val c else e) 0 ds"

definition exponentOf :: "string \<Rightarrow> int option" where
  "exponentOf s =
     (let (neg, ds) = (case s of
            c # cs \<Rightarrow> if c = CHR ''-'' then (True, cs)
                      else if c = CHR ''+'' then (False, cs) else (False, s)
          | [] \<Rightarrow> (False, s))
      in if ds = [] \<or> \<not> list_all isDigit ds then None
         else Some (if neg then - exponentDigits ds else exponentDigits ds))"

text \<open>\<open>ParseFloat\<close> on a decimal text with an optional fraction and an optional exponent: a text that does not have
  this form, or is beyond the range, is an error.\<close>

definition ParseNumber :: "string \<Rightarrow> f64 option" where
  "ParseNumber s =
     (let (neg, body) = (case s of c # cs \<Rightarrow> if c = CHR ''-'' then (True, cs) else (False, s) | [] \<Rightarrow> (False, s));
          (mant, ex, hasExp) = cut_at CHR ''e'' body;
          (ip, fp, dot) = cut_at CHR ''.'' mant
      in if ip @ fp = [] \<or> \<not> list_all isDigit (ip @ fp) then None
         else
           (case (if hasExp then exponentOf ex else Some 0) of
              None \<Rightarrow> None
            | Some e \<Rightarrow>
                (case decValue neg (int_of_digits (ip @ fp)) (e - int (length fp)) of Inf _ \<Rightarrow> None | f \<Rightarrow> Some f)))"

subsection \<open>Shortest digits\<close>

text \<open>A positive value \<open>n / d\<close> lies in \<open>10^(p-1) \<le> n / d < 10^p\<close> for \<open>p = decimalPoint n d\<close>: the length of the
  integer part, or the number of zeros after the point.\<close>

fun zerosAfterPoint :: "nat \<Rightarrow> int \<Rightarrow> int \<Rightarrow> int" where
  "zerosAfterPoint 0 n d = 0"
| "zerosAfterPoint (Suc k) n d = (if 10 * n < d then zerosAfterPoint k (10 * n) d - 1 else 0)"

definition decimalPoint :: "int \<Rightarrow> int \<Rightarrow> int" where
  "decimalPoint n d = (if d \<le> n then int (length (showNat (nat (n div d)))) else zerosAfterPoint 400 n d)"

text \<open>The integer closest to \<open>n / d * 10^k\<close>, ties to even, then the other neighbour.\<close>

definition candidates :: "int \<Rightarrow> int \<Rightarrow> int \<Rightarrow> int list" where
  "candidates n d k =
     (let (a, b) = (if 0 \<le> k then (n * 10 ^ nat k, d) else (n, d * 10 ^ nat (- k)));
          lo = a div b; c = div_half_even a b
      in if a mod b = 0 then [lo] else [c, if c = lo then lo + 1 else lo])"

definition exactFraction :: "int \<Rightarrow> int \<Rightarrow> int \<times> int" where
  "exactFraction m e = (if 0 \<le> e then (m * 2 ^ nat e, 1) else (m, 2 ^ nat (- e)))"

text \<open>The fewest digits that read back as the value, as an integer and its power of ten: 17 digits are
  always enough.\<close>

definition shortestWith :: "bool \<Rightarrow> int \<Rightarrow> int \<Rightarrow> int \<Rightarrow> (int \<times> int) option" where
  "shortestWith s m e digits =
     (let (n, d) = exactFraction m e; k = digits - decimalPoint n d in
      map_option (\<lambda>c. (c, - k)) (find (\<lambda>c. decValue s c (- k) = Fin s m e) (candidates n d k)))"

definition shortest :: "bool \<Rightarrow> int \<Rightarrow> int \<Rightarrow> int \<times> int" where
  "shortest s m e =
     (case find (\<lambda>k. shortestWith s m e k \<noteq> None) [1..17] of
        Some k \<Rightarrow> the (shortestWith s m e k)
      | None \<Rightarrow> if 0 \<le> e then (m * 2 ^ nat e, 0) else (m * 5 ^ nat (- e), e))"

text \<open>The digits without trailing zeros, and the position of the decimal point among them.\<close>

definition decimalDigits :: "bool \<Rightarrow> int \<Rightarrow> int \<Rightarrow> string \<times> int" where
  "decimalDigits s m e =
     (if m = 0 then ([], 0)
      else
        let (c, q) = shortest s m e; ds = showNat (nat c) in
        (rev (dropWhile (\<lambda>x. x = CHR ''0'') (rev ds)), int (length ds) + q))"

subsection \<open>Writing\<close>

definition zeros :: "nat \<Rightarrow> string" where
  "zeros n = replicate n (CHR ''0'')"

definition fmtF :: "string \<Rightarrow> int \<Rightarrow> string" where
  "fmtF ds dp =
     (let n = length ds; p = nat dp;
          ip = (if dp > 0 then take p ds @ zeros (p - n) else ''0'');
          fp = (if dp \<ge> 0 then drop p ds else zeros (nat (- dp)) @ ds)
      in if int n - dp > 0 then ip @ ''.'' @ fp else ip)"

definition fmtE :: "string \<Rightarrow> int \<Rightarrow> string" where
  "fmtE ds dp =
     (let x = dp - 1; ex = showNat (nat \<bar>x\<bar>) in
      (case ds of [] \<Rightarrow> ''0'' | [c] \<Rightarrow> [c] | c # cs \<Rightarrow> c # CHR ''.'' # cs) @
      CHR ''e'' # (if x < 0 then CHR ''-'' else CHR ''+'') # (if length ex < 2 then CHR ''0'' # ex else ex))"

definition withSign :: "bool \<Rightarrow> string \<Rightarrow> string" where
  "withSign s t = (if s then CHR ''-'' # t else t)"

definition FormatFloatG :: "f64 \<Rightarrow> string" where
  "FormatFloatG f =
     (case f of
        NaN \<Rightarrow> ''NaN''
      | Inf s \<Rightarrow> if s then ''-Inf'' else ''+Inf''
      | Fin s m e \<Rightarrow>
          (let (ds, dp) = decimalDigits s m e in
           withSign s (if dp - 1 < - 4 \<or> dp - 1 \<ge> 6 then fmtE ds dp else fmtF ds dp)))"

definition FormatFloatF :: "f64 \<Rightarrow> string" where
  "FormatFloatF f =
     (case f of
        NaN \<Rightarrow> ''NaN''
      | Inf s \<Rightarrow> if s then ''-Inf'' else ''+Inf''
      | Fin s m e \<Rightarrow> (let (ds, dp) = decimalDigits s m e in withSign s (fmtF ds dp)))"

end
