(* ===== verification/Cbor_Node.thy ===== *)
theory Cbor_Node
  imports Go_Json Go_Ftoa Doc_Node "HOL-Library.List_Lexorder"
begin

text \<open>
  The second half of \<open>query/node_cbor.go\<close>: the methods of a node over the arena, which make a CBOR document a
  \<open>Node\<close> of the query parser, and the texts of its numbers and of the JSON a node is written as.  A method takes the
  document and the index of the node, which stand for the pointer of the source.
\<close>

subsection \<open>Texts of numbers\<close>

definition floatText :: "f64 \<Rightarrow> string" where
  "floatText f =
     (case f of
        NaN \<Rightarrow> ''NaN''
      | Inf s \<Rightarrow> if s then ''-Infinity'' else ''Infinity''
      | _ \<Rightarrow>
          (let s = FormatFloatG f in
           if list_ex (\<lambda>c. c = CHR ''.'' \<or> c = CHR ''e'') s then s else s @ ''.0''))"

definition cnodeNumberText :: "'x cborDoc_scheme \<Rightarrow> cnode \<Rightarrow> string option" where
  "cnodeNumberText d n =
     (if item n = itFloat then Some (floatText (Float64frombits (extra n)))
      else if item n = itNumText \<and> cb n = 1 then Some (strs d ! ca n @ ''e'' @ FormatInt (sint (extra n)))
      else integerText d n)"

definition plainDecimal :: "string \<Rightarrow> int \<Rightarrow> string" where
  "plainDecimal mantissa exp =
     (if exp = 0 then mantissa
      else if exp > 64 \<or> exp < - 64 then mantissa @ ''e'' @ FormatInt exp
      else
        let neg = (mantissa \<noteq> [] \<and> hd mantissa = CHR ''-'');
            digits = (if neg then tl mantissa else mantissa);
            out = (if exp > 0 then digits @ zeros (nat exp)
                   else
                     let point = int (length digits) + exp in
                     if point > 0 then take (nat point) digits @ ''.'' @ drop (nat point) digits
                     else ''0.'' @ zeros (nat (- point)) @ digits)
        in if neg then CHR ''-'' # out else out)"

definition decimalText :: "'x cborDoc_scheme \<Rightarrow> cnode \<Rightarrow> string option" where
  "decimalText d n =
     (if item n = itFloat then
        (let f = Float64frombits (extra n) in Some (if finite_f64 f then FormatFloatF f else floatText f))
      else if item n = itNumText \<and> cb n = 1 then Some (plainDecimal (strs d ! ca n) (sint (extra n)))
      else integerText d n)"

subsection \<open>The methods of a node\<close>

definition cnodeKind :: "'x cborDoc_scheme \<Rightarrow> nat \<Rightarrow> NodeKind" where
  "cnodeKind d i =
     (case item (nodes d ! i) of
        itNull \<Rightarrow> KindNull
      | itFalse \<Rightarrow> KindBool | itTrue \<Rightarrow> KindBool
      | itInt \<Rightarrow> KindNumber | itUint \<Rightarrow> KindNumber | itNegBig \<Rightarrow> KindNumber | itFloat \<Rightarrow> KindNumber | itNumText \<Rightarrow> KindNumber
      | itText \<Rightarrow> KindString
      | itBytes \<Rightarrow> KindBytes
      | itArray \<Rightarrow> KindArray
      | itMap \<Rightarrow> KindObject
      | itInstant \<Rightarrow> KindInstant
      | itDate \<Rightarrow> KindDate
      | itUUID \<Rightarrow> KindUUID
      | itBadTag \<Rightarrow> KindInvalid)"

definition cnodeStrictString :: "'x cborDoc_scheme \<Rightarrow> nat \<Rightarrow> node_error + string" where
  "cnodeStrictString d i =
     (if item (nodes d ! i) = itText then Inr (textOf d (nodes d ! i)) else Inl NotString)"

definition cnodeStrictBool :: "'x cborDoc_scheme \<Rightarrow> nat \<Rightarrow> node_error + bool" where
  "cnodeStrictBool d i =
     (case item (nodes d ! i) of itTrue \<Rightarrow> Inr True | itFalse \<Rightarrow> Inr False | _ \<Rightarrow> Inl NotBool)"

definition cnodeStrictInt64 :: "'x cborDoc_scheme \<Rightarrow> nat \<Rightarrow> node_error + int" where
  "cnodeStrictInt64 d i =
     (let n = nodes d ! i in
      case item n of
        itInt \<Rightarrow> Inr (sint (extra n))
      | itNumText \<Rightarrow>
          if cb n = 0 then (case Atoi (strs d ! ca n) of Some x \<Rightarrow> Inr x | None \<Rightarrow> Inl NotInt64) else Inl NotInt64
      | _ \<Rightarrow> Inl NotInt64)"

definition cnodeStrictFloat64 :: "'x cborDoc_scheme \<Rightarrow> nat \<Rightarrow> node_error + f64" where
  "cnodeStrictFloat64 d i =
     (let n = nodes d ! i in
      if item n = itFloat then Inr (Float64frombits (extra n))
      else if cnodeKind d i \<noteq> KindNumber then Inl NotNumber
      else
        (case cnodeNumberText d n of
           None \<Rightarrow> Inl NotNumber
         | Some text \<Rightarrow> (case ParseNumber text of Some f \<Rightarrow> Inr f | None \<Rightarrow> Inl NotNumber)))"

definition cnodeArrayItems :: "'x cborDoc_scheme \<Rightarrow> nat \<Rightarrow> node_error + nat list" where
  "cnodeArrayItems d i =
     (let n = nodes d ! i in
      if item n \<noteq> itArray then Inl NotArray else Inr (map (\<lambda>j. kids d ! (ca n + j)) [0..<cb n]))"

definition cnodeObjectGet :: "'x cborDoc_scheme \<Rightarrow> nat \<Rightarrow> string \<Rightarrow> nat option" where
  "cnodeObjectGet d i key =
     (let n = nodes d ! i in
      if item n \<noteq> itMap then None
      else
        map_option (\<lambda>j. kids d ! (ca n + 2 * j + 1))
          (find (\<lambda>j. textOf d (nodes d ! (kids d ! (ca n + 2 * j))) = key) [0..<cb n]))"

text \<open>The pairs \<open>ObjectEach\<close> hands to its callback, in order.\<close>

definition cnodeObjectEach :: "'x cborDoc_scheme \<Rightarrow> nat \<Rightarrow> node_error + (string \<times> nat) list" where
  "cnodeObjectEach d i =
     (let n = nodes d ! i in
      if item n \<noteq> itMap then Inl NotObject
      else Inr (map (\<lambda>j. (textOf d (nodes d ! (kids d ! (ca n + 2 * j))), kids d ! (ca n + 2 * j + 1))) [0..<cb n]))"

definition cnodeStrictBytes :: "'x cborDoc_scheme \<Rightarrow> nat \<Rightarrow> bytes option" where
  "cnodeStrictBytes d i =
     (let n = nodes d ! i in if item n = itBytes \<or> item n = itUUID then Some (cnodeBytes d n) else None)"

definition cnodeInstant :: "'x cborDoc_scheme \<Rightarrow> nat \<Rightarrow> gotime option" where
  "cnodeInstant d i =
     (let n = nodes d ! i in if item n = itInstant then Some (times d ! unat (extra n)) else None)"

definition cnodeDays :: "'x cborDoc_scheme \<Rightarrow> nat \<Rightarrow> int option" where
  "cnodeDays d i = (let n = nodes d ! i in if item n = itDate then Some (sint (extra n)) else None)"

subsection \<open>The JSON text of a node\<close>

datatype json_form_error = NoFormNonFinite | NoFormBytes | NoFormInstant | NoFormDate | NoFormTag "64 word" | NoFormFuel

text \<open>The keys of a document are distinct, so the order the sort leaves them in is the only sorted one.  A child comes
  before its parent in the arena, so the index of the node bounds the depth.\<close>

definition keyOrder :: "'x cborDoc_scheme \<Rightarrow> cnode \<Rightarrow> nat list" where
  "keyOrder d n = sort_key (\<lambda>j. textOf d (nodes d ! (kids d ! (ca n + 2 * j)))) [0..<cb n]"

fun writeJSON :: "nat \<Rightarrow> 'x cborDoc_scheme \<Rightarrow> nat \<Rightarrow> json_form_error + string" where
  "writeJSON 0 d i = Inl NoFormFuel"
| "writeJSON (Suc fuel) d i =
     (let n = nodes d ! i in
      case item n of
        itNull \<Rightarrow> Inr ''null''
      | itTrue \<Rightarrow> Inr ''true''
      | itFalse \<Rightarrow> Inr ''false''
      | itText \<Rightarrow> Inr (marshalString (textOf d n))
      | itFloat \<Rightarrow>
          (let f = Float64frombits (extra n) in if finite_f64 f then Inr (FormatFloatG f) else Inl NoFormNonFinite)
      | itArray \<Rightarrow>
          bindR (traverse (\<lambda>j. writeJSON fuel d (kids d ! (ca n + j))) [0..<cb n]) (\<lambda>ss.
            Inr (CHR ''['' # join_with CHR '','' ss @ '']''))
      | itMap \<Rightarrow>
          bindR (traverse (\<lambda>j.
              bindR (writeJSON fuel d (kids d ! (ca n + 2 * j + 1))) (\<lambda>v.
                Inr (marshalString (textOf d (nodes d ! (kids d ! (ca n + 2 * j)))) @ CHR '':'' # v))) (keyOrder d n)) (\<lambda>ss.
            Inr (CHR ''{'' # join_with CHR '','' ss @ ''}''))
      | itBytes \<Rightarrow> Inl NoFormBytes
      | itUUID \<Rightarrow> Inl NoFormBytes
      | itInstant \<Rightarrow> Inl NoFormInstant
      | itDate \<Rightarrow> Inl NoFormDate
      | itBadTag \<Rightarrow> Inl (NoFormTag (extra n))
      | _ \<Rightarrow> (case cnodeNumberText d n of Some text \<Rightarrow> Inr text | None \<Rightarrow> Inr []))"

definition jsonText :: "'x cborDoc_scheme \<Rightarrow> nat \<Rightarrow> json_form_error + string" where
  "jsonText d i = writeJSON (Suc i) d i"

definition cnodeRaw :: "'x cborDoc_scheme \<Rightarrow> nat \<Rightarrow> json_form_error + string" where
  "cnodeRaw d i =
     (if cnodeKind d i = KindNumber then Inr (case cnodeNumberText d (nodes d ! i) of Some text \<Rightarrow> text | None \<Rightarrow> [])
      else jsonText d i)"

subsection \<open>What the methods answer\<close>

text \<open>The number texts, the \<open>Node\<close> and the JSON text of a tree, without an arena.\<close>

fun treeNumberText :: "ctree \<Rightarrow> string option" where
  "treeNumberText (CFloat x) = Some (floatText (Float64frombits x))"
| "treeNumberText (CDecimal s e) = Some (s @ ''e'' @ FormatInt (sint e))"
| "treeNumberText t = treeIntegerText t"

fun treeInt64 :: "ctree \<Rightarrow> int option" where
  "treeInt64 (CInt x) = Some (sint x)"
| "treeInt64 (CBig s) = Atoi s"
| "treeInt64 _ = None"

fun treeFloat64 :: "ctree \<Rightarrow> f64 option" where
  "treeFloat64 (CFloat x) = Some (Float64frombits x)"
| "treeFloat64 t = Option.bind (treeNumberText t) ParseNumber"

fun treeNode :: "ctree \<Rightarrow> node" where
  "treeNode CNull = NNull"
| "treeNode (CBool b) = NBool b"
| "treeNode (CText s) = NString s"
| "treeNode (CBytes b) = NBytes (map charOf b)"
| "treeNode (CArray ts) = NArray (map treeNode ts)"
| "treeNode (CMap ps) = NObject (map (\<lambda>(k, t). (k, treeNode t)) ps)"
| "treeNode (CInstant t) = NInstant t"
| "treeNode (CDate x) = NDate (sint x)"
| "treeNode (CUUID b) = NUUID (map charOf b)"
| "treeNode (CBadTag x) = NInvalid"
| "treeNode t = NNumber (treeFloat64 t) (treeInt64 t)"

lemma size_sorted_pair: "(k, v) \<in> set (sort_key fst ps) \<Longrightarrow> size v < Suc (size_list (size_prod (\<lambda>_. 0) size) ps)" for v :: ctree
  using size_list_estimation' [of "(k, v)" ps "size v" "size_prod (\<lambda>_. 0) size"] by (auto simp: less_Suc_eq_le)

function (sequential) treeJSON :: "ctree \<Rightarrow> json_form_error + string" where
  "treeJSON CNull = Inr ''null''"
| "treeJSON (CBool b) = Inr (if b then ''true'' else ''false'')"
| "treeJSON (CText s) = Inr (marshalString s)"
| "treeJSON (CFloat x) =
     (let f = Float64frombits x in if finite_f64 f then Inr (FormatFloatG f) else Inl NoFormNonFinite)"
| "treeJSON (CArray ts) = bindR (traverse treeJSON ts) (\<lambda>ss. Inr (CHR ''['' # join_with CHR '','' ss @ '']''))"
| "treeJSON (CMap ps) =
     bindR (traverse (\<lambda>(k, v). bindR (treeJSON v) (\<lambda>s. Inr (marshalString k @ CHR '':'' # s))) (sort_key fst ps)) (\<lambda>ss.
       Inr (CHR ''{'' # join_with CHR '','' ss @ ''}''))"
| "treeJSON (CBytes _) = Inl NoFormBytes"
| "treeJSON (CUUID _) = Inl NoFormBytes"
| "treeJSON (CInstant _) = Inl NoFormInstant"
| "treeJSON (CDate _) = Inl NoFormDate"
| "treeJSON (CBadTag x) = Inl (NoFormTag x)"
| "treeJSON t = (case treeNumberText t of Some text \<Rightarrow> Inr text | None \<Rightarrow> Inr [])"
  by pat_completeness auto
termination
  by (relation "measure size") (auto simp: less_Suc_eq_le intro: size_list_estimation' size_sorted_pair)

subsection \<open>The contract of an adapter\<close>

text \<open>
  A document format is offered to the query parser by handles that answer the methods of \<open>Node\<close>.  The contract:
  a handle that stands for a node answers each method as the node does, with handles that stand for the children.
  What the parser does with the answers is then the same for every format.
\<close>

locale node_adapter =
  fixes stands :: "'h \<Rightarrow> node \<Rightarrow> bool"
    and kind :: "'h \<Rightarrow> NodeKind"
    and strictString :: "'h \<Rightarrow> node_error + string"
    and strictBool :: "'h \<Rightarrow> node_error + bool"
    and strictInt64 :: "'h \<Rightarrow> node_error + int"
    and strictFloat64 :: "'h \<Rightarrow> node_error + f64"
    and items :: "'h \<Rightarrow> node_error + 'h list"
    and get :: "'h \<Rightarrow> string \<Rightarrow> 'h option"
    and fields :: "'h \<Rightarrow> node_error + (string \<times> 'h) list"
  assumes kind_stands: "stands h n \<Longrightarrow> kind h = Kind n"
    and string_stands: "stands h n \<Longrightarrow> strictString h = StrictString n"
    and bool_stands: "stands h n \<Longrightarrow> strictBool h = StrictBool n"
    and int_stands: "stands h n \<Longrightarrow> strictInt64 h = StrictInt64 n"
    and float_stands: "stands h n \<Longrightarrow> strictFloat64 h = StrictFloat64 n"
    and items_stand: "stands h n \<Longrightarrow> rel_sum (=) (list_all2 stands) (items h) (arrayItems n)"
    and get_stands: "stands h n \<Longrightarrow> rel_option stands (get h k) (ObjectGet n k)"
    and fields_stand: "stands h n \<Longrightarrow> rel_sum (=) (list_all2 (rel_prod (=) stands)) (fields h) (objectFields n)"
begin

text \<open>Following keys into nested objects.\<close>

fun follow :: "'h \<Rightarrow> string list \<Rightarrow> 'h option" where
  "follow h [] = Some h"
| "follow h (k # ks) = Option.bind (get h k) (\<lambda>c. follow c ks)"

lemma follow_stands:
  "stands h n \<Longrightarrow> rel_option stands (follow h ks) (foldl (\<lambda>m k. Option.bind m (\<lambda>c. ObjectGet c k)) (Some n) ks)"
proof (induction ks arbitrary: h n)
  case (Cons k ks)
  have none: "foldl (\<lambda>m k. Option.bind m (\<lambda>c. ObjectGet c k)) None ks' = None" for ks' :: "string list"
    by (induction ks') simp_all
  from get_stands [OF Cons.prems, of k] show ?case
    by (cases rule: option.rel_cases) (simp_all add: none Cons.IH)
qed simp

text \<open>A loop over the elements or the fields that stops at the first error gives the same result.\<close>

lemma traverse_stands:
  assumes "list_all2 stands hs ns" "\<And>h n. stands h n \<Longrightarrow> f h = g n"
  shows "traverse f hs = traverse g ns"
  using assms(1) by (induction rule: list_all2_induct) (simp_all add: assms(2))

lemma loop_items:
  assumes "stands h n" "\<And>h n. stands h n \<Longrightarrow> f h = g n"
  shows "bindR (mapErr e (items h)) (traverse f) = bindR (mapErr e (arrayItems n)) (traverse g)"
  using items_stand [OF assms(1)] traverse_stands [OF _ assms(2)]
  by (cases rule: rel_sum.cases) simp_all

lemma loop_fields:
  assumes "stands h n" "\<And>k h n. stands h n \<Longrightarrow> f k h = g k n"
  shows "bindR (mapErr e (fields h)) (forMap f) = bindR (mapErr e (objectFields n)) (forMap g)"
proof -
  have l: "forMap f hs = forMap g ns" if "list_all2 (rel_prod (=) stands) hs ns" for hs ns
    using that by (induction rule: list_all2_induct) (auto simp: forMap_def rel_prod_sel assms(2) split: prod.split)
  from fields_stand [OF assms(1)] show ?thesis by (cases rule: rel_sum.cases) (simp_all add: l)
qed

end

text \<open>A handle of the CBOR adapter: a document and the index of a node that holds a tree.\<close>

definition cborStands :: "cborDecoder \<times> nat \<Rightarrow> node \<Rightarrow> bool" where
  "cborStands h n \<longleftrightarrow> (\<exists>t. repr (fst h) (snd h) t \<and> n = treeNode t)"

lemma numberText_sim: "leaf d n t \<Longrightarrow> cnodeNumberText d n = treeNumberText t"
  using integerText_sim
  by (cases t) (auto simp: cnodeNumberText_def integerText_def treeIntegerText_def)

lemma repr_array_kids:
  assumes "repr d i (CArray ts)"
  shows "cb (nodes d ! i) = length ts" "j < length ts \<Longrightarrow> kids d ! (ca (nodes d ! i) + j) < i"
    "j < length ts \<Longrightarrow> repr d (kids d ! (ca (nodes d ! i) + j)) (ts ! j)"
  using assms by (auto elim: repr_arrayE)

lemma repr_map_kids:
  assumes "repr d i (CMap ps)"
  shows "cb (nodes d ! i) = length ps"
    "j < length ps \<Longrightarrow> textOf d (nodes d ! (kids d ! (ca (nodes d ! i) + 2 * j))) = fst (ps ! j)"
    "j < length ps \<Longrightarrow> kids d ! (ca (nodes d ! i) + 2 * j + 1) < i"
    "j < length ps \<Longrightarrow> repr d (kids d ! (ca (nodes d ! i) + 2 * j + 1)) (snd (ps ! j))"
  using assms by (auto elim!: repr_mapE simp: textNode_def)

lemma repr_cases_leaf:
  assumes "repr d i t"
  obtains ts where "t = CArray ts" | ps where "t = CMap ps" | "leaf d (nodes d ! i) t" "itemOf t \<noteq> itArray" "itemOf t \<noteq> itMap"
  using assms repr_leaf [OF assms] by (cases t) (auto split: if_splits)

lemma cnodeKind_sim: "repr d i t \<Longrightarrow> cnodeKind d i = Kind (treeNode t)"
  using repr_item [of d i t] by (cases t) (auto simp: cnodeKind_def)

lemma cnodeStrictString_sim: "repr d i t \<Longrightarrow> cnodeStrictString d i = StrictString (treeNode t)"
  using repr_item [of d i t] repr_leaf [of d i t]
  by (cases t) (auto simp: cnodeStrictString_def StrictString_def)

lemma cnodeStrictBool_sim: "repr d i t \<Longrightarrow> cnodeStrictBool d i = StrictBool (treeNode t)"
  using repr_item [of d i t] by (cases t) (auto simp: cnodeStrictBool_def StrictBool_def)

lemma cnodeStrictInt64_sim: "repr d i t \<Longrightarrow> cnodeStrictInt64 d i = StrictInt64 (treeNode t)"
  using repr_item [of d i t] repr_leaf [of d i t]
  by (cases t) (auto simp: cnodeStrictInt64_def StrictInt64_def Let_def split: option.split)

lemma cnodeStrictFloat64_sim:
  assumes "repr d i t"
  shows "cnodeStrictFloat64 d i = StrictFloat64 (treeNode t)"
proof (rule repr_cases_leaf [OF assms])
  assume l: "leaf d (nodes d ! i) t"
  then show ?thesis
    using cnodeKind_sim [OF assms] numberText_sim [OF l] leaf_item [OF l]
    by (cases t) (auto simp: cnodeStrictFloat64_def StrictFloat64_def Let_def split: option.split)
qed (use repr_item [OF assms] cnodeKind_sim [OF assms] in \<open>auto simp: cnodeStrictFloat64_def StrictFloat64_def Let_def\<close>)

lemma cnodeArrayItems_sim:
  assumes "repr d i t"
  shows "rel_sum (=) (list_all2 (\<lambda>j n. cborStands (d, j) n)) (cnodeArrayItems d i) (arrayItems (treeNode t))"
proof (cases t)
  case (CArray ts)
  note k = repr_array_kids [OF assms [unfolded CArray]]
  have "item (nodes d ! i) = itArray" using repr_item [OF assms] CArray by simp
  then show ?thesis
    using k by (auto simp: CArray cnodeArrayItems_def arrayItems_def Let_def list_all2_conv_all_nth cborStands_def)
qed (use repr_item [OF assms] in \<open>auto simp: cnodeArrayItems_def arrayItems_def Let_def\<close>)

lemma cnodeObjectEach_sim:
  assumes "repr d i t"
  shows "rel_sum (=) (list_all2 (rel_prod (=) (\<lambda>j n. cborStands (d, j) n))) (cnodeObjectEach d i) (objectFields (treeNode t))"
proof (cases t)
  case (CMap ps)
  note k = repr_map_kids [OF assms [unfolded CMap]]
  have "item (nodes d ! i) = itMap" using repr_item [OF assms] CMap by simp
  then show ?thesis
    using k by (auto simp: CMap cnodeObjectEach_def objectFields_def Let_def list_all2_conv_all_nth cborStands_def rel_prod_sel split_beta)
qed (use repr_item [OF assms] in \<open>auto simp: cnodeObjectEach_def objectFields_def Let_def\<close>)

lemma find_upt_map_of:
  assumes "\<And>j. j < length ps \<Longrightarrow> key j = fst (ps ! j)"
  shows "rel_option (\<lambda>j v. j < length ps \<and> snd (ps ! j) = v) (find (\<lambda>j. key j = k) [0..<length ps]) (map_of ps k)"
  using assms
proof (induction ps arbitrary: key)
  case (Cons p ps)
  have find_map: "find P (map Suc xs) = map_option Suc (find (\<lambda>x. P (Suc x)) xs)" for P xs
    by (induction xs) simp_all
  have "rel_option (\<lambda>j v. j < length ps \<and> snd (ps ! j) = v) (find (\<lambda>j. key (Suc j) = k) [0..<length ps]) (map_of ps k)"
    using Cons.prems by (intro Cons.IH) fastforce
  then show ?case
    using Cons.prems [of 0] by (cases p) (auto simp: upt_conv_Cons map_Suc_upt [symmetric] find_map option.rel_map simp del: upt_Suc elim!: option.rel_mono_strong)
qed simp

lemma cnodeObjectGet_sim:
  assumes "repr d i t"
  shows "rel_option (\<lambda>j n. cborStands (d, j) n) (cnodeObjectGet d i k) (ObjectGet (treeNode t) k)"
proof (cases t)
  case (CMap ps)
  note k = repr_map_kids [OF assms [unfolded CMap]]
  have "item (nodes d ! i) = itMap" using repr_item [OF assms] CMap by simp
  moreover have "map_of (map (\<lambda>(k, t). (k, treeNode t)) ps) k = map_option treeNode (map_of ps k)"
    by (simp add: map_of_map)
  moreover note find_upt_map_of [of ps "\<lambda>j. textOf d (nodes d ! (kids d ! (ca (nodes d ! i) + 2 * j)))" k, OF k(2)]
  ultimately show ?thesis
    using k(1,4) by (fastforce simp: CMap cnodeObjectGet_def ObjectGet_def Let_def cborStands_def elim!: option.rel_cases)
qed (use repr_item [OF assms] in \<open>auto simp: cnodeObjectGet_def ObjectGet_def Let_def\<close>)

lemma list_all2_handles:
  "(\<lambda>js. list_all2 cborStands (map (Pair d) js)) = list_all2 (\<lambda>j. cborStands (d, j))"
  "(\<lambda>ps. list_all2 (rel_prod (=) cborStands) (map (map_prod id (Pair d)) ps)) = list_all2 (rel_prod (=) (\<lambda>j. cborStands (d, j)))"
  by (intro ext, simp add: list.rel_map)
     (intro ext, simp add: list_all2_conv_all_nth rel_prod_sel)

interpretation cbor_node: node_adapter cborStands
  "\<lambda>(d, i). cnodeKind d i" "\<lambda>(d, i). cnodeStrictString d i" "\<lambda>(d, i). cnodeStrictBool d i"
  "\<lambda>(d, i). cnodeStrictInt64 d i" "\<lambda>(d, i). cnodeStrictFloat64 d i"
  "\<lambda>(d, i). map_sum id (map (Pair d)) (cnodeArrayItems d i)"
  "\<lambda>(d, i) k. map_option (Pair d) (cnodeObjectGet d i k)"
  "\<lambda>(d, i). map_sum id (map (map_prod id (Pair d))) (cnodeObjectEach d i)"
proof (unfold_locales, goal_cases)
  case (1 h n)
  then show ?case using cnodeKind_sim by (cases h) (auto simp: cborStands_def)
next
  case (2 h n)
  then show ?case using cnodeStrictString_sim by (cases h) (auto simp: cborStands_def)
next
  case (3 h n)
  then show ?case using cnodeStrictBool_sim by (cases h) (auto simp: cborStands_def)
next
  case (4 h n)
  then show ?case using cnodeStrictInt64_sim by (cases h) (auto simp: cborStands_def)
next
  case (5 h n)
  then show ?case using cnodeStrictFloat64_sim by (cases h) (auto simp: cborStands_def)
next
  case (6 h n)
  then obtain t where t: "repr (fst h) (snd h) t" "n = treeNode t" by (auto simp: cborStands_def)
  from cnodeArrayItems_sim [OF t(1)] show ?case
    by (cases h) (simp add: t sum.rel_map list_all2_handles)
next
  case (7 h n k)
  then obtain t where t: "repr (fst h) (snd h) t" "n = treeNode t" by (auto simp: cborStands_def)
  from cnodeObjectGet_sim [OF t(1), of k] show ?case by (cases h) (simp add: t option.rel_map)
next
  case (8 h n)
  then obtain t where t: "repr (fst h) (snd h) t" "n = treeNode t" by (auto simp: cborStands_def)
  from cnodeObjectEach_sim [OF t(1)] show ?case
    by (cases h) (simp add: t sum.rel_map list_all2_handles)
qed
subsection \<open>The JSON text of a document\<close>

lemma sort_key_map: "sort_key f (map g xs) = map g (sort_key (\<lambda>x. f (g x)) xs)"
proof (induction xs)
  case (Cons x xs)
  have "insort_key f (g x) (map g ys) = map g (insort_key (\<lambda>x. f (g x)) x ys)" for ys
    by (induction ys) simp_all
  then show ?case using Cons by simp
qed simp

lemma sort_key_cong: "(\<And>x. x \<in> set xs \<Longrightarrow> f x = g x) \<Longrightarrow> sort_key f xs = sort_key g xs"
proof (induction xs)
  case (Cons x xs)
  have "insort_key f x ys = insort_key g x ys" if "\<And>y. y \<in> set ys \<Longrightarrow> f y = g y" for ys
    using that Cons.prems by (induction ys) simp_all
  from this [of "sort_key g xs"] show ?case using Cons by simp
qed simp

lemma sorted_pairs:
  assumes "\<And>j. j < length ps \<Longrightarrow> key j = fst (ps ! j)"
  shows "sort_key fst ps = map (\<lambda>j. ps ! j) (sort_key key [0..<length ps])"
proof -
  have "sort_key fst (map (\<lambda>j. ps ! j) [0..<length ps]) = map (\<lambda>j. ps ! j) (sort_key (\<lambda>j. fst (ps ! j)) [0..<length ps])"
    by (rule sort_key_map)
  also have "sort_key (\<lambda>j. fst (ps ! j)) [0..<length ps] = sort_key key [0..<length ps]"
    using assms by (intro sort_key_cong) simp
  finally show ?thesis by (simp add: map_nth)
qed

lemma traverse_map: "traverse f (map g xs) = traverse (\<lambda>x. f (g x)) xs"
  by (induction xs) simp_all

lemma writeJSON_sim: "repr d i t \<Longrightarrow> i < fuel \<Longrightarrow> writeJSON fuel d i = treeJSON t"
proof (induction fuel arbitrary: i t)
  case (Suc fuel)
  show ?case
  proof (rule repr_cases_leaf [OF Suc.prems(1)])
    fix ts
    assume t: "t = CArray ts"
    note k = repr_array_kids [OF Suc.prems(1) [unfolded t]]
    have "traverse (\<lambda>j. writeJSON fuel d (kids d ! (ca (nodes d ! i) + j))) [0..<length ts] =
        traverse (\<lambda>j. treeJSON (ts ! j)) [0..<length ts]"
      using Suc.IH k Suc.prems(2) by (intro traverse_cong) fastforce+
    also have "\<dots> = traverse treeJSON ts"
      using traverse_map [of treeJSON "\<lambda>j. ts ! j" "[0..<length ts]"] by (simp add: map_nth)
    finally show ?thesis
      using repr_item [OF Suc.prems(1)] k(1) by (simp add: t Let_def)
  next
    fix ps
    assume t: "t = CMap ps"
    note k = repr_map_kids [OF Suc.prems(1) [unfolded t]]
    let ?key = "\<lambda>j. textOf d (nodes d ! (kids d ! (ca (nodes d ! i) + 2 * j)))"
    have "traverse (\<lambda>(k, v). bindR (treeJSON v) (\<lambda>s. Inr (marshalString k @ CHR '':'' # s))) (sort_key fst ps) =
        traverse (\<lambda>j. bindR (treeJSON (snd (ps ! j))) (\<lambda>s. Inr (marshalString (fst (ps ! j)) @ CHR '':'' # s)))
          (sort_key ?key [0..<length ps])"
      using sorted_pairs [of ps ?key, OF k(2)] by (simp add: traverse_map split_beta)
    also have "\<dots> = traverse (\<lambda>j. bindR (writeJSON fuel d (kids d ! (ca (nodes d ! i) + 2 * j + 1))) (\<lambda>s. Inr (marshalString (?key j) @ CHR '':'' # s)))
          (sort_key ?key [0..<length ps])"
    proof (intro traverse_cong refl)
      fix j
      assume "j \<in> set (sort_key ?key [0..<length ps])"
      then have j: "j < length ps" by simp
      have "writeJSON fuel d (kids d ! (ca (nodes d ! i) + 2 * j + 1)) = treeJSON (snd (ps ! j))"
        using k(3) [OF j] Suc.prems(2) by (intro Suc.IH [OF k(4) [OF j]]) simp
      with k(2) [OF j] show "bindR (treeJSON (snd (ps ! j))) (\<lambda>s. Inr (marshalString (fst (ps ! j)) @ CHR '':'' # s)) =
          bindR (writeJSON fuel d (kids d ! (ca (nodes d ! i) + 2 * j + 1))) (\<lambda>s. Inr (marshalString (?key j) @ CHR '':'' # s))"
        by simp
    qed
    finally show ?thesis
      using repr_item [OF Suc.prems(1)] k(1) by (simp add: t Let_def keyOrder_def)
  next
    assume l: "leaf d (nodes d ! i) t" and "itemOf t \<noteq> itArray" "itemOf t \<noteq> itMap"
    then show ?thesis
      using numberText_sim [OF l] leaf_item [OF l] by (cases t) (auto simp: Let_def split: option.split)
  qed
qed simp

lemma jsonText_sim: "repr d i t \<Longrightarrow> jsonText d i = treeJSON t"
  by (simp add: jsonText_def writeJSON_sim del: writeJSON.simps)
subsection \<open>Decimal texts\<close>

definition orRange :: "f64 \<Rightarrow> f64 option" where
  "orRange f = (case f of Inf _ \<Rightarrow> None | _ \<Rightarrow> Some f)"

lemma no_char_digits: "list_all isDigit ds \<Longrightarrow> CHR ''e'' \<notin> set ds \<and> CHR ''.'' \<notin> set ds"
  by (auto simp: list_all_iff isDigit_def less_eq_char_def)

lemma sign_split:
  assumes "ds \<noteq> []" "isDigit (hd ds)"
  shows "(case withSign s ds of c # cs \<Rightarrow> if c = CHR ''-'' then (True, cs) else (False, withSign s ds) | [] \<Rightarrow> (False, withSign s ds)) = (s, ds)"
  using assms digit_not_minus [of "hd ds"] by (cases ds) (auto simp: withSign_def)

lemma ParseNumber_plain:
  assumes "ip \<noteq> []" "list_all isDigit ip"
  shows "ParseNumber (withSign s ip) = orRange (decValue s (int_of_digits ip) 0)"
proof -
  have "isDigit (hd ip)" using assms by (cases ip) auto
  then show ?thesis
    using assms no_char_digits [OF assms(2)]
    by (simp add: ParseNumber_def sign_split cut_at_none Let_def orRange_def split: f64.split)
qed

lemma ParseNumber_fraction:
  assumes "ip \<noteq> []" "list_all isDigit ip" "list_all isDigit fp"
  shows "ParseNumber (withSign s (ip @ CHR ''.'' # fp)) = orRange (decValue s (int_of_digits (ip @ fp)) (- int (length fp)))"
proof -
  have h: "isDigit (hd (ip @ CHR ''.'' # fp))" using assms by (cases ip) auto
  have e: "CHR ''e'' \<notin> set (ip @ CHR ''.'' # fp)" using no_char_digits [OF assms(2)] no_char_digits [OF assms(3)] by auto
  show ?thesis
    using assms no_char_digits [OF assms(2)] sign_split [OF _ h, of s] cut_at_none [OF e] cut_at_append [of "CHR ''.''" ip fp]
    by (simp add: ParseNumber_def Let_def orRange_def split: f64.split)
qed

lemma exponentDigits_showNat: "n < 100000 \<Longrightarrow> exponentDigits (showNat n) = int n"
proof (induction n rule: showNat.induct)
  case (1 n)
  show ?case
  proof (cases "n < 10")
    case True
    then show ?thesis by (subst showNat.simps) (simp add: exponentDigits_def showDigit_facts(2))
  next
    case False
    then have IH: "exponentDigits (showNat (n div 10)) = int (n div 10)" using 1 by simp
    have "n div 10 < 10000" using 1(2) by auto
    then show ?thesis
      using False IH by (subst showNat.simps) (simp add: exponentDigits_def showDigit_facts(2) zdiv_int zmod_int)
  qed
qed

lemma exponentOf_FormatInt: "\<bar>x\<bar> < 100000 \<Longrightarrow> exponentOf (FormatInt x) = Some x"
proof -
  assume x: "\<bar>x\<bar> < 100000"
  have pos: "exponentOf (showNat n) = Some (int n)" if "n < 100000" for n
  proof -
    obtain c cs where s: "showNat n = c # cs" by (cases "showNat n") simp_all
    have c: "c \<noteq> CHR ''-''" "c \<noteq> CHR ''+''" using hd_showNat_digit [of n] digit_not_minus [of c] s by auto
    show ?thesis using exponentDigits_showNat [OF that] showNat_digits [of n] c unfolding s by (simp add: exponentOf_def)
  qed
  have "exponentOf (CHR ''-'' # showNat n) = Some (- int n)" if "n < 100000" for n
    using exponentDigits_showNat [OF that] showNat_digits [of n] by (simp add: exponentOf_def)
  then show ?thesis using pos x by (simp add: FormatInt_def)
qed

lemma ParseNumber_exponent:
  assumes "ip \<noteq> []" "list_all isDigit ip" "\<bar>x\<bar> < 100000"
  shows "ParseNumber (withSign s (ip @ CHR ''e'' # FormatInt x)) = orRange (decValue s (int_of_digits ip) x)"
proof -
  have h: "isDigit (hd (ip @ CHR ''e'' # FormatInt x))" using assms by (cases ip) auto
  show ?thesis
    using assms no_char_digits [OF assms(2)] sign_split [OF _ h, of s] cut_at_append [of "CHR ''e''" ip "FormatInt x"]
      cut_at_none [of "CHR ''.''" ip] exponentOf_FormatInt [OF assms(3)]
    by (simp add: ParseNumber_def Let_def orRange_def split: f64.split)
qed

lemma int_of_digits_acc_zeros: "int_of_digits_acc n (zeros k) = n * 10 ^ k"
  by (induction k arbitrary: n) (simp_all add: zeros_def digit_val_def)

lemma int_of_digits_padded: "int_of_digits (ds @ zeros k) = int_of_digits ds * 10 ^ k" "int_of_digits (zeros k @ ds) = int_of_digits ds"
  "int_of_digits (CHR ''0'' # ds) = int_of_digits ds"
  by (simp_all add: int_of_digits_def int_of_digits_acc_append int_of_digits_acc_zeros digit_val_def)

lemma plainDecimal_number:
  assumes "integerSyntax m"
  shows "ParseNumber (plainDecimal m e) = ParseNumber (m @ ''e'' @ FormatInt e)"
proof (cases "e > 64 \<or> e < - 64")
  case False
  define ds where "ds = textDigits m"
  have ds: "ds \<noteq> []" "list_all isDigit ds" using assms by (simp_all add: integerSyntax_def ds_def)
  have m: "m = withSign (negText m) ds" by (cases m) (simp_all add: withSign_def textDigits_def negText_def ds_def)
  have pd: "plainDecimal m e = (if e = 0 then m else withSign (negText m)
      (if e > 0 then ds @ zeros (nat e)
       else if int (length ds) + e > 0 then take (nat (int (length ds) + e)) ds @ ''.'' @ drop (nat (int (length ds) + e)) ds
       else ''0.'' @ zeros (nat (- (int (length ds) + e))) @ ds))"
    using False by (simp only: plainDecimal_def Let_def withSign_def ds_def textDigits_def negText_def if_False)
  have z: "list_all isDigit (zeros k)" for k by (simp add: zeros_def list_all_iff isDigit_def)
  have "ParseNumber (m @ ''e'' @ FormatInt e) = orRange (decValue (negText m) (int_of_digits ds) e)"
  proof -
    have "m @ x = withSign (negText m) (ds @ x)" for x by (subst m) (simp add: withSign_def)
    moreover have "\<bar>e\<bar> < 100000" using False by linarith
    ultimately show ?thesis using ParseNumber_exponent [OF ds, of e "negText m"] by simp
  qed
  moreover consider "e = 0" | "e > 0" | "e < 0" "int (length ds) + e > 0" | "e < 0" "int (length ds) + e \<le> 0" by linarith
  then have "ParseNumber (plainDecimal m e) = orRange (decValue (negText m) (int_of_digits ds) e)"
  proof cases
    case 1
    then show ?thesis using ParseNumber_plain [OF ds, of "negText m"] by (simp add: plainDecimal_def m [symmetric])
  next
    case 2
    have "plainDecimal m e = withSign (negText m) (ds @ zeros (nat e))"
      using 2 by (simp add: pd)
    then show ?thesis
      using ParseNumber_plain [of "ds @ zeros (nat e)" "negText m"] ds z 2 by (simp add: int_of_digits_padded decValue_def)
  next
    case 3
    let ?p = "nat (int (length ds) + e)"
    have "plainDecimal m e = withSign (negText m) (take ?p ds @ CHR ''.'' # drop ?p ds)"
      using 3 by (simp add: pd)
    moreover have "take ?p ds \<noteq> []" "list_all isDigit (take ?p ds)" "list_all isDigit (drop ?p ds)" "int (length (drop ?p ds)) = - e"
      using 3 ds by (auto simp: list_all_iff dest: in_set_takeD in_set_dropD)
    ultimately show ?thesis
      using ParseNumber_fraction [of "take ?p ds" "drop ?p ds" "negText m"] by simp
  next
    case 4
    let ?k = "nat (- (int (length ds) + e))"
    have "plainDecimal m e = withSign (negText m) (''0'' @ CHR ''.'' # zeros ?k @ ds)"
      using 4 by (simp add: pd)
    moreover have "int (length (zeros ?k @ ds)) = - e" using 4 by (simp add: zeros_def)
    ultimately show ?thesis
      using ParseNumber_fraction [of "''0''" "zeros ?k @ ds" "negText m"] ds z
      by (simp add: int_of_digits_padded isDigit_def)
  qed
  ultimately show ?thesis by simp
qed (auto simp: plainDecimal_def)

subsection \<open>Properties\<close>



text \<open>writing a decimal fraction without its exponent does not change the number: the plain text and the text with an
  exponent are read as the same float, whatever the exponent.\<close>

theorem plain_decimal_same_number:
  assumes "integerSyntax m"
  shows "ParseNumber (plainDecimal m e) = ParseNumber (m @ ''e'' @ FormatInt e)"
  using assms by (rule plainDecimal_number)

theorem plain_decimal_same_number_witness: "ParseNumber ''-1.50'' = ParseNumber ''-150e-2''"
proof -
  have "integerSyntax ''-150''" "plainDecimal ''-150'' (- 2) = ''-1.50''" "FormatInt (- 2) = ''-2''" by code_simp+
  then show ?thesis using plain_decimal_same_number [of "''-150''" "- 2"] by simp
qed

end
