(* ===== verification/Node_Json.thy ===== *)
theory Node_Json
  imports Cbor_Node
begin

text \<open>
  The JSON text the CBOR adapter writes for a document is read back as the document, with the keys of its objects
  in order: \<open>writeJSON\<close> of \<open>query/node_cbor.go\<close> against the grammar of \<open>cborenc/json.go\<close>.
\<close>

function (sequential) sortTree :: "ctree \<Rightarrow> ctree" where
  "sortTree (CArray ts) = CArray (map sortTree ts)"
| "sortTree (CMap ps) = CMap (map (\<lambda>(k, t). (k, sortTree t)) (sort_key fst ps))"
| "sortTree t = t"
  by pat_completeness auto
termination
  by (relation "measure size") (auto simp: less_Suc_eq_le intro: size_list_estimation' size_sorted_pair)

fun floatFree :: "ctree \<Rightarrow> bool" where
  "floatFree (CFloat _) \<longleftrightarrow> False"
| "floatFree (CArray ts) \<longleftrightarrow> (\<forall>t \<in> set ts. floatFree t)"
| "floatFree (CMap ps) \<longleftrightarrow> (\<forall>kt \<in> set ps. floatFree (snd kt))"
| "floatFree _ \<longleftrightarrow> True"

text \<open>What may follow a value inside a document.\<close>

definition stops :: "string \<Rightarrow> bool" where
  "stops rest \<longleftrightarrow> rest = [] \<or> hd rest = CHR '','' \<or> hd rest = CHR '']'' \<or> hd rest = CHR ''}''"

lemma stops_simps [simp]: "stops []" "stops (CHR '','' # r)" "stops (CHR '']'' # r)" "stops (CHR ''}'' # r)"
  by (simp_all add: stops_def)

lemma stops_not:
  assumes "stops rest"
  shows "takeWhile isDigit rest = []" "dropWhile isDigit rest = rest" "fracDigits rest = Inr ([], rest)" "expPart rest = Inr (None, rest)"
  using assms by (cases rest; auto simp: stops_def isDigit_def less_eq_char_def fracDigits_def expPart_def)+

subsection \<open>Numbers\<close>

lemma digits_takeWhile: "list_all isDigit ds \<Longrightarrow> takeWhile isDigit (ds @ r) = ds @ takeWhile isDigit r"
  by (simp add: list_all_iff takeWhile_append2)

lemma digits_dropWhile: "list_all isDigit ds \<Longrightarrow> dropWhile isDigit (ds @ r) = dropWhile isDigit r"
  by (simp add: list_all_iff dropWhile_append2)

lemma intDigits_showNat:
  assumes "takeWhile isDigit rest = []"
  shows "intDigits (showNat n @ rest) = Inr (showNat n, rest)"
proof (cases "n = 0")
  case True
  have "showNat 0 = ''0''" by code_simp
  then show ?thesis by (simp add: True intDigits_def)
next
  case False
  have "rest = dropWhile isDigit rest" using assms by (cases rest) (auto split: if_splits)
  then have "digitRun (showNat n @ rest) = (showNat n, rest)"
    using assms showNat_digits [of n] by (simp add: digitRun_def digits_takeWhile digits_dropWhile)
  then show ?thesis using hd_showNat [of n] False by (auto simp: intDigits_def)
qed

lemma numberTree_int_part:
  assumes "takeWhile isDigit rest = []"
  shows "numberTree (FormatInt i @ rest) =
    bindR (fracDigits rest) (\<lambda>(fp, s2).
      bindR (expPart s2) (\<lambda>(e, s3).
        if fp = [] \<and> e = None then Inr (intTree i, s3)
        else
          Inr (CDecimal (FormatInt (integerValue (FormatInt i @ fp)))
                 (word_of_int (case e of None \<Rightarrow> 0 | Some x \<Rightarrow> x) - word_of_nat (length fp)), s3)))"
proof -
  have h: "hd (showNat k @ rest) \<noteq> CHR ''-''" for k
    using hd_showNat_digit [of k] digit_not_minus [of "hd (showNat k)"] by (cases "showNat k") simp_all
  define neg where "neg \<longleftrightarrow> i < 0"
  define ip where "ip = showNat (nat \<bar>i\<bar>)"
  have f: "FormatInt i = (if neg then ''-'' else []) @ ip" by (simp add: FormatInt_def neg_def ip_def)
  have n: "hd (FormatInt i @ rest) = CHR ''-'' \<longleftrightarrow> neg" and d: "(if neg then tl (FormatInt i @ rest) else FormatInt i @ rest) = ip @ rest"
    using h [of "nat \<bar>i\<bar>"] by (auto simp: f ip_def)
  define sgn where "sgn = (if neg then ''-'' else [])"
  have v: "integerValue (sgn @ ip) = i" using integerValue_FormatInt [of i] by (simp only: f sgn_def)
  have ds: "intDigits (ip @ rest) = Inr (ip, rest)" unfolding ip_def by (rule intDigits_showNat [OF assms])
  show ?thesis
    unfolding numberTree_def Let_def n d
    unfolding sgn_def [symmetric] ds bindR_simps prod.case v
    unfolding f sgn_def [symmetric] append_assoc by (rule refl)
qed

lemma numberTree_FormatInt: "stops rest \<Longrightarrow> numberTree (FormatInt i @ rest) = Inr (intTree i, rest)"
  by (simp add: numberTree_int_part stops_not)

lemma expPart_FormatInt:
  assumes "stops rest" "in_int64 x"
  shows "expPart (CHR ''e'' # FormatInt x @ rest) = Inr (Some x, rest)"
proof -
  have run: "digitRun (showNat k @ rest) = (showNat k, rest)" for k
    using stops_not [OF assms(1)] showNat_digits [of k] by (simp add: digitRun_def digits_takeWhile digits_dropWhile)
  have h: "hd (showNat k @ rest) \<noteq> CHR ''-''" "hd (showNat k @ rest) \<noteq> CHR ''+''" for k
    using hd_showNat_digit [of k] digit_not_minus [of "hd (showNat k)"] by (cases "showNat k"; simp)+
  show ?thesis
    using Atoi_FormatInt [OF assms(2)] run h
    by (auto simp: expPart_def expSign_def FormatInt_def Let_def split: if_splits)
qed

lemma numberTree_decimal:
  assumes "stops rest" "in_int64 x"
  shows "numberTree (FormatInt i @ CHR ''e'' # FormatInt x @ rest) = Inr (CDecimal (FormatInt i) (word_of_int x), rest)"
proof -
  have "takeWhile isDigit (CHR ''e'' # FormatInt x @ rest) = []" by (simp add: isDigit_def less_eq_char_def)
  moreover have "fracDigits (CHR ''e'' # FormatInt x @ rest) = Inr ([], CHR ''e'' # FormatInt x @ rest)" by (simp add: fracDigits_def)
  ultimately show ?thesis
    using expPart_FormatInt [OF assms] integerValue_FormatInt [of i] by (simp add: numberTree_int_part)
qed

subsection \<open>Containers\<close>

lemma join_length: "length ss \<le> Suc (length (join_with c ss))"
  by (induction c ss rule: join_with.induct) auto

lemma elementsTree_join:
  assumes "list_all2 (\<lambda>t s. \<forall>rest. stops rest \<longrightarrow> rec (s @ rest) = Inr (t, rest)) ts ss" "ts \<noteq> []" "length ts \<le> fuel"
  shows "elementsTree fuel rec acc (join_with CHR '','' ss @ CHR '']'' # rest) = Inr (acc @ ts, rest)"
  using assms
proof (induction ts ss arbitrary: fuel acc rule: list_all2_induct)
  case (Cons t ts s ss)
  obtain k where k: "fuel = Suc k" using Cons.prems by (cases fuel) auto
  have sp: "skipJSONSpace (c # r) = c # r" if "c = CHR '','' \<or> c = CHR '']''" for c r
    using that by (auto simp: skipJSONSpace_def jsonSpace_def)
  show ?case
  proof (cases ts)
    case Nil
    then have "ss = []" using Cons.hyps by simp
    then show ?thesis using Cons.hyps Nil by (simp add: k sp)
  next
    case c: (Cons t' ts')
    then obtain s' ss' where ss: "ss = s' # ss'" using Cons.hyps by (cases ss) auto
    have "elementsTree k rec (acc @ [t]) (join_with CHR '','' ss @ CHR '']'' # rest) = Inr ((acc @ [t]) @ ts, rest)"
      using Cons.prems k c by (intro Cons.IH) auto
    then show ?thesis using Cons.hyps by (simp add: k ss sp)
  qed
qed simp

lemma memberTree_marshal:
  assumes "utf8Valid k" "rec (s @ rest) = Inr (t, rest)"
  shows "memberTree rec (marshalString k @ CHR '':'' # s @ rest) = Inr ((k, t), rest)"
  using assms str_marshalBody [OF assms(1)]
  by (simp add: memberTree_def marshalString_def skipJSONSpace_def jsonSpace_def)

lemma membersTree_join:
  assumes "list_all2 (\<lambda>kt s. \<forall>rest. stops rest \<longrightarrow> memberTree rec (s @ rest) = Inr (kt, rest)) ps ss" "ps \<noteq> []" "length ps \<le> fuel"
  shows "membersTree fuel rec acc (join_with CHR '','' ss @ CHR ''}'' # rest) = Inr (acc @ ps, rest)"
  using assms
proof (induction ps ss arbitrary: fuel acc rule: list_all2_induct)
  case (Cons t ts s ss)
  obtain k where k: "fuel = Suc k" using Cons.prems by (cases fuel) auto
  have sp: "skipJSONSpace (c # r) = c # r" if "c = CHR '','' \<or> c = CHR ''}''" for c r
    using that by (auto simp: skipJSONSpace_def jsonSpace_def)
  show ?case
  proof (cases ts)
    case Nil
    then have "ss = []" using Cons.hyps by simp
    then show ?thesis using Cons.hyps Nil by (simp add: k sp)
  next
    case c: (Cons t' ts')
    then obtain s' ss' where ss: "ss = s' # ss'" using Cons.hyps by (cases ss) auto
    have "membersTree k rec (acc @ [t]) (join_with CHR '','' ss @ CHR ''}'' # rest) = Inr ((acc @ [t]) @ ts, rest)"
      using Cons.prems k c by (intro Cons.IH) auto
    then show ?thesis using Cons.hyps by (simp add: k ss sp)
  qed
qed simp

subsection \<open>Documents\<close>

lemma canonical_numbers:
  "canonical (CBig s) \<Longrightarrow> \<exists>i. s = FormatInt i \<and> intTree i = CBig s"
  "canonical (CDecimal s e) \<Longrightarrow> \<exists>i. s = FormatInt i"
proof -
  assume "canonical (CBig s)"
  then have t: "intTree (integerValue s) = CBig s" by simp
  then have "s = FormatInt (integerValue s)" by (simp add: intTree_def split: if_splits)
  with t show "\<exists>i. s = FormatInt i \<and> intTree i = CBig s" by blast
next
  assume "canonical (CDecimal s e)"
  then have "s = FormatInt (integerValue s)" by simp
  then show "\<exists>i. s = FormatInt i" by blast
qed

lemma number_text:
  assumes "canonical t" "itemOf t \<in> {itInt, itUint, itNegBig, itNumText}"
  shows "\<exists>i. treeJSON t = Inr (FormatInt i) \<and> intTree i = t \<or>
    (\<exists>e. t = CDecimal (FormatInt i) e \<and> treeJSON t = Inr (FormatInt i @ CHR ''e'' # FormatInt (sint e)))"
proof (cases t)
  case (CInt x)
  have "intTree (sint x) = CInt x" using sint_range_size [of x] by (simp add: intTree_def word_size)
  then show ?thesis by (auto simp: CInt treeIntegerText_def)
next
  case (CUint x)
  then have "\<not> uint x < 2 ^ 63" using assms(1) by (simp add: maxInt64_less)
  then have "intTree (uint x) = CUint x" using unsigned_less [of x] by (simp add: intTree_def)
  then show ?thesis by (auto simp: CUint treeIntegerText_def)
next
  case (CNegBig x)
  then have "\<not> uint x < 2 ^ 63" using assms(1) by (simp add: maxInt64_less)
  then have "intTree (- (uint x + 1)) = CNegBig x" using unsigned_less [of x] by (simp add: intTree_def)
  then show ?thesis by (auto simp: CNegBig treeIntegerText_def)
next
  case (CBig s)
  then show ?thesis using canonical_numbers(1) [of s] assms(1) by (auto simp: treeIntegerText_def)
next
  case (CDecimal s e)
  then show ?thesis using canonical_numbers(2) [of s e] assms(1) by auto
qed (use assms in \<open>auto split: if_splits\<close>)

lemma text_start:
  assumes "treeJSON t = Inr s" "canonical t" "floatFree t"
  shows "s \<noteq> [] \<and> \<not> jsonSpace (hd s) \<and> hd s \<noteq> CHR '']''"
proof -
  have num: "FormatInt i \<noteq> [] \<and> \<not> jsonSpace (hd (FormatInt i)) \<and> hd (FormatInt i) \<noteq> CHR '']''" for i
    using hd_showNat_digit [of "nat i"]
    by (cases "showNat (nat i)") (auto simp: FormatInt_def jsonSpace_def isDigit_def less_eq_char_def)
  show ?thesis
  proof (cases "itemOf t \<in> {itInt, itUint, itNegBig, itNumText}")
    case True
    then show ?thesis using number_text [OF assms(2) True] num assms(1) by auto
  next
    case False
    then show ?thesis
      using assms by (cases t) (auto simp: bindR_eq_Inr_iff marshalString_def jsonSpace_def split: if_splits)
  qed
qed

lemma jsonTree_number:
  assumes "canonical t" "itemOf t \<in> {itInt, itUint, itNegBig, itNumText}" "treeJSON t = Inr s" "stops rest"
  shows "jsonTree depth (s @ rest) = Inr (t, rest)"
proof -
  obtain i where i: "s = FormatInt i \<and> intTree i = t \<or> (\<exists>e. t = CDecimal (FormatInt i) e \<and> s = FormatInt i @ CHR ''e'' # FormatInt (sint e))"
    using number_text [OF assms(1,2)] assms(3) by auto
  have "in_int64 (sint e)" for e :: "64 word" using sint_range_size [of e] by (simp add: in_int64_def word_size)
  then have r: "numberTree (s @ rest) = Inr (t, rest)"
    using i numberTree_FormatInt [OF assms(4), of i] numberTree_decimal [OF assms(4)] by auto
  obtain c cs where c: "FormatInt i = c # cs" "c = CHR ''-'' \<or> isDigit c"
    using hd_showNat_digit [of "nat i"] by (cases "i < 0"; cases "showNat (nat i)") (auto simp: FormatInt_def)
  obtain cs' where s: "s @ rest = c # cs'" using i c(1) by auto
  have "skipJSONSpace (s @ rest) = s @ rest"
    using c(2) by (auto simp: s skipJSONSpace_def jsonSpace_def isDigit_def less_eq_char_def)
  moreover have "c \<noteq> CHR ''{''" "c \<noteq> CHR ''[''" "c \<noteq> CHR 0x22" using c(2) by (auto simp: isDigit_def less_eq_char_def)
  ultimately show ?thesis
    using r c(2) unfolding s by (simp add: jsonTree.simps jsonStep_def)
qed

lemma skip_join:
  assumes "list_all (\<lambda>s. s \<noteq> [] \<and> \<not> jsonSpace (hd s) \<and> hd s \<noteq> close) ss" "ss \<noteq> []"
  shows "skipJSONSpace (join_with CHR '','' ss @ r) = join_with CHR '','' ss @ r \<and> join_with CHR '','' ss \<noteq> [] \<and> hd (join_with CHR '','' ss) \<noteq> close"
proof -
  obtain s ss' where ss: "ss = s # ss'" using assms(2) by (cases ss) auto
  obtain c cs where s: "s = c # cs" using assms(1) ss by (cases s) auto
  have "join_with CHR '','' ss = c # join_with CHR '','' (cs # ss')" by (simp add: ss s join_with_Cons_char)
  then show ?thesis using assms(1) by (simp add: ss s skipJSONSpace_def)
qed

lemma levels_element:
  "t \<in> set ts \<Longrightarrow> Suc (levels t) \<le> levels (CArray ts)"
  "kt \<in> set ps \<Longrightarrow> Suc (levels (snd kt)) \<le> levels (CMap ps)"
  using foldr_max [of "levels t" "map levels ts"] foldr_max [of "levels (snd kt)" "map (\<lambda>kt. levels (snd kt)) ps"] by auto

lemma jsonTree_leaf:
  assumes "canonical t" "floatFree t" "treeJSON t = Inr s" "stops rest" "itemOf t \<noteq> itArray" "itemOf t \<noteq> itMap"
  shows "jsonTree depth (s @ rest) = Inr (t, rest)"
proof (cases "itemOf t \<in> {itInt, itUint, itNegBig, itNumText}")
  case True
  then show ?thesis using jsonTree_number [OF assms(1) True assms(3,4)] by simp
next
  case False
  then show ?thesis
    using assms str_marshalBody
    by (cases t) (auto simp: jsonTree.simps [of depth] jsonStep_def skipJSONSpace_def jsonSpace_def literalTree_def marshalString_def isDigit_def less_eq_char_def split: if_splits)
qed

lemma list_all2_mono_set:
  "list_all2 P xs ys \<Longrightarrow> (\<And>x y. x \<in> set xs \<Longrightarrow> P x y \<Longrightarrow> Q x y) \<Longrightarrow> list_all2 Q xs ys"
  by (auto simp: list_all2_conv_all_nth)

lemma jsonTree_text:
  "canonical t \<Longrightarrow> floatFree t \<Longrightarrow> treeJSON t = Inr s \<Longrightarrow> depth + levels t \<le> maxJSONDepth \<Longrightarrow> stops rest \<Longrightarrow>
     jsonTree depth (s @ rest) = Inr (sortTree t, rest)"
proof (induction t arbitrary: s depth rest rule: treeJSON.induct)
  case (5 ts)
  then obtain ss where ss: "list_all2 (\<lambda>t s. treeJSON t = Inr s) ts ss" and s: "s = CHR ''['' # join_with CHR '','' ss @ '']''"
    by (auto simp: bindR_eq_Inr_iff traverse_eq_Inr_iff)
  have d: "depth < maxJSONDepth" using 5(5) by simp
  let ?j = "join_with CHR '','' ss @ CHR '']'' # rest"
  have "list_all2 (\<lambda>t s. \<forall>rest. stops rest \<longrightarrow> jsonTree (depth + 1) (s @ rest) = Inr (t, rest)) (map sortTree ts) ss"
  proof -
    have "\<forall>rest. stops rest \<longrightarrow> jsonTree (depth + 1) (s @ rest) = Inr (sortTree t, rest)" if "t \<in> set ts" "treeJSON t = Inr s" for t s
      using 5(1) [OF that(1) _ _ that(2), of "depth + 1"] 5(2,3,5) that levels_element(1) [OF that(1)] by auto
    then show ?thesis using ss by (auto simp: list_all2_conv_all_nth)
  qed
  note elems = elementsTree_join [OF this, of "Suc (length ?j)" "[]" rest]
  have len: "length ts \<le> Suc (length ?j)" using join_length [of ss "CHR '',''"] list_all2_lengthD [OF ss] by simp
  show ?case
  proof (cases "ts = []")
    case True
    then show ?thesis
      using ss d by (simp add: s jsonTree.simps [of depth] jsonStep_def arrayTree_def skipJSONSpace_def jsonSpace_def)
  next
    case False
    then have "ss \<noteq> []" using ss by auto
    have "list_all (\<lambda>s. s \<noteq> [] \<and> \<not> jsonSpace (hd s) \<and> hd s \<noteq> CHR '']'') ss"
      using ss text_start 5(2,3) by (fastforce simp: list_all_iff list_all2_conv_all_nth in_set_conv_nth)
    note sk = skip_join [OF this \<open>ss \<noteq> []\<close>, of "CHR '']'' # rest"]
    then have "arrayTree jsonTree depth (CHR ''['' # ?j) = Inr (CArray (map sortTree ts), rest)"
      using d elems False len by (cases "join_with CHR '','' ss") (simp_all add: arrayTree_def Let_def del: elementsTree.simps)
    then show ?thesis
      using False by (simp add: s jsonTree.simps [of depth] jsonStep_def skipJSONSpace_def jsonSpace_def)
  qed
next
  case (6 ps)
  let ?m = "\<lambda>(k, v). bindR (treeJSON v) (\<lambda>s. Inr (marshalString k @ CHR '':'' # s))"
  let ?qs = "sort_key fst ps" and ?f = "\<lambda>(k, t). (k, sortTree t)"
  from 6 obtain ss where ss: "list_all2 (\<lambda>kt s. ?m kt = Inr s) ?qs ss" and s: "s = CHR ''{'' # join_with CHR '','' ss @ ''}''"
    by (auto simp: bindR_eq_Inr_iff traverse_eq_Inr_iff)
  have d: "depth < maxJSONDepth" using 6(5) by simp
  let ?j = "join_with CHR '','' ss @ CHR ''}'' # rest"
  have mem: "\<forall>rest. stops rest \<longrightarrow> memberTree (jsonTree (depth + 1)) (s @ rest) = Inr (?f kt, rest)"
    if mem: "kt \<in> set ps" and txts: "?m kt = Inr s" for kt s
  proof -
    obtain k t where kt: "kt = (k, t)" by (cases kt)
    obtain x where x: "treeJSON t = Inr x" "s = marshalString k @ CHR '':'' # x"
      using txts by (auto simp: kt bindR_eq_Inr_iff)
    have c: "canonical t" "utf8Valid k" "floatFree t" using 6(2,3) mem kt by fastforce+
    have "jsonTree (depth + 1) (x @ rest) = Inr (sortTree t, rest)" if "stops rest" for rest
      using 6(1) [of "(k, t)" k t x "depth + 1" rest] c x(1) \<open>stops rest\<close> \<open>kt \<in> set ps\<close> 6(5) levels_element(2) [of kt ps] kt by auto
    then show ?thesis using memberTree_marshal [OF c(2)] by (simp add: x kt)
  qed
  have "list_all2 (\<lambda>kt s. \<forall>rest. stops rest \<longrightarrow> memberTree (jsonTree (depth + 1)) (s @ rest) = Inr (kt, rest)) (map ?f ?qs) ss"
  proof (unfold list_all2_map1, rule list_all2_mono_set [OF ss])
    fix kt s
    assume "kt \<in> set ?qs" "?m kt = Inr s"
    then show "\<forall>rest. stops rest \<longrightarrow> memberTree (jsonTree (depth + 1)) (s @ rest) = Inr (?f kt, rest)"
      using mem by simp
  qed
  note elems = membersTree_join [OF this, of "Suc (length ?j)" "[]" rest]
  have len: "length ps \<le> Suc (length ?j)" using join_length [of ss "CHR '',''"] list_all2_lengthD [OF ss] by simp
  show ?case
  proof (cases "ps = []")
    case True
    then show ?thesis
      using ss d by (simp add: s jsonTree.simps [of depth] jsonStep_def objectTree_def skipJSONSpace_def jsonSpace_def)
  next
    case False
    then have "ss \<noteq> []" using list_all2_lengthD [OF ss] by auto
    have "list_all (\<lambda>s. s \<noteq> [] \<and> \<not> jsonSpace (hd s) \<and> hd s \<noteq> CHR ''}'') ss"
      using ss by (induction rule: list_all2_induct) (auto simp: bindR_eq_Inr_iff marshalString_def jsonSpace_def split: prod.splits)
    note sk = skip_join [OF this \<open>ss \<noteq> []\<close>, of "CHR ''}'' # rest"]
    have "?qs \<noteq> []" using False by (metis length_0_conv length_sort)
    with sk have "objectTree jsonTree depth (CHR ''{'' # ?j) = Inr (CMap (map ?f ?qs), rest)"
      using d elems False len by (cases "join_with CHR '','' ss") (simp_all add: objectTree_def Let_def del: membersTree.simps)
    then show ?thesis
      using False by (simp add: s jsonTree.simps [of depth] jsonStep_def skipJSONSpace_def jsonSpace_def)
  qed
qed (auto intro!: jsonTree_leaf simp del: treeJSON.simps canonical.simps split: if_splits)

subsection \<open>Properties\<close>



end
