(* ===== verification/Pg_Encode.thy ===== *)
theory Pg_Encode
  imports Node_Json
begin

text \<open>
  The binary field encoders of the typed write path, \<open>query/write_encode.go\<close>: a value of the request becomes the
  bytes PostgreSQL's receive function for the column's type reads.  The encoders ask a node for its kind and its
  values, so a node is the tree of these answers; \<open>treeField\<close> gives them for a CBOR document, and the nodes of the
  arena answer alike.  An error carries the name of the type it is raised for, from which its SQLSTATE follows.
\<close>

subsection \<open>Nodes\<close>

datatype field_node = FieldNode
  (fKind: NodeKind)
  (fRaw: "json_form_error + string")
  (fJson: "json_form_error + string")
  (fString: "node_error + string")
  (fBool: "node_error + bool")
  (fBytes: "bytes option")
  (fInstant: "gotime option")
  (fDays: "int option")
  (fDecimal: "string option")
  (fItems: "field_node list")
  (fFields: "(string \<times> field_node) list")

definition fGet :: "field_node \<Rightarrow> string \<Rightarrow> field_node option" where
  "fGet n key = map_of (fFields n) key"

text \<open>The answers of a node that holds a document.\<close>

fun treeBytes :: "ctree \<Rightarrow> bytes option" where
  "treeBytes (CBytes b) = Some b"
| "treeBytes (CUUID b) = Some b"
| "treeBytes _ = None"

fun treeInstant :: "ctree \<Rightarrow> gotime option" where
  "treeInstant (CInstant t) = Some t"
| "treeInstant _ = None"

fun treeDays :: "ctree \<Rightarrow> int option" where
  "treeDays (CDate x) = Some (sint x)"
| "treeDays _ = None"

fun treeDecimal :: "ctree \<Rightarrow> string option" where
  "treeDecimal (CFloat x) =
     (let f = Float64frombits x in Some (if finite_f64 f then FormatFloatF f else floatText f))"
| "treeDecimal (CDecimal s e) = Some (plainDecimal s (sint e))"
| "treeDecimal t = treeIntegerText t"

definition treeRaw :: "ctree \<Rightarrow> json_form_error + string" where
  "treeRaw t =
     (if Kind (treeNode t) = KindNumber then Inr (case treeNumberText t of Some s \<Rightarrow> s | None \<Rightarrow> []) else treeJSON t)"

definition fieldOf :: "ctree \<Rightarrow> field_node list \<Rightarrow> (string \<times> field_node) list \<Rightarrow> field_node" where
  "fieldOf t = FieldNode (Kind (treeNode t)) (treeRaw t) (treeJSON t) (StrictString (treeNode t)) (StrictBool (treeNode t))
     (treeBytes t) (treeInstant t) (treeDays t) (treeDecimal t)"

fun treeField :: "ctree \<Rightarrow> field_node" where
  "treeField (CArray ts) = fieldOf (CArray ts) (map treeField ts) []"
| "treeField (CMap ps) = fieldOf (CMap ps) [] (map (\<lambda>(k, t). (k, treeField t)) ps)"
| "treeField t = fieldOf t [] []"

lemma fieldOf_sel [simp]:
  "fKind (fieldOf t is fs) = Kind (treeNode t)" "fRaw (fieldOf t is fs) = treeRaw t" "fJson (fieldOf t is fs) = treeJSON t"
  "fString (fieldOf t is fs) = StrictString (treeNode t)" "fBool (fieldOf t is fs) = StrictBool (treeNode t)"
  "fBytes (fieldOf t is fs) = treeBytes t" "fInstant (fieldOf t is fs) = treeInstant t" "fDays (fieldOf t is fs) = treeDays t"
  "fDecimal (fieldOf t is fs) = treeDecimal t" "fItems (fieldOf t is fs) = is" "fFields (fieldOf t is fs) = fs"
  by (simp_all add: fieldOf_def)

lemma treeField_sel [simp]:
  "fKind (treeField t) = Kind (treeNode t)" "fRaw (treeField t) = treeRaw t" "fJson (treeField t) = treeJSON t"
  "fString (treeField t) = StrictString (treeNode t)" "fBool (treeField t) = StrictBool (treeNode t)"
  "fBytes (treeField t) = treeBytes t" "fInstant (treeField t) = treeInstant t" "fDays (treeField t) = treeDays t"
  "fDecimal (treeField t) = treeDecimal t"
  by (cases t; simp)+

text \<open>A node of the arena answers as the tree it holds.\<close>

lemma decimalText_sim: "leaf d n t \<Longrightarrow> decimalText d n = treeDecimal t"
  using integerText_sim
  by (cases t) (auto simp: decimalText_def integerText_def treeIntegerText_def)

lemma field_answers:
  assumes "repr d i t"
  shows "cnodeKind d i = fKind (treeField t)" "cnodeRaw d i = fRaw (treeField t)" "jsonText d i = fJson (treeField t)"
    "cnodeStrictString d i = fString (treeField t)" "cnodeStrictBool d i = fBool (treeField t)"
    "cnodeStrictBytes d i = fBytes (treeField t)" "cnodeInstant d i = fInstant (treeField t)" "cnodeDays d i = fDays (treeField t)"
    "cnodeKind d i = KindNumber \<Longrightarrow> decimalText d (nodes d ! i) = fDecimal (treeField t)"
proof -
  show k: "cnodeKind d i = fKind (treeField t)" and j: "jsonText d i = fJson (treeField t)"
    "cnodeStrictString d i = fString (treeField t)" "cnodeStrictBool d i = fBool (treeField t)"
    using cnodeKind_sim [OF assms] jsonText_sim [OF assms] cnodeStrictString_sim [OF assms] cnodeStrictBool_sim [OF assms] by simp_all
  have l: "leaf d (nodes d ! i) t" if "cnodeKind d i = KindNumber"
    using assms that k by (cases rule: repr_cases_leaf) simp_all
  show "cnodeRaw d i = fRaw (treeField t)"
    using k j(1) numberText_sim [OF l] by (simp add: cnodeRaw_def treeRaw_def)
  show "cnodeKind d i = KindNumber \<Longrightarrow> decimalText d (nodes d ! i) = fDecimal (treeField t)"
    using decimalText_sim l by simp
  show "cnodeStrictBytes d i = fBytes (treeField t)" "cnodeInstant d i = fInstant (treeField t)" "cnodeDays d i = fDays (treeField t)"
    using repr_item [OF assms] repr_leaf [OF assms]
    by (cases t; auto simp: cnodeStrictBytes_def cnodeInstant_def cnodeDays_def Let_def)+
qed

subsection \<open>The session and the errors\<close>

text \<open>A \<open>time.Location\<close> is the offset it has at an instant, given in seconds since 1970; UTC is \<open>None\<close>.\<close>

record encodeContext =
  location :: "(int \<Rightarrow> int) option"
  zoneErr :: bool

definition noContext :: encodeContext where "noContext = \<lparr>location = None, zoneErr = False\<rparr>"

datatype encode_error =
    WrongKind string
  | BadValue string
  | OutOfRange string
  | UnknownZone string
  | BadCharacter
  | ReadError
  | NotRectangular

definition isDateTimeType :: "string \<Rightarrow> bool" where
  "isDateTimeType typ \<longleftrightarrow> typ = ''date'' \<or> typ = ''timestamp'' \<or> typ = ''timestamptz''"

text \<open>The SQLSTATE a client gets; the shape of an array has none.\<close>

fun sqlState :: "encode_error \<Rightarrow> string option" where
  "sqlState (WrongKind typ) = Some (if isDateTimeType typ then ''22007'' else ''22P02'')"
| "sqlState (BadValue typ) = Some (if isDateTimeType typ then ''22007'' else ''22P02'')"
| "sqlState (OutOfRange typ) = Some (if isDateTimeType typ then ''22008'' else ''22003'')"
| "sqlState (UnknownZone typ) = Some ''22007''"
| "sqlState BadCharacter = Some ''22021''"
| "sqlState ReadError = Some ''22P02''"
| "sqlState NotRectangular = None"

type_synonym field_encoder = "encodeContext \<Rightarrow> bytes \<Rightarrow> field_node \<Rightarrow> encode_error + bytes"

definition readRaw :: "field_node \<Rightarrow> encode_error + string" where
  "readRaw n = (case fRaw n of Inl _ \<Rightarrow> Inl ReadError | Inr s \<Rightarrow> Inr s)"

definition readString :: "field_node \<Rightarrow> encode_error + string" where
  "readString n = (case fString n of Inl _ \<Rightarrow> Inl ReadError | Inr s \<Rightarrow> Inr s)"

definition readBytes :: "field_node \<Rightarrow> encode_error + bytes" where
  "readBytes n = (case fBytes n of None \<Rightarrow> Inl ReadError | Some b \<Rightarrow> Inr b)"

text \<open>The text of a number or of a string; every other kind is refused.\<close>

definition numericInput :: "string \<Rightarrow> field_node \<Rightarrow> encode_error + string" where
  "numericInput typ n =
     (if fKind n = KindNumber then readRaw n else if fKind n = KindString then readString n else Inl (WrongKind typ))"

subsection \<open>Big-endian integers\<close>

definition int16Bytes :: "int \<Rightarrow> bytes" where
  "int16Bytes v = (let w = (word_of_int (v mod 2 ^ 16) :: 64 word) in [ucast (drop_bit 8 w), ucast w])"

definition int32Bytes :: "int \<Rightarrow> bytes" where
  "int32Bytes v =
     (let w = (word_of_int (v mod 2 ^ 32) :: 64 word) in
      [ucast (drop_bit 24 w), ucast (drop_bit 16 w), ucast (drop_bit 8 w), ucast w])"

definition int64Bytes :: "int \<Rightarrow> bytes" where
  "int64Bytes v =
     (let w = (word_of_int v :: 64 word) in
      [ucast (drop_bit 56 w), ucast (drop_bit 48 w), ucast (drop_bit 40 w), ucast (drop_bit 32 w),
       ucast (drop_bit 24 w), ucast (drop_bit 16 w), ucast (drop_bit 8 w), ucast w])"

definition appendInt16 :: "bytes \<Rightarrow> int \<Rightarrow> bytes" where "appendInt16 dst v = dst @ int16Bytes v"

definition appendInt32 :: "bytes \<Rightarrow> int \<Rightarrow> bytes" where "appendInt32 dst v = dst @ int32Bytes v"

definition appendInt64 :: "bytes \<Rightarrow> int \<Rightarrow> bytes" where "appendInt64 dst v = dst @ int64Bytes v"

subsection \<open>Integers\<close>

datatype num_error = ErrSyntax | ErrRange

text \<open>\<open>strconv.ParseInt\<close> in base 10: the magnitude is read digit by digit and the first thing wrong decides the error.\<close>

fun parseUint :: "int \<Rightarrow> int \<Rightarrow> string \<Rightarrow> num_error + int" where
  "parseUint maxVal n [] = Inr n"
| "parseUint maxVal n (c # cs) =
     (if \<not> isDigit c then Inl ErrSyntax
      else if 10 * n + digit_val c > maxVal then Inl ErrRange
      else parseUint maxVal (10 * n + digit_val c) cs)"

definition ParseIntBits :: "nat \<Rightarrow> string \<Rightarrow> num_error + int" where
  "ParseIntBits bits s =
     (let neg = (s \<noteq> [] \<and> hd s = CHR ''-'');
          ds = (if s \<noteq> [] \<and> (hd s = CHR ''+'' \<or> hd s = CHR ''-'') then tl s else s) in
      if ds = [] then Inl ErrSyntax
      else
        bindR (parseUint (2 ^ bits - 1) 0 ds) (\<lambda>un.
          if \<not> neg \<and> un \<ge> 2 ^ (bits - 1) \<or> neg \<and> un > 2 ^ (bits - 1) then Inl ErrRange
          else Inr (if neg then - un else un)))"

definition intName :: "nat \<Rightarrow> string" where
  "intName bits = ''int'' @ showNat (bits div 8)"

definition encodeIntField :: "nat \<Rightarrow> field_encoder" where
  "encodeIntField bits ec dst n =
     bindR (numericInput (intName bits) n) (\<lambda>text.
       case ParseIntBits bits text of
         Inl ErrRange \<Rightarrow> Inl (OutOfRange (intName bits))
       | Inl ErrSyntax \<Rightarrow> Inl (BadValue (intName bits))
       | Inr v \<Rightarrow> Inr (if bits = 16 then appendInt16 dst v else if bits = 32 then appendInt32 dst v else appendInt64 dst v))"

subsection \<open>Lower case\<close>

text \<open>\<open>strings.ToLower\<close>, followed on what has a lower-case form in ASCII: the letters, and the two runes U+0130 and U+212A.\<close>

fun toLower :: "string \<Rightarrow> string" where
  "toLower [] = []"
| "toLower (c # cs) =
     (if CHR ''A'' \<le> c \<and> c \<le> CHR ''Z'' then char_of (of_char c + (32 :: nat)) # toLower cs
      else if c = CHR 0xC4 \<and> take 1 cs = [CHR 0xB0] then CHR ''i'' # toLower (drop 1 cs)
      else if c = CHR 0xE2 \<and> take 2 cs = [CHR 0x84, CHR 0xAA] then CHR ''k'' # toLower (drop 2 cs)
      else c # toLower cs)"

lemma toLower_low: "list_all (\<lambda>c. of_char c < (65 :: nat)) s \<Longrightarrow> toLower s = s"
proof (induction s)
  case (Cons c cs)
  have "c \<noteq> CHR 0xC4 \<and> c \<noteq> CHR 0xE2 \<and> \<not> CHR ''A'' \<le> c" using Cons.prems by (auto simp: less_eq_char_def)
  then show ?case using Cons by simp
qed simp

subsection \<open>Floats\<close>

definition floatSpecial :: "string \<Rightarrow> f64 option" where
  "floatSpecial s =
     (let l = toLower s in
      if l = ''nan'' then Some NaN
      else if l \<in> {''infinity'', ''+infinity'', ''inf'', ''+inf''} then Some (Inf False)
      else if l \<in> {''-infinity'', ''-inf''} then Some (Inf True)
      else None)"

definition isPlainDecimal :: "string \<Rightarrow> bool" where
  "isPlainDecimal s \<longleftrightarrow>
     s \<noteq> [] \<and> list_all (\<lambda>c. isDigit c \<or> c \<in> {CHR ''+'', CHR ''-'', CHR ''.'', CHR ''e'', CHR ''E''}) s"

definition hasNonZeroDigit :: "string \<Rightarrow> bool" where
  "hasNonZeroDigit s \<longleftrightarrow>
     list_ex (\<lambda>c. CHR ''1'' \<le> c \<and> c \<le> CHR ''9'') (takeWhile (\<lambda>c. c \<noteq> CHR ''e'' \<and> c \<noteq> CHR ''E'') s)"

text \<open>\<open>n / d\<close> rounded to single precision: 24 bits, the exponent not below \<open>-149\<close>.\<close>

definition round_f32 :: "bool \<Rightarrow> int \<Rightarrow> int \<Rightarrow> f64" where
  "round_f32 s n d =
     (if n = 0 then Fin s 0 0
      else
        let e1 = bitlen n - bitlen d - 24;
            q1 = (let (a, b) = scaled n d e1 in a div b);
            e2 = max (if q1 \<ge> 2 ^ 24 then e1 + 1 else e1) (- 149);
            m = (let (a, b) = scaled n d e2 in div_half_even a b);
            (m', e') = (if m = 2 ^ 24 then (2 ^ 23, e2 + 1) else (m, e2))
        in if e' > 104 then Inf s else Fin s m' e')"

definition Float32bits :: "f64 \<Rightarrow> int" where
  "Float32bits f =
     (case f of
        NaN \<Rightarrow> 0x7FC00000
      | Inf s \<Rightarrow> (if s then 2 ^ 31 else 0) + 0x7F800000
      | Fin s m e \<Rightarrow> (if s then 2 ^ 31 else 0) + (if m < 2 ^ 23 then m else (e + 150) * 2 ^ 23 + (m - 2 ^ 23)))"

text \<open>\<open>strconv.ParseFloat\<close> on the characters \<open>isPlainDecimal\<close> lets through, for both widths.\<close>

definition ParseFloatBits :: "nat \<Rightarrow> string \<Rightarrow> f64 option" where
  "ParseFloatBits bits s =
     (let neg = (s \<noteq> [] \<and> hd s = CHR ''-'');
          body = (if s \<noteq> [] \<and> (hd s = CHR ''+'' \<or> hd s = CHR ''-'') then tl s else s);
          (mant, ex, hasExp) = cut_at CHR ''e'' (map (\<lambda>c. if c = CHR ''E'' then CHR ''e'' else c) body);
          (ip, fp, dot) = cut_at CHR ''.'' mant
      in if ip @ fp = [] \<or> \<not> list_all isDigit (ip @ fp) then None
         else
           (case (if hasExp then exponentOf ex else Some 0) of
              None \<Rightarrow> None
            | Some e \<Rightarrow>
                let c = int_of_digits (ip @ fp); q = e - int (length fp);
                    rnd = (if bits = 32 then round_f32 else round_f64)
                in (case (if 0 \<le> q then rnd neg (c * 10 ^ nat q) 1 else rnd neg c (10 ^ nat (- q))) of
                      Inf _ \<Rightarrow> None | f \<Rightarrow> Some f)))"

definition isZeroFloat :: "f64 \<Rightarrow> bool" where
  "isZeroFloat f = (case f of Fin _ m _ \<Rightarrow> m = 0 | _ \<Rightarrow> False)"

definition floatName :: "nat \<Rightarrow> string" where
  "floatName bits = (if bits = 64 then ''float8'' else ''float4'')"

definition floatValue :: "nat \<Rightarrow> string \<Rightarrow> encode_error + f64" where
  "floatValue bits text =
     (case floatSpecial text of
        Some v \<Rightarrow> Inr v
      | None \<Rightarrow>
          if \<not> isPlainDecimal text then Inl (BadValue (floatName bits))
          else
            (case ParseFloatBits bits text of
               None \<Rightarrow> Inl (BadValue (floatName bits))
             | Some v \<Rightarrow> if isZeroFloat v \<and> hasNonZeroDigit text then Inl (BadValue (floatName bits)) else Inr v))"

definition encodeFloatField :: "nat \<Rightarrow> field_encoder" where
  "encodeFloatField bits ec dst n =
     bindR (numericInput (floatName bits) n) (\<lambda>text.
       bindR (floatValue bits text) (\<lambda>v.
         Inr (dst @ (if bits = 32 then int32Bytes (Float32bits v) else int64Bytes (uint (Float64bits v))))))"

subsection \<open>Booleans\<close>

definition trimBlank :: "string \<Rightarrow> string" where
  "trimBlank s = rev (dropWhile ascii_space (rev (dropWhile ascii_space s)))"

definition HasPrefix :: "string \<Rightarrow> string \<Rightarrow> bool" where
  "HasPrefix s p \<longleftrightarrow> take (length p) s = p"

definition parseBoolText :: "string \<Rightarrow> bool option" where
  "parseBoolText s0 =
     (let s = trimBlank s0; l = toLower s in
      if s = [] then None
      else if hd l = CHR ''t'' then (if HasPrefix ''true'' l then Some True else None)
      else if hd l = CHR ''f'' then (if HasPrefix ''false'' l then Some False else None)
      else if hd l = CHR ''y'' then (if HasPrefix ''yes'' l then Some True else None)
      else if hd l = CHR ''n'' then (if HasPrefix ''no'' l then Some False else None)
      else if hd l = CHR ''o'' then
        (if l = ''on'' then Some True else if length l \<ge> 2 \<and> HasPrefix ''off'' l then Some False else None)
      else if hd l = CHR ''1'' then (if l = ''1'' then Some True else None)
      else if hd l = CHR ''0'' then (if l = ''0'' then Some False else None)
      else None)"

definition boolByte :: "bool \<Rightarrow> bytes" where "boolByte v = [if v then 1 else 0]"

definition encodeBoolField :: field_encoder where
  "encodeBoolField ec dst n =
     (case fKind n of
        KindBool \<Rightarrow> (case fBool n of Inl _ \<Rightarrow> Inl ReadError | Inr v \<Rightarrow> Inr (dst @ boolByte v))
      | KindNumber \<Rightarrow>
          bindR (readRaw n) (\<lambda>text.
            if text \<noteq> ''0'' \<and> text \<noteq> ''1'' then Inl (BadValue ''bool'') else Inr (dst @ boolByte (text = ''1'')))
      | KindString \<Rightarrow>
          bindR (readString n) (\<lambda>text.
            case parseBoolText text of None \<Rightarrow> Inl (BadValue ''bool'') | Some v \<Rightarrow> Inr (dst @ boolByte v))
      | _ \<Rightarrow> Inl (WrongKind ''bool''))"

subsection \<open>Texts, UUIDs, bytes, JSON\<close>

definition hasNUL :: "string \<Rightarrow> bool" where "hasNUL s \<longleftrightarrow> CHR 0x00 \<in> set s"

definition encodeTextField :: field_encoder where
  "encodeTextField ec dst n =
     (if fKind n \<noteq> KindString then Inl (WrongKind ''text'')
      else bindR (readString n) (\<lambda>s. if hasNUL s then Inl BadCharacter else Inr (dst @ map byteOf s)))"

text \<open>The sixteen bytes, filled nibble by nibble from the characters that are not hyphens of the long form.\<close>

fun uuidNibbles :: "bool \<Rightarrow> string \<Rightarrow> encode_error + nat list" where
  "uuidNibbles hyphens [] = Inr []"
| "uuidNibbles hyphens (c # cs) =
     (if c = CHR ''-'' \<and> hyphens then uuidNibbles hyphens cs
      else
        (case hex_val c of
           None \<Rightarrow> Inl (BadValue ''uuid'')
         | Some v \<Rightarrow> bindR (uuidNibbles hyphens cs) (\<lambda>vs. Inr (v # vs))))"

fun nibblePairs :: "nat list \<Rightarrow> bytes" where
  "nibblePairs (a # b # vs) = word_of_nat (16 * a + b) # nibblePairs vs"
| "nibblePairs _ = []"

definition uuidText :: "string \<Rightarrow> encode_error + bytes" where
  "uuidText s =
     (let inner = (if length s \<ge> 2 \<and> hd s = CHR ''{'' \<and> last s = CHR ''}'' then butlast (tl s) else s) in
      if length inner = 36 then
        (if inner ! 8 \<noteq> CHR ''-'' \<or> inner ! 13 \<noteq> CHR ''-'' \<or> inner ! 18 \<noteq> CHR ''-'' \<or> inner ! 23 \<noteq> CHR ''-'' then Inl (BadValue ''uuid'')
         else bindR (uuidNibbles True inner) (\<lambda>vs. let out = nibblePairs vs in Inr (out @ replicate (16 - length out) 0)))
      else if length inner = 32 then
        bindR (uuidNibbles False inner) (\<lambda>vs. let out = nibblePairs vs in Inr (out @ replicate (16 - length out) 0))
      else Inl (BadValue ''uuid''))"

definition encodeUUIDField :: field_encoder where
  "encodeUUIDField ec dst n =
     (if fKind n = KindUUID then bindR (readBytes n) (\<lambda>b. Inr (dst @ b))
      else if fKind n \<noteq> KindString then Inl (WrongKind ''uuid'')
      else bindR (readString n) (\<lambda>s. bindR (uuidText s) (\<lambda>out. Inr (dst @ out))))"

fun hexPairs :: "string \<Rightarrow> encode_error + bytes" where
  "hexPairs (a # b # cs) =
     (case (hex_val a, hex_val b) of
        (Some x, Some y) \<Rightarrow> bindR (hexPairs cs) (\<lambda>bs. Inr (word_of_nat (16 * x + y) # bs))
      | _ \<Rightarrow> Inl (BadValue ''bytea''))"
| "hexPairs _ = Inr []"

definition encodeByteaField :: field_encoder where
  "encodeByteaField ec dst n =
     (if fKind n = KindBytes then bindR (readBytes n) (\<lambda>b. Inr (dst @ b))
      else if fKind n \<noteq> KindString then Inl (WrongKind ''bytea'')
      else
        bindR (readString n) (\<lambda>s.
          if \<not> HasPrefix s [CHR 0x5C, CHR ''x''] then Inl (BadValue ''bytea'')
          else
            let h = drop 2 s in
            if odd (length h) then Inl (BadValue ''bytea'') else bindR (hexPairs h) (\<lambda>bs. Inr (dst @ bs))))"

definition encodeJSONField :: field_encoder where
  "encodeJSONField ec dst n =
     (case fJson n of
        Inl _ \<Rightarrow> Inl ReadError
      | Inr raw \<Rightarrow> if hasNUL raw then Inl BadCharacter else Inr (dst @ map byteOf raw))"

definition encodeJSONBField :: field_encoder where
  "encodeJSONBField ec dst n = encodeJSONField ec (dst @ [1]) n"

subsection \<open>What integers are accepted\<close>

lemma parseUint_digits:
  assumes "list_all isDigit ds" "0 \<le> n"
  shows "parseUint m n ds = (if int_of_digits_acc n ds \<le> m \<or> ds = [] then Inr (int_of_digits_acc n ds) else Inl ErrRange)"
  using assms
proof (induction ds arbitrary: n)
  case (Cons c cs)
  then have d: "0 \<le> digit_val c" "digit_val c < 10" using digit_val_bounds by auto
  have mono: "10 * n + digit_val c \<le> int_of_digits_acc (10 * n + digit_val c) cs"
    using digits_acc_bounds [of cs "10 * n + digit_val c"] mult_left_mono [of 1 "10 ^ length cs" "10 * n + digit_val c"] Cons.prems d by auto
  show ?case using Cons d mono by (auto simp: algebra_simps)
qed simp

lemma parseUint_syntax: "parseUint m n ds = Inr v \<Longrightarrow> list_all isDigit ds"
  by (induction ds arbitrary: n) (auto split: if_splits)

definition intBytes :: "nat \<Rightarrow> int \<Rightarrow> bytes" where
  "intBytes bits v = (if bits = 16 then int16Bytes v else if bits = 32 then int32Bytes v else int64Bytes v)"

definition fitsBits :: "nat \<Rightarrow> int \<Rightarrow> bool" where
  "fitsBits bits v \<longleftrightarrow> - (2 ^ (bits - 1)) \<le> v \<and> v < 2 ^ (bits - 1)"

text \<open>A decimal integer: digits after an optional sign.\<close>

definition signedDigits :: "string \<Rightarrow> int \<Rightarrow> bool" where
  "signedDigits s v \<longleftrightarrow>
     (\<exists>ds. ds \<noteq> [] \<and> list_all isDigit ds \<and>
       (s = ds \<and> v = int_of_digits ds \<or> s = CHR ''+'' # ds \<and> v = int_of_digits ds \<or> s = CHR ''-'' # ds \<and> v = - int_of_digits ds))"

lemma ParseIntBits_digits:
  assumes "0 < bits" "signedDigits s v"
  shows "ParseIntBits bits s = (if fitsBits bits v then Inr v else Inl ErrRange)"
proof -
  obtain ds where ds: "ds \<noteq> []" "list_all isDigit ds"
    and s: "s = ds \<and> v = int_of_digits ds \<or> s = CHR ''+'' # ds \<and> v = int_of_digits ds \<or> s = CHR ''-'' # ds \<and> v = - int_of_digits ds"
    using assms(2) by (auto simp: signedDigits_def)
  have pos: "0 \<le> int_of_digits ds" using int_of_digits_bounds [OF ds(2)] by simp
  have h: "hd ds \<noteq> CHR ''-''" "hd ds \<noteq> CHR ''+''"
    using ds by (cases ds; auto simp: isDigit_def less_eq_char_def)+
  have p: "parseUint (2 ^ bits - 1) 0 ds = (if int_of_digits ds \<le> 2 ^ bits - 1 then Inr (int_of_digits ds) else Inl ErrRange)"
    using parseUint_digits [OF ds(2), of 0 "2 ^ bits - 1"] ds(1) by (simp add: int_of_digits_def)
  have pw: "(2 :: int) ^ bits = 2 * 2 ^ (bits - 1)" "(0 :: int) < 2 ^ (bits - 1)" using assms(1) by (cases bits; simp)+
  have r: "bindR (parseUint (2 ^ bits - 1) 0 ds) (\<lambda>un.
        if \<not> neg \<and> un \<ge> 2 ^ (bits - 1) \<or> neg \<and> un > 2 ^ (bits - 1) then Inl ErrRange else Inr (if neg then - un else un)) =
      (if fitsBits bits (if neg then - int_of_digits ds else int_of_digits ds)
       then Inr (if neg then - int_of_digits ds else int_of_digits ds) else Inl ErrRange)" for neg
    unfolding p by (cases "int_of_digits ds \<le> 2 ^ bits - 1") (use pos pw in \<open>auto simp: fitsBits_def\<close>)
  have strip: "(if s \<noteq> [] \<and> (hd s = CHR ''+'' \<or> hd s = CHR ''-'') then tl s else s) = ds" using s h ds(1) by auto
  have v: "v = (if s \<noteq> [] \<and> hd s = CHR ''-'' then - int_of_digits ds else int_of_digits ds)" using s h ds(1) by auto
  show ?thesis unfolding ParseIntBits_def Let_def strip r using ds(1) v by simp
qed

subsection \<open>Properties\<close>

text \<open>C26: an integer column takes exactly the integers of its width: a decimal integer, given as a number or as a text, is
  stored in two's complement when it lies between \<open>-2^(bits-1)\<close> and \<open>2^(bits-1)-1\<close>, and is refused as out of range otherwise.\<close>

theorem integer_column_range:
  assumes "0 < bits" "numericInput (intName bits) n = Inr s" "signedDigits s v"
  shows "encodeIntField bits ec dst n =
    (if fitsBits bits v then Inr (dst @ intBytes bits v) else Inl (OutOfRange (intName bits)))"
  using ParseIntBits_digits [OF assms(1,3)] assms(2)
  by (simp add: encodeIntField_def intBytes_def appendInt16_def appendInt32_def appendInt64_def)

theorem integer_column_range_witness:
  "encodeIntField 16 noContext [] (treeField (CText ''-32768'')) = Inr [0x80, 0] \<and>
   encodeIntField 16 noContext [] (treeField (CText ''+32768'')) = Inl (OutOfRange ''int2'')"
proof -
  have "numericInput (intName 16) (treeField (CText s)) = Inr s" for s
    by (simp add: numericInput_def readString_def StrictString_def)
  moreover have "signedDigits ''-32768'' (- 32768)" "signedDigits ''+32768'' 32768"
    unfolding signedDigits_def
    by (rule exI [of _ "''32768''"], simp add: isDigit_def less_eq_char_def int_of_digits_def digit_val_def)+
  moreover have "int16Bytes (- 32768) = [0x80, 0]" "intName 16 = ''int2''" by code_simp+
  ultimately show ?thesis
    using integer_column_range [of 16 "treeField (CText ''-32768'')" "''-32768''" "- 32768" noContext "[]"]
      integer_column_range [of 16 "treeField (CText ''+32768'')" "''+32768''" 32768 noContext "[]"]
    by (simp add: fitsBits_def intBytes_def)
qed

text \<open>The 36 characters are not checked to hold 32 digits: every hyphen is passed over, and the bytes no digit fills are zero.\<close>

lemma uuid_hyphens_only: "uuidText (replicate 36 CHR ''-'') = Inr (replicate 16 0)"
  by (simp add: uuidText_def eval_nat_numeral)

end
