(* ===== verification/Pg_Numeric.thy ===== *)
theory Pg_Numeric
  imports Pg_Encode
begin

text \<open>
  PostgreSQL's binary \<open>numeric\<close>: \<open>appendNumeric\<close> of \<open>query/write_encode_numeric.go\<close> writes it from a decimal
  text, \<open>appendNumericCBOR\<close> of \<open>query/result_cbor.go\<close> reads it back as a CBOR decimal fraction.  The digits go in groups
  of four around the decimal point, the first group holding the weight'th power of 10000.  What comes back is the number
  that was written, with its display scale.
\<close>

definition numericPos :: int where "numericPos = 0x0000"
definition numericNeg :: int where "numericNeg = 0x4000"
definition numericNaN :: int where "numericNaN = 0xC000"
definition numericPosInf :: int where "numericPosInf = 0xD000"
definition numericNegInf :: int where "numericNegInf = 0xF000"
definition numericMaxDscale :: int where "numericMaxDscale = 16383"

definition numericSpecial :: "string \<Rightarrow> int option" where
  "numericSpecial s =
     (let l = toLower s in
      if l = ''nan'' then Some numericNaN
      else if l \<in> {''infinity'', ''+infinity'', ''inf'', ''+inf''} then Some numericPosInf
      else if l \<in> {''-infinity'', ''-inf''} then Some numericNegInf
      else None)"

lemma numericSpecial_low:
  assumes "list_all (\<lambda>c. of_char c < (65 :: nat)) s"
  shows "numericSpecial s = None"
proof -
  have "s \<noteq> w" if "\<exists>c \<in> set w. (65 :: nat) \<le> of_char c" for w
    using assms that by (auto simp: list_all_iff simp del: of_char_eq_iff)
  then show ?thesis unfolding numericSpecial_def Let_def toLower_low [OF assms] by simp
qed

subsection \<open>Writing\<close>

text \<open>The sign, the digits before and after the point and the exponent of a decimal text.\<close>

definition numericExponent :: "string \<Rightarrow> encode_error + int" where
  "numericExponent s =
     (if s = [] then Inr 0
      else if hd s \<noteq> CHR ''e'' \<and> hd s \<noteq> CHR ''E'' then Inl (BadValue ''numeric'')
      else
        let e = tl s in
        if e = [] \<or> length e > 10 then Inl (BadValue ''numeric'')
        else (case Atoi e of None \<Rightarrow> Inl (BadValue ''numeric'')
              | Some v \<Rightarrow> if list_ex (\<lambda>c. c = CHR ''+'' \<or> c = CHR ''-'') (tl e) then Inl (BadValue ''numeric'') else Inr v))"

definition numericParts :: "string \<Rightarrow> encode_error + bool \<times> string \<times> string \<times> int" where
  "numericParts text =
     (let neg = (text \<noteq> [] \<and> hd text = CHR ''-'');
          s = (if text \<noteq> [] \<and> (hd text = CHR ''+'' \<or> hd text = CHR ''-'') then tl text else text);
          ip = takeWhile isDigit s; s1 = dropWhile isDigit s;
          (fp, s2) = (if s1 \<noteq> [] \<and> hd s1 = CHR ''.'' then (takeWhile isDigit (tl s1), dropWhile isDigit (tl s1)) else ([], s1))
      in if ip = [] \<and> fp = [] then Inl (BadValue ''numeric'')
         else bindR (numericExponent s2) (\<lambda>e. Inr (neg, ip, fp, e)))"

text \<open>Digit \<open>k\<close> of the digits shifted right by \<open>lpad\<close>, with zeros on both sides.\<close>

definition digitAt :: "string \<Rightarrow> int \<Rightarrow> int \<Rightarrow> int" where
  "digitAt ds lpad k =
     (let j = k - lpad in if j < 0 \<or> j \<ge> int (length ds) then 0 else digit_val (ds ! nat j))"

definition digitGroup :: "string \<Rightarrow> int \<Rightarrow> int \<Rightarrow> int" where
  "digitGroup ds lpad g =
     digitAt ds lpad (4 * g) * 1000 + digitAt ds lpad (4 * g + 1) * 100 +
     digitAt ds lpad (4 * g + 2) * 10 + digitAt ds lpad (4 * g + 3)"

definition numericHeader :: "int \<Rightarrow> int \<Rightarrow> int \<Rightarrow> int \<Rightarrow> bytes" where
  "numericHeader ngroups weight sg dscale =
     int16Bytes ngroups @ int16Bytes weight @ int16Bytes sg @ int16Bytes dscale"

definition numericBody :: "bool \<Rightarrow> string \<Rightarrow> int \<Rightarrow> int \<Rightarrow> encode_error + bytes" where
  "numericBody neg digits pointPos dscale =
     (let lpad = (- pointPos) mod 4;
          weight = (pointPos + lpad) div 4 - 1;
          ngroups = (lpad + int (length digits) + 3) div 4
      in if ngroups > 0x7FFF \<or> weight > 0x7FFF \<or> weight < - 0x8000 then Inl (OutOfRange ''numeric'')
         else
           Inr (numericHeader ngroups weight (if neg then numericNeg else numericPos) dscale @
                concat (map (\<lambda>g. int16Bytes (digitGroup digits lpad (int g))) [0..<nat ngroups])))"

definition trimLeftZeros :: "string \<Rightarrow> string" where
  "trimLeftZeros s = dropWhile (\<lambda>c. c = CHR ''0'') s"

definition trimRightZeros :: "string \<Rightarrow> string" where
  "trimRightZeros s = rev (dropWhile (\<lambda>c. c = CHR ''0'') (rev s))"

definition appendNumeric :: "bytes \<Rightarrow> string \<Rightarrow> encode_error + bytes" where
  "appendNumeric dst text =
     (case numericSpecial text of
        Some sg \<Rightarrow> Inr (dst @ numericHeader 0 0 sg 0)
      | None \<Rightarrow>
          bindR (numericParts text) (\<lambda>(neg, ip, fp, e).
            let dscale = max 0 (int (length fp) - e) in
            if dscale > numericMaxDscale then Inl (OutOfRange ''numeric'')
            else
              let digits = trimLeftZeros (ip @ fp);
                  pointPos = int (length ip) + e - int (length (ip @ fp) - length digits);
                  digits1 = trimRightZeros digits
              in if digits1 = [] then Inr (dst @ numericHeader 0 0 numericPos dscale)
                 else bindR (numericBody neg digits1 pointPos dscale) (\<lambda>b. Inr (dst @ b))))"

definition encodeNumericField :: field_encoder where
  "encodeNumericField ec dst n = bindR (numericInput ''numeric'' n) (appendNumeric dst)"

subsection \<open>Reading\<close>

definition uint16At :: "bytes \<Rightarrow> nat \<Rightarrow> int" where
  "uint16At d i = uint (bigEndian (take 2 (drop i d)))"

definition asInt16 :: "int \<Rightarrow> int" where
  "asInt16 u = (if u \<ge> 2 ^ 15 then u - 2 ^ 16 else u)"

text \<open>\<open>%04d\<close>.\<close>

definition fmt04 :: "int \<Rightarrow> string" where
  "fmt04 v = (let s = showNat (nat v) in zeros (4 - length s) @ s)"

datatype result_error = Truncated | TooLarge | UnknownType | FieldCount | UnknownVersion | BadJSON json_error | ResultFuel

definition appendNumericCBOR :: "bytes \<Rightarrow> bytes \<Rightarrow> result_error + bytes" where
  "appendNumericCBOR dst d =
     (if length d < 8 then Inl Truncated
      else
        let ndigits = uint16At d 0; weight = asInt16 (uint16At d 2); sg = uint16At d 4;
            dscale = uint16At d 6 mod 0x4000; body = drop 8 d in
        if sg = numericNaN then Inr (AppendFloat64 dst NaN)
        else if sg = numericPosInf then Inr (AppendFloat64 dst (Inf False))
        else if sg = numericNegInf then Inr (AppendFloat64 dst (Inf True))
        else if int (length body) < 2 * ndigits then Inl Truncated
        else if ndigits = 0 then Inr (AppendDecimal dst ''0'' (word_of_int (- dscale)))
        else
          let after = (dscale + 3) div 4; top = max weight 0 in
          if top + 1 + after > 40000 then Inl TooLarge
          else
            let groups = map (\<lambda>g. let i = weight - g in if i \<ge> 0 \<and> i < ndigits then uint16At body (2 * nat i) else 0)
                           (rev [- after..top]);
                s = (if sg = numericNeg then ''-'' else []) @ concat (map fmt04 groups);
                cut = 4 * after - dscale
            in Inr (AppendDecimal dst (if cut > 0 then take (length s - nat cut) s else s) (word_of_int (- dscale))))"

subsection \<open>Groups of digits\<close>

lemma int16Bytes_length [simp]: "length (int16Bytes v) = 2"
  by (simp add: int16Bytes_def Let_def)

lemma uint16At_int16Bytes: "uint16At (pre @ int16Bytes v @ post) (length pre) = v mod 2 ^ 16"
proof -
  have u: "uint (word_of_int (v mod 2 ^ 16) :: 64 word) = v mod 2 ^ 16"
    by (rule uint_word_of_int64) (simp_all add: order.strict_trans [OF pos_mod_bound])
  then have "(word_of_int (v mod 2 ^ 16) :: 64 word) \<le> 0xFFFF"
    by (simp add: word_le_def)
  from bigEndian_2 [OF this] show ?thesis
    using u by (simp add: uint16At_def int16Bytes_def Let_def)
qed

lemma uint16At_concat:
  assumes "i < length vs"
  shows "uint16At (concat (map int16Bytes vs)) (2 * i) = vs ! i mod 2 ^ 16"
proof -
  have "concat (map int16Bytes vs) = concat (map int16Bytes (take i vs)) @ int16Bytes (vs ! i) @ concat (map int16Bytes (drop (Suc i) vs))"
    using id_take_nth_drop [OF assms] by (metis concat.simps(2) concat_append list.simps(9) map_append)
  moreover have "length (concat (map int16Bytes us)) = 2 * length us" for us by (induction us) simp_all
  ultimately show ?thesis
    using uint16At_int16Bytes [of "concat (map int16Bytes (take i vs))"] assms by simp
qed

definition digitChar :: "int \<Rightarrow> char" where
  "digitChar k = showDigit (nat k)"

lemma fmt04_digits:
  assumes "0 \<le> a" "a < 10" "0 \<le> b" "b < 10" "0 \<le> c" "c < 10" "0 \<le> d" "d < 10"
  shows "fmt04 (a * 1000 + b * 100 + c * 10 + d) = map digitChar [a, b, c, d]"
proof -
  obtain a' b' c' d' where n: "a = int a'" "b = int b'" "c = int c'" "d = int d'"
    using assms zero_le_imp_eq_int by metis
  have l: "a' < 10" "b' < 10" "c' < 10" "d' < 10" using assms n by simp_all
  define v where "v = a' * 1000 + b' * 100 + c' * 10 + d'"
  have v: "nat (a * 1000 + b * 100 + c * 10 + d) = v" unfolding n v_def by (simp add: nat_eq_iff)
  have z: "CHR ''0'' = showDigit 0" by (simp add: showDigit.simps)
  have d: "v mod 10 = d'" "v div 10 = a' * 100 + b' * 10 + c'" "(a' * 100 + b' * 10 + c') mod 10 = c'"
    "(a' * 100 + b' * 10 + c') div 10 = a' * 10 + b'" "(a' * 10 + b') mod 10 = b'" "(a' * 10 + b') div 10 = a'"
  proof -
    have ten: "(x * 10 + y) mod 10 = y \<and> (x * 10 + y) div 10 = x" if "y < 10" for x y :: nat using that by simp
    have e: "v = (a' * 100 + b' * 10 + c') * 10 + d'" "a' * 100 + b' * 10 + c' = (a' * 10 + b') * 10 + c'" by (simp_all add: v_def)
    show "v mod 10 = d'" "v div 10 = a' * 100 + b' * 10 + c'" using ten [OF l(4)] unfolding e(1) by blast+
    show "(a' * 100 + b' * 10 + c') mod 10 = c'" "(a' * 100 + b' * 10 + c') div 10 = a' * 10 + b'"
      using ten [OF l(3)] unfolding e(2) by blast+
    show "(a' * 10 + b') mod 10 = b'" "(a' * 10 + b') div 10 = a'" using ten [OF l(2)] by blast+
  qed
  have s2: "showNat (a' * 10 + b') = (if a' = 0 then [showDigit b'] else [showDigit a', showDigit b'])"
    using l d(5,6) by (simp add: showNat.simps [of "a' * 10 + b'"] showNat.simps [of a'])
  have s3: "showNat (a' * 100 + b' * 10 + c') =
      (if a' = 0 \<and> b' = 0 then [showDigit c'] else showNat (a' * 10 + b') @ [showDigit c'])"
    using l d(3,4) by (simp add: showNat.simps [of "a' * 100 + b' * 10 + c'"])
  have s4: "showNat v = (if a' = 0 \<and> b' = 0 \<and> c' = 0 then [showDigit d'] else showNat (a' * 100 + b' * 10 + c') @ [showDigit d'])"
  proof -
    have "v < 10 \<longleftrightarrow> a' = 0 \<and> b' = 0 \<and> c' = 0" "v < 10 \<Longrightarrow> v = d'" using l by (auto simp: v_def)
    then show ?thesis using d(1,2) by (subst showNat.simps) simp
  qed
  have z4: "zeros 0 = []" "zeros (Suc 0) = [showDigit 0]" "zeros 2 = [showDigit 0, showDigit 0]" "zeros 3 = [showDigit 0, showDigit 0, showDigit 0]"
    by (simp_all add: zeros_def z eval_nat_numeral)
  show ?thesis
    unfolding fmt04_def v s4 s3 s2 Let_def by (auto simp: n digitChar_def z4)
qed

lemma digitAt_bounds: "list_all isDigit ds \<Longrightarrow> 0 \<le> digitAt ds lpad k \<and> digitAt ds lpad k < 10"
  using digit_val_bounds by (auto simp: digitAt_def Let_def list_all_iff)

lemma fmt04_group:
  "list_all isDigit ds \<Longrightarrow> fmt04 (digitGroup ds lpad g) = map (\<lambda>k. digitChar (digitAt ds lpad k)) [4 * g, 4 * g + 1, 4 * g + 2, 4 * g + 3]"
  using digitAt_bounds by (simp add: digitGroup_def fmt04_digits)

lemma digitGroup_range: "list_all isDigit ds \<Longrightarrow> 0 \<le> digitGroup ds lpad g \<and> digitGroup ds lpad g < 10000"
  using digitAt_bounds [of ds lpad "4 * g"] digitAt_bounds [of ds lpad "4 * g + 1"] digitAt_bounds [of ds lpad "4 * g + 2"]
    digitAt_bounds [of ds lpad "4 * g + 3"] by (auto simp: digitGroup_def)

lemma digitGroup_outside:
  assumes "0 \<le> lpad" "g < 0 \<or> 4 * g \<ge> lpad + int (length ds)"
  shows "digitGroup ds lpad g = 0"
  using assms by (auto simp: digitGroup_def digitAt_def Let_def)

lemma quads: "concat (map (\<lambda>i. [4 * i, 4 * i + 1, 4 * i + 2, 4 * i + 3]) [a..b]) = [4 * a..4 * b + 3 :: int]"
proof (induction "nat (b - a + 1)" arbitrary: a)
  case 0
  then show ?case by simp
next
  case (Suc n)
  then have ab: "a \<le> b" by simp
  have "[4 * a..4 * b + 3] = 4 * a # (4 * a + 1) # (4 * a + 2) # (4 * a + 3) # [4 * (a + 1)..4 * b + 3]"
    using ab by (simp add: upto_rec1 add.commute)
  moreover have "concat (map (\<lambda>i. [4 * i, 4 * i + 1, 4 * i + 2, 4 * i + 3]) [a + 1..b]) = [4 * (a + 1)..4 * b + 3]"
    using Suc by (intro Suc.hyps) auto
  ultimately show ?case using ab by (simp add: upto_rec1 [of a b])
qed

lemma rev_upto: "map (\<lambda>g. w - g) (rev [a..b]) = [w - b..w - a :: int]"
  by (rule nth_equalityI) (auto simp: rev_nth nth_upto)

lemma digit_string:
  assumes "list_all isDigit ds" "lo \<le> lpad" "lpad + int (length ds) - 1 \<le> hi"
  shows "map (\<lambda>k. digitChar (digitAt ds lpad k)) [lo..hi] = zeros (nat (lpad - lo)) @ ds @ zeros (nat (hi + 1 - lpad - int (length ds)))"
proof (rule nth_equalityI)
  fix k
  assume "k < length (map (\<lambda>k. digitChar (digitAt ds lpad k)) [lo..hi])"
  then have k: "lo + int k \<le> hi" by auto
  have z: "digitChar 0 = CHR ''0''" by (simp add: digitChar_def showDigit.simps)
  have unread: "digitChar (digit_val c) = c" if "isDigit c" for c
    using digit_showDigit [OF that] showDigit_facts(2) by (metis digitChar_def nat_int)
  consider "lo + int k < lpad" | "lpad \<le> lo + int k" "lo + int k < lpad + int (length ds)" | "lpad + int (length ds) \<le> lo + int k"
    by linarith
  then show "map (\<lambda>k. digitChar (digitAt ds lpad k)) [lo..hi] ! k =
      (zeros (nat (lpad - lo)) @ ds @ zeros (nat (hi + 1 - lpad - int (length ds)))) ! k"
  proof cases
    case 1
    then have "k < nat (lpad - lo)" by linarith
    then show ?thesis using k 1 z by (simp add: nth_upto nth_append zeros_def digitAt_def)
  next
    case 2
    then have "\<not> k < nat (lpad - lo)" "k - nat (lpad - lo) < length ds" "nat (lo + int k - lpad) = k - nat (lpad - lo)"
      using assms(2) by linarith+
    then show ?thesis
      using k 2 unread assms(1) by (simp add: nth_upto nth_append zeros_def digitAt_def list_all_iff)
  next
    case 3
    then have "\<not> k < nat (lpad - lo)" "\<not> k - nat (lpad - lo) < length ds"
      "k - nat (lpad - lo) - length ds < nat (hi + 1 - lpad - int (length ds))"
      using assms k by linarith+
    then show ?thesis using k 3 z by (simp add: nth_upto nth_append zeros_def digitAt_def)
  qed
qed (use assms in \<open>auto simp: zeros_def\<close>)

subsection \<open>What was written comes back\<close>

lemma numericHeader_reads:
  fixes a b c e :: int
  defines "h \<equiv> numericHeader a b c e"
  shows "uint16At (h @ r) 0 = a mod 2 ^ 16" "uint16At (h @ r) 2 = b mod 2 ^ 16" "uint16At (h @ r) 4 = c mod 2 ^ 16"
    "uint16At (h @ r) 6 = e mod 2 ^ 16" "length h = 8"
  using uint16At_int16Bytes [of "[]" a] uint16At_int16Bytes [of "int16Bytes a" b] uint16At_int16Bytes [of "int16Bytes a @ int16Bytes b" c]
    uint16At_int16Bytes [of "int16Bytes a @ int16Bytes b @ int16Bytes c" e]
  by (simp_all add: h_def numericHeader_def)

lemma asInt16_mod: "- 0x8000 \<le> v \<Longrightarrow> v \<le> 0x7FFF \<Longrightarrow> asInt16 (v mod 2 ^ 16) = v"
proof (cases "v < 0")
  case True
  assume "- 0x8000 \<le> v"
  with True have "v mod 2 ^ 16 = v + 2 ^ 16" using mod_add_self2 [of v "2 ^ 16"] mod_pos_pos_trivial [of "v + 2 ^ 16" "2 ^ 16"] by simp
  then show ?thesis using \<open>- 0x8000 \<le> v\<close> by (simp add: asInt16_def)
qed (simp add: asInt16_def)

lemma numericBody_reads:
  assumes "numericBody neg ds p dscale = Inr bs" "list_all isDigit ds" "ds \<noteq> []" "0 \<le> dscale" "dscale \<le> numericMaxDscale"
    "int (length ds) - p \<le> dscale"
  shows "appendNumericCBOR dst bs =
    Inr (AppendDecimal dst (FormatInt ((if neg then - 1 else 1) * (int_of_digits ds * 10 ^ nat (p - int (length ds) + dscale)))) (word_of_int (- dscale)))"
proof -
  define lpad where "lpad = (- p) mod 4"
  define weight where "weight = (p + lpad) div 4 - 1"
  define ng where "ng = (lpad + int (length ds) + 3) div 4"
  define after where "after = (dscale + 3) div 4"
  define top where "top = max weight 0"
  define sg where "sg = (if neg then numericNeg else numericPos)"
  define body where "body = concat (map (\<lambda>g. int16Bytes (digitGroup ds lpad (int g))) [0..<nat ng])"
  have lp: "0 \<le> lpad" "lpad < 4" by (simp_all add: lpad_def)
  have "(p + lpad) mod 4 = 0" by (simp add: lpad_def mod_add_right_eq)
  then have w: "4 * (weight + 1) = p + lpad" unfolding weight_def by presburger
  have "4 \<le> lpad + int (length ds) + 3" using assms(3) lp(1) by (cases ds) auto
  then have ng: "0 < ng" "4 * ng \<ge> lpad + int (length ds)" unfolding ng_def by linarith+
  have b: "ng \<le> 0x7FFF" "weight \<le> 0x7FFF" "- 0x8000 \<le> weight" and bs: "bs = numericHeader ng weight sg dscale @ body"
    using assms(1) unfolding numericBody_def Let_def lpad_def [symmetric] weight_def [symmetric] ng_def [symmetric] sg_def [symmetric]
      body_def [symmetric] by (auto split: if_splits)
  have sg: "sg mod 2 ^ 16 = sg" "sg \<noteq> numericNaN" "sg \<noteq> numericPosInf" "sg \<noteq> numericNegInf" "sg = numericNeg \<longleftrightarrow> neg"
    by (simp_all add: sg_def numericNeg_def numericPos_def numericNaN_def numericPosInf_def numericNegInf_def)
  have reads: "uint16At bs 0 = ng" "asInt16 (uint16At bs 2) = weight" "uint16At bs 4 = sg" "uint16At bs 6 mod 0x4000 = dscale"
    using numericHeader_reads(1-4) [of ng weight sg dscale body] b ng sg(1) assms(4,5)
    by (auto simp: bs asInt16_mod [simplified] numericMaxDscale_def)
  have lens: "drop 8 bs = body" "8 \<le> length bs" "length body = 2 * nat ng"
    using numericHeader_reads(5) [of ng weight sg dscale] by (simp_all add: bs body_def length_concat comp_def sum_list_triv)
  have groups: "map (\<lambda>g. let i = weight - g in if i \<ge> 0 \<and> i < ng then uint16At body (2 * nat i) else 0) (rev [- after..top]) =
      map (digitGroup ds lpad) [weight - top..weight + after]"
  proof -
    have "(let i = weight - g in if i \<ge> 0 \<and> i < ng then uint16At body (2 * nat i) else 0) = digitGroup ds lpad (weight - g)" for g
    proof (cases "weight - g \<ge> 0 \<and> weight - g < ng")
      case True
      have "body = concat (map int16Bytes (map (\<lambda>g. digitGroup ds lpad (int g)) [0..<nat ng]))" by (simp add: body_def comp_def)
      then have "uint16At body (2 * nat (weight - g)) = digitGroup ds lpad (weight - g) mod 2 ^ 16"
        using uint16At_concat [of "nat (weight - g)" "map (\<lambda>g. digitGroup ds lpad (int g)) [0..<nat ng]"] True by simp
      then show ?thesis using True digitGroup_range [OF assms(2), of lpad "weight - g"] by simp
    next
      case False
      then have "digitGroup ds lpad (weight - g) = 0" using ng(2) lp(1) by (intro digitGroup_outside) auto
      then show ?thesis using False by (auto simp: Let_def)
    qed
    then have "map (\<lambda>g. let i = weight - g in if i \<ge> 0 \<and> i < ng then uint16At body (2 * nat i) else 0) (rev [- after..top]) =
        map (digitGroup ds lpad) (map (\<lambda>g. weight - g) (rev [- after..top]))" by simp
    also have "\<dots> = map (digitGroup ds lpad) [weight - top..weight + after]" unfolding rev_upto by simp
    finally show ?thesis .
  qed
  define n0 where "n0 = nat (lpad - 4 * (weight - top))"
  define n1 where "n1 = nat (4 * (weight + after) + 4 - lpad - int (length ds))"
  have ends: "4 * (weight - top) \<le> lpad" "lpad + int (length ds) - 1 \<le> 4 * (weight + after) + 3"
    using lp w assms(6) by (auto simp: top_def after_def)
  have digs: "concat (map fmt04 (map (digitGroup ds lpad) [weight - top..weight + after])) = zeros n0 @ ds @ zeros n1"
  proof -
    have "concat (map fmt04 (map (digitGroup ds lpad) is)) =
        map (\<lambda>k. digitChar (digitAt ds lpad k)) (concat (map (\<lambda>i. [4 * i, 4 * i + 1, 4 * i + 2, 4 * i + 3]) is))" for "is"
      using fmt04_group [OF assms(2)] by (induction "is") simp_all
    then show ?thesis
      using digit_string [OF assms(2) ends] by (simp add: quads n0_def n1_def add.assoc)
  qed
  define cut where "cut = 4 * after - dscale"
  have cut: "0 \<le> cut" "nat cut \<le> n1" "n1 - nat cut = nat (p - int (length ds) + dscale)"
    using w assms(6) by (auto simp: cut_def after_def n1_def)
  define s where "s = (if neg then ''-'' else []) @ zeros n0 @ ds @ zeros n1"
  have s': "(if cut > 0 then take (length s - nat cut) s else s) = (if neg then ''-'' else []) @ zeros n0 @ ds @ zeros (n1 - nat cut)"
    using cut by (auto simp: s_def zeros_def)
  have dig: "list_all isDigit (zeros n0 @ ds @ zeros k)" for k
    using assms(2) by (auto simp: zeros_def list_all_iff isDigit_def)
  have ne: "zeros n0 @ ds @ zeros k \<noteq> []" for k using assms(3) by simp
  have syn: "integerSyntax ((if neg then ''-'' else []) @ zeros n0 @ ds @ zeros k)" for k
    using sign_syntax [OF ne dig, of neg] .
  have val: "integerValue ((if neg then ''-'' else []) @ zeros n0 @ ds @ zeros k) = (if neg then - 1 else 1) * (int_of_digits ds * 10 ^ k)" for k
  proof -
    have n: "\<not> negText (zeros n0 @ ds @ zeros k)"
      using dig [of k] ne [of k] digit_not_minus by (cases "zeros n0 @ ds @ zeros k") (auto simp: negText_def)
    have v: "integerValue ((if neg then ''-'' else []) @ x) = (if neg then - 1 else 1) * int_of_digits x" if "\<not> negText x" for x
      using that by (cases neg) (auto simp: integerValue_def textDigits_def negText_def)
    show ?thesis unfolding v [OF n] int_of_digits_padded ..
  qed
  have nat_ng: "0 < ng" "ng = int (nat ng)" using ng by simp_all
  have lim: "\<not> top + 1 + after > 40000" using b assms(5) by (auto simp: top_def after_def numericMaxDscale_def)
  have "appendNumericCBOR dst bs = Inr (AppendDecimal dst (if cut > 0 then take (length s - nat cut) s else s) (word_of_int (- dscale)))"
    unfolding appendNumericCBOR_def Let_def reads lens(1)
    using lens sg nat_ng lim groups digs
    by (simp add: after_def [symmetric] top_def [symmetric] cut_def [symmetric] s_def Let_def)
  also have "\<dots> = Inr (AppendDecimal dst (FormatInt (integerValue ((if neg then ''-'' else []) @ zeros n0 @ ds @ zeros (n1 - nat cut)))) (word_of_int (- dscale)))"
  proof -
    have f: "AppendDecimal dst x e = AppendDecimal dst (FormatInt (integerValue x)) e" if "integerSyntax x" for x e
      using AppendDecimal_value [OF that, of dst e] AppendDecimal_value [OF integerSyntax_FormatInt, of dst "integerValue x" e]
        integerValue_FormatInt by simp
    show ?thesis unfolding s' using f [OF syn] by simp
  qed
  finally show ?thesis unfolding val cut(3) .
qed

lemma numericBody_sound_zero:
  "0 \<le> dscale \<Longrightarrow> dscale \<le> numericMaxDscale \<Longrightarrow>
     appendNumericCBOR dst (numericHeader 0 0 numericPos dscale) = Inr (AppendDecimal dst (FormatInt 0) (word_of_int (- dscale)))"
  using numericHeader_reads(1-4) [of 0 0 numericPos dscale "[]"] numericHeader_reads(5) [of 0 0 numericPos dscale]
  by (simp add: appendNumericCBOR_def numericPos_def numericNaN_def numericPosInf_def numericNegInf_def numericMaxDscale_def FormatInt_def
      showNat.simps showDigit.simps)

lemma trimLeftZeros_split: "s = zeros (length s - length (trimLeftZeros s)) @ trimLeftZeros s"
  by (induction s) (auto simp: trimLeftZeros_def zeros_def Suc_diff_le length_dropWhile_le)

lemma trimRightZeros_split: "s = trimRightZeros s @ zeros (length s - length (trimRightZeros s))"
  using arg_cong [OF trimLeftZeros_split [of "rev s"], of rev] by (simp add: trimLeftZeros_def trimRightZeros_def zeros_def)

text \<open>The number a decimal text stands for, scaled by the power of ten of its display scale.\<close>

definition numericScale :: "string \<Rightarrow> int \<Rightarrow> int" where
  "numericScale fp e = max 0 (int (length fp) - e)"

definition numericUnits :: "bool \<Rightarrow> string \<Rightarrow> string \<Rightarrow> int \<Rightarrow> int" where
  "numericUnits neg ip fp e =
     (if neg then - 1 else 1) * (int_of_digits (ip @ fp) * 10 ^ nat (e - int (length fp) + numericScale fp e))"

lemma numericParts_digits:
  "numericParts s = Inr (neg, ip, fp, e) \<Longrightarrow> list_all isDigit (ip @ fp)"
  by (auto simp: numericParts_def Let_def bindR_eq_Inr_iff list_all_iff dest: set_takeWhileD split: if_splits)

lemma appendNumeric_read:
  assumes "numericSpecial s = None" "numericParts s = Inr (neg, ip, fp, e)" "appendNumeric [] s = Inr bs"
  shows "appendNumericCBOR dst bs =
    Inr (AppendDecimal dst (FormatInt (numericUnits neg ip fp e)) (word_of_int (- numericScale fp e)))"
proof -
  let ?ds = "ip @ fp"
  define l where "l = trimLeftZeros ?ds"
  define m where "m = trimRightZeros l"
  define k where "k = length l - length m"
  define p where "p = int (length ip) + e - int (length ?ds - length l)"
  have dig: "list_all isDigit ?ds" using assms(2) by (rule numericParts_digits)
  have sp: "?ds = zeros (length ?ds - length l) @ m @ zeros k"
    using trimLeftZeros_split [of ?ds] trimRightZeros_split [of l] unfolding l_def [symmetric] m_def [symmetric] k_def by metis
  have len: "length l \<le> length ?ds" "length l = length m + k"
    using arg_cong [OF trimRightZeros_split [of l], of length]
    by (simp_all add: l_def trimLeftZeros_def length_dropWhile_le del: length_append) (simp add: m_def k_def zeros_def l_def trimLeftZeros_def)
  have val: "int_of_digits ?ds = int_of_digits m * 10 ^ k"
    by (subst sp) (simp only: int_of_digits_padded)
  have mdig: "list_all isDigit m" using dig sp by (metis list_all_append)
  have sc: "0 \<le> numericScale fp e" "numericScale fp e \<le> numericMaxDscale"
    and rest: "(if m = [] then Inr (numericHeader 0 0 numericPos (numericScale fp e))
      else numericBody neg m p (numericScale fp e)) = Inr bs"
    using assms by (auto simp: appendNumeric_def Let_def numericScale_def l_def m_def p_def bindR_eq_Inr_iff split: if_splits)
  have pm: "p - int (length m) = e - int (length fp) + int k" using len by (simp add: p_def)
  show ?thesis
  proof (cases "m = []")
    case True
    then have "numericUnits neg ip fp e = 0" using val by (simp add: numericUnits_def int_of_digits_def)
    then show ?thesis using True rest numericBody_sound_zero [OF sc] by simp
  next
    case False
    have "int (length m) - p \<le> numericScale fp e" using pm by (simp add: numericScale_def)
    from numericBody_reads [OF _ mdig False sc this, of neg bs dst] rest False
    have "appendNumericCBOR dst bs = Inr (AppendDecimal dst (FormatInt ((if neg then - 1 else 1) *
        (int_of_digits m * 10 ^ nat (p - int (length m) + numericScale fp e)))) (word_of_int (- numericScale fp e)))" by simp
    moreover have "nat (p - int (length m) + numericScale fp e) = k + nat (e - int (length fp) + numericScale fp e)"
      unfolding pm by (simp add: numericScale_def)
    ultimately show ?thesis by (simp add: numericUnits_def val power_add mult.assoc)
  qed
qed

subsection \<open>Properties\<close>

text \<open>C22: a decimal text stored in a numeric column comes back as the same number: the groups of four digits written for it,
  whatever its zeros, exponent and size, are read as the digits of the text at its display scale.\<close>

theorem numeric_roundtrip:
  assumes "numericSpecial s = None" "numericParts s = Inr (neg, ip, fp, e)" "appendNumeric [] s = Inr bs"
  shows "appendNumericCBOR dst bs =
    Inr (AppendDecimal dst (FormatInt (numericUnits neg ip fp e)) (word_of_int (- numericScale fp e)))"
  using assms by (rule appendNumeric_read)

theorem numeric_roundtrip_witness:
  "\<exists>bs. appendNumeric [] ''-0012.50'' = Inr bs \<and> appendNumericCBOR [] bs = Inr (AppendDecimal [] ''-1250'' (word_of_int (- 2)))"
proof -
  have sp: "numericSpecial ''-0012.50'' = None" by (rule numericSpecial_low) simp
  have parts: "numericParts ''-0012.50'' = Inr (True, ''0012'', ''50'', 0)"
    by (simp add: numericParts_def isDigit_def less_eq_char_def numericExponent_def)
  have "isOk (appendNumeric [] ''-0012.50'')"
    by (simp add: appendNumeric_def sp parts Let_def trimLeftZeros_def trimRightZeros_def numericMaxDscale_def numericBody_def isOk_iff)
  then obtain bs where bs: "appendNumeric [] ''-0012.50'' = Inr bs" by (auto simp: isOk_iff)
  have "FormatInt (numericUnits True ''0012'' ''50'' 0) = ''-1250''" "numericScale ''50'' 0 = 2"
    by (simp_all add: numericUnits_def numericScale_def int_of_digits_def digit_val_def FormatInt_def showNat.simps showDigit.simps)
  with numeric_roundtrip [OF sp parts bs, of "[]"] bs show ?thesis by simp
qed

end
