(* ===== verification/Pg_Time.thy ===== *)
theory Pg_Time
  imports Pg_Encode "HOL-Library.Signed_Division"
begin

text \<open>
  Dates and times of the typed write path, \<open>query/write_encode_time.go\<close>: the calendar, the ISO 8601 forms,
  and the encoders of \<open>date\<close>, \<open>timestamp\<close> and \<open>timestamptz\<close>, which count days and microseconds from 2000-01-01.
  The arithmetic stays inside 64 bits by the range checks, so it is on \<open>int\<close>; the quotients of the source round towards
  zero.
\<close>

subsection \<open>The calendar\<close>

definition pgEpochUnixDays :: int where "pgEpochUnixDays = 10957"
definition dateMinDays :: int where "dateMinDays = - 2451545"
definition dateMaxDays :: int where "dateMaxDays = 2145031948"
definition dateInfinity :: int where "dateInfinity = 0x7FFFFFFF"
definition dateNegInf :: int where "dateNegInf = - 0x80000000"
definition tsMinMicros :: int where "tsMinMicros = - 211813488000000000"
definition tsEndMicros :: int where "tsEndMicros = 9223371331200000000"
definition tsInfinity :: int where "tsInfinity = 0x7FFFFFFFFFFFFFFF"
definition tsNegInfinity :: int where "tsNegInfinity = - 0x8000000000000000"
definition microsPerSecond :: int where "microsPerSecond = 1000000"
definition microsPerDay :: int where "microsPerDay = 86400 * microsPerSecond"

definition daysFromCivil :: "int \<Rightarrow> int \<Rightarrow> int \<Rightarrow> int" where
  "daysFromCivil y0 m d =
     (let y = (if m \<le> 2 then y0 - 1 else y0);
          era = (if y < 0 \<and> y smod 400 \<noteq> 0 then (y - 399) sdiv 400 else y sdiv 400);
          yoe = y - era * 400;
          mp = (m + 9) smod 12;
          doy = (153 * mp + 2) sdiv 5 + d - 1;
          doe = yoe * 365 + yoe sdiv 4 - yoe sdiv 100 + doy
      in era * 146097 + doe - 719468)"

definition isLeap :: "int \<Rightarrow> bool" where
  "isLeap y \<longleftrightarrow> y smod 4 = 0 \<and> (y smod 100 \<noteq> 0 \<or> y smod 400 = 0)"

definition daysInMonth :: "int \<Rightarrow> int \<Rightarrow> int" where
  "daysInMonth y m =
     (if m = 2 then (if isLeap y then 29 else 28)
      else if m = 4 \<or> m = 6 \<or> m = 9 \<or> m = 11 then 30
      else 31)"

subsection \<open>Reading date and time texts\<close>

record timeFields =
  year :: int
  month :: int
  day :: int
  hour :: int
  minute :: int
  sec :: int
  micro :: int
  zoneOf :: "int option"

definition digitsAt :: "string \<Rightarrow> nat \<Rightarrow> nat \<Rightarrow> int option" where
  "digitsAt s i n =
     (let ds = take n (drop i s) in
      if i + n > length s \<or> \<not> list_all isDigit ds then None else Some (int_of_digits ds))"

text \<open>A trailing \<open>BC\<close>, in any case.\<close>

definition bcSuffix :: "string \<Rightarrow> bool" where
  "bcSuffix s \<longleftrightarrow>
     length s > 3 \<and> drop (length s - 3) s \<in> {'' BC'', '' Bc'', '' bC'', '' bc''}"

text \<open>The date and the text after it.\<close>

definition datePart :: "string \<Rightarrow> string \<Rightarrow> encode_error + (int \<times> int \<times> int) \<times> string" where
  "datePart typ s =
     (let bc = bcSuffix s;
          inp = (if bc then take (length s - 3) s else s);
          i = length (takeWhile isDigit inp) in
      if i < 4 \<or> i > 7 then Inl (BadValue typ)
      else
        let y0 = int_of_digits (take i inp) in
        if i + 6 > length inp \<or> inp ! i \<noteq> CHR ''-'' \<or> inp ! (i + 3) \<noteq> CHR ''-'' then Inl (BadValue typ)
        else
          (case (digitsAt inp (i + 1) 2, digitsAt inp (i + 4) 2) of
             (Some m, Some d) \<Rightarrow>
               if y0 = 0 then Inl (BadValue typ)
               else
                 let y = (if bc then 1 - y0 else y0) in
                 if m < 1 \<or> m > 12 \<or> d < 1 \<or> d > daysInMonth y m then Inl (BadValue typ)
                 else Inr ((y, m, d), drop (i + 6) inp)
           | _ \<Rightarrow> Inl (BadValue typ)))"

text \<open>The fraction of a second: at most six digits, the first one counting tenths.\<close>

definition fractionPart :: "string \<Rightarrow> string \<Rightarrow> encode_error + int \<times> string" where
  "fractionPart typ s =
     (let ds = takeWhile isDigit s in
      if length ds > 6 \<or> ds = [] then Inl (BadValue typ)
      else Inr (int_of_digits ds * 10 ^ (6 - length ds), drop (length ds) s))"

definition secondsPart :: "string \<Rightarrow> string \<Rightarrow> encode_error + (int \<times> int) \<times> string" where
  "secondsPart typ s =
     (if length s \<ge> 3 \<and> hd s = CHR '':'' then
        (case digitsAt s 1 2 of
           None \<Rightarrow> Inl (BadValue typ)
         | Some sc \<Rightarrow>
             let rest = drop 3 s in
             if rest \<noteq> [] \<and> hd rest = CHR ''.''
             then bindR (fractionPart typ (tl rest)) (\<lambda>(u, r). Inr ((sc, u), r))
             else Inr ((sc, 0), rest))
      else Inr ((0, 0), s))"

definition clockPart :: "string \<Rightarrow> string \<Rightarrow> encode_error + (int \<times> int \<times> int \<times> int) \<times> string" where
  "clockPart typ s =
     (case digitsAt s 0 2 of
        None \<Rightarrow> Inl (BadValue typ)
      | Some h \<Rightarrow>
          if length s < 5 \<or> s ! 2 \<noteq> CHR '':'' then Inl (BadValue typ)
          else
            (case digitsAt s 3 2 of
               None \<Rightarrow> Inl (BadValue typ)
             | Some mi \<Rightarrow>
                 bindR (secondsPart typ (drop 5 s)) (\<lambda>((sc, u), r).
                   if h > 24 \<or> mi > 59 \<or> sc > 59 \<or> (h = 24 \<and> (mi \<noteq> 0 \<or> sc \<noteq> 0 \<or> u \<noteq> 0)) then Inl (OutOfRange typ)
                   else Inr ((h, mi, sc, u), r))))"

definition offsetMinutes :: "string \<Rightarrow> string \<Rightarrow> encode_error + int" where
  "offsetMinutes typ tail0 =
     (if tail0 = [] then Inr 0
      else
        let tail1 = (if hd tail0 = CHR '':'' then tl tail0 else tail0) in
        if length tail1 \<noteq> 2 then Inl (BadValue typ)
        else (case digitsAt tail1 0 2 of None \<Rightarrow> Inl (BadValue typ) | Some om \<Rightarrow> Inr om))"

definition zonePart :: "string \<Rightarrow> string \<Rightarrow> encode_error + int option" where
  "zonePart typ s0 =
     (if s0 = [] then Inr None
      else
        let s = (if hd s0 = CHR '' '' then tl s0 else s0) in
        if s = ''Z'' \<or> s = ''z'' then Inr (Some 0)
        else if length s \<ge> 3 \<and> (hd s = CHR ''+'' \<or> hd s = CHR ''-'') then
          (case digitsAt s 1 2 of
             None \<Rightarrow> Inl (BadValue typ)
           | Some oh \<Rightarrow>
               bindR (offsetMinutes typ (drop 3 s)) (\<lambda>om.
                 if oh > 15 \<or> om > 59 then Inl (OutOfRange typ)
                 else Inr (Some ((if hd s = CHR ''-'' then - 1 else 1) * (oh * 3600 + om * 60)))))
        else Inl (BadValue typ))"

definition parseDateTimeText :: "string \<Rightarrow> string \<Rightarrow> bool \<Rightarrow> encode_error + timeFields" where
  "parseDateTimeText typ s wantTime =
     bindR (datePart typ s) (\<lambda>((y, m, d), rest).
       if rest = [] then
         Inr \<lparr>year = y, month = m, day = d, hour = 0, minute = 0, sec = 0, micro = 0, zoneOf = None\<rparr>
       else if \<not> wantTime then Inl (BadValue typ)
       else if hd rest \<noteq> CHR ''T'' \<and> hd rest \<noteq> CHR '' '' then Inl (BadValue typ)
       else
         bindR (clockPart typ (tl rest)) (\<lambda>((h, mi, sc, u), r).
           bindR (zonePart typ r) (\<lambda>z.
             Inr \<lparr>year = y, month = m, day = d, hour = h, minute = mi, sec = sc, micro = u, zoneOf = z\<rparr>)))"

definition epochDays :: "timeFields \<Rightarrow> int" where
  "epochDays f = daysFromCivil (year f) (month f) (day f) - pgEpochUnixDays"

definition infinityWord :: "string \<Rightarrow> int option" where
  "infinityWord s =
     (let l = toLower s in if l = ''infinity'' then Some 1 else if l = ''-infinity'' then Some (- 1) else None)"

definition nodeString :: "string \<Rightarrow> field_node \<Rightarrow> encode_error + string" where
  "nodeString typ n = (if fKind n \<noteq> KindString then Inl (WrongKind typ) else readString n)"

subsection \<open>The encoders\<close>

definition encodeDateField :: field_encoder where
  "encodeDateField ec dst n =
     (if fKind n = KindDate then
        (case fDays n of
           None \<Rightarrow> Inl ReadError
         | Some d \<Rightarrow>
             let days = d - pgEpochUnixDays in
             if d < - (2 ^ 40) \<or> d > 2 ^ 40 \<or> days < dateMinDays \<or> days > dateMaxDays then Inl (OutOfRange ''date'')
             else Inr (appendInt32 dst days))
      else
        bindR (nodeString ''date'' n) (\<lambda>s.
          case infinityWord s of
            Some sg \<Rightarrow> Inr (appendInt32 dst (if sg > 0 then dateInfinity else dateNegInf))
          | None \<Rightarrow>
              bindR (parseDateTimeText ''date'' s False) (\<lambda>f.
                let days = epochDays f in
                if days < dateMinDays \<or> days > dateMaxDays then Inl (OutOfRange ''date'') else Inr (appendInt32 dst days))))"

text \<open>The offset of a wall-clock reading, given in seconds since 2000 as if it were UTC.\<close>

definition offsetAtInstant :: "(int \<Rightarrow> int) \<Rightarrow> int \<Rightarrow> int" where
  "offsetAtInstant zone secs = zone (secs + pgEpochUnixDays * 86400)"

definition zoneOffsetAt :: "(int \<Rightarrow> int) option \<Rightarrow> int \<Rightarrow> int" where
  "zoneOffsetAt loc wall =
     (case loc of
        None \<Rightarrow> 0
      | Some zone \<Rightarrow>
          let before = offsetAtInstant zone (wall - 86400); after = offsetAtInstant zone (wall + 86400) in
          if before = after then before
          else
            let validBefore = (offsetAtInstant zone (wall - before) = before);
                validAfter = (offsetAtInstant zone (wall - after) = after)
            in if validBefore \<and> validAfter \<or> validAfter \<and> \<not> validBefore then after
               else if validBefore then before
               else before)"

text \<open>The offset a location has at an instant, \<open>t.In(loc).Zone()\<close>.\<close>

definition zoneAt :: "(int \<Rightarrow> int) option \<Rightarrow> int \<Rightarrow> int" where
  "zoneAt loc unix = (case loc of None \<Rightarrow> 0 | Some zone \<Rightarrow> zone unix)"

definition inTsRange :: "int \<Rightarrow> bool" where
  "inTsRange micros \<longleftrightarrow> tsMinMicros \<le> micros \<and> micros < tsEndMicros"

definition instantMicros :: "string \<Rightarrow> encodeContext \<Rightarrow> gotime \<Rightarrow> encode_error + int" where
  "instantMicros typ ec t =
     (let sc = fst t - pgEpochUnixDays * 86400 in
      if sc < tsMinMicros sdiv microsPerSecond - 1 \<or> sc > tsEndMicros sdiv microsPerSecond + 1 then Inl (OutOfRange typ)
      else
        let micros = sc * microsPerSecond + (snd t + 500) sdiv 1000 in
        bindR (if typ = ''timestamptz'' then Inr micros
               else if zoneErr ec then Inl (UnknownZone typ)
               else Inr (micros + zoneAt (location ec) (fst t) * microsPerSecond)) (\<lambda>us.
          if inTsRange us then Inr us else Inl (OutOfRange typ)))"

definition textMicros :: "string \<Rightarrow> encodeContext \<Rightarrow> timeFields \<Rightarrow> encode_error + int" where
  "textMicros typ ec f =
     (let days = epochDays f in
      if days < tsMinMicros sdiv microsPerDay - 1 \<or> days > tsEndMicros sdiv microsPerDay + 1 then Inl (OutOfRange typ)
      else
        let secs = days * 86400 + hour f * 3600 + minute f * 60 + sec f in
        bindR (if typ = ''timestamptz'' then
                 (case zoneOf f of
                    None \<Rightarrow>
                      if zoneErr ec then Inl (UnknownZone typ)
                      else Inr ((secs - zoneOffsetAt (location ec) secs) * microsPerSecond + micro f)
                  | Some z \<Rightarrow> Inr ((secs - z) * microsPerSecond + micro f))
               else Inr (secs * microsPerSecond + micro f)) (\<lambda>us.
          if inTsRange us then Inr us else Inl (OutOfRange typ)))"

definition encodeTimestampText :: "string \<Rightarrow> field_encoder" where
  "encodeTimestampText typ ec dst n =
     (if fKind n = KindInstant then
        (case fInstant n of
           None \<Rightarrow> Inl ReadError
         | Some t \<Rightarrow> bindR (instantMicros typ ec t) (\<lambda>us. Inr (appendInt64 dst us)))
      else
        bindR (nodeString typ n) (\<lambda>s.
          case infinityWord s of
            Some sg \<Rightarrow> Inr (appendInt64 dst (if sg > 0 then tsInfinity else tsNegInfinity))
          | None \<Rightarrow>
              bindR (parseDateTimeText typ s True) (\<lambda>f.
                bindR (textMicros typ ec f) (\<lambda>us. Inr (appendInt64 dst us)))))"

definition encodeTimestamp :: field_encoder where
  "encodeTimestamp = encodeTimestampText ''timestamp''"

definition encodeTimestamptz :: field_encoder where
  "encodeTimestamptz = encodeTimestampText ''timestamptz''"

subsection \<open>The calendar counts days\<close>

lemma sdiv_nonneg: "0 \<le> a \<Longrightarrow> 0 < b \<Longrightarrow> a sdiv b = a div b" for a b :: int
  by (simp add: signed_divide_int_def sgn_if)

lemma smod_zero_iff: "0 < b \<Longrightarrow> a smod b = 0 \<longleftrightarrow> b dvd a" for a b :: int
  by (auto simp: signed_modulo_int_def mod_eq_0_iff_dvd sgn_0_0)

lemma era_floor:
  "(if y < 0 \<and> y smod 400 \<noteq> 0 then (y - 399) sdiv 400 else y sdiv 400) = y div 400" for y :: int
proof (cases "y < 0")
  case True
  have s: "(y - 399) sdiv 400 = - ((399 - y) div 400)" "y sdiv 400 = - ((- y) div 400)"
    using True by (simp_all add: signed_divide_int_def sgn_if)
  have "(399 - y) div 400 = - (y div 400)"
  proof (rule int_div_pos_eq [of _ _ _ "399 - y mod 400"])
    show "399 - y = 400 * - (y div 400) + (399 - y mod 400)" using mult_div_mod_eq [of 400 y] by linarith
  qed (use pos_mod_bound [of 400 y] pos_mod_sign [of 400 y] in auto)
  moreover have "(- y) div 400 = - (y div 400)" if "y smod 400 = 0"
    using that smod_zero_iff [of 400 y] by (simp add: dvd_neg_div)
  ultimately show ?thesis using True s by auto
qed (simp add: sdiv_nonneg)

text \<open>The leap days up to a year, and the days from March to the start of a month.\<close>

definition leapsTo :: "int \<Rightarrow> int" where
  "leapsTo y = y div 4 - y div 100 + y div 400"

definition monthDays :: "int \<Rightarrow> int" where
  "monthDays m = (153 * ((m + 9) mod 12) + 2) div 5"

lemma daysFromCivil_linear:
  fixes y :: int
  assumes "1 \<le> m" "m \<le> 12"
  defines "z \<equiv> if m \<le> 2 then y - 1 else y"
  shows "daysFromCivil y m d = 365 * z + leapsTo z + monthDays m + d - 719469"
proof -
  define e where "e = z div 400"
  define r where "r = z - e * 400"
  have r0: "0 \<le> r" by (simp add: r_def e_def minus_div_mult_eq_mod)
  have z: "z = 400 * e + r" by (simp add: r_def)
  have q: "z div 4 = 100 * e + r div 4" "z div 100 = 4 * e + r div 100"
    using div_mult_self1 [of 4 r "100 * e"] div_mult_self1 [of 100 r "4 * e"] by (simp_all add: z add.commute)
  have m: "(m + 9) smod 12 = (m + 9) mod 12" "(153 * ((m + 9) mod 12) + 2) sdiv 5 = monthDays m"
    using assms(1,2) by (simp_all add: signed_modulo_int_def sdiv_nonneg monthDays_def)
  have "daysFromCivil y m d = e * 146097 + (r * 365 + r div 4 - r div 100 + (monthDays m + d - 1)) - 719468"
    unfolding daysFromCivil_def Let_def z_def [symmetric] era_floor e_def [symmetric] r_def [symmetric] m
    using r0 by (simp add: sdiv_nonneg)
  moreover have "z div 400 = e" by (simp add: e_def)
  ultimately show ?thesis unfolding leapsTo_def q using z by simp
qed

lemma div_pred:
  fixes y k :: int
  assumes "0 < k"
  shows "(y - 1) div k = y div k - (if k dvd y then 1 else 0)"
proof (cases "k dvd y")
  case True
  then show ?thesis using assms by (intro int_div_pos_eq [of _ _ _ "k - 1"]) (auto simp: algebra_simps elim!: dvdE)
next
  case False
  then have "0 < y mod k" using assms by (metis dvd_eq_mod_eq_0 pos_mod_sign order_le_less)
  then show ?thesis
    using False assms pos_mod_bound [OF assms, of y] by (intro int_div_pos_eq [of _ _ _ "y mod k - 1"]) auto
qed

lemma isLeap_iff: "isLeap y \<longleftrightarrow> 4 dvd y \<and> (\<not> 100 dvd y \<or> 400 dvd y)"
  by (simp add: isLeap_def smod_zero_iff)

lemma leap_days:
  "leapsTo y = leapsTo (y - 1) + (if isLeap y then 1 else 0)"
proof -
  have p: "(y - 1) div 4 = y div 4 - (if 4 dvd y then 1 else 0)" "(y - 1) div 100 = y div 100 - (if 100 dvd y then 1 else 0)"
    "(y - 1) div 400 = y div 400 - (if 400 dvd y then 1 else 0)" by (simp_all only: div_pred zero_less_numeral)
  have t: "100 dvd y \<Longrightarrow> 4 dvd y" "400 dvd y \<Longrightarrow> 100 dvd y"
    using dvd_trans [of 4 100 y] dvd_trans [of 100 400 y] by simp_all
  show ?thesis unfolding leapsTo_def p isLeap_iff using t by (cases "400 dvd y"; cases "100 dvd y"; cases "4 dvd y") simp_all
qed

text \<open>The day after a date, by the length of the months.\<close>

definition nextDay :: "int \<times> int \<times> int \<Rightarrow> int \<times> int \<times> int" where
  "nextDay = (\<lambda>(y, m, d). if d < daysInMonth y m then (y, m, d + 1) else if m < 12 then (y, m + 1, 1) else (y + 1, 1, 1))"

definition validDate :: "int \<times> int \<times> int \<Rightarrow> bool" where
  "validDate = (\<lambda>(y, m, d). 1 \<le> m \<and> m \<le> 12 \<and> 1 \<le> d \<and> d \<le> daysInMonth y m)"

definition civilDays :: "int \<times> int \<times> int \<Rightarrow> int" where
  "civilDays = (\<lambda>(y, m, d). daysFromCivil y m d)"

lemma month_cases:
  fixes m :: int
  assumes "1 \<le> m" "m \<le> 12"
  obtains "m = 1" | "m = 2" | "m = 3" | "m = 4" | "m = 5" | "m = 6" | "m = 7" | "m = 8" | "m = 9" | "m = 10" | "m = 11" | "m = 12"
proof -
  have "m = 1 \<or> m = 2 \<or> m = 3 \<or> m = 4 \<or> m = 5 \<or> m = 6 \<or> m = 7 \<or> m = 8 \<or> m = 9 \<or> m = 10 \<or> m = 11 \<or> m = 12"
    using assms by presburger
  then show thesis using that by blast
qed

lemma monthDays_next: "1 \<le> m \<Longrightarrow> m \<le> 11 \<Longrightarrow> m \<noteq> 2 \<Longrightarrow> monthDays (m + 1) = monthDays m + daysInMonth y m"
  by (rule month_cases [of m]) (simp_all add: monthDays_def daysInMonth_def)

lemma civilDays_next:
  assumes "validDate x"
  shows "civilDays (nextDay x) = civilDays x + 1"
proof -
  obtain y m d where x: "x = (y, m, d)" by (cases x)
  have v: "1 \<le> m" "m \<le> 12" "d \<le> daysInMonth y m" using assms by (simp_all add: x validDate_def)
  have lin: "daysFromCivil y' m' d' = 365 * z + leapsTo z + monthDays m' + d' - 719469"
    if "1 \<le> m'" "m' \<le> 12" "z = (if m' \<le> 2 then y' - 1 else y')" for y' m' d' z
    using daysFromCivil_linear [OF that(1,2)] that(3) by simp
  consider "d < daysInMonth y m" | "d = daysInMonth y m" "m = 2" | "d = daysInMonth y m" "m \<noteq> 2" "m \<le> 11" | "d = daysInMonth y m" "m = 12"
    using v by linarith
  then show ?thesis
  proof cases
    case 1
    then show ?thesis using v lin [OF v(1,2) refl] by (simp add: x nextDay_def civilDays_def)
  next
    case 2
    have "monthDays 2 = 337" "monthDays 3 = 0" by (simp_all add: monthDays_def)
    then show ?thesis
      using 2 lin [of 2 "y - 1" y d] lin [of 3 y y 1] leap_days [of y]
      by (simp add: x nextDay_def civilDays_def daysInMonth_def split: if_splits)
  next
    case 3
    moreover have "m \<le> 2 \<longleftrightarrow> m + 1 \<le> 2" using 3 v(1) by linarith
    ultimately show ?thesis
      using v(1) lin [OF v(1,2) refl, of y d] lin [of "m + 1" _ y 1, OF _ _ refl] monthDays_next [OF v(1), of y]
      by (simp add: x nextDay_def civilDays_def)
  next
    case 4
    have "monthDays 12 = 275" "monthDays 1 = 306" "daysInMonth y 12 = 31" by (simp_all add: monthDays_def daysInMonth_def)
    then show ?thesis using 4 lin [of 12 y y d] lin [of 1 y "y + 1" 1] by (simp add: x nextDay_def civilDays_def)
  qed
qed

lemma validDate_next: "validDate x \<Longrightarrow> validDate (nextDay x)"
  by (auto simp: validDate_def nextDay_def daysInMonth_def split: prod.splits if_splits)

subsection \<open>Texts read back\<close>

text \<open>A number on at least \<open>k\<close> digits.\<close>

definition padded :: "nat \<Rightarrow> int \<Rightarrow> string" where
  "padded k v = (let s = showNat (nat v) in zeros (k - length s) @ s)"

lemma showNat_length: "v < 10 ^ k \<Longrightarrow> 0 < k \<Longrightarrow> length (showNat v) \<le> k"
proof (induction k arbitrary: v)
  case (Suc k)
  show ?case
  proof (cases "v < 10")
    case True
    then show ?thesis by (simp add: showNat.simps [of v])
  next
    case False
    then have "v div 10 < 10 ^ k" "0 < k" using Suc.prems by (auto simp: less_mult_imp_div_less mult.commute intro: gr0I)
    then show ?thesis using Suc.IH [of "v div 10"] False by (simp add: showNat.simps [of v])
  qed
qed simp

lemma padded_facts:
  "list_all isDigit (padded k v)" "k \<le> length (padded k v)" "padded k v \<noteq> []" "0 \<le> v \<Longrightarrow> int_of_digits (padded k v) = v"
  by (auto simp: padded_def Let_def zeros_def list_all_iff isDigit_def showNat_not_Nil int_of_digits_padded [unfolded zeros_def] int_of_digits_showNat
      dest: showNat_digits [unfolded list_all_iff, rule_format])

lemma padded_length: "0 \<le> v \<Longrightarrow> v < 10 ^ n \<Longrightarrow> 0 < n \<Longrightarrow> k \<le> n \<Longrightarrow> length (padded k v) \<le> n"
  using showNat_length [of "nat v" n] by (auto simp: padded_def Let_def zeros_def nat_less_iff)

lemma padded2 [simp]: "0 \<le> v \<Longrightarrow> v < 100 \<Longrightarrow> length (padded 2 v) = 2"
  using padded_length [of v 2 2] padded_facts(2) [of 2 v] by simp

lemma digitsAt_padded:
  assumes "length pre = i" "0 \<le> v" "length (padded k v) = n"
  shows "digitsAt (pre @ padded k v @ post) i n = Some v"
  using assms padded_facts [where k = k and v = v] by (simp add: digitsAt_def Let_def)

text \<open>The ISO 8601 text of a time.\<close>

definition zoneText :: "int option \<Rightarrow> string" where
  "zoneText z =
     (case z of
        None \<Rightarrow> []
      | Some o' \<Rightarrow> (if o' < 0 then ''-'' else ''+'') @ padded 2 (\<bar>o'\<bar> div 3600) @ '':'' @ padded 2 (\<bar>o'\<bar> div 60 mod 60))"

definition clockText :: "timeFields \<Rightarrow> string" where
  "clockText f =
     padded 2 (hour f) @ '':'' @ padded 2 (minute f) @ '':'' @ padded 2 (sec f) @ ''.'' @ padded 6 (micro f)"

definition dateText :: "timeFields \<Rightarrow> string" where
  "dateText f = padded 4 (if year f \<ge> 1 then year f else 1 - year f) @ ''-'' @ padded 2 (month f) @ ''-'' @ padded 2 (day f)"

definition eraText :: "timeFields \<Rightarrow> string" where
  "eraText f = (if year f \<ge> 1 then [] else '' BC'')"

definition isoText :: "timeFields \<Rightarrow> string" where
  "isoText f = dateText f @ ''T'' @ clockText f @ zoneText (zoneOf f) @ eraText f"

definition wfTime :: "timeFields \<Rightarrow> bool" where
  "wfTime f \<longleftrightarrow>
     - 9999998 \<le> year f \<and> year f \<le> 9999999 \<and> validDate (year f, month f, day f) \<and>
     0 \<le> hour f \<and> hour f \<le> 23 \<and> 0 \<le> minute f \<and> minute f \<le> 59 \<and> 0 \<le> sec f \<and> sec f \<le> 59 \<and>
     0 \<le> micro f \<and> micro f < 1000000 \<and>
     (case zoneOf f of None \<Rightarrow> True | Some z \<Rightarrow> 60 dvd z \<and> \<bar>z\<bar> < 16 * 3600)"

lemma padded_takeWhile: "r = [] \<or> \<not> isDigit (hd r) \<Longrightarrow> takeWhile isDigit (padded k v @ r) = padded k v"
  using padded_facts(1) [of k v] by (cases r) (auto simp: takeWhile_append list_all_iff)

lemma zoneText_start: "zoneText z = [] \<or> \<not> isDigit (hd (zoneText z))"
  by (auto simp: zoneText_def isDigit_def less_eq_char_def split: option.splits)

lemma clockPart_text:
  assumes "wfTime f"
  shows "clockPart typ (clockText f @ zoneText z) = Inr ((hour f, minute f, sec f, micro f), zoneText z)"
proof -
  have w: "0 \<le> hour f" "hour f < 100" "0 \<le> minute f" "minute f < 100" "0 \<le> sec f" "sec f < 100" "0 \<le> micro f" "micro f < 10 ^ 6"
    "hour f \<le> 23" "minute f \<le> 59" "sec f \<le> 59"
    using assms by (simp_all add: wfTime_def)
  have l6: "length (padded 6 (micro f)) = 6"
    using padded_length [of "micro f" 6 6] padded_facts(2) [of 6 "micro f"] w(7,8) by simp
  have fr: "fractionPart typ (padded 6 (micro f) @ zoneText z) = Inr (micro f, zoneText z)"
    using padded_takeWhile [OF zoneText_start, of 6 "micro f" z] l6 w(7) padded_facts(3) [of 6 "micro f"]
    by (simp add: fractionPart_def padded_facts(4))
  have se: "secondsPart typ ('':'' @ padded 2 (sec f) @ ''.'' @ padded 6 (micro f) @ zoneText z) = Inr ((sec f, micro f), zoneText z)"
    using digitsAt_padded [of "'':''" 1 "sec f" 2 2] w(5,6) fr by (simp add: secondsPart_def)
  define t where "t = '':'' @ padded 2 (sec f) @ ''.'' @ padded 6 (micro f) @ zoneText z"
  have "clockPart typ (padded 2 (hour f) @ '':'' @ padded 2 (minute f) @ t) = Inr ((hour f, minute f, sec f, micro f), zoneText z)"
    using digitsAt_padded [of "[]" 0 "hour f" 2 2 "'':'' @ padded 2 (minute f) @ t"]
      digitsAt_padded [of "padded 2 (hour f) @ '':''" 3 "minute f" 2 2 t] w se [folded t_def]
    by (simp add: clockPart_def nth_append)
  then show ?thesis by (simp add: clockText_def t_def)
qed

lemma zonePart_text:
  assumes "case z of None \<Rightarrow> True | Some o' \<Rightarrow> 60 dvd o' \<and> \<bar>o'\<bar> < 16 * 3600"
  shows "zonePart typ (zoneText z) = Inr z"
proof (cases z)
  case None
  then show ?thesis by (simp add: zonePart_def zoneText_def)
next
  case (Some o')
  define a where "a = \<bar>o'\<bar>"
  have a: "60 dvd a" "0 \<le> a" "a < 57600" using assms Some by (simp_all add: a_def)
  define h where "h = a div 3600"
  define mi where "mi = a div 60 mod 60"
  have hm: "0 \<le> h" "h < 16" "0 \<le> mi" "mi < 60" using a by (simp_all add: h_def mi_def)
  have "a = 60 * (a div 60)" using a(1) by simp
  moreover have "a div 60 = 60 * (a div 60 div 60) + mi" using mult_div_mod_eq [of 60 "a div 60"] by (simp only: mi_def)
  moreover have "a div 60 div 60 = h" using zdiv_zmult2_eq [of 60 a 60] by (simp add: h_def)
  ultimately have v: "h * 3600 + mi * 60 = a" by linarith
  define sg where "sg = (if o' < 0 then CHR ''-'' else CHR ''+'')"
  have sg: "sg = CHR ''-'' \<or> sg = CHR ''+''" by (simp add: sg_def)
  have t: "zoneText z = sg # padded 2 h @ '':'' @ padded 2 mi"
    by (simp add: Some zoneText_def sg_def a_def [symmetric] h_def [symmetric] mi_def [symmetric])
  have d: "digitsAt (sg # padded 2 h @ '':'' @ padded 2 mi) 1 2 = Some h" "digitsAt (padded 2 mi) 0 2 = Some mi"
    using digitsAt_padded [of "[sg]" 1 h 2 2 "'':'' @ padded 2 mi"] digitsAt_padded [of "[]" 0 mi 2 2 "[]"] hm by simp_all
  have "offsetMinutes typ ('':'' @ padded 2 mi) = Inr mi" using d(2) hm by (simp add: offsetMinutes_def)
  then have "zonePart typ (zoneText z) = Inr (Some ((if sg = CHR ''-'' then - 1 else 1) * (h * 3600 + mi * 60)))"
    unfolding t zonePart_def Let_def using sg d(1) hm by (elim disjE) simp_all
  then show ?thesis unfolding v by (auto simp: Some sg_def a_def)
qed

lemma datePart_text:
  assumes "wfTime f" "r = [] \<or> \<not> isDigit (hd r)" "year f \<ge> 1 \<longrightarrow> \<not> bcSuffix (dateText f @ r)"
  shows "datePart typ (dateText f @ r @ eraText f) = Inr ((year f, month f, day f), r)"
proof -
  define y where "y = (if year f \<ge> 1 then year f else 1 - year f)"
  define Y where "Y = padded 4 y"
  define i where "i = length Y"
  have w: "1 \<le> y" "y \<le> 9999999" "1 \<le> month f" "month f \<le> 12" "1 \<le> day f" "day f \<le> daysInMonth (year f) (month f)"
    using assms(1) by (auto simp: wfTime_def validDate_def y_def)
  have dm: "day f < 100" using w(6) by (auto simp: daysInMonth_def split: if_splits)
  have i: "4 \<le> i" "i \<le> 7" "Y \<noteq> []" "int_of_digits Y = y"
    using padded_facts [where k = 4 and v = y] padded_length [of y 7 4] w by (simp_all add: i_def Y_def)
  define inp where "inp = dateText f @ r"
  have inp: "inp = Y @ ''-'' @ padded 2 (month f) @ ''-'' @ padded 2 (day f) @ r" by (simp add: inp_def dateText_def Y_def y_def)
  have bc: "bcSuffix (inp @ eraText f) \<longleftrightarrow> year f < 1" "(if bcSuffix (inp @ eraText f) then take (length (inp @ eraText f) - 3) (inp @ eraText f) else inp @ eraText f) = inp"
    using assms(3) i(1,3) by (auto simp: bcSuffix_def eraText_def inp_def [symmetric]) (auto simp: inp i_def)
  have tw: "takeWhile isDigit inp = Y"
    using padded_takeWhile [of "''-'' @ padded 2 (month f) @ ''-'' @ padded 2 (day f) @ r" 4 y] by (simp add: inp Y_def isDigit_def less_eq_char_def)
  have dg: "digitsAt inp (i + 1) 2 = Some (month f)" "digitsAt inp (i + 4) 2 = Some (day f)"
    using digitsAt_padded [of "Y @ ''-''" "i + 1" "month f" 2 2 "''-'' @ padded 2 (day f) @ r"]
      digitsAt_padded [of "Y @ ''-'' @ padded 2 (month f) @ ''-''" "i + 4" "day f" 2 2 r] w dm by (simp_all add: inp i_def)
  have shape: "i + 6 \<le> length inp" "inp ! i = CHR ''-''" "inp ! (i + 3) = CHR ''-''" "take i inp = Y" "drop (i + 6) inp = r"
    using w dm by (simp_all add: inp i_def nth_append)
  have "year f < 1 \<Longrightarrow> 1 - y = year f" "\<not> year f < 1 \<Longrightarrow> y = year f" by (simp_all add: y_def)
  then have "datePart typ (inp @ eraText f) = Inr ((year f, month f, day f), r)"
    unfolding datePart_def Let_def unfolding bc(2) unfolding bc(1) tw i_def [symmetric] using i w dg shape by (cases "year f < 1") simp_all
  then show ?thesis by (simp add: inp_def)
qed

lemma bcSuffix_last: "bcSuffix s \<Longrightarrow> last s = CHR ''C'' \<or> last s = CHR ''c''"
proof -
  assume "bcSuffix s"
  then have "length s > 3" "drop (length s - 3) s \<in> {'' BC'', '' Bc'', '' bC'', '' bc''}" by (simp_all add: bcSuffix_def)
  moreover from this(1) have "last s = last (drop (length s - 3) s)" by (intro last_drop [symmetric]) simp
  ultimately show ?thesis by (auto simp del: last_drop)
qed

lemma parse_isoText:
  assumes "wfTime f"
  shows "parseDateTimeText typ (isoText f) True = Inr f"
proof -
  define r where "r = ''T'' @ clockText f @ zoneText (zoneOf f)"
  have z: "case zoneOf f of None \<Rightarrow> True | Some o' \<Rightarrow> 60 dvd o' \<and> \<bar>o'\<bar> < 16 * 3600" using assms by (simp add: wfTime_def)
  have "isDigit (last (padded k v))" for k v
    using padded_facts(1,3) [where k = k and v = v] by (simp add: list_all_iff)
  then have "isDigit (last r)"
    using padded_facts(3) by (auto simp: r_def clockText_def zoneText_def split: option.splits)
  then have "\<not> bcSuffix (dateText f @ r)"
    using bcSuffix_last [of "dateText f @ r"] by (auto simp: r_def isDigit_def less_eq_char_def)
  then have "datePart typ (dateText f @ r @ eraText f) = Inr ((year f, month f, day f), r)"
    using assms by (intro datePart_text) (simp_all add: r_def isDigit_def less_eq_char_def)
  then show ?thesis
    using clockPart_text [OF assms] zonePart_text [OF z]
    by (simp add: parseDateTimeText_def isoText_def r_def)
qed

subsection \<open>Wall clocks\<close>

text \<open>A reading that a single change of the clock within a day makes neither skipped nor impossible is placed at an instant
  that shows it.\<close>

lemma zoneOffsetAt_shows:
  assumes "\<And>s. wall - 86400 \<le> s \<Longrightarrow> s \<le> wall + 86400 \<Longrightarrow>
      offsetAtInstant zone s \<in> {offsetAtInstant zone (wall - 86400), offsetAtInstant zone (wall + 86400)}"
    and "wall - 86400 \<le> t" "t \<le> wall + 86400" "t + offsetAtInstant zone t = wall"
  shows "wall - zoneOffsetAt (Some zone) wall + offsetAtInstant zone (wall - zoneOffsetAt (Some zone) wall) = wall"
proof -
  have "wall - offsetAtInstant zone t = t" using assms(4) by simp
  then show ?thesis
    using assms(1) [OF assms(2,3)] by (auto simp: zoneOffsetAt_def Let_def)
qed

subsection \<open>Properties\<close>

text \<open>C23: the day numbers of \<open>daysFromCivil\<close> count the days of the proleptic Gregorian calendar: 1970-01-01 is day 0, and
  walking any number of days from a valid date, month by month and leap year by leap year, adds that number.\<close>

theorem calendar_counts_days:
  "civilDays (1970, 1, 1) = 0 \<and>
   (validDate x \<longrightarrow> validDate ((nextDay ^^ n) x) \<and> civilDays ((nextDay ^^ n) x) = civilDays x + int n)"
proof -
  have "civilDays (1970, 1, 1) = 0"
    by (simp add: civilDays_def daysFromCivil_linear leapsTo_def monthDays_def)
  then show ?thesis by (induction n) (simp_all add: civilDays_next validDate_next)
qed

theorem calendar_counts_days_witness:
  "validDate (2000, 2, 28) \<and> civilDays (2000, 3, 1) = civilDays (2000, 2, 28) + 2"
proof -
  have "validDate (2000, 2, 28)" by (simp add: validDate_def daysInMonth_def)
  moreover have "(nextDay ^^ 2) (2000, 2, 28) = (2000, 3, 1)"
    by (simp add: nextDay_def daysInMonth_def isLeap_iff eval_nat_numeral)
  ultimately show ?thesis using calendar_counts_days [of "(2000, 2, 28)" 2] by simp
qed

text \<open>C24: every time within the supported years, with its microseconds, its offset and its era, is read back from its ISO 8601
  text.\<close>

theorem time_text_roundtrip:
  assumes "wfTime f"
  shows "parseDateTimeText typ (isoText f) True = Inr f"
  using assms by (rule parse_isoText)

theorem time_text_roundtrip_witness:
  "\<exists>f. wfTime f \<and> year f = - 43 \<and> zoneOf f = Some (- 5400) \<and> parseDateTimeText ''timestamptz'' (isoText f) True = Inr f"
proof -
  let ?f = "\<lparr>year = - 43, month = 3, day = 15, hour = 12, minute = 30, sec = 59, micro = 5, zoneOf = Some (- 5400)\<rparr>"
  have "wfTime ?f" by (simp add: wfTime_def validDate_def daysInMonth_def)
  with time_text_roundtrip [OF this, of "''timestamptz''"] show ?thesis by (intro exI [of _ ?f]) simp
qed

text \<open>C25: a wall clock of the session zone is placed at an instant at which the zone shows it, whenever there is one within a
  day and the zone changes its offset at most once around it.\<close>

theorem wall_clock_placed:
  assumes "\<And>s. wall - 86400 \<le> s \<Longrightarrow> s \<le> wall + 86400 \<Longrightarrow>
      offsetAtInstant zone s \<in> {offsetAtInstant zone (wall - 86400), offsetAtInstant zone (wall + 86400)}"
    and "wall - 86400 \<le> t" "t \<le> wall + 86400" "t + offsetAtInstant zone t = wall"
  shows "wall - zoneOffsetAt (Some zone) wall + offsetAtInstant zone (wall - zoneOffsetAt (Some zone) wall) = wall"
  using assms by (rule zoneOffsetAt_shows)

theorem wall_clock_placed_witness:
  "let zone = (\<lambda>u. if u < pgEpochUnixDays * 86400 then 3600 else 7200) in
   10000 - zoneOffsetAt (Some zone) 10000 + offsetAtInstant zone (10000 - zoneOffsetAt (Some zone) 10000) = 10000"
proof -
  let ?z = "\<lambda>u. if u < pgEpochUnixDays * 86400 then 3600 else 7200 :: int"
  have "offsetAtInstant ?z s \<in> {offsetAtInstant ?z (10000 - 86400), offsetAtInstant ?z (10000 + 86400)}" for s
    by (simp add: offsetAtInstant_def)
  moreover have "2800 + offsetAtInstant ?z 2800 = 10000" by (simp add: offsetAtInstant_def)
  ultimately show ?thesis using wall_clock_placed [of 10000 ?z 2800] by (simp add: Let_def)
qed

end
