(* ===== verification/Pg_Types.thy ===== *)
theory Pg_Types
  imports Pg_Numeric Pg_Time
begin

text \<open>
  The types of the introspected schema (\<open>pg/info_type.go\<close>) as far as values are concerned, and the table of
  scalar encoders (\<open>query/write_encode.go\<close>).  A type is the tree of the types it is made of: the element of an array,
  the base of a domain, the columns of a composite.  The pointer back from an element type to its array type, which
  \<open>IsArray\<close> compares, is the flag \<open>tArrayLink\<close>.
\<close>

datatype pgtype = PgType
  (tOid: int)
  (tEnumLabels: "string list")
  (tElement: "pgtype option")
  (tArrayLink: bool)
  (tBase: "pgtype option")
  (tColumns: "(string \<times> pgtype) list option")

definition IsEnum :: "pgtype \<Rightarrow> bool" where "IsEnum t \<longleftrightarrow> tEnumLabels t \<noteq> []"

definition IsArray :: "pgtype \<Rightarrow> bool" where "IsArray t \<longleftrightarrow> tElement t \<noteq> None \<and> tArrayLink t"

definition IsComposite :: "pgtype \<Rightarrow> bool" where "IsComposite t \<longleftrightarrow> tColumns t \<noteq> None"

definition IsDomain :: "pgtype \<Rightarrow> bool" where "IsDomain t \<longleftrightarrow> tBase t \<noteq> None"

fun Underlying :: "pgtype \<Rightarrow> pgtype" where
  "Underlying (PgType oid labels elem link (Some b) cols) = Underlying b"
| "Underlying t = t"

definition CompositeRelation :: "pgtype \<Rightarrow> (string \<times> pgtype) list option" where
  "CompositeRelation t = tColumns (Underlying t)"

lemma size_Underlying: "size (Underlying t) \<le> size t"
  by (induction t rule: Underlying.induct) simp_all

lemma size_element: "tElement t = Some e \<Longrightarrow> size e < size t"
  by (cases t) simp

lemma size_column: "tColumns t = Some cols \<Longrightarrow> (name, c) \<in> set cols \<Longrightarrow> size c < size t"
proof (cases t)
  case (PgType oid labels elem link bs cs)
  assume "tColumns t = Some cols" "(name, c) \<in> set cols"
  then show ?thesis
    using size_list_estimation' [of "(name, c)" cols "size c" "size_prod (\<lambda>_. 0) size"] PgType by simp
qed

lemma Underlying_not_domain: "\<not> IsDomain (Underlying t)"
  by (induction t rule: Underlying.induct) (simp_all add: IsDomain_def)

lemma Underlying_idem [simp]: "Underlying (Underlying t) = Underlying t"
  by (induction t rule: Underlying.induct) simp_all

subsection \<open>Scalars\<close>

definition oidBool :: int where "oidBool = 16"
definition oidBytea :: int where "oidBytea = 17"
definition oidName :: int where "oidName = 19"
definition oidInt8 :: int where "oidInt8 = 20"
definition oidInt2 :: int where "oidInt2 = 21"
definition oidInt4 :: int where "oidInt4 = 23"
definition oidText :: int where "oidText = 25"
definition oidJSON :: int where "oidJSON = 114"
definition oidFloat4 :: int where "oidFloat4 = 700"
definition oidFloat8 :: int where "oidFloat8 = 701"
definition oidBpchar :: int where "oidBpchar = 1042"
definition oidVarchar :: int where "oidVarchar = 1043"
definition oidDate :: int where "oidDate = 1082"
definition oidTimestamp :: int where "oidTimestamp = 1114"
definition oidTimestamptz :: int where "oidTimestamptz = 1184"
definition oidNumeric :: int where "oidNumeric = 1700"
definition oidUUID :: int where "oidUUID = 2950"
definition oidJSONB :: int where "oidJSONB = 3802"

lemmas oid_defs = oidBool_def oidBytea_def oidName_def oidInt8_def oidInt2_def oidInt4_def oidText_def oidJSON_def oidFloat4_def
  oidFloat8_def oidBpchar_def oidVarchar_def oidDate_def oidTimestamp_def oidTimestamptz_def oidNumeric_def oidUUID_def oidJSONB_def

definition scalarEncoders :: "int \<Rightarrow> field_encoder option" where
  "scalarEncoders oid =
     map_of
       [(oidBool, encodeBoolField), (oidBytea, encodeByteaField), (oidName, encodeTextField), (oidInt8, encodeIntField 64),
        (oidInt2, encodeIntField 16), (oidInt4, encodeIntField 32), (oidText, encodeTextField), (oidJSON, encodeJSONField),
        (oidFloat4, encodeFloatField 32), (oidFloat8, encodeFloatField 64), (oidBpchar, encodeTextField),
        (oidVarchar, encodeTextField), (oidDate, encodeDateField), (oidTimestamp, encodeTimestamp),
        (oidTimestamptz, encodeTimestamptz), (oidNumeric, encodeNumericField), (oidUUID, encodeUUIDField),
        (oidJSONB, encodeJSONBField)] oid"

definition scalarEncoderFor :: "pgtype \<Rightarrow> field_encoder option" where
  "scalarEncoderFor t =
     (let u = Underlying t in if IsEnum u then Some encodeTextField else scalarEncoders (tOid u))"

subsection \<open>The contract of an encoder\<close>

text \<open>An encoder appends: what it writes does not depend on what is there already.\<close>

locale field_appender =
  fixes enc :: field_encoder
  assumes appends: "enc ec dst n = bindR (enc ec [] n) (\<lambda>b. Inr (dst @ b))"
begin

lemma append_prefix: "enc ec (p @ dst) n = bindR (enc ec dst n) (\<lambda>b. Inr (p @ b))"
  unfolding appends [of ec "p @ dst"] appends [of ec dst] by (cases "enc ec [] n") simp_all

end

lemma bindR_append: "bindR (bindR r (\<lambda>b. Inr (f b))) (\<lambda>b. Inr (dst @ b)) = bindR r (\<lambda>b. Inr (dst @ f b))"
  by (cases r) simp_all

interpretation int_field: field_appender "encodeIntField bits" for bits
  by unfold_locales (auto simp: encodeIntField_def bindR_def appendInt16_def appendInt32_def appendInt64_def split: sum.splits num_error.splits)

interpretation float_field: field_appender "encodeFloatField bits" for bits
  by unfold_locales (auto simp: encodeFloatField_def bindR_def split: sum.splits)

interpretation bool_field: field_appender encodeBoolField
  by unfold_locales (auto simp: encodeBoolField_def bindR_def split: NodeKind.splits sum.splits option.splits)

interpretation text_field: field_appender encodeTextField
  by unfold_locales (auto simp: encodeTextField_def bindR_def split: sum.splits)

interpretation uuid_field: field_appender encodeUUIDField
  by unfold_locales (auto simp: encodeUUIDField_def bindR_def split: sum.splits)

interpretation bytea_field: field_appender encodeByteaField
  by unfold_locales (auto simp: encodeByteaField_def bindR_def Let_def split: sum.splits)

interpretation json_field: field_appender encodeJSONField
  by unfold_locales (auto simp: encodeJSONField_def bindR_def split: sum.splits)

interpretation jsonb_field: field_appender encodeJSONBField
  by unfold_locales (auto simp: encodeJSONBField_def encodeJSONField_def bindR_def split: sum.splits)

interpretation numeric_field: field_appender encodeNumericField
  by unfold_locales (auto simp: encodeNumericField_def appendNumeric_def bindR_def Let_def split: sum.splits option.splits)

interpretation date_field: field_appender encodeDateField
  by unfold_locales (auto simp: encodeDateField_def appendInt32_def bindR_def Let_def split: sum.splits option.splits)

interpretation timestamp_field: field_appender "encodeTimestampText ty" for ty
  by unfold_locales (auto simp: encodeTimestampText_def appendInt64_def bindR_def Let_def split: sum.splits option.splits)

lemma scalarEncoders_append: "scalarEncoders oid = Some enc \<Longrightarrow> field_appender enc"
  by (auto simp: scalarEncoders_def encodeTimestamp_def encodeTimestamptz_def split: if_splits
      intro: int_field.field_appender_axioms float_field.field_appender_axioms bool_field.field_appender_axioms
        text_field.field_appender_axioms uuid_field.field_appender_axioms bytea_field.field_appender_axioms
        json_field.field_appender_axioms jsonb_field.field_appender_axioms numeric_field.field_appender_axioms
        date_field.field_appender_axioms timestamp_field.field_appender_axioms)

lemma scalarEncoderFor_append: "scalarEncoderFor t = Some enc \<Longrightarrow> field_appender enc"
  using scalarEncoders_append text_field.field_appender_axioms by (auto simp: scalarEncoderFor_def Let_def split: if_splits)

end
