(* ===== verification/Pg_Complex.thy ===== *)
theory Pg_Complex
  imports Pg_Types
begin

text \<open>
  Arrays, composites and text mode of the typed write path, \<open>query/write_encode_complex.go\<close>: binary arrays
  and records made of the encoders of their parts, and, for a type with a part that has no binary encoder, the literals
  PostgreSQL's input functions read.
\<close>

subsection \<open>Binary arrays\<close>

fun shapeLoop :: "nat \<Rightarrow> nat list \<Rightarrow> field_node list \<Rightarrow> (encode_error + nat list \<times> field_node list) list \<Rightarrow>
    encode_error + nat list \<times> field_node list" where
  "shapeLoop i inner leaves [] = Inr (inner, leaves)"
| "shapeLoop i inner leaves (r # rs) =
     bindR r (\<lambda>(s, l).
       if s = [] \<and> l = [] \<and> i = 0 then shapeLoop (Suc i) inner leaves rs
       else if i = 0 then shapeLoop (Suc i) s (leaves @ l) rs
       else if inner \<noteq> s then Inl NotRectangular
       else shapeLoop (Suc i) inner (leaves @ l) rs)"

fun arrayShape :: "field_node \<Rightarrow> encode_error + nat list \<times> field_node list" where
  "arrayShape (FieldNode k raw js st bo by ins dys de items fs) =
     (if k \<noteq> KindArray then Inl (WrongKind ''array'')
      else if items = [] then Inr ([], [])
      else if fKind (hd items) \<noteq> KindArray then Inr ([length items], items)
      else
        bindR (shapeLoop 0 [] [] (map arrayShape items)) (\<lambda>(inner, leaves).
          if leaves = [] then Inr ([], []) else Inr (length items # inner, leaves)))"

definition appendLengthPrefixed :: "field_encoder \<Rightarrow> field_encoder" where
  "appendLengthPrefixed enc ec dst n =
     bindR (enc ec (dst @ [0, 0, 0, 0]) n) (\<lambda>d.
       let at = length dst in Inr (take at d @ int32Bytes (int (length d) - int at - 4) @ drop (at + 4) d))"

fun appendElements :: "field_encoder \<Rightarrow> encodeContext \<Rightarrow> bytes \<Rightarrow> field_node list \<Rightarrow> encode_error + bytes" where
  "appendElements enc ec dst [] = Inr dst"
| "appendElements enc ec dst (l # ls) =
     (if fKind l = KindNull then appendElements enc ec (appendInt32 dst (- 1)) ls
      else bindR (appendLengthPrefixed enc ec dst l) (\<lambda>d. appendElements enc ec d ls))"

definition arrayHeader :: "nat list \<Rightarrow> bool \<Rightarrow> int \<Rightarrow> bytes" where
  "arrayHeader sizes hasNull oid =
     int32Bytes (int (length sizes)) @ int32Bytes (if hasNull then 1 else 0) @ int32Bytes oid @
     concat (map (\<lambda>s. int32Bytes (int s) @ int32Bytes 1) sizes)"

definition arrayEncoder :: "int \<Rightarrow> field_encoder \<Rightarrow> field_encoder" where
  "arrayEncoder elemOID elem ec dst n =
     bindR (arrayShape n) (\<lambda>(sizes, leaves).
       let hasNull = list_ex (\<lambda>l. fKind l = KindNull) leaves in
       appendElements elem ec (dst @ arrayHeader sizes hasNull elemOID) leaves)"

subsection \<open>Binary composites\<close>

record compositeField =
  cfName :: string
  cfOid :: int
  cfEnc :: field_encoder

text \<open>The bytes of a record, and the fields the object supplied, in order, as the callback is told them.\<close>

fun markingLoop :: "nat \<Rightarrow> encodeContext \<Rightarrow> bytes \<Rightarrow> nat list \<Rightarrow> field_node \<Rightarrow> compositeField list \<Rightarrow> encode_error + bytes \<times> nat list" where
  "markingLoop i ec dst marks n [] = Inr (dst, marks)"
| "markingLoop i ec dst marks n (f # fs) =
     (let dst1 = appendInt32 dst (cfOid f) in
      case fGet n (cfName f) of
        None \<Rightarrow> markingLoop (Suc i) ec (appendInt32 dst1 (- 1)) marks n fs
      | Some v \<Rightarrow>
          if fKind v = KindNull then markingLoop (Suc i) ec (appendInt32 dst1 (- 1)) (marks @ [i]) n fs
          else bindR (appendLengthPrefixed (cfEnc f) ec dst1 v) (\<lambda>d. markingLoop (Suc i) ec d (marks @ [i]) n fs))"

definition encodeMarking :: "compositeField list \<Rightarrow> encodeContext \<Rightarrow> bytes \<Rightarrow> field_node \<Rightarrow> encode_error + bytes \<times> nat list" where
  "encodeMarking cfs ec dst n =
     (if fKind n \<noteq> KindObject then Inl (WrongKind ''composite'')
      else markingLoop 0 ec (appendInt32 dst (int (length cfs))) [] n cfs)"

definition compositeEncode :: "compositeField list \<Rightarrow> field_encoder" where
  "compositeEncode cfs ec dst n = bindR (encodeMarking cfs ec dst n) (\<lambda>(d, marks). Inr d)"

subsection \<open>The encoder of a type\<close>

fun allSome :: "'a option list \<Rightarrow> 'a list option" where
  "allSome [] = Some []"
| "allSome (x # xs) = Option.bind x (\<lambda>v. map_option ((#) v) (allSome xs))"

lemma under_element:
  "tElement (Underlying t) = Some e \<Longrightarrow> size e < size t" "Some e = tElement (Underlying t) \<Longrightarrow> size e < size t"
  using size_Underlying [of t] size_element [of "Underlying t" e] by simp_all

lemma under_column: "tColumns (Underlying t) = Some cols \<Longrightarrow> (name, c) \<in> set cols \<Longrightarrow> size c < size t"
  using size_Underlying [of t] size_column [of "Underlying t" cols name c] by simp

function (sequential) binaryEncoderFor :: "pgtype \<Rightarrow> field_encoder option" where
  "binaryEncoderFor t =
     (case scalarEncoderFor t of
        Some enc \<Rightarrow> Some enc
      | None \<Rightarrow>
          let u = Underlying t in
          (case (IsArray u, tElement u) of
             (True, Some e) \<Rightarrow> map_option (arrayEncoder (tOid e)) (binaryEncoderFor e)
           | _ \<Rightarrow>
               (case tColumns u of
                  Some cols \<Rightarrow>
                    map_option compositeEncode
                      (allSome (map (\<lambda>(name, c).
                         map_option (\<lambda>enc. \<lparr>cfName = name, cfOid = tOid c, cfEnc = enc\<rparr>) (binaryEncoderFor c)) cols))
                | None \<Rightarrow> None)))"
  by pat_completeness auto
termination
  by (relation "measure size") (auto dest: under_element under_column)

subsection \<open>Text mode\<close>

text \<open>The civil date of a day number, as Go's \<open>time\<close> package computes it, and the two layouts the source asks for.\<close>

definition civilFromDays :: "int \<Rightarrow> int \<times> int \<times> int" where
  "civilFromDays n =
     (let z = n + 719468; era = z div 146097; doe = z mod 146097;
          yoe = (doe - doe div 1460 + doe div 36524 - doe div 146096) div 365;
          doy = doe - (365 * yoe + yoe div 4 - yoe div 100);
          mp = (5 * doy + 2) div 153;
          d = doy - (153 * mp + 2) div 5 + 1;
          m = (if mp < 10 then mp + 3 else mp - 9)
      in (yoe + era * 400 + (if m \<le> 2 then 1 else 0), m, d))"

definition goYear :: "int \<Rightarrow> string" where
  "goYear y = (if y < 0 then CHR ''-'' # padded 4 (- y) else padded 4 y)"

definition goDate :: "int \<Rightarrow> string" where
  "goDate n = (case civilFromDays n of (y, m, d) \<Rightarrow> goYear y @ ''-'' @ padded 2 m @ ''-'' @ padded 2 d)"

text \<open>The microseconds without their trailing zeros, after a point.\<close>

definition goFraction :: "int \<Rightarrow> string" where
  "goFraction u = (if u = 0 then [] else CHR ''.'' # trimRightZeros (padded 6 u))"

definition goInstant :: "gotime \<Rightarrow> string" where
  "goInstant t =
     (let s = fst t mod 86400 in
      goDate (fst t div 86400) @ ''T'' @ padded 2 (s div 3600) @ '':'' @ padded 2 (s div 60 mod 60) @ '':'' @ padded 2 (s mod 60) @
      goFraction (snd t div 1000) @ ''Z'')"

definition wrap64 :: "int \<Rightarrow> int" where
  "wrap64 v = sint (word_of_int v :: 64 word)"

definition hexText :: "bytes \<Rightarrow> string" where
  "hexText bs = concat (map (\<lambda>b. [hexDigit (unat b div 16), hexDigit (unat b mod 16)]) bs)"

definition uuidForm :: "string \<Rightarrow> string" where
  "uuidForm h =
     take 8 h @ ''-'' @ take 4 (drop 8 h) @ ''-'' @ take 4 (drop 12 h) @ ''-'' @ take 4 (drop 16 h) @ ''-'' @ drop 20 h"

definition scalarText :: "field_node \<Rightarrow> encode_error + string" where
  "scalarText n =
     (case fKind n of
        KindString \<Rightarrow> bindR (readString n) (\<lambda>s. if hasNUL s then Inl BadCharacter else Inr s)
      | KindNumber \<Rightarrow> (case fDecimal n of Some s \<Rightarrow> Inr s | None \<Rightarrow> readRaw n)
      | KindObject \<Rightarrow> readRaw n
      | KindArray \<Rightarrow> readRaw n
      | KindBytes \<Rightarrow> bindR (readBytes n) (\<lambda>b. Inr (CHR 0x5C # CHR ''x'' # hexText b))
      | KindUUID \<Rightarrow> bindR (readBytes n) (\<lambda>b. Inr (uuidForm (hexText b)))
      | KindInstant \<Rightarrow> (case fInstant n of None \<Rightarrow> Inl ReadError | Some t \<Rightarrow> Inr (goInstant t))
      | KindDate \<Rightarrow> (case fDays n of None \<Rightarrow> Inl ReadError | Some d \<Rightarrow> Inr (goDate (wrap64 (d * 86400) div 86400)))
      | KindBool \<Rightarrow> (case fBool n of Inl _ \<Rightarrow> Inl ReadError | Inr b \<Rightarrow> Inr (if b then ''true'' else ''false''))
      | _ \<Rightarrow> Inl (WrongKind ''text''))"

text \<open>A UUID that does not have its sixteen bytes, which no adapter offers, would lose the buffer: the error it wraps is nil.\<close>

definition shortUUID :: "field_node \<Rightarrow> bool" where
  "shortUUID n \<longleftrightarrow> fKind n = KindUUID \<and> (case fBytes n of Some b \<Rightarrow> length b \<noteq> 16 | None \<Rightarrow> False)"

definition encodeScalarText :: field_encoder where
  "encodeScalarText ec dst n =
     (if shortUUID n then Inr [] else bindR (scalarText n) (\<lambda>s. Inr (dst @ map byteOf s)))"

text \<open>An element of an array literal or a field of a composite literal, quoted when it needs to be.\<close>

definition isNullWord :: "string \<Rightarrow> bool" where
  "isNullWord s \<longleftrightarrow> length s = 4 \<and> toLower s = ''null''"

definition literalBlank :: "char \<Rightarrow> bool" where
  "literalBlank c \<longleftrightarrow> c \<in> {CHR '' '', CHR 0x09, CHR 0x0A, CHR 0x0D, CHR 0x0C, CHR 0x0B}"

definition needsQuotes :: "bool \<Rightarrow> string \<Rightarrow> bool" where
  "needsQuotes inArray s \<longleftrightarrow>
     s = [] \<or> inArray \<and> isNullWord s \<or>
     list_ex (\<lambda>c. c = CHR ''\"'' \<or> c = CHR 0x5C \<or> c = CHR '','' \<or> literalBlank c \<or>
       (if inArray then c = CHR ''{'' \<or> c = CHR ''}'' else c = CHR ''('' \<or> c = CHR '')'')) s"

definition escapeChar :: "char \<Rightarrow> string" where
  "escapeChar c = (if c = CHR ''\"'' \<or> c = CHR 0x5C then [CHR 0x5C, c] else [c])"

text \<open>\<open>appendQuoted\<close>, as the text it appends.\<close>

definition quotedText :: "bool \<Rightarrow> string \<Rightarrow> string" where
  "quotedText inArray s = (if needsQuotes inArray s then ''\"'' @ concat (map escapeChar s) @ ''\"'' else s)"

text \<open>The elements after the first are preceded by a comma.\<close>

fun appendTextArray :: "field_encoder \<Rightarrow> encodeContext \<Rightarrow> bytes \<Rightarrow> field_node \<Rightarrow> encode_error + bytes" where
  "appendTextArray elem ec dst (FieldNode k raw js st bo by ins dys de items fs) =
     (if k \<noteq> KindArray then Inl (WrongKind ''array'')
      else
        let nested = (items \<noteq> [] \<and> fKind (hd items) = KindArray) in
        bindR (traverse (\<lambda>it.
            if fKind it = KindNull then Inr ''NULL''
            else if nested then bindR (appendTextArray elem ec [] it) (\<lambda>b. Inr (map charOf b))
            else bindR (elem ec [] it) (\<lambda>scratch. Inr (quotedText True (map charOf scratch)))) items) (\<lambda>parts.
          Inr (dst @ map byteOf (''{'' @ join_with CHR '','' parts @ ''}''))))"

definition textArrayEncoder :: "field_encoder \<Rightarrow> field_encoder" where
  "textArrayEncoder elem ec dst n = appendTextArray elem ec dst n"

definition textCompositeEncoder :: "(string \<times> field_encoder) list \<Rightarrow> field_encoder" where
  "textCompositeEncoder tfs ec dst n =
     (if fKind n \<noteq> KindObject then Inl (WrongKind ''composite'')
      else
        bindR (traverse (\<lambda>(name, enc).
            case fGet n name of
              None \<Rightarrow> Inr []
            | Some v \<Rightarrow>
                if fKind v = KindNull then Inr []
                else bindR (enc ec [] v) (\<lambda>scratch. Inr (quotedText False (map charOf scratch)))) tfs) (\<lambda>parts.
          Inr (dst @ map byteOf (''('' @ join_with CHR '','' parts @ '')''))))"

function (sequential) textModeEncoder :: "pgtype \<Rightarrow> field_encoder" where
  "textModeEncoder t =
     (let u = Underlying t in
      (case (IsArray u, tElement u) of
         (True, Some e) \<Rightarrow> textArrayEncoder (textModeEncoder e)
       | _ \<Rightarrow>
           (case tColumns u of
              Some cols \<Rightarrow> textCompositeEncoder (map (\<lambda>(name, c). (name, textModeEncoder c)) cols)
            | None \<Rightarrow> encodeScalarText)))"
  by pat_completeness auto
termination
  by (relation "measure size") (auto dest: under_element under_column)

definition columnEncoder :: "pgtype \<Rightarrow> field_encoder \<times> bool" where
  "columnEncoder t = (case binaryEncoderFor t of Some enc \<Rightarrow> (enc, True) | None \<Rightarrow> (textModeEncoder t, False))"

end
