(* ===== verification/Result_Cbor.thy ===== *)
theory Result_Cbor
  imports Pg_Complex
begin

text \<open>
  Native CBOR results, \<open>query/result_cbor.go\<close>: a row arrives in PostgreSQL's binary format and is written as CBOR, a
  value at a time.  A record is a map, or a structure whose names were defined earlier in the response; which
  definitions were written is the state the encoder threads.  The catalog gives the type of an OID, \<open>TypeMapByOid\<close>.
\<close>

definition oidChar :: int where "oidChar = 18"
definition oidOid :: int where "oidOid = 26"
definition RecordOID :: int where "RecordOID = 2249"
definition oidRecordArray :: int where "oidRecordArray = 2287"
definition oidVoid :: int where "oidVoid = 2278"

lemmas result_oid_defs = oidChar_def oidOid_def RecordOID_def oidRecordArray_def oidVoid_def

subsection \<open>Plans and structures\<close>

text \<open>The structure of a plan is \<open>None\<close> where the source has \<open>-1\<close>.\<close>

datatype recordPlan = RecordPlan
  (planNames: "string list")
  (planChildren: "recordPlan option list")
  (planStruct: "nat option")

record structureTable =
  stIds :: "(string \<times> nat) list"
  stNames :: "string list list"
  stDefined :: "bool list"

definition NewStructureTable :: structureTable where
  "NewStructureTable = \<lparr>stIds = [], stNames = [], stDefined = []\<rparr>"

definition namesKey :: "string list \<Rightarrow> string" where
  "namesKey names = join_with CHR 0x00 names"

definition idFor :: "string list \<Rightarrow> structureTable \<Rightarrow> nat option \<times> structureTable" where
  "idFor names t =
     (case map_of (stIds t) (namesKey names) of
        Some i \<Rightarrow> (Some i, t)
      | None \<Rightarrow>
          if length (stNames t) \<ge> MaxStructures then (None, t)
          else
            let i = length (stNames t) in
            (Some i, t\<lparr>stIds := (namesKey names, i) # stIds t, stNames := stNames t @ [names], stDefined := stDefined t @ [False]\<rparr>))"

subsection \<open>Binary fields\<close>

definition uint32At :: "bytes \<Rightarrow> nat \<Rightarrow> int" where
  "uint32At d i = uint (bigEndian (take 4 (drop i d)))"

definition uint64At :: "bytes \<Rightarrow> nat \<Rightarrow> int" where
  "uint64At d i = uint (bigEndian (take 8 (drop i d)))"

definition asInt32 :: "int \<Rightarrow> int" where
  "asInt32 u = (if u \<ge> 2 ^ 31 then u - 2 ^ 32 else u)"

definition asInt64 :: "int \<Rightarrow> int" where
  "asInt64 u = (if u \<ge> 2 ^ 63 then u - 2 ^ 64 else u)"

definition floorDiv :: "int \<Rightarrow> int \<Rightarrow> int" where
  "floorDiv a b =
     (let q = a sdiv b in if a smod b \<noteq> 0 \<and> (a < 0) \<noteq> (b < 0) then q - 1 else q)"

record resultEncoder =
  reDb :: "int \<Rightarrow> pgtype option"
  reLocation :: "(int \<Rightarrow> int) option"

text \<open>A value writer takes the structures defined so far, the output, the type, the data and the plan.\<close>

type_synonym written = "bytes \<times> bool list"
type_synonym value_writer = "written \<Rightarrow> int \<Rightarrow> bytes \<Rightarrow> recordPlan option \<Rightarrow> result_error + written"

subsection \<open>Scalars\<close>

definition ofLength :: "nat \<Rightarrow> bytes \<Rightarrow> bytes \<Rightarrow> result_error + bytes" where
  "ofLength n d out = (if length d \<noteq> n then Inl Truncated else Inr out)"

definition appendDate :: "bytes \<Rightarrow> bytes \<Rightarrow> bytes" where
  "appendDate dst d =
     (let days = asInt32 (uint32At d 0) in
      if days = dateInfinity then AppendText dst ''infinity''
      else if days = dateNegInf then AppendText dst ''-infinity''
      else AppendEpochDate dst (word_of_int (days + pgEpochUnixDays)))"

definition appendMicros :: "bytes \<Rightarrow> int \<Rightarrow> bytes" where
  "appendMicros dst micros =
     (let sc = floorDiv micros microsPerSecond in
      AppendEpoch dst (word_of_int (sc + pgEpochUnixDays * 86400)) (micros - sc * microsPerSecond))"

definition appendTimestamp :: "(int \<Rightarrow> int) option \<Rightarrow> bool \<Rightarrow> bytes \<Rightarrow> bytes \<Rightarrow> bytes" where
  "appendTimestamp loc withZone dst d =
     (let micros = asInt64 (uint64At d 0) in
      if micros = tsInfinity then AppendText dst ''infinity''
      else if micros = tsNegInfinity then AppendText dst ''-infinity''
      else if withZone then appendMicros dst micros
      else appendMicros dst (micros - zoneOffsetAt loc (floorDiv micros microsPerSecond) * microsPerSecond))"

definition appendJSONCBOR :: "bytes \<Rightarrow> bytes \<Rightarrow> result_error + bytes" where
  "appendJSONCBOR dst d = (case AppendJSON dst (map charOf d) of Inl e \<Rightarrow> Inl (BadJSON e) | Inr out \<Rightarrow> Inr out)"

text \<open>The cases of the switch on the OID that need neither a plan nor the catalog; any other OID is \<open>None\<close>.\<close>

definition appendScalar :: "resultEncoder \<Rightarrow> bytes \<Rightarrow> int \<Rightarrow> bytes \<Rightarrow> (result_error + bytes) option" where
  "appendScalar e dst oid d =
     (if oid = oidBool then Some (ofLength 1 d (AppendBool dst (d ! 0 \<noteq> 0)))
      else if oid = oidInt2 then Some (ofLength 2 d (AppendInt dst (word_of_int (asInt16 (uint16At d 0)))))
      else if oid = oidInt4 then Some (ofLength 4 d (AppendInt dst (word_of_int (asInt32 (uint32At d 0)))))
      else if oid = oidInt8 then Some (ofLength 8 d (AppendInt dst (word_of_int (asInt64 (uint64At d 0)))))
      else if oid = oidOid then Some (ofLength 4 d (AppendUint dst (word_of_int (uint32At d 0))))
      else if oid = oidFloat4 then Some (ofLength 4 d (dst @ 0xFA # d))
      else if oid = oidFloat8 then Some (ofLength 8 d (AppendFloat64 dst (Float64frombits (word_of_int (uint64At d 0)))))
      else if oid = oidNumeric then Some (appendNumericCBOR dst d)
      else if oid \<in> {oidText, oidVarchar, oidBpchar, oidName, oidChar} then Some (Inr (AppendTextBytes dst d))
      else if oid = oidBytea then Some (Inr (AppendBytes dst d))
      else if oid = oidUUID then Some (ofLength 16 d (AppendUUID dst d))
      else if oid = oidDate then Some (ofLength 4 d (appendDate dst d))
      else if oid = oidTimestamptz then Some (ofLength 8 d (appendTimestamp (reLocation e) True dst d))
      else if oid = oidTimestamp then Some (ofLength 8 d (appendTimestamp (reLocation e) False dst d))
      else if oid = oidJSON then Some (appendJSONCBOR dst d)
      else if oid = oidJSONB then
        Some (if d = [] \<or> hd d \<noteq> 1 then Inl UnknownVersion else appendJSONCBOR dst (tl d))
      else if oid = oidVoid then Some (Inr (AppendNull dst))
      else None)"

subsection \<open>Records and arrays\<close>

definition fieldName :: "recordPlan option \<Rightarrow> (string \<times> pgtype) list option \<Rightarrow> nat \<Rightarrow> string" where
  "fieldName plan rel i =
     (case plan of
        Some p \<Rightarrow> planNames p ! i
      | None \<Rightarrow>
          (case rel of
             Some cols \<Rightarrow> if i < length cols then fst (cols ! i) else CHR ''f'' # showNat (Suc i)
           | None \<Rightarrow> CHR ''f'' # showNat (Suc i)))"

definition fieldPlan :: "recordPlan option \<Rightarrow> nat \<Rightarrow> recordPlan option" where
  "fieldPlan plan i = (case plan of Some p \<Rightarrow> planChildren p ! i | None \<Rightarrow> None)"

fun recordLoop :: "value_writer \<Rightarrow> bool \<Rightarrow> recordPlan option \<Rightarrow> (string \<times> pgtype) list option \<Rightarrow> nat \<Rightarrow> nat \<Rightarrow> written \<Rightarrow> bytes \<Rightarrow>
    result_error + written" where
  "recordLoop rec asStruct plan rel i 0 w d = Inr w"
| "recordLoop rec asStruct plan rel i (Suc k) w d =
     (if length d < 8 then Inl Truncated
      else
        let oid = uint32At d 0; size = asInt32 (uint32At d 4); d1 = drop 8 d;
            dst1 = (if asStruct then fst w else AppendText (fst w) (fieldName plan rel i)) in
        if size < 0 then recordLoop rec asStruct plan rel (Suc i) k (AppendNull dst1, snd w) d1
        else if size > int (length d1) then Inl Truncated
        else
          bindR (rec (dst1, snd w) oid (take (nat size) d1) (fieldPlan plan i)) (\<lambda>w2.
            recordLoop rec asStruct plan rel (Suc i) k w2 (drop (nat size) d1)))"

definition recordHead :: "recordPlan option \<Rightarrow> nat \<Rightarrow> written \<Rightarrow> written" where
  "recordHead plan n w =
     (case plan of
        Some (RecordPlan names children (Some i)) \<Rightarrow>
          if snd w ! i then (AppendStructureRef (fst w) i n, snd w)
          else (AppendStructureDef (fst w) i names, (snd w)[i := True])
      | _ \<Rightarrow> (AppendMapHead (fst w) n, snd w))"

definition asStructure :: "recordPlan option \<Rightarrow> bool" where
  "asStructure plan \<longleftrightarrow> (case plan of Some p \<Rightarrow> planStruct p \<noteq> None | None \<Rightarrow> False)"

definition appendRecord :: "value_writer \<Rightarrow> written \<Rightarrow> bytes \<Rightarrow> recordPlan option \<Rightarrow> (string \<times> pgtype) list option \<Rightarrow>
    result_error + written" where
  "appendRecord rec w d plan rel =
     (if length d < 4 then Inl Truncated
      else
        let n = asInt32 (uint32At d 0); d1 = drop 4 d in
        if n < 0 \<or> n > int (length d1 div 8) + 1 then Inl Truncated
        else if (case plan of Some p \<Rightarrow> int (length (planNames p)) \<noteq> n | None \<Rightarrow> False) then Inl FieldCount
        else recordLoop rec (asStructure plan) plan rel 0 (nat n) (recordHead plan (nat n) w) d1)"

fun timesR :: "nat \<Rightarrow> ('s \<Rightarrow> 'e + 's) \<Rightarrow> 's \<Rightarrow> 'e + 's" where
  "timesR 0 f s = Inr s"
| "timesR (Suc k) f s = bindR (f s) (timesR k f)"

definition arrayElement :: "value_writer \<Rightarrow> int \<Rightarrow> recordPlan option \<Rightarrow> written \<times> bytes \<Rightarrow> result_error + written \<times> bytes" where
  "arrayElement rec elem plan = (\<lambda>(w, d).
     if length d < 4 then Inl Truncated
     else
       let size = asInt32 (uint32At d 0); d1 = drop 4 d in
       if size < 0 then Inr ((AppendNull (fst w), snd w), d1)
       else if size > int (length d1) then Inl Truncated
       else bindR (rec w elem (take (nat size) d1) plan) (\<lambda>w2. Inr (w2, drop (nat size) d1)))"

text \<open>One level per dimension; below the last one, an element.\<close>

fun arrayWalk :: "value_writer \<Rightarrow> int \<Rightarrow> recordPlan option \<Rightarrow> nat list \<Rightarrow> written \<times> bytes \<Rightarrow> result_error + written \<times> bytes" where
  "arrayWalk rec elem plan [] s = arrayElement rec elem plan s"
| "arrayWalk rec elem plan (n # ns) s =
     (let ((dst, st), d) = s in timesR n (arrayWalk rec elem plan ns) ((AppendArrayHead dst n, st), d))"

fun arrayDims :: "nat \<Rightarrow> int \<Rightarrow> bytes \<Rightarrow> result_error + nat list \<times> int" where
  "arrayDims 0 tot d = Inr ([], tot)"
| "arrayDims (Suc k) tot d =
     (let size = asInt32 (uint32At d 0) in
      if size < 0 \<or> (size > 0 \<and> tot > 0x7FFFFFFF div size) then Inl Truncated
      else bindR (arrayDims k (tot * size) (drop 8 d)) (\<lambda>(ns, t). Inr (nat size # ns, t)))"

definition appendArray :: "value_writer \<Rightarrow> written \<Rightarrow> bytes \<Rightarrow> recordPlan option \<Rightarrow> result_error + written" where
  "appendArray rec w d plan =
     (if length d < 12 then Inl Truncated
      else
        let ndim = asInt32 (uint32At d 0); elem = uint32At d 8; d1 = drop 12 d in
        if ndim < 0 \<or> ndim > 6 \<or> int (length d1) < ndim * 8 then Inl Truncated
        else if ndim = 0 then Inr (AppendArrayHead (fst w) 0, snd w)
        else
          bindR (arrayDims (nat ndim) 1 d1) (\<lambda>(sizes, tot).
            let d2 = drop (8 * nat ndim) d1 in
            if tot > int (length d2 div 4) then Inl Truncated
            else bindR (arrayWalk rec elem plan sizes (w, d2)) (\<lambda>(w2, _). Inr w2)))"

subsection \<open>Values\<close>

definition appendValueStep :: "resultEncoder \<Rightarrow> value_writer \<Rightarrow> value_writer" where
  "appendValueStep e rec w oid d plan =
     (case appendScalar e (fst w) oid d of
        Some r \<Rightarrow> bindR r (\<lambda>out. Inr (out, snd w))
      | None \<Rightarrow>
          if oid = RecordOID then appendRecord rec w d plan None
          else if oid = oidRecordArray then appendArray rec w d plan
          else
            (case reDb e oid of
               None \<Rightarrow> Inl UnknownType
             | Some t \<Rightarrow>
                 if IsDomain t then rec w (tOid (Underlying t)) d plan
                 else if IsEnum t then Inr (AppendTextBytes (fst w) d, snd w)
                 else if IsArray t then appendArray rec w d plan
                 else if IsComposite t then appendRecord rec w d None (tColumns t)
                 else Inl UnknownType))"

text \<open>A record or an array reads its parts from shorter data; a domain reads its base from the same.\<close>

fun appendValue :: "nat \<Rightarrow> resultEncoder \<Rightarrow> value_writer" where
  "appendValue 0 e w oid d plan = Inl ResultFuel"
| "appendValue (Suc fuel) e w oid d plan = appendValueStep e (appendValue fuel e) w oid d plan"

definition AppendValue :: "resultEncoder \<Rightarrow> recordPlan option \<Rightarrow> written \<Rightarrow> int \<Rightarrow> bytes option \<Rightarrow> result_error + written" where
  "AppendValue e plan w oid val =
     (case val of
        None \<Rightarrow> Inr (AppendNull (fst w), snd w)
      | Some d \<Rightarrow> appendValue (2 * length d + 2) e w oid d plan)"

subsection \<open>Types with a CBOR form\<close>

definition nativeScalars :: "int set" where
  "nativeScalars =
     {oidBool, oidBytea, oidChar, oidName, oidInt8, oidInt2, oidInt4, oidText, oidOid, oidJSON, oidFloat4, oidFloat8,
      oidBpchar, oidVarchar, oidDate, oidTimestamp, oidTimestamptz, oidNumeric, oidUUID, oidJSONB}"

function (sequential) nativeCBORTypeDepth :: "pgtype \<Rightarrow> nat \<Rightarrow> bool" where
  "nativeCBORTypeDepth t depth =
     (let u = Underlying t in
      if depth > 16 then False
      else if tOid u \<in> nativeScalars then True
      else if IsEnum u then True
      else
        (case (IsArray u, tElement u) of
           (True, Some e) \<Rightarrow> nativeCBORTypeDepth e (Suc depth)
         | _ \<Rightarrow>
             (case tColumns u of
                Some cols \<Rightarrow> list_all (\<lambda>(name, c). nativeCBORTypeDepth c (Suc depth)) cols
              | None \<Rightarrow> False)))"
  by pat_completeness auto
termination
  by (relation "measure (size \<circ> fst)") (auto dest: under_element under_column)

definition nativeCBORType :: "pgtype \<Rightarrow> bool" where
  "nativeCBORType t = nativeCBORTypeDepth t 0"

subsection \<open>Reading ends\<close>

text \<open>Every domain of the catalog leads to a base type that is no domain: \<open>TypeMapByOid\<close> holds the types by their OID.\<close>

definition baseTypesKnown :: "(int \<Rightarrow> pgtype option) \<Rightarrow> bool" where
  "baseTypesKnown db \<longleftrightarrow>
     (\<forall>oid t. db oid = Some t \<longrightarrow> (\<forall>b. db (tOid (Underlying t)) = Some b \<longrightarrow> \<not> IsDomain b))"

definition reads :: "value_writer \<Rightarrow> nat \<Rightarrow> bool" where
  "reads rec n \<longleftrightarrow> (\<forall>w oid d plan. length d < n \<longrightarrow> rec w oid d plan \<noteq> Inl ResultFuel)"

lemma readsD: "reads rec n \<Longrightarrow> length d < n \<Longrightarrow> rec w oid d plan \<noteq> Inl ResultFuel"
  unfolding reads_def by blast

lemma recordLoop_reads:
  "reads rec n \<Longrightarrow> length d \<le> n + 7 \<Longrightarrow> recordLoop rec s plan rel i k w d \<noteq> Inl ResultFuel"
proof (induction rec s plan rel i k w d rule: recordLoop.induct)
  case (2 rec s plan rel i k w d)
  show ?case
  proof (cases "length d < 8")
    case False
    then have "length (drop 8 d) < n" using 2(4) by simp
    then have "rec w' oid (take m (drop 8 d)) p \<noteq> Inl ResultFuel" for w' oid m p
      using 2(3) by (intro readsD) auto
    then show ?thesis using 2 False by (auto simp: Let_def bindR_eq_Inl_iff)
  qed simp
qed simp

lemma appendRecord_reads: "reads rec (length d) \<Longrightarrow> appendRecord rec w d plan rel \<noteq> Inl ResultFuel"
  using recordLoop_reads [of rec "length d" "drop 4 d"] by (auto simp: appendRecord_def Let_def)

lemma arrayElement_reads:
  "reads rec n \<Longrightarrow> length d \<le> n + 3 \<Longrightarrow>
     arrayElement rec elem plan (w, d) \<noteq> Inl ResultFuel \<and> (\<forall>w2 d2. arrayElement rec elem plan (w, d) = Inr (w2, d2) \<longrightarrow> length d2 \<le> length d)"
proof (cases "length d < 4")
  case False
  assume "reads rec n" "length d \<le> n + 3"
  then have "rec w elem (take m (drop 4 d)) plan \<noteq> Inl ResultFuel" for m using False by (intro readsD) auto
  then show ?thesis using False by (auto simp: arrayElement_def Let_def bindR_eq_Inl_iff bindR_eq_Inr_iff)
qed (simp add: arrayElement_def)

lemma timesR_reads:
  assumes "\<And>w d. length d \<le> m \<Longrightarrow> f (w, d) \<noteq> Inl ResultFuel \<and> (\<forall>w2 d2. f (w, d) = Inr (w2, d2) \<longrightarrow> length d2 \<le> length d)"
    and "length d \<le> m"
  shows "timesR k f (w, d) \<noteq> Inl ResultFuel \<and> (\<forall>w2 d2. timesR k f (w, d) = Inr (w2, d2) \<longrightarrow> length d2 \<le> length d)"
  using assms(2)
proof (induction k arbitrary: w d)
  case (Suc k)
  show ?case
  proof (cases "f (w, d)")
    case (Inr s)
    then obtain w1 d1 where s: "f (w, d) = Inr (w1, d1)" by (cases s) auto
    then have "length d1 \<le> length d" using assms(1) [OF Suc.prems] by blast
    then show ?thesis using Suc.IH [of d1 w1] Suc.prems s by (auto dest: order_trans)
  qed (use assms(1) [OF Suc.prems] in auto)
qed simp

lemma arrayWalk_reads:
  "reads rec n \<Longrightarrow> length d \<le> n + 3 \<Longrightarrow>
     arrayWalk rec elem plan sizes (w, d) \<noteq> Inl ResultFuel \<and>
     (\<forall>w2 d2. arrayWalk rec elem plan sizes (w, d) = Inr (w2, d2) \<longrightarrow> length d2 \<le> length d)"
proof (induction sizes arbitrary: w d)
  case Nil
  then show ?case using arrayElement_reads by simp
next
  case (Cons k ns)
  obtain dst st where w: "w = (dst, st)" by (cases w)
  show ?case
    using timesR_reads [of "n + 3" "arrayWalk rec elem plan ns" d k "(AppendArrayHead dst k, st)"] Cons by (simp add: w)
qed

lemma arrayDims_fuel: "arrayDims k tot d \<noteq> Inl ResultFuel"
  by (induction k tot d rule: arrayDims.induct) (auto simp: Let_def bindR_eq_Inl_iff)

lemma appendArray_reads: "reads rec (length d) \<Longrightarrow> appendArray rec w d plan \<noteq> Inl ResultFuel"
  using arrayDims_fuel arrayWalk_reads [of rec "length d"]
  by (auto simp: appendArray_def Let_def bindR_eq_Inl_iff split: prod.splits if_splits)

lemma scalar_fuel [simp]:
  "ofLength n d out \<noteq> Inl ResultFuel" "appendNumericCBOR dst d \<noteq> Inl ResultFuel" "appendJSONCBOR dst d \<noteq> Inl ResultFuel"
  by (auto simp: ofLength_def appendNumericCBOR_def appendJSONCBOR_def Let_def split: sum.splits)

lemma appendScalar_fuel: "appendScalar e dst oid d \<noteq> Some (Inl ResultFuel)"
proof -
  have c: "(if c then a else b) \<noteq> x" if "a \<noteq> x" "b \<noteq> x" for c and a b x :: "(result_error + bytes) option"
    using that by simp
  show ?thesis unfolding appendScalar_def by (intro c) simp_all
qed

lemma appendValue_fuel:
  assumes "baseTypesKnown (reDb e)"
  shows "(2 * length d + 2 \<le> fuel \<or> 2 * length d + 1 \<le> fuel \<and> (\<forall>t. reDb e oid = Some t \<longrightarrow> \<not> IsDomain t)) \<Longrightarrow>
    appendValue fuel e w oid d plan \<noteq> Inl ResultFuel"
proof (induction fuel arbitrary: w oid d plan)
  case (Suc fuel)
  have "reads (appendValue fuel e) (length d)" using Suc.IH Suc.prems by (auto simp: reads_def)
  note sub = appendRecord_reads [OF this] appendArray_reads [OF this]
  have dom: "appendValue fuel e w (tOid (Underlying t)) d plan \<noteq> Inl ResultFuel" if "reDb e oid = Some t" "IsDomain t" for t
    using Suc.IH Suc.prems that assms by (auto simp: baseTypesKnown_def)
  show ?case
    using sub dom appendScalar_fuel [of e "fst w" oid d]
    by (auto simp: appendValueStep_def bindR_eq_Inl_iff split: option.splits)
qed auto

subsection \<open>Structure ids\<close>

text \<open>The tables a response can come to, its lists of names free of NUL characters.\<close>

inductive table_reach :: "structureTable \<Rightarrow> bool" where
  start: "table_reach NewStructureTable"
| grow: "table_reach t \<Longrightarrow> \<forall>n \<in> set names. CHR 0x00 \<notin> set n \<Longrightarrow> names \<noteq> [] \<Longrightarrow> table_reach (snd (idFor names t))"

definition tableOk :: "structureTable \<Rightarrow> bool" where
  "tableOk t \<longleftrightarrow>
     length (stNames t) \<le> MaxStructures \<and> length (stDefined t) = length (stNames t) \<and>
     (\<forall>names \<in> set (stNames t). names \<noteq> [] \<and> (\<forall>n \<in> set names. CHR 0x00 \<notin> set n)) \<and>
     (\<forall>key i. map_of (stIds t) key = Some i \<longrightarrow> i < length (stNames t) \<and> key = namesKey (stNames t ! i)) \<and>
     (\<forall>i < length (stNames t). map_of (stIds t) (namesKey (stNames t ! i)) = Some i)"

lemma namesKey_inject:
  assumes "namesKey xs = namesKey ys" "xs \<noteq> []" "ys \<noteq> []" "\<forall>n \<in> set xs. CHR 0x00 \<notin> set n" "\<forall>n \<in> set ys. CHR 0x00 \<notin> set n"
  shows "xs = ys"
proof -
  have "split_on CHR 0x00 (namesKey zs) = zs" if "zs \<noteq> []" "\<forall>n \<in> set zs. CHR 0x00 \<notin> set n" for zs
    unfolding namesKey_def using that by (intro split_on_join) blast+
  from this [of xs] this [of ys] show ?thesis using assms by metis
qed

lemma tableOkD:
  assumes "tableOk t"
  shows "length (stNames t) \<le> MaxStructures" "length (stDefined t) = length (stNames t)"
    "names \<in> set (stNames t) \<Longrightarrow> names \<noteq> []" "names \<in> set (stNames t) \<Longrightarrow> \<forall>n \<in> set names. CHR 0x00 \<notin> set n"
    "map_of (stIds t) key = Some i \<Longrightarrow> i < length (stNames t)" "map_of (stIds t) key = Some i \<Longrightarrow> key = namesKey (stNames t ! i)"
    "i < length (stNames t) \<Longrightarrow> map_of (stIds t) (namesKey (stNames t ! i)) = Some i"
  using assms unfolding tableOk_def by blast+

lemma idFor_ok:
  assumes "tableOk t" "names \<noteq> []" "\<forall>n \<in> set names. CHR 0x00 \<notin> set n" "idFor names t = (r, t')"
  shows "tableOk t'" "r = Some i \<Longrightarrow> i < length (stNames t') \<and> stNames t' ! i = names"
    "j < length (stNames t) \<Longrightarrow> j < length (stNames t') \<and> stNames t' ! j = stNames t ! j"
proof -
  note D = tableOkD [OF assms(1)]
  have inj: "stNames t ! j = names" if "j < length (stNames t)" "namesKey (stNames t ! j) = namesKey names" for j
    using namesKey_inject [OF that(2) D(3) assms(2) D(4) assms(3)] nth_mem [OF that(1)] by blast
  have both: "tableOk t' \<and> (\<forall>i. r = Some i \<longrightarrow> i < length (stNames t') \<and> stNames t' ! i = names) \<and>
      (\<forall>j < length (stNames t). j < length (stNames t') \<and> stNames t' ! j = stNames t ! j)"
  proof (cases "map_of (stIds t) (namesKey names)")
    case (Some i)
    then have "r = Some i" "t' = t" using assms(4) by (simp_all add: idFor_def)
    then show ?thesis using assms(1) inj [of i] D(5,6) [OF Some] by simp
  next
    case None
    show ?thesis
    proof (cases "length (stNames t) \<ge> MaxStructures")
      case True
      then have "r = None" "t' = t" using assms(4) None by (simp_all add: idFor_def)
      then show ?thesis using assms(1) by simp
    next
      case False
      let ?n = "length (stNames t)"
      have r: "r = Some ?n" and t': "stIds t' = (namesKey names, ?n) # stIds t" "stNames t' = stNames t @ [names]"
        "stDefined t' = stDefined t @ [False]"
        using assms(4) None False by (auto simp: idFor_def Let_def)
      have new: "namesKey (stNames t ! j) \<noteq> namesKey names" if "j < ?n" for j
        using D(7) [OF that] None by auto
      have "map_of (stIds t') key = Some k \<longrightarrow> k < length (stNames t') \<and> key = namesKey (stNames t' ! k)" for key k
        using D(5,6) [of key k] by (auto simp: t' nth_append)
      moreover have "map_of (stIds t') (namesKey (stNames t' ! k)) = Some k" if "k < length (stNames t')" for k
        using that new [of k] D(7) [of k] by (auto simp: t' nth_append less_Suc_eq)
      moreover have "nms \<noteq> [] \<and> (\<forall>n \<in> set nms. CHR 0x00 \<notin> set n)" if "nms \<in> set (stNames t')" for nms
        using that D(3,4) [of nms] assms(2,3) by (auto simp: t')
      ultimately have "tableOk t'" using D(1,2) False unfolding tableOk_def by (simp add: t')
      then show ?thesis by (simp add: r t' nth_append)
    qed
  qed
  then show "tableOk t'" "r = Some i \<Longrightarrow> i < length (stNames t') \<and> stNames t' ! i = names"
    "j < length (stNames t) \<Longrightarrow> j < length (stNames t') \<and> stNames t' ! j = stNames t ! j" by blast+
qed

lemma table_reach_ok: "table_reach t \<Longrightarrow> tableOk t"
proof (induction rule: table_reach.induct)
  case start
  then show ?case by (simp add: tableOk_def NewStructureTable_def)
next
  case (grow t names)
  then show ?case using idFor_ok(1) [of t names "fst (idFor names t)" "snd (idFor names t)"] by simp
qed

subsection \<open>Properties\<close>





end
