(* ===== verification/Scalar_Roundtrip.thy ===== *)
theory Scalar_Roundtrip
  imports Result_Cbor
begin

text \<open>
  What the typed write path stores and the native CBOR results answer, composed: the encoders of
  \<open>query/write_encode*.go\<close> write the binary form of a value, PostgreSQL keeps it, and \<open>query/result_cbor.go\<close>
  reads it back.  \<open>scalarAnswer\<close> says what a client that wrote a value gets.
\<close>

subsection \<open>Integers in binary\<close>

lemma int32Bytes_length [simp]: "length (int32Bytes v) = 4"
  by (simp add: int32Bytes_def Let_def)

lemma int64Bytes_length [simp]: "length (int64Bytes v) = 8"
  by (simp add: int64Bytes_def Let_def)

lemma uint32At_int32Bytes: "uint32At (pre @ int32Bytes v @ post) (length pre) = v mod 2 ^ 32"
proof -
  have u: "uint (word_of_int (v mod 2 ^ 32) :: 64 word) = v mod 2 ^ 32"
    by (rule uint_word_of_int64) (simp_all add: order.strict_trans [OF pos_mod_bound])
  then have "(word_of_int (v mod 2 ^ 32) :: 64 word) \<le> 0xFFFFFFFF"
    by (simp add: word_le_def)
  from bigEndian_4 [OF this] show ?thesis
    using u by (simp add: uint32At_def int32Bytes_def Let_def)
qed

lemma uint32At_start [simp]: "uint32At (int32Bytes v @ post) 0 = v mod 2 ^ 32" "uint32At (int32Bytes v) 0 = v mod 2 ^ 32"
  using uint32At_int32Bytes [of "[]" v post] uint32At_int32Bytes [of "[]" v "[]"] by simp_all

lemma uint64At_int64Bytes [simp]: "uint64At (int64Bytes v) 0 = v mod 2 ^ 64"
  by (simp add: uint64At_def int64Bytes_def Let_def bigEndian_8 uint_word_of_int)

lemma uint16At_int16 [simp]: "uint16At (int16Bytes v) 0 = v mod 2 ^ 16"
  using uint16At_int16Bytes [of "[]" v "[]"] by simp

lemma wrap_back:
  fixes v h w :: int
  assumes "w = 2 * h" "0 < h" "- h \<le> v" "v < h"
  shows "(if v mod w \<ge> h then v mod w - w else v mod w) = v"
proof (cases "v < 0")
  case True
  have "v mod w = v + w" using mod_add_self2 [of v w] mod_pos_pos_trivial [of "v + w" w] True assms by simp
  then show ?thesis using assms by simp
qed (use assms in simp)

lemma as_signed:
  "fitsBits 16 v \<Longrightarrow> asInt16 (v mod 2 ^ 16) = v" "fitsBits 32 v \<Longrightarrow> asInt32 (v mod 2 ^ 32) = v" "fitsBits 64 v \<Longrightarrow> asInt64 (v mod 2 ^ 64) = v"
  unfolding asInt16_def asInt32_def asInt64_def fitsBits_def by (rule wrap_back; simp)+

lemma floorDiv_eq: "0 < b \<Longrightarrow> floorDiv a b = a div b"
proof -
  assume b: "0 < b"
  show ?thesis
  proof (cases "a < 0")
    case False
    then show ?thesis using b by (simp add: floorDiv_def sdiv_nonneg Let_def)
  next
    case True
    have s: "a sdiv b = - ((- a) div b)" using True b by (simp add: signed_divide_int_def sgn_if)
    show ?thesis
    proof (cases "b dvd a")
      case True
      then show ?thesis using b s by (simp add: floorDiv_def Let_def smod_zero_iff dvd_neg_div)
    next
      case F: False
      then have "(- a) div b = - (a div b) - 1" using b by (simp add: zdiv_zminus1_eq_if dvd_eq_mod_eq_0)
      then show ?thesis using True F b s by (simp add: floorDiv_def Let_def smod_zero_iff)
    qed
  qed
qed

subsection \<open>Scalars\<close>

definition integerAnswer :: "ctree \<Rightarrow> bytes option" where
  "integerAnswer v =
     Option.bind (treeIntegerText v) (\<lambda>m. if integerSyntax m then Some (AppendDecimal [] (FormatInt (integerValue m)) 0) else None)"

definition instantAnswer :: "gotime \<Rightarrow> bytes" where
  "instantAnswer t =
     (let u = fst t * 1000000 + (snd t + 500) div 1000 in AppendEpoch [] (word_of_int (u div 1000000)) (u mod 1000000))"

text \<open>What a column of a built-in type answers for a value of its own kind.  A numeric keeps its digits and its scale, a
  timestamptz is rounded to the microsecond, a json document has the keys of its objects in order.\<close>

definition scalarAnswer :: "int \<Rightarrow> ctree \<Rightarrow> bytes option" where
  "scalarAnswer oid v =
     (if oid = oidBool then (case v of CBool b \<Rightarrow> Some (AppendBool [] b) | _ \<Rightarrow> None)
      else if oid \<in> {oidInt2, oidInt4, oidInt8} then (case v of CInt x \<Rightarrow> Some (AppendInt [] x) | _ \<Rightarrow> None)
      else if oid \<in> {oidText, oidVarchar, oidBpchar, oidName} then (case v of CText s \<Rightarrow> Some (AppendText [] s) | _ \<Rightarrow> None)
      else if oid = oidBytea then (case v of CBytes b \<Rightarrow> Some (AppendBytes [] b) | _ \<Rightarrow> None)
      else if oid = oidUUID then (case v of CUUID b \<Rightarrow> if length b = 16 then Some (AppendUUID [] b) else None | _ \<Rightarrow> None)
      else if oid = oidDate then (case v of CDate x \<Rightarrow> Some (AppendEpochDate [] x) | _ \<Rightarrow> None)
      else if oid = oidTimestamptz then
        (case v of CInstant t \<Rightarrow> if 0 \<le> snd t then Some (instantAnswer t) else None | _ \<Rightarrow> None)
      else if oid = oidNumeric then
        (case v of
           CDecimal s ex \<Rightarrow>
             if integerSyntax s
             then Some (AppendDecimal [] (FormatInt (integerValue s * 10 ^ nat (sint ex))) (word_of_int (min 0 (sint ex))))
             else None
         | _ \<Rightarrow> integerAnswer v)
      else if oid \<in> {oidJSON, oidJSONB} then
        (if canonical v \<and> floatFree v \<and> levels v \<le> maxJSONDepth then Some (encodeTree True (sortTree v)) else None)
      else None)"

lemma bool_back:
  "encodeBoolField ec [] (treeField (CBool b)) = Inr bs \<Longrightarrow> appendScalar e dst oidBool bs = Some (Inr (dst @ AppendBool [] b))"
  using boolItem.app_written [of dst b]
  by (auto simp: encodeBoolField_def StrictBool_def boolByte_def appendScalar_def ofLength_def)

lemma text_back:
  assumes "encodeTextField ec [] (treeField (CText s)) = Inr bs"
  shows "bs = map byteOf s"
  using assms by (auto simp: encodeTextField_def readString_def StrictString_def split: if_splits)

lemma blob_back:
  "encodeByteaField ec [] (treeField (CBytes b)) = Inr bs \<Longrightarrow> bs = b"
  "encodeUUIDField ec [] (treeField (CUUID b)) = Inr bs \<Longrightarrow> bs = b"
  by (simp_all add: encodeByteaField_def encodeUUIDField_def readBytes_def)

lemma FormatInt_signed: "signedDigits (FormatInt i) i"
proof -
  have "signedDigits (showNat n) (int n)" "signedDigits (CHR ''-'' # showNat n) (- int n)" for n
    unfolding signedDigits_def
    by (rule exI [of _ "showNat n"], simp add: showNat_not_Nil showNat_digits int_of_digits_showNat)+
  from this(1) [of "nat i"] this(2) [of "nat (- i)"] show ?thesis by (auto simp: FormatInt_def)
qed

lemma int_back:
  assumes "encodeIntField bits ec [] (treeField (CInt x)) = Inr bs" "0 < bits"
  shows "bs = intBytes bits (sint x) \<and> fitsBits bits (sint x)"
proof -
  have "numericInput (intName bits) (treeField (CInt x)) = Inr (FormatInt (sint x))"
    by (simp add: numericInput_def readRaw_def treeRaw_def treeIntegerText_def)
  with ParseIntBits_digits [OF assms(2) FormatInt_signed [of "sint x"]] assms(1) show ?thesis
    by (auto simp: encodeIntField_def intBytes_def appendInt16_def appendInt32_def appendInt64_def split: if_splits)
qed

lemma json_back:
  assumes "encodeJSONField ec dst0 (treeField v) = Inr bs" "canonical v" "floatFree v" "levels v \<le> maxJSONDepth"
  shows "\<exists>d. bs = dst0 @ d \<and> appendJSONCBOR dst d = Inr (dst @ encodeTree True (sortTree v))"
proof -
  obtain raw where raw: "treeJSON v = Inr raw" "bs = dst0 @ map byteOf raw"
    using assms(1) by (auto simp: encodeJSONField_def split: sum.splits if_splits)
  from jsonTree_text [OF assms(2,3) raw(1), of 0 "[]"] have "jsonTree 0 raw = Inr (sortTree v, [])" using assms(4) by simp
  then have "parseJSON raw = Inr (sortTree v)" by (simp add: parseJSON_def skipJSONSpace_def)
  then show ?thesis using raw(2) by (simp add: appendJSONCBOR_def AppendJSON_parse comp_def)
qed

lemma date_back:
  assumes "encodeDateField ec [] (treeField (CDate x)) = Inr bs"
  shows "length bs = 4 \<and> appendDate dst bs = dst @ AppendEpochDate [] x"
proof -
  have r: "dateMinDays \<le> sint x - pgEpochUnixDays" "sint x - pgEpochUnixDays \<le> dateMaxDays" and bs: "bs = int32Bytes (sint x - pgEpochUnixDays)"
    using assms by (auto simp: encodeDateField_def appendInt32_def Let_def split: if_splits)
  then have "asInt32 (uint32At bs 0) = sint x - pgEpochUnixDays"
    using as_signed(2) [of "sint x - pgEpochUnixDays"] by (simp add: fitsBits_def dateMinDays_def dateMaxDays_def)
  then show ?thesis
    using r epochDateItem.app_written [of dst x] bs
    by (simp add: appendDate_def Let_def dateInfinity_def dateNegInf_def dateMinDays_def dateMaxDays_def)
qed

lemma instant_back:
  assumes "encodeTimestamptz ec [] (treeField (CInstant t)) = Inr bs" "0 \<le> snd t"
  shows "length bs = 8 \<and> appendTimestamp loc True dst bs = dst @ instantAnswer t"
proof -
  define E where "E = pgEpochUnixDays * 86400"
  define us where "us = (fst t - E) * 1000000 + (snd t + 500) div 1000"
  have "(snd t + 500) sdiv 1000 = (snd t + 500) div 1000" using assms(2) by (simp add: sdiv_nonneg)
  then have bs: "bs = int64Bytes us" and r: "inTsRange us"
    using assms(1) by (auto simp: encodeTimestamptz_def encodeTimestampText_def instantMicros_def appendInt64_def Let_def us_def E_def
        microsPerSecond_def bindR_eq_Inr_iff split: if_splits)
  then have a: "asInt64 (uint64At bs 0) = us"
    using as_signed(3) [of us] by (simp add: fitsBits_def inTsRange_def tsMinMicros_def tsEndMicros_def)
  define u where "u = fst t * 1000000 + (snd t + 500) div 1000"
  have "u = us + E * 1000000" by (simp add: u_def us_def algebra_simps)
  then have u: "u div 1000000 = us div 1000000 + E" "u mod 1000000 = us mod 1000000" by simp_all
  have e: "AppendEpoch dst s m = dst @ AppendEpoch [] s m" for s m
    using intItem.app_written [of "dst @ AppendTag [] TagEpochDateTime"] intItem.app_written [of "AppendTag [] TagEpochDateTime"]
      floatItem.app_written [of "dst @ AppendTag [] TagEpochDateTime"] floatItem.app_written [of "AppendTag [] TagEpochDateTime"]
      AppendHead_append [of dst "[]" 6 TagEpochDateTime]
    by (simp add: AppendEpoch_def AppendTag_def Let_def)
  show ?thesis
    using r bs a u e
    by (simp add: appendTimestamp_def appendMicros_def instantAnswer_def Let_def floorDiv_eq microsPerSecond_def u_def [symmetric] E_def [symmetric]
        minus_div_mult_eq_mod inTsRange_def tsMinMicros_def tsEndMicros_def tsInfinity_def tsNegInfinity_def)
qed

text \<open>Numbers: the digits of an integer with an optional exponent.\<close>

lemma integerSyntax_hd:
  assumes "integerSyntax m"
  obtains c cs where "m = c # cs" "isDigit c" "negText m = False" "textDigits m = m"
  | c cs where "m = CHR ''-'' # c # cs" "isDigit c" "negText m" "textDigits m = c # cs"
proof -
  have "m \<noteq> []" using assms by (auto simp: integerSyntax_def textDigits_def negText_def)
  then obtain c cs where m: "m = c # cs" by (cases m) auto
  show thesis
  proof (cases "c = CHR ''-''")
    case True
    then show thesis using assms m that(2) by (cases cs) (auto simp: integerSyntax_def textDigits_def negText_def)
  next
    case False
    then show thesis using assms m that(1) by (auto simp: integerSyntax_def textDigits_def negText_def)
  qed
qed

lemma toLower_low_Cons: "of_char c < (65 :: nat) \<Longrightarrow> toLower (c # cs) = c # toLower cs"
  by (auto simp: less_eq_char_def)

lemma digit_code: "isDigit c \<Longrightarrow> of_char c < (65 :: nat) \<and> c \<notin> {CHR ''n'', CHR ''i'', CHR ''+'', CHR ''-'', CHR ''.''}"
  by (auto simp: isDigit_def less_eq_char_def)

lemma numericSpecial_number: "integerSyntax m \<Longrightarrow> numericSpecial (m @ r) = None"
proof (erule integerSyntax_hd)
  fix c cs
  assume m: "m = c # cs" "isDigit c"
  have "toLower (m @ r) = c # toLower (cs @ r)" using toLower_low_Cons digit_code [OF m(2)] by (simp add: m(1))
  then show ?thesis using digit_code [OF m(2)] by (auto simp: numericSpecial_def Let_def)
next
  fix c cs
  assume m: "m = CHR ''-'' # c # cs" "isDigit c"
  have "toLower (m @ r) = CHR ''-'' # toLower (c # cs @ r)" using toLower_low_Cons [of "CHR ''-''"] by (simp add: m(1))
  moreover have "toLower (c # cs @ r) = c # toLower (cs @ r)" using toLower_low_Cons digit_code [OF m(2)] by blast
  ultimately show ?thesis using digit_code [OF m(2)] by (auto simp: numericSpecial_def Let_def)
qed

lemma numericParts_number:
  assumes "integerSyntax m" "r = [] \<or> hd r = CHR ''e''"
  shows "numericParts (m @ r) = bindR (numericExponent r) (\<lambda>ex. Inr (negText m, textDigits m, [], ex))"
proof -
  have r: "\<not> isDigit (hd r)" "hd r \<noteq> CHR ''.''" if "r \<noteq> []" using assms(2) that by (auto simp: isDigit_def less_eq_char_def)
  have d: "list_all isDigit (textDigits m)" "textDigits m \<noteq> []" using assms(1) by (auto simp: integerSyntax_def)
  have tw: "takeWhile isDigit (textDigits m @ r) = textDigits m" "dropWhile isDigit (textDigits m @ r) = r"
    using d(1) r(1) by (cases r; simp add: list_all_iff takeWhile_append2 dropWhile_append2)+
  have neg: "(m @ r \<noteq> [] \<and> hd (m @ r) = CHR ''-'') = negText m"
    "(if m @ r \<noteq> [] \<and> (hd (m @ r) = CHR ''+'' \<or> hd (m @ r) = CHR ''-'') then tl (m @ r) else m @ r) = textDigits m @ r"
    using assms(1) by (elim integerSyntax_hd; use digit_code in fastforce)+
  show ?thesis unfolding numericParts_def Let_def neg tw using r d(2) by (cases "r = []") simp_all
qed

lemma numericExponent_text:
  assumes "numericExponent (CHR ''e'' # FormatInt ex) = Inr v" "in_int64 ex"
  shows "v = ex"
  using assms Atoi_FormatInt [of ex] by (auto simp: numericExponent_def Let_def in_int64_def split: if_splits option.splits)

lemma number_back:
  assumes "integerSyntax m" "r = [] \<and> ex = 0 \<or> r = CHR ''e'' # FormatInt ex" "in_int64 ex" "appendNumeric [] (m @ r) = Inr bs"
  shows "appendNumericCBOR dst bs =
    Inr (dst @ AppendDecimal [] (FormatInt (integerValue m * 10 ^ nat ex)) (word_of_int (min 0 ex)))"
proof -
  have sp: "numericSpecial (m @ r) = None" by (rule numericSpecial_number [OF assms(1)])
  have pt: "numericParts (m @ r) = bindR (numericExponent r) (\<lambda>ex. Inr (negText m, textDigits m, [], ex))"
    using assms(1,2) by (intro numericParts_number) auto
  have "isOk (numericParts (m @ r))" using assms(4) sp by (cases "numericParts (m @ r)") (auto simp: appendNumeric_def)
  then have "numericExponent r = Inr ex"
    using assms(2,3) numericExponent_text pt by (cases "numericExponent r") (auto simp: numericExponent_def)
  then have "numericParts (m @ r) = Inr (negText m, textDigits m, [], ex)" using pt by simp
  from appendNumeric_read [OF sp this assms(4), of dst]
  have "appendNumericCBOR dst bs = Inr (AppendDecimal dst (FormatInt (numericUnits (negText m) (textDigits m) [] ex)) (word_of_int (- numericScale [] ex)))" .
  moreover have "numericUnits (negText m) (textDigits m) [] ex = integerValue m * 10 ^ nat ex"
    by (auto simp: numericUnits_def numericScale_def integerValue_def max_def)
  moreover have "- numericScale [] ex = min 0 ex" by (simp add: numericScale_def)
  ultimately show ?thesis using decimalItem.app_written [of dst "(FormatInt (integerValue m * 10 ^ nat ex), word_of_int (min 0 ex))"] by simp
qed

lemma numeric_back:
  assumes "encodeNumericField ec [] (treeField v) = Inr bs" "scalarAnswer oidNumeric v = Some out"
  shows "appendNumericCBOR dst bs = Inr (dst @ out)"
proof -
  have ans: "(case v of
       CDecimal s ex \<Rightarrow>
         if integerSyntax s
         then Some (AppendDecimal [] (FormatInt (integerValue s * 10 ^ nat (sint ex))) (word_of_int (min 0 (sint ex))))
         else None
     | _ \<Rightarrow> integerAnswer v) = Some out"
    using assms(2) by (simp add: scalarAnswer_def oid_defs)
  show ?thesis
  proof (cases "\<exists>s ex. v = CDecimal s ex")
    case True
    then obtain s ex where v: "v = CDecimal s ex" by blast
    have "appendNumeric [] (s @ CHR ''e'' # FormatInt (sint ex)) = Inr bs"
      using assms(1) by (simp add: v encodeNumericField_def numericInput_def readRaw_def treeRaw_def)
    moreover have "in_int64 (sint ex)" using sint_greater_eq [of ex] sint_lt [of ex] by (simp add: in_int64_def)
    ultimately show ?thesis using number_back [of s "CHR ''e'' # FormatInt (sint ex)" "sint ex" bs dst] ans by (auto simp: v split: if_splits)
  next
    case False
    then have i: "integerAnswer v = Some out" using ans by (auto split: ctree.splits)
    then obtain m where m: "treeIntegerText v = Some m" "integerSyntax m" "out = AppendDecimal [] (FormatInt (integerValue m)) 0"
      by (auto simp: integerAnswer_def split: if_splits option.splits bind_splits)
    have "appendNumeric [] m = Inr bs"
      using assms(1) m(1) by (cases v) (auto simp: encodeNumericField_def numericInput_def readRaw_def treeRaw_def treeIntegerText_def)
    then show ?thesis using number_back [of m "[]" 0 bs dst] m by (simp add: in_int64_def)
  qed
qed

text \<open>The tables at each type.\<close>

lemma appendScalar_at:
  "appendScalar e dst oidBool d = Some (ofLength 1 d (AppendBool dst (d ! 0 \<noteq> 0)))"
  "appendScalar e dst oidInt2 d = Some (ofLength 2 d (AppendInt dst (word_of_int (asInt16 (uint16At d 0)))))"
  "appendScalar e dst oidInt4 d = Some (ofLength 4 d (AppendInt dst (word_of_int (asInt32 (uint32At d 0)))))"
  "appendScalar e dst oidInt8 d = Some (ofLength 8 d (AppendInt dst (word_of_int (asInt64 (uint64At d 0)))))"
  "appendScalar e dst oidNumeric d = Some (appendNumericCBOR dst d)"
  "appendScalar e dst oidBytea d = Some (Inr (AppendBytes dst d))"
  "appendScalar e dst oidUUID d = Some (ofLength 16 d (AppendUUID dst d))"
  "appendScalar e dst oidDate d = Some (ofLength 4 d (appendDate dst d))"
  "appendScalar e dst oidTimestamptz d = Some (ofLength 8 d (appendTimestamp (reLocation e) True dst d))"
  "appendScalar e dst oidJSON d = Some (appendJSONCBOR dst d)"
  "appendScalar e dst oidJSONB d = Some (if d = [] \<or> hd d \<noteq> 1 then Inl UnknownVersion else appendJSONCBOR dst (tl d))"
  "oid \<in> {oidText, oidVarchar, oidBpchar, oidName} \<Longrightarrow> appendScalar e dst oid d = Some (Inr (AppendTextBytes dst d))"
  unfolding appendScalar_def oid_defs result_oid_defs by (simp_all, fastforce?)

lemma scalarEncoders_at:
  "scalarEncoders oidBool = Some encodeBoolField" "scalarEncoders oidInt2 = Some (encodeIntField 16)"
  "scalarEncoders oidInt4 = Some (encodeIntField 32)" "scalarEncoders oidInt8 = Some (encodeIntField 64)"
  "scalarEncoders oidNumeric = Some encodeNumericField" "scalarEncoders oidBytea = Some encodeByteaField"
  "scalarEncoders oidUUID = Some encodeUUIDField" "scalarEncoders oidDate = Some encodeDateField"
  "scalarEncoders oidTimestamptz = Some encodeTimestamptz" "scalarEncoders oidJSON = Some encodeJSONField"
  "scalarEncoders oidJSONB = Some encodeJSONBField"
  "oid \<in> {oidText, oidVarchar, oidBpchar, oidName} \<Longrightarrow> scalarEncoders oid = Some encodeTextField"
  unfolding scalarEncoders_def oid_defs by auto

lemma scalarAnswer_at:
  "scalarAnswer oidBool v = Some out \<Longrightarrow> \<exists>b. v = CBool b \<and> out = AppendBool [] b"
  "oid \<in> {oidInt2, oidInt4, oidInt8} \<Longrightarrow> scalarAnswer oid v = Some out \<Longrightarrow> \<exists>x. v = CInt x \<and> out = AppendInt [] x"
  "oid \<in> {oidText, oidVarchar, oidBpchar, oidName} \<Longrightarrow> scalarAnswer oid v = Some out \<Longrightarrow> \<exists>s. v = CText s \<and> out = AppendText [] s"
  "scalarAnswer oidBytea v = Some out \<Longrightarrow> \<exists>b. v = CBytes b \<and> out = AppendBytes [] b"
  "scalarAnswer oidUUID v = Some out \<Longrightarrow> \<exists>b. v = CUUID b \<and> length b = 16 \<and> out = AppendUUID [] b"
  "scalarAnswer oidDate v = Some out \<Longrightarrow> \<exists>x. v = CDate x \<and> out = AppendEpochDate [] x"
  "scalarAnswer oidTimestamptz v = Some out \<Longrightarrow> \<exists>t. v = CInstant t \<and> 0 \<le> snd t \<and> out = instantAnswer t"
  "oid \<in> {oidJSON, oidJSONB} \<Longrightarrow> scalarAnswer oid v = Some out \<Longrightarrow>
     canonical v \<and> floatFree v \<and> levels v \<le> maxJSONDepth \<and> out = encodeTree True (sortTree v)"
  unfolding scalarAnswer_def oid_defs by (auto split: ctree.splits if_splits)

lemma scalar_back:
  assumes "scalarEncoders oid = Some enc" "enc ec [] (treeField v) = Inr bs" "scalarAnswer oid v = Some out"
  shows "appendScalar e dst oid bs = Some (Inr (dst @ out))"
proof -
  consider "oid = oidBool" | "oid = oidInt2" | "oid = oidInt4" | "oid = oidInt8" | "oid \<in> {oidText, oidVarchar, oidBpchar, oidName}"
    | "oid = oidBytea" | "oid = oidUUID" | "oid = oidDate" | "oid = oidTimestamptz" | "oid = oidNumeric" | "oid = oidJSON" | "oid = oidJSONB"
    using assms(3) unfolding scalarAnswer_def by (auto split: if_splits)
  then show ?thesis
  proof cases
    case 1
    then show ?thesis using assms scalarAnswer_at(1) [of v out] bool_back [of ec _ bs e dst] by (auto simp: scalarEncoders_at)
  next
    case 2
    then obtain x where x: "v = CInt x" "out = AppendInt [] x" using scalarAnswer_at(2) [of oid v out] assms(3) by auto
    have "bs = intBytes 16 (sint x) \<and> fitsBits 16 (sint x)" using int_back [of 16 ec x bs] assms(1,2) x 2 by (simp add: scalarEncoders_at)
    then show ?thesis
      using 2 x as_signed(1) intItem.app_written [of dst x] by (simp add: appendScalar_at ofLength_def intBytes_def)
  next
    case 3
    then obtain x where x: "v = CInt x" "out = AppendInt [] x" using scalarAnswer_at(2) [of oid v out] assms(3) by auto
    have "bs = intBytes 32 (sint x) \<and> fitsBits 32 (sint x)" using int_back [of 32 ec x bs] assms(1,2) x 3 by (simp add: scalarEncoders_at)
    then show ?thesis
      using 3 x as_signed(2) intItem.app_written [of dst x] by (simp add: appendScalar_at ofLength_def intBytes_def)
  next
    case 4
    then obtain x where x: "v = CInt x" "out = AppendInt [] x" using scalarAnswer_at(2) [of oid v out] assms(3) by auto
    have "bs = intBytes 64 (sint x) \<and> fitsBits 64 (sint x)" using int_back [of 64 ec x bs] assms(1,2) x 4 by (simp add: scalarEncoders_at)
    then show ?thesis
      using 4 x as_signed(3) intItem.app_written [of dst x] by (simp add: appendScalar_at ofLength_def intBytes_def)
  next
    case 5
    then obtain s where s: "v = CText s" "out = AppendText [] s" "enc = encodeTextField"
      using scalarAnswer_at(3) [of oid v out] scalarEncoders_at(12) [of oid] assms(1,3) by auto
    then show ?thesis
      using appendScalar_at(12) [OF 5] text_back [of ec s bs] assms(2) textBytesItem.app_written [of dst "map byteOf s"]
      by (simp add: AppendText_bytes)
  next
    case 6
    then obtain b where b: "v = CBytes b" "out = AppendBytes [] b" using scalarAnswer_at(4) [of v out] assms(3) by auto
    then show ?thesis
      using 6 assms(1,2) blob_back(1) [of ec b bs] blobItem.app_written [of dst b] by (simp add: scalarEncoders_at appendScalar_at)
  next
    case 7
    then obtain b where b: "v = CUUID b" "length b = 16" "out = AppendUUID [] b" using scalarAnswer_at(5) [of v out] assms(3) by auto
    have "AppendUUID dst b = dst @ AppendUUID [] b"
      using blobItem.app_written [of "dst @ AppendTag [] TagUUID" b] blobItem.app_written [of "AppendTag [] TagUUID" b]
        AppendHead_append [of dst "[]" 6 TagUUID] by (simp add: AppendUUID_def AppendTag_def)
    then show ?thesis
      using 7 b blob_back(2) [of ec b bs] assms(1,2) by (simp add: scalarEncoders_at appendScalar_at ofLength_def)
  next
    case 8
    then obtain x where x: "v = CDate x" "out = AppendEpochDate [] x" using scalarAnswer_at(6) [of v out] assms(3) by auto
    then show ?thesis using 8 date_back [of ec x bs dst] assms(1,2) by (simp add: scalarEncoders_at appendScalar_at ofLength_def)
  next
    case 9
    then obtain t where t: "v = CInstant t" "0 \<le> snd t" "out = instantAnswer t" using scalarAnswer_at(7) [of v out] assms(3) by auto
    then show ?thesis
      using 9 instant_back [of ec t bs "reLocation e" dst] assms(1,2) by (simp add: scalarEncoders_at appendScalar_at ofLength_def)
  next
    case 10
    then show ?thesis using numeric_back [of ec v bs out dst] assms by (simp add: scalarEncoders_at appendScalar_at)
  next
    case 11
    then show ?thesis
      using scalarAnswer_at(8) [of oid v out] json_back [of ec "[]" v bs dst] assms by (simp add: scalarEncoders_at appendScalar_at)
  next
    case 12
    then show ?thesis
      using scalarAnswer_at(8) [of oid v out] json_back [of ec "[1]" v bs dst] assms
      by (auto simp: scalarEncoders_at appendScalar_at encodeJSONBField_def)
  qed
qed

end
