(* ===== verification/Value_Roundtrip.thy ===== *)
theory Value_Roundtrip
  imports Scalar_Roundtrip
begin

text \<open>
  Arrays and composites, composed as in \<open>Scalar_Roundtrip\<close>: what the typed write path stores for a column of any
  type with a binary encoder is answered as the value that was written.
\<close>

subsection \<open>Arrays and records\<close>

fun dims :: "ctree \<Rightarrow> nat list" where
  "dims (CArray []) = [0]"
| "dims (CArray (t # ts)) = length (t # ts) # dims t"
| "dims _ = []"

fun leavesOf :: "nat list \<Rightarrow> ctree \<Rightarrow> ctree list" where
  "leavesOf (n # ns) (CArray ts) = concat (map (leavesOf ns) ts)"
| "leavesOf _ v = [v]"

definition partAnswer :: "(ctree \<Rightarrow> bytes option) \<Rightarrow> ctree \<Rightarrow> bytes option" where
  "partAnswer f v = (if v = CNull then Some (AppendNull []) else f v)"

fun nestedAnswer :: "nat list \<Rightarrow> (ctree \<Rightarrow> bytes option) \<Rightarrow> ctree \<Rightarrow> bytes option" where
  "nestedAnswer [] f v = (if Kind (treeNode v) = KindArray then None else partAnswer f v)"
| "nestedAnswer (n # ns) f (CArray ts) =
     (if length ts = n \<and> 0 < n then map_option (\<lambda>bs. AppendArrayHead [] n @ concat bs) (allSome (map (nestedAnswer ns f) ts)) else None)"
| "nestedAnswer (n # ns) f _ = None"

text \<open>An array answers the nested arrays of what its elements answer; the sub-arrays have one shape, with at most six
  dimensions and no empty one.\<close>

definition arrayAnswer :: "(ctree \<Rightarrow> bytes option) \<Rightarrow> ctree \<Rightarrow> bytes option" where
  "arrayAnswer f v =
     (if v = CArray [] then Some (AppendArrayHead [] 0)
      else if Kind (treeNode v) = KindArray \<and> length (dims v) \<le> 6 then nestedAnswer (dims v) f v
      else None)"

text \<open>A composite answers a map of all its columns, null where the object has no such key.\<close>

definition recordAnswer :: "(string \<times> (ctree \<Rightarrow> bytes option)) list \<Rightarrow> ctree \<Rightarrow> bytes option" where
  "recordAnswer cols v =
     (case v of
        CMap ps \<Rightarrow>
          map_option (\<lambda>bs. AppendMapHead [] (length cols) @ concat bs)
            (allSome (map (\<lambda>(name, f).
               map_option ((@) (AppendText [] name)) (case map_of ps name of None \<Rightarrow> Some (AppendNull []) | Some x \<Rightarrow> partAnswer f x)) cols))
      | _ \<Rightarrow> None)"

function (sequential) answerOf :: "pgtype \<Rightarrow> ctree \<Rightarrow> bytes option" where
  "answerOf t v =
     (let u = Underlying t in
      if IsEnum u then (case v of CText s \<Rightarrow> Some (AppendText [] s) | _ \<Rightarrow> None)
      else if scalarEncoders (tOid u) \<noteq> None then scalarAnswer (tOid u) v
      else
        (case (IsArray u, tElement u) of
           (True, Some el) \<Rightarrow> arrayAnswer (answerOf el) v
         | _ \<Rightarrow>
             (case tColumns u of
                Some cols \<Rightarrow> recordAnswer (map (\<lambda>(name, c). (name, answerOf c)) cols) v
              | None \<Rightarrow> None)))"
  by pat_completeness auto
termination
  by (relation "measure (size \<circ> fst)") (auto dest: under_element under_column)

text \<open>The types a value is made of are the catalog's, under OIDs of their own.\<close>

definition customOid :: "int \<Rightarrow> bool" where
  "customOid oid \<longleftrightarrow>
     0 \<le> oid \<and> oid < 2 ^ 32 \<and> oid \<notin> nativeScalars \<and> oid \<noteq> RecordOID \<and> oid \<noteq> oidRecordArray \<and> oid \<noteq> oidVoid"

definition registered :: "resultEncoder \<Rightarrow> pgtype \<Rightarrow> bool" where
  "registered e t \<longleftrightarrow> customOid (tOid t) \<and> reDb e (tOid t) = Some t"

function (sequential) catalogued :: "resultEncoder \<Rightarrow> pgtype \<Rightarrow> bool" where
  "catalogued e t \<longleftrightarrow>
     (IsDomain t \<longrightarrow> registered e t) \<and>
     (let u = Underlying t in
      if IsEnum u then registered e u
      else if scalarEncoders (tOid u) \<noteq> None then True
      else
        registered e u \<and>
        (case (IsArray u, tElement u) of
           (True, Some el) \<Rightarrow> catalogued e el
         | _ \<Rightarrow> (case tColumns u of Some cols \<Rightarrow> length cols < 2 ^ 31 \<and> list_all (\<lambda>(name, c). catalogued e c) cols | None \<Rightarrow> True)))"
  by pat_completeness auto
termination
  by (relation "measure (size \<circ> snd)") (auto dest: under_element under_column)

declare binaryEncoderFor.simps [simp del] answerOf.simps [simp del] catalogued.simps [simp del]

lemma allSome_list_all2: "allSome xs = Some ys \<longleftrightarrow> list_all2 (\<lambda>x y. x = Some y) xs ys"
  by (induction xs arbitrary: ys) (auto simp: list_all2_Cons1 bind_eq_Some_conv)

subsection \<open>What the encoders write\<close>

definition elemBytes :: "field_encoder \<Rightarrow> encodeContext \<Rightarrow> field_node \<Rightarrow> encode_error + bytes" where
  "elemBytes enc ec l =
     (if fKind l = KindNull then Inr (int32Bytes (- 1)) else bindR (enc ec [] l) (\<lambda>b. Inr (int32Bytes (int (length b)) @ b)))"

definition fieldBytes :: "encodeContext \<Rightarrow> field_node \<Rightarrow> compositeField \<Rightarrow> encode_error + bytes" where
  "fieldBytes ec n f =
     bindR (case fGet n (cfName f) of None \<Rightarrow> Inr (int32Bytes (- 1)) | Some v \<Rightarrow> elemBytes (cfEnc f) ec v) (\<lambda>b.
       Inr (int32Bytes (cfOid f) @ b))"

context field_appender
begin

lemma length_prefixed: "appendLengthPrefixed enc ec dst n = bindR (enc ec [] n) (\<lambda>b. Inr (dst @ int32Bytes (int (length b)) @ b))"
  unfolding appendLengthPrefixed_def appends [of ec "dst @ [0, 0, 0, 0]"]
  by (cases "enc ec [] n") (simp_all add: Let_def)

lemma elements_written: "appendElements enc ec dst ls = bindR (traverse (elemBytes enc ec) ls) (\<lambda>ps. Inr (dst @ concat ps))"
proof (induction ls arbitrary: dst)
  case (Cons l ls)
  then show ?case
    by (cases "enc ec [] l"; cases "traverse (elemBytes enc ec) ls") (simp_all add: elemBytes_def [of enc ec l] length_prefixed appendInt32_def)
qed simp

lemma array_appends: "field_appender (arrayEncoder oid enc)"
proof
  fix ec dst n
  show "arrayEncoder oid enc ec dst n = bindR (arrayEncoder oid enc ec [] n) (\<lambda>b. Inr (dst @ b))"
    unfolding arrayEncoder_def elements_written Let_def
    by (cases "arrayShape n") (auto simp: split_def bindR_def split: sum.split)
qed

end

lemma markingLoop_written:
  assumes "\<forall>f \<in> set fs. field_appender (cfEnc f)"
  shows "bindR (markingLoop i ec dst marks n fs) (\<lambda>(d, m). Inr d) = bindR (traverse (fieldBytes ec n) fs) (\<lambda>ps. Inr (dst @ concat ps))"
  using assms
proof (induction fs arbitrary: i dst marks)
  case (Cons f fs)
  then have ih: "bindR (markingLoop i ec dst marks n fs) (\<lambda>(d, m). Inr d) = bindR (traverse (fieldBytes ec n) fs) (\<lambda>ps. Inr (dst @ concat ps))"
    for i dst marks by simp
  have lp: "appendLengthPrefixed (cfEnc f) ec d v = bindR (cfEnc f ec [] v) (\<lambda>b. Inr (d @ int32Bytes (int (length b)) @ b))" for d v
    using Cons.prems by (intro field_appender.length_prefixed) simp
  show ?case
  proof (cases "fGet n (cfName f)")
    case None
    then show ?thesis
      by (cases "traverse (fieldBytes ec n) fs") (simp_all add: ih appendInt32_def fieldBytes_def [of ec n f])
  next
    case (Some v)
    show ?thesis
    proof (cases "fKind v = KindNull")
      case True
      then show ?thesis
        using Some by (cases "traverse (fieldBytes ec n) fs") (simp_all add: ih appendInt32_def fieldBytes_def [of ec n f] elemBytes_def)
    next
      case False
      then show ?thesis
        using Some by (cases "traverse (fieldBytes ec n) fs"; cases "cfEnc f ec [] v")
          (simp_all add: ih lp appendInt32_def fieldBytes_def [of ec n f] elemBytes_def)
    qed
  qed
qed simp

lemma compositeEncode_written:
  assumes "\<forall>f \<in> set fs. field_appender (cfEnc f)" "fKind n = KindObject"
  shows "compositeEncode fs ec dst n = bindR (traverse (fieldBytes ec n) fs) (\<lambda>ps. Inr (dst @ int32Bytes (int (length fs)) @ concat ps))"
  using markingLoop_written [OF assms(1), of 0 ec "dst @ int32Bytes (int (length fs))" "[]" n] assms(2)
  by (simp add: compositeEncode_def encodeMarking_def appendInt32_def)

lemma composite_appends: "\<forall>f \<in> set fs. field_appender (cfEnc f) \<Longrightarrow> field_appender (compositeEncode fs)"
proof
  fix ec dst n
  assume a: "\<forall>f \<in> set fs. field_appender (cfEnc f)"
  show "compositeEncode fs ec dst n = bindR (compositeEncode fs ec [] n) (\<lambda>b. Inr (dst @ b))"
  proof (cases "fKind n = KindObject")
    case True
    then show ?thesis
      by (cases "traverse (fieldBytes ec n) fs") (simp_all add: compositeEncode_written [OF a])
  qed (simp add: compositeEncode_def encodeMarking_def)
qed

definition compositeFields :: "(string \<times> pgtype) list \<Rightarrow> field_encoder list \<Rightarrow> compositeField list" where
  "compositeFields cols encs = map2 (\<lambda>(name, c) enc. \<lparr>cfName = name, cfOid = tOid c, cfEnc = enc\<rparr>) cols encs"

lemma allSome_fields:
  "allSome (map (\<lambda>(name, c). map_option (\<lambda>enc. \<lparr>cfName = name, cfOid = tOid c, cfEnc = enc\<rparr>) (g c)) cols) = Some cfs \<Longrightarrow>
     \<exists>encs. list_all2 (\<lambda>nc enc. g (snd nc) = Some enc) cols encs \<and> cfs = compositeFields cols encs"
proof (induction cols arbitrary: cfs)
  case (Cons nc cols)
  obtain name c where nc: "nc = (name, c)" by (cases nc)
  with Cons.prems obtain z zs where z: "g c = Some z" "cfs = \<lparr>cfName = name, cfOid = tOid c, cfEnc = z\<rparr> # zs"
    "allSome (map (\<lambda>(name, c). map_option (\<lambda>enc. \<lparr>cfName = name, cfOid = tOid c, cfEnc = enc\<rparr>) (g c)) cols) = Some zs"
    by (auto simp: bind_eq_Some_conv)
  from Cons.IH [OF z(3)] obtain encs where "list_all2 (\<lambda>nc enc. g (snd nc) = Some enc) cols encs" "zs = compositeFields cols encs" by blast
  then show ?case using nc z by (intro exI [of _ "z # encs"]) (simp add: compositeFields_def)
qed (simp add: compositeFields_def)

lemma binaryEncoderFor_cases:
  assumes "binaryEncoderFor t = Some enc"
  obtains (scalar) "scalarEncoderFor t = Some enc"
  | (array) el enc' where "scalarEncoderFor t = None" "IsArray (Underlying t)" "tElement (Underlying t) = Some el"
      "binaryEncoderFor el = Some enc'" "enc = arrayEncoder (tOid el) enc'"
  | (composite) cols encs where "scalarEncoderFor t = None" "\<not> IsArray (Underlying t)" "tColumns (Underlying t) = Some cols"
      "list_all2 (\<lambda>nc enc. binaryEncoderFor (snd nc) = Some enc) cols encs" "enc = compositeEncode (compositeFields cols encs)"
proof (cases "scalarEncoderFor t")
  case (Some sc)
  then show thesis using assms that(1) by (simp add: binaryEncoderFor.simps [of t])
next
  case None
  let ?u = "Underlying t"
  show thesis
  proof (cases "IsArray ?u")
    case True
    then obtain el where "tElement ?u = Some el" by (auto simp: IsArray_def)
    then show thesis using True None assms that(2) by (auto simp: binaryEncoderFor.simps [of t])
  next
    case False
    then obtain cols where c: "tColumns ?u = Some cols" using assms None by (auto simp: binaryEncoderFor.simps [of t] split: option.splits)
    then obtain cfs where "allSome (map (\<lambda>(name, c). map_option (\<lambda>enc. \<lparr>cfName = name, cfOid = tOid c, cfEnc = enc\<rparr>) (binaryEncoderFor c)) cols) = Some cfs"
      "enc = compositeEncode cfs"
      using False None assms by (auto simp: binaryEncoderFor.simps [of t])
    then show thesis using that(3) [OF None False c] allSome_fields by blast
  qed
qed

lemma compositeFields_append:
  assumes "list_all2 (\<lambda>nc enc. field_appender enc) cols encs"
  shows "\<forall>f \<in> set (compositeFields cols encs). field_appender (cfEnc f)"
  using assms by (induction rule: list_all2_induct) (auto simp: compositeFields_def)

lemma binaryEncoderFor_append: "binaryEncoderFor t = Some enc \<Longrightarrow> field_appender enc"
proof (induction t arbitrary: enc rule: measure_induct_rule [where f = size])
  case (less t)
  from less.prems show ?case
  proof (cases rule: binaryEncoderFor_cases)
    case scalar
    then show ?thesis by (rule scalarEncoderFor_append)
  next
    case (array el enc')
    then show ?thesis using less.IH [OF under_element(1)] field_appender.array_appends by blast
  next
    case (composite cols encs)
    then have "list_all2 (\<lambda>nc enc. field_appender enc) cols encs"
      using less.IH [OF under_column [OF composite(3)]] by (elim list_all2_mono_set) force
    then show ?thesis using composite(5) composite_appends compositeFields_append by blast
  qed
qed

subsection \<open>What the result encoder reads\<close>

definition answers :: "value_writer \<Rightarrow> int \<Rightarrow> bytes \<Rightarrow> bytes \<Rightarrow> bool" where
  "answers rec oid b out \<longleftrightarrow> (\<forall>dst st. rec (dst, st) oid b None = Inr (dst @ out, st))"

text \<open>A part with its length in front, or a null.\<close>

definition partRead :: "value_writer \<Rightarrow> int \<Rightarrow> bytes \<Rightarrow> bytes \<Rightarrow> bool" where
  "partRead rec oid pb out \<longleftrightarrow>
     pb = int32Bytes (- 1) \<and> out = AppendNull [] \<or>
     (\<exists>b. pb = int32Bytes (int (length b)) @ b \<and> length b < 2 ^ 31 \<and> answers rec oid b out)"

lemma asInt32_small: "n < 2147483648 \<Longrightarrow> asInt32 (int n) = int n" "asInt32 4294967295 = - 1"
  by (simp_all add: asInt32_def)

lemma partRead_length: "partRead rec oid pb out \<Longrightarrow> 4 \<le> length pb"
  by (auto simp: partRead_def)

lemma AppendNull_written: "AppendNull dst = dst @ AppendNull []"
  by (simp add: AppendNull_def)

lemma arrayElement_part:
  assumes "partRead rec oid pb out"
  shows "arrayElement rec oid None ((dst, st), pb @ rest) = Inr ((dst @ out, st), rest)"
  using assms AppendNull_written [of dst]
  by (auto simp: partRead_def arrayElement_def Let_def asInt32_small answers_def)

lemma recordLoop_parts:
  assumes "list_all2 (\<lambda>nc (oid, pb, out). 0 \<le> oid \<and> oid < 2 ^ 32 \<and> partRead rec oid pb out) (drop i cols) xs"
  shows "recordLoop rec False None (Some cols) i (length xs) (dst, st) (concat (map (\<lambda>(oid, pb, out). int32Bytes oid @ pb) xs) @ rest) =
    Inr (dst @ concat (map2 (\<lambda>nc (oid, pb, out). AppendText [] (fst nc) @ out) (drop i cols) xs), st)"
  using assms
proof (induction xs arbitrary: i dst rule: list.induct)
  case (Cons x xs)
  obtain oid pb out where x: "x = (oid, pb, out)" by (cases x)
  from Cons.prems have i: "i < length cols" by (cases "i < length cols") auto
  then have drop: "drop i cols = cols ! i # drop (Suc i) cols" by (rule Cons_nth_drop_Suc [symmetric])
  from Cons.prems have p: "0 \<le> oid" "oid < 2 ^ 32" "partRead rec oid pb out"
    and tail: "list_all2 (\<lambda>nc (oid, pb, out). 0 \<le> oid \<and> oid < 2 ^ 32 \<and> partRead rec oid pb out) (drop (Suc i) cols) xs"
    by (simp_all add: drop x)
  have name: "fieldName None (Some cols) i = fst (cols ! i)" using i by (simp add: fieldName_def)
  define r where "r = concat (map (\<lambda>(oid, pb, out). int32Bytes oid @ pb) xs) @ rest"
  have oid: "uint32At (int32Bytes oid @ pb @ r) 0 = oid" using p by simp
  note ih = Cons.IH [OF tail, folded r_def]
  define d1 where "d1 = AppendText dst (fst (cols ! i))"
  have d1: "d1 = dst @ AppendText [] (fst (cols ! i))" by (simp add: d1_def textItem.app_written [of dst])
  from p(3) consider "pb = int32Bytes (- 1)" "out = AppendNull []"
    | b where "pb = int32Bytes (int (length b)) @ b" "length b < 2 ^ 31" "answers rec oid b out"
    by (auto simp: partRead_def)
  then have "recordLoop rec False None (Some cols) i (Suc (length xs)) (dst, st) (int32Bytes oid @ pb @ r) =
      recordLoop rec False None (Some cols) (Suc i) (length xs) (d1 @ out, st) r"
  proof cases
    case 1
    have "uint32At (int32Bytes oid @ int32Bytes (- 1) @ r) 4 = (- 1) mod 2 ^ 32"
      using uint32At_int32Bytes [of "int32Bytes oid" "- 1" r] by simp
    then show ?thesis using 1 oid AppendNull_written [of d1] by (simp add: name d1_def [symmetric] Let_def asInt32_small)
  next
    case (2 b)
    have "uint32At (int32Bytes oid @ int32Bytes (int (length b)) @ b @ r) 4 = int (length b) mod 2 ^ 32"
      using uint32At_int32Bytes [of "int32Bytes oid" "int (length b)" "b @ r"] by simp
    then show ?thesis
      using 2 oid by (simp add: name d1_def [symmetric] Let_def asInt32_small answers_def fieldPlan_def)
  qed
  then show ?case using ih [of "d1 @ out"] by (simp add: x drop d1 r_def)
qed simp

lemma appendRecord_parts:
  assumes "list_all2 (\<lambda>nc (oid, pb, out). 0 \<le> oid \<and> oid < 2 ^ 32 \<and> partRead rec oid pb out) cols xs" "length cols < 2 ^ 31"
  shows "appendRecord rec (dst, st) (int32Bytes (int (length cols)) @ concat (map (\<lambda>(oid, pb, out). int32Bytes oid @ pb) xs)) None (Some cols) =
    Inr (dst @ AppendMapHead [] (length cols) @ concat (map2 (\<lambda>nc (oid, pb, out). AppendText [] (fst nc) @ out) cols xs), st)"
proof -
  define body where "body = concat (map (\<lambda>(oid, pb, out). int32Bytes oid @ pb) xs)"
  have len: "length cols = length xs" using assms(1) by (rule list_all2_lengthD)
  have "8 * length xs \<le> length body"
    unfolding body_def using assms(1)
  proof (induction rule: list_all2_induct)
    case (Cons nc cols x xs)
    then show ?case using partRead_length by (cases x) fastforce
  qed simp
  then have n: "int (length cols) \<le> int (length body div 8) + 1" using len by linarith
  have head: "recordHead None k (dst, st) = (dst @ AppendMapHead [] k, st)" for k
    using AppendHead_append [of dst "[]"] by (simp add: recordHead_def AppendMapHead_def)
  show ?thesis
    using recordLoop_parts [of rec 0 cols xs "dst @ AppendMapHead [] (length cols)" st "[]"] assms n len
    unfolding body_def [symmetric] appendRecord_def
    by (simp add: Let_def asInt32_small asStructure_def head)
qed

text \<open>The shape of a rectangular array and its elements.\<close>

lemma arrayShape_eq:
  "arrayShape n =
     (if fKind n \<noteq> KindArray then Inl (WrongKind ''array'')
      else if fItems n = [] then Inr ([], [])
      else if fKind (hd (fItems n)) \<noteq> KindArray then Inr ([length (fItems n)], fItems n)
      else
        bindR (shapeLoop 0 [] [] (map arrayShape (fItems n))) (\<lambda>(inner, leaves).
          if leaves = [] then Inr ([], []) else Inr (length (fItems n) # inner, leaves)))"
proof (cases n)
  case (FieldNode k raw js st bo bs ins dys de items fs)
  show ?thesis unfolding FieldNode field_node.sel arrayShape.simps ..
qed

lemma nestedAnswer_ConsE:
  assumes "nestedAnswer (n # ns) f v = Some out"
  obtains ts bs where "v = CArray ts" "length ts = n" "0 < n" "list_all2 (\<lambda>t b. nestedAnswer ns f t = Some b) ts bs"
    "out = AppendArrayHead [] n @ concat bs"
  using assms by (cases v) (auto split: if_splits simp: allSome_list_all2 list_all2_map1)

lemma leavesOf_not_Nil: "nestedAnswer ns f v = Some out \<Longrightarrow> leavesOf ns v \<noteq> []"
proof (induction ns arbitrary: v out)
  case (Cons n ns)
  from Cons.prems obtain ts bs where "v = CArray ts" "length ts = n" "0 < n" "list_all2 (\<lambda>t b. nestedAnswer ns f t = Some b) ts bs"
    by (rule nestedAnswer_ConsE)
  then show ?case using Cons.IH by (cases ts) (auto simp: list_all2_Cons1)
qed simp

lemma leavesOf_length: "nestedAnswer ns f v = Some out \<Longrightarrow> length (leavesOf ns v) = prod_list ns"
proof (induction ns arbitrary: v out)
  case (Cons n ns)
  from Cons.prems obtain ts bs where v: "v = CArray ts" "length ts = n" "list_all2 (\<lambda>t b. nestedAnswer ns f t = Some b) ts bs"
    by (rule nestedAnswer_ConsE)
  from v(3) have "length (concat (map (leavesOf ns) ts)) = length ts * prod_list ns"
    by (induction rule: list_all2_induct) (simp_all add: Cons.IH)
  then show ?case by (simp add: v(1) v(2) [symmetric])
qed simp

lemma nestedAnswer_positive: "nestedAnswer ns f v = Some out \<Longrightarrow> \<forall>n \<in> set ns. 0 < n"
proof (induction ns arbitrary: v out)
  case (Cons n ns)
  from Cons.prems obtain ts bs where v: "v = CArray ts" "length ts = n" "0 < n" "list_all2 (\<lambda>t b. nestedAnswer ns f t = Some b) ts bs"
    by (rule nestedAnswer_ConsE)
  then show ?case using Cons.IH by (cases ts) (auto simp: list_all2_Cons1)
qed simp

lemma shapeLoop_same: "shapeLoop (Suc i) s acc (map (\<lambda>t. Inr (s, L t)) ts) = Inr (s, acc @ concat (map L ts))"
  by (induction ts arbitrary: i acc) simp_all

lemma arrayShape_nested:
  "nestedAnswer ns f v = Some out \<Longrightarrow> ns \<noteq> [] \<Longrightarrow> arrayShape (treeField v) = Inr (ns, map treeField (leavesOf ns v))"
proof (induction ns arbitrary: v out)
  case (Cons n ns)
  from Cons.prems obtain ts bs where v: "v = CArray ts" "length ts = n" "0 < n" "list_all2 (\<lambda>t b. nestedAnswer ns f t = Some b) ts bs"
    by (elim nestedAnswer_ConsE)
  then obtain t ts' where ts: "ts = t # ts'" by (cases ts) auto
  obtain b where t: "nestedAnswer ns f t = Some b" using v(4) by (auto simp: ts list_all2_Cons1)
  have sel: "fKind (treeField v) = KindArray" "fItems (treeField v) = map treeField ts" by (simp_all add: v(1))
  show ?case
  proof (cases ns)
    case Nil
    then have "Kind (treeNode t) \<noteq> KindArray" using t by (auto split: if_splits)
    moreover have "concat (map (leavesOf []) ts) = ts" by (induction ts) simp_all
    ultimately show ?thesis unfolding arrayShape_eq [of "treeField v"] sel using v Nil by (simp add: ts)
  next
    case ns: (Cons m ms)
    have "Kind (treeNode t) = KindArray" using t by (auto simp: ns elim!: nestedAnswer_ConsE)
    moreover have m: "map arrayShape (map treeField ts) = map (\<lambda>t. Inr (ns, map treeField (leavesOf ns t))) ts"
      using v(4) by (induction rule: list_all2_induct) (simp_all add: Cons.IH ns)
    moreover have "leavesOf ns t \<noteq> []" using t by (rule leavesOf_not_Nil)
    ultimately show ?thesis
      unfolding arrayShape_eq [of "treeField v"] sel m
      using v shapeLoop_same [of 0 ns "map treeField (leavesOf ns t)" "\<lambda>t. map treeField (leavesOf ns t)" ts']
      by (simp add: ts map_concat comp_def ns split_def)
  qed
qed simp

lemma arrayWalk_nested:
  "nestedAnswer ns f v = Some out \<Longrightarrow> list_all2 (\<lambda>x eb. \<forall>o'. partAnswer f x = Some o' \<longrightarrow> partRead rec oid eb o') (leavesOf ns v) ebs \<Longrightarrow>
     arrayWalk rec oid None ns ((dst, st), concat ebs @ rest) = Inr ((dst @ out, st), rest)"
proof (induction ns arbitrary: v out ebs dst rest)
  case Nil
  then obtain eb where "ebs = [eb]" "partRead rec oid eb out" by (auto simp: list_all2_Cons1 split: if_splits)
  then show ?case using arrayElement_part by simp
next
  case (Cons n ns)
  from Cons.prems(1) obtain ts bs where v: "v = CArray ts" "length ts = n" "list_all2 (\<lambda>t b. nestedAnswer ns f t = Some b) ts bs"
    "out = AppendArrayHead [] n @ concat bs" by (rule nestedAnswer_ConsE)
  have "timesR (length ts) (arrayWalk rec oid None ns) ((d, st), concat es @ rest) = Inr ((d @ concat bs, st), rest)"
    if "list_all2 (\<lambda>x eb. \<forall>o'. partAnswer f x = Some o' \<longrightarrow> partRead rec oid eb o') (concat (map (leavesOf ns) ts)) es" for d es
    using v(3) that
  proof (induction arbitrary: d es rule: list_all2_induct)
    case c: (Cons t ts b bs)
    from c(4) obtain e1 e2 where es: "es = e1 @ e2"
      "list_all2 (\<lambda>x eb. \<forall>o'. partAnswer f x = Some o' \<longrightarrow> partRead rec oid eb o') (leavesOf ns t) e1"
      "list_all2 (\<lambda>x eb. \<forall>o'. partAnswer f x = Some o' \<longrightarrow> partRead rec oid eb o') (concat (map (leavesOf ns) ts)) e2"
      by (auto simp: list_all2_append1)
    show ?case using Cons.IH [OF c(1) es(2), of d "concat e2 @ rest"] c(3) [OF es(3), of "d @ b"] by (simp add: es(1))
  qed simp
  from this [of ebs "AppendArrayHead dst n"] Cons.prems(2) show ?case
    using AppendHead_append [of dst "[]"] by (simp add: v(1) v(2) v(4) AppendArrayHead_def)
qed

lemma arrayDims_read:
  assumes "\<forall>n \<in> set ns. 0 < n" "0 < tot" "tot * prod_list ns < 2 ^ 31"
  shows "arrayDims (length ns) (int tot) (concat (map (\<lambda>s. int32Bytes (int s) @ int32Bytes 1) ns) @ rest) = Inr (ns, int (tot * prod_list ns))"
  using assms
proof (induction ns arbitrary: tot)
  case (Cons n ns)
  have n: "0 < n" using Cons.prems by simp
  have "0 < prod_list ns" using Cons.prems(1) by (induction ns) auto
  then have tn: "tot * n \<le> tot * n * prod_list ns" by simp
  have "tot * n * prod_list ns < 2 ^ 31" using Cons.prems(3) by (simp add: mult.assoc)
  with tn have small: "tot * n < 2 ^ 31" by (rule le_less_trans)
  have "n \<le> tot * n" using Cons.prems(2) by simp
  then have "n < 2 ^ 31" using small by (rule le_less_trans)
  then have n31: "n < 2147483648" by simp
  have "tot \<le> 0x7FFFFFFF div n" using small n by (simp add: less_eq_div_iff_mult_less_eq)
  moreover have "0x7FFFFFFF div int n = int (0x7FFFFFFF div n)" by (simp add: zdiv_int)
  ultimately have "\<not> int tot > 0x7FFFFFFF div int n" by linarith
  then show ?case
    using Cons.IH [of "tot * n"] Cons.prems n n31 by (simp add: Let_def asInt32_small mult.assoc)
qed simp

lemma partsRead_length: "list_all2 (\<lambda>x eb. partRead rec oid eb (g x)) xs ebs \<Longrightarrow> 4 * length ebs \<le> length (concat ebs)"
  by (induction rule: list_all2_induct) (auto dest!: partRead_length)

lemma appendArray_nested:
  assumes "nestedAnswer ns f v = Some out" "ns \<noteq> []" "length ns \<le> 6" "0 \<le> oid" "oid < 2 ^ 32"
    "list_all2 (\<lambda>x eb. \<forall>o'. partAnswer f x = Some o' \<longrightarrow> partRead rec oid eb o') (leavesOf ns v) ebs"
    "4 * length ebs \<le> length (concat ebs)" "length (concat ebs) < 2 ^ 31"
  shows "appendArray rec (dst, st) (arrayHeader ns hasNull oid @ concat ebs) None = Inr (dst @ out, st)"
proof -
  define nb where "nb = int32Bytes (if hasNull then 1 else 0)"
  define db where "db = concat (map (\<lambda>s. int32Bytes (int s) @ int32Bytes 1) ns)"
  have d: "arrayHeader ns hasNull oid @ concat ebs = int32Bytes (int (length ns)) @ nb @ int32Bytes oid @ db @ concat ebs"
    by (simp add: arrayHeader_def nb_def db_def)
  have dl: "length db = 8 * length ns" by (simp add: db_def length_concat comp_def sum_list_triv)
  have leaves: "length ebs = prod_list ns" using leavesOf_length [OF assms(1)] list_all2_lengthD [OF assms(6)] by simp
  have elem: "uint32At (int32Bytes (int (length ns)) @ nb @ int32Bytes oid @ db @ concat ebs) 8 = oid"
    using uint32At_int32Bytes [of "int32Bytes (int (length ns)) @ nb" oid "db @ concat ebs"] assms(4,5) by (simp add: nb_def)
  have "arrayDims (length ns) 1 (db @ concat ebs) = Inr (ns, int (prod_list ns))"
    using arrayDims_read [OF nestedAnswer_positive [OF assms(1)], of 1 "concat ebs"] assms(7,8) leaves by (simp add: db_def)
  then show ?thesis
    unfolding d appendArray_def using elem assms(2,3,7) dl leaves arrayWalk_nested [OF assms(1,6), of dst st "[]"]
    by (simp add: Let_def asInt32_small nb_def)
qed

subsection \<open>Values of any type\<close>

text \<open>An encoder and the reader of a type agree on the values up to a length.\<close>

definition agrees :: "value_writer \<Rightarrow> encodeContext \<Rightarrow> nat \<Rightarrow> field_encoder \<Rightarrow> pgtype \<Rightarrow> bool" where
  "agrees rec ec m enc t \<longleftrightarrow>
     0 \<le> tOid t \<and> tOid t < 2 ^ 32 \<and>
     (\<forall>x b out. enc ec [] (treeField x) = Inr b \<longrightarrow> length b \<le> m \<longrightarrow> answerOf t x = Some out \<longrightarrow> answers rec (tOid t) b out)"

lemma kind_null: "Kind (treeNode x) = KindNull \<longleftrightarrow> x = CNull"
  by (cases x) simp_all

lemma part_agrees:
  assumes "agrees rec ec m enc t" "elemBytes enc ec (treeField x) = Inr pb" "partAnswer (answerOf t) x = Some out" "length pb \<le> m + 4" "m < 2 ^ 31"
  shows "partRead rec (tOid t) pb out"
proof (cases "x = CNull")
  case True
  then show ?thesis using assms by (simp add: elemBytes_def partAnswer_def partRead_def)
next
  case False
  then obtain b where "enc ec [] (treeField x) = Inr b" "pb = int32Bytes (int (length b)) @ b"
    using assms(2) by (auto simp: elemBytes_def kind_null bindR_eq_Inr_iff)
  then show ?thesis using assms False by (auto simp: agrees_def partAnswer_def partRead_def)
qed

lemma fGet_map: "fGet (treeField (CMap ps)) name = map_option treeField (map_of ps name)"
  by (simp add: fGet_def map_of_map)

definition columnAnswer :: "(string \<times> ctree) list \<Rightarrow> string \<times> pgtype \<Rightarrow> bytes option" where
  "columnAnswer ps nc = (case map_of ps (fst nc) of None \<Rightarrow> Some (AppendNull []) | Some x \<Rightarrow> partAnswer (answerOf (snd nc)) x)"

lemma record_parts:
  assumes "list_all2 (\<lambda>nc enc. agrees rec ec m enc (snd nc)) cols encs"
    "traverse (fieldBytes ec (treeField (CMap ps))) (compositeFields cols encs) = Inr fbs"
    "\<forall>fb \<in> set fbs. length fb \<le> m + 8" "m < 2 ^ 31"
    "list_all2 (\<lambda>nc part. \<exists>o'. columnAnswer ps nc = Some o' \<and> AppendText [] (fst nc) @ o' = part) cols parts"
  shows "\<exists>xs. list_all2 (\<lambda>nc (oid, pb, out). 0 \<le> oid \<and> oid < 2 ^ 32 \<and> partRead rec oid pb out) cols xs \<and>
    map (\<lambda>(oid, pb, out). int32Bytes oid @ pb) xs = fbs \<and> map2 (\<lambda>nc (oid, pb, out). AppendText [] (fst nc) @ out) cols xs = parts"
  using assms
proof (induction arbitrary: fbs parts rule: list_all2_induct)
  case (Cons nc cols enc encs)
  obtain name t where nc: "nc = (name, t)" by (cases nc)
  let ?f = "\<lparr>cfName = name, cfOid = tOid t, cfEnc = enc\<rparr>"
  have cf: "compositeFields (nc # cols) (enc # encs) = ?f # compositeFields cols encs" by (simp add: compositeFields_def nc)
  from Cons.prems(1) obtain fb fbs' where fbs: "fbs = fb # fbs'" "fieldBytes ec (treeField (CMap ps)) ?f = Inr fb"
    "traverse (fieldBytes ec (treeField (CMap ps))) (compositeFields cols encs) = Inr fbs'"
    unfolding cf by (auto simp: bindR_eq_Inr_iff simp del: treeField.simps)
  from Cons.prems(4) obtain o' parts' where parts: "columnAnswer ps nc = Some o'" "parts = (AppendText [] name @ o') # parts'"
    "list_all2 (\<lambda>nc part. \<exists>o'. columnAnswer ps nc = Some o' \<and> AppendText [] (fst nc) @ o' = part) cols parts'"
    by (auto simp: list_all2_Cons1 nc)
  from fbs(2) obtain pb where pb: "fb = int32Bytes (tOid t) @ pb"
    "(case map_of ps name of None \<Rightarrow> Inr (int32Bytes (- 1)) | Some x \<Rightarrow> elemBytes enc ec (treeField x)) = Inr pb"
    by (cases "map_of ps name") (auto simp: fieldBytes_def fGet_map bindR_eq_Inr_iff simp del: treeField.simps)
  have "length pb \<le> m + 4" using Cons.prems(2) by (simp add: fbs(1) pb(1))
  then have part: "partRead rec (tOid t) pb o'"
    using pb(2) parts(1) part_agrees [of rec ec m enc t _ pb o'] Cons.hyps(1) Cons.prems(3)
    by (auto simp: columnAnswer_def nc partRead_def split: option.splits)
  have oid: "0 \<le> tOid t" "tOid t < 2 ^ 32" using Cons.hyps(1) by (simp_all add: agrees_def nc)
  from Cons.IH [OF fbs(3) _ Cons.prems(3) parts(3)] Cons.prems(2) obtain xs where
    "list_all2 (\<lambda>nc (oid, pb, out). 0 \<le> oid \<and> oid < 2 ^ 32 \<and> partRead rec oid pb out) cols xs"
    "map (\<lambda>(oid, pb, out). int32Bytes oid @ pb) xs = fbs'" "map2 (\<lambda>nc (oid, pb, out). AppendText [] (fst nc) @ out) cols xs = parts'"
    by (auto simp: fbs(1))
  then show ?case using part oid pb(1) by (intro exI [of _ "(tOid t, pb, o') # xs"]) (simp add: fbs(1) parts(2) nc)
qed (simp add: compositeFields_def)

lemma list_all2_mono_set_right:
  "list_all2 P xs ys \<Longrightarrow> (\<And>x y. y \<in> set ys \<Longrightarrow> P x y \<Longrightarrow> Q x y) \<Longrightarrow> list_all2 Q xs ys"
  by (auto simp: list_all2_conv_all_nth)

lemma length_concat_member: "x \<in> set xs \<Longrightarrow> length x \<le> length (concat xs)"
  by (induction xs) auto

lemma scalarEncoders_range: "scalarEncoders oid = Some enc \<Longrightarrow> 0 \<le> oid \<and> oid < 2 ^ 32"
  unfolding scalarEncoders_def oid_defs by (auto split: if_splits)

lemma catalogued_oid: "catalogued e t \<Longrightarrow> 0 \<le> tOid t \<and> tOid t < 2 ^ 32"
proof (cases "IsDomain t")
  case False
  assume c: "catalogued e t"
  have "Underlying t = t" using False by (cases t rule: Underlying.cases) (simp_all add: IsDomain_def)
  then show ?thesis
    using c scalarEncoders_range [of "tOid t"]
    by (auto simp: catalogued.simps [of e t] registered_def customOid_def Let_def split: if_splits)
qed (simp add: catalogued.simps [of e t] registered_def customOid_def)

lemma customOid_scalar: "customOid oid \<Longrightarrow> appendScalar e dst oid d = None"
  unfolding customOid_def nativeScalars_def appendScalar_def by simp

lemma Underlying_self: "\<not> IsDomain t \<Longrightarrow> Underlying t = t"
  by (cases t rule: Underlying.cases) (simp_all add: IsDomain_def)

lemma Underlying_smaller: "IsDomain t \<Longrightarrow> size (Underlying t) < size t"
proof (cases t rule: Underlying.cases)
  case (1 oid labels elem link b cols)
  then show ?thesis using size_Underlying [of b] by simp
qed (simp_all add: IsDomain_def)

lemma Underlying_same:
  "binaryEncoderFor (Underlying t) = binaryEncoderFor t" "answerOf (Underlying t) v = answerOf t v" "catalogued e t \<Longrightarrow> catalogued e (Underlying t)"
proof -
  show "binaryEncoderFor (Underlying t) = binaryEncoderFor t"
    unfolding binaryEncoderFor.simps [of t] binaryEncoderFor.simps [of "Underlying t"] scalarEncoderFor_def Underlying_idem ..
  show "answerOf (Underlying t) v = answerOf t v"
    unfolding answerOf.simps [of t] answerOf.simps [of "Underlying t"] Underlying_idem ..
  show "catalogued e t \<Longrightarrow> catalogued e (Underlying t)"
    unfolding catalogued.simps [of e t] catalogued.simps [of e "Underlying t"] Underlying_idem using Underlying_not_domain [of t] by blast
qed

lemma array_back:
  assumes "agrees rec ec m enc el" "arrayEncoder (tOid el) enc ec [] (treeField v) = Inr bs" "field_appender enc"
    "arrayAnswer (answerOf el) v = Some out" "length bs \<le> m + 12" "m < 2 ^ 31"
  shows "appendArray rec (dst, st) bs None = Inr (dst @ out, st)"
proof (cases "v = CArray []")
  case True
  then have "bs = arrayHeader [] False (tOid el)" "out = AppendArrayHead [] 0"
    using assms(2,4) by (simp_all add: arrayEncoder_def fieldOf_def arrayAnswer_def)
  then show ?thesis
    using AppendHead_append [of dst "[]"] by (simp add: appendArray_def arrayHeader_def asInt32_def AppendArrayHead_def)
next
  case False
  define ns where "ns = dims v"
  have a: "Kind (treeNode v) = KindArray" "length ns \<le> 6" "nestedAnswer ns (answerOf el) v = Some out"
    using assms(4) False by (auto simp: arrayAnswer_def ns_def split: if_splits)
  have ne: "ns \<noteq> []" using a(1) False by (cases v rule: dims.cases) (simp_all add: ns_def)
  define hn where "hn = list_ex (\<lambda>l. fKind l = KindNull) (map treeField (leavesOf ns v))"
  from assms(2) obtain ebs where ebs: "list_all2 (\<lambda>l eb. elemBytes enc ec l = Inr eb) (map treeField (leavesOf ns v)) ebs"
    "bs = arrayHeader ns hn (tOid el) @ concat ebs"
    unfolding arrayEncoder_def arrayShape_nested [OF a(3) ne] field_appender.elements_written [OF assms(3)]
    by (auto simp: Let_def bindR_eq_Inr_iff traverse_eq_Inr_iff hn_def)
  have short: "length (concat ebs) \<le> m" using assms(5) by (simp add: ebs(2) arrayHeader_def)
  have parts: "list_all2 (\<lambda>x eb. \<forall>o'. partAnswer (answerOf el) x = Some o' \<longrightarrow> partRead rec (tOid el) eb o') (leavesOf ns v) ebs"
    using ebs(1) unfolding list_all2_map1
  proof (rule list_all2_mono_set_right)
    fix x eb
    assume "eb \<in> set ebs" "elemBytes enc ec (treeField x) = Inr eb"
    then show "\<forall>o'. partAnswer (answerOf el) x = Some o' \<longrightarrow> partRead rec (tOid el) eb o'"
      using part_agrees [OF assms(1)] assms(6) short length_concat_member [of eb ebs] by auto
  qed
  have "4 * length ebs \<le> length (concat ebs)"
    using ebs(1) by (induction rule: list_all2_induct) (auto simp: elemBytes_def bindR_eq_Inr_iff split: if_splits)
  then show ?thesis
    using appendArray_nested [OF a(3) ne a(2) _ _ parts] assms(1,6) short by (simp add: ebs(2) agrees_def)
qed

lemma recordAnswer_columns:
  "recordAnswer (map (\<lambda>(name, c). (name, answerOf c)) cols) (CMap ps) =
     map_option (\<lambda>bs. AppendMapHead [] (length cols) @ concat bs)
       (allSome (map (\<lambda>nc. map_option ((@) (AppendText [] (fst nc))) (columnAnswer ps nc)) cols))"
  by (simp add: recordAnswer_def columnAnswer_def comp_def split_def cong: option.case_cong)

lemma composite_back:
  assumes "list_all2 (\<lambda>nc enc. agrees rec ec m enc (snd nc)) cols encs" "list_all2 (\<lambda>nc enc. field_appender enc) cols encs"
    "compositeEncode (compositeFields cols encs) ec [] (treeField v) = Inr bs"
    "recordAnswer (map (\<lambda>(name, c). (name, answerOf c)) cols) v = Some out" "length bs \<le> m + 12" "m < 2 ^ 31" "length cols < 2 ^ 31"
  shows "appendRecord rec (dst, st) bs None (Some cols) = Inr (dst @ out, st)"
proof -
  from assms(4) obtain ps where v: "v = CMap ps" by (cases v) (auto simp: recordAnswer_def)
  from assms(4) obtain parts where parts: "out = AppendMapHead [] (length cols) @ concat parts"
    "list_all2 (\<lambda>nc part. \<exists>o'. columnAnswer ps nc = Some o' \<and> AppendText [] (fst nc) @ o' = part) cols parts"
    unfolding v recordAnswer_columns by (auto simp: allSome_list_all2 list_all2_map1 elim!: list_all2_mono)
  have fl: "length (compositeFields cols encs) = length cols" using list_all2_lengthD [OF assms(1)] by (simp add: compositeFields_def)
  have obj: "fKind (treeField v) = KindObject" by (simp add: v)
  from assms(3) obtain fbs where fbs: "traverse (fieldBytes ec (treeField (CMap ps))) (compositeFields cols encs) = Inr fbs"
    "bs = int32Bytes (int (length cols)) @ concat fbs"
    unfolding compositeEncode_written [OF compositeFields_append [OF assms(2)] obj] by (auto simp: bindR_eq_Inr_iff v fl simp del: treeField.simps)
  have "\<forall>fb \<in> set fbs. length fb \<le> m + 8" using assms(5) length_concat_member [of _ fbs] by (fastforce simp: fbs(2))
  from record_parts [OF assms(1) fbs(1) this assms(6) parts(2)] obtain xs where
    xs: "list_all2 (\<lambda>nc (oid, pb, out). 0 \<le> oid \<and> oid < 2 ^ 32 \<and> partRead rec oid pb out) cols xs"
    "map (\<lambda>(oid, pb, out). int32Bytes oid @ pb) xs = fbs" "map2 (\<lambda>nc (oid, pb, out). AppendText [] (fst nc) @ out) cols xs = parts" by blast
  show ?thesis using appendRecord_parts [OF xs(1) assms(7), of dst st] unfolding xs(2,3) by (simp add: fbs(2) parts(1))
qed

lemma appendValue_registered:
  assumes "registered e t"
  shows "appendValue (Suc f) e w (tOid t) d None =
    (if IsDomain t then appendValue f e w (tOid (Underlying t)) d None
     else if IsEnum t then Inr (AppendTextBytes (fst w) d, snd w)
     else if IsArray t then appendArray (appendValue f e) w d None
     else if IsComposite t then appendRecord (appendValue f e) w d None (tColumns t)
     else Inl UnknownType)"
  using assms customOid_scalar [of "tOid t" e "fst w" d]
  by (simp add: registered_def appendValueStep_def) (simp add: customOid_def)

lemma value_back:
  "catalogued e t \<Longrightarrow> binaryEncoderFor t = Some enc \<Longrightarrow> enc ec [] (treeField v) = Inr bs \<Longrightarrow> answerOf t v = Some out \<Longrightarrow>
     length bs < 2 ^ 31 \<Longrightarrow> 2 * length bs + 2 \<le> fuel \<or> \<not> IsDomain t \<and> 2 * length bs + 1 \<le> fuel \<Longrightarrow>
     answers (appendValue fuel e) (tOid t) bs out"
proof (induction t arbitrary: enc v bs out fuel rule: measure_induct_rule [where f = size])
  case (less t)
  from less.prems(6) obtain f where fuel: "fuel = Suc f" by (cases fuel) auto
  show ?case
  proof (cases "IsDomain t")
    case True
    then have "registered e t" using less.prems(1) by (simp add: catalogued.simps [of e t])
    moreover have "answers (appendValue f e) (tOid (Underlying t)) bs out"
      using less.IH [OF Underlying_smaller [OF True]] less.prems Underlying_same(1) [of t] Underlying_same(2) [of t v] Underlying_same(3) [of e t] Underlying_not_domain [of t] fuel True by auto
    ultimately show ?thesis using True by (simp add: answers_def fuel appendValue_registered del: appendValue.simps)
  next
    case False
    then have u: "Underlying t = t" by (rule Underlying_self)
    have ih: "agrees (appendValue f e) ec (length bs - 4) enc' t'"
      if "size t' < size t" "catalogued e t'" "binaryEncoderFor t' = Some enc'" "4 \<le> length bs" for t' enc'
    proof -
      have "answers (appendValue f e) (tOid t') b o'" if "enc' ec [] (treeField x) = Inr b" "length b \<le> length bs - 4" "answerOf t' x = Some o'" for x b o'
      proof (rule less.IH [OF \<open>size t' < size t\<close> \<open>catalogued e t'\<close> \<open>binaryEncoderFor t' = Some enc'\<close> that(1,3)])
        show "length b < 2 ^ 31" using that(2) less.prems(5) by linarith
        show "2 * length b + 2 \<le> f \<or> \<not> IsDomain t' \<and> 2 * length b + 1 \<le> f"
          using that(2) less.prems(6) fuel \<open>4 \<le> length bs\<close> by linarith
      qed
      then show ?thesis using catalogued_oid [OF that(2)] by (auto simp: agrees_def)
    qed
    from less.prems(2) show ?thesis
    proof (cases rule: binaryEncoderFor_cases)
      case scalar
      show ?thesis
      proof (cases "IsEnum t")
        case True
        then obtain s where s: "v = CText s" "out = AppendText [] s"
          using less.prems(4) by (auto simp: answerOf.simps [of t v] u split: ctree.splits)
        have "enc = encodeTextField" using scalar True by (simp add: scalarEncoderFor_def u)
        then have "bs = map byteOf s" using text_back less.prems(3) s(1) by blast
        moreover have w: "AppendTextBytes dst (map byteOf s) = dst @ AppendText [] s" for dst
          by (subst textBytesItem.app_written) (simp add: AppendText_bytes)
        moreover have "registered e t" using less.prems(1) True by (simp add: catalogued.simps [of e t] u)
        ultimately show ?thesis
          using True False w by (simp add: answers_def fuel appendValue_registered s(2) del: appendValue.simps)
      next
        case ne: False
        then have sc: "scalarEncoders (tOid t) = Some enc" using scalar by (simp add: scalarEncoderFor_def u)
        then have "scalarAnswer (tOid t) v = Some out" using less.prems(4) ne by (simp add: answerOf.simps [of t v] u)
        then have "appendScalar e dst (tOid t) bs = Some (Inr (dst @ out))" for dst by (rule scalar_back [OF sc less.prems(3)])
        then show ?thesis by (simp add: answers_def fuel appendValueStep_def)
      qed
    next
      case (array el enc')
      have no: "\<not> IsEnum t" "scalarEncoders (tOid t) = None" using array(1) by (auto simp: scalarEncoderFor_def u split: if_splits)
      have c: "registered e t" "catalogued e el" using less.prems(1) no array(2,3) by (simp_all add: catalogued.simps [of e t] u)
      have "arrayAnswer (answerOf el) v = Some out" using less.prems(4) no array(2,3) by (simp add: answerOf.simps [of t v] u)
      moreover have "4 \<le> length bs"
        using less.prems(3) unfolding array(5) field_appender.elements_written [OF binaryEncoderFor_append [OF array(4)]] arrayEncoder_def
        by (auto simp: bindR_eq_Inr_iff arrayHeader_def Let_def)
      ultimately have "appendArray (appendValue f e) (dst, st) bs None = Inr (dst @ out, st)" for dst st
        using array_back [OF ih [OF under_element(1) [OF array(3)] c(2) array(4)] _ binaryEncoderFor_append [OF array(4)]] less.prems(3,5) array(5)
        by auto
      then show ?thesis using c(1) False no(1) array(2) by (simp add: answers_def fuel appendValue_registered u del: appendValue.simps)
    next
      case (composite cols encs)
      have no: "\<not> IsEnum t" "scalarEncoders (tOid t) = None" using composite(1) by (auto simp: scalarEncoderFor_def u split: if_splits)
      have c: "registered e t" "length cols < 2 ^ 31" "list_all (\<lambda>(name, c). catalogued e c) cols"
        using less.prems(1) no composite(2,3) by (simp_all add: catalogued.simps [of e t] u)
      have r: "recordAnswer (map (\<lambda>(name, c). (name, answerOf c)) cols) v = Some out"
        using less.prems(4) no composite(2,3) by (simp add: answerOf.simps [of t v] u)
      have app: "list_all2 (\<lambda>nc enc. field_appender enc) cols encs"
        using composite(4) binaryEncoderFor_append by (auto elim: list_all2_mono)
      have "fKind (treeField v) = KindObject" using r by (cases v) (simp_all add: recordAnswer_def)
      then have four: "4 \<le> length bs"
        using less.prems(3) unfolding composite(5) by (auto simp: compositeEncode_written [OF compositeFields_append [OF app]] bindR_eq_Inr_iff)
      have "list_all2 (\<lambda>nc enc. agrees (appendValue f e) ec (length bs - 4) enc (snd nc)) cols encs"
        using composite(4) by (rule list_all2_mono_set) (use ih [OF under_column [OF composite(3)] _ _ four] c(3) in \<open>auto simp: list_all_iff\<close>)
      then have "appendRecord (appendValue f e) (dst, st) bs None (Some cols) = Inr (dst @ out, st)" for dst st
        using composite_back [OF _ app _ r _ _ c(2)] less.prems(3,5) composite(5) by auto
      then show ?thesis
        using c(1) False no(1) composite(2,3) by (simp add: answers_def fuel appendValue_registered u IsComposite_def del: appendValue.simps)
    qed
  qed
qed

subsection \<open>Properties\<close>


definition sampleInt4 :: pgtype where "sampleInt4 = PgType 23 [] None False None None"

definition sampleArray :: pgtype where "sampleArray = PgType 1007 [] (Some sampleInt4) True None None"

definition sampleRow :: pgtype where
  "sampleRow = PgType 90000 [] None False None (Some [(''n'', sampleInt4), (''xs'', sampleArray)])"

definition sampleEncoder :: resultEncoder where
  "sampleEncoder = \<lparr>reDb = [1007 \<mapsto> sampleArray, 90000 \<mapsto> sampleRow], reLocation = None\<rparr>"

lemma sample_types:
  "Underlying sampleInt4 = sampleInt4" "Underlying sampleArray = sampleArray" "Underlying sampleRow = sampleRow"
  "scalarEncoderFor sampleInt4 = Some (encodeIntField 32)" "scalarEncoderFor sampleArray = None" "scalarEncoderFor sampleRow = None"
  by (simp_all add: sampleInt4_def sampleArray_def sampleRow_def scalarEncoderFor_def IsEnum_def scalarEncoders_def oid_defs)

lemma sample_encoders:
  "binaryEncoderFor sampleInt4 = Some (encodeIntField 32)"
  "binaryEncoderFor sampleArray = Some (arrayEncoder 23 (encodeIntField 32))"
  "binaryEncoderFor sampleRow = Some (compositeEncode [\<lparr>cfName = ''n'', cfOid = 23, cfEnc = encodeIntField 32\<rparr>,
     \<lparr>cfName = ''xs'', cfOid = 1007, cfEnc = arrayEncoder 23 (encodeIntField 32)\<rparr>])"
proof -
  show i: "binaryEncoderFor sampleInt4 = Some (encodeIntField 32)" by (simp add: binaryEncoderFor.simps [of sampleInt4] sample_types)
  show a: "binaryEncoderFor sampleArray = Some (arrayEncoder 23 (encodeIntField 32))"
    using i by (simp add: binaryEncoderFor.simps [of sampleArray] sample_types) (simp add: sampleArray_def IsArray_def sampleInt4_def)
  show "binaryEncoderFor sampleRow = Some (compositeEncode [\<lparr>cfName = ''n'', cfOid = 23, cfEnc = encodeIntField 32\<rparr>,
     \<lparr>cfName = ''xs'', cfOid = 1007, cfEnc = arrayEncoder 23 (encodeIntField 32)\<rparr>])"
    using i a by (simp add: binaryEncoderFor.simps [of sampleRow] sample_types)
      (simp add: sampleRow_def IsArray_def, simp add: sampleArray_def sampleInt4_def)
qed


end
