(* ===== verification/Pg_Literals.thy ===== *)
theory Pg_Literals
  imports Pg_Complex
begin

text \<open>
  The literals of text mode: what PostgreSQL's array and record input functions read from the texts that
  \<open>appendTextArray\<close> and \<open>textCompositeEncoder\<close> write.  The readers follow the documented syntax: an element is a
  nested literal, a quoted string in which a backslash keeps the next character, or a bare word up to a delimiter, where
  the word \<open>NULL\<close> in any case, and an empty field of a record, is a null.
\<close>

datatype lit = LNull | LText string | LArray "lit list"

fun literal :: "lit \<Rightarrow> string" where
  "literal LNull = ''NULL''"
| "literal (LText s) = quotedText True s"
| "literal (LArray ls) = ''{'' @ join_with CHR '','' (map literal ls) @ ''}''"

subsection \<open>Reading\<close>

fun quotedBody :: "string \<Rightarrow> (string \<times> string) option" where
  "quotedBody [] = None"
| "quotedBody (c # cs) =
     (if c = CHR ''\"'' then Some ([], cs)
      else if c = CHR 0x5C then
        (case cs of [] \<Rightarrow> None | d # ds \<Rightarrow> map_option (\<lambda>(s, r). (d # s, r)) (quotedBody ds))
      else map_option (\<lambda>(s, r). (c # s, r)) (quotedBody cs))"

definition delimiter :: "bool \<Rightarrow> char \<Rightarrow> bool" where
  "delimiter inArray c \<longleftrightarrow> c = CHR '','' \<or> (if inArray then c = CHR ''}'' else c = CHR '')'')"

text \<open>A text that is not an array: quoted or bare; the flag tells them apart.\<close>

definition readWord :: "bool \<Rightarrow> string \<Rightarrow> ((string \<times> bool) \<times> string) option" where
  "readWord inArray s =
     (if s \<noteq> [] \<and> hd s = CHR ''\"'' then map_option (\<lambda>(w, r). ((w, True), r)) (quotedBody (tl s))
      else Some ((takeWhile (\<lambda>c. \<not> delimiter inArray c) s, False), dropWhile (\<lambda>c. \<not> delimiter inArray c) s))"

fun readLit :: "nat \<Rightarrow> string \<Rightarrow> (lit \<times> string) option"
and readLits :: "nat \<Rightarrow> string \<Rightarrow> (lit list \<times> string) option" where
  "readLit 0 s = None"
| "readLit (Suc f) s =
     (if s \<noteq> [] \<and> hd s = CHR ''{'' then
        (if tl s \<noteq> [] \<and> hd (tl s) = CHR ''}'' then Some (LArray [], tl (tl s))
         else map_option (\<lambda>(ls, r). (LArray ls, r)) (readLits f (tl s)))
      else
        (case readWord True s of
           None \<Rightarrow> None
         | Some ((w, quoted), r) \<Rightarrow> Some (if \<not> quoted \<and> isNullWord w then LNull else LText w, r)))"
| "readLits 0 s = None"
| "readLits (Suc f) s =
     (case readLit f s of
        None \<Rightarrow> None
      | Some (l, r) \<Rightarrow>
          if r \<noteq> [] \<and> hd r = CHR '','' then map_option (\<lambda>(ls, r'). (l # ls, r')) (readLits f (tl r))
          else if r \<noteq> [] \<and> hd r = CHR ''}'' then Some ([l], tl r)
          else None)"

subsection \<open>Words\<close>

lemma quotedBody_escaped: "quotedBody (concat (map escapeChar s) @ CHR ''\"'' # r) = Some (s, r)"
  by (induction s) (auto simp: escapeChar_def)

lemma readWord_quoted:
  assumes "r = [] \<or> delimiter inArray (hd r)"
  shows "readWord inArray (quotedText inArray s @ r) = Some ((s, needsQuotes inArray s), r)"
proof (cases "needsQuotes inArray s")
  case True
  then show ?thesis by (simp add: quotedText_def readWord_def quotedBody_escaped)
next
  case False
  then have n: "s \<noteq> []" "hd s \<noteq> CHR ''\"''" "\<And>c. c \<in> set s \<Longrightarrow> \<not> delimiter inArray c"
    using hd_in_set [of s] unfolding needsQuotes_def list_ex_iff delimiter_def by metis+
  have "takeWhile (\<lambda>c. \<not> delimiter inArray c) (s @ r) = s" "dropWhile (\<lambda>c. \<not> delimiter inArray c) (s @ r) = r"
    using n(3) assms by (cases r; simp add: takeWhile_append2 dropWhile_append2)+
  then show ?thesis using False n(1,2) by (simp add: quotedText_def readWord_def)
qed

lemma quotedText_start:
  assumes "r = [] \<or> delimiter True (hd r)"
  shows "\<not> (quotedText True s @ r \<noteq> [] \<and> hd (quotedText True s @ r) = CHR ''{'')"
  using assms by (cases s) (auto simp: quotedText_def needsQuotes_def)

subsection \<open>Arrays\<close>

fun litSize :: "lit \<Rightarrow> nat" where
  "litSize (LArray ls) = Suc (sum_list (map (\<lambda>l. Suc (litSize l)) ls))"
| "litSize _ = 1"

lemma literal_not_Nil: "literal l \<noteq> []"
  by (cases l) (auto simp: quotedText_def needsQuotes_def)

lemma literal_start: "hd (literal l) \<noteq> CHR ''}''"
proof (cases l)
  case (LText s)
  then show ?thesis by (cases s) (auto simp: quotedText_def needsQuotes_def)
qed simp_all

lemma isNullWord_NULL: "isNullWord ''NULL''"
  by code_simp

lemma readLit_literal:
  "litSize l \<le> f \<Longrightarrow> r = [] \<or> delimiter True (hd r) \<Longrightarrow> readLit f (literal l @ r) = Some (l, r)"
proof (induction l arbitrary: f r)
  case LNull
  then obtain g where "f = Suc g" by (cases f) auto
  moreover have "readWord True (''NULL'' @ r) = Some ((''NULL'', False), r)"
    using readWord_quoted [of r True "''NULLx''"] LNull
    by (cases r) (auto simp: readWord_def delimiter_def)
  ultimately show ?case by (simp add: isNullWord_NULL)
next
  case (LText s)
  then obtain g where f: "f = Suc g" by (cases f) auto
  have "needsQuotes True s" if "isNullWord s" using that by (simp add: needsQuotes_def)
  then show ?case
    using quotedText_start [OF LText(2)] readWord_quoted [OF LText(2)] by (auto simp: f)
next
  case (LArray ls)
  then obtain g where f: "f = Suc g" by (cases f) auto
  have many: "readLits h (join_with CHR '','' (map literal ls) @ CHR ''}'' # r) = Some (ls, r)"
    if "ls \<noteq> []" "sum_list (map (\<lambda>l. Suc (litSize l)) ls) \<le> h" "\<And>l h r. l \<in> set ls \<Longrightarrow> litSize l \<le> h \<Longrightarrow> r = [] \<or> delimiter True (hd r) \<Longrightarrow> readLit h (literal l @ r) = Some (l, r)"
    for ls h
    using that
  proof (induction ls arbitrary: h)
    case (Cons l ls)
    then obtain k where h: "h = Suc k" by (cases h) auto
    have one: "readLit k (literal l @ c # x) = Some (l, c # x)" if "delimiter True c" for c x
      using Cons.prems(2,3) that by (simp add: h)
    show ?case
    proof (cases ls)
      case Nil
      then show ?thesis using one [of "CHR ''}''" r] by (simp add: h delimiter_def)
    next
      case (Cons l' ls')
      then show ?thesis
        using one [of "CHR '',''"] Cons.IH [of k] Cons.prems h by (simp add: delimiter_def)
    qed
  qed simp
  have start: "hd (join_with CHR '','' (map literal ls) @ CHR ''}'' # r) \<noteq> CHR ''}''" if "ls \<noteq> []"
    using that literal_start [of "hd ls"] literal_not_Nil [of "hd ls"] by (cases ls; cases "tl ls") (simp_all add: hd_append)
  show ?case
    using many [of ls g] LArray start by (cases "ls = []") (simp_all add: f)
qed

lemma length_join: "ls \<noteq> [] \<Longrightarrow> Suc (length (join_with sep ls)) = sum_list (map (\<lambda>s. Suc (length s)) ls)"
proof (induction ls)
  case (Cons s ls)
  then show ?case by (cases ls) simp_all
qed simp

lemma litSize_literal: "litSize l \<le> length (literal l)"
proof (induction l)
  case (LArray ls)
  then have "sum_list (map (\<lambda>l. Suc (litSize l)) ls) \<le> sum_list (map (\<lambda>l. Suc (length (literal l))) ls)"
    by (intro sum_list_mono) simp
  then show ?case
    using length_join [of "map literal ls" "CHR '',''"] by (cases "ls = []") (simp_all add: comp_def)
qed (simp_all add: Suc_le_eq quotedText_def needsQuotes_def)

definition readArray :: "string \<Rightarrow> lit option" where
  "readArray s = (case readLit (length s) s of Some (l, []) \<Rightarrow> Some l | _ \<Rightarrow> None)"

lemma readArray_literal: "readArray (literal l) = Some l"
  using readLit_literal [OF litSize_literal, of "[]" l] by (simp add: readArray_def)

subsection \<open>What an array of the document stands for\<close>

fun nodeLit :: "field_encoder \<Rightarrow> encodeContext \<Rightarrow> field_node \<Rightarrow> encode_error + lit" where
  "nodeLit elem ec (FieldNode k raw js st bo by ins dys de items fs) =
     (if k \<noteq> KindArray then Inl (WrongKind ''array'')
      else
        let nested = (items \<noteq> [] \<and> fKind (hd items) = KindArray) in
        bindR (traverse (\<lambda>it.
            if fKind it = KindNull then Inr LNull
            else if nested then nodeLit elem ec it
            else bindR (elem ec [] it) (\<lambda>t. Inr (LText (map charOf t)))) items) (\<lambda>ls. Inr (LArray ls)))"

lemma traverse_image:
  "(\<And>x. x \<in> set xs \<Longrightarrow> f x = bindR (g x) (\<lambda>y. Inr (h y))) \<Longrightarrow> traverse f xs = bindR (traverse g xs) (\<lambda>ys. Inr (map h ys))"
proof (induction xs)
  case (Cons x xs)
  then show ?case by (cases "g x"; cases "traverse g xs") simp_all
qed simp

lemma appendTextArray_literal:
  "appendTextArray elem ec dst n = bindR (nodeLit elem ec n) (\<lambda>l. Inr (dst @ map byteOf (literal l)))"
proof (induction n arbitrary: dst)
  case (FieldNode k raw js st bo bs ins dys de items fs)
  let ?nested = "items \<noteq> [] \<and> fKind (hd items) = KindArray"
  let ?f = "\<lambda>it. if fKind it = KindNull then Inr ''NULL''
            else if ?nested then bindR (appendTextArray elem ec [] it) (\<lambda>b. Inr (map charOf b))
            else bindR (elem ec [] it) (\<lambda>t. Inr (quotedText True (map charOf t)))"
  let ?g = "\<lambda>it. if fKind it = KindNull then Inr LNull
            else if ?nested then nodeLit elem ec it
            else bindR (elem ec [] it) (\<lambda>t. Inr (LText (map charOf t)))"
  have "?f it = bindR (?g it) (\<lambda>l. Inr (literal l))" if "it \<in> set items" for it
  proof (cases "fKind it = KindNull \<or> \<not> ?nested")
    case True
    then show ?thesis by (cases "elem ec [] it") auto
  next
    case False
    then show ?thesis using FieldNode.IH(1) [OF that, of "[]"] by (cases "nodeLit elem ec it") (auto simp del: map_map)
  qed
  from traverse_image [of items ?f ?g literal, OF this]
  have t: "traverse ?f items = bindR (traverse ?g items) (\<lambda>ls. Inr (map literal ls))" .
  show ?case
    unfolding appendTextArray.simps nodeLit.simps Let_def t by (cases "traverse ?g items") simp_all
qed

subsection \<open>Records\<close>

fun fieldText :: "string option \<Rightarrow> string" where
  "fieldText None = []"
| "fieldText (Some s) = quotedText False s"

definition recordLiteral :: "string option list \<Rightarrow> string" where
  "recordLiteral fs = ''('' @ join_with CHR '','' (map fieldText fs) @ '')''"

definition readField :: "string \<Rightarrow> (string option \<times> string) option" where
  "readField s =
     (if s \<noteq> [] \<and> delimiter False (hd s) then Some (None, s) else map_option (\<lambda>((w, _), r). (Some w, r)) (readWord False s))"

fun readFields :: "nat \<Rightarrow> string \<Rightarrow> (string option list \<times> string) option" where
  "readFields 0 s = None"
| "readFields (Suc f) s =
     (case readField s of
        None \<Rightarrow> None
      | Some (x, r) \<Rightarrow>
          if r \<noteq> [] \<and> hd r = CHR '','' then map_option (\<lambda>(xs, r'). (x # xs, r')) (readFields f (tl r))
          else if r \<noteq> [] \<and> hd r = CHR '')'' then Some ([x], tl r)
          else None)"

definition readRecord :: "string \<Rightarrow> string option list option" where
  "readRecord s =
     (if s \<noteq> [] \<and> hd s = CHR ''('' then
        (case readFields (length s) (tl s) of Some (xs, []) \<Rightarrow> Some xs | _ \<Rightarrow> None)
      else None)"

lemma quotedText_field: "\<not> (quotedText False s @ r \<noteq> [] \<and> delimiter False (hd (quotedText False s @ r)))" if "r \<noteq> []"
  by (cases s) (auto simp: quotedText_def needsQuotes_def delimiter_def)

lemma readField_text: "delimiter False c \<Longrightarrow> readField (fieldText x @ c # r) = Some (x, c # r)"
  using quotedText_field [of "c # r"] readWord_quoted [of "c # r" False]
  by (cases x) (auto simp: readField_def)

lemma readFields_texts:
  "fs \<noteq> [] \<Longrightarrow> length fs \<le> f \<Longrightarrow> readFields f (join_with CHR '','' (map fieldText fs) @ CHR '')'' # r) = Some (fs, r)"
proof (induction fs arbitrary: f)
  case (Cons x fs)
  then obtain g where f: "f = Suc g" by (cases f) auto
  show ?case
  proof (cases fs)
    case Nil
    then show ?thesis using readField_text [of "CHR '')''" x r] by (simp add: f delimiter_def)
  next
    case (Cons y ys)
    then show ?thesis
      using readField_text [of "CHR '',''" x] Cons.IH [of g] Cons.prems f by (simp add: delimiter_def)
  qed
qed simp

lemma readRecord_literal: "fs \<noteq> [] \<Longrightarrow> readRecord (recordLiteral fs) = Some fs"
proof -
  assume fs: "fs \<noteq> []"
  have "length fs \<le> sum_list (map (\<lambda>s. Suc (length s)) (map fieldText fs))" by (induction fs) simp_all
  then have "length fs \<le> length (recordLiteral fs)"
    using fs length_join [of "map fieldText fs" "CHR '',''"] by (simp add: recordLiteral_def)
  from readFields_texts [OF fs this, of "[]"] show ?thesis by (simp add: readRecord_def recordLiteral_def)
qed

definition nodeFields :: "(string \<times> field_encoder) list \<Rightarrow> encodeContext \<Rightarrow> field_node \<Rightarrow> encode_error + string option list" where
  "nodeFields tfs ec n =
     traverse (\<lambda>(name, enc).
       case fGet n name of
         None \<Rightarrow> Inr None
       | Some v \<Rightarrow> if fKind v = KindNull then Inr None else bindR (enc ec [] v) (\<lambda>t. Inr (Some (map charOf t)))) tfs"

lemma textCompositeEncoder_literal:
  "fKind n = KindObject \<Longrightarrow>
   textCompositeEncoder tfs ec dst n = bindR (nodeFields tfs ec n) (\<lambda>fs. Inr (dst @ map byteOf (recordLiteral fs)))"
proof -
  assume k: "fKind n = KindObject"
  let ?f = "\<lambda>(name, enc).
            case fGet n name of
              None \<Rightarrow> Inr []
            | Some v \<Rightarrow>
                if fKind v = KindNull then Inr []
                else bindR (enc ec [] v) (\<lambda>t. Inr (quotedText False (map charOf t)))"
  have t: "traverse ?f tfs = bindR (nodeFields tfs ec n) (\<lambda>fs. Inr (map fieldText fs))"
    unfolding nodeFields_def
    by (rule traverse_image) (auto simp: bindR_def split: option.splits sum.splits if_splits)
  show ?thesis unfolding textCompositeEncoder_def t using k by (cases "nodeFields tfs ec n") (simp_all add: recordLiteral_def)
qed

subsection \<open>Properties\<close>



end
