(* ===== verification/Go_Loops.thy ===== *)
theory Go_Loops
  imports Rel_Prelude
begin

text \<open>
  Loops that carry a state: \<open>foldR\<close> is a \<open>for\<close> loop over a slice whose body updates a state and may stop with an error,
  \<open>traverseS\<close> one that also rebuilds the slice, as the passes that replace the elements of a slice in place do.
\<close>

fun foldR :: "('a \<Rightarrow> 's \<Rightarrow> 'e + 's) \<Rightarrow> 'a list \<Rightarrow> 's \<Rightarrow> 'e + 's" where
  "foldR f [] s = Inr s"
| "foldR f (x # xs) s = bindR (f x s) (foldR f xs)"

lemma foldR_cong [fundef_cong]:
  "xs = ys \<Longrightarrow> s = t \<Longrightarrow> (\<And>x s. x \<in> set ys \<Longrightarrow> f x s = g x s) \<Longrightarrow> foldR f xs s = foldR g ys t"
proof (induction ys arbitrary: xs s t)
  case (Cons y ys)
  then show ?case by (cases "g y t") simp_all
qed simp

lemma foldR_append: "foldR f (xs @ ys) s = bindR (foldR f xs s) (foldR f ys)"
proof (induction xs arbitrary: s)
  case (Cons x xs)
  then show ?case by (cases "f x s") simp_all
qed simp

lemma foldR_invariant:
  "foldR f xs s = Inr t \<Longrightarrow> P s \<Longrightarrow> (\<And>x s t. x \<in> set xs \<Longrightarrow> P s \<Longrightarrow> f x s = Inr t \<Longrightarrow> P t) \<Longrightarrow> P t"
proof (induction xs arbitrary: s)
  case (Cons x xs)
  then obtain u where u: "f x s = Inr u" "foldR f xs u = Inr t" by (auto simp: bindR_eq_Inr_iff)
  then have "P u" using Cons.prems by auto
  with u Cons show ?case by (meson list.set_intros(2))
qed simp

fun traverseS :: "('a \<Rightarrow> 's \<Rightarrow> 'e + ('b \<times> 's)) \<Rightarrow> 'a list \<Rightarrow> 's \<Rightarrow> 'e + ('b list \<times> 's)" where
  "traverseS f [] s = Inr ([], s)"
| "traverseS f (x # xs) s =
     bindR (f x s) (\<lambda>(y, s1). bindR (traverseS f xs s1) (\<lambda>(ys, s2). Inr (y # ys, s2)))"

lemma traverseS_cong [fundef_cong]:
  "xs = ys \<Longrightarrow> s = t \<Longrightarrow> (\<And>x s. x \<in> set ys \<Longrightarrow> f x s = g x s) \<Longrightarrow> traverseS f xs s = traverseS g ys t"
proof (induction ys arbitrary: xs s t)
  case (Cons y ys)
  then show ?case by (cases "g y t") (auto simp: split_def)
qed simp

text \<open>What a loop gives element by element, with an invariant of the state it carries.\<close>

lemma traverseS_all2:
  "traverseS f xs s = Inr (ys, t) \<Longrightarrow> I s \<Longrightarrow>
   (\<And>x y s t. x \<in> set xs \<Longrightarrow> I s \<Longrightarrow> f x s = Inr (y, t) \<Longrightarrow> Q x y \<and> I t) \<Longrightarrow> list_all2 Q xs ys \<and> I t"
proof (induction xs arbitrary: s ys)
  case (Cons x xs)
  then obtain y s1 zs where y: "f x s = Inr (y, s1)" "traverseS f xs s1 = Inr (zs, t)" "ys = y # zs"
    by (auto simp: bindR_eq_Inr_iff)
  have "Q x y \<and> I s1" using Cons.prems(2,3) y(1) by (meson list.set_intros(1))
  moreover from this have "list_all2 Q xs zs \<and> I t" using Cons.IH [OF y(2)] Cons.prems(3) by (meson list.set_intros(2))
  ultimately show ?case using y(3) by simp
qed simp

end
