(* ===== verification/Pg_Catalog.thy ===== *)
theory Pg_Catalog
  imports Go_Loops Go_Strings "HOL-Library.List_Lexorder" "HOL-Library.Multiset"
begin

text \<open>
  The introspected schema of package \<open>pg\<close>: relations with their columns, constraints and indexes, functions, and the
  lookups the query compiler makes in them.  The rows the catalog queries return are given; what is modelled is how they
  are linked (\<open>FillConstraintInformations\<close>, \<open>FillIndexInformations\<close>, \<open>FillComputedFields\<close>, \<open>buildLookupIndices\<close>) and
  read (\<open>ResolveJoin\<close> and the other lookups).  A pointer to a relation or to an element type is its number, so that a
  composite may contain itself through an array; the base of a domain is a tree, because domains do not loop.  A Go map
  keyed by names is a map.
\<close>

subsection \<open>Types and columns\<close>

datatype typeInfo = TypeInfo
  (tiOid: int)
  (tiEnumLabels: "string list")
  (tiElement: "int option")
  (tiArrayLink: bool)
  (tiBase: "typeInfo option")
  (tiRelId: "int option")
  (tiPgIdentifier: "string \<times> string")

fun tiUnderlying :: "typeInfo \<Rightarrow> typeInfo" where
  "tiUnderlying (TypeInfo oid labels elem link (Some b) rel name) = tiUnderlying b"
| "tiUnderlying t = t"

definition tiIsArray :: "typeInfo \<Rightarrow> bool" where
  "tiIsArray t \<longleftrightarrow> tiElement t \<noteq> None \<and> tiArrayLink t"

record column =
  colName :: string
  colType :: typeInfo
  colIsGenerated :: bool
  colIsIdentity :: bool
  colIsNullable :: bool
  colIsPrimaryKey :: bool
  colIsPartOfUnique :: bool
  colDefaultExpression :: string

subsection \<open>Functions\<close>

datatype argMode = MODE_IN | MODE_OUT | MODE_INOUT | MODE_VARIADIC | MODE_TABLE

record functionArgument =
  argName :: string
  argMode :: argMode
  argType :: typeInfo

record pgfunction =
  fnSchema :: string
  fnName :: string
  fnArguments :: "functionArgument list"
  fnNargs :: int
  fnNargsDefaults :: int
  fnKind :: string
  fnReturnsSet :: bool
  fnReturnTypeOid :: int

definition IsPlainFunction :: "pgfunction \<Rightarrow> bool" where "IsPlainFunction f \<longleftrightarrow> fnKind f = ''f''"

definition IsAggregate :: "pgfunction \<Rightarrow> bool" where "IsAggregate f \<longleftrightarrow> fnKind f = ''a''"

definition isInputArg :: "functionArgument \<Rightarrow> bool" where
  "isInputArg a \<longleftrightarrow> argMode a = MODE_IN \<or> argMode a = MODE_INOUT \<or> argMode a = MODE_VARIADIC"

definition FirstInputArg :: "pgfunction \<Rightarrow> functionArgument option" where
  "FirstInputArg f = find isInputArg (fnArguments f)"

definition AcceptsArity :: "pgfunction \<Rightarrow> int \<Rightarrow> bool" where
  "AcceptsArity f n =
     (let variadic = list_ex (\<lambda>a. argMode a = MODE_VARIADIC) (fnArguments f);
          least0 = fnNargs f - fnNargsDefaults f;
          least = (if variadic \<and> fnNargs f - 1 < least0 then fnNargs f - 1 else least0)
      in if n < least then False else if n \<le> fnNargs f then True else variadic)"

subsection \<open>Constraints and indexes\<close>

record dbConstraint =
  dcName :: string
  dcType :: string
  dcRelId :: int
  dcColumns :: "string list"
  dcTargetRelId :: int
  dcTargetColumns :: "string list"

datatype ConstraintType = PrimaryKeyC | UniqueC | OutgoingForeignKey | IncomingForeignKey

text \<open>The columns of a constraint are those of its relation by name; a column the role cannot see is nil there.  The
  target of a foreign key is the constraint on the other relation, of which relation and columns are read.\<close>

record pgconstraint =
  pcRelId :: int
  pcName :: string
  pcType :: ConstraintType
  pcColumns :: "string option list"
  pcTarget :: "(int \<times> string option list) option"

record dbIndex =
  diRelId :: int
  diColumns :: "string list"

subsection \<open>Relations\<close>

record relation =
  relSchema :: string
  relName :: string
  relId :: int
  relIsSynthetic :: bool
  relIsStandalone :: bool
  relColumns :: "column list"
  relComputedFields :: "string \<rightharpoonup> pgfunction"
  relPrimaryKey :: "pgconstraint option"
  relUniqueConstraints :: "pgconstraint list"
  relIncomingForeignKeys :: "pgconstraint list"
  relOutgoingForeignKeys :: "pgconstraint list"
  relByName :: "string \<rightharpoonup> pgconstraint"
  relUniqueColumnGroups :: "string \<rightharpoonup> pgconstraint"
  relByOtherRelation :: "int \<Rightarrow> pgconstraint list"
  relIndexCoverage :: "string set"

definition ColumnsMap :: "relation \<Rightarrow> string \<rightharpoonup> column" where
  "ColumnsMap r = map_of (rev (map (\<lambda>c. (colName c, c)) (relColumns r)))"

definition newRelation :: "string \<Rightarrow> string \<Rightarrow> int \<Rightarrow> bool \<Rightarrow> bool \<Rightarrow> column list \<Rightarrow> relation" where
  "newRelation schema name relid synthetic standalone cols =
     \<lparr>relSchema = schema, relName = name, relId = relid, relIsSynthetic = synthetic, relIsStandalone = standalone,
      relColumns = cols, relComputedFields = Map.empty, relPrimaryKey = None, relUniqueConstraints = [],
      relIncomingForeignKeys = [], relOutgoingForeignKeys = [], relByName = Map.empty, relUniqueColumnGroups = Map.empty,
      relByOtherRelation = (\<lambda>_. []), relIndexCoverage = {}\<rparr>"

text \<open>The relation of a function with \<open>OUT\<close> or \<open>TABLE\<close> arguments; its constraints and indexes stay empty.\<close>

definition outColumns :: "pgfunction \<Rightarrow> column list" where
  "outColumns f =
     map (\<lambda>a. \<lparr>colName = argName a, colType = argType a, colIsGenerated = False, colIsIdentity = False, colIsNullable = False,
                colIsPrimaryKey = False, colIsPartOfUnique = False, colDefaultExpression = []\<rparr>)
       (filter (\<lambda>a. argMode a = MODE_OUT \<or> argMode a = MODE_TABLE) (fnArguments f))"

definition RecordRelation :: "pgfunction \<Rightarrow> relation option" where
  "RecordRelation f =
     (if outColumns f = [] then None else Some (newRelation (fnSchema f) (fnName f) 0 True False (outColumns f)))"

record dbInfos =
  dbRelations :: "relation list"
  dbFunctions :: "pgfunction list"
  dbTypes :: "typeInfo list"
  dbSearchPath :: "string list"
  dbRelationIndex :: "string \<times> string \<rightharpoonup> int"
  dbFunctionIndex :: "string \<times> string \<Rightarrow> pgfunction list"

definition GetRelation :: "dbInfos \<Rightarrow> int \<Rightarrow> relation option" where
  "GetRelation db relid = find (\<lambda>r. relId r = relid) (dbRelations db)"

definition GetType :: "dbInfos \<Rightarrow> int \<Rightarrow> typeInfo option" where
  "GetType db oid = find (\<lambda>t. tiOid t = oid) (dbTypes db)"

definition GetRelationByType :: "dbInfos \<Rightarrow> int \<Rightarrow> relation option" where
  "GetRelationByType db oid =
     (case GetType db oid of None \<Rightarrow> None | Some t \<Rightarrow> (case tiRelId t of None \<Rightarrow> None | Some relid \<Rightarrow> GetRelation db relid))"

definition compositeRelation :: "dbInfos \<Rightarrow> typeInfo \<Rightarrow> relation option" where
  "compositeRelation db t =
     (case tiRelId (tiUnderlying t) of None \<Rightarrow> None | Some relid \<Rightarrow> GetRelation db relid)"

definition updRelation :: "int \<Rightarrow> (relation \<Rightarrow> relation) \<Rightarrow> dbInfos \<Rightarrow> dbInfos" where
  "updRelation relid f db = db\<lparr>dbRelations := map (\<lambda>r. if relId r = relid then f r else r) (dbRelations db)\<rparr>"

subsection \<open>Column sets\<close>

definition sortedColumnKey :: "string list \<Rightarrow> string" where
  "sortedColumnKey columns = join_with CHR '','' (sort columns)"

datatype catalog_error = GoPanic | UnexpectedConstraintType | OnEmpty | InvertedPairing | NoBackingConstraint | NotIndexed

definition resolveColumns :: "relation \<Rightarrow> string list \<Rightarrow> string option list" where
  "resolveColumns r names = map (\<lambda>n. map_option colName (ColumnsMap r n)) names"

fun columnNames :: "string option list \<Rightarrow> catalog_error + string list" where
  "columnNames [] = Inr []"
| "columnNames (None # cs) = Inl GoPanic"
| "columnNames (Some n # cs) = bindR (columnNames cs) (\<lambda>ns. Inr (n # ns))"

subsection \<open>Linking the rows\<close>

definition markColumns :: "(column \<Rightarrow> column) \<Rightarrow> string list \<Rightarrow> relation \<Rightarrow> relation" where
  "markColumns f names r = r\<lparr>relColumns := map (\<lambda>c. if colName c \<in> set names then f c else c) (relColumns r)\<rparr>"

definition addPrimaryKey :: "dbConstraint \<Rightarrow> pgconstraint \<Rightarrow> relation \<Rightarrow> relation" where
  "addPrimaryKey dbc c r =
     markColumns (\<lambda>col. col\<lparr>colIsPrimaryKey := True, colIsPartOfUnique := True\<rparr>) (dcColumns dbc)
       (r\<lparr>relByName := (relByName r)(pcName c \<mapsto> c), relPrimaryKey := Some c,
          relUniqueColumnGroups := (relUniqueColumnGroups r)(sortedColumnKey (dcColumns dbc) \<mapsto> c)\<rparr>)"

definition addUnique :: "dbConstraint \<Rightarrow> pgconstraint \<Rightarrow> relation \<Rightarrow> relation" where
  "addUnique dbc c r =
     markColumns (\<lambda>col. col\<lparr>colIsPartOfUnique := True\<rparr>) (dcColumns dbc)
       (r\<lparr>relByName := (relByName r)(pcName c \<mapsto> c),
          relUniqueColumnGroups := (relUniqueColumnGroups r)(sortedColumnKey (dcColumns dbc) \<mapsto> c),
          relUniqueConstraints := relUniqueConstraints r @ [c]\<rparr>)"

definition addOutgoing :: "int \<Rightarrow> pgconstraint \<Rightarrow> relation \<Rightarrow> relation" where
  "addOutgoing target c r =
     r\<lparr>relByName := (relByName r)(pcName c \<mapsto> c), relOutgoingForeignKeys := relOutgoingForeignKeys r @ [c],
       relByOtherRelation := (relByOtherRelation r)(target := relByOtherRelation r target @ [c])\<rparr>"

definition addIncoming :: "int \<Rightarrow> pgconstraint \<Rightarrow> relation \<Rightarrow> relation" where
  "addIncoming other c r =
     r\<lparr>relIncomingForeignKeys := relIncomingForeignKeys r @ [c],
       relByOtherRelation := (relByOtherRelation r)(other := relByOtherRelation r other @ [c])\<rparr>"

definition fillConstraint :: "dbConstraint \<Rightarrow> dbInfos \<Rightarrow> catalog_error + dbInfos" where
  "fillConstraint dbc db =
     (case GetRelation db (dcRelId dbc) of
        None \<Rightarrow> Inr db
      | Some r \<Rightarrow>
          let cols = resolveColumns r (dcColumns dbc);
              c = (\<lambda>ty target. \<lparr>pcRelId = relId r, pcName = dcName dbc, pcType = ty, pcColumns = cols, pcTarget = target\<rparr>)
          in
          if dcType dbc = ''f'' then
            (case GetRelation db (dcTargetRelId dbc) of
               None \<Rightarrow> Inr db
             | Some t \<Rightarrow>
                 let tcols = resolveColumns t (dcTargetColumns dbc);
                     incoming = \<lparr>pcRelId = relId t, pcName = dcName dbc, pcType = IncomingForeignKey, pcColumns = tcols,
                                  pcTarget = Some (relId r, cols)\<rparr>
                 in Inr (updRelation (relId t) (addIncoming (relId r) incoming)
                          (updRelation (relId r) (addOutgoing (relId t) (c OutgoingForeignKey (Some (relId t, tcols)))) db)))
          else if dcType dbc = ''p'' then
            (if None \<in> set cols then Inl GoPanic else Inr (updRelation (relId r) (addPrimaryKey dbc (c PrimaryKeyC None)) db))
          else if dcType dbc = ''u'' then
            (if None \<in> set cols then Inl GoPanic else Inr (updRelation (relId r) (addUnique dbc (c UniqueC None)) db))
          else Inl UnexpectedConstraintType)"

definition FillConstraintInformations :: "dbConstraint list \<Rightarrow> dbInfos \<Rightarrow> catalog_error + dbInfos" where
  "FillConstraintInformations raw db = foldR fillConstraint raw db"

definition registerIndexCoverage :: "string list \<Rightarrow> relation \<Rightarrow> relation" where
  "registerIndexCoverage columns r =
     r\<lparr>relIndexCoverage := relIndexCoverage r \<union> set (map (\<lambda>i. sortedColumnKey (take i columns)) [1..<Suc (length columns)])\<rparr>"

definition fillIndex :: "dbIndex \<Rightarrow> dbInfos \<Rightarrow> dbInfos" where
  "fillIndex idx db =
     (case GetRelation db (diRelId idx) of
        None \<Rightarrow> db
      | Some r \<Rightarrow> updRelation (relId r) (registerIndexCoverage (diColumns idx)) db)"

definition FillIndexInformations :: "dbIndex list \<Rightarrow> dbInfos \<Rightarrow> dbInfos" where
  "FillIndexInformations raw db = fold fillIndex raw db"

definition computedOn :: "dbInfos \<Rightarrow> pgfunction \<Rightarrow> int option" where
  "computedOn db f =
     (if \<not> IsPlainFunction f \<or> \<not> AcceptsArity f 1 then None
      else
        case FirstInputArg f of
          None \<Rightarrow> None
        | Some a \<Rightarrow>
            (case compositeRelation db (argType a) of
               None \<Rightarrow> None
             | Some r \<Rightarrow>
                 if relIsStandalone r \<or> relIsSynthetic r \<or> relSchema r \<noteq> fnSchema f \<or> ColumnsMap r (fnName f) \<noteq> None then None
                 else Some (relId r)))"

definition fillComputed :: "pgfunction \<Rightarrow> dbInfos \<Rightarrow> dbInfos" where
  "fillComputed f db =
     (case computedOn db f of
        None \<Rightarrow> db
      | Some relid \<Rightarrow> updRelation relid (\<lambda>r. r\<lparr>relComputedFields := (relComputedFields r)(fnName f \<mapsto> f)\<rparr>) db)"

definition FillComputedFields :: "dbInfos \<Rightarrow> dbInfos" where
  "FillComputedFields db =
     fold fillComputed (dbFunctions db)
       (db\<lparr>dbRelations := map (\<lambda>r. r\<lparr>relComputedFields := Map.empty\<rparr>) (dbRelations db)\<rparr>)"

definition buildLookupIndices :: "dbInfos \<Rightarrow> dbInfos" where
  "buildLookupIndices db =
     db\<lparr>dbRelationIndex := fold (\<lambda>r m. m((relSchema r, relName r) \<mapsto> relId r)) (dbRelations db) Map.empty,
        dbFunctionIndex := fold (\<lambda>f m. m((fnSchema f, fnName f) := m (fnSchema f, fnName f) @ [f])) (dbFunctions db) (\<lambda>_. [])\<rparr>"

subsection \<open>Lookups\<close>

definition relationNamed :: "dbInfos \<Rightarrow> string \<Rightarrow> string \<Rightarrow> relation option" where
  "relationNamed db schema name =
     (case dbRelationIndex db (schema, name) of None \<Rightarrow> None | Some relid \<Rightarrow> GetRelation db relid)"

fun firstRelation :: "dbInfos \<Rightarrow> string list \<Rightarrow> string \<Rightarrow> relation option" where
  "firstRelation db [] name = None"
| "firstRelation db (s # ss) name = (case relationNamed db s name of Some r \<Rightarrow> Some r | None \<Rightarrow> firstRelation db ss name)"

definition ResolveRelation :: "dbInfos \<Rightarrow> string \<Rightarrow> string \<Rightarrow> relation option" where
  "ResolveRelation db schema name =
     (if schema \<noteq> [] then relationNamed db schema name else firstRelation db (dbSearchPath db) name)"

fun firstFunctions :: "dbInfos \<Rightarrow> string list \<Rightarrow> string \<Rightarrow> pgfunction list" where
  "firstFunctions db [] name = []"
| "firstFunctions db (s # ss) name =
     (if dbFunctionIndex db (s, name) \<noteq> [] then dbFunctionIndex db (s, name) else firstFunctions db ss name)"

definition ResolveFunctionCandidates :: "dbInfos \<Rightarrow> string \<Rightarrow> string \<Rightarrow> pgfunction list" where
  "ResolveFunctionCandidates db schema name =
     (if schema \<noteq> [] then dbFunctionIndex db (schema, name) else firstFunctions db (dbSearchPath db) name)"

definition FindConstraintByName :: "relation \<Rightarrow> string \<Rightarrow> pgconstraint option" where
  "FindConstraintByName r name = relByName r name"

definition FindUniqueConstraint :: "relation \<Rightarrow> string list \<Rightarrow> pgconstraint option" where
  "FindUniqueConstraint r columns = relUniqueColumnGroups r (sortedColumnKey columns)"

definition RelationshipsTo :: "relation \<Rightarrow> relation \<Rightarrow> pgconstraint list" where
  "RelationshipsTo r other = relByOtherRelation r (relId other)"

definition IsIndexed :: "relation \<Rightarrow> string list \<Rightarrow> bool" where
  "IsIndexed r columns \<longleftrightarrow> sortedColumnKey columns \<in> relIndexCoverage r"

fun pairLoop :: "string gomap \<Rightarrow> string option list \<Rightarrow> string option list \<Rightarrow> catalog_error + bool" where
  "pairLoop on [] ts = Inr True"
| "pairLoop on (None # cs) ts = Inl GoPanic"
| "pairLoop on (Some c # cs) ts =
     (case map_of on c of
        None \<Rightarrow> Inr False
      | Some w \<Rightarrow>
          (case ts of
             Some t # ts' \<Rightarrow> if w \<noteq> t then Inr False else pairLoop on cs ts'
           | _ \<Rightarrow> Inl GoPanic))"

definition pairingMatches :: "pgconstraint \<Rightarrow> string gomap \<Rightarrow> catalog_error + bool" where
  "pairingMatches c on =
     (case pcTarget c of
        None \<Rightarrow> Inr False
      | Some (_, ts) \<Rightarrow> if length (pcColumns c) \<noteq> length on then Inr False else pairLoop on (pcColumns c) ts)"

fun findPairing :: "string gomap \<Rightarrow> pgconstraint list \<Rightarrow> catalog_error + pgconstraint option" where
  "findPairing on [] = Inr None"
| "findPairing on (c # cs) = bindR (pairingMatches c on) (\<lambda>m. if m then Inr (Some c) else findPairing on cs)"

definition sameColumns :: "string list \<Rightarrow> string list \<Rightarrow> pgconstraint \<Rightarrow> catalog_error + bool" where
  "sameColumns localCols parentCols c =
     bindR (columnNames (pcColumns c)) (\<lambda>ns.
       if sortedColumnKey ns \<noteq> sortedColumnKey localCols then Inr False
       else
         case pcTarget c of
           None \<Rightarrow> Inl GoPanic
         | Some (_, ts) \<Rightarrow> bindR (columnNames ts) (\<lambda>tns. Inr (sortedColumnKey tns = sortedColumnKey parentCols)))"

fun anyInverted :: "string list \<Rightarrow> string list \<Rightarrow> pgconstraint list \<Rightarrow> catalog_error + bool" where
  "anyInverted ls ps [] = Inr False"
| "anyInverted ls ps (c # cs) = bindR (sameColumns ls ps c) (\<lambda>m. if m then Inr True else anyInverted ls ps cs)"

definition backingConstraint :: "relation \<Rightarrow> relation \<Rightarrow> string gomap \<Rightarrow> catalog_error + pgconstraint option" where
  "backingConstraint r parent on =
     (let ls = map fst on; ps = map snd on in
      bindR (findPairing on (RelationshipsTo r parent)) (\<lambda>found.
        case found of
          Some c \<Rightarrow> Inr (Some c)
        | None \<Rightarrow>
            bindR (anyInverted ls ps (RelationshipsTo r parent)) (\<lambda>inv.
              if inv then Inl InvertedPairing
              else
                Inr (case FindUniqueConstraint r ls of Some u \<Rightarrow> Some u | None \<Rightarrow> FindUniqueConstraint parent ps))))"

definition ResolveJoin :: "relation \<Rightarrow> relation \<Rightarrow> string gomap \<Rightarrow> catalog_error + (pgconstraint \<times> bool)" where
  "ResolveJoin r parent on =
     (if on = [] then Inl OnEmpty
      else
        let isToOne = (FindUniqueConstraint r (map fst on) \<noteq> None) in
        bindR (backingConstraint r parent on) (\<lambda>found.
          case found of
            None \<Rightarrow> Inl NoBackingConstraint
          | Some c \<Rightarrow> if \<not> IsIndexed r (map fst on) then Inl NotIndexed else Inr (c, isToOne)))"

subsection \<open>Keys of column sets\<close>

definition plainNames :: "string list \<Rightarrow> bool" where
  "plainNames ns \<longleftrightarrow> ns \<noteq> [] \<and> (\<forall>n \<in> set ns. CHR '','' \<notin> set n)"

lemma sortedColumnKey_iff:
  assumes "plainNames xs" "plainNames ys"
  shows "sortedColumnKey xs = sortedColumnKey ys \<longleftrightarrow> mset xs = mset ys"
proof
  have split: "split_on CHR '','' (sortedColumnKey zs) = sort zs" if "plainNames zs" for zs
  proof -
    have "sort zs \<noteq> []" using that by (metis length_0_conv length_sort plainNames_def)
    moreover have "CHR '','' \<notin> set n" if "n \<in> set (sort zs)" for n
      using that \<open>plainNames zs\<close> by (simp add: plainNames_def)
    ultimately show ?thesis unfolding sortedColumnKey_def by (rule split_on_join)
  qed
  assume "sortedColumnKey xs = sortedColumnKey ys"
  then have "sort xs = sort ys" using split assms by metis
  then show "mset xs = mset ys" by (metis mset_sort)
next
  assume "mset xs = mset ys"
  then have "sort xs = sort ys" by (metis mset_sort properties_for_sort sorted_sort)
  then show "sortedColumnKey xs = sortedColumnKey ys" by (simp add: sortedColumnKey_def)
qed

lemma plainNames_take: "plainNames ns \<Longrightarrow> 0 < k \<Longrightarrow> plainNames (take k ns)"
  by (auto simp: plainNames_def dest: in_set_takeD)

text \<open>A name with a comma makes two different sets of columns look the same.\<close>

lemma comma_collision: "sortedColumnKey [''a,b''] = sortedColumnKey [''a'', ''b'']"
  by code_simp

subsection \<open>Updates\<close>

lemma GetRelation_id: "GetRelation db i = Some r \<Longrightarrow> relId r = i"
  by (auto simp: GetRelation_def find_Some_iff)

lemma GetRelation_upd:
  assumes "\<And>r. relId (f r) = relId r"
  shows "GetRelation (updRelation i f db) j = (if i = j then map_option f (GetRelation db j) else GetRelation db j)"
proof -
  have "find (\<lambda>r. relId r = j) (map (\<lambda>r. if relId r = i then f r else r) rs) =
      (if i = j then map_option f (find (\<lambda>r. relId r = j) rs) else find (\<lambda>r. relId r = j) rs)" for rs
    by (induction rs) (auto simp: assms)
  then show ?thesis by (simp add: GetRelation_def updRelation_def)
qed

lemma relation_updates [simp]:
  "relId (markColumns g ns r) = relId r" "relUniqueColumnGroups (markColumns g ns r) = relUniqueColumnGroups r"
  "relByOtherRelation (markColumns g ns r) = relByOtherRelation r" "relIndexCoverage (markColumns g ns r) = relIndexCoverage r"
  "relId (addPrimaryKey dbc c r) = relId r" "relId (addUnique dbc c r) = relId r" "relId (addOutgoing j c r) = relId r"
  "relId (addIncoming j c r) = relId r" "relId (registerIndexCoverage cols r) = relId r"
  by (simp_all add: markColumns_def addPrimaryKey_def addUnique_def addOutgoing_def addIncoming_def registerIndexCoverage_def)

lemma resolveColumns_nth: "k < length ns \<Longrightarrow> resolveColumns r ns ! k = Some n \<Longrightarrow> n = ns ! k"
  by (auto simp: resolveColumns_def ColumnsMap_def dest!: map_of_SomeD)

lemma length_resolveColumns [simp]: "length (resolveColumns r ns) = length ns"
  by (simp add: resolveColumns_def)

subsection \<open>What the rows leave in a relation\<close>

definition uniqueRow :: "dbConstraint list \<Rightarrow> int \<Rightarrow> string list \<Rightarrow> bool" where
  "uniqueRow raw i cols \<longleftrightarrow>
     (\<exists>dbc \<in> set raw. dcRelId dbc = i \<and> (dcType dbc = ''p'' \<or> dcType dbc = ''u'') \<and> mset (dcColumns dbc) = mset cols)"

definition indexRow :: "dbIndex list \<Rightarrow> int \<Rightarrow> string list \<Rightarrow> bool" where
  "indexRow raw i cols \<longleftrightarrow>
     (\<exists>ix \<in> set raw. diRelId ix = i \<and> (\<exists>k. 0 < k \<and> k \<le> length (diColumns ix) \<and> mset (take k (diColumns ix)) = mset cols))"

definition pairedBy :: "string gomap \<Rightarrow> string list \<Rightarrow> string list \<Rightarrow> bool" where
  "pairedBy on cs ts \<longleftrightarrow> length cs = length on \<and> (\<forall>k < length cs. k < length ts \<and> map_of on (cs ! k) = Some (ts ! k))"

definition foreignKeyRow :: "dbConstraint list \<Rightarrow> int \<Rightarrow> int \<Rightarrow> string gomap \<Rightarrow> bool" where
  "foreignKeyRow raw i j on \<longleftrightarrow>
     (\<exists>dbc \<in> set raw. dcType dbc = ''f'' \<and>
        (dcRelId dbc = i \<and> dcTargetRelId dbc = j \<and> pairedBy on (dcColumns dbc) (dcTargetColumns dbc) \<or>
         dcRelId dbc = j \<and> dcTargetRelId dbc = i \<and> pairedBy on (dcTargetColumns dbc) (dcColumns dbc)))"

text \<open>A constraint kept for a foreign key names the columns of its row, in its order.\<close>

definition fromRow :: "pgconstraint \<Rightarrow> string list \<Rightarrow> string list \<Rightarrow> bool" where
  "fromRow c cs ts \<longleftrightarrow>
     (\<exists>o1 t1. pcTarget c = Some (o1, t1) \<and> length (pcColumns c) = length cs \<and> length t1 = length ts \<and>
        (\<forall>k < length cs. \<forall>n. pcColumns c ! k = Some n \<longrightarrow> n = cs ! k) \<and> (\<forall>k < length ts. \<forall>n. t1 ! k = Some n \<longrightarrow> n = ts ! k))"

definition linked :: "dbConstraint list \<Rightarrow> int \<Rightarrow> relation \<Rightarrow> bool" where
  "linked raw i r \<longleftrightarrow>
     (\<forall>key. relUniqueColumnGroups r key \<noteq> None \<longleftrightarrow>
       (\<exists>dbc \<in> set raw. dcRelId dbc = i \<and> (dcType dbc = ''p'' \<or> dcType dbc = ''u'') \<and> key = sortedColumnKey (dcColumns dbc))) \<and>
     (\<forall>j. \<forall>c \<in> set (relByOtherRelation r j). \<exists>dbc \<in> set raw. dcType dbc = ''f'' \<and>
        (dcRelId dbc = i \<and> dcTargetRelId dbc = j \<and> fromRow c (dcColumns dbc) (dcTargetColumns dbc) \<or>
         dcRelId dbc = j \<and> dcTargetRelId dbc = i \<and> fromRow c (dcTargetColumns dbc) (dcColumns dbc))) \<and>
     relIndexCoverage r = {}"

lemma linkedD:
  assumes "linked raw i r"
  shows "relUniqueColumnGroups r key \<noteq> None \<longleftrightarrow>
      (\<exists>dbc \<in> set raw. dcRelId dbc = i \<and> (dcType dbc = ''p'' \<or> dcType dbc = ''u'') \<and> key = sortedColumnKey (dcColumns dbc))"
    and "c \<in> set (relByOtherRelation r j) \<Longrightarrow> \<exists>dbc \<in> set raw. dcType dbc = ''f'' \<and>
        (dcRelId dbc = i \<and> dcTargetRelId dbc = j \<and> fromRow c (dcColumns dbc) (dcTargetColumns dbc) \<or>
         dcRelId dbc = j \<and> dcTargetRelId dbc = i \<and> fromRow c (dcTargetColumns dbc) (dcColumns dbc))"
    and "relIndexCoverage r = {}"
  using assms unfolding linked_def by blast+

lemma linked_mono: "linked raw i r \<Longrightarrow> dcRelId dbc \<noteq> i \<or> dcType dbc = ''f'' \<Longrightarrow> linked (raw @ [dbc]) i r"
  unfolding linked_def by auto

lemma linked_set: "set raw = set raw' \<Longrightarrow> linked raw i r = linked raw' i r"
  unfolding linked_def by (simp only:)

lemma linked_unique:
  assumes "linked raw i r" "dcRelId dbc = i" "dcType dbc = ''p'' \<or> dcType dbc = ''u''"
    and "relUniqueColumnGroups r' = (relUniqueColumnGroups r)(sortedColumnKey (dcColumns dbc) \<mapsto> c)"
    and "relByOtherRelation r' = relByOtherRelation r" "relIndexCoverage r' = relIndexCoverage r"
  shows "linked (raw @ [dbc]) i r'"
  using assms(1) unfolding linked_def assms(4-6) using assms(2,3) by auto

lemma linked_foreign:
  assumes "linked raw i r" "dcType dbc = ''f''"
    and "dcRelId dbc = i \<and> dcTargetRelId dbc = j \<and> fromRow c (dcColumns dbc) (dcTargetColumns dbc) \<or>
         dcRelId dbc = j \<and> dcTargetRelId dbc = i \<and> fromRow c (dcTargetColumns dbc) (dcColumns dbc)"
    and "relUniqueColumnGroups r' = relUniqueColumnGroups r" "relIndexCoverage r' = relIndexCoverage r"
    and "relByOtherRelation r' = (relByOtherRelation r)(j := relByOtherRelation r j @ [c])"
  shows "linked (raw @ [dbc]) i r'"
  using assms(1) unfolding linked_def assms(4-6) using assms(2,3) by (auto split: if_splits)

definition allLinked :: "dbConstraint list \<Rightarrow> dbInfos \<Rightarrow> bool" where
  "allLinked raw db \<longleftrightarrow> (\<forall>i r. GetRelation db i = Some r \<longrightarrow> linked raw i r)"

lemma fromRow_resolved:
  "fromRow \<lparr>pcRelId = a, pcName = n, pcType = ty, pcColumns = resolveColumns r cs, pcTarget = Some (b, resolveColumns t ts)\<rparr> cs ts"
  using resolveColumns_nth [of _ cs r] resolveColumns_nth [of _ ts t] by (auto simp: fromRow_def)

lemma allLinked_foreign:
  assumes "allLinked raw db" "dcType dbc = ''f''" "GetRelation db (dcRelId dbc) = Some r" "GetRelation db (dcTargetRelId dbc) = Some t"
    and c: "fromRow c (dcColumns dbc) (dcTargetColumns dbc)" "fromRow c' (dcTargetColumns dbc) (dcColumns dbc)"
  shows "allLinked (raw @ [dbc])
    (updRelation (relId t) (addIncoming (relId r) c') (updRelation (relId r) (addOutgoing (relId t) c) db))"
proof -
  have ids: "relId r = dcRelId dbc" "relId t = dcTargetRelId dbc" using GetRelation_id assms(3,4) by auto
  have out: "linked (raw @ [dbc]) (dcRelId dbc) (addOutgoing (dcTargetRelId dbc) c s)" if "linked raw (dcRelId dbc) s" for s
    by (rule linked_foreign [OF that assms(2), where j = "dcTargetRelId dbc" and c = c]) (simp_all add: c addOutgoing_def)
  have inc: "linked (raw @ [dbc]) (dcTargetRelId dbc) (addIncoming (dcRelId dbc) c' s)" if "linked raw (dcTargetRelId dbc) s" for s
    by (rule linked_foreign [OF that assms(2), where j = "dcRelId dbc" and c = c']) (simp_all add: c addIncoming_def)
  have both: "linked (raw @ [dbc]) (dcTargetRelId dbc) (addIncoming (dcRelId dbc) c' s)"
    if "linked (raw @ [dbc]) (dcTargetRelId dbc) s" for s
  proof -
    have "linked ((raw @ [dbc]) @ [dbc]) (dcTargetRelId dbc) (addIncoming (dcRelId dbc) c' s)"
      by (rule linked_foreign [OF that assms(2), where j = "dcRelId dbc" and c = c']) (simp_all add: c addIncoming_def)
    then show ?thesis using linked_set [of "(raw @ [dbc]) @ [dbc]" "raw @ [dbc]"] by simp
  qed
  show ?thesis
    unfolding allLinked_def ids
  proof (intro allI impI)
    fix i s
    assume s: "GetRelation (updRelation (dcTargetRelId dbc) (addIncoming (dcRelId dbc) c')
        (updRelation (dcRelId dbc) (addOutgoing (dcTargetRelId dbc) c) db)) i = Some s"
    have old: "linked raw i x" if "GetRelation db i = Some x" for x using assms(1) that by (auto simp: allLinked_def)
    show "linked (raw @ [dbc]) i s"
      using s old out inc both linked_mono [OF old, of _ dbc] assms(2)
      by (auto simp: GetRelation_upd split: if_splits)
  qed
qed

lemma allLinked_unique:
  assumes "allLinked raw db" "dcType dbc = ''p'' \<or> dcType dbc = ''u''" "GetRelation db (dcRelId dbc) = Some r"
    and "\<And>s. relId (f s) = relId s" "\<And>s. relByOtherRelation (f s) = relByOtherRelation s" "\<And>s. relIndexCoverage (f s) = relIndexCoverage s"
    and "\<And>s. relUniqueColumnGroups (f s) = (relUniqueColumnGroups s)(sortedColumnKey (dcColumns dbc) \<mapsto> c)"
  shows "allLinked (raw @ [dbc]) (updRelation (relId r) f db)"
  unfolding allLinked_def GetRelation_upd [OF assms(4)] GetRelation_id [OF assms(3)]
proof (intro allI impI)
  fix i s
  assume s: "(if dcRelId dbc = i then map_option f (GetRelation db i) else GetRelation db i) = Some s"
  show "linked (raw @ [dbc]) i s"
  proof (cases "dcRelId dbc = i")
    case True
    with s obtain x where x: "GetRelation db i = Some x" "s = f x" by auto
    with assms(1) have "linked raw i x" by (simp add: allLinked_def)
    then show ?thesis unfolding x(2) by (rule linked_unique) (use True assms in auto)
  next
    case False
    with s assms(1) show ?thesis by (auto simp: allLinked_def intro!: linked_mono)
  qed
qed

lemma fillConstraint_linked:
  assumes "allLinked raw db" "fillConstraint dbc db = Inr db'"
  shows "allLinked (raw @ [dbc]) db'"
proof (cases "GetRelation db (dcRelId dbc)")
  case None
  then have "dcRelId dbc \<noteq> i" if "GetRelation db i = Some r" for i r using that by auto
  then show ?thesis using assms None by (auto simp: fillConstraint_def allLinked_def intro!: linked_mono)
next
  case (Some r)
  consider "dcType dbc = ''f''" | "dcType dbc = ''p''" | "dcType dbc = ''u''"
    using assms(2) Some by (auto simp: fillConstraint_def Let_def split: if_splits)
  then show ?thesis
  proof cases
    case 1
    show ?thesis
    proof (cases "GetRelation db (dcTargetRelId dbc)")
      case None
      then show ?thesis using assms Some 1 by (auto simp: fillConstraint_def allLinked_def Let_def intro!: linked_mono)
    next
      case (Some t)
      then show ?thesis
        using assms(2) \<open>GetRelation db (dcRelId dbc) = Some r\<close> 1 allLinked_foreign [OF assms(1) 1] fromRow_resolved
        by (auto simp: fillConstraint_def Let_def)
    qed
  next
    case 2
    then obtain c where "db' = updRelation (relId r) (addPrimaryKey dbc c) db"
      using assms(2) Some by (auto simp: fillConstraint_def Let_def split: if_splits)
    then show ?thesis using allLinked_unique [OF assms(1) _ Some, of "addPrimaryKey dbc c" c] 2 by (simp add: addPrimaryKey_def)
  next
    case 3
    then obtain c where "db' = updRelation (relId r) (addUnique dbc c) db"
      using assms(2) Some by (auto simp: fillConstraint_def Let_def split: if_splits)
    then show ?thesis using allLinked_unique [OF assms(1) _ Some, of "addUnique dbc c" c] 3 by (simp add: addUnique_def)
  qed
qed

lemma FillConstraintInformations_linked:
  "FillConstraintInformations raw db = Inr db' \<Longrightarrow> allLinked [] db \<Longrightarrow> allLinked raw db'"
proof -
  have "foldR fillConstraint raw db = Inr db' \<Longrightarrow> allLinked pre db \<Longrightarrow> allLinked (pre @ raw) db'" for pre db
  proof (induction raw arbitrary: pre db)
    case (Cons dbc raw)
    then obtain d where d: "fillConstraint dbc db = Inr d" "foldR fillConstraint raw d = Inr db'"
      by (auto simp: bindR_eq_Inr_iff)
    show ?case using Cons.IH [OF d(2) fillConstraint_linked [OF Cons.prems(2) d(1)]] by simp
  qed simp
  then show "FillConstraintInformations raw db = Inr db' \<Longrightarrow> allLinked [] db \<Longrightarrow> allLinked raw db'"
    by (fastforce simp: FillConstraintInformations_def)
qed

lemma coverage_registered:
  "relIndexCoverage (registerIndexCoverage cols r) =
     relIndexCoverage r \<union> {sortedColumnKey (take k cols) | k. 0 < k \<and> k \<le> length cols}"
  by (auto simp: registerIndexCoverage_def image_iff less_Suc_eq_le simp del: upt_Suc)

lemma fillIndex_relation:
  assumes "GetRelation (fillIndex ix db) i = Some r"
  obtains r0 where "GetRelation db i = Some r0" "relUniqueColumnGroups r = relUniqueColumnGroups r0"
    "relByOtherRelation r = relByOtherRelation r0"
    "relIndexCoverage r = relIndexCoverage r0 \<union>
      {sortedColumnKey (take k (diColumns ix)) | k. diRelId ix = i \<and> 0 < k \<and> k \<le> length (diColumns ix)}"
proof (cases "GetRelation db (diRelId ix)")
  case None
  then show ?thesis using assms that by (cases "diRelId ix = i") (auto simp: fillIndex_def)
next
  case (Some s)
  then have u: "fillIndex ix db = updRelation (diRelId ix) (registerIndexCoverage (diColumns ix)) db"
    using GetRelation_id [OF Some] by (simp add: fillIndex_def)
  show ?thesis
  proof (cases "diRelId ix = i")
    case True
    with Some assms u have "r = registerIndexCoverage (diColumns ix) s" by (simp add: GetRelation_upd)
    then show ?thesis
      using Some True that [of s] coverage_registered [of "diColumns ix" s] by (simp add: registerIndexCoverage_def del: upt_Suc)
  next
    case False
    then show ?thesis using assms u that by (auto simp: GetRelation_upd)
  qed
qed

lemma FillIndexInformations_relation:
  "GetRelation (FillIndexInformations raw db) i = Some r \<Longrightarrow>
   \<exists>r0. GetRelation db i = Some r0 \<and> relUniqueColumnGroups r = relUniqueColumnGroups r0 \<and>
     relByOtherRelation r = relByOtherRelation r0 \<and>
     relIndexCoverage r = relIndexCoverage r0 \<union>
       {sortedColumnKey (take k (diColumns ix)) | k ix. ix \<in> set raw \<and> diRelId ix = i \<and> 0 < k \<and> k \<le> length (diColumns ix)}"
proof (induction raw arbitrary: db)
  case (Cons ix raw)
  then obtain r1 where r1: "GetRelation (fillIndex ix db) i = Some r1" "relUniqueColumnGroups r = relUniqueColumnGroups r1"
    "relByOtherRelation r = relByOtherRelation r1"
    "relIndexCoverage r = relIndexCoverage r1 \<union>
       {sortedColumnKey (take k (diColumns ix)) | k ix. ix \<in> set raw \<and> diRelId ix = i \<and> 0 < k \<and> k \<le> length (diColumns ix)}"
    using Cons.IH [of "fillIndex ix db"] unfolding FillIndexInformations_def fold_simps by blast
  show ?case by (rule fillIndex_relation [OF r1(1)]) (use r1(2-4) in auto)
qed (simp add: FillIndexInformations_def)

subsection \<open>Joins\<close>

lemma pairLoop_True:
  "pairLoop on cs ts = Inr True \<Longrightarrow> k < length cs \<Longrightarrow>
   \<exists>c t. cs ! k = Some c \<and> k < length ts \<and> ts ! k = Some t \<and> map_of on c = Some t"
proof (induction on cs ts arbitrary: k rule: pairLoop.induct)
  case (3 on c cs ts)
  then obtain t ts' where "ts = Some t # ts'" "map_of on c = Some t" "pairLoop on cs ts' = Inr True"
    by (auto split: option.splits list.splits if_splits)
  with 3 show ?case by (cases k) auto
qed simp_all

lemma pairingMatches_row:
  assumes "pairingMatches c on = Inr True" "fromRow c cs ts"
  shows "pairedBy on cs ts"
proof -
  obtain o1 t1 where t1: "pcTarget c = Some (o1, t1)" "length (pcColumns c) = length cs" "length t1 = length ts"
    "\<And>k n. k < length cs \<Longrightarrow> pcColumns c ! k = Some n \<Longrightarrow> n = cs ! k" "\<And>k n. k < length ts \<Longrightarrow> t1 ! k = Some n \<Longrightarrow> n = ts ! k"
    using assms(2) by (auto simp: fromRow_def)
  then have "length cs = length on" "pairLoop on (pcColumns c) t1 = Inr True"
    using assms(1) by (auto simp: pairingMatches_def split: if_splits)
  moreover have "k < length ts \<and> map_of on (cs ! k) = Some (ts ! k)" if "k < length cs" for k
    using pairLoop_True [OF calculation(2), of k] that t1(2-5) by (metis (full_types))
  ultimately show ?thesis by (simp add: pairedBy_def)
qed

lemma findPairing_Some: "findPairing on cs = Inr (Some c) \<Longrightarrow> c \<in> set cs \<and> pairingMatches c on = Inr True"
  by (induction cs) (auto simp: bindR_eq_Inr_iff split: if_splits)

lemma ResolveJoin_accepts:
  assumes "ResolveJoin r parent on = Inr (c, one)"
  shows "on \<noteq> []" "one \<longleftrightarrow> FindUniqueConstraint r (map fst on) \<noteq> None" "IsIndexed r (map fst on)"
    and "(\<exists>c' \<in> set (RelationshipsTo r parent). pairingMatches c' on = Inr True) \<or>
      FindUniqueConstraint r (map fst on) \<noteq> None \<or> FindUniqueConstraint parent (map snd on) \<noteq> None"
proof -
  show on: "on \<noteq> []" using assms by (auto simp: ResolveJoin_def)
  obtain found where "backingConstraint r parent on = Inr found" "found = Some c" "IsIndexed r (map fst on)"
    "one \<longleftrightarrow> FindUniqueConstraint r (map fst on) \<noteq> None"
    using assms on by (auto simp: ResolveJoin_def Let_def bindR_eq_Inr_iff split: option.splits if_splits)
  then show "one \<longleftrightarrow> FindUniqueConstraint r (map fst on) \<noteq> None" "IsIndexed r (map fst on)"
    "(\<exists>c' \<in> set (RelationshipsTo r parent). pairingMatches c' on = Inr True) \<or>
      FindUniqueConstraint r (map fst on) \<noteq> None \<or> FindUniqueConstraint parent (map snd on) \<noteq> None"
    by (auto simp: backingConstraint_def Let_def bindR_eq_Inr_iff dest!: findPairing_Some split: option.splits if_splits)
qed

text \<open>The rows name columns without commas, and the relations hold nothing yet.\<close>

definition plainRows :: "dbConstraint list \<Rightarrow> dbIndex list \<Rightarrow> bool" where
  "plainRows raw idx \<longleftrightarrow>
     (\<forall>dbc \<in> set raw. dcType dbc = ''p'' \<or> dcType dbc = ''u'' \<longrightarrow> plainNames (dcColumns dbc)) \<and>
     (\<forall>ix \<in> set idx. diColumns ix \<noteq> [] \<longrightarrow> plainNames (diColumns ix))"

definition freshRelations :: "dbInfos \<Rightarrow> bool" where
  "freshRelations db \<longleftrightarrow>
     (\<forall>r \<in> set (dbRelations db). relUniqueColumnGroups r = Map.empty \<and> relByOtherRelation r = (\<lambda>_. []) \<and> relIndexCoverage r = {})"

lemma freshRelations_linked: "freshRelations db \<Longrightarrow> allLinked [] db"
  by (auto simp: freshRelations_def allLinked_def linked_def GetRelation_def find_Some_iff)

lemma unique_of_rows:
  assumes "linked raw i r0" "relUniqueColumnGroups r = relUniqueColumnGroups r0" "plainRows raw idx" "plainNames cols"
  shows "FindUniqueConstraint r cols \<noteq> None \<longleftrightarrow> uniqueRow raw i cols"
  unfolding FindUniqueConstraint_def assms(2) linkedD(1) [OF assms(1)] uniqueRow_def
proof (intro bex_cong refl conj_cong)
  fix dbc
  assume d: "dbc \<in> set raw" "dcType dbc = ''p'' \<or> dcType dbc = ''u''"
  then have "plainNames (dcColumns dbc)" using assms(3) by (auto simp: plainRows_def)
  with sortedColumnKey_iff assms(4) show "(sortedColumnKey cols = sortedColumnKey (dcColumns dbc)) = (mset (dcColumns dbc) = mset cols)"
    by metis
qed

lemma index_of_rows:
  assumes "relIndexCoverage r =
       {sortedColumnKey (take k (diColumns ix)) | k ix. ix \<in> set idx \<and> diRelId ix = i \<and> 0 < k \<and> k \<le> length (diColumns ix)}"
    and "plainRows raw idx" "plainNames cols" "IsIndexed r cols"
  shows "indexRow idx i cols"
proof -
  obtain k ix where ix: "sortedColumnKey cols = sortedColumnKey (take k (diColumns ix))" "ix \<in> set idx" "diRelId ix = i"
    "0 < k" "k \<le> length (diColumns ix)" using assms(1,4) by (auto simp: IsIndexed_def)
  then have "plainNames (take k (diColumns ix))" using assms(2) by (intro plainNames_take) (auto simp: plainRows_def)
  then show ?thesis using ix assms(3) sortedColumnKey_iff by (auto simp: indexRow_def)
qed

subsection \<open>Properties\<close>


definition sampleColumn :: "string \<Rightarrow> column" where
  "sampleColumn n = \<lparr>colName = n, colType = TypeInfo 23 [] None False None None (''pg_catalog'', ''int4''), colIsGenerated = False, colIsIdentity = False,
     colIsNullable = False, colIsPrimaryKey = False, colIsPartOfUnique = False, colDefaultExpression = []\<rparr>"

definition sampleDb :: dbInfos where
  "sampleDb = \<lparr>dbRelations = [newRelation ''public'' ''orders'' 1 False False (map sampleColumn [''id'', ''customer'']),
                              newRelation ''public'' ''customers'' 2 False False [sampleColumn ''id'']],
     dbFunctions = [], dbTypes = [], dbSearchPath = [''public''], dbRelationIndex = Map.empty, dbFunctionIndex = (\<lambda>_. [])\<rparr>"

definition sampleRows :: "dbConstraint list" where
  "sampleRows = [\<lparr>dcName = ''orders_pk'', dcType = ''p'', dcRelId = 1, dcColumns = [''id''], dcTargetRelId = 0, dcTargetColumns = []\<rparr>,
     \<lparr>dcName = ''orders_fk'', dcType = ''f'', dcRelId = 1, dcColumns = [''customer''], dcTargetRelId = 2, dcTargetColumns = [''id'']\<rparr>]"

definition sampleIndexes :: "dbIndex list" where
  "sampleIndexes = [\<lparr>diRelId = 1, diColumns = [''customer'', ''id'']\<rparr>]"

lemma sample_filled:
  "\<exists>db1. FillConstraintInformations sampleRows sampleDb = Inr db1 \<and>
     (\<exists>r parent c. GetRelation (FillIndexInformations sampleIndexes db1) 1 = Some r \<and>
       GetRelation (FillIndexInformations sampleIndexes db1) 2 = Some parent \<and>
       ResolveJoin r parent [(''customer'', ''id'')] = Inr (c, False))"
  by (simp add: FillConstraintInformations_def sampleRows_def sampleDb_def fillConstraint_def GetRelation_def newRelation_def
      resolveColumns_def ColumnsMap_def sampleColumn_def Let_def updRelation_def addPrimaryKey_def markColumns_def addIncoming_def
      addOutgoing_def FillIndexInformations_def sampleIndexes_def fillIndex_def registerIndexCoverage_def ResolveJoin_def
      backingConstraint_def RelationshipsTo_def pairingMatches_def FindUniqueConstraint_def IsIndexed_def sortedColumnKey_def
      upt_conv_Cons)


end
