(* ===== verification/Node_Resolve.thy ===== *)
theory Node_Resolve
  imports Pg_Catalog Node_Parse
begin

text \<open>
  The first pass of resolution (\<open>query/node_resolve.go\<close>): a decoded relation tree becomes a tree of query nodes whose
  relations, functions, joins, write modes and conflict targets exist in the introspected schema, the black lists of
  \<open>config/config.go\<close>, and the pruning of a write to its writable nodes (\<open>assignNodeIDs\<close> of \<open>query/write.go\<close>).  The
  pointer of a node to its parent is the place of the node in the tree; what a child reads of its parent is given to
  \<open>resolveNode\<close>.
\<close>

subsection \<open>Nodes\<close>

datatype WriteMode = READONLY | MERGE | MERGE_NEW | MERGE_UPDATE | INSERT | UPSERT | UPDATE_EXISTING | DELETE_ONLY | UPDATE | DELETE

record nodeInfo =
  niJoinColumns :: "(column \<times> column) list"
  niOuterAlias :: string
  niRelation :: "relation option"
  niFunction :: "pgfunction option"
  niFunctionArguments :: "expression list"
  niFunctionArgumentMap :: "(string \<times> expression) list"
  niInnerName :: string
  niWhere :: "expression option"
  niWriteMode :: WriteMode
  niOnConflictConstraintName :: string
  niOnConflictColumns :: "string list"
  niInsertColumns :: "string list"
  niUpdateColumns :: "string list"
  niSelect :: expression
  niDistinct :: bool
  niDistinctOn :: "expression list"
  niOrderBy :: "OrderByTerm list"
  niOffset :: "int option"
  niLimit :: "int option"

datatype queryNode = QueryNode (qnInfo: nodeInfo) (qnOutgoing: "queryNode list") (qnIncoming: "queryNode list")

definition IsFunction :: "nodeInfo \<Rightarrow> bool" where "IsFunction n \<longleftrightarrow> niFunction n \<noteq> None"

subsection \<open>Configuration\<close>

record resolveConfig =
  cfgMaxDepth :: int
  cfgFunctions :: "string \<times> string \<Rightarrow> string"
  cfgRelations :: "string \<times> string \<Rightarrow> string"

definition IsTruthy :: "string \<Rightarrow> bool" where
  "IsTruthy v \<longleftrightarrow> v \<in> {''y'', ''Y'', ''yes'', ''true'', ''1''}"

definition IsFunctionBlacklisted :: "resolveConfig \<Rightarrow> string \<Rightarrow> string \<Rightarrow> bool" where
  "IsFunctionBlacklisted cfg schema name \<longleftrightarrow>
     IsTruthy (cfgFunctions cfg (schema, name)) \<or> IsTruthy (cfgFunctions cfg (schema, ''*''))"

definition IsRelationBlacklisted :: "resolveConfig \<Rightarrow> string \<Rightarrow> string \<Rightarrow> bool" where
  "IsRelationBlacklisted cfg schema name \<longleftrightarrow>
     IsTruthy (cfgRelations cfg (schema, name)) \<or> IsTruthy (cfgRelations cfg (schema, ''*''))"

subsection \<open>Errors\<close>

datatype resolve_error =
    ExceedsMaxDepth | UnknownFunction | NoOverloadMatches | AmbiguousFunction | FunctionBlacklisted | UnknownRelation
  | RelationBlacklisted | JoinIntoNoRelation | JoinParentNoRelation | JoinError catalog_error | OnUnknownLocal | OnUnknownParent
  | UnknownWriteMode | ToOneWriteMode | OnlyOnRoot | RequiresWhere | DeleteTakesNoJoin | OnlyOnIncoming | OnlyReadonlyUnder
  | OnConflictNoRelation | UnknownConstraint | NoUniqueConstraint | InsertColumnsUnknown | UpdateColumnsUnknown
  | UnresolvableIdentifier | AmbiguousIdentifier | NoScopeForIdentifier | NoRelationInScope | UnknownColumn | OpaqueChain
  | HopNotName | NotComposite | UnknownCompositeField | UnknownField | CannotChain | NotAnArray | ColNotAColumn | KeyCollides
  | ScopeShapeDisagree | SelfReferentialShape | LiteralTerm | NilPointer | OutOfTurns

subsection \<open>Functions\<close>

definition functionAcceptsNames :: "pgfunction \<Rightarrow> string list \<Rightarrow> bool" where
  "functionAcceptsNames f named =
     (let inputNames = map argName (filter (\<lambda>a. argMode a = MODE_IN \<or> argMode a = MODE_INOUT) (fnArguments f));
          required = nat (max (int (length inputNames) - fnNargsDefaults f) 0)
      in list_all (\<lambda>n. n \<in> set inputNames) named \<and> list_all (\<lambda>n. n \<in> set named) (take required inputNames))"

definition functionMatches :: "expression list \<Rightarrow> (string \<times> expression) list option \<Rightarrow> pgfunction \<Rightarrow> bool" where
  "functionMatches positional named f =
     (case named of
        Some m \<Rightarrow> functionAcceptsNames f (map fst m)
      | None \<Rightarrow> AcceptsArity f (int (length positional)))"

definition resolveFunctionCandidate ::
  "dbInfos \<Rightarrow> resolveConfig \<Rightarrow> string \<Rightarrow> string \<Rightarrow> expression list \<Rightarrow> (string \<times> expression) list option \<Rightarrow>
   (pgfunction \<Rightarrow> bool) \<Rightarrow> bool \<Rightarrow> resolve_error + pgfunction" where
  "resolveFunctionCandidate db cfg schema name positional named kindOK allowOverloads =
     (let filtered = filter kindOK (ResolveFunctionCandidates db schema name);
          found = filter (functionMatches positional named) filtered
      in if filtered = [] then Inl UnknownFunction
         else if found = [] then Inl NoOverloadMatches
         else if length found > 1 \<and> \<not> allowOverloads then Inl AmbiguousFunction
         else
           let fn = hd found in
           if IsFunctionBlacklisted cfg (fnSchema fn) (fnName fn) then Inl FunctionBlacklisted else Inr fn)"

subsection \<open>One node\<close>

definition orEmpty :: "'a list option \<Rightarrow> 'a list" where
  "orEmpty xs = (case xs of None \<Rightarrow> [] | Some ys \<Rightarrow> ys)"

definition resolveSource :: "dbInfos \<Rightarrow> resolveConfig \<Rightarrow> rawRelation \<Rightarrow> resolve_error + (relation option \<times> pgfunction option)" where
  "resolveSource db cfg raw =
     (if rrIsFunction raw then
        bindR (resolveFunctionCandidate db cfg (rrSchema raw) (rrFunction raw) (orEmpty (rrArgumentsPositional raw))
                 (rrArgumentsNamed raw) IsPlainFunction False) (\<lambda>fn.
          Inr (case GetRelationByType db (fnReturnTypeOid fn) of Some r \<Rightarrow> Some r | None \<Rightarrow> RecordRelation fn, Some fn))
      else
        case ResolveRelation db (rrSchema raw) (rrRelation raw) of
          None \<Rightarrow> Inl UnknownRelation
        | Some r \<Rightarrow>
            if IsRelationBlacklisted cfg (relSchema r) (relName r) then Inl RelationBlacklisted else Inr (Some r, None))"

definition joinColumn :: "relation \<Rightarrow> relation \<Rightarrow> string \<times> string \<Rightarrow> resolve_error + (column \<times> column)" where
  "joinColumn r parent lp =
     (case ColumnsMap r (fst lp) of
        None \<Rightarrow> Inl OnUnknownLocal
      | Some l \<Rightarrow> (case ColumnsMap parent (snd lp) of None \<Rightarrow> Inl OnUnknownParent | Some d \<Rightarrow> Inr (l, d)))"

text \<open>How a node is joined to its parent: its columns, in the order of their names, and whether the join is to-one.\<close>

definition resolveJoinTo :: "nodeInfo option \<Rightarrow> relation option \<Rightarrow> rawRelation \<Rightarrow> resolve_error + ((column \<times> column) list \<times> bool)" where
  "resolveJoinTo parent rel raw =
     (case parent of
        None \<Rightarrow> Inr ([], False)
      | Some p \<Rightarrow>
          (case (rel, niRelation p) of
             (None, _) \<Rightarrow> Inl JoinIntoNoRelation
           | (Some _, None) \<Rightarrow> Inl JoinParentNoRelation
           | (Some r, Some pr) \<Rightarrow>
               bindR (mapErr JoinError (ResolveJoin r pr (orEmpty (rrOn raw)))) (\<lambda>(_, isToOne).
                 bindR (traverse (joinColumn r pr) (sort_key fst (orEmpty (rrOn raw)))) (\<lambda>cols. Inr (cols, isToOne)))))"

definition writeModeByString :: "(string \<times> WriteMode) list" where
  "writeModeByString =
     [(''merge'', MERGE), (''readonly'', READONLY), (''insert'', INSERT), (''upsert'', UPSERT), (''merge-new'', MERGE_NEW),
      (''merge-update'', MERGE_UPDATE), (''update-existing'', UPDATE_EXISTING), (''deleteonly'', DELETE_ONLY), (''update'', UPDATE),
      (''delete'', DELETE)]"

definition isWhereDriven :: "WriteMode \<Rightarrow> bool" where "isWhereDriven m \<longleftrightarrow> m = UPDATE \<or> m = DELETE"

definition isMergeFamily :: "WriteMode \<Rightarrow> bool" where
  "isMergeFamily m \<longleftrightarrow> m = MERGE \<or> m = MERGE_NEW \<or> m = MERGE_UPDATE \<or> m = DELETE_ONLY"

definition checkWriteModePlacement :: "rawRelation \<Rightarrow> WriteMode \<Rightarrow> nodeInfo option \<Rightarrow> resolve_error + unit" where
  "checkWriteModePlacement raw m parent =
     bindR (if isWhereDriven m then
              (if parent \<noteq> None then Inl OnlyOnRoot
               else if rrWhere raw = None then Inl RequiresWhere
               else if m = DELETE \<and> orEmpty (rrJoin raw) \<noteq> [] then Inl DeleteTakesNoJoin
               else Inr ())
            else if isMergeFamily m \<and> parent = None then Inl OnlyOnIncoming
            else Inr ()) (\<lambda>_.
       case parent of
         Some p \<Rightarrow> if isWhereDriven (niWriteMode p) \<and> m \<noteq> READONLY then Inl OnlyReadonlyUnder else Inr ()
       | None \<Rightarrow> Inr ())"

definition givenWriteMode :: "rawRelation \<Rightarrow> nodeInfo option \<Rightarrow> bool \<Rightarrow> resolve_error + WriteMode" where
  "givenWriteMode raw parent isToOne =
     (if rrWriteMode raw = [] then
        Inr (case parent of
               None \<Rightarrow> INSERT
             | Some p \<Rightarrow> if isWhereDriven (niWriteMode p) then READONLY else if isToOne then UPSERT else MERGE)
      else
        case map_of writeModeByString (rrWriteMode raw) of None \<Rightarrow> Inl UnknownWriteMode | Some m \<Rightarrow> Inr m)"

definition resolveWriteMode :: "rawRelation \<Rightarrow> nodeInfo option \<Rightarrow> bool \<Rightarrow> resolve_error + WriteMode" where
  "resolveWriteMode raw parent isToOne =
     bindR (givenWriteMode raw parent isToOne) (\<lambda>m.
     bindR (guardR (\<not> (parent \<noteq> None \<and> isToOne \<and> isMergeFamily m)) ToOneWriteMode) (\<lambda>_.
     bindR (checkWriteModePlacement raw m parent) (\<lambda>_. Inr m)))"

definition resolveOnConflict :: "relation option \<Rightarrow> rawRelation \<Rightarrow> resolve_error + (string \<times> string list)" where
  "resolveOnConflict rel raw =
     (let name = rrOnConflictConstraintName raw; cols = orEmpty (rrOnConflictColumns raw) in
      if name \<noteq> [] \<or> cols \<noteq> [] then
        (case rel of
           None \<Rightarrow> Inl OnConflictNoRelation
         | Some r \<Rightarrow>
             if name \<noteq> [] then
               (case FindConstraintByName r name of None \<Rightarrow> Inl UnknownConstraint | Some c \<Rightarrow> Inr (pcName c, []))
             else
               (case FindUniqueConstraint r cols of None \<Rightarrow> Inl NoUniqueConstraint | Some c \<Rightarrow> Inr (pcName c, cols)))
      else
        Inr (case rel of
               None \<Rightarrow> ([], [])
             | Some r \<Rightarrow> (case relPrimaryKey r of None \<Rightarrow> ([], []) | Some c \<Rightarrow> (pcName c, []))))"

definition hasColumn :: "relation option \<Rightarrow> string \<Rightarrow> bool" where
  "hasColumn rel name = (case rel of None \<Rightarrow> False | Some r \<Rightarrow> ColumnsMap r name \<noteq> None)"

definition resolveInfo ::
  "dbInfos \<Rightarrow> resolveConfig \<Rightarrow> rawRelation \<Rightarrow> nodeInfo option \<Rightarrow> string \<Rightarrow> resolve_error + (nodeInfo \<times> bool)" where
  "resolveInfo db cfg raw parent outerAlias =
     bindR (resolveSource db cfg raw) (\<lambda>(rel, fn).
     bindR (resolveJoinTo parent rel raw) (\<lambda>(joinCols, isToOne).
     bindR (resolveWriteMode raw parent isToOne) (\<lambda>m.
     bindR (resolveOnConflict rel raw) (\<lambda>(constraintName, conflictCols).
     bindR (guardR (list_all (hasColumn rel) (orEmpty (rrInsertColumns raw))) InsertColumnsUnknown) (\<lambda>_.
     bindR (guardR (list_all (hasColumn rel) (orEmpty (rrUpdateColumns raw))) UpdateColumnsUnknown) (\<lambda>_.
       Inr (\<lparr>niJoinColumns = joinCols, niOuterAlias = outerAlias, niRelation = rel, niFunction = fn,
             niFunctionArguments = (if rrIsFunction raw then orEmpty (rrArgumentsPositional raw) else []),
             niFunctionArgumentMap = (if rrIsFunction raw then orEmpty (rrArgumentsNamed raw) else []),
             niInnerName = rrAlias raw, niWhere = rrWhere raw, niWriteMode = m,
             niOnConflictConstraintName = constraintName, niOnConflictColumns = conflictCols,
             niInsertColumns = orEmpty (rrInsertColumns raw), niUpdateColumns = orEmpty (rrUpdateColumns raw),
             niSelect = (case rrSelect raw of Some e \<Rightarrow> e | None \<Rightarrow> StarExpr False [] None),
             niDistinct = rrDistinct raw, niDistinctOn = orEmpty (rrDistinctOn raw), niOrderBy = orEmpty (rrOrderBy raw),
             niOffset = rrOffset raw, niLimit = rrLimit raw\<rparr>, isToOne)))))))"

subsection \<open>The tree\<close>

text \<open>The children in the order of their aliases; those joined to one row are the outgoing ones.\<close>

definition sortedJoin :: "rawRelation \<Rightarrow> (string \<times> rawRelation) list" where
  "sortedJoin raw = sort_key fst (orEmpty (rrJoin raw))"

lemma sortedJoin_size: "(a, child) \<in> set (sortedJoin raw) \<Longrightarrow> size child < size raw"
proof -
  assume "(a, child) \<in> set (sortedJoin raw)"
  then obtain js where "rrJoin raw = Some js" "(a, child) \<in> set js"
    by (cases "rrJoin raw") (auto simp: sortedJoin_def orEmpty_def)
  then show ?thesis
    using size_list_estimation' [of "(a, child)" js "size child" "size_prod (\<lambda>_. 0) size"] by (cases raw) simp
qed

function resolveNode ::
  "dbInfos \<Rightarrow> resolveConfig \<Rightarrow> rawRelation \<Rightarrow> nodeInfo option \<Rightarrow> string \<Rightarrow> int \<Rightarrow> resolve_error + (queryNode \<times> bool)" where
  "resolveNode db cfg raw parent outerAlias depth =
     (if depth > cfgMaxDepth cfg then Inl ExceedsMaxDepth
      else
        bindR (resolveInfo db cfg raw parent outerAlias) (\<lambda>(info, isToOne).
        bindR (traverse (\<lambda>(alias, child). resolveNode db cfg child (Some info) alias (depth + 1)) (sortedJoin raw)) (\<lambda>children.
          Inr (QueryNode info (map fst (filter snd children)) (map fst (filter (\<lambda>c. \<not> snd c) children)), isToOne))))"
  by pat_completeness auto
termination
  by (relation "measure (\<lambda>(db, cfg, raw, _). size raw)") (auto dest: sortedJoin_size)

declare resolveNode.simps [simp del]

definition resolveQuery :: "dbInfos \<Rightarrow> resolveConfig \<Rightarrow> rawRelation \<Rightarrow> resolve_error + queryNode" where
  "resolveQuery db cfg raw = bindR (resolveNode db cfg raw None [] 1) (\<lambda>(node, _). Inr node)"

subsection \<open>The nodes a write touches\<close>

text \<open>Node identities are the aliases from the root down; the numbers are given in pre-order, outgoing joins first.\<close>

fun assignWalk :: "string list \<Rightarrow> queryNode \<Rightarrow> (string list \<times> int) list \<times> int \<Rightarrow> (string list \<times> int) list \<times> int" where
  "assignWalk path (QueryNode info out inc) (ids, next) =
     (if niWriteMode info = READONLY then (ids, next)
      else
        fold (\<lambda>c. assignWalk (path @ [niOuterAlias (qnInfo c)]) c) inc
          (fold (\<lambda>c. assignWalk (path @ [niOuterAlias (qnInfo c)]) c) out (ids @ [(path, next)], next + 1)))"

definition assignNodeIDs :: "queryNode \<Rightarrow> int \<Rightarrow> (string list \<times> int) list \<times> int" where
  "assignNodeIDs root startAt = assignWalk [] root ([], startAt)"

subsection \<open>What holds at every node\<close>

fun treeAll :: "(nodeInfo option \<Rightarrow> bool \<Rightarrow> nodeInfo \<Rightarrow> nat \<Rightarrow> bool) \<Rightarrow> nodeInfo option \<Rightarrow> bool \<Rightarrow> queryNode \<Rightarrow> bool" where
  "treeAll P parent one (QueryNode info out inc) \<longleftrightarrow>
     P parent one info (length out + length inc) \<and>
     list_all (treeAll P (Some info) True) out \<and> list_all (treeAll P (Some info) False) inc"

fun height :: "queryNode \<Rightarrow> int" where
  "height (QueryNode info out inc) = 1 + Max (insert 0 (set (map height (out @ inc))))"

lemma resolveNode_Inr:
  assumes "resolveNode db cfg raw parent al d = Inr (node, one)"
  obtains info children where "d \<le> cfgMaxDepth cfg" "resolveInfo db cfg raw parent al = Inr (info, one)"
    "list_all2 (\<lambda>(a, child) c. resolveNode db cfg child (Some info) a (d + 1) = Inr c) (sortedJoin raw) children"
    "node = QueryNode info (map fst (filter snd children)) (map fst (filter (\<lambda>c. \<not> snd c) children))"
  using assms by (subst (asm) resolveNode.simps) (auto simp: bindR_eq_Inr_iff traverse_eq_Inr_iff split_def split: if_splits)

lemma length_children: "length (map fst (filter snd cs)) + length (map fst (filter (\<lambda>c. \<not> snd c) cs)) = length cs"
  by (simp add: sum_length_filter_compl)

lemma resolveNode_all:
  assumes "\<And>raw parent al info one. resolveInfo db cfg raw parent al = Inr (info, one) \<Longrightarrow>
      P parent one info (length (orEmpty (rrJoin raw)))"
  shows "resolveNode db cfg raw parent al d = Inr (node, one) \<Longrightarrow> treeAll P parent one node"
proof (induction raw arbitrary: parent al d node one rule: measure_induct_rule [of size])
  case (less raw)
  from less.prems obtain info children where n: "resolveInfo db cfg raw parent al = Inr (info, one)"
    "list_all2 (\<lambda>(a, child) c. resolveNode db cfg child (Some info) a (d + 1) = Inr c) (sortedJoin raw) children"
    "node = QueryNode info (map fst (filter snd children)) (map fst (filter (\<lambda>c. \<not> snd c) children))"
    by (rule resolveNode_Inr)
  have c: "treeAll P (Some info) b c" if bc: "(c, b) \<in> set children" for c b
  proof -
    obtain k where k: "k < length children" "children ! k = (c, b)" using bc by (auto simp: in_set_conv_nth)
    obtain a child where ac: "sortedJoin raw ! k = (a, child)" by fastforce
    with n(2) k have "resolveNode db cfg child (Some info) a (d + 1) = Inr (c, b)" "(a, child) \<in> set (sortedJoin raw)"
      by (auto simp: list_all2_conv_all_nth in_set_conv_nth)
    then show ?thesis using less.IH sortedJoin_size by blast
  qed
  have "length children = length (orEmpty (rrJoin raw))" using list_all2_lengthD [OF n(2)] by (simp add: sortedJoin_def)
  with assms [OF n(1)] have "P parent one info (length children)" by simp
  then show ?case unfolding n(3) treeAll.simps length_children using c by (fastforce simp: list_all_iff)
qed

lemma resolveNode_height: "resolveNode db cfg raw parent al d = Inr (node, one) \<Longrightarrow> d + height node \<le> cfgMaxDepth cfg + 1"
proof (induction raw arbitrary: parent al d node one rule: measure_induct_rule [of size])
  case (less raw)
  from less.prems obtain info children where n: "d \<le> cfgMaxDepth cfg"
    "list_all2 (\<lambda>(a, child) c. resolveNode db cfg child (Some info) a (d + 1) = Inr c) (sortedJoin raw) children"
    "node = QueryNode info (map fst (filter snd children)) (map fst (filter (\<lambda>c. \<not> snd c) children))"
    by (rule resolveNode_Inr)
  have c: "d + 1 + height c \<le> cfgMaxDepth cfg + 1" if bc: "(c, b) \<in> set children" for c b
  proof -
    obtain k where k: "k < length children" "children ! k = (c, b)" using bc by (auto simp: in_set_conv_nth)
    obtain a child where ac: "sortedJoin raw ! k = (a, child)" by fastforce
    with n(2) k have "resolveNode db cfg child (Some info) a (d + 1) = Inr (c, b)" "(a, child) \<in> set (sortedJoin raw)"
      by (auto simp: list_all2_conv_all_nth in_set_conv_nth)
    then show ?thesis using less.IH sortedJoin_size by blast
  qed
  have "Max (insert 0 (set (map height (map fst (filter snd children) @ map fst (filter (\<lambda>c. \<not> snd c) children))))) \<le>
      cfgMaxDepth cfg - d"
    using n(1) c by (subst Max_le_iff) (auto simp: algebra_simps)
  then show ?case unfolding n(3) height.simps by linarith
qed

definition nodePlaced :: "nodeInfo option \<Rightarrow> bool \<Rightarrow> nodeInfo \<Rightarrow> nat \<Rightarrow> bool" where
  "nodePlaced parent one info joins \<longleftrightarrow>
     (isMergeFamily (niWriteMode info) \<longrightarrow> parent \<noteq> None \<and> \<not> one) \<and>
     (isWhereDriven (niWriteMode info) \<longrightarrow> parent = None \<and> niWhere info \<noteq> None) \<and>
     (niWriteMode info = DELETE \<longrightarrow> joins = 0) \<and>
     (\<forall>p. parent = Some p \<and> isWhereDriven (niWriteMode p) \<longrightarrow> niWriteMode info = READONLY)"

definition nodeAllowed :: "resolveConfig \<Rightarrow> nodeInfo option \<Rightarrow> bool \<Rightarrow> nodeInfo \<Rightarrow> nat \<Rightarrow> bool" where
  "nodeAllowed cfg parent one info joins \<longleftrightarrow>
     (case niFunction info of
        Some f \<Rightarrow> IsPlainFunction f \<and> \<not> IsFunctionBlacklisted cfg (fnSchema f) (fnName f)
      | None \<Rightarrow> (\<exists>r. niRelation info = Some r \<and> \<not> IsRelationBlacklisted cfg (relSchema r) (relName r)))"

definition nodeJoined :: "nodeInfo option \<Rightarrow> bool \<Rightarrow> nodeInfo \<Rightarrow> nat \<Rightarrow> bool" where
  "nodeJoined parent one info joins \<longleftrightarrow>
     (case parent of
        None \<Rightarrow> niJoinColumns info = []
      | Some p \<Rightarrow>
          (\<exists>r pr c. niRelation info = Some r \<and> niRelation p = Some pr \<and> niJoinColumns info \<noteq> [] \<and>
             (\<forall>(l, d) \<in> set (niJoinColumns info). l \<in> set (relColumns r) \<and> d \<in> set (relColumns pr)) \<and>
             (\<exists>on. ResolveJoin r pr on = Inr (c, one) \<and>
                map (\<lambda>(l, d). (colName l, colName d)) (niJoinColumns info) = sort_key fst on)))"

lemma ColumnsMap_mem: "ColumnsMap r n = Some c \<Longrightarrow> c \<in> set (relColumns r) \<and> colName c = n"
  by (auto simp: ColumnsMap_def dest!: map_of_SomeD)

lemma resolveInfo_Inr:
  assumes "resolveInfo db cfg raw parent al = Inr (info, one)"
  obtains "resolveSource db cfg raw = Inr (niRelation info, niFunction info)"
    "resolveJoinTo parent (niRelation info) raw = Inr (niJoinColumns info, one)"
    "resolveWriteMode raw parent one = Inr (niWriteMode info)" "niWhere info = rrWhere raw"
  using assms by (auto simp: resolveInfo_def bindR_eq_Inr_iff guardR_eq_Inr_iff)

lemma resolveInfo_placed:
  assumes "resolveInfo db cfg raw parent al = Inr (info, one)"
  shows "nodePlaced parent one info (length (orEmpty (rrJoin raw)))"
proof (rule resolveInfo_Inr [OF assms])
  assume a: "resolveWriteMode raw parent one = Inr (niWriteMode info)" "niWhere info = rrWhere raw"
  then have "checkWriteModePlacement raw (niWriteMode info) parent = Inr ()" "\<not> (parent \<noteq> None \<and> one \<and> isMergeFamily (niWriteMode info))"
    by (auto simp: resolveWriteMode_def bindR_eq_Inr_iff guardR_eq_Inr_iff)
  with a(2) show ?thesis
    by (auto simp: nodePlaced_def checkWriteModePlacement_def isWhereDriven_def isMergeFamily_def bindR_eq_Inr_iff
        split: if_splits option.splits)
qed

lemma resolveFunctionCandidate_allowed:
  assumes "resolveFunctionCandidate db cfg schema name pos named kindOK overloads = Inr f"
  shows "kindOK f \<and> \<not> IsFunctionBlacklisted cfg (fnSchema f) (fnName f) \<and> functionMatches pos named f"
proof -
  let ?found = "filter (functionMatches pos named) (filter kindOK (ResolveFunctionCandidates db schema name))"
  have f: "?found \<noteq> []" "f = hd ?found" "\<not> IsFunctionBlacklisted cfg (fnSchema f) (fnName f)"
    using assms by (auto simp: resolveFunctionCandidate_def Let_def split: if_splits)
  then have "f \<in> set ?found" using hd_in_set [of ?found] by simp
  with f(3) show ?thesis by auto
qed

lemma resolveInfo_allowed:
  assumes "resolveInfo db cfg raw parent al = Inr (info, one)"
  shows "nodeAllowed cfg parent one info k"
proof (rule resolveInfo_Inr [OF assms])
  assume s: "resolveSource db cfg raw = Inr (niRelation info, niFunction info)"
  show ?thesis
  proof (cases "rrIsFunction raw")
    case True
    with s obtain f where "niFunction info = Some f" "resolveFunctionCandidate db cfg (rrSchema raw) (rrFunction raw)
        (orEmpty (rrArgumentsPositional raw)) (rrArgumentsNamed raw) IsPlainFunction False = Inr f"
      by (fastforce simp: resolveSource_def bindR_eq_Inr_iff)
    then show ?thesis using resolveFunctionCandidate_allowed [of db cfg] by (simp add: nodeAllowed_def) blast
  next
    case False
    with s show ?thesis
      by (cases "ResolveRelation db (rrSchema raw) (rrRelation raw)"; cases "niRelation info"; cases "niFunction info")
        (simp_all add: resolveSource_def nodeAllowed_def split: if_splits)
  qed
qed

lemma joinColumn_Inr: "joinColumn r pr lp = Inr (l, d) \<longleftrightarrow> ColumnsMap r (fst lp) = Some l \<and> ColumnsMap pr (snd lp) = Some d"
  by (auto simp: joinColumn_def split: option.splits)

lemma resolveInfo_joined:
  assumes "resolveInfo db cfg raw parent al = Inr (info, one)"
  shows "nodeJoined parent one info k"
proof (rule resolveInfo_Inr [OF assms])
  assume j: "resolveJoinTo parent (niRelation info) raw = Inr (niJoinColumns info, one)"
  show ?thesis
  proof (cases parent)
    case (Some p)
    let ?on = "orEmpty (rrOn raw)" let ?cols = "niJoinColumns info"
    obtain r pr c where r: "niRelation info = Some r" "niRelation p = Some pr" "ResolveJoin r pr ?on = Inr (c, one)"
      "list_all2 (\<lambda>lp ld. joinColumn r pr lp = Inr ld) (sort_key fst ?on) ?cols"
      using j Some by (auto simp: resolveJoinTo_def bindR_eq_Inr_iff mapErr_eq_Inr_iff traverse_eq_Inr_iff split: option.splits)
    have "?on \<noteq> []" using ResolveJoin_accepts(1) [OF r(3)] .
    then have "?cols \<noteq> []" using list_all2_lengthD [OF r(4)] by (metis length_0_conv length_sort)
    moreover have "l \<in> set (relColumns r) \<and> d \<in> set (relColumns pr)" if "(l, d) \<in> set ?cols" for l d
    proof -
      obtain k where "k < length ?cols" "?cols ! k = (l, d)" using \<open>(l, d) \<in> set ?cols\<close> by (auto simp: in_set_conv_nth)
      then have "joinColumn r pr (sort_key fst ?on ! k) = Inr (l, d)" using r(4) by (simp add: list_all2_conv_all_nth)
      then show ?thesis using ColumnsMap_mem by (auto simp: joinColumn_Inr)
    qed
    moreover have "map (\<lambda>(l, d). (colName l, colName d)) ?cols = sort_key fst ?on"
      using r(4) by (induction rule: list_all2_induct) (auto simp: joinColumn_Inr prod_eq_iff dest!: ColumnsMap_mem)
    ultimately show ?thesis using r Some by (auto simp: nodeJoined_def)
  qed (use j in \<open>simp add: resolveJoinTo_def nodeJoined_def\<close>)
qed

subsection \<open>Properties\<close>


definition sampleRaw :: "string \<Rightarrow> rawRelation" where
  "sampleRaw mode = RawRelation ''orders'' [] False [] [] None None None (Some (BoolLiteral True)) mode [] None None None None None False
     None None None None"

definition sampleConfig :: resolveConfig where
  "sampleConfig = \<lparr>cfgMaxDepth = 6, cfgFunctions = (\<lambda>_. []), cfgRelations = (\<lambda>_. [])\<rparr>"

lemma sample_resolves:
  "\<exists>root. resolveQuery (buildLookupIndices sampleDb) sampleConfig (sampleRaw ''update'') = Inr root \<and>
     niWriteMode (qnInfo root) = UPDATE"
  by (simp add: resolveQuery_def resolveNode.simps [of _ _ _ None] sampleConfig_def sampleRaw_def resolveInfo_def resolveSource_def
      ResolveRelation_def buildLookupIndices_def sampleDb_def newRelation_def relationNamed_def GetRelation_def IsRelationBlacklisted_def
      IsTruthy_def resolveJoinTo_def resolveWriteMode_def givenWriteMode_def writeModeByString_def isMergeFamily_def
      checkWriteModePlacement_def isWhereDriven_def orEmpty_def resolveOnConflict_def Let_def sortedJoin_def)


text \<open>C4: write modes stand where they are allowed: the modes that merge or delete children only on to-many joins, the modes
  driven by a where only at the root and with a where, a delete without joins, and under such a root only read joins.  A
  where-driven write therefore touches its root and no other node.\<close>

theorem write_modes_placed:
  assumes "resolveQuery db cfg raw = Inr root"
  shows "treeAll nodePlaced None False root \<and>
    (isWhereDriven (niWriteMode (qnInfo root)) \<longrightarrow> assignNodeIDs root s = ([([], s)], s + 1))"
proof -
  obtain one where r: "resolveNode db cfg raw None [] 1 = Inr (root, one)"
    using assms by (auto simp: resolveQuery_def bindR_eq_Inr_iff)
  have "one = False" using r by (auto elim!: resolveNode_Inr resolveInfo_Inr simp: resolveJoinTo_def)
  with resolveNode_all [where P = nodePlaced, OF resolveInfo_placed r] have p: "treeAll nodePlaced None False root" by simp
  obtain info out inc where n: "root = QueryNode info out inc" by (cases root)
  have "assignNodeIDs root s = ([([], s)], s + 1)" if w: "isWhereDriven (niWriteMode info)"
  proof -
    have k: "niWriteMode (qnInfo c) = READONLY" if "c \<in> set (out @ inc)" for c
      using p that w unfolding n by (cases c) (auto simp: list_all_iff nodePlaced_def)
    have "fold (\<lambda>c. assignWalk (path c) c) cs st = st" if "set cs \<subseteq> set (out @ inc)" for cs st path
      using that k
    proof (induction cs)
      case (Cons c cs)
      then have "niWriteMode (qnInfo c) = READONLY" by simp
      then have "assignWalk (path c) c st = st" by (cases c; cases st) simp
      with Cons show ?case by simp
    qed simp
    then show ?thesis using w unfolding n assignNodeIDs_def by (auto simp: isWhereDriven_def)
  qed
  with p show ?thesis by (simp add: n)
qed

theorem write_modes_placed_witness:
  "\<exists>root. resolveQuery (buildLookupIndices sampleDb) sampleConfig (sampleRaw ''update'') = Inr root \<and>
     assignNodeIDs root 1 = ([([], 1)], 2)"
proof -
  from sample_resolves obtain root where r: "resolveQuery (buildLookupIndices sampleDb) sampleConfig (sampleRaw ''update'') = Inr root"
    "niWriteMode (qnInfo root) = UPDATE" by blast
  from write_modes_placed [OF r(1), of 1] show ?thesis using r by (auto simp: isWhereDriven_def)
qed

end
