(* ===== verification/Scope_Fields.thy ===== *)
theory Scope_Fields
  imports Node_Resolve
begin

text \<open>
  What an identifier of a query may stand for (\<open>query/resolved_field.go\<close>), the lookup of a first name in the scope of a
  node (\<open>query/scope.go\<close>) and the base of a select's shape.  A pointer to a query node is the list of join aliases from
  the root down; no two joins of a node share an alias, because they are keys of one map.
\<close>

type_synonym path = "string list"

subsection \<open>Nodes of the tree\<close>

definition outer :: "queryNode \<Rightarrow> string" where "outer c = niOuterAlias (qnInfo c)"

definition childNamed :: "queryNode \<Rightarrow> string \<Rightarrow> queryNode option" where
  "childNamed n name = find (\<lambda>c. outer c = name) (qnOutgoing n @ qnIncoming n)"

fun nodeAt :: "queryNode \<Rightarrow> path \<Rightarrow> queryNode option" where
  "nodeAt n [] = Some n"
| "nodeAt n (a # p) = (case childNamed n a of None \<Rightarrow> None | Some c \<Rightarrow> nodeAt c p)"

subsection \<open>Resolved fields\<close>

datatype resolvedField =
    is_ColumnPath: ColumnPath (cpNode: path) (cpPath: "column list") (cpElementType: "typeInfo option")
  | NodeRef path
  | Shape "(string \<times> resolvedField option) list"
  | ComputedFieldRef path pgfunction

type_synonym shape = "(string \<times> resolvedField option) list"

definition CurrentType :: "column list \<Rightarrow> typeInfo option \<Rightarrow> typeInfo option" where
  "CurrentType cols elem =
     (case elem of Some t \<Rightarrow> Some t | None \<Rightarrow> (if cols = [] then None else Some (colType (last cols))))"

definition pathKey :: "column list \<Rightarrow> string" where
  "pathKey cols = concat (map (\<lambda>c. CHR ''.'' # colName c) cols)"

definition columnPathFlatName :: "column list \<Rightarrow> string" where
  "columnPathFlatName cols =
     (case cols of [c] \<Rightarrow> colName c | _ \<Rightarrow> concat (case map colName cols of [] \<Rightarrow> [] | n # ns \<Rightarrow> n # map (\<lambda>m. ''__'' @ m) ns))"

definition resolvedFieldsEqual :: "resolvedField \<Rightarrow> resolvedField option \<Rightarrow> bool" where
  "resolvedFieldsEqual a b =
     (case (a, b) of
        (ColumnPath n p _, Some (ColumnPath m q _)) \<Rightarrow> n = m \<and> pathKey p = pathKey q
      | (NodeRef n, Some (NodeRef m)) \<Rightarrow> n = m
      | (ComputedFieldRef n f, Some (ComputedFieldRef m g)) \<Rightarrow> n = m \<and> f = g
      | _ \<Rightarrow> False)"

subsection \<open>The scope of a node\<close>

definition scopeColumn :: "path \<Rightarrow> queryNode \<Rightarrow> string \<Rightarrow> resolvedField option" where
  "scopeColumn p n name =
     (case niRelation (qnInfo n) of
        None \<Rightarrow> None
      | Some r \<Rightarrow> map_option (\<lambda>c. ColumnPath p [c] None) (ColumnsMap r name))"

definition scopeComputed :: "path \<Rightarrow> queryNode \<Rightarrow> string \<Rightarrow> resolvedField option" where
  "scopeComputed p n name =
     (case niRelation (qnInfo n) of
        None \<Rightarrow> None
      | Some r \<Rightarrow> map_option (ComputedFieldRef p) (relComputedFields r name))"

definition scopeAlias :: "path \<Rightarrow> queryNode \<Rightarrow> string \<Rightarrow> resolvedField option" where
  "scopeAlias p n name = map_option (\<lambda>_. NodeRef (p @ [name])) (childNamed n name)"

definition scopeSelf :: "path \<Rightarrow> queryNode \<Rightarrow> string \<Rightarrow> resolvedField option" where
  "scopeSelf p n name =
     (if name = niInnerName (qnInfo n) \<and> niInnerName (qnInfo n) \<noteq> [] then Some (NodeRef p) else None)"

definition scopeMatches :: "path \<Rightarrow> queryNode \<Rightarrow> string \<Rightarrow> resolvedField list" where
  "scopeMatches p n name =
     List.map_filter id [scopeColumn p n name, scopeComputed p n name, scopeAlias p n name, scopeSelf p n name]"

definition LookupInScope :: "path \<Rightarrow> queryNode \<Rightarrow> string \<Rightarrow> resolve_error + resolvedField" where
  "LookupInScope p n name =
     (case scopeMatches p n name of
        [] \<Rightarrow> Inl UnresolvableIdentifier
      | [f] \<Rightarrow> Inr f
      | _ \<Rightarrow> Inl AmbiguousIdentifier)"

definition resolvePlainColumn :: "queryNode option \<Rightarrow> string \<Rightarrow> resolve_error + column" where
  "resolvePlainColumn n name =
     (case n of
        None \<Rightarrow> Inl NoRelationInScope
      | Some q \<Rightarrow>
          (case niRelation (qnInfo q) of
             None \<Rightarrow> Inl NoRelationInScope
           | Some r \<Rightarrow> (case ColumnsMap r name of None \<Rightarrow> Inl UnknownColumn | Some c \<Rightarrow> Inr c)))"

text \<open>\<open>ownFullBase\<close>: the columns that are not left out, then, for a full star, the joins; a later key of the same name
  overwrites an earlier one.\<close>

definition putKeys :: "'a gomap \<Rightarrow> 'a gomap \<Rightarrow> 'a gomap" where
  "putKeys new m = fold (\<lambda>(k, v). AList.update k v) new m"

definition ownFullBase :: "path \<Rightarrow> queryNode \<Rightarrow> string list \<Rightarrow> bool \<Rightarrow> shape" where
  "ownFullBase p n except includeAliases =
     (let cols = (case niRelation (qnInfo n) of None \<Rightarrow> [] | Some r \<Rightarrow> filter (\<lambda>c. colName c \<notin> set except) (relColumns r));
          base = putKeys (map (\<lambda>c. (colName c, Some (ColumnPath p [c] None))) cols) []
      in if includeAliases
         then putKeys (map (\<lambda>c. (outer c, Some (NodeRef (p @ [outer c])))) (qnOutgoing n @ qnIncoming n)) base
         else base)"

subsection \<open>Fields that exist\<close>

text \<open>A path of columns starts in the relation of its node and goes on through composite types, possibly through the
  elements of an array at its end.\<close>

inductive columnPath :: "dbInfos \<Rightarrow> relation \<Rightarrow> column list \<Rightarrow> typeInfo \<Rightarrow> bool" for db r where
  first: "c \<in> set (relColumns r) \<Longrightarrow> columnPath db r [c] (colType c)"
| field: "columnPath db r cols t \<Longrightarrow> compositeRelation db t = Some sub \<Longrightarrow> c \<in> set (relColumns sub) \<Longrightarrow>
    columnPath db r (cols @ [c]) (colType c)"
| element: "columnPath db r cols t \<Longrightarrow> tiIsArray (tiUnderlying t) \<Longrightarrow> tiElement (tiUnderlying t) = Some oid \<Longrightarrow>
    GetType db oid = Some e \<Longrightarrow> columnPath db r cols e"

lemma columnPath_not_Nil: "columnPath db r cols t \<Longrightarrow> cols \<noteq> []"
  by (induction rule: columnPath.induct) auto

text \<open>A field seen from the node at \<open>p\<close>: what it names lies at that node or below it, and exists there.\<close>

fun fieldOk :: "dbInfos \<Rightarrow> queryNode \<Rightarrow> path \<Rightarrow> resolvedField \<Rightarrow> bool" where
  "fieldOk db root p (ColumnPath q cols elem) \<longleftrightarrow>
     take (length p) q = p \<and>
     (\<exists>n r t. nodeAt root q = Some n \<and> niRelation (qnInfo n) = Some r \<and> columnPath db r cols t \<and> CurrentType cols elem = Some t)"
| "fieldOk db root p (NodeRef q) \<longleftrightarrow> take (length p) q = p \<and> nodeAt root q \<noteq> None"
| "fieldOk db root p (Shape sh) \<longleftrightarrow> (\<forall>(k, v) \<in> set sh. \<forall>f. v = Some f \<longrightarrow> fieldOk db root p f)"
| "fieldOk db root p (ComputedFieldRef q f) \<longleftrightarrow>
     take (length p) q = p \<and>
     (\<exists>n r name. nodeAt root q = Some n \<and> niRelation (qnInfo n) = Some r \<and> relComputedFields r name = Some f)"

definition landOk :: "dbInfos \<Rightarrow> queryNode \<Rightarrow> path \<Rightarrow> resolvedField option \<Rightarrow> bool" where
  "landOk db root p land \<longleftrightarrow> (\<forall>f. land = Some f \<longrightarrow> fieldOk db root p f)"

lemma nodeAt_append: "nodeAt n (p @ q) = (case nodeAt n p of None \<Rightarrow> None | Some m \<Rightarrow> nodeAt m q)"
  by (induction p arbitrary: n) (auto split: option.splits)

lemma nodeAt_child: "nodeAt root p = Some n \<Longrightarrow> nodeAt root (p @ [a]) = childNamed n a"
  by (auto simp: nodeAt_append split: option.splits)

text \<open>Fields below a node are fields below the nodes above it.\<close>

lemma take_prefix_trans: "take (length p) q = p \<Longrightarrow> take (length q) s = q \<Longrightarrow> take (length p) s = p"
  by (metis take_take length_take min.idem min_def)

lemma fieldOk_up: "fieldOk db root q f \<Longrightarrow> take (length p) q = p \<Longrightarrow> fieldOk db root p f"
proof (induction f)
  case (Shape sh)
  have "fieldOk db root p f" if "(k, Some f) \<in> set sh" for k f
    using Shape.IH [OF that, of "Some f" f] Shape.prems that by (auto simp: prod_set_simps)
  then show ?case by auto
qed (auto intro: take_prefix_trans)

lemma childNamed_outer: "childNamed n a = Some c \<Longrightarrow> outer c = a \<and> c \<in> set (qnOutgoing n @ qnIncoming n)"
  unfolding childNamed_def by (auto simp: find_Some_iff intro: nth_mem) (metis nth_mem set_append UnE length_append)

lemma LookupInScope_ok:
  assumes "LookupInScope p n name = Inr f" "nodeAt root p = Some n"
  shows "fieldOk db root p f"
proof -
  have "f \<in> set (scopeMatches p n name)" using assms(1) by (auto simp: LookupInScope_def split: list.splits)
  then consider "scopeColumn p n name = Some f" | "scopeComputed p n name = Some f" | "scopeAlias p n name = Some f"
    | "scopeSelf p n name = Some f"
    by (auto simp: scopeMatches_def List.map_filter_def split: if_splits)
  then show ?thesis
  proof cases
    case 1
    then obtain r c where "niRelation (qnInfo n) = Some r" "ColumnsMap r name = Some c" "f = ColumnPath p [c] None"
      by (auto simp: scopeColumn_def split: option.splits)
    then show ?thesis using assms(2) columnPath.first [of c r db] by (auto simp: CurrentType_def dest: ColumnsMap_mem)
  next
    case 2
    then show ?thesis using assms(2) by (auto simp: scopeComputed_def split: option.splits)
  next
    case 3
    then show ?thesis using nodeAt_child [OF assms(2)] by (auto simp: scopeAlias_def)
  next
    case 4
    then show ?thesis using assms(2) by (auto simp: scopeSelf_def split: if_splits)
  qed
qed

text \<open>When a name resolves: exactly one of the four kinds of things it may name exists.\<close>

lemma LookupInScope_iff:
  "LookupInScope p n name = Inr f \<longleftrightarrow> scopeMatches p n name = [f]"
  by (auto simp: LookupInScope_def split: list.splits)

lemma set_AList_update: "kv \<in> set (AList.update k v m) \<Longrightarrow> kv = (k, v) \<or> kv \<in> set m"
  by (induction m) (auto split: if_splits)

lemma set_putKeys: "kv \<in> set (putKeys new m) \<Longrightarrow> kv \<in> set new \<or> kv \<in> set m"
proof (induction new arbitrary: m)
  case (Cons x new)
  then have "kv \<in> set new \<or> kv \<in> set (AList.update (fst x) (snd x) m)" by (simp add: putKeys_def split_def)
  then show ?case using set_AList_update [of kv "fst x" "snd x" m] by auto
qed (simp add: putKeys_def)

lemma find_member: "x \<in> set xs \<Longrightarrow> P x \<Longrightarrow> find P xs \<noteq> None"
  by (auto simp: find_None_iff)

lemma ownFullBase_ok:
  assumes "nodeAt root p = Some n"
  shows "fieldOk db root p (Shape (ownFullBase p n except full))"
proof -
  have "fieldOk db root p f" if f: "(k, Some f) \<in> set (ownFullBase p n except full)" for k f
  proof -
    have "(k, Some f) \<in> set (map (\<lambda>c. (outer c, Some (NodeRef (p @ [outer c])))) (qnOutgoing n @ qnIncoming n)) \<or>
        (\<exists>r c. niRelation (qnInfo n) = Some r \<and> c \<in> set (relColumns r) \<and> f = ColumnPath p [c] None)"
      using f unfolding ownFullBase_def Let_def by (auto dest!: set_putKeys split: if_splits option.splits)
    then show ?thesis
    proof
      assume "(k, Some f) \<in> set (map (\<lambda>c. (outer c, Some (NodeRef (p @ [outer c])))) (qnOutgoing n @ qnIncoming n))"
      then obtain c where c: "c \<in> set (qnOutgoing n @ qnIncoming n)" "f = NodeRef (p @ [outer c])" by auto
      then show ?thesis
        using find_member [OF c(1), of "\<lambda>d. outer d = outer c"] nodeAt_child [OF assms] by (simp add: childNamed_def)
    next
      assume "\<exists>r c. niRelation (qnInfo n) = Some r \<and> c \<in> set (relColumns r) \<and> f = ColumnPath p [c] None"
      then show ?thesis using assms columnPath.first [of _ _ db] by (auto simp: CurrentType_def)
    qed
  qed
  then show ?thesis by auto
qed

end
