(* ===== verification/Expr_Resolve.thy ===== *)
theory Expr_Resolve
  imports Scope_Fields
begin

text \<open>
  The second pass of resolution (\<open>query/expression_resolve.go\<close>): every identifier of the expressions of a query is bound
  to what it names.  The source fills the \<open>Resolved\<close> fields of the tree it is given; here the result is a tree of its own,
  \<open>rexpr\<close>, with these fields, in which \<open>RPlain\<close> keeps an expression that has nothing to resolve or is data rather than a
  name.  \<open>resolveExpr\<close> and \<open>resolveChain\<close> call each other on the same expression and differ only in an index hop, so they
  are the two modes of one recursion \<open>resolve\<close>.  The memo of selects (\<open>QueryNode.Shape\<close>, \<open>QueryNode.Select\<close>) is a state;
  \<open>shapeInProgress\<close> is the list of nodes whose select is being resolved and \<open>resolvingOwn\<close> the one node whose
  expressions are.  An aggregate carries the pointer to it, which is the place where it stands; resolution does not look at
  pointers and leaves them unset, and the compiler starts from a tree in which every aggregate has its own.
\<close>

subsection \<open>Resolved expressions\<close>

type_synonym pointer = "path \<times> nat list"

datatype rexpr =
    RPlain expression
  | RIdentifier string "resolvedField option"
  | RUnary string rexpr
  | RBinary string rexpr rexpr
  | RFolded string rexpr rexpr
  | RBetween bool rexpr rexpr rexpr
  | RIn bool rexpr "rexpr list"
  | RAnyAll bool string rexpr rexpr
  | RConcatWs rexpr "rexpr list"
  | RCoalesce "rexpr list"
  | RFormat string "rexpr list"
  | RAgg pointer FunctionRef pgfunction "rexpr list" "rexpr option" bool "(rexpr \<times> OrderByDirection) list"
  | RCall FunctionRef pgfunction "rexpr list"
  | RObject "(string \<times> rexpr) list"
  | RStar bool "string list" "(string \<times> rexpr) list option"
  | RArr "rexpr list"
  | RLst "rexpr list"
  | RIndex rexpr rexpr
  | RSlice rexpr rexpr rexpr
  | RCol string resolvedField "rexpr option" "rexpr option"
  | RGet string column "rexpr option"
  | RSet string column "rexpr option"

type_synonym memo = "(path \<times> (rexpr \<times> shape)) list"

record resolver =
  rvDb :: dbInfos
  rvConfig :: resolveConfig
  rvRoot :: queryNode
  rvOwn :: path
  rvSelectShape :: "path \<Rightarrow> memo \<Rightarrow> resolve_error + (shape \<times> memo)"

type_synonym resolving = "resolve_error + (rexpr \<times> resolvedField option \<times> memo)"

definition isLiteral :: "rexpr \<Rightarrow> bool" where
  "isLiteral e =
     (case e of
        RPlain x \<Rightarrow>
          (case x of NullLiteral \<Rightarrow> True | BoolLiteral _ \<Rightarrow> True | NumberLiteral _ \<Rightarrow> True | StringLiteral _ \<Rightarrow> True
           | BigIntLiteral _ \<Rightarrow> True | NumericLiteral _ \<Rightarrow> True | _ \<Rightarrow> False)
      | _ \<Rightarrow> False)"

definition jsonOperators :: "string list" where "jsonOperators = [''->'', ''->>'', ''#>'', ''#>>'']"

subsection \<open>Hops\<close>

definition lookupAt :: "resolver \<Rightarrow> path \<Rightarrow> string \<Rightarrow> resolve_error + resolvedField" where
  "lookupAt R p name = (case nodeAt (rvRoot R) p of None \<Rightarrow> Inl NilPointer | Some n \<Rightarrow> LookupInScope p n name)"

definition resolveExternalHop :: "resolver \<Rightarrow> path \<Rightarrow> string \<Rightarrow> memo \<Rightarrow> resolve_error + (resolvedField option \<times> memo)" where
  "resolveExternalHop R target name st =
     bindR (if target = rvOwn R then Inr ([], st) else rvSelectShape R target st) (\<lambda>(sh, st1).
       case (lookupAt R target name, map_of sh name) of
         (Inr f, Some g) \<Rightarrow> if resolvedFieldsEqual f g then Inr (Some f, st1) else Inl ScopeShapeDisagree
       | (Inr f, None) \<Rightarrow> Inr (Some f, st1)
       | (Inl _, Some g) \<Rightarrow> Inr (g, st1)
       | (Inl e, None) \<Rightarrow> Inl e)"

definition resolveHopInto :: "resolver \<Rightarrow> expression \<Rightarrow> resolvedField \<Rightarrow> memo \<Rightarrow> resolving" where
  "resolveHopInto R right into st =
     (case right of
        Identifier name \<Rightarrow>
          (case into of
             ColumnPath q cols elem \<Rightarrow>
               (case CurrentType cols elem of
                  None \<Rightarrow> Inl NilPointer
                | Some t \<Rightarrow>
                    (case compositeRelation (rvDb R) t of
                       None \<Rightarrow> Inl NotComposite
                     | Some sub \<Rightarrow>
                         (case ColumnsMap sub name of
                            None \<Rightarrow> Inl UnknownCompositeField
                          | Some c \<Rightarrow>
                              let land = Some (ColumnPath q (cols @ [c]) None) in Inr (RIdentifier name land, land, st))))
           | NodeRef q \<Rightarrow> bindR (resolveExternalHop R q name st) (\<lambda>(land, st1). Inr (RIdentifier name land, land, st1))
           | Shape sh \<Rightarrow>
               (case map_of sh name of None \<Rightarrow> Inl UnknownField | Some land \<Rightarrow> Inr (RIdentifier name land, land, st))
           | ComputedFieldRef _ _ \<Rightarrow> Inl CannotChain)
      | _ \<Rightarrow> Inl HopNotName)"

text \<open>What indexing lands on: an element of the array at the end of a column path; anything else is opaque.\<close>

definition indexLanding :: "dbInfos \<Rightarrow> resolvedField option \<Rightarrow> resolve_error + resolvedField option" where
  "indexLanding db land =
     (case land of
        Some (ColumnPath q cols elem) \<Rightarrow>
          (case CurrentType cols elem of
             None \<Rightarrow> Inl NotAnArray
           | Some t \<Rightarrow>
               (case (tiIsArray (tiUnderlying t), tiElement (tiUnderlying t)) of
                  (True, Some oid) \<Rightarrow>
                    (case GetType db oid of
                       None \<Rightarrow> Inl NilPointer
                     | Some e \<Rightarrow> Inr (Some (ColumnPath q cols (Some e))))
                | _ \<Rightarrow> Inl NotAnArray))
      | _ \<Rightarrow> Inr None)"

subsection \<open>Expressions\<close>

definition dropLanding :: "resolving \<Rightarrow> resolve_error + (rexpr \<times> memo)" where
  "dropLanding m = bindR m (\<lambda>(r, _, st). Inr (r, st))"

lemma dropLanding_Inr: "dropLanding m = Inr (r, st) \<longleftrightarrow> (\<exists>land. m = Inr (r, land, st))"
  by (auto simp: dropLanding_def bindR_eq_Inr_iff)

fun optS :: "('a \<Rightarrow> 's \<Rightarrow> 'e + ('b \<times> 's)) \<Rightarrow> 'a option \<Rightarrow> 's \<Rightarrow> 'e + ('b option \<times> 's)" where
  "optS f None s = Inr (None, s)"
| "optS f (Some x) s = bindR (f x s) (\<lambda>(y, s1). Inr (Some y, s1))"

lemma optS_cong [fundef_cong]:
  "xs = ys \<Longrightarrow> s = t \<Longrightarrow> (\<And>x s. x \<in> set_option ys \<Longrightarrow> f x s = g x s) \<Longrightarrow> optS f xs s = optS g ys t"
  by (cases ys) simp_all

text \<open>The computed keys of an object or star: each lands in the shape, where it may not be yet.\<close>

definition shapeKey :: "(expression \<Rightarrow> memo \<Rightarrow> resolving) \<Rightarrow> string \<times> expression \<Rightarrow> shape \<times> memo \<Rightarrow>
    resolve_error + ((string \<times> rexpr) \<times> shape \<times> memo)" where
  "shapeKey res kv s =
     (if map_of (fst s) (fst kv) \<noteq> None then Inl KeyCollides
      else bindR (res (snd kv) (snd s)) (\<lambda>(r, land, st). Inr ((fst kv, r), fst s @ [(fst kv, land)], st)))"

lemma shapeKey_cong [fundef_cong]:
  "kv = kv' \<Longrightarrow> s = s' \<Longrightarrow> (\<And>st. res (snd kv') st = res' (snd kv') st) \<Longrightarrow> shapeKey res kv s = shapeKey res' kv' s'"
  by (simp add: shapeKey_def)

definition orderByTerm :: "(expression \<Rightarrow> memo \<Rightarrow> resolving) \<Rightarrow> OrderByTerm \<Rightarrow> memo \<Rightarrow>
    resolve_error + ((rexpr \<times> OrderByDirection) \<times> memo)" where
  "orderByTerm res t st =
     bindR (dropLanding (res (fst t) st)) (\<lambda>(r, st1). if isLiteral r then Inl LiteralTerm else Inr ((r, snd t), st1))"

lemma orderByTerm_cong [fundef_cong]:
  "t = t' \<Longrightarrow> st = st' \<Longrightarrow> (\<And>s. res (fst t') s = res' (fst t') s) \<Longrightarrow> orderByTerm res t st = orderByTerm res' t' st'"
  by (simp add: orderByTerm_def)

lemma size_snd_member [termination_simp]: "kv \<in> set m \<Longrightarrow> size (snd kv) < Suc (size_list (size_prod (\<lambda>x. 0) size) m)"
  using size_list_estimation' [of kv m "size (snd kv)" "size_prod (\<lambda>x. 0) size"] by (cases kv) simp

lemma size_fst_member [termination_simp]: "t \<in> set m \<Longrightarrow> size (fst t) < Suc (size_list (size_prod size (\<lambda>x. 0)) m)"
  using size_list_estimation' [of t m "size (fst t)" "size_prod size (\<lambda>x. 0)"] by (cases t) simp

fun resolve :: "resolver \<Rightarrow> bool \<Rightarrow> path option \<Rightarrow> expression \<Rightarrow> memo \<Rightarrow> resolving" where
  "resolve R chain n (Identifier name) st =
     (case n of
        None \<Rightarrow> Inl NoScopeForIdentifier
      | Some p \<Rightarrow> bindR (lookupAt R p name) (\<lambda>f. Inr (RIdentifier name (Some f), Some f, st)))"
| "resolve R chain n (FoldedExpr op l r) st =
     (if op = ''.'' then
        bindR (resolve R True n l st) (\<lambda>(l', land, st1).
          case land of
            None \<Rightarrow> Inl OpaqueChain
          | Some f \<Rightarrow> bindR (resolveHopInto R r f st1) (\<lambda>(r', hop, st2). Inr (RFolded op l' r', hop, st2)))
      else if op \<in> set jsonOperators then
        bindR (dropLanding (resolve R False n l st)) (\<lambda>(l', st1). Inr (RFolded op l' (RPlain r), None, st1))
      else
        bindR (dropLanding (resolve R False n l st)) (\<lambda>(l', st1).
        bindR (dropLanding (resolve R False n r st1)) (\<lambda>(r', st2). Inr (RFolded op l' r', None, st2))))"
| "resolve R chain n (UnaryExpr op e) st =
     bindR (dropLanding (resolve R False n e st)) (\<lambda>(e', st1). Inr (RUnary op e', None, st1))"
| "resolve R chain n (BinaryExpr op l r) st =
     bindR (dropLanding (resolve R False n l st)) (\<lambda>(l', st1).
       if op = ''::'' then Inr (RBinary op l' (RPlain r), None, st1)
       else bindR (dropLanding (resolve R False n r st1)) (\<lambda>(r', st2). Inr (RBinary op l' r', None, st2)))"
| "resolve R chain n (BetweenExpr neg a e b) st =
     bindR (dropLanding (resolve R False n a st)) (\<lambda>(a', st1).
     bindR (dropLanding (resolve R False n e st1)) (\<lambda>(e', st2).
     bindR (dropLanding (resolve R False n b st2)) (\<lambda>(b', st3). Inr (RBetween neg a' e' b', None, st3))))"
| "resolve R chain n (InExpr neg e cs) st =
     bindR (dropLanding (resolve R False n e st)) (\<lambda>(e', st1).
     bindR (traverseS (\<lambda>x s. dropLanding (resolve R False n x s)) cs st1) (\<lambda>(cs', st2). Inr (RIn neg e' cs', None, st2)))"
| "resolve R chain n (AnyAllExpr all op e a) st =
     bindR (dropLanding (resolve R False n e st)) (\<lambda>(e', st1).
     bindR (dropLanding (resolve R False n a st1)) (\<lambda>(a', st2). Inr (RAnyAll all op e' a', None, st2)))"
| "resolve R chain n (ConcatWsExpr sep es) st =
     bindR (dropLanding (resolve R False n sep st)) (\<lambda>(sep', st1).
     bindR (traverseS (\<lambda>x s. dropLanding (resolve R False n x s)) es st1) (\<lambda>(es', st2). Inr (RConcatWs sep' es', None, st2)))"
| "resolve R chain n (CoalesceExpr es) st =
     bindR (traverseS (\<lambda>x s. dropLanding (resolve R False n x s)) es st) (\<lambda>(es', st1). Inr (RCoalesce es', None, st1))"
| "resolve R chain n (FormatExpr fmt es) st =
     bindR (traverseS (\<lambda>x s. dropLanding (resolve R False n x s)) es st) (\<lambda>(es', st1). Inr (RFormat fmt es', None, st1))"
| "resolve R chain n (AggExpr ref es flt dist ord) st =
     bindR (resolveFunctionCandidate (rvDb R) (rvConfig R) (Schema ref) (Name ref) es None IsAggregate True) (\<lambda>fn.
     bindR (traverseS (\<lambda>x s. dropLanding (resolve R False n x s)) es st) (\<lambda>(es', st1).
     bindR (optS (\<lambda>x s. dropLanding (resolve R False n x s)) flt st1) (\<lambda>(flt', st2).
     bindR (traverseS (orderByTerm (resolve R False n)) ord st2) (\<lambda>(ord', st3). Inr (RAgg ([], []) ref fn es' flt' dist ord', None, st3)))))"
| "resolve R chain n (CallExpr ref es) st =
     bindR (resolveFunctionCandidate (rvDb R) (rvConfig R) (Schema ref) (Name ref) es None IsPlainFunction True) (\<lambda>fn.
     bindR (traverseS (\<lambda>x s. dropLanding (resolve R False n x s)) es st) (\<lambda>(es', st1). Inr (RCall ref fn es', None, st1)))"
| "resolve R chain n (ObjectExpr fs) st =
     bindR (traverseS (shapeKey (resolve R True n)) fs ([], st)) (\<lambda>(fs', sh, st1). Inr (RObject fs', Some (Shape sh), st1))"
| "resolve R chain n (StarExpr own except ands) st =
     bindR (traverse (resolvePlainColumn (case n of None \<Rightarrow> None | Some p \<Rightarrow> nodeAt (rvRoot R) p)) except) (\<lambda>_.
       case n of
         None \<Rightarrow> Inl NilPointer
       | Some p \<Rightarrow>
           (case nodeAt (rvRoot R) p of
              None \<Rightarrow> Inl NilPointer
            | Some q \<Rightarrow>
                (case ands of
                   None \<Rightarrow> Inr (RStar own except None, Some (Shape (ownFullBase p q except (\<not> own))), st)
                 | Some fs \<Rightarrow>
                     bindR (traverseS (shapeKey (resolve R True n)) fs (ownFullBase p q except (\<not> own), st)) (\<lambda>(fs', sh, st1).
                       Inr (RStar own except (Some fs'), Some (Shape sh), st1)))))"
| "resolve R chain n (ArrExpr es) st =
     bindR (traverseS (\<lambda>x s. dropLanding (resolve R False n x s)) es st) (\<lambda>(es', st1). Inr (RArr es', None, st1))"
| "resolve R chain n (LstExpr es) st =
     bindR (traverseS (\<lambda>x s. dropLanding (resolve R False n x s)) es st) (\<lambda>(es', st1). Inr (RLst es', None, st1))"
| "resolve R chain n (IndexExpr a i) st =
     bindR (resolve R chain n a st) (\<lambda>(a', land, st1).
     bindR (dropLanding (resolve R False n i st1)) (\<lambda>(i', st2).
       if chain then bindR (indexLanding (rvDb R) land) (\<lambda>hop. Inr (RIndex a' i', hop, st2))
       else Inr (RIndex a' i', None, st2)))"
| "resolve R chain n (SliceExpr a f t) st =
     bindR (dropLanding (resolve R False n a st)) (\<lambda>(a', st1).
     bindR (dropLanding (resolve R False n f st1)) (\<lambda>(f', st2).
     bindR (dropLanding (resolve R False n t st2)) (\<lambda>(t', st3). Inr (RSlice a' f' t', None, st3))))"
| "resolve R chain n (ColExpr name dget dset) st =
     (case n of
        None \<Rightarrow> Inl NoScopeForIdentifier
      | Some p \<Rightarrow>
          bindR (lookupAt R p name) (\<lambda>f.
            if \<not> is_ColumnPath f then Inl ColNotAColumn
            else
              bindR (optS (\<lambda>x s. dropLanding (resolve R False n x s)) dget st) (\<lambda>(dget', st1).
              bindR (optS (\<lambda>x s. dropLanding (resolve R False n x s)) dset st1) (\<lambda>(dset', st2).
                Inr (RCol name f dget' dset', Some f, st2)))))"
| "resolve R chain n (GetExpr name dflt) st =
     bindR (resolvePlainColumn (case n of None \<Rightarrow> None | Some p \<Rightarrow> nodeAt (rvRoot R) p) name) (\<lambda>c.
     bindR (optS (\<lambda>x s. dropLanding (resolve R False n x s)) dflt st) (\<lambda>(dflt', st1).
       Inr (RGet name c dflt', map_option (\<lambda>p. ColumnPath p [c] None) n, st1)))"
| "resolve R chain n (SetExpr name dflt) st =
     bindR (resolvePlainColumn (case n of None \<Rightarrow> None | Some p \<Rightarrow> nodeAt (rvRoot R) p) name) (\<lambda>c.
     bindR (optS (\<lambda>x s. dropLanding (resolve R False n x s)) dflt st) (\<lambda>(dflt', st1). Inr (RSet name c dflt', None, st1)))"
| "resolve R chain n NullLiteral st = Inr (RPlain NullLiteral, None, st)"
| "resolve R chain n (BoolLiteral b) st = Inr (RPlain (BoolLiteral b), None, st)"
| "resolve R chain n (NumberLiteral x) st = Inr (RPlain (NumberLiteral x), None, st)"
| "resolve R chain n (StringLiteral s) st = Inr (RPlain (StringLiteral s), None, st)"
| "resolve R chain n (BigIntLiteral s) st = Inr (RPlain (BigIntLiteral s), None, st)"
| "resolve R chain n (NumericLiteral s) st = Inr (RPlain (NumericLiteral s), None, st)"
| "resolve R chain n DefaultKeyword st = Inr (RPlain DefaultKeyword, None, st)"
| "resolve R chain n (ParamExpr a b) st = Inr (RPlain (ParamExpr a b), None, st)"

definition resolveExpr :: "resolver \<Rightarrow> path option \<Rightarrow> expression \<Rightarrow> memo \<Rightarrow> resolve_error + (rexpr \<times> memo)" where
  "resolveExpr R n e st = dropLanding (resolve R False n e st)"

definition resolveChain :: "resolver \<Rightarrow> path option \<Rightarrow> expression \<Rightarrow> memo \<Rightarrow> resolving" where
  "resolveChain R n e st = resolve R True n e st"

subsection \<open>The select of a node\<close>

text \<open>The first argument bounds the nesting of selects that are resolved on behalf of each other; a tree has fewer nodes than
  the bound \<open>Resolve\<close> starts with.\<close>

fun selectShape :: "nat \<Rightarrow> dbInfos \<Rightarrow> resolveConfig \<Rightarrow> queryNode \<Rightarrow> path \<Rightarrow> path list \<Rightarrow> path \<Rightarrow> memo \<Rightarrow> resolve_error + (shape \<times> memo)" where
  "selectShape 0 db cfg root own inProgress target st = Inl OutOfTurns"
| "selectShape (Suc k) db cfg root own inProgress target st =
     (case map_of st target of
        Some (_, sh) \<Rightarrow> Inr (sh, st)
      | None \<Rightarrow>
          if target \<in> set inProgress then Inl SelfReferentialShape
          else
            case nodeAt root target of
              None \<Rightarrow> Inl NilPointer
            | Some node \<Rightarrow>
                let R = \<lparr>rvDb = db, rvConfig = cfg, rvRoot = root, rvOwn = own,
                         rvSelectShape = selectShape k db cfg root own (target # inProgress)\<rparr>
                in bindR (resolveChain R (Some target) (niSelect (qnInfo node)) st) (\<lambda>(sel, land, st1).
                     let sh = (case land of Some (Shape s) \<Rightarrow> s | _ \<Rightarrow> []) in Inr (sh, (target, (sel, sh)) # st1)))"

definition resolverFor :: "nat \<Rightarrow> dbInfos \<Rightarrow> resolveConfig \<Rightarrow> queryNode \<Rightarrow> path \<Rightarrow> resolver" where
  "resolverFor k db cfg root own =
     \<lparr>rvDb = db, rvConfig = cfg, rvRoot = root, rvOwn = own, rvSelectShape = selectShape k db cfg root own []\<rparr>"

subsection \<open>The tree\<close>

record resolvedParts =
  rpWhere :: "rexpr option"
  rpSelect :: rexpr
  rpShape :: shape
  rpDistinctOn :: "rexpr list"
  rpOrderBy :: "(rexpr \<times> OrderByDirection) list"
  rpArguments :: "rexpr list"
  rpArgumentMap :: "(string \<times> rexpr) list"

datatype resolvedNode = ResolvedNode
  (rnInfo: nodeInfo) (rnParts: resolvedParts) (rnOutgoing: "resolvedNode list") (rnIncoming: "resolvedNode list")

definition nonLiteral :: "resolver \<Rightarrow> path \<Rightarrow> expression \<Rightarrow> memo \<Rightarrow> resolve_error + (rexpr \<times> memo)" where
  "nonLiteral R p e st = bindR (resolveExpr R (Some p) e st) (\<lambda>(r, st1). if isLiteral r then Inl LiteralTerm else Inr (r, st1))"

text \<open>The expressions of one node; the arguments of a function are read in the scope of the parent.\<close>

definition resolveParts :: "resolver \<Rightarrow> path option \<Rightarrow> path \<Rightarrow> nodeInfo \<Rightarrow> memo \<Rightarrow> resolve_error + (resolvedParts \<times> memo)" where
  "resolveParts R parent p info st =
     bindR (optS (resolveExpr R (Some p)) (niWhere info) st) (\<lambda>(whr, st1).
     bindR (rvSelectShape R p st1) (\<lambda>(sh, st2).
     bindR (traverseS (nonLiteral R p) (niDistinctOn info) st2) (\<lambda>(dist, st3).
     bindR (traverseS (orderByTerm (resolve R False (Some p))) (niOrderBy info) st3) (\<lambda>(ord, st4).
     bindR (if IsFunction info then traverseS (resolveExpr R parent) (niFunctionArguments info) st4 else Inr ([], st4)) (\<lambda>(args, st5).
     bindR (if IsFunction info
            then traverseS (\<lambda>kv s. bindR (resolveExpr R parent (snd kv) s) (\<lambda>(r, s1). Inr ((fst kv, r), s1))) (niFunctionArgumentMap info) st5
            else Inr ([], st5)) (\<lambda>(argMap, st6).
       case map_of st6 p of
         None \<Rightarrow> Inl NilPointer
       | Some (sel, _) \<Rightarrow>
           Inr (\<lparr>rpWhere = whr, rpSelect = sel, rpShape = sh, rpDistinctOn = dist, rpOrderBy = ord, rpArguments = args,
                 rpArgumentMap = argMap\<rparr>, st6)))))))"

fun resolveExpressions :: "(path \<Rightarrow> resolver) \<Rightarrow> path option \<Rightarrow> path \<Rightarrow> queryNode \<Rightarrow> memo \<Rightarrow> resolve_error + (resolvedNode \<times> memo)" where
  "resolveExpressions mk parent p (QueryNode info out inc) st =
     bindR (traverseS (\<lambda>c. resolveExpressions mk (Some p) (p @ [outer c]) c) out st) (\<lambda>(out', st1).
     bindR (traverseS (\<lambda>c. resolveExpressions mk (Some p) (p @ [outer c]) c) inc st1) (\<lambda>(inc', st2).
     bindR (resolveParts (mk p) parent p info st2) (\<lambda>(parts, st3). Inr (ResolvedNode info parts out' inc', st3))))"

fun nodeCount :: "queryNode \<Rightarrow> nat" where
  "nodeCount (QueryNode info out inc) = Suc (sum_list (map nodeCount out) + sum_list (map nodeCount inc))"

definition resolveTree :: "dbInfos \<Rightarrow> resolveConfig \<Rightarrow> queryNode \<Rightarrow> resolve_error + resolvedNode" where
  "resolveTree db cfg root =
     bindR (resolveExpressions (resolverFor (Suc (nodeCount root)) db cfg root) None [] root []) (\<lambda>(r, _). Inr r)"

end
