(* ===== verification/Resolve_Ends.thy ===== *)
theory Resolve_Ends
  imports Resolve_Sound
begin

text \<open>
  Resolution ends, and it only annotates: the select of a node is resolved on behalf of another at most once per node of
  the tree, so the bound on this nesting is never reached, and erasing the bindings gives the query back.
\<close>

subsection \<open>No turn is missing\<close>

locale scope_turns = scope_fields +
  assumes external_turns: "P (NodeRef q) \<Longrightarrow> I st \<Longrightarrow> resolveExternalHop R q name st \<noteq> Inl OutOfTurns"
begin

definition ends :: "expression \<Rightarrow> bool" where
  "ends e \<longleftrightarrow> (\<forall>chain st. I st \<longrightarrow> resolve R chain n e st \<noteq> Inl OutOfTurns)"

lemma endsD: "ends e \<Longrightarrow> I st \<Longrightarrow> resolve R chain n e st \<noteq> Inl OutOfTurns"
  by (simp add: ends_def)

lemma endsI: "(\<And>chain st. I st \<Longrightarrow> resolve R chain n e st = Inl OutOfTurns \<Longrightarrow> False) \<Longrightarrow> ends e"
  unfolding ends_def by blast

lemma kept: "resolve R chain n e st = Inr (r, land, st') \<Longrightarrow> I st \<Longrightarrow> I st'"
  by (rule soundD(3) [OF resolve_sound])

lemma drop_kept: "dropLanding (resolve R False n e st) = Inr (r, st') \<Longrightarrow> I st \<Longrightarrow> I st'"
  using drop_ok [OF _ resolve_sound] by blast

lemma drop_ends: "dropLanding (resolve R False n e st) = Inl OutOfTurns \<Longrightarrow> ends e \<Longrightarrow> I st \<Longrightarrow> False"
  by (auto simp: dropLanding_def bindR_eq_Inl_iff dest: endsD)

lemma traverse_ends:
  assumes "traverseS f xs s = Inl e" "J s" "\<And>x s y t. x \<in> set xs \<Longrightarrow> J s \<Longrightarrow> f x s = Inr (y, t) \<Longrightarrow> J t"
  shows "\<exists>x \<in> set xs. \<exists>t. J t \<and> f x t = Inl e"
  using assms
proof (induction xs arbitrary: s)
  case (Cons x xs)
  show ?case
  proof (cases "f x s")
    case (Inr yt)
    with Cons.prems have "traverseS f xs (snd yt) = Inl e" by (auto simp: bindR_eq_Inl_iff split_def)
    moreover have "J (snd yt)" using Cons.prems(2,3) Inr by (metis list.set_intros(1) prod.collapse)
    ultimately show ?thesis using Cons.IH [of "snd yt"] Cons.prems(3) by (meson list.set_intros(2))
  qed (use Cons.prems in auto)
qed simp

lemma many_ends:
  "traverseS (\<lambda>x s. dropLanding (resolve R False n x s)) es st = Inl OutOfTurns \<Longrightarrow> I st \<Longrightarrow> (\<And>x. x \<in> set es \<Longrightarrow> ends x) \<Longrightarrow> False"
proof -
  assume a: "traverseS (\<lambda>x s. dropLanding (resolve R False n x s)) es st = Inl OutOfTurns" "I st" "\<And>x. x \<in> set es \<Longrightarrow> ends x"
  have "\<exists>x \<in> set es. \<exists>t. I t \<and> dropLanding (resolve R False n x t) = Inl OutOfTurns"
    by (rule traverse_ends [OF a(1), where J = I]) (use a(2) drop_kept in blast)+
  with a(3) show False using drop_ends by blast
qed

lemma many_kept: "traverseS (\<lambda>x s. dropLanding (resolve R False n x s)) es st = Inr (es', st') \<Longrightarrow> I st \<Longrightarrow> I st'"
  using many_ok [OF _ _ resolve_sound] by blast

lemma opt_ends:
  "optS (\<lambda>x s. dropLanding (resolve R False n x s)) e st = Inl OutOfTurns \<Longrightarrow> I st \<Longrightarrow> (\<And>x. x \<in> set_option e \<Longrightarrow> ends x) \<Longrightarrow> False"
  by (cases e) (auto simp: bindR_eq_Inl_iff dest: drop_ends)

lemma opt_kept: "optS (\<lambda>x s. dropLanding (resolve R False n x s)) e st = Inr (e', st') \<Longrightarrow> I st \<Longrightarrow> I st'"
  using opt_ok [OF _ _ resolve_sound] by blast

lemma order_ends:
  assumes "traverseS (orderByTerm (resolve R False n)) ts st = Inl OutOfTurns" "I st" "\<And>t. t \<in> set ts \<Longrightarrow> ends (fst t)"
  shows False
proof -
  have "\<exists>x \<in> set ts. \<exists>t. I t \<and> orderByTerm (resolve R False n) x t = Inl OutOfTurns"
    by (rule traverse_ends [OF assms(1), where J = I]) (use assms(2) in \<open>auto simp: orderByTerm_def bindR_eq_Inr_iff drop_kept split: if_splits\<close>)
  with assms(3) show False by (auto simp: orderByTerm_def bindR_eq_Inl_iff split: if_splits dest: drop_ends)
qed

lemma keys_ends:
  assumes "traverseS (shapeKey (resolve R True n)) fs (sh, st) = Inl OutOfTurns" "I st" "\<And>kv. kv \<in> set fs \<Longrightarrow> ends (snd kv)"
  shows False
proof -
  have "\<exists>x \<in> set fs. \<exists>t. I (snd t) \<and> shapeKey (resolve R True n) x t = Inl OutOfTurns"
    by (rule traverse_ends [OF assms(1), where J = "\<lambda>s. I (snd s)"])
      (use assms(2) in \<open>auto simp: shapeKey_def bindR_eq_Inr_iff split: if_splits dest: kept\<close>)
  with assms(3) show False by (auto simp: shapeKey_def bindR_eq_Inl_iff split: if_splits dest: endsD)
qed

lemma lookup_ends [simp]: "lookupAt R p name \<noteq> Inl OutOfTurns"
  by (auto simp: lookupAt_def LookupInScope_def split: option.splits list.splits)

lemma plain_ends [simp]: "resolvePlainColumn m name \<noteq> Inl OutOfTurns"
  by (auto simp: resolvePlainColumn_def split: option.splits)

lemma candidate_ends [simp]: "resolveFunctionCandidate db cfg schema name pos named kind ov \<noteq> Inl OutOfTurns"
  by (auto simp: resolveFunctionCandidate_def Let_def)

lemma hop_ends: "P into \<Longrightarrow> I st \<Longrightarrow> resolveHopInto R e into st \<noteq> Inl OutOfTurns"
  using external_turns [of _ st]
  by (cases e; cases into) (auto simp: resolveHopInto_def Let_def bindR_eq_Inl_iff split: option.splits)

lemma index_ends [simp]: "indexLanding db land \<noteq> Inl OutOfTurns"
  by (auto simp: indexLanding_def split: option.splits resolvedField.splits bool.splits)

lemma resolve_ends: "ends e"
proof (induction e)
  case (FoldedExpr op l r)
  show ?case
  proof (rule endsI)
    fix chain st
    assume i: "I st" and a: "resolve R chain n (FoldedExpr op l r) st = Inl OutOfTurns"
    show False
    proof (cases "op = ''.''")
      case True
      with a consider "resolve R True n l st = Inl OutOfTurns"
        | l' f st1 where "resolve R True n l st = Inr (l', Some f, st1)" "resolveHopInto R r f st1 = Inl OutOfTurns"
        by (auto simp: bindR_eq_Inl_iff split: option.splits)
      then show False
        using endsD [OF FoldedExpr.IH(1) i] hop_ends soundD [OF resolve_sound _ i] by cases blast+
    next
      case False
      with a i FoldedExpr.IH show False
        by (cases "op \<in> set jsonOperators") (auto simp: bindR_eq_Inl_iff dest: drop_ends drop_kept)
    qed
  qed
next
  case (AggExpr ref es flt dist ord)
  have o: "ends (fst t)" if "t \<in> set ord" for t using AggExpr.IH(3) [OF that, of "fst t"] by (cases t) (simp add: prod_set_simps)
  show ?case
    by (rule endsI) (auto simp: bindR_eq_Inl_iff dest: many_kept opt_kept many_ends [OF _ _ AggExpr.IH(1)]
      opt_ends [OF _ _ AggExpr.IH(2)] order_ends [OF _ _ o])
next
  case (ObjectExpr fs)
  have o: "ends (snd kv)" if "kv \<in> set fs" for kv using ObjectExpr.IH [OF that, of "snd kv"] by (cases kv) (simp add: prod_set_simps)
  show ?case by (rule endsI) (use keys_ends [OF _ _ o] in \<open>auto simp: bindR_eq_Inl_iff\<close>)
next
  case (StarExpr own except ands)
  have o: "ends (snd kv)" if "ands = Some fs" "kv \<in> set fs" for kv fs
    using StarExpr.IH [of fs kv "snd kv"] that by (cases kv) (simp add: prod_set_simps)
  show ?case
  proof (cases ands)
    case (Some fs)
    show ?thesis
    proof (rule endsI)
      fix chain st
      assume i: "I st" and a: "resolve R chain n (StarExpr own except ands) st = Inl OutOfTurns"
      then have "\<exists>sh. traverseS (shapeKey (resolve R True n)) fs (sh, st) = Inl OutOfTurns"
        by (auto simp: Some bindR_eq_Inl_iff split: option.splits dest!: traverse_Inl)
      with keys_ends [OF _ i o [OF Some]] show False by blast
    qed
  qed (rule endsI; auto simp: bindR_eq_Inl_iff split: option.splits dest!: traverse_Inl)
next
  case (IndexExpr a i)
  show ?case by (rule endsI) (use IndexExpr.IH in \<open>auto simp: bindR_eq_Inl_iff split: if_splits dest: endsD kept drop_ends drop_kept\<close>)
next
  case (ColExpr name dget dset)
  show ?case
  proof (rule endsI)
    fix chain st
    assume i: "I st" and "resolve R chain n (ColExpr name dget dset) st = Inl OutOfTurns"
    then have "optS (\<lambda>x s. dropLanding (resolve R False n x s)) dget st = Inl OutOfTurns \<or>
        (\<exists>d st1. optS (\<lambda>x s. dropLanding (resolve R False n x s)) dget st = Inr (d, st1) \<and>
           optS (\<lambda>x s. dropLanding (resolve R False n x s)) dset st1 = Inl OutOfTurns)"
      by (auto simp: bindR_eq_Inl_iff split: option.splits if_splits)
    then show False using opt_ends [OF _ i ColExpr.IH(1)] opt_kept [OF _ i] opt_ends [OF _ _ ColExpr.IH(2)] by blast
  qed
next
  case (GetExpr name dflt)
  show ?case by (rule endsI) (use opt_ends [OF _ _ GetExpr.IH] in \<open>auto simp: bindR_eq_Inl_iff\<close>)
next
  case (SetExpr name dflt)
  show ?case by (rule endsI) (use opt_ends [OF _ _ SetExpr.IH] in \<open>auto simp: bindR_eq_Inl_iff\<close>)
next
  case (InExpr neg e cs)
  show ?case by (rule endsI) (use InExpr.IH(1) many_ends [OF _ _ InExpr.IH(2)] in \<open>auto simp: bindR_eq_Inl_iff dest: drop_ends drop_kept\<close>)
next
  case (ConcatWsExpr e es)
  show ?case by (rule endsI) (use ConcatWsExpr.IH(1) many_ends [OF _ _ ConcatWsExpr.IH(2)] in \<open>auto simp: bindR_eq_Inl_iff dest: drop_ends drop_kept\<close>)
next
  case (CoalesceExpr es)
  show ?case by (rule endsI) (use many_ends [OF _ _ CoalesceExpr.IH] in \<open>auto simp: bindR_eq_Inl_iff\<close>)
next
  case (FormatExpr fmt es)
  show ?case by (rule endsI) (use many_ends [OF _ _ FormatExpr.IH] in \<open>auto simp: bindR_eq_Inl_iff\<close>)
next
  case (CallExpr ref es)
  show ?case by (rule endsI) (use many_ends [OF _ _ CallExpr.IH] in \<open>auto simp: bindR_eq_Inl_iff\<close>)
next
  case (ArrExpr es)
  show ?case by (rule endsI) (use many_ends [OF _ _ ArrExpr.IH] in \<open>auto simp: bindR_eq_Inl_iff\<close>)
next
  case (LstExpr es)
  show ?case by (rule endsI) (use many_ends [OF _ _ LstExpr.IH] in \<open>auto simp: bindR_eq_Inl_iff\<close>)
qed (rule endsI; auto simp: bindR_eq_Inl_iff split: if_splits option.splits dest: drop_ends drop_kept)+

end

interpretation root_call_ends: scope_turns R None shapeOnly I for R I
  by unfold_locales simp

subsection \<open>Nested selects\<close>

definition validPaths :: "queryNode \<Rightarrow> path set" where
  "validPaths root = {p. nodeAt root p \<noteq> None}"

lemma validPaths_sub: "validPaths n \<subseteq> insert [] (\<Union>c \<in> set (qnOutgoing n @ qnIncoming n). (#) (outer c) ` validPaths c)"
proof
  fix p
  assume "p \<in> validPaths n"
  then show "p \<in> insert [] (\<Union>c \<in> set (qnOutgoing n @ qnIncoming n). (#) (outer c) ` validPaths c)"
  proof (cases p)
    case (Cons a q)
    with \<open>p \<in> validPaths n\<close> obtain c where "childNamed n a = Some c" "nodeAt c q \<noteq> None"
      by (auto simp: validPaths_def split: option.splits)
    then show ?thesis using childNamed_outer [of n a c] Cons by (auto simp: validPaths_def)
  qed simp
qed

lemma card_UN_list: "(\<And>x. x \<in> set xs \<Longrightarrow> finite (A x) \<and> card (A x) \<le> f x) \<Longrightarrow>
   finite (\<Union>x \<in> set xs. A x) \<and> card (\<Union>x \<in> set xs. A x) \<le> sum_list (map f xs)"
proof (induction xs)
  case (Cons x xs)
  then have "finite (A x)" "card (A x) \<le> f x" "finite (\<Union>x \<in> set xs. A x)" "card (\<Union>x \<in> set xs. A x) \<le> sum_list (map f xs)"
    by auto
  then show ?case using card_Un_le [of "A x" "\<Union>x \<in> set xs. A x"] by auto
qed simp

lemma validPaths_card: "finite (validPaths n) \<and> card (validPaths n) \<le> nodeCount n"
proof (induction n)
  case (QueryNode info out inc)
  let ?U = "\<Union>c \<in> set (out @ inc). (#) (outer c) ` validPaths c"
  have "finite ?U \<and> card ?U \<le> sum_list (map nodeCount (out @ inc))"
    by (rule card_UN_list) (use QueryNode.IH in \<open>auto intro: order_trans [OF card_image_le]\<close>)
  then have U: "finite (insert [] ?U)" "card (insert [] ?U) \<le> nodeCount (QueryNode info out inc)"
    using card_insert_le_m1 [of "Suc (card ?U)" ?U "[]"] by auto
  have "validPaths (QueryNode info out inc) \<subseteq> insert [] ?U" using validPaths_sub [of "QueryNode info out inc"] by simp
  then show ?case using U finite_subset card_mono le_trans by meson
qed

definition hopEnds :: "resolver \<Rightarrow> bool" where
  "hopEnds R \<longleftrightarrow> (\<forall>q st. memoOk (rvDb R) (rvRoot R) st \<longrightarrow> rvSelectShape R q st \<noteq> Inl OutOfTurns)"

lemma scope_turns_of_node:
  assumes "hopSound R" "hopEnds R"
  shows "scope_turns R (Some p) (visible (rvDb R) (rvRoot R) p) (memoOk (rvDb R) (rvRoot R))"
proof (intro scope_turns.intro scope_turns_axioms.intro)
  show "scope_fields R (Some p) (visible (rvDb R) (rvRoot R) p) (memoOk (rvDb R) (rvRoot R))" by (rule scope_of_node [OF assms(1)])
  fix q st name
  assume "memoOk (rvDb R) (rvRoot R) st"
  then show "resolveExternalHop R q name st \<noteq> Inl OutOfTurns"
    using assms(2) by (auto simp: resolveExternalHop_def hopEnds_def bindR_eq_Inl_iff lookupAt_def LookupInScope_def
        split: if_splits option.splits list.splits sum.splits)
qed

lemma selectShape_ends:
  "distinct inProg \<Longrightarrow> set inProg \<subseteq> validPaths root \<Longrightarrow> card (validPaths root) < k + length inProg \<Longrightarrow> memoOk db root st \<Longrightarrow>
   selectShape k db cfg root own inProg q st \<noteq> Inl OutOfTurns"
proof (induction k arbitrary: inProg q st)
  case 0
  then have "length inProg \<le> card (validPaths root)" using validPaths_card by (metis card_mono distinct_card)
  with 0 show ?case by simp
next
  case (Suc k)
  let ?R = "\<lparr>rvDb = db, rvConfig = cfg, rvRoot = root, rvOwn = own, rvSelectShape = selectShape k db cfg root own (q # inProg)\<rparr>"
  have r: "resolve ?R True (Some q) (niSelect (qnInfo node)) st \<noteq> Inl OutOfTurns" if n: "nodeAt root q = Some node" "q \<notin> set inProg" for node
  proof -
    have "hopEnds ?R"
      unfolding hopEnds_def using Suc.IH [of "q # inProg"] Suc.prems n by (auto simp: validPaths_def)
    moreover have "hopSound ?R" unfolding hopSound_def using selectShape_sound by auto
    ultimately have t: "scope_turns ?R (Some q) (visible db root q) (memoOk db root)" using scope_turns_of_node [of ?R q] by simp
    show ?thesis by (rule scope_turns.endsD [OF t scope_turns.resolve_ends [OF t] Suc.prems(4)])
  qed
  then show ?case by (auto simp: resolveChain_def Let_def bindR_eq_Inl_iff split: option.splits)
qed

lemma hopEnds_resolverFor: "nodeCount root < k \<Longrightarrow> hopEnds (resolverFor k db cfg root own)"
  using validPaths_card [of root] selectShape_ends [of "[]" root k db] by (auto simp: hopEnds_def)

lemma resolver_turns:
  assumes "nodeCount root < k"
  shows "scope_turns (resolverFor k db cfg root own) (Some p) (visible db root p) (memoOk db root)"
  using scope_turns_of_node [OF hopSound_resolverFor hopEnds_resolverFor [OF assms], of db cfg own p] by simp

interpretation node_turns: scope_turns "resolverFor (Suc (nodeCount root)) db cfg root own" "Some p" "visible db root p" "memoOk db root"
  for db cfg root own p
  by (rule resolver_turns) simp

subsection \<open>The tree\<close>

lemma resolveExpr_ends:
  assumes "memoOk db root st"
  shows "resolveExpr (resolverFor (Suc (nodeCount root)) db cfg root own) n e st \<noteq> Inl OutOfTurns"
proof (cases n)
  case None
  show ?thesis
    unfolding None resolveExpr_def
    using root_call_ends.drop_ends [OF _ root_call_ends.resolve_ends, of _ e st "memoOk db root"] assms by blast
next
  case (Some p)
  show ?thesis
    unfolding Some resolveExpr_def using node_turns.drop_ends [OF _ node_turns.resolve_ends assms] by blast
qed

lemma bind_ends: "m \<noteq> Inl e \<Longrightarrow> (\<And>a b. m = Inr (a, b) \<Longrightarrow> f a b \<noteq> Inl e) \<Longrightarrow> bindR m (\<lambda>(a, b). f a b) \<noteq> Inl e"
  by (cases m) auto

lemma thread_ends:
  assumes "J s" "\<And>x s. x \<in> set xs \<Longrightarrow> J s \<Longrightarrow> f x s \<noteq> Inl e" "\<And>x s y t. x \<in> set xs \<Longrightarrow> J s \<Longrightarrow> f x s = Inr (y, t) \<Longrightarrow> J t"
  shows "traverseS f xs s \<noteq> Inl e"
proof
  assume "traverseS f xs s = Inl e"
  then have "\<exists>x \<in> set xs. \<exists>t. J t \<and> f x t = Inl e"
    by (rule root_call_ends.traverse_ends) (use assms in blast)+
  with assms(2) show False by blast
qed

lemma resolveParts_ends:
  assumes "memoOk db root st" "nodeAt root p \<noteq> None" "scopeExists root parent"
  shows "resolveParts (resolverFor (Suc (nodeCount root)) db cfg root own) parent p info st \<noteq> Inl OutOfTurns"
  unfolding resolveParts_def
proof (intro bind_ends, goal_cases)
  let ?R = "resolverFor (Suc (nodeCount root)) db cfg root own"
  have e: "scopeExists root (Some p)" using assms(2) by (simp add: scopeExists_def)
  have w: "memoOk db root st1" if "optS (resolveExpr ?R (Some p)) (niWhere info) st = Inr (whr, st1)" for whr st1
    using that resolveExpr_sound [OF _ assms(1) e] assms(1) by (cases "niWhere info") (auto simp: bindR_eq_Inr_iff)
  have m2: "memoOk db root st2"
    if "optS (resolveExpr ?R (Some p)) (niWhere info) st = Inr (whr, st1)" "rvSelectShape ?R p st1 = Inr (sh, st2)" for whr st1 sh st2
    using selectShape_sound [OF that(2) [unfolded resolverFor_sel] w [OF that(1)]] by blast
  {
    case 1
    show ?case using resolveExpr_ends [OF assms(1), of cfg own "Some p"] by (cases "niWhere info") (auto simp: bindR_eq_Inl_iff)
  next
    case (2 whr st1)
    show ?case using selectShape_ends [of "[]" root "Suc (nodeCount root)" db st1] validPaths_card [of root] w [OF 2] by simp
  next
    case (3 whr st1 sh st2)
    have "memoOk db root st2" by (rule m2 [OF 3(1,2)])
    then show ?case
      by (rule thread_ends [where J = "memoOk db root"])
        (use resolveExpr_ends resolveExpr_sound e in \<open>auto simp: nonLiteral_def bindR_eq_Inl_iff bindR_eq_Inr_iff split: if_splits\<close>)
  next
    case (4 whr st1 sh st2 dist st3)
    have "memoOk db root st2" by (rule m2 [OF 4(1,2)])
    then have "memoOk db root st3" using nonLiteral_sound [OF 4(3)] assms(2) by blast
    then show ?case using node_turns.order_ends [OF _ _ node_turns.resolve_ends] by blast
  next
    case (5 whr st1 sh st2 dist st3 ord st4)
    have "memoOk db root st2" by (rule m2 [OF 5(1,2)])
    then have "memoOk db root st3" using nonLiteral_sound [OF 5(3)] assms(2) by blast
    then have m4: "memoOk db root st4" using node_scope.order_ok [OF 5(4) _ node_scope.resolve_sound] by blast
    have "traverseS (resolveExpr ?R parent) (niFunctionArguments info) st4 \<noteq> Inl OutOfTurns"
      by (rule thread_ends [where J = "memoOk db root", OF m4]) (use resolveExpr_ends resolveExpr_sound assms(3) in blast)+
    then show ?case by simp
  next
    case (6 whr st1 sh st2 dist st3 ord st4 args st5)
    have "memoOk db root st2" by (rule m2 [OF 6(1,2)])
    then have "memoOk db root st3" using nonLiteral_sound [OF 6(3)] assms(2) by blast
    then have "memoOk db root st4" using node_scope.order_ok [OF 6(4) _ node_scope.resolve_sound] by blast
    then have m5: "memoOk db root st5"
      using 6(5) resolveExprs_sound [OF _ _ assms(3), of _ db cfg own _ st4] by (cases "IsFunction info") auto
    have "traverseS (\<lambda>kv s. bindR (resolveExpr ?R parent (snd kv) s) (\<lambda>(r, s1). Inr ((fst kv, r), s1))) (niFunctionArgumentMap info) st5
        \<noteq> Inl OutOfTurns"
      by (rule thread_ends [where J = "memoOk db root", OF m5])
        (use resolveExpr_ends resolveExpr_sound assms(3) in \<open>auto simp: bindR_eq_Inl_iff bindR_eq_Inr_iff\<close>)
    then show ?case by simp
  next
    case 7
    then show ?case by (simp split: option.splits)
  }
qed

lemma resolveExpressions_ends:
  "nodeAt root p = Some node \<Longrightarrow> distinctAliases node \<Longrightarrow> scopeExists root parent \<Longrightarrow> memoOk db root st \<Longrightarrow>
   resolveExpressions (resolverFor (Suc (nodeCount root)) db cfg root) parent p node st \<noteq> Inl OutOfTurns"
proof (induction node arbitrary: parent p st)
  case (QueryNode info out inc)
  let ?mk = "resolverFor (Suc (nodeCount root)) db cfg root" let ?rec = "\<lambda>c. resolveExpressions ?mk (Some p) (p @ [outer c]) c"
  have sc: "scopeExists root (Some p)" using QueryNode.prems(1) by (simp add: scopeExists_def)
  have at: "nodeAt root (p @ [outer c]) = Some c" "distinctAliases c" if "c \<in> set (out @ inc)" for c
    using nodeAt_child [OF QueryNode.prems(1)] childNamed_distinct [OF QueryNode.prems(2), of c] QueryNode.prems(2) that by auto
  have keep: "memoOk db root t" if "c \<in> set (out @ inc)" "memoOk db root s" "?rec c s = Inr (c', t)" for c s c' t
    using resolveExpressions_sound [OF that(3) at [OF that(1)] sc that(2)] by blast
  have ends: "?rec c s \<noteq> Inl OutOfTurns" if "c \<in> set (out @ inc)" "memoOk db root s" for c s
    using QueryNode.IH at [OF that(1)] that sc by auto
  have kept: "memoOk db root t" if "set cs \<subseteq> set (out @ inc)" "traverseS ?rec cs s = Inr (cs', t)" "memoOk db root s" for cs s cs' t
  proof -
    have "list_all2 (\<lambda>_ _. True) cs cs' \<and> memoOk db root t"
      by (rule traverseS_all2 [where I = "memoOk db root", OF that(2,3)]) (use keep that(1) in blast)
    then show ?thesis ..
  qed
  have thr: "traverseS ?rec cs s \<noteq> Inl OutOfTurns" if "set cs \<subseteq> set (out @ inc)" "memoOk db root s" for cs s
    by (rule thread_ends [where J = "memoOk db root", OF that(2)]) (use ends keep that(1) in blast)+
  show ?case
    unfolding resolveExpressions.simps
  proof (intro bind_ends, goal_cases)
    case 1
    show ?case by (rule thr) (use QueryNode.prems(4) in auto)
  next
    case (2 out' st1)
    show ?case by (rule thr) (use kept [OF _ 2 QueryNode.prems(4)] in auto)
  next
    case (3 out' st1 inc' st2)
    have "memoOk db root st2" using kept [OF _ 3(2)] kept [OF _ 3(1) QueryNode.prems(4)] by auto
    then show ?case using resolveParts_ends [of db root st2 p parent] QueryNode.prems(1,3) by simp
  qed simp
qed

end
