(* ===== verification/Resolve_Erase.thy ===== *)
theory Resolve_Erase
  imports Resolve_Ends
begin

text \<open>
  Resolution only annotates: erasing the bindings of a resolved tree gives the query it was made from.  With it the
  properties of the two passes together: names of sub-fields and joins exist, nothing outside a node's own part of the
  tree is reachable, and resolution ends.
\<close>

subsection \<open>Erasure\<close>

fun eraseR :: "rexpr \<Rightarrow> expression" where
  "eraseR (RPlain e) = e"
| "eraseR (RIdentifier name f) = Identifier name"
| "eraseR (RUnary op e) = UnaryExpr op (eraseR e)"
| "eraseR (RBinary op l r) = BinaryExpr op (eraseR l) (eraseR r)"
| "eraseR (RFolded op l r) = FoldedExpr op (eraseR l) (eraseR r)"
| "eraseR (RBetween neg a e b) = BetweenExpr neg (eraseR a) (eraseR e) (eraseR b)"
| "eraseR (RIn neg e es) = InExpr neg (eraseR e) (map eraseR es)"
| "eraseR (RAnyAll all op e a) = AnyAllExpr all op (eraseR e) (eraseR a)"
| "eraseR (RConcatWs e es) = ConcatWsExpr (eraseR e) (map eraseR es)"
| "eraseR (RCoalesce es) = CoalesceExpr (map eraseR es)"
| "eraseR (RFormat fmt es) = FormatExpr fmt (map eraseR es)"
| "eraseR (RAgg addr ref fn es flt dist ord) =
     AggExpr ref (map eraseR es) (map_option eraseR flt) dist (map (\<lambda>(e, d). (eraseR e, d)) ord)"
| "eraseR (RCall ref fn es) = CallExpr ref (map eraseR es)"
| "eraseR (RObject fs) = ObjectExpr (map (\<lambda>(k, e). (k, eraseR e)) fs)"
| "eraseR (RStar own except ands) = StarExpr own except (map_option (map (\<lambda>(k, e). (k, eraseR e))) ands)"
| "eraseR (RArr es) = ArrExpr (map eraseR es)"
| "eraseR (RLst es) = LstExpr (map eraseR es)"
| "eraseR (RIndex a i) = IndexExpr (eraseR a) (eraseR i)"
| "eraseR (RSlice a f t) = SliceExpr (eraseR a) (eraseR f) (eraseR t)"
| "eraseR (RCol name f dget dset) = ColExpr name (map_option eraseR dget) (map_option eraseR dset)"
| "eraseR (RGet name c dflt) = GetExpr name (map_option eraseR dflt)"
| "eraseR (RSet name c dflt) = SetExpr name (map_option eraseR dflt)"

definition erases :: "resolver \<Rightarrow> path option \<Rightarrow> expression \<Rightarrow> bool" where
  "erases R n e \<longleftrightarrow> (\<forall>chain st r land st'. resolve R chain n e st = Inr (r, land, st') \<longrightarrow> eraseR r = e)"

lemma erasesD: "erases R n e \<Longrightarrow> resolve R chain n e st = Inr (r, land, st') \<Longrightarrow> eraseR r = e"
  unfolding erases_def by blast

lemma erasesI: "(\<And>chain st r land st'. resolve R chain n e st = Inr (r, land, st') \<Longrightarrow> eraseR r = e) \<Longrightarrow> erases R n e"
  unfolding erases_def by blast

lemma drop_erases: "dropLanding (resolve R False n e st) = Inr (r, st') \<Longrightarrow> erases R n e \<Longrightarrow> eraseR r = e"
  by (auto simp: dropLanding_Inr dest: erasesD)

lemma list_all2_map_eq: "list_all2 (\<lambda>x y. f y = x) xs ys \<longleftrightarrow> map f ys = xs"
  by (induction ys arbitrary: xs) (auto simp: list_all2_Cons2)

lemma thread_map:
  assumes "traverseS f xs s = Inr (ys, t)" "\<And>x y s t. x \<in> set xs \<Longrightarrow> f x s = Inr (y, t) \<Longrightarrow> g y = x"
  shows "map g ys = xs"
proof -
  have "list_all2 (\<lambda>x y. g y = x) xs ys \<and> True"
    by (rule traverseS_all2 [where I = "\<lambda>_. True", OF assms(1)]) (use assms(2) in auto)
  then show ?thesis by (simp add: list_all2_map_eq)
qed

lemma many_erases:
  "traverseS (\<lambda>x s. dropLanding (resolve R False n x s)) es st = Inr (es', st') \<Longrightarrow> (\<And>x. x \<in> set es \<Longrightarrow> erases R n x) \<Longrightarrow> map eraseR es' = es"
  by (rule thread_map) (auto dest: drop_erases)

lemma opt_erases:
  "optS (\<lambda>x s. dropLanding (resolve R False n x s)) e st = Inr (e', st') \<Longrightarrow> (\<And>x. x \<in> set_option e \<Longrightarrow> erases R n x) \<Longrightarrow> map_option eraseR e' = e"
  by (cases e) (auto simp: bindR_eq_Inr_iff dest: drop_erases)

lemma order_erases:
  "traverseS (orderByTerm (resolve R False n)) ts st = Inr (ts', st') \<Longrightarrow> (\<And>t. t \<in> set ts \<Longrightarrow> erases R n (fst t)) \<Longrightarrow>
   map (\<lambda>(e, d). (eraseR e, d)) ts' = ts"
  by (rule thread_map) (auto simp: orderByTerm_def bindR_eq_Inr_iff split: if_splits intro: drop_erases)

lemma keys_erases:
  "traverseS (shapeKey (resolve R True n)) fs s = Inr (fs', s') \<Longrightarrow> (\<And>kv. kv \<in> set fs \<Longrightarrow> erases R n (snd kv)) \<Longrightarrow>
   map (\<lambda>(k, e). (k, eraseR e)) fs' = fs"
  by (rule thread_map) (fastforce simp: shapeKey_def bindR_eq_Inr_iff split: if_splits dest: erasesD)+

lemma hop_erases: "resolveHopInto R e into st = Inr (r, land, st') \<Longrightarrow> eraseR r = e"
  by (cases e; cases into) (auto simp: resolveHopInto_def Let_def bindR_eq_Inr_iff split: option.splits)

lemma resolve_erases: "erases R n e"
proof (induction e)
  case (FoldedExpr op l r)
  show ?case
  proof (rule erasesI)
    fix chain st e' land st'
    assume a: "resolve R chain n (FoldedExpr op l r) st = Inr (e', land, st')"
    show "eraseR e' = FoldedExpr op l r"
    proof (cases "op = ''.''")
      case True
      with a obtain l' f st1 r' where "resolve R True n l st = Inr (l', Some f, st1)"
        "resolveHopInto R r f st1 = Inr (r', land, st')" "e' = RFolded op l' r'"
        by (auto simp: bindR_eq_Inr_iff split: option.splits)
      then show ?thesis using erasesD [OF FoldedExpr.IH(1)] hop_erases by simp
    next
      case False
      with a show ?thesis
        by (cases "op \<in> set jsonOperators") (auto simp: bindR_eq_Inr_iff dest: drop_erases [OF _ FoldedExpr.IH(1)] drop_erases [OF _ FoldedExpr.IH(2)])
    qed
  qed
next
  case (AggExpr ref es flt dist ord)
  have o: "erases R n (fst t)" if "t \<in> set ord" for t using AggExpr.IH(3) [OF that, of "fst t"] by (cases t) (simp add: prod_set_simps)
  show ?case
    by (rule erasesI) (auto simp: bindR_eq_Inr_iff dest!: many_erases [OF _ AggExpr.IH(1)] opt_erases [OF _ AggExpr.IH(2)] order_erases [OF _ o])
next
  case (ObjectExpr fs)
  have o: "erases R n (snd kv)" if "kv \<in> set fs" for kv using ObjectExpr.IH [OF that, of "snd kv"] by (cases kv) (simp add: prod_set_simps)
  show ?case by (rule erasesI) (auto simp: bindR_eq_Inr_iff dest!: keys_erases [OF _ o])
next
  case (StarExpr own except ands)
  have o: "erases R n (snd kv)" if "ands = Some fs" "kv \<in> set fs" for kv fs
    using StarExpr.IH [of fs kv "snd kv"] that by (cases kv) (simp add: prod_set_simps)
  show ?case
  proof (rule erasesI)
    fix chain st r land st'
    assume a: "resolve R chain n (StarExpr own except ands) st = Inr (r, land, st')"
    show "eraseR r = StarExpr own except ands"
    proof (cases ands)
      case (Some fs)
      with a obtain b fs' sh where "traverseS (shapeKey (resolve R True n)) fs (b, st) = Inr (fs', sh, st')" "r = RStar own except (Some fs')"
        by (auto simp: bindR_eq_Inr_iff split: option.splits)
      then show ?thesis using keys_erases [OF _ o [OF Some]] Some by simp
    qed (use a in \<open>auto simp: bindR_eq_Inr_iff split: option.splits\<close>)
  qed
next
  case (IndexExpr a i)
  show ?case
    by (rule erasesI) (auto simp: bindR_eq_Inr_iff split: if_splits dest: erasesD [OF IndexExpr.IH(1)] drop_erases [OF _ IndexExpr.IH(2)])
next
  case (ColExpr name dget dset)
  show ?case
  proof (rule erasesI)
    fix chain st r land st'
    assume "resolve R chain n (ColExpr name dget dset) st = Inr (r, land, st')"
    then obtain f dget' st1 dset' where "optS (\<lambda>x s. dropLanding (resolve R False n x s)) dget st = Inr (dget', st1)"
      "optS (\<lambda>x s. dropLanding (resolve R False n x s)) dset st1 = Inr (dset', st')" "r = RCol name f dget' dset'"
      by (auto simp: bindR_eq_Inr_iff split: option.splits if_splits)
    then show "eraseR r = ColExpr name dget dset"
      using opt_erases [OF _ ColExpr.IH(1)] opt_erases [OF _ ColExpr.IH(2)] by simp
  qed
next
  case (GetExpr name dflt)
  show ?case by (rule erasesI) (auto simp: bindR_eq_Inr_iff dest: opt_erases [OF _ GetExpr.IH])
next
  case (SetExpr name dflt)
  show ?case by (rule erasesI) (auto simp: bindR_eq_Inr_iff dest: opt_erases [OF _ SetExpr.IH])
next
  case (InExpr neg e cs)
  show ?case by (rule erasesI) (auto simp: bindR_eq_Inr_iff dest: drop_erases [OF _ InExpr.IH(1)] many_erases [OF _ InExpr.IH(2)])
next
  case (ConcatWsExpr e es)
  show ?case by (rule erasesI) (auto simp: bindR_eq_Inr_iff dest: drop_erases [OF _ ConcatWsExpr.IH(1)] many_erases [OF _ ConcatWsExpr.IH(2)])
next
  case (CoalesceExpr es)
  show ?case by (rule erasesI) (auto simp: bindR_eq_Inr_iff dest: many_erases [OF _ CoalesceExpr.IH])
next
  case (FormatExpr fmt es)
  show ?case by (rule erasesI) (auto simp: bindR_eq_Inr_iff dest: many_erases [OF _ FormatExpr.IH])
next
  case (CallExpr ref es)
  show ?case by (rule erasesI) (auto simp: bindR_eq_Inr_iff dest: many_erases [OF _ CallExpr.IH])
next
  case (ArrExpr es)
  show ?case by (rule erasesI) (auto simp: bindR_eq_Inr_iff dest: many_erases [OF _ ArrExpr.IH])
next
  case (LstExpr es)
  show ?case by (rule erasesI) (auto simp: bindR_eq_Inr_iff dest: many_erases [OF _ LstExpr.IH])
qed (rule erasesI; auto simp: bindR_eq_Inr_iff split: if_splits option.splits dest!: drop_erases)+

subsection \<open>Selects in the memo\<close>

definition memoErased :: "queryNode \<Rightarrow> memo \<Rightarrow> bool" where
  "memoErased root st \<longleftrightarrow> (\<forall>(q, r, sh) \<in> set st. \<exists>node. nodeAt root q = Some node \<and> eraseR r = niSelect (qnInfo node))"

lemma memoErased_scope:
  assumes "\<And>q st sh st'. rvSelectShape R q st = Inr (sh, st') \<Longrightarrow> memoErased root st \<Longrightarrow> memoErased root st'"
  shows "scope_fields R n (\<lambda>_. True) (memoErased root)"
proof
  fix q st name land st'
  assume "memoErased root st" "resolveExternalHop R q name st = Inr (land, st')"
  moreover from this obtain sh where "(if q = rvOwn R then Inr ([], st) else rvSelectShape R q st) = Inr (sh, st')"
    by (cases "lookupAt R q name") (auto simp: resolveExternalHop_def bindR_eq_Inr_iff split: option.splits if_splits)
  ultimately have "memoErased root st'" using assms by (auto split: if_splits)
  then show "(\<forall>f \<in> set_option land. True) \<and> memoErased root st'" by simp
qed simp_all

lemma selectShape_erased:
  "selectShape k db cfg root own inProg q st = Inr (sh, st') \<Longrightarrow> memoErased root st \<Longrightarrow> memoErased root st'"
proof (induction k arbitrary: inProg q st sh st')
  case (Suc k)
  show ?case
  proof (cases "map_of st q")
    case None
    let ?R = "\<lparr>rvDb = db, rvConfig = cfg, rvRoot = root, rvOwn = own, rvSelectShape = selectShape k db cfg root own (q # inProg)\<rparr>"
    from None Suc.prems(1) obtain node sel land st1 where x: "nodeAt root q = Some node"
      "resolve ?R True (Some q) (niSelect (qnInfo node)) st = Inr (sel, land, st1)" "st' = (q, sel, sh) # st1"
      by (auto simp: bindR_eq_Inr_iff resolveChain_def Let_def split: option.splits if_splits)
    have sc: "scope_fields ?R (Some q) (\<lambda>_. True) (memoErased root)" by (rule memoErased_scope) (use Suc.IH in auto)
    from scope_fields.soundD(3) [OF sc scope_fields.resolve_sound [OF sc] x(2)] Suc.prems(2) have "memoErased root st1" by blast
    then show ?thesis using x(1,3) erasesD [OF resolve_erases x(2)] by (auto simp: memoErased_def)
  qed (use Suc.prems in auto)
qed simp

lemma resolverFor_erased: "scope_fields (resolverFor k db cfg root own) n (\<lambda>_. True) (memoErased root)"
  by (rule memoErased_scope) (simp add: selectShape_erased)

interpretation erased_scope: scope_fields "resolverFor k db cfg root own" n "\<lambda>_. True" "memoErased root" for k db cfg root own n
  by (rule resolverFor_erased)

subsection \<open>The tree\<close>

fun eraseTree :: "resolvedNode \<Rightarrow> queryNode" where
  "eraseTree (ResolvedNode info parts out inc) =
     QueryNode
       (info\<lparr>niWhere := map_option eraseR (rpWhere parts), niSelect := eraseR (rpSelect parts),
             niDistinctOn := map eraseR (rpDistinctOn parts), niOrderBy := map (\<lambda>(e, d). (eraseR e, d)) (rpOrderBy parts),
             niFunctionArguments := (if IsFunction info then map eraseR (rpArguments parts) else niFunctionArguments info),
             niFunctionArgumentMap :=
               (if IsFunction info then map (\<lambda>(k, e). (k, eraseR e)) (rpArgumentMap parts) else niFunctionArgumentMap info)\<rparr>)
       (map eraseTree out) (map eraseTree inc)"

lemma resolveExpr_erased:
  assumes "resolveExpr (resolverFor k db cfg root own) n e st = Inr (r, st')"
  shows "eraseR r = e" "memoErased root st \<Longrightarrow> memoErased root st'"
  using drop_erases [OF _ resolve_erases] erased_scope.drop_ok [OF _ erased_scope.resolve_sound] assms
  unfolding resolveExpr_def by blast+

lemma resolveParts_erased:
  assumes "resolveParts (resolverFor k db cfg root own) parent p info st = Inr (parts, st')" "memoErased root st" "nodeAt root p = Some node"
    and "qnInfo node = info"
  shows "eraseTree (ResolvedNode info parts out inc) = QueryNode info (map eraseTree out) (map eraseTree inc) \<and> memoErased root st'"
proof (rule resolveParts_Inr [OF assms(1)])
  fix st1 st2 st3 st4 st5 sh
  let ?R = "resolverFor k db cfg root own"
  assume w: "optS (resolveExpr ?R (Some p)) (niWhere info) st = Inr (rpWhere parts, st1)"
    and s: "rvSelectShape ?R p st1 = Inr (rpShape parts, st2)"
    and d: "traverseS (nonLiteral ?R p) (niDistinctOn info) st2 = Inr (rpDistinctOn parts, st3)"
    and o: "traverseS (orderByTerm (resolve ?R False (Some p))) (niOrderBy info) st3 = Inr (rpOrderBy parts, st4)"
    and a: "(if IsFunction info then traverseS (resolveExpr ?R parent) (niFunctionArguments info) st4 else Inr ([], st4)) =
      Inr (rpArguments parts, st5)"
    and m: "(if IsFunction info
      then traverseS (\<lambda>kv s. bindR (resolveExpr ?R parent (snd kv) s) (\<lambda>(r, s1). Inr ((fst kv, r), s1))) (niFunctionArgumentMap info) st5
      else Inr ([], st5)) = Inr (rpArgumentMap parts, st')"
    and sel: "map_of st' p = Some (rpSelect parts, sh)"
  have 1: "map_option eraseR (rpWhere parts) = niWhere info \<and> memoErased root st1"
    using w resolveExpr_erased assms(2) by (cases "niWhere info"; cases "rpWhere parts") (auto simp: bindR_eq_Inr_iff)
  have 2: "memoErased root st2" using selectShape_erased [OF s [unfolded resolverFor_sel]] 1 by blast
  have 3: "list_all2 (\<lambda>x y. eraseR y = x) (niDistinctOn info) (rpDistinctOn parts) \<and> memoErased root st3"
    by (rule traverseS_all2 [where I = "memoErased root", OF d 2])
      (use resolveExpr_erased in \<open>auto simp: nonLiteral_def bindR_eq_Inr_iff split: if_splits\<close>)
  have 4: "map (\<lambda>(e, d). (eraseR e, d)) (rpOrderBy parts) = niOrderBy info \<and> memoErased root st4"
    using order_erases [OF o resolve_erases] erased_scope.order_ok [OF o conjunct2 [OF 3] erased_scope.resolve_sound] by simp
  have 5: "(IsFunction info \<longrightarrow> list_all2 (\<lambda>x y. eraseR y = x) (niFunctionArguments info) (rpArguments parts)) \<and> memoErased root st5"
  proof (cases "IsFunction info")
    case True
    have "list_all2 (\<lambda>x y. eraseR y = x) (niFunctionArguments info) (rpArguments parts) \<and> memoErased root st5"
      by (rule traverseS_all2 [where I = "memoErased root", OF a [unfolded if_P [OF True]] conjunct2 [OF 4]]) (use resolveExpr_erased in blast)
    then show ?thesis by simp
  qed (use a 4 in simp)
  have 6: "(IsFunction info \<longrightarrow> list_all2 (\<lambda>x y. (\<lambda>(k, e). (k, eraseR e)) y = x) (niFunctionArgumentMap info) (rpArgumentMap parts)) \<and>
      memoErased root st'"
  proof (cases "IsFunction info")
    case True
    have "list_all2 (\<lambda>x y. (\<lambda>(k, e). (k, eraseR e)) y = x) (niFunctionArgumentMap info) (rpArgumentMap parts) \<and> memoErased root st'"
      by (rule traverseS_all2 [where I = "memoErased root", OF m [unfolded if_P [OF True]] conjunct2 [OF 5]])
        (use resolveExpr_erased in \<open>auto simp: bindR_eq_Inr_iff\<close>)
    then show ?thesis by simp
  qed (use m 5 in simp)
  have "eraseR (rpSelect parts) = niSelect info"
    using conjunct2 [OF 6] map_of_SomeD [OF sel] assms(3,4) unfolding memoErased_def by fastforce
  with 1 3 4 5 6 show ?thesis by (simp add: list_all2_map_eq)
qed

lemma resolveExpressions_erased:
  "resolveExpressions (resolverFor k db cfg root) parent p node st = Inr (t, st') \<Longrightarrow> nodeAt root p = Some node \<Longrightarrow>
   distinctAliases node \<Longrightarrow> memoErased root st \<Longrightarrow> eraseTree t = node \<and> memoErased root st'"
proof (induction node arbitrary: parent p st t st')
  case (QueryNode info out inc)
  let ?mk = "resolverFor k db cfg root" let ?rec = "\<lambda>c. resolveExpressions ?mk (Some p) (p @ [outer c]) c"
  obtain out' st1 inc' st2 parts where x: "traverseS ?rec out st = Inr (out', st1)" "traverseS ?rec inc st1 = Inr (inc', st2)"
    "resolveParts (?mk p) parent p info st2 = Inr (parts, st')" "t = ResolvedNode info parts out' inc'"
    using QueryNode.prems(1) by (auto simp: bindR_eq_Inr_iff)
  have child: "eraseTree c' = c \<and> memoErased root s'"
    if c: "c \<in> set (out @ inc)" "memoErased root s" "?rec c s = Inr (c', s')" for c c' s s'
  proof -
    have "nodeAt root (p @ [outer c]) = Some c" "distinctAliases c"
      using nodeAt_child [OF QueryNode.prems(2)] childNamed_distinct [OF QueryNode.prems(3), of c] QueryNode.prems(3) c(1) by auto
    then show ?thesis using QueryNode.IH c by auto
  qed
  have 1: "list_all2 (\<lambda>c c'. eraseTree c' = c) out out' \<and> memoErased root st1"
    by (rule traverseS_all2 [where I = "memoErased root", OF x(1) QueryNode.prems(4)]) (use child in auto)
  have 2: "list_all2 (\<lambda>c c'. eraseTree c' = c) inc inc' \<and> memoErased root st2"
    by (rule traverseS_all2 [where I = "memoErased root", OF x(2) conjunct2 [OF 1]]) (use child in auto)
  from resolveParts_erased [OF x(3) conjunct2 [OF 2] QueryNode.prems(2), of out' inc'] 1 2
  show ?case by (simp add: x(4) list_all2_map_eq)
qed

end
