(* ===== verification/Query_Shape.thy ===== *)
theory Query_Shape
  imports Resolve_Erase
begin

text \<open>
  The last step of resolution (\<open>query/shape.go\<close>): which columns of a node a payload shaped like its select can write, and
  from where; the whole of \<open>Resolve\<close>; and the check a write starts with (\<open>findUnwritableNode\<close> of \<open>query/write.go\<close>).
  The four maps of \<open>writeAccum\<close> have the same keys and are one map.  The pointer of a node in \<open>ColumnPath.Key\<close> is its path.
\<close>

subsection \<open>The accumulator\<close>

type_synonym columnKey = "path \<times> string"

record accEntry =
  aeOccurrences :: int
  aeClean :: bool
  aePath :: "string list"
  aeColumn :: "path \<times> column list"

type_synonym writeAccum = "(columnKey \<times> accEntry) list"

definition keyOf :: "path \<times> column list \<Rightarrow> columnKey" where
  "keyOf cp = (fst cp, pathKey (snd cp))"

definition recordUse :: "path \<times> column list \<Rightarrow> string list \<Rightarrow> bool \<Rightarrow> writeAccum \<Rightarrow> writeAccum" where
  "recordUse cp jsonPath isClean a =
     (let e = (case map_of a (keyOf cp) of
                 None \<Rightarrow> \<lparr>aeOccurrences = 0, aeClean = True, aePath = jsonPath, aeColumn = cp\<rparr>
               | Some e \<Rightarrow> e)
      in AList.update (keyOf cp) (e\<lparr>aeOccurrences := aeOccurrences e + 1, aeClean := aeClean e \<and> isClean\<rparr>) a)"

subsection \<open>The walk\<close>

definition recordOwnColumns :: "path \<Rightarrow> relation option \<Rightarrow> string list \<Rightarrow> string list \<Rightarrow> writeAccum \<Rightarrow> writeAccum" where
  "recordOwnColumns p rel except jsonPath a =
     (case rel of
        None \<Rightarrow> a
      | Some r \<Rightarrow>
          fold (\<lambda>c. recordUse (p, [c]) (jsonPath @ [colName c]) True)
            (filter (\<lambda>c. colName c \<notin> set except \<and> \<not> colIsGenerated c) (relColumns r)) a)"

definition recordField :: "resolvedField option \<Rightarrow> string list \<Rightarrow> bool \<Rightarrow> writeAccum \<Rightarrow> writeAccum" where
  "recordField f jsonPath isClean a =
     (case f of Some (ColumnPath q cols _) \<Rightarrow> recordUse (q, cols) jsonPath isClean a | _ \<Rightarrow> a)"

fun chainHopsThroughIndex :: "rexpr \<Rightarrow> bool" where
  "chainHopsThroughIndex (RIndex a i) = True"
| "chainHopsThroughIndex (RFolded op l r) = (op = ''.'' \<and> chainHopsThroughIndex l)"
| "chainHopsThroughIndex _ = False"

text \<open>An expression that was left unresolved holds no resolved column, but a star in it still stands for the columns of
  the node.\<close>

fun walkPlain :: "path \<Rightarrow> relation option \<Rightarrow> expression \<Rightarrow> string list \<Rightarrow> writeAccum \<Rightarrow> writeAccum" where
  "walkPlain p rel (CoalesceExpr es) j a = fold (\<lambda>e. walkPlain p rel e j) es a"
| "walkPlain p rel (FoldedExpr op l r) j a = (if op = ''.'' then a else walkPlain p rel r j (walkPlain p rel l j a))"
| "walkPlain p rel (UnaryExpr op e) j a = walkPlain p rel e j a"
| "walkPlain p rel (BinaryExpr op l r) j a = walkPlain p rel r j (walkPlain p rel l j a)"
| "walkPlain p rel (BetweenExpr neg lo e hi) j a = walkPlain p rel hi j (walkPlain p rel e j (walkPlain p rel lo j a))"
| "walkPlain p rel (InExpr neg e cs) j a = fold (\<lambda>c. walkPlain p rel c j) cs (walkPlain p rel e j a)"
| "walkPlain p rel (AnyAllExpr all op e arr) j a = walkPlain p rel arr j (walkPlain p rel e j a)"
| "walkPlain p rel (ConcatWsExpr sep es) j a = fold (\<lambda>e. walkPlain p rel e j) es (walkPlain p rel sep j a)"
| "walkPlain p rel (FormatExpr fmt es) j a = fold (\<lambda>e. walkPlain p rel e j) es a"
| "walkPlain p rel (AggExpr ref es flt dist ord) j a =
     (let a' = fold (\<lambda>e. walkPlain p rel e j) es a in case flt of None \<Rightarrow> a' | Some f \<Rightarrow> walkPlain p rel f j a')"
| "walkPlain p rel (CallExpr ref es) j a = fold (\<lambda>e. walkPlain p rel e j) es a"
| "walkPlain p rel (ObjectExpr fs) j a = fold (\<lambda>kv. walkPlain p rel (snd kv) (j @ [fst kv])) fs a"
| "walkPlain p rel (StarExpr own except ands) j a =
     (let a' = recordOwnColumns p rel except j a in
      case ands of None \<Rightarrow> a' | Some fs \<Rightarrow> fold (\<lambda>kv. walkPlain p rel (snd kv) (j @ [fst kv])) fs a')"
| "walkPlain p rel (ArrExpr es) j a = fold (\<lambda>e. walkPlain p rel e j) es a"
| "walkPlain p rel (LstExpr es) j a = fold (\<lambda>e. walkPlain p rel e j) es a"
| "walkPlain p rel (IndexExpr e i) j a = walkPlain p rel e j a"
| "walkPlain p rel (SliceExpr e f t) j a = walkPlain p rel e j a"
| "walkPlain p rel _ j a = a"

fun walkSelectForWritability :: "path \<Rightarrow> relation option \<Rightarrow> rexpr \<Rightarrow> string list \<Rightarrow> bool \<Rightarrow> writeAccum \<Rightarrow> writeAccum" where
  "walkSelectForWritability p rel (RPlain e) j co a = walkPlain p rel e j a"
| "walkSelectForWritability p rel (RIdentifier name f) j co a = recordField f j co a"
| "walkSelectForWritability p rel (RCol name f dget dset) j co a = recordField (Some f) j co a"
| "walkSelectForWritability p rel (RSet name c dflt) j co a = recordUse (p, [c]) j co a"
| "walkSelectForWritability p rel (RGet name c dflt) j co a = a"
| "walkSelectForWritability p rel (RCoalesce es) j co a = fold (\<lambda>e. walkSelectForWritability p rel e j co) es a"
| "walkSelectForWritability p rel (RFolded op l r) j co a =
     (if op \<in> {''??'', ''||?''} then walkSelectForWritability p rel r j co (walkSelectForWritability p rel l j co a)
      else if op = ''.'' then
        (case r of
           RIdentifier name f \<Rightarrow>
             if chainHopsThroughIndex (RFolded op l r) then a
             else (case f of Some (ColumnPath q cols elem) \<Rightarrow> if q = p then recordUse (q, cols) j co a else a | _ \<Rightarrow> a)
         | _ \<Rightarrow> a)
      else walkSelectForWritability p rel r j False (walkSelectForWritability p rel l j False a))"
| "walkSelectForWritability p rel (RUnary op e) j co a = walkSelectForWritability p rel e j False a"
| "walkSelectForWritability p rel (RBinary op l r) j co a =
     walkSelectForWritability p rel r j False (walkSelectForWritability p rel l j False a)"
| "walkSelectForWritability p rel (RBetween neg lo e hi) j co a =
     walkSelectForWritability p rel hi j False
       (walkSelectForWritability p rel e j False (walkSelectForWritability p rel lo j False a))"
| "walkSelectForWritability p rel (RIn neg e cs) j co a =
     fold (\<lambda>c. walkSelectForWritability p rel c j False) cs (walkSelectForWritability p rel e j False a)"
| "walkSelectForWritability p rel (RAnyAll all op e arr) j co a =
     walkSelectForWritability p rel arr j False (walkSelectForWritability p rel e j False a)"
| "walkSelectForWritability p rel (RConcatWs sep es) j co a =
     fold (\<lambda>e. walkSelectForWritability p rel e j False) es (walkSelectForWritability p rel sep j False a)"
| "walkSelectForWritability p rel (RFormat fmt es) j co a = fold (\<lambda>e. walkSelectForWritability p rel e j False) es a"
| "walkSelectForWritability p rel (RAgg addr ref fn es flt dist ord) j co a =
     (let a' = fold (\<lambda>e. walkSelectForWritability p rel e j False) es a in
      case flt of None \<Rightarrow> a' | Some f \<Rightarrow> walkSelectForWritability p rel f j False a')"
| "walkSelectForWritability p rel (RCall ref fn es) j co a = fold (\<lambda>e. walkSelectForWritability p rel e j False) es a"
| "walkSelectForWritability p rel (RObject fs) j co a =
     fold (\<lambda>kv. walkSelectForWritability p rel (snd kv) (j @ [fst kv]) True) fs a"
| "walkSelectForWritability p rel (RStar own except ands) j co a =
     (let a' = recordOwnColumns p rel except j a in
      case ands of
        None \<Rightarrow> a'
      | Some fs \<Rightarrow> fold (\<lambda>kv. walkSelectForWritability p rel (snd kv) (j @ [fst kv]) True) fs a')"
| "walkSelectForWritability p rel (RArr es) j co a = fold (\<lambda>e. walkSelectForWritability p rel e j False) es a"
| "walkSelectForWritability p rel (RLst es) j co a = fold (\<lambda>e. walkSelectForWritability p rel e j False) es a"
| "walkSelectForWritability p rel (RIndex e i) j co a = walkSelectForWritability p rel e j False a"
| "walkSelectForWritability p rel (RSlice e f t) j co a = walkSelectForWritability p rel e j False a"

subsection \<open>The shape of a node\<close>

record extractor =
  exPath :: "path \<times> column list"
  exJsonPath :: "string list"

record nodeShape =
  nsFields :: shape
  nsExtractors :: "extractor list"
  nsWritable :: bool

datatype shapedNode = ShapedNode
  (snInfo: nodeInfo) (snParts: resolvedParts) (snShape: nodeShape) (snOutgoing: "shapedNode list") (snIncoming: "shapedNode list")

definition usedOnce :: "accEntry \<Rightarrow> bool" where "usedOnce e \<longleftrightarrow> aeOccurrences e = 1 \<and> aeClean e"

definition identityColumns :: "nodeInfo \<Rightarrow> relation \<Rightarrow> column list" where
  "identityColumns info r =
     (if niOnConflictColumns info \<noteq> [] then List.map_filter (ColumnsMap r) (niOnConflictColumns info)
      else
        case relPrimaryKey r of
          None \<Rightarrow> []
        | Some c \<Rightarrow> List.map_filter (\<lambda>n. case n of None \<Rightarrow> None | Some name \<Rightarrow> ColumnsMap r name) (pcColumns c))"

definition identityIsWritable :: "path \<Rightarrow> nodeInfo \<Rightarrow> writeAccum \<Rightarrow> bool" where
  "identityIsWritable p info a =
     (case niRelation info of
        None \<Rightarrow> False
      | Some r \<Rightarrow>
          \<not> IsFunction info \<and> identityColumns info r \<noteq> [] \<and>
          list_all (\<lambda>c. case map_of a (keyOf (p, [c])) of None \<Rightarrow> False | Some e \<Rightarrow> usedOnce e) (identityColumns info r))"

definition selectUses :: "path \<Rightarrow> nodeInfo \<Rightarrow> resolvedParts \<Rightarrow> writeAccum" where
  "selectUses p info parts = walkSelectForWritability p (niRelation info) (rpSelect parts) [] True []"

definition extractorsOf :: "writeAccum \<Rightarrow> extractor list" where
  "extractorsOf a = map (\<lambda>(_, e). \<lparr>exPath = aeColumn e, exJsonPath = aePath e\<rparr>) (filter (\<lambda>(_, e). usedOnce e) a)"

definition childWritable :: "shapedNode \<Rightarrow> bool" where
  "childWritable c \<longleftrightarrow> niWriteMode (snInfo c) = READONLY \<or> nsWritable (snShape c)"

definition deriveNodeShape :: "path \<Rightarrow> nodeInfo \<Rightarrow> resolvedParts \<Rightarrow> shapedNode list \<Rightarrow> shapedNode list \<Rightarrow> nodeShape" where
  "deriveNodeShape p info parts out inc =
     (if niWriteMode info = READONLY then \<lparr>nsFields = rpShape parts, nsExtractors = [], nsWritable = True\<rparr>
      else
        let a = selectUses p info parts in
        \<lparr>nsFields = rpShape parts, nsExtractors = extractorsOf a,
         nsWritable = (isWhereDriven (niWriteMode info) \<or> identityIsWritable p info a) \<and>
                      list_all childWritable out \<and> list_all childWritable inc\<rparr>)"

fun deriveShapes :: "path \<Rightarrow> resolvedNode \<Rightarrow> shapedNode" where
  "deriveShapes p (ResolvedNode info parts out inc) =
     (let out' = map (\<lambda>c. deriveShapes (p @ [niOuterAlias (rnInfo c)]) c) out;
          inc' = map (\<lambda>c. deriveShapes (p @ [niOuterAlias (rnInfo c)]) c) inc
      in ShapedNode info parts (deriveNodeShape p info parts out' inc') out' inc')"

definition Resolve :: "dbInfos \<Rightarrow> resolveConfig \<Rightarrow> rawRelation \<Rightarrow> resolve_error + shapedNode" where
  "Resolve db cfg raw =
     bindR (resolveQuery db cfg raw) (\<lambda>root.
     bindR (resolveTree db cfg root) (\<lambda>t. Inr (deriveShapes [] t)))"

subsection \<open>The check of a write\<close>

fun firstSome :: "('a \<Rightarrow> 'b option) \<Rightarrow> 'a list \<Rightarrow> 'b option" where
  "firstSome f [] = None"
| "firstSome f (x # xs) = (case f x of Some y \<Rightarrow> Some y | None \<Rightarrow> firstSome f xs)"

lemma firstSome_cong [fundef_cong]:
  "xs = ys \<Longrightarrow> (\<And>x. x \<in> set ys \<Longrightarrow> f x = g x) \<Longrightarrow> firstSome f xs = firstSome g ys"
proof (induction ys arbitrary: xs)
  case (Cons y ys)
  then show ?case by (cases "g y") simp_all
qed simp

lemma firstSome_None [simp]: "firstSome f xs = None \<longleftrightarrow> (\<forall>x \<in> set xs. f x = None)"
  by (induction xs) (auto split: option.splits)

lemma firstSome_Some: "firstSome f xs = Some y \<Longrightarrow> \<exists>x \<in> set xs. f x = Some y"
  by (induction xs) (auto split: option.splits)

fun findUnwritableNode :: "path \<Rightarrow> shapedNode \<Rightarrow> (path \<times> shapedNode) option" where
  "findUnwritableNode p (ShapedNode info parts sh out inc) =
     (if niWriteMode info = READONLY then None
      else
        case firstSome (\<lambda>c. findUnwritableNode (p @ [niOuterAlias (snInfo c)]) c) out of
          Some found \<Rightarrow> Some found
        | None \<Rightarrow>
            (case firstSome (\<lambda>c. findUnwritableNode (p @ [niOuterAlias (snInfo c)]) c) inc of
               Some found \<Rightarrow> Some found
             | None \<Rightarrow> if \<not> nsWritable sh then Some (p, ShapedNode info parts sh out inc) else None))"

subsection \<open>Uses of columns\<close>

text \<open>What the walk records, as a list: the column, the keys that lead to it and whether it is used as it is.\<close>

type_synonym columnUse = "(path \<times> column list) \<times> string list \<times> bool"

definition ownUses :: "path \<Rightarrow> relation option \<Rightarrow> string list \<Rightarrow> string list \<Rightarrow> columnUse list" where
  "ownUses p rel except j =
     (case rel of
        None \<Rightarrow> []
      | Some r \<Rightarrow>
          map (\<lambda>c. ((p, [c]), j @ [colName c], True))
            (filter (\<lambda>c. colName c \<notin> set except \<and> \<not> colIsGenerated c) (relColumns r)))"

definition fieldUse :: "resolvedField option \<Rightarrow> string list \<Rightarrow> bool \<Rightarrow> columnUse list" where
  "fieldUse f j co = (case f of Some (ColumnPath q cols _) \<Rightarrow> [((q, cols), j, co)] | _ \<Rightarrow> [])"

fun plainUses :: "path \<Rightarrow> relation option \<Rightarrow> expression \<Rightarrow> string list \<Rightarrow> columnUse list" where
  "plainUses p rel (CoalesceExpr es) j = concat (map (\<lambda>e. plainUses p rel e j) es)"
| "plainUses p rel (FoldedExpr op l r) j = (if op = ''.'' then [] else plainUses p rel l j @ plainUses p rel r j)"
| "plainUses p rel (UnaryExpr op e) j = plainUses p rel e j"
| "plainUses p rel (BinaryExpr op l r) j = plainUses p rel l j @ plainUses p rel r j"
| "plainUses p rel (BetweenExpr neg lo e hi) j = plainUses p rel lo j @ plainUses p rel e j @ plainUses p rel hi j"
| "plainUses p rel (InExpr neg e cs) j = plainUses p rel e j @ concat (map (\<lambda>c. plainUses p rel c j) cs)"
| "plainUses p rel (AnyAllExpr all op e arr) j = plainUses p rel e j @ plainUses p rel arr j"
| "plainUses p rel (ConcatWsExpr sep es) j = plainUses p rel sep j @ concat (map (\<lambda>e. plainUses p rel e j) es)"
| "plainUses p rel (FormatExpr fmt es) j = concat (map (\<lambda>e. plainUses p rel e j) es)"
| "plainUses p rel (AggExpr ref es flt dist ord) j =
     concat (map (\<lambda>e. plainUses p rel e j) es) @ (case flt of None \<Rightarrow> [] | Some f \<Rightarrow> plainUses p rel f j)"
| "plainUses p rel (CallExpr ref es) j = concat (map (\<lambda>e. plainUses p rel e j) es)"
| "plainUses p rel (ObjectExpr fs) j = concat (map (\<lambda>kv. plainUses p rel (snd kv) (j @ [fst kv])) fs)"
| "plainUses p rel (StarExpr own except ands) j =
     ownUses p rel except j @
     (case ands of None \<Rightarrow> [] | Some fs \<Rightarrow> concat (map (\<lambda>kv. plainUses p rel (snd kv) (j @ [fst kv])) fs))"
| "plainUses p rel (ArrExpr es) j = concat (map (\<lambda>e. plainUses p rel e j) es)"
| "plainUses p rel (LstExpr es) j = concat (map (\<lambda>e. plainUses p rel e j) es)"
| "plainUses p rel (IndexExpr e i) j = plainUses p rel e j"
| "plainUses p rel (SliceExpr e f t) j = plainUses p rel e j"
| "plainUses p rel _ j = []"

fun uses :: "path \<Rightarrow> relation option \<Rightarrow> rexpr \<Rightarrow> string list \<Rightarrow> bool \<Rightarrow> columnUse list" where
  "uses p rel (RPlain e) j co = plainUses p rel e j"
| "uses p rel (RIdentifier name f) j co = fieldUse f j co"
| "uses p rel (RCol name f dget dset) j co = fieldUse (Some f) j co"
| "uses p rel (RSet name c dflt) j co = [((p, [c]), j, co)]"
| "uses p rel (RGet name c dflt) j co = []"
| "uses p rel (RCoalesce es) j co = concat (map (\<lambda>e. uses p rel e j co) es)"
| "uses p rel (RFolded op l r) j co =
     (if op \<in> {''??'', ''||?''} then uses p rel l j co @ uses p rel r j co
      else if op = ''.'' then
        (case r of
           RIdentifier name f \<Rightarrow>
             if chainHopsThroughIndex l then [] else filter (\<lambda>u. fst (fst u) = p) (fieldUse f j co)
         | _ \<Rightarrow> [])
      else uses p rel l j False @ uses p rel r j False)"
| "uses p rel (RUnary op e) j co = uses p rel e j False"
| "uses p rel (RBinary op l r) j co = uses p rel l j False @ uses p rel r j False"
| "uses p rel (RBetween neg lo e hi) j co = uses p rel lo j False @ uses p rel e j False @ uses p rel hi j False"
| "uses p rel (RIn neg e cs) j co = uses p rel e j False @ concat (map (\<lambda>c. uses p rel c j False) cs)"
| "uses p rel (RAnyAll all op e arr) j co = uses p rel e j False @ uses p rel arr j False"
| "uses p rel (RConcatWs sep es) j co = uses p rel sep j False @ concat (map (\<lambda>e. uses p rel e j False) es)"
| "uses p rel (RFormat fmt es) j co = concat (map (\<lambda>e. uses p rel e j False) es)"
| "uses p rel (RAgg addr ref fn es flt dist ord) j co =
     concat (map (\<lambda>e. uses p rel e j False) es) @ (case flt of None \<Rightarrow> [] | Some f \<Rightarrow> uses p rel f j False)"
| "uses p rel (RCall ref fn es) j co = concat (map (\<lambda>e. uses p rel e j False) es)"
| "uses p rel (RObject fs) j co = concat (map (\<lambda>kv. uses p rel (snd kv) (j @ [fst kv]) True) fs)"
| "uses p rel (RStar own except ands) j co =
     ownUses p rel except j @
     (case ands of None \<Rightarrow> [] | Some fs \<Rightarrow> concat (map (\<lambda>kv. uses p rel (snd kv) (j @ [fst kv]) True) fs))"
| "uses p rel (RArr es) j co = concat (map (\<lambda>e. uses p rel e j False) es)"
| "uses p rel (RLst es) j co = concat (map (\<lambda>e. uses p rel e j False) es)"
| "uses p rel (RIndex e i) j co = uses p rel e j False"
| "uses p rel (RSlice e f t) j co = uses p rel e j False"

definition recordAll :: "columnUse list \<Rightarrow> writeAccum \<Rightarrow> writeAccum" where
  "recordAll us a = fold (\<lambda>(cp, j, co). recordUse cp j co) us a"

lemma recordAll_Nil [simp]: "recordAll [] a = a"
  by (simp add: recordAll_def)

lemma recordAll_one [simp]: "recordAll [(cp, j, co)] a = recordUse cp j co a"
  by (simp add: recordAll_def)

lemma recordAll_append [simp]: "recordAll (us @ vs) a = recordAll vs (recordAll us a)"
  by (simp add: recordAll_def)

lemma fold_recordAll:
  "(\<And>x a. x \<in> set xs \<Longrightarrow> f x a = recordAll (g x) a) \<Longrightarrow> fold f xs a = recordAll (concat (map g xs)) a"
  by (induction xs arbitrary: a) simp_all

lemma recordOwnColumns_uses: "recordOwnColumns p rel except j a = recordAll (ownUses p rel except j) a"
  by (cases rel) (simp_all add: recordOwnColumns_def ownUses_def recordAll_def fold_map comp_def)

lemma recordField_uses: "recordField f j co a = recordAll (fieldUse f j co) a"
  by (simp add: recordField_def fieldUse_def recordAll_def split: option.splits resolvedField.splits)

lemma walkPlain_uses: "walkPlain p rel e j a = recordAll (plainUses p rel e j) a"
  by (induction p rel e j a rule: walkPlain.induct)
    (auto simp: fold_recordAll recordOwnColumns_uses Let_def split: option.splits)

lemma walk_uses: "walkSelectForWritability p rel e j co a = recordAll (uses p rel e j co) a"
proof (induction p rel e j co a rule: walkSelectForWritability.induct)
  case (7 p rel op l r j co a)
  then show ?case
    by (auto simp: fieldUse_def recordAll_def split: rexpr.splits option.splits resolvedField.splits)
qed (auto simp: fold_recordAll recordOwnColumns_uses recordField_uses walkPlain_uses Let_def 
    split: option.splits)

text \<open>What the accumulator holds of a key: how many uses have it, whether all are clean, and the first of them.\<close>

definition usesOf :: "columnKey \<Rightarrow> columnUse list \<Rightarrow> columnUse list" where
  "usesOf k us = filter (\<lambda>u. keyOf (fst u) = k) us"

definition summary :: "columnUse list \<Rightarrow> accEntry option" where
  "summary us =
     (case us of
        [] \<Rightarrow> None
      | u # _ \<Rightarrow> Some \<lparr>aeOccurrences = int (length us), aeClean = list_all (\<lambda>v. snd (snd v)) us, aePath = fst (snd u),
                      aeColumn = fst u\<rparr>)"

lemma summary_snoc:
  "summary (us @ [(cp, j, co)]) =
     (let e = (case summary us of
                 None \<Rightarrow> \<lparr>aeOccurrences = 0, aeClean = True, aePath = j, aeColumn = cp\<rparr>
               | Some e \<Rightarrow> e)
      in Some (e\<lparr>aeOccurrences := aeOccurrences e + 1, aeClean := aeClean e \<and> co\<rparr>))"
  by (cases us) (auto simp: summary_def Let_def)

lemma recordAll_summary: "map_of (recordAll us []) k = summary (usesOf k us)"
proof (induction us rule: rev_induct)
  case Nil
  then show ?case by (simp add: usesOf_def summary_def)
next
  case (snoc u us)
  obtain cp j co where u: "u = (cp, j, co)" by (cases u)
  have "recordAll (us @ [u]) [] = recordUse cp j co (recordAll us [])" by (simp add: u)
  then show ?case
    using snoc summary_snoc [of "usesOf k us" cp j co]
    by (cases "keyOf cp = k") (auto simp: recordUse_def u usesOf_def Let_def update_conv')
qed

lemma recordAll_distinct: "distinct (map fst (recordAll us []))"
proof (induction us rule: rev_induct)
  case (snoc u us)
  then show ?case by (cases u) (simp add: recordUse_def Let_def distinct_update)
qed simp

lemma usedOnce_summary:
  "summary us = Some e \<and> usedOnce e \<longleftrightarrow>
     (\<exists>cp j. us = [(cp, j, True)] \<and> e = \<lparr>aeOccurrences = 1, aeClean = True, aePath = j, aeColumn = cp\<rparr>)"
  by (cases us) (auto simp: summary_def usedOnce_def)

text \<open>The exactly-once rule: an extractor stands for a use that is clean and the only one of its key.\<close>

lemma extractorsOf_uses:
  "x \<in> set (extractorsOf (recordAll us [])) \<longleftrightarrow> usesOf (keyOf (exPath x)) us = [(exPath x, exJsonPath x, True)]"
proof -
  have "x \<in> set (extractorsOf (recordAll us [])) \<longleftrightarrow>
      (\<exists>k e. map_of (recordAll us []) k = Some e \<and> usedOnce e \<and> x = \<lparr>exPath = aeColumn e, exJsonPath = aePath e\<rparr>)"
    using map_of_eq_Some_iff [OF recordAll_distinct, of us] by (force simp: extractorsOf_def)
  also have "\<dots> \<longleftrightarrow> (\<exists>k. usesOf k us = [(exPath x, exJsonPath x, True)])"
    unfolding recordAll_summary
  proof safe
    fix k e assume "summary (usesOf k us) = Some e" "usedOnce e"
    then obtain cp j where "usesOf k us = [(cp, j, True)]" "aeColumn e = cp" "aePath e = j"
      using usedOnce_summary [of "usesOf k us" e] by auto
    then show "\<exists>k'. usesOf k' us = [(exPath \<lparr>exPath = aeColumn e, exJsonPath = aePath e\<rparr>, exJsonPath \<lparr>exPath = aeColumn e, exJsonPath = aePath e\<rparr>, True)]"
      by (intro exI [of _ k]) simp
  next
    fix k assume u: "usesOf k us = [(exPath x, exJsonPath x, True)]"
    let ?e = "\<lparr>aeOccurrences = 1, aeClean = True, aePath = exJsonPath x, aeColumn = exPath x\<rparr>"
    have "summary (usesOf k us) = Some ?e" "usedOnce ?e" by (simp_all add: u summary_def usedOnce_def)
    then show "\<exists>k e. summary (usesOf k us) = Some e \<and> usedOnce e \<and> x = \<lparr>exPath = aeColumn e, exJsonPath = aePath e\<rparr>"
      by (intro exI [of _ k] exI [of _ ?e]) simp
  qed
  also have "\<dots> \<longleftrightarrow> usesOf (keyOf (exPath x)) us = [(exPath x, exJsonPath x, True)]"
  proof
    assume "\<exists>k. usesOf k us = [(exPath x, exJsonPath x, True)]"
    then obtain k where k: "usesOf k us = [(exPath x, exJsonPath x, True)]" ..
    then have "(exPath x, exJsonPath x, True) \<in> set (usesOf k us)" by simp
    then have "keyOf (exPath x) = k" by (simp add: usesOf_def)
    with k show "usesOf (keyOf (exPath x)) us = [(exPath x, exJsonPath x, True)]" by simp
  qed blast
  finally show ?thesis .
qed

text \<open>The key of a path joins names with dots, so a column whose own name has a dot shares its key with a field of a
  composite.\<close>

lemma dotted_name_collides:
  "colName c = colName a @ CHR ''.'' # colName b \<Longrightarrow> keyOf (p, [c]) = keyOf (p, [a, b])"
  by (simp add: keyOf_def pathKey_def)

subsection \<open>Nodes a write may touch\<close>

definition nodeUses :: "path \<Rightarrow> nodeInfo \<Rightarrow> resolvedParts \<Rightarrow> columnUse list" where
  "nodeUses p info parts = uses p (niRelation info) (rpSelect parts) [] True"

text \<open>A node can be written when its rows are found by a where, or when each column of its identity is used exactly once
  in its select, as it is.\<close>

definition identifies :: "path \<Rightarrow> nodeInfo \<Rightarrow> resolvedParts \<Rightarrow> bool" where
  "identifies p info parts \<longleftrightarrow>
     isWhereDriven (niWriteMode info) \<or>
     (\<exists>r. niRelation info = Some r \<and> \<not> IsFunction info \<and> identityColumns info r \<noteq> [] \<and>
        (\<forall>c \<in> set (identityColumns info r). \<exists>cp j. usesOf (keyOf (p, [c])) (nodeUses p info parts) = [(cp, j, True)]))"

fun writtenAll :: "(path \<Rightarrow> nodeInfo \<Rightarrow> resolvedParts \<Rightarrow> bool) \<Rightarrow> path \<Rightarrow> shapedNode \<Rightarrow> bool" where
  "writtenAll P p (ShapedNode info parts sh out inc) \<longleftrightarrow>
     niWriteMode info = READONLY \<or>
     P p info parts \<and> list_all (\<lambda>c. writtenAll P (p @ [niOuterAlias (snInfo c)]) c) out \<and>
     list_all (\<lambda>c. writtenAll P (p @ [niOuterAlias (snInfo c)]) c) inc"

lemma identityIsWritable_uses:
  "isWhereDriven (niWriteMode info) \<or> identityIsWritable p info (selectUses p info parts) \<longleftrightarrow> identifies p info parts"
proof -
  have "(case map_of (selectUses p info parts) k of None \<Rightarrow> False | Some e \<Rightarrow> usedOnce e) \<longleftrightarrow>
      (\<exists>cp j. usesOf k (nodeUses p info parts) = [(cp, j, True)])" for k
  proof -
    let ?us = "usesOf k (nodeUses p info parts)"
    have "map_of (selectUses p info parts) k = summary ?us"
      by (simp add: selectUses_def walk_uses nodeUses_def recordAll_summary)
    then have "(case map_of (selectUses p info parts) k of None \<Rightarrow> False | Some e \<Rightarrow> usedOnce e) \<longleftrightarrow>
        (\<exists>e. summary ?us = Some e \<and> usedOnce e)" by (cases "summary ?us") simp_all
    then show ?thesis using usedOnce_summary [of ?us] by simp
  qed
  then show ?thesis
    by (auto simp: identifies_def identityIsWritable_def list_all_iff split: option.splits)
qed

lemma deriveShapes_info [simp]: "snInfo (deriveShapes p t) = rnInfo t" "snParts (deriveShapes p t) = rnParts t"
  by (cases t; simp add: Let_def)+

lemma deriveShapes_writable:
  "childWritable (deriveShapes p t) \<longleftrightarrow> writtenAll identifies p (deriveShapes p t)"
proof (induction t arbitrary: p)
  case (ResolvedNode info parts out inc)
  have ih: "childWritable (deriveShapes q c) \<longleftrightarrow> writtenAll identifies q (deriveShapes q c)" if "c \<in> set out \<union> set inc" for c q
    using that ResolvedNode.IH by blast
  have "list_all childWritable (map (\<lambda>c. deriveShapes (p @ [niOuterAlias (rnInfo c)]) c) cs) \<longleftrightarrow>
      list_all (\<lambda>c. writtenAll identifies (p @ [niOuterAlias (snInfo c)]) c) (map (\<lambda>c. deriveShapes (p @ [niOuterAlias (rnInfo c)]) c) cs)"
    if "set cs \<subseteq> set out \<union> set inc" for cs
    using that ih by (simp add: list_all_iff subset_iff cong: ball_cong)
  then show ?case
    by (auto simp: childWritable_def [of "ShapedNode _ _ _ _ _"] Let_def deriveNodeShape_def identityIsWritable_uses)
qed

lemma findUnwritableNode_exact:
  "findUnwritableNode p (deriveShapes p t) = None \<longleftrightarrow> writtenAll identifies p (deriveShapes p t)"
proof (induction t arbitrary: p)
  case (ResolvedNode info parts out inc)
  let ?sub = "map (\<lambda>c. deriveShapes (p @ [niOuterAlias (rnInfo c)]) c)"
  let ?find = "\<lambda>c. findUnwritableNode (p @ [niOuterAlias (snInfo c)]) c"
  have ih: "findUnwritableNode q (deriveShapes q c) = None \<longleftrightarrow> writtenAll identifies q (deriveShapes q c)"
    if "c \<in> set out \<union> set inc" for c q
    using that ResolvedNode.IH by blast
  have c: "(\<forall>c \<in> set (?sub cs). findUnwritableNode (p @ [niOuterAlias (snInfo c)]) c = None) \<longleftrightarrow>
      list_all (\<lambda>c. writtenAll identifies (p @ [niOuterAlias (snInfo c)]) c) (?sub cs)"
    if "set cs \<subseteq> set out \<union> set inc" for cs
    using that ih by (simp add: list_all_iff subset_iff cong: ball_cong)
  have w: "childWritable (deriveShapes p (ResolvedNode info parts out inc)) \<longleftrightarrow>
      writtenAll identifies p (deriveShapes p (ResolvedNode info parts out inc))" by (rule deriveShapes_writable)
  show ?case
  proof (cases "niWriteMode info = READONLY")
    case True
    then show ?thesis by (simp add: Let_def)
  next
    case False
    have "findUnwritableNode p (deriveShapes p (ResolvedNode info parts out inc)) = None \<longleftrightarrow>
        firstSome ?find (?sub out) = None \<and> firstSome ?find (?sub inc) = None \<and>
        nsWritable (snShape (deriveShapes p (ResolvedNode info parts out inc)))"
      using False
      by (cases "firstSome ?find (?sub out)"; cases "firstSome ?find (?sub inc)") (simp_all add: Let_def del: firstSome_None)
    then show ?thesis using c [of out] c [of inc] w False by (auto simp: childWritable_def Let_def)
  qed
qed

text \<open>The node that is named is the one to blame: its own identity is missing, and nothing below it is wrong.\<close>

lemma findUnwritableNode_Some:
  assumes "findUnwritableNode p (ShapedNode info parts sh out inc) = Some found"
  obtains (out) "firstSome (\<lambda>c. findUnwritableNode (p @ [niOuterAlias (snInfo c)]) c) out = Some found"
  | (inc) "firstSome (\<lambda>c. findUnwritableNode (p @ [niOuterAlias (snInfo c)]) c) inc = Some found"
  | (self) "firstSome (\<lambda>c. findUnwritableNode (p @ [niOuterAlias (snInfo c)]) c) out = None"
      "firstSome (\<lambda>c. findUnwritableNode (p @ [niOuterAlias (snInfo c)]) c) inc = None"
      "found = (p, ShapedNode info parts sh out inc)" "niWriteMode info \<noteq> READONLY" "\<not> nsWritable sh"
  using assms
  by (cases "firstSome (\<lambda>c. findUnwritableNode (p @ [niOuterAlias (snInfo c)]) c) out";
      cases "firstSome (\<lambda>c. findUnwritableNode (p @ [niOuterAlias (snInfo c)]) c) inc")
    (simp_all del: firstSome_None split: if_split_asm)

lemma findUnwritableNode_blames:
  "findUnwritableNode p (deriveShapes p t) = Some (q, n) \<Longrightarrow>
     niWriteMode (snInfo n) \<noteq> READONLY \<and> \<not> identifies q (snInfo n) (snParts n) \<and>
     list_all childWritable (snOutgoing n) \<and> list_all childWritable (snIncoming n)"
proof (induction t arbitrary: p)
  case (ResolvedNode info parts out inc)
  let ?sub = "map (\<lambda>c. deriveShapes (p @ [niOuterAlias (rnInfo c)]) c)"
  let ?find = "\<lambda>c. findUnwritableNode (p @ [niOuterAlias (snInfo c)]) c"
  from ResolvedNode.prems have "findUnwritableNode p (ShapedNode info parts
      (deriveNodeShape p info parts (?sub out) (?sub inc)) (?sub out) (?sub inc)) = Some (q, n)" by (simp add: Let_def)
  then show ?case
  proof (cases rule: findUnwritableNode_Some)
    case self
    have "childWritable c" if "c \<in> set (?sub out) \<union> set (?sub inc)" for c
      using that self(1,2) by (auto simp: findUnwritableNode_exact deriveShapes_writable)
    then have "list_all childWritable (?sub out)" "list_all childWritable (?sub inc)" by (auto simp: list_all_iff)
    moreover from this self(4,5) have "\<not> identifies p info parts"
      by (simp add: Let_def deriveNodeShape_def identityIsWritable_uses)
    ultimately show ?thesis using self(3,4) by simp
  next
    case out
    then obtain c where "c \<in> set out" "findUnwritableNode (p @ [niOuterAlias (rnInfo c)]) (deriveShapes (p @ [niOuterAlias (rnInfo c)]) c) = Some (q, n)"
      using firstSome_Some [of ?find] by fastforce
    then show ?thesis by (rule ResolvedNode.IH(1))
  next
    case inc
    then obtain c where "c \<in> set inc" "findUnwritableNode (p @ [niOuterAlias (rnInfo c)]) (deriveShapes (p @ [niOuterAlias (rnInfo c)]) c) = Some (q, n)"
      using firstSome_Some [of ?find] by fastforce
    then show ?thesis by (rule ResolvedNode.IH(2))
  qed
qed

subsection \<open>Aliases are distinct\<close>

lemma distinct_split: "distinct (map f (filter P xs @ filter (\<lambda>x. \<not> P x) xs)) \<longleftrightarrow> distinct (map f xs)"
proof -
  have "mset (map f (filter P xs @ filter (\<lambda>x. \<not> P x) xs)) = mset (map f xs)"
    by (simp add: mset_filter flip: image_mset_union)
  then show ?thesis by (rule mset_eq_imp_distinct_iff)
qed

lemma distinct_sort_key: "distinct (map f (sort_key g xs)) \<longleftrightarrow> distinct (map f xs)"
  by (rule mset_eq_imp_distinct_iff) simp

lemma resolveNode_outer: "resolveNode db cfg raw parent al d = Inr (node, one) \<Longrightarrow> outer node = al"
  by (erule resolveNode_Inr) (auto simp: resolveInfo_def bindR_eq_Inr_iff guardR_eq_Inr_iff outer_def)

lemma resolveNode_distinct:
  "resolveNode db cfg raw parent al d = Inr (node, one) \<Longrightarrow> wf_relation raw \<Longrightarrow> distinctAliases node"
proof (induction raw arbitrary: parent al d node one rule: measure_induct_rule [of size])
  case (less raw)
  from less.prems(1) obtain info children where n:
    "list_all2 (\<lambda>(a, child) c. resolveNode db cfg child (Some info) a (d + 1) = Inr c) (sortedJoin raw) children"
    "node = QueryNode info (map fst (filter snd children)) (map fst (filter (\<lambda>c. \<not> snd c) children))"
    by (rule resolveNode_Inr)
  have wf: "distinct (map fst (sortedJoin raw)) \<and> (\<forall>(a, child) \<in> set (sortedJoin raw). wf_relation child)"
  proof -
    have "\<forall>m \<in> set_option (rrJoin raw). distinct (map fst m) \<and> (\<forall>kv \<in> set m. wf_relation (snd kv))"
      using less.prems(2) by (subst (asm) wf_relation_iff) (elim conjE)
    then show ?thesis by (cases "rrJoin raw") (auto simp: sortedJoin_def orEmpty_def distinct_sort_key)
  qed
  have "map (outer \<circ> fst) children = map fst (sortedJoin raw)"
    using n(1) by (induction rule: list_all2_induct) (auto dest: resolveNode_outer)
  then have "distinct (map (outer \<circ> fst) children)" using wf by simp
  then have "distinct (map outer (map fst (filter snd children) @ map fst (filter (\<lambda>c. \<not> snd c) children)))"
    using distinct_split [of "outer \<circ> fst" snd children] by (simp add: comp_def)
  moreover have "distinctAliases (fst c)" if c: "c \<in> set children" for c
  proof -
    obtain k where k: "k < length children" "children ! k = c" using c by (auto simp: in_set_conv_nth)
    obtain a child where ac: "sortedJoin raw ! k = (a, child)" by fastforce
    then have m: "(a, child) \<in> set (sortedJoin raw)" "resolveNode db cfg child (Some info) a (d + 1) = Inr (fst c, snd c)"
      using n(1) k by (auto simp: list_all2_conv_all_nth in_set_conv_nth)
    then show ?thesis using less.IH [OF sortedJoin_size [OF m(1)] m(2)] wf by blast
  qed
  ultimately show ?case unfolding n(2) distinctAliases.simps by auto
qed

lemma resolveQuery_distinct: "resolveQuery db cfg raw = Inr root \<Longrightarrow> wf_relation raw \<Longrightarrow> distinctAliases root"
  by (auto simp: resolveQuery_def bindR_eq_Inr_iff dest: resolveNode_distinct)

text \<open>The resolved tree without the derived shapes.\<close>

fun unshaped :: "shapedNode \<Rightarrow> resolvedNode" where
  "unshaped (ShapedNode info parts sh out inc) = ResolvedNode info parts (map unshaped out) (map unshaped inc)"

lemma unshaped_deriveShapes [simp]: "unshaped (deriveShapes p t) = t"
  by (induction t arbitrary: p) (auto simp: Let_def intro: map_idI)

lemma Resolve_Inr:
  assumes "Resolve db cfg raw = Inr t"
  obtains root st where "resolveQuery db cfg raw = Inr root"
    "resolveExpressions (resolverFor (Suc (nodeCount root)) db cfg root) None [] root [] = Inr (unshaped t, st)"
    "t = deriveShapes [] (unshaped t)"
  using assms by (auto simp: Resolve_def resolveTree_def bindR_eq_Inr_iff)

lemma emptyMemo [simp]: "memoOk db root []" "memoErased root []" "scopeExists root None"
  by (simp_all add: memoOk_def memoErased_def scopeExists_def)

lemma bind_keeps: "m \<noteq> Inl e \<Longrightarrow> (\<And>a. f a \<noteq> Inl e) \<Longrightarrow> bindR m f \<noteq> Inl e"
  by (cases m) simp_all

lemma resolveInfo_ends: "resolveInfo db cfg raw parent al \<noteq> Inl OutOfTurns"
proof -
  have "resolveSource db cfg raw \<noteq> Inl OutOfTurns"
    by (auto simp: resolveSource_def bindR_eq_Inl_iff root_call_ends.candidate_ends split: option.splits if_splits)
  moreover have "joinColumn r pr lp \<noteq> Inl OutOfTurns" for r pr lp by (simp add: joinColumn_def split: option.splits)
  then have "resolveJoinTo parent rel raw \<noteq> Inl OutOfTurns" for rel
    by (auto simp: resolveJoinTo_def bindR_eq_Inl_iff mapErr_def split: option.splits sum.splits dest!: traverse_Inl)
  moreover have "resolveWriteMode raw parent one \<noteq> Inl OutOfTurns" for one
  proof -
    have "checkWriteModePlacement raw m parent \<noteq> Inl OutOfTurns" for m
      unfolding checkWriteModePlacement_def by (rule bind_keeps) (simp_all split: option.split)
    moreover have "givenWriteMode raw parent one \<noteq> Inl OutOfTurns" by (simp add: givenWriteMode_def split: option.split)
    ultimately show ?thesis unfolding resolveWriteMode_def guardR_def by (intro bind_keeps) simp_all
  qed
  moreover have "resolveOnConflict rel raw \<noteq> Inl OutOfTurns" for rel
    by (auto simp: resolveOnConflict_def Let_def split: option.splits if_splits)
  moreover have "guardR b InsertColumnsUnknown \<noteq> Inl OutOfTurns" "guardR b UpdateColumnsUnknown \<noteq> Inl OutOfTurns" for b
    by (simp_all add: guardR_def)
  ultimately show ?thesis unfolding resolveInfo_def by (intro bind_ends bind_keeps) simp_all
qed

lemma resolveNode_ends: "resolveNode db cfg raw parent al d \<noteq> Inl OutOfTurns"
proof (induction raw arbitrary: parent al d rule: measure_induct_rule [of size])
  case (less raw)
  have "traverse (\<lambda>(a, child). resolveNode db cfg child (Some info) a (d + 1)) (sortedJoin raw) \<noteq> Inl OutOfTurns" for info
    using less.IH sortedJoin_size by (fastforce dest!: traverse_Inl)
  then show ?case using resolveInfo_ends [of db cfg raw parent al] by (subst resolveNode.simps) (auto simp: bindR_eq_Inl_iff)
qed

lemma resolveQuery_ends: "resolveQuery db cfg raw \<noteq> Inl OutOfTurns"
  using resolveNode_ends [of db cfg raw None "[]" 1] by (auto simp: resolveQuery_def bindR_eq_Inl_iff)

subsection \<open>A query to resolve\<close>

definition shopDb :: dbInfos where
  "shopDb = (case FillConstraintInformations sampleRows sampleDb of
     Inl _ \<Rightarrow> sampleDb | Inr db \<Rightarrow> buildLookupIndices (FillIndexInformations sampleIndexes db))"

definition shopQuery :: node where
  "shopQuery = NObject [(''relation'', NString ''customers''), (''alias'', NString ''c''),
     (''where'', NArray [NString ''='', NArray [NString ''.'', NString ''id''], NArray [NString ''.'', NString ''id'']]),
     (''join'', NObject [(''orders'', NObject [(''relation'', NString ''orders''),
        (''on'', NObject [(''customer'', NString ''id'')]), (''order_by'', NArray [NArray [NString ''.'', NString ''id'']])])])]"

lemma shop_parses: "wf_node shopQuery" "isOk (parseRawRelation shopQuery)"
  by code_simp+

lemma shop_resolves:
  "case parseRawRelation shopQuery of
     Inl _ \<Rightarrow> False
   | Inr raw \<Rightarrow>
       (case Resolve shopDb sampleConfig raw of
          Inl _ \<Rightarrow> False | Inr t \<Rightarrow> length (snIncoming t) = 1 \<and> map exJsonPath (nsExtractors (snShape t)) = [[''id'']])"
  by code_simp

lemma shop_tree:
  obtains raw t where "parseRawRelation shopQuery = Inr raw" "Resolve shopDb sampleConfig raw = Inr t"
    "length (snIncoming t) = 1" "map exJsonPath (nsExtractors (snShape t)) = [[''id'']]"
  using shop_resolves by (auto split: sum.splits)

subsection \<open>Properties\<close>



text \<open>C14: resolution only annotates: the resolved tree, without what the identifiers were bound to, is the tree of the query.\<close>

theorem resolution_only_annotates:
  assumes "parseRawRelation n = Inr raw" "wf_node n" "Resolve db cfg raw = Inr t"
  shows "resolveQuery db cfg raw = Inr (eraseTree (unshaped t))"
proof (rule Resolve_Inr [OF assms(3)])
  fix root st
  assume r: "resolveQuery db cfg raw = Inr root"
    "resolveExpressions (resolverFor (Suc (nodeCount root)) db cfg root) None [] root [] = Inr (unshaped t, st)"
  from resolveQuery_distinct [OF r(1) parseRawRelation_sound [OF assms(2,1)]] resolveExpressions_erased [OF r(2)] r(1)
  show ?thesis by simp
qed

theorem resolution_only_annotates_witness:
  "\<exists>raw t. parseRawRelation shopQuery = Inr raw \<and> Resolve shopDb sampleConfig raw = Inr t \<and>
     resolveQuery shopDb sampleConfig raw = Inr (eraseTree (unshaped t))"
  by (rule shop_tree) (use resolution_only_annotates [OF _ shop_parses(1)] in blast)

text \<open>C15: resolution ends: however the selects of a request refer to each other, the bound on their nesting, the number of
  nodes, is never reached; a select that needs its own shape is refused instead.\<close>

theorem resolution_ends:
  assumes "parseRawRelation n = Inr raw" "wf_node n"
  shows "Resolve db cfg raw \<noteq> Inl OutOfTurns"
proof (cases "resolveQuery db cfg raw")
  case (Inl e)
  have "e \<noteq> OutOfTurns" using Inl resolveQuery_ends by blast
  with Inl show ?thesis by (simp add: Resolve_def)
next
  case (Inr root)
  from resolveExpressions_ends [of root "[]" root None db "[]" cfg] resolveQuery_distinct [OF Inr parseRawRelation_sound [OF assms(2,1)]]
  have "resolveTree db cfg root \<noteq> Inl OutOfTurns"
    by (auto simp: resolveTree_def bindR_eq_Inl_iff)
  with Inr show ?thesis by (cases "resolveTree db cfg root") (auto simp: Resolve_def)
qed

theorem resolution_ends_witness:
  "\<exists>raw. parseRawRelation shopQuery = Inr raw \<and> Resolve shopDb sampleConfig raw \<noteq> Inl OutOfTurns"
  by (rule shop_tree) (use resolution_ends [OF _ shop_parses(1)] in blast)






end
