(* ===== verification/Sql_State.thy ===== *)
theory Sql_State
  imports Query_Shape Sql_Writer
begin

text \<open>
  The state of the SQL compiler (\<open>sqlCompiler\<close> of \<open>query/sql.go\<close>) and the commands the compiler is made of: each writes
  to the SQL writer, allocates an alias or stops with an error.  The type names of casts (\<open>castTypeName\<close>) and the escaping
  of catalog names (\<open>pg/info_identifier.go\<close>) are here too.
\<close>

subsection \<open>State\<close>

datatype bindValue = BNumber f64 | BString string | BInt int | BNil

datatype sql_error =
    OutOfStack | NilDeref | WriterPanic writer_error | DefaultOutside | NoAlias | ToManyRelation | ObjectLanding | OpaqueValue
  | HopNotIdentifier | UnknownUnary string | UnsupportedCast | InvalidCast string | NoResolvedFunction | NoAggTarget
  | AggNotInPlan | NoJoinColumns | NoSelectFields | NoRelation | NoIdentity | NoResolvedColumn | NoColumnDefault | ScalarCount
  | FunctionScoped

record aggConsumer =
  acExpr :: rexpr
  acAlias :: string

record lateralPlan =
  lpAlias :: string
  lpHasArray :: bool
  lpAggs :: "aggConsumer list"

record sqlCompiler =
  scW :: "bindValue SQLWriter"
  scNextAlias :: nat
  scAlias :: "(path \<times> string) list"
  scLaterals :: "(path \<times> lateralPlan) list"

definition newSQLCompiler :: sqlCompiler where
  "newSQLCompiler = \<lparr>scW = NewSQL, scNextAlias = 0, scAlias = [], scLaterals = []\<rparr>"

type_synonym command = "sqlCompiler \<Rightarrow> sql_error + sqlCompiler"

subsection \<open>Commands\<close>

fun seqC :: "command list \<Rightarrow> command" where
  "seqC [] c = Inr c"
| "seqC (x # xs) c = bindR (x c) (seqC xs)"

declare seqC.simps [simp del]

definition failC :: "sql_error \<Rightarrow> command" where "failC e = (\<lambda>_. Inl e)"

definition onWriter :: "(bindValue SQLWriter \<Rightarrow> bindValue SQLWriter) \<Rightarrow> command" where
  "onWriter f c = Inr (c\<lparr>scW := f (scW c)\<rparr>)"

definition wr :: "string \<Rightarrow> command" where "wr s = onWriter (Write s)"

definition ident :: "string \<Rightarrow> command" where "ident name = onWriter (WriteId name)"

definition bindC :: "bindValue \<Rightarrow> command" where "bindC v = onWriter (Bind v)"

definition bindParamC :: "string \<Rightarrow> command" where "bindParamC name = onWriter (BindParam BNil name)"

definition unindentC :: command where
  "unindentC c = (case Unindent (scW c) of Inl e \<Rightarrow> Inl (WriterPanic e) | Inr w \<Rightarrow> Inr (c\<lparr>scW := w\<rparr>))"

definition indentedC :: "command list \<Rightarrow> command" where
  "indentedC cs = seqC (onWriter Indent # cs @ [unindentC])"

definition surroundC :: "string \<Rightarrow> string \<Rightarrow> command list \<Rightarrow> command" where
  "surroundC start end' cs = seqC (wr start # cs @ [wr end'])"

definition parenC :: "command list \<Rightarrow> command" where "parenC cs = surroundC ''('' '')'' cs"

fun separated :: "string \<Rightarrow> command list \<Rightarrow> command list" where
  "separated sep [] = []"
| "separated sep [c] = [c]"
| "separated sep (c # d # cs) = c # wr sep # separated sep (d # cs)"

text \<open>\<open>compileArgList\<close> goes through \<open>SurroundList\<close>, which indents.\<close>

definition argListC :: "command list \<Rightarrow> command" where
  "argListC cs = surroundC ''('' '')'' [indentedC (separated '', '' cs)]"

definition allocAlias :: "(string \<Rightarrow> command) \<Rightarrow> command" where
  "allocAlias f c = f (CHR ''t'' # showNat (Suc (scNextAlias c))) (c\<lparr>scNextAlias := Suc (scNextAlias c)\<rparr>)"

definition aliasOf :: "path \<Rightarrow> (string \<Rightarrow> command) \<Rightarrow> command" where
  "aliasOf p f c = (case map_of (scAlias c) p of None \<Rightarrow> Inl NoAlias | Some a \<Rightarrow> f a c)"

definition setAlias :: "path \<Rightarrow> string \<Rightarrow> command" where
  "setAlias p a c = Inr (c\<lparr>scAlias := AList.update p a (scAlias c)\<rparr>)"

definition withLaterals :: "((path \<times> lateralPlan) list \<Rightarrow> command) \<Rightarrow> command" where
  "withLaterals f c = f (scLaterals c) c"

definition setLaterals :: "(path \<times> lateralPlan) list \<Rightarrow> command" where
  "setLaterals ls c = Inr (c\<lparr>scLaterals := ls\<rparr>)"

definition qualify :: "string \<Rightarrow> string \<Rightarrow> command" where
  "qualify al name = seqC [wr al, wr ''.'', ident name]"

subsection \<open>Names of the catalog\<close>

definition EscapeIdentifierPart :: "string \<Rightarrow> string" where
  "EscapeIdentifierPart name = dquote # doubleQuotes name @ [dquote]"

definition EscapedString :: "string \<Rightarrow> string \<Rightarrow> string" where
  "EscapedString schema name = EscapeIdentifierPart schema @ ''.'' @ EscapeIdentifierPart name"

fun writeQualifiedPathN :: "string \<Rightarrow> column list \<Rightarrow> nat \<Rightarrow> command" where
  "writeQualifiedPathN al cols 0 = (case cols of [] \<Rightarrow> failC NilDeref | c # _ \<Rightarrow> seqC [wr al, wr ''.'', ident (colName c)])"
| "writeQualifiedPathN al cols (Suc i) =
     seqC [parenC [writeQualifiedPathN al cols i], wr ''.'',
           if Suc i < length cols then ident (colName (cols ! Suc i)) else failC NilDeref]"

definition WriteQualifiedPath :: "string \<Rightarrow> column list \<Rightarrow> command" where
  "WriteQualifiedPath al cols = (if cols = [] then failC NilDeref else writeQualifiedPathN al cols (length cols - 1))"

subsection \<open>Cast types\<close>

definition isSpaceRe :: "char \<Rightarrow> bool" where "isSpaceRe c \<longleftrightarrow> c \<in> {CHR '' '', CHR 0x09, CHR 0x0A, CHR 0x0C, CHR 0x0D}"

definition isWordStart :: "char \<Rightarrow> bool" where
  "isWordStart c \<longleftrightarrow> c = CHR ''_'' \<or> (CHR ''a'' \<le> c \<and> c \<le> CHR ''z'') \<or> (CHR ''A'' \<le> c \<and> c \<le> CHR ''Z'')"

definition isWordPart :: "char \<Rightarrow> bool" where "isWordPart c \<longleftrightarrow> isWordStart c \<or> isDigit c"

function castBrackets :: "string \<Rightarrow> bool" where
  "castBrackets s =
     (case dropWhile isSpaceRe s of
        [] \<Rightarrow> s = []
      | c # r \<Rightarrow>
          c = CHR ''['' \<and> (case dropWhile isSpaceRe r of d # r' \<Rightarrow> d = CHR '']'' \<and> castBrackets r' | [] \<Rightarrow> False))"
  by pat_completeness auto
termination
proof (relation "measure length")
  fix s r r' :: string and c d
  assume "dropWhile isSpaceRe s = c # r" "dropWhile isSpaceRe r = d # r'"
  then show "(r', s) \<in> measure length"
    using length_dropWhile_le [of isSpaceRe s] length_dropWhile_le [of isSpaceRe r] by simp
qed simp

definition castDigits :: "string \<Rightarrow> string option" where
  "castDigits s =
     (let t = dropWhile isSpaceRe s in
      if t \<noteq> [] \<and> isDigit (hd t) then Some (dropWhile isSpaceRe (dropWhile isDigit t)) else None)"

text \<open>The precision, after its opening parenthesis.\<close>

definition castPrecision :: "string \<Rightarrow> bool" where
  "castPrecision s =
     (case castDigits s of
        None \<Rightarrow> False
      | Some t \<Rightarrow>
          (case t of
             [] \<Rightarrow> False
           | c # r \<Rightarrow>
               if c = CHR '')'' then castBrackets r
               else
                 c = CHR '','' \<and>
                 (case castDigits r of Some (d # r') \<Rightarrow> d = CHR '')'' \<and> castBrackets r' | _ \<Rightarrow> False)))"

function castWords :: "string \<Rightarrow> bool" where
  "castWords s =
     (case s of
        [] \<Rightarrow> True
      | c # r \<Rightarrow>
          if c = CHR ''('' then castPrecision r
          else
            (case dropWhile isSpaceRe s of
               d # t \<Rightarrow> if isSpaceRe c \<and> isWordStart d then castWords (dropWhile isWordPart t) else castBrackets s
             | [] \<Rightarrow> False))"
  by pat_completeness auto
termination
proof (relation "measure length")
  fix s r t :: string and c d
  assume "s = c # r" "dropWhile isSpaceRe s = d # t"
  then have "length t < length s" using length_dropWhile_le [of isSpaceRe s] by simp
  then show "(dropWhile isWordPart t, s) \<in> measure length" using length_dropWhile_le [of isWordPart t] by simp
qed simp

declare castBrackets.simps [simp del] castWords.simps [simp del]

definition validCastTypeName :: "string \<Rightarrow> bool" where
  "validCastTypeName s = (case s of [] \<Rightarrow> False | c # r \<Rightarrow> isWordStart c \<and> castWords (dropWhile isWordPart r))"

definition castTypeName :: "expression \<Rightarrow> sql_error + string" where
  "castTypeName e =
     (case (case e of Identifier n \<Rightarrow> Some n | StringLiteral s \<Rightarrow> Some s | _ \<Rightarrow> None) of
        None \<Rightarrow> Inl UnsupportedCast
      | Some name \<Rightarrow> if validCastTypeName name then Inr name else Inl (InvalidCast name))"

end
