(* ===== verification/Agg_Pointers.thy ===== *)
theory Agg_Pointers
  imports Query_Shape "HOL-Library.Sublist"
begin

text \<open>
  The pointers to the aggregates of a query.  The source compares \<open>*AggExpr\<close> values by identity to find an aggregate in the
  plan of a lateral join (\<open>compileAgg\<close> of \<open>query/sql_expr.go\<close>); here the pointer to an aggregate is the place where it
  stands: the path of its node and the way to it through the expressions of the node.
\<close>

subsection \<open>Placing\<close>

fun mapi :: "(nat \<Rightarrow> 'a \<Rightarrow> 'b) \<Rightarrow> nat \<Rightarrow> 'a list \<Rightarrow> 'b list" where
  "mapi f i [] = []"
| "mapi f i (x # xs) = f i x # mapi f (Suc i) xs"

lemma mapi_cong [fundef_cong]: "xs = ys \<Longrightarrow> i = j \<Longrightarrow> (\<And>k x. x \<in> set ys \<Longrightarrow> f k x = g k x) \<Longrightarrow> mapi f i xs = mapi g j ys"
  by (induction xs arbitrary: ys i j) auto

lemma mapi_simps [simp]:
  "length (mapi f i xs) = length xs" "mapi f i xs = [] \<longleftrightarrow> xs = []" "map h (mapi f i xs) = mapi (\<lambda>k x. h (f k x)) i xs"
  "mapi f i (map g xs) = mapi (\<lambda>k x. f k (g x)) i xs"
  by (induction xs arbitrary: i) auto

lemma set_mapi: "y \<in> set (mapi f i xs) \<Longrightarrow> \<exists>k x. x \<in> set xs \<and> y = f k x"
  by (induction xs arbitrary: i) (auto, blast)

fun placeR :: "path \<Rightarrow> nat list \<Rightarrow> rexpr \<Rightarrow> rexpr" where
  "placeR p l (RPlain e) = RPlain e"
| "placeR p l (RIdentifier name f) = RIdentifier name f"
| "placeR p l (RUnary op e) = RUnary op (placeR p (0 # l) e)"
| "placeR p l (RBinary op a b) = RBinary op (placeR p (0 # l) a) (placeR p (1 # l) b)"
| "placeR p l (RFolded op a b) = RFolded op (placeR p (0 # l) a) (placeR p (1 # l) b)"
| "placeR p l (RBetween neg lo e hi) = RBetween neg (placeR p (0 # l) lo) (placeR p (1 # l) e) (placeR p (2 # l) hi)"
| "placeR p l (RIn neg e cs) = RIn neg (placeR p (0 # l) e) (mapi (\<lambda>i. placeR p (i # l)) 1 cs)"
| "placeR p l (RAnyAll all op a b) = RAnyAll all op (placeR p (0 # l) a) (placeR p (1 # l) b)"
| "placeR p l (RConcatWs sep es) = RConcatWs (placeR p (0 # l) sep) (mapi (\<lambda>i. placeR p (i # l)) 1 es)"
| "placeR p l (RCoalesce es) = RCoalesce (mapi (\<lambda>i. placeR p (i # l)) 0 es)"
| "placeR p l (RFormat fmt es) = RFormat fmt (mapi (\<lambda>i. placeR p (i # l)) 0 es)"
| "placeR p l (RAgg addr ref fn es flt dist ord) =
     RAgg (p, l) ref fn (mapi (\<lambda>i. placeR p (i # l)) 1 es) (map_option (placeR p (0 # l)) flt) dist
       (mapi (\<lambda>i t. (placeR p (i # l) (fst t), snd t)) (Suc (length es)) ord)"
| "placeR p l (RCall ref fn es) = RCall ref fn (mapi (\<lambda>i. placeR p (i # l)) 0 es)"
| "placeR p l (RObject fs) = RObject (mapi (\<lambda>i kv. (fst kv, placeR p (i # l) (snd kv))) 0 fs)"
| "placeR p l (RStar own except ands) =
     RStar own except (map_option (mapi (\<lambda>i kv. (fst kv, placeR p (i # l) (snd kv))) 0) ands)"
| "placeR p l (RArr es) = RArr (mapi (\<lambda>i. placeR p (i # l)) 0 es)"
| "placeR p l (RLst es) = RLst (mapi (\<lambda>i. placeR p (i # l)) 0 es)"
| "placeR p l (RIndex a i) = RIndex (placeR p (0 # l) a) (placeR p (1 # l) i)"
| "placeR p l (RSlice a f t) = RSlice (placeR p (0 # l) a) (placeR p (1 # l) f) (placeR p (2 # l) t)"
| "placeR p l (RCol name f dget dset) = RCol name f (map_option (placeR p (0 # l)) dget) (map_option (placeR p (1 # l)) dset)"
| "placeR p l (RGet name c dflt) = RGet name c (map_option (placeR p (0 # l)) dflt)"
| "placeR p l (RSet name c dflt) = RSet name c (map_option (placeR p (0 # l)) dflt)"

definition placeParts :: "path \<Rightarrow> resolvedParts \<Rightarrow> resolvedParts" where
  "placeParts p ps =
     ps\<lparr>rpWhere := map_option (placeR p [0]) (rpWhere ps), rpSelect := placeR p [1] (rpSelect ps),
        rpDistinctOn := mapi (\<lambda>i. placeR p [i, 2]) 0 (rpDistinctOn ps),
        rpOrderBy := mapi (\<lambda>i t. (placeR p [i, 3] (fst t), snd t)) 0 (rpOrderBy ps),
        rpArguments := mapi (\<lambda>i. placeR p [i, 4]) 0 (rpArguments ps),
        rpArgumentMap := mapi (\<lambda>i kv. (fst kv, placeR p [i, 5] (snd kv))) 0 (rpArgumentMap ps)\<rparr>"

fun placeNode :: "path \<Rightarrow> shapedNode \<Rightarrow> shapedNode" where
  "placeNode p (ShapedNode info parts sh out inc) =
     ShapedNode info (placeParts p parts) sh (map (\<lambda>c. placeNode (p @ [niOuterAlias (snInfo c)]) c) out)
       (map (\<lambda>c. placeNode (p @ [niOuterAlias (snInfo c)]) c) inc)"

definition withPointers :: "shapedNode \<Rightarrow> shapedNode" where "withPointers t = placeNode [] t"

lemma placeNode_sel [simp]:
  "snInfo (placeNode p n) = snInfo n" "snParts (placeNode p n) = placeParts p (snParts n)" "snShape (placeNode p n) = snShape n"
  "snOutgoing (placeNode p n) = map (\<lambda>c. placeNode (p @ [niOuterAlias (snInfo c)]) c) (snOutgoing n)"
  "snIncoming (placeNode p n) = map (\<lambda>c. placeNode (p @ [niOuterAlias (snInfo c)]) c) (snIncoming n)"
  by (cases n; simp)+

subsection \<open>No pointer is shared\<close>

fun pointers :: "rexpr \<Rightarrow> pointer list" where
  "pointers (RPlain e) = []"
| "pointers (RIdentifier name f) = []"
| "pointers (RUnary op e) = pointers e"
| "pointers (RBinary op a b) = pointers a @ pointers b"
| "pointers (RFolded op a b) = pointers a @ pointers b"
| "pointers (RBetween neg lo e hi) = pointers lo @ pointers e @ pointers hi"
| "pointers (RIn neg e cs) = pointers e @ concat (map pointers cs)"
| "pointers (RAnyAll all op a b) = pointers a @ pointers b"
| "pointers (RConcatWs sep es) = pointers sep @ concat (map pointers es)"
| "pointers (RCoalesce es) = concat (map pointers es)"
| "pointers (RFormat fmt es) = concat (map pointers es)"
| "pointers (RAgg addr ref fn es flt dist ord) =
     addr # (case flt of None \<Rightarrow> [] | Some f \<Rightarrow> pointers f) @ concat (map pointers es) @ concat (map (\<lambda>t. pointers (fst t)) ord)"
| "pointers (RCall ref fn es) = concat (map pointers es)"
| "pointers (RObject fs) = concat (map (\<lambda>kv. pointers (snd kv)) fs)"
| "pointers (RStar own except ands) = (case ands of None \<Rightarrow> [] | Some fs \<Rightarrow> concat (map (\<lambda>kv. pointers (snd kv)) fs))"
| "pointers (RArr es) = concat (map pointers es)"
| "pointers (RLst es) = concat (map pointers es)"
| "pointers (RIndex a i) = pointers a @ pointers i"
| "pointers (RSlice a f t) = pointers a @ pointers f @ pointers t"
| "pointers (RCol name f dget dset) =
     (case dget of None \<Rightarrow> [] | Some e \<Rightarrow> pointers e) @ (case dset of None \<Rightarrow> [] | Some e \<Rightarrow> pointers e)"
| "pointers (RGet name c dflt) = (case dflt of None \<Rightarrow> [] | Some e \<Rightarrow> pointers e)"
| "pointers (RSet name c dflt) = (case dflt of None \<Rightarrow> [] | Some e \<Rightarrow> pointers e)"

text \<open>Distinct pointers below a place, and below some of its children.\<close>

definition fresh :: "path \<Rightarrow> nat list \<Rightarrow> pointer list \<Rightarrow> bool" where
  "fresh p l xs \<longleftrightarrow> distinct xs \<and> (\<forall>y \<in> set xs. fst y = p \<and> suffix l (snd y))"

definition spread :: "path \<Rightarrow> nat list \<Rightarrow> nat \<Rightarrow> nat \<Rightarrow> pointer list \<Rightarrow> bool" where
  "spread p l k n xs \<longleftrightarrow> k \<le> n \<and> distinct xs \<and> (\<forall>y \<in> set xs. fst y = p \<and> (\<exists>i \<ge> k. i < n \<and> suffix (i # l) (snd y)))"

lemma spread_Nil: "k \<le> n \<Longrightarrow> spread p l k n []"
  by (simp add: spread_def)

lemma spread_child: "fresh p (k # l) xs \<Longrightarrow> spread p l k (Suc k) xs"
  by (auto simp: spread_def fresh_def)

lemma spread_append:
  assumes "spread p l k m xs" "spread p l m n ys" shows "spread p l k n (xs @ ys)"
proof -
  have same: "i = j" if "suffix (i # l) z" "suffix (j # l) z" for i j z
    using that by (auto simp: suffix_def)
  have "y \<notin> set ys" if "y \<in> set xs" for y
  proof
    assume "y \<in> set ys"
    with assms(2) obtain j where j: "m \<le> j" "suffix (j # l) (snd y)" by (auto simp: spread_def)
    from assms(1) that obtain i where i: "i < m" "suffix (i # l) (snd y)" by (auto simp: spread_def)
    from same [OF i(2) j(2)] i(1) j(1) show False by simp
  qed
  moreover have "\<exists>i \<ge> k. i < n \<and> suffix (i # l) (snd y)" if "y \<in> set xs \<or> y \<in> set ys" for y
    using that
  proof
    assume "y \<in> set xs"
    with assms(1) obtain i where "k \<le> i" "i < m" "suffix (i # l) (snd y)" by (auto simp: spread_def)
    with assms(2) show ?thesis by (auto simp: spread_def intro!: exI [of _ i])
  next
    assume "y \<in> set ys"
    with assms(2) obtain i where "m \<le> i" "i < n" "suffix (i # l) (snd y)" by (auto simp: spread_def)
    with assms(1) show ?thesis by (auto simp: spread_def intro!: exI [of _ i])
  qed
  ultimately show ?thesis using assms by (auto simp: spread_def)
qed

lemma spread_mapi:
  "(\<And>i x. x \<in> set xs \<Longrightarrow> fresh p (i # l) (g i x)) \<Longrightarrow> spread p l k (k + length xs) (concat (mapi g k xs))"
proof (induction xs arbitrary: k)
  case (Cons x xs)
  have "spread p l k (Suc k) (g k x)" by (rule spread_child) (simp add: Cons.prems)
  from spread_append [OF this] Cons.IH [of "Suc k"] Cons.prems show ?case by simp
qed (simp add: spread_Nil)

lemma spread_fresh: "spread p l k n xs \<Longrightarrow> fresh p l xs"
  by (fastforce simp: spread_def fresh_def dest: suffix_ConsD)

lemma spread_own: "spread p l k n xs \<Longrightarrow> fresh p l ((p, l) # xs)"
proof -
  assume s: "spread p l k n xs"
  have "(p, l) \<notin> set xs"
  proof
    assume "(p, l) \<in> set xs"
    with s obtain i where "suffix (i # l) l" by (auto simp: spread_def)
    then show False using suffix_length_le by fastforce
  qed
  with spread_fresh [OF s] show ?thesis by (simp add: fresh_def)
qed

lemmas spread_intros = spread_Nil spread_child spread_append spread_mapi

lemma spread_option: "(\<And>x. f = Some x \<Longrightarrow> fresh p (k # l) (g x)) \<Longrightarrow> spread p l k (Suc k) (case f of None \<Rightarrow> [] | Some x \<Rightarrow> g x)"
  by (cases f) (auto intro: spread_intros)

lemma fresh_two: "fresh p (0 # l) xs \<Longrightarrow> fresh p (Suc 0 # l) ys \<Longrightarrow> fresh p l (xs @ ys)"
  using spread_append [OF spread_child spread_child] spread_fresh by blast

lemma fresh_three: "fresh p (0 # l) xs \<Longrightarrow> fresh p (Suc 0 # l) ys \<Longrightarrow> fresh p (2 # l) zs \<Longrightarrow> fresh p l (xs @ ys @ zs)"
  using spread_append [OF spread_child spread_append [OF spread_child spread_child [of p 2 l zs, unfolded numeral_2_eq_2]]] spread_fresh
  by (simp add: numeral_2_eq_2) blast

lemma fresh_one: "fresh p (k # l) xs \<Longrightarrow> fresh p l xs"
  using spread_child spread_fresh by blast

lemma fresh_mapi: "(\<And>i x. x \<in> set xs \<Longrightarrow> fresh p (i # l) (g i x)) \<Longrightarrow> fresh p l (concat (mapi g k xs))"
  using spread_mapi spread_fresh by blast

lemma fresh_first_mapi:
  "fresh p (0 # l) xs \<Longrightarrow> (\<And>i x. x \<in> set es \<Longrightarrow> fresh p (i # l) (g i x)) \<Longrightarrow> fresh p l (xs @ concat (mapi g (Suc 0) es))"
  using spread_append [OF spread_child spread_mapi] spread_fresh by blast

lemma fresh_Nil: "fresh p l []"
  by (simp add: fresh_def)

lemma placeR_pointers: "fresh p l (pointers (placeR p l e))"
proof (induction p l e rule: placeR.induct)
  case (12 p l addr ref fn es flt dist ord)
  have es: "spread p l (Suc 0) (Suc (length es)) (concat (mapi (\<lambda>i x. pointers (placeR p (i # l) x)) (Suc 0) es))"
    using spread_mapi [of es p l "\<lambda>i x. pointers (placeR p (i # l) x)" "Suc 0"] 12(1) by simp
  have ord: "spread p l (Suc (length es)) (Suc (length es) + length ord)
      (concat (mapi (\<lambda>i t. pointers (placeR p (i # l) (fst t))) (Suc (length es)) ord))"
    by (rule spread_mapi) (use 12(3) in auto)
  have flt: "spread p l 0 (Suc 0) (case map_option (placeR p (0 # l)) flt of None \<Rightarrow> [] | Some f \<Rightarrow> pointers f)"
    by (rule spread_option) (use 12(2) in auto)
  note spread_append [OF flt spread_append [OF es ord]]
  from spread_own [OF this] show ?case by simp
next
  case 6 then show ?case by (simp add: fresh_three)
next
  case 19 then show ?case by (simp add: fresh_three)
next
  case (20 p l name f dget dset)
  show ?case using 20
    by (cases dget; cases dset) (auto intro: fresh_one fresh_two fresh_Nil)
qed (auto intro!: fresh_two fresh_three fresh_mapi fresh_first_mapi fresh_Nil intro: fresh_one split: option.splits)

end
