(* ===== verification/Sql_Compile.thy ===== *)
theory Sql_Compile
  imports Sql_State Agg_Pointers
begin

text \<open>
  The compilation of a resolved query to one SQL statement (\<open>query/sql.go\<close>, \<open>query/sql_expr.go\<close>).  The functions of the
  source call each other through expressions, resolved fields and nodes; here each takes the call to the others as an
  argument \<open>go\<close> over the kinds of \<open>work\<close>, and \<open>run\<close> ties the knot with a bound on the depth of the calls, which stands for
  the stack.  A pointer to a node is its path, the pointer to an aggregate the place where it stands.
\<close>

subsection \<open>Nodes\<close>

definition souter :: "shapedNode \<Rightarrow> string" where "souter c = niOuterAlias (snInfo c)"

fun snodeAt :: "shapedNode \<Rightarrow> path \<Rightarrow> shapedNode option" where
  "snodeAt n [] = Some n"
| "snodeAt n (a # p) =
     (case find (\<lambda>c. souter c = a) (snOutgoing n @ snIncoming n) of None \<Rightarrow> None | Some c \<Rightarrow> snodeAt c p)"

text \<open>What a compilation does not change: the schema, the tree, what kind of statement is made, how names of temp tables are
  quoted (a function of the driver) and the order in which Go ranges over the map of the plans.\<close>

record tempTable =
  ttName :: string
  ttPrefix :: string
  ttBinary :: "string \<Rightarrow> bool"

record dataScope =
  dsNodeID :: int
  dsAlias :: string
  dsTable :: tempTable

record sqlEnv =
  seDb :: dbInfos
  seRoot :: shapedNode
  seCount :: bool
  seCbor :: bool
  seFromCTE :: string
  seOrderByRowID :: bool
  seScope :: "dataScope option"
  seQuote :: "string \<Rightarrow> string"
  sePlanOrder :: "path list \<Rightarrow> path list"

datatype work =
    WExpr "path option" rexpr
  | WField "path option" "resolvedField option"
  | WNode path string string

type_synonym calls = "work \<Rightarrow> command"

definition nodeC :: "sqlEnv \<Rightarrow> path \<Rightarrow> (shapedNode \<Rightarrow> command) \<Rightarrow> command" where
  "nodeC env p f = (case snodeAt (seRoot env) p of None \<Rightarrow> failC NilDeref | Some n \<Rightarrow> f n)"

definition parentOf :: "path \<Rightarrow> path option" where
  "parentOf p = (if p = [] then None else Some (butlast p))"

text \<open>\<open>isOutgoingOf\<close>: the check that a node is reached by a to-one join; the root has no parent to ask.\<close>

definition isOutgoingOf :: "sqlEnv \<Rightarrow> path \<Rightarrow> path \<Rightarrow> bool" where
  "isOutgoingOf env parent child =
     (case snodeAt (seRoot env) parent of
        None \<Rightarrow> False
      | Some n \<Rightarrow> list_ex (\<lambda>c. parent @ [souter c] = child) (snOutgoing n))"

definition toOneC :: "sqlEnv \<Rightarrow> path \<Rightarrow> command \<Rightarrow> command" where
  "toOneC env q cmd =
     (case parentOf q of
        None \<Rightarrow> failC NilDeref
      | Some parent \<Rightarrow> if isOutgoingOf env parent q then cmd else failC ToManyRelation)"

subsection \<open>Expressions left unresolved\<close>

text \<open>An unresolved expression compiles like a resolved one whose parts are unresolved.\<close>

definition exposed :: "rexpr \<Rightarrow> rexpr" where
  "exposed e =
     (case e of
        RPlain x \<Rightarrow>
          (case x of
             Identifier name \<Rightarrow> RIdentifier name None
           | UnaryExpr op a \<Rightarrow> RUnary op (RPlain a)
           | BinaryExpr op a b \<Rightarrow> RBinary op (RPlain a) (RPlain b)
           | FoldedExpr op a b \<Rightarrow> RFolded op (RPlain a) (RPlain b)
           | BetweenExpr neg lo a hi \<Rightarrow> RBetween neg (RPlain lo) (RPlain a) (RPlain hi)
           | InExpr neg a cs \<Rightarrow> RIn neg (RPlain a) (map RPlain cs)
           | AnyAllExpr all op a b \<Rightarrow> RAnyAll all op (RPlain a) (RPlain b)
           | ConcatWsExpr sep es \<Rightarrow> RConcatWs (RPlain sep) (map RPlain es)
           | CoalesceExpr es \<Rightarrow> RCoalesce (map RPlain es)
           | FormatExpr fmt es \<Rightarrow> RFormat fmt (map RPlain es)
           | ObjectExpr fs \<Rightarrow> RObject (map (\<lambda>(k, v). (k, RPlain v)) fs)
           | StarExpr own except ands \<Rightarrow> RStar own except (map_option (map (\<lambda>(k, v). (k, RPlain v))) ands)
           | ArrExpr es \<Rightarrow> RArr (map RPlain es)
           | LstExpr es \<Rightarrow> RLst (map RPlain es)
           | IndexExpr a i \<Rightarrow> RIndex (RPlain a) (RPlain i)
           | SliceExpr a f t \<Rightarrow> RSlice (RPlain a) (RPlain f) (RPlain t)
           | _ \<Rightarrow> e)
      | _ \<Rightarrow> e)"

subsection \<open>References\<close>

definition bareResolvedField :: "rexpr \<Rightarrow> resolvedField option" where
  "bareResolvedField e = (case e of RIdentifier _ f \<Rightarrow> f | RCol _ f _ _ \<Rightarrow> Some f | _ \<Rightarrow> None)"

fun rootQueryNodeOf :: "rexpr \<Rightarrow> path option" where
  "rootQueryNodeOf e =
     (case bareResolvedField e of
        Some f \<Rightarrow> (case f of NodeRef q \<Rightarrow> Some q | _ \<Rightarrow> None)
      | None \<Rightarrow> (case e of RFolded op l r \<Rightarrow> if op = ''.'' then rootQueryNodeOf l else None | _ \<Rightarrow> None))"

declare rootQueryNodeOf.simps [simp del]

fun childReferencedBy :: "rexpr \<Rightarrow> path option" where
  "childReferencedBy e =
     (case rootQueryNodeOf e of
        Some q \<Rightarrow> Some q
      | None \<Rightarrow>
          (case e of
             RUnary op a \<Rightarrow> childReferencedBy a
           | RBinary op a b \<Rightarrow> firstSome childReferencedBy [a, b]
           | RFolded op a b \<Rightarrow> firstSome childReferencedBy [a, b]
           | RBetween neg lo a hi \<Rightarrow> firstSome childReferencedBy [lo, a, hi]
           | RIn neg a cs \<Rightarrow> firstSome childReferencedBy (a # cs)
           | RCoalesce es \<Rightarrow> firstSome childReferencedBy es
           | RCall ref fn es \<Rightarrow> firstSome childReferencedBy es
           | _ \<Rightarrow> None))"

declare childReferencedBy.simps [simp del]

definition aggTargetChild :: "rexpr list \<Rightarrow> path option" where
  "aggTargetChild args = firstSome childReferencedBy args"

text \<open>\<open>walkAggs\<close>: the aggregates of a select, the outer ones first.  Its callback looks at the arguments only.\<close>

fun walkAggs :: "rexpr \<Rightarrow> rexpr list" where
  "walkAggs (RAgg addr ref fn es flt dist ord) =
     RAgg addr ref fn es flt dist ord # concat (map walkAggs es) @ (case flt of None \<Rightarrow> [] | Some f \<Rightarrow> walkAggs f)"
| "walkAggs (RCall ref fn es) = concat (map walkAggs es)"
| "walkAggs (RFolded op l r) = walkAggs l @ walkAggs r"
| "walkAggs (RBinary op l r) = walkAggs l @ walkAggs r"
| "walkAggs (RUnary op e) = walkAggs e"
| "walkAggs (RBetween neg lo e hi) = walkAggs lo @ walkAggs e @ walkAggs hi"
| "walkAggs (RIn neg e cs) = walkAggs e @ concat (map walkAggs cs)"
| "walkAggs (RAnyAll all op e a) = walkAggs e @ walkAggs a"
| "walkAggs (RConcatWs sep es) = walkAggs sep @ concat (map walkAggs es)"
| "walkAggs (RCoalesce es) = concat (map walkAggs es)"
| "walkAggs (RFormat fmt es) = concat (map walkAggs es)"
| "walkAggs (RObject fs) = concat (map (\<lambda>kv. walkAggs (snd kv)) fs)"
| "walkAggs (RStar own except ands) =
     (case ands of None \<Rightarrow> [] | Some fs \<Rightarrow> concat (map (\<lambda>kv. walkAggs (snd kv)) fs))"
| "walkAggs (RArr es) = concat (map walkAggs es)"
| "walkAggs (RLst es) = concat (map walkAggs es)"
| "walkAggs (RIndex a i) = walkAggs a @ walkAggs i"
| "walkAggs (RSlice a f t) = walkAggs a @ walkAggs f @ walkAggs t"
| "walkAggs (RCol name f dget dset) =
     (case dget of None \<Rightarrow> [] | Some e \<Rightarrow> walkAggs e) @ (case dset of None \<Rightarrow> [] | Some e \<Rightarrow> walkAggs e)"
| "walkAggs (RGet name c dflt) = (case dflt of None \<Rightarrow> [] | Some e \<Rightarrow> walkAggs e)"
| "walkAggs (RSet name c dflt) = (case dflt of None \<Rightarrow> [] | Some e \<Rightarrow> walkAggs e)"
| "walkAggs _ = []"

definition aggArgs :: "rexpr \<Rightarrow> rexpr list" where
  "aggArgs e = (case e of RAgg _ _ _ es _ _ _ \<Rightarrow> es | _ \<Rightarrow> [])"

definition aggAddr :: "rexpr \<Rightarrow> pointer option" where
  "aggAddr e = (case e of RAgg a _ _ _ _ _ _ \<Rightarrow> Some a | _ \<Rightarrow> None)"

subsection \<open>Select fields\<close>

datatype selectValue = SColumn column | SEmbed path | SExpr rexpr

type_synonym selectField = "string \<times> selectValue"

definition isShapeProducingSelect :: "rexpr \<Rightarrow> bool" where
  "isShapeProducingSelect e = (case e of RStar _ _ _ \<Rightarrow> True | RObject _ \<Rightarrow> True | RGet _ _ _ \<Rightarrow> True | _ \<Rightarrow> False)"

definition addOwn :: "shapedNode \<Rightarrow> string list \<Rightarrow> selectField list" where
  "addOwn n except =
     (case niRelation (snInfo n) of
        None \<Rightarrow> []
      | Some r \<Rightarrow> map (\<lambda>c. (colName c, SColumn c)) (filter (\<lambda>c. colName c \<notin> set except) (relColumns r)))"

definition addAliases :: "path \<Rightarrow> shapedNode \<Rightarrow> selectField list" where
  "addAliases p n = map (\<lambda>c. (souter c, SEmbed (p @ [souter c]))) (snOutgoing n @ snIncoming n)"

definition addAnd :: "(string \<times> rexpr) list \<Rightarrow> selectField list" where
  "addAnd fs = map (\<lambda>(k, e). (k, SExpr e)) (sort_key fst fs)"

definition selectFieldsFor :: "path \<Rightarrow> shapedNode \<Rightarrow> rexpr \<Rightarrow> selectField list" where
  "selectFieldsFor p n sel =
     (case sel of
        RStar own except ands \<Rightarrow>
          addOwn n except @ (if own then [] else addAliases p n) @ (case ands of None \<Rightarrow> [] | Some fs \<Rightarrow> addAnd fs)
      | RObject fs \<Rightarrow> addAnd fs
      | RGet name c dflt \<Rightarrow> [(colName c, SExpr sel)]
      | _ \<Rightarrow> [])"

definition embedChildOf :: "selectValue \<Rightarrow> path option" where
  "embedChildOf v =
     (case v of
        SEmbed q \<Rightarrow> Some q
      | SExpr e \<Rightarrow> (case bareResolvedField e of Some (NodeRef q) \<Rightarrow> Some q | _ \<Rightarrow> None)
      | SColumn _ \<Rightarrow> None)"

definition wrapNodeAsValue :: "sqlEnv \<Rightarrow> shapedNode \<Rightarrow> string \<Rightarrow> string" where
  "wrapNodeAsValue env n innerAlias =
     (if isShapeProducingSelect (rpSelect (snParts n)) then
        (if seCbor env then innerAlias else ''row_to_json('' @ innerAlias @ '')'')
      else innerAlias @ ''.__scalar'')"

definition aggregateRows :: "sqlEnv \<Rightarrow> string \<Rightarrow> string" where
  "aggregateRows env wrapped = (if seCbor env then ''array_agg('' else ''json_agg('') @ wrapped @ '')''"

definition emptyRows :: "sqlEnv \<Rightarrow> string" where
  "emptyRows env = (if seCbor env then [CHR 0x27, CHR ''{'', CHR ''}'', CHR 0x27] else [CHR 0x27, CHR ''['', CHR '']'', CHR 0x27] @ ''::json'')"

subsection \<open>Types with a binary form\<close>

definition nativeOids :: "int list" where
  "nativeOids = [16, 17, 18, 19, 20, 21, 23, 25, 26, 114, 700, 701, 1042, 1043, 1082, 1114, 1184, 1700, 2950, 3802]"

text \<open>\<open>nativeColumnDepth\<close>; the first argument is what is left of the depth of 16.\<close>

fun nativeColumnDepth :: "nat \<Rightarrow> dbInfos \<Rightarrow> typeInfo \<Rightarrow> bool" where
  "nativeColumnDepth 0 db t = False"
| "nativeColumnDepth (Suc d) db t =
     (let u = tiUnderlying t in
      if tiOid u \<in> set nativeOids \<or> tiEnumLabels u \<noteq> [] then True
      else if tiIsArray u then
        (case tiElement u of
           None \<Rightarrow> False
         | Some oid \<Rightarrow> (case GetType db oid of None \<Rightarrow> False | Some e \<Rightarrow> nativeColumnDepth d db e))
      else
        case compositeRelation db u of
          None \<Rightarrow> False
        | Some r \<Rightarrow> list_all (\<lambda>c. nativeColumnDepth d db (colType c)) (relColumns r))"

definition nativeColumnType :: "dbInfos \<Rightarrow> typeInfo \<Rightarrow> bool" where
  "nativeColumnType db t = nativeColumnDepth 17 db t"

subsection \<open>Operators\<close>

definition compileOperand :: "calls \<Rightarrow> path option \<Rightarrow> rexpr \<Rightarrow> command" where
  "compileOperand go n e =
     (case exposed e of
        RBinary _ _ _ \<Rightarrow> parenC [go (WExpr n e)]
      | RFolded _ _ _ \<Rightarrow> parenC [go (WExpr n e)]
      | _ \<Rightarrow> go (WExpr n e))"

definition unaryPrefixes :: "(string \<times> string) list" where
  "unaryPrefixes = [(''-'', ''-''), (''not'', ''not ''), (''~'', ''~''), (''|/'', ''|/''), (''||/'', ''||/'')]"

definition unarySuffixes :: "(string \<times> string) list" where
  "unarySuffixes =
     [(''is_null'', '' is null''), (''is_true'', '' is true''), (''is_false'', '' is false''),
      (''is_not_null'', '' is not null''), (''is_not_true'', '' is not true''), (''is_not_false'', '' is not false'')]"

definition compileUnary :: "calls \<Rightarrow> path option \<Rightarrow> string \<Rightarrow> rexpr \<Rightarrow> command" where
  "compileUnary go n op e =
     (case map_of unaryPrefixes op of
        Some pre \<Rightarrow> seqC [wr pre, compileOperand go n e]
      | None \<Rightarrow>
          (case map_of unarySuffixes op of
             Some post \<Rightarrow> seqC [compileOperand go n e, wr post]
           | None \<Rightarrow> failC (UnknownUnary op)))"

definition foldOpTextOverrides :: "(string \<times> string) list" where
  "foldOpTextOverrides =
     [(''and'', '' and ''), (''or'', '' or ''), (''is_distinct_from'', '' is distinct from ''),
      (''is_not_distinct_from'', '' is not distinct from '')]"

definition compileArgList :: "calls \<Rightarrow> path option \<Rightarrow> rexpr list \<Rightarrow> command" where
  "compileArgList go n es = argListC (map (\<lambda>e. go (WExpr n e)) es)"

definition compileFolded :: "calls \<Rightarrow> path option \<Rightarrow> string \<Rightarrow> rexpr \<Rightarrow> rexpr \<Rightarrow> command" where
  "compileFolded go n op l r =
     (if op = ''.'' then (case exposed r of RIdentifier _ f \<Rightarrow> go (WField n f) | _ \<Rightarrow> failC HopNotIdentifier)
      else if op = ''??'' then seqC [wr ''coalesce'', compileArgList go n [l, r]]
      else if op = ''||?'' then seqC [wr ''concat'', compileArgList go n [l, r]]
      else
        seqC [compileOperand go n l,
              wr (case map_of foldOpTextOverrides op of Some t \<Rightarrow> t | None \<Rightarrow> '' '' @ op @ '' ''),
              compileOperand go n r])"

definition compileCast :: "rexpr \<Rightarrow> command" where
  "compileCast r =
     (case r of
        RPlain x \<Rightarrow> (case castTypeName x of Inl e \<Rightarrow> failC e | Inr name \<Rightarrow> seqC [wr ''::'', wr name])
      | _ \<Rightarrow> failC UnsupportedCast)"

definition compileBinary :: "calls \<Rightarrow> path option \<Rightarrow> string \<Rightarrow> rexpr \<Rightarrow> rexpr \<Rightarrow> command" where
  "compileBinary go n op l r =
     (if op = ''::'' then seqC [compileOperand go n l, compileCast r]
      else seqC [compileOperand go n l, wr '' '', wr op, wr '' '', compileOperand go n r])"

definition compileBetween :: "calls \<Rightarrow> path option \<Rightarrow> bool \<Rightarrow> rexpr \<Rightarrow> rexpr \<Rightarrow> rexpr \<Rightarrow> command" where
  "compileBetween go n neg lo e hi =
     seqC [compileOperand go n e, wr (if neg then '' not between '' else '' between ''), compileOperand go n lo, wr '' and '',
           compileOperand go n hi]"

definition compileIn :: "calls \<Rightarrow> path option \<Rightarrow> bool \<Rightarrow> rexpr \<Rightarrow> rexpr list \<Rightarrow> command" where
  "compileIn go n neg e cs =
     seqC [compileOperand go n e, wr (if neg then '' not in '' else '' in ''),
           parenC (separated '', '' (map (\<lambda>c. go (WExpr n c)) cs))]"

definition subjectPgType :: "rexpr \<Rightarrow> typeInfo option" where
  "subjectPgType e =
     (case bareResolvedField e of Some (ColumnPath q cols elem) \<Rightarrow> CurrentType cols elem | _ \<Rightarrow> None)"

definition arrayCast :: "rexpr \<Rightarrow> rexpr \<Rightarrow> command list" where
  "arrayCast subject a =
     (let cast = (case subjectPgType subject of
                    None \<Rightarrow> []
                  | Some t \<Rightarrow> [wr ''::'', wr (EscapedString (fst (tiPgIdentifier t)) (snd (tiPgIdentifier t))), wr ''[]''])
      in case exposed a of RArr _ \<Rightarrow> cast | RLst _ \<Rightarrow> cast | _ \<Rightarrow> [])"

definition compileAnyAll :: "calls \<Rightarrow> path option \<Rightarrow> bool \<Rightarrow> string \<Rightarrow> rexpr \<Rightarrow> rexpr \<Rightarrow> command" where
  "compileAnyAll go n all op e a =
     seqC [compileOperand go n e,
           (case map_of foldOpTextOverrides op of Some t \<Rightarrow> wr (butlast t) | None \<Rightarrow> seqC [wr '' '', wr op]),
           wr (if all then '' all'' else '' any''),
           parenC (go (WExpr n a) # arrayCast e a)]"

subsection \<open>From, where and ordering\<close>

definition fnText :: "pgfunction \<Rightarrow> string" where "fnText f = EscapedString (fnSchema f) (fnName f)"

definition compileFunctionArgs :: "calls \<Rightarrow> path option \<Rightarrow> rexpr list \<Rightarrow> (string \<times> rexpr) list \<Rightarrow> command" where
  "compileFunctionArgs go n positional named =
     (if named \<noteq> [] then
        parenC (separated '', '' (map (\<lambda>(k, e). seqC [wr k, wr '' => '', go (WExpr n e)]) (sort_key fst named)))
      else compileArgList go n positional)"

definition quotedRef :: "sqlEnv \<Rightarrow> string \<Rightarrow> string \<Rightarrow> string" where
  "quotedRef env al name = al @ ''.'' @ seQuote env name"

definition colRef :: "sqlEnv \<Rightarrow> tempTable \<Rightarrow> string \<Rightarrow> column \<Rightarrow> string" where
  "colRef env t al c =
     (if ttBinary t (colName c) then quotedRef env al (colName c)
      else ''('' @ quotedRef env al (colName c) @ ''::'' @
           EscapedString (fst (tiPgIdentifier (colType c))) (snd (tiPgIdentifier (colType c))) @ '')'')"

definition scopeAt :: "sqlEnv \<Rightarrow> path \<Rightarrow> dataScope option" where
  "scopeAt env p = (if p = [] then seScope env else None)"

definition compileFrom :: "sqlEnv \<Rightarrow> calls \<Rightarrow> path \<Rightarrow> string \<Rightarrow> command" where
  "compileFrom env go p al =
     nodeC env p (\<lambda>node.
       case niFunction (snInfo node) of
         Some f \<Rightarrow>
           seqC [wr (fnText f), compileFunctionArgs go (parentOf p) (rpArguments (snParts node)) (rpArgumentMap (snParts node)),
                 wr '' '', wr al]
       | None \<Rightarrow>
           (case niRelation (snInfo node) of
              None \<Rightarrow> failC NoRelation
            | Some r \<Rightarrow>
                if seFromCTE env \<noteq> [] \<and> p = [] then seqC [wr (seFromCTE env), wr '' '', wr al]
                else
                  seqC ([wr (EscapedString (relSchema r) (relName r)), wr '' '', wr al] @
                    (case scopeAt env p of
                       None \<Rightarrow> []
                     | Some ds \<Rightarrow>
                         [wr '' inner join '', wr (''pg_temp.'' @ seQuote env (ttName (dsTable ds))), wr '' '', wr (dsAlias ds),
                          wr '' on '', wr (quotedRef env (dsAlias ds) (ttPrefix (dsTable ds) @ ''node_id'')), wr '' = '',
                          wr (FormatInt (dsNodeID ds)), wr '' and '',
                          wr (quotedRef env (dsAlias ds) (ttPrefix (dsTable ds) @ ''parent_id'')), wr '' is null'']))))"

text \<open>The conditions of a where, joined with \<open>and\<close>.\<close>

definition onConditions :: "string \<Rightarrow> string \<Rightarrow> nodeInfo \<Rightarrow> command list" where
  "onConditions al parentAlias info =
     map (\<lambda>(l, d). seqC [qualify al (colName l), wr '' = '', qualify parentAlias (colName d)]) (niJoinColumns info)"

definition whereOf :: "command list \<Rightarrow> command" where
  "whereOf cs = (if cs = [] then seqC [] else seqC (wr '' where '' # separated '' and '' cs))"

definition compileWhere :: "sqlEnv \<Rightarrow> calls \<Rightarrow> path \<Rightarrow> shapedNode \<Rightarrow> string \<Rightarrow> string \<Rightarrow> command" where
  "compileWhere env go p node al onParentAlias =
     (let on = (if onParentAlias \<noteq> [] then onConditions al onParentAlias (snInfo node) else []);
          whereC = (case rpWhere (snParts node) of None \<Rightarrow> [] | Some e \<Rightarrow> [compileOperand go (Some p) e])
      in case scopeAt env p of
           None \<Rightarrow> whereOf (on @ whereC)
         | Some ds \<Rightarrow>
             (case niRelation (snInfo node) of
                None \<Rightarrow> failC NilDeref
              | Some r \<Rightarrow>
                  let cols = identityColumns (snInfo node) r in
                  if cols = [] then failC NoIdentity
                  else
                    whereOf
                      (on @ map (\<lambda>c. seqC [qualify al (colName c), wr '' = '', wr (colRef env (dsTable ds) (dsAlias ds) c)]) cols @
                       whereC)))"

definition directionText :: "OrderByDirection \<Rightarrow> string" where
  "directionText d =
     (case d of OrderAsc \<Rightarrow> [] | OrderDesc \<Rightarrow> '' desc nulls last'' | OrderAscNullsFirst \<Rightarrow> '' asc nulls first''
      | OrderDescNullsLast \<Rightarrow> '' desc nulls last'')"

definition compileOrderTerms :: "calls \<Rightarrow> path option \<Rightarrow> (rexpr \<times> OrderByDirection) list \<Rightarrow> command" where
  "compileOrderTerms go n terms =
     seqC (separated '', '' (map (\<lambda>(e, d). seqC [go (WExpr n e), wr (directionText d)]) terms))"

definition compileOrderByClause :: "sqlEnv \<Rightarrow> calls \<Rightarrow> path \<Rightarrow> shapedNode \<Rightarrow> command" where
  "compileOrderByClause env go p node =
     (if rpOrderBy (snParts node) = [] then
        seqC ((case scopeAt env p of
                 None \<Rightarrow> []
               | Some ds \<Rightarrow> [wr '' order by '', wr (quotedRef env (dsAlias ds) (ttPrefix (dsTable ds) @ ''row_id''))]) @
              (if seOrderByRowID env \<and> p = [] then [wr '' order by '', aliasOf p wr, wr ''.__row_id''] else []))
      else seqC [wr '' order by '', compileOrderTerms go (Some p) (rpOrderBy (snParts node))])"

definition compileLimitOffset :: "nodeInfo \<Rightarrow> command" where
  "compileLimitOffset info =
     seqC ((case niLimit info of None \<Rightarrow> [] | Some k \<Rightarrow> [wr '' limit '', bindC (BInt k)]) @
           (case niOffset info of None \<Rightarrow> [] | Some k \<Rightarrow> [wr '' offset '', bindC (BInt k)]))"

subsection \<open>Resolved fields\<close>

definition compileScalarHopWhere :: "calls \<Rightarrow> path option \<Rightarrow> path \<Rightarrow> shapedNode \<Rightarrow> string \<Rightarrow> command" where
  "compileScalarHopWhere go n q child al =
     (if niJoinColumns (snInfo child) = [] then failC NoJoinColumns
      else
        seqC (wr '' where '' #
          separated '' and ''
            (map (\<lambda>(l, d). seqC [qualify al (colName l), wr '' = '', go (WField n (Some (ColumnPath (butlast q) [d] None)))])
               (niJoinColumns (snInfo child)) @
             (case rpWhere (snParts child) of None \<Rightarrow> [] | Some e \<Rightarrow> [compileOperand go (Some q) e]))))"

text \<open>A row of a to-one join, as a correlated subquery that selects \<open>value\<close> of it.\<close>

definition scalarHop :: "sqlEnv \<Rightarrow> calls \<Rightarrow> path option \<Rightarrow> path \<Rightarrow> (string \<Rightarrow> command) \<Rightarrow> command" where
  "scalarHop env go n q val =
     toOneC env q (allocAlias (\<lambda>al.
       parenC [wr ''select '', val al, wr '' from '', compileFrom env go q al,
               nodeC env q (\<lambda>child. compileScalarHopWhere go n q child al)]))"

definition compileResolvedField :: "sqlEnv \<Rightarrow> calls \<Rightarrow> path option \<Rightarrow> resolvedField option \<Rightarrow> command" where
  "compileResolvedField env go n field =
     (case field of
        None \<Rightarrow> failC OpaqueValue
      | Some (ColumnPath q cols elem) \<Rightarrow>
          if n = Some q then aliasOf q (\<lambda>al. WriteQualifiedPath al cols)
          else scalarHop env go n q (\<lambda>al. WriteQualifiedPath al cols)
      | Some (NodeRef q) \<Rightarrow> if n = Some q then aliasOf q wr else scalarHop env go n q wr
      | Some (Shape _) \<Rightarrow> failC ObjectLanding
      | Some (ComputedFieldRef q f) \<Rightarrow>
          if n = Some q then aliasOf q (\<lambda>al. seqC [wr (fnText f), parenC [wr al]])
          else scalarHop env go n q (\<lambda>al. seqC [wr (fnText f), parenC [wr al]]))"

subsection \<open>Embedded nodes\<close>

definition scalarFunction :: "shapedNode \<Rightarrow> pgfunction option" where
  "scalarFunction node =
     (case niFunction (snInfo node) of
        Some f \<Rightarrow> if \<not> fnReturnsSet f \<and> niRelation (snInfo node) = None then Some f else None
      | None \<Rightarrow> None)"

definition embedSubquery :: "sqlEnv \<Rightarrow> calls \<Rightarrow> path \<Rightarrow> path \<Rightarrow> string \<Rightarrow> command" where
  "embedSubquery env go q parent parentAlias =
     nodeC env q (\<lambda>child.
       case scalarFunction child of
         Some f \<Rightarrow>
           parenC [wr ''select '', wr (fnText f),
                   compileFunctionArgs go (Some parent) (rpArguments (snParts child)) (rpArgumentMap (snParts child))]
       | None \<Rightarrow>
           allocAlias (\<lambda>al.
             parenC [wr ''select '',
                     (if isOutgoingOf env parent q then wr (wrapNodeAsValue env child al)
                      else seqC [wr ''coalesce('', wr (aggregateRows env (wrapNodeAsValue env child al)), wr '', '',
                                 wr (emptyRows env), wr '')'']),
                     wr ('' from ('' @ [newline]), indentedC [go (WNode q al parentAlias)], wr ([newline] @ '') ''), wr al]))"

definition compileEmbedField :: "sqlEnv \<Rightarrow> calls \<Rightarrow> path \<Rightarrow> path \<Rightarrow> string \<Rightarrow> command" where
  "compileEmbedField env go q parent parentAlias =
     withLaterals (\<lambda>ls.
       case map_of ls q of
         Some plan \<Rightarrow> seqC [wr (lpAlias plan), wr ''.arr'']
       | None \<Rightarrow> embedSubquery env go q parent parentAlias)"

definition compileSelectField :: "sqlEnv \<Rightarrow> calls \<Rightarrow> path \<Rightarrow> string \<Rightarrow> selectValue \<Rightarrow> command" where
  "compileSelectField env go p al v =
     (case v of
        SColumn c \<Rightarrow>
          if seCbor env \<and> \<not> nativeColumnType (seDb env) (colType c)
          then seqC [wr ''to_jsonb('', qualify al (colName c), wr '')'']
          else qualify al (colName c)
      | _ \<Rightarrow>
          (case embedChildOf v of
             Some q \<Rightarrow> compileEmbedField env go q p al
           | None \<Rightarrow> (case v of SExpr e \<Rightarrow> go (WExpr (Some p) e) | _ \<Rightarrow> failC NilDeref)))"

definition jsonPair :: "string \<Rightarrow> command \<Rightarrow> command" where
  "jsonPair key cmd = seqC [bindC (BString key), wr ''::text, '', cmd]"

definition compileObjectLiteral :: "calls \<Rightarrow> path option \<Rightarrow> (string \<times> rexpr) list \<Rightarrow> command" where
  "compileObjectLiteral go n fs =
     seqC [wr ''jsonb_build_object'',
           parenC (separated '', '' (map (\<lambda>(k, e). jsonPair k (go (WExpr n e))) (sort_key fst fs)))]"

definition compileShapeAsJsonObject :: "sqlEnv \<Rightarrow> calls \<Rightarrow> path option \<Rightarrow> rexpr \<Rightarrow> command" where
  "compileShapeAsJsonObject env go n e =
     (case n of
        None \<Rightarrow> failC NilDeref
      | Some p \<Rightarrow>
          nodeC env p (\<lambda>node.
            seqC [wr ''jsonb_build_object'',
                  parenC (separated '', ''
                    (map (\<lambda>(k, v). jsonPair k (aliasOf p (\<lambda>al. compileSelectField env go p al v))) (selectFieldsFor p node e)))]))"

definition compileColumnRead :: "calls \<Rightarrow> path option \<Rightarrow> column \<Rightarrow> rexpr option \<Rightarrow> command" where
  "compileColumnRead go n c dflt =
     (case n of
        None \<Rightarrow> failC NoAlias
      | Some p \<Rightarrow>
          aliasOf p (\<lambda>al.
            case dflt of
              None \<Rightarrow> qualify al (colName c)
            | Some d \<Rightarrow>
                seqC [wr ''coalesce'',
                      parenC [qualify al (colName c), wr '', '',
                              if d = RPlain DefaultKeyword
                              then (if colDefaultExpression c = [] then failC NoColumnDefault else wr (colDefaultExpression c))
                              else go (WExpr n d)]]))"

subsection \<open>Aggregates\<close>

definition compileAggFunctionCall :: "calls \<Rightarrow> rexpr \<Rightarrow> path \<Rightarrow> string \<Rightarrow> command" where
  "compileAggFunctionCall go e target targetAlias =
     (case e of
        RAgg addr ref fn args flt dist ord \<Rightarrow>
          seqC ([wr (fnText fn), wr ''('', wr (if dist then ''distinct '' else [])] @
                separated '', ''
                  (map (\<lambda>a. if bareResolvedField a = Some (NodeRef target) then seqC [wr targetAlias, wr ''.*'']
                            else go (WExpr (Some target) a)) args) @
                (if ord = [] then [] else [wr '' order by '', compileOrderTerms go (Some target) ord]) @
                [wr '')''] @
                (case flt of None \<Rightarrow> [] | Some f \<Rightarrow> [wr '' filter '', parenC [wr ''where '', go (WExpr (Some target) f)]]))
      | _ \<Rightarrow> failC NoResolvedFunction)"

definition aggSubquery :: "calls \<Rightarrow> path option \<Rightarrow> rexpr \<Rightarrow> path \<Rightarrow> command" where
  "aggSubquery go n e target =
     (case n of
        None \<Rightarrow> failC NoAlias
      | Some p \<Rightarrow>
          aliasOf p (\<lambda>parentAlias.
            allocAlias (\<lambda>childAlias.
              seqC [setAlias target childAlias,
                    parenC [wr ''select '', compileAggFunctionCall go e target childAlias, wr ('' from ('' @ [newline]),
                            indentedC [go (WNode target childAlias parentAlias)], wr ([newline] @ '') ''), wr childAlias]])))"

definition compileAgg :: "calls \<Rightarrow> path option \<Rightarrow> rexpr \<Rightarrow> command" where
  "compileAgg go n e =
     (case aggTargetChild (aggArgs e) of
        None \<Rightarrow> failC NoAggTarget
      | Some target \<Rightarrow>
          withLaterals (\<lambda>ls.
            case map_of ls target of
              Some plan \<Rightarrow>
                (case find (\<lambda>a. aggAddr (acExpr a) = aggAddr e) (lpAggs plan) of
                   Some a \<Rightarrow> seqC [wr (lpAlias plan), wr ''.'', wr (acAlias a)]
                 | None \<Rightarrow> failC AggNotInPlan)
            | None \<Rightarrow> aggSubquery go n e target))"

subsection \<open>Expressions\<close>

definition compileArray :: "calls \<Rightarrow> path option \<Rightarrow> rexpr list \<Rightarrow> command" where
  "compileArray go n es = seqC [wr ''array'', surroundC ''['' '']'' (separated '', '' (map (\<lambda>e. go (WExpr n e)) es))]"

text \<open>The literals, and the expressions that were left unresolved and need to be resolved to compile.\<close>

definition compilePlain :: "expression \<Rightarrow> command" where
  "compilePlain x =
     (case x of
        NullLiteral \<Rightarrow> wr ''null''
      | BoolLiteral b \<Rightarrow> wr (if b then ''true'' else ''false'')
      | NumberLiteral v \<Rightarrow> bindC (BNumber v)
      | StringLiteral v \<Rightarrow> bindC (BString v)
      | BigIntLiteral v \<Rightarrow> seqC [bindC (BString v), wr ''::bigint'']
      | NumericLiteral v \<Rightarrow> seqC [bindC (BString v), wr ''::numeric'']
      | DefaultKeyword \<Rightarrow> failC DefaultOutside
      | SetExpr _ _ \<Rightarrow> wr ''null''
      | ParamExpr name cast \<Rightarrow> seqC [bindParamC name, wr ''::'', wr (if cast = [] then ''jsonb'' else cast)]
      | ColExpr _ dget dset \<Rightarrow> failC (if dget = None \<and> dset = None then OpaqueValue else NoResolvedColumn)
      | GetExpr _ _ \<Rightarrow> failC NoResolvedColumn
      | _ \<Rightarrow> failC NoResolvedFunction)"

definition lastColumn :: "resolvedField \<Rightarrow> column option" where
  "lastColumn f = (case f of ColumnPath _ cols _ \<Rightarrow> if cols = [] then None else Some (last cols) | _ \<Rightarrow> None)"

definition compileExpr :: "sqlEnv \<Rightarrow> calls \<Rightarrow> path option \<Rightarrow> rexpr \<Rightarrow> command" where
  "compileExpr env go n e =
     (case exposed e of
        RPlain x \<Rightarrow> compilePlain x
      | RIdentifier _ f \<Rightarrow> go (WField n f)
      | RUnary op a \<Rightarrow> compileUnary go n op a
      | RBinary op a b \<Rightarrow> compileBinary go n op a b
      | RFolded op a b \<Rightarrow> compileFolded go n op a b
      | RBetween neg lo a hi \<Rightarrow> compileBetween go n neg lo a hi
      | RIn neg a cs \<Rightarrow> compileIn go n neg a cs
      | RAnyAll all op a b \<Rightarrow> compileAnyAll go n all op a b
      | RConcatWs sep es \<Rightarrow> seqC [wr ''concat_ws'', compileArgList go n (sep # es)]
      | RCoalesce es \<Rightarrow> seqC [wr ''coalesce'', compileArgList go n es]
      | RFormat fmt es \<Rightarrow> seqC [wr ''format'', compileArgList go n (RPlain (StringLiteral fmt) # es)]
      | RAgg _ _ _ _ _ _ _ \<Rightarrow> compileAgg go n e
      | RCall _ fn es \<Rightarrow> seqC [wr (fnText fn), compileArgList go n es]
      | RObject fs \<Rightarrow> compileObjectLiteral go n fs
      | RStar _ _ _ \<Rightarrow> compileShapeAsJsonObject env go n (exposed e)
      | RArr es \<Rightarrow> compileArray go n es
      | RLst es \<Rightarrow> compileArray go n es
      | RIndex a i \<Rightarrow> seqC [compileOperand go n a, wr ''['', go (WExpr n i), wr '']'']
      | RSlice a f t \<Rightarrow> seqC [compileOperand go n a, wr ''['', go (WExpr n f), wr '':'', go (WExpr n t), wr '']'']
      | RCol _ f dget dset \<Rightarrow>
          if dget = None \<and> dset = None then go (WField n (Some f))
          else (case lastColumn f of None \<Rightarrow> failC NoResolvedColumn | Some c \<Rightarrow> compileColumnRead go n c dget)
      | RGet _ c dflt \<Rightarrow> compileColumnRead go n c dflt
      | RSet _ _ _ \<Rightarrow> wr ''null'')"

subsection \<open>Nodes\<close>

text \<open>\<open>analyzeLaterals\<close>: an incoming node that is used more than once in the select is joined laterally, once.\<close>

definition usesArray :: "path \<Rightarrow> shapedNode \<Rightarrow> path \<Rightarrow> bool" where
  "usesArray p node q \<longleftrightarrow> list_ex (\<lambda>(k, f). f = Some (NodeRef q)) (nsFields (snShape node))"

definition aggsOf :: "shapedNode \<Rightarrow> path \<Rightarrow> rexpr list" where
  "aggsOf node q = filter (\<lambda>a. aggTargetChild (aggArgs a) = Some q) (walkAggs (rpSelect (snParts node)))"

definition sharedNodes :: "path \<Rightarrow> shapedNode \<Rightarrow> path list" where
  "sharedNodes p node =
     filter (\<lambda>q. length (aggsOf node q) + (if usesArray p node q then 1 else 0) > 1) (map (\<lambda>c. p @ [souter c]) (snIncoming node))"

definition planOf :: "path \<Rightarrow> shapedNode \<Rightarrow> path \<Rightarrow> string \<Rightarrow> lateralPlan" where
  "planOf p node q al =
     \<lparr>lpAlias = al, lpHasArray = usesArray p node q,
      lpAggs = map (\<lambda>(i, a). \<lparr>acExpr = a, acAlias = ''agg'' @ showNat (Suc i)\<rparr>) (enumerate 0 (aggsOf node q))\<rparr>"

fun planLaterals :: "path \<Rightarrow> shapedNode \<Rightarrow> path list \<Rightarrow> (path \<times> lateralPlan) list \<Rightarrow>
    ((path \<times> lateralPlan) list \<Rightarrow> command) \<Rightarrow> command" where
  "planLaterals p node [] ls f = f ls"
| "planLaterals p node (q # qs) ls f = allocAlias (\<lambda>al. planLaterals p node qs (ls @ [(q, planOf p node q al)]) f)"

definition compileLateralJoin :: "sqlEnv \<Rightarrow> calls \<Rightarrow> path \<Rightarrow> string \<Rightarrow> lateralPlan \<Rightarrow> command" where
  "compileLateralJoin env go q parentAlias plan =
     nodeC env q (\<lambda>child.
       allocAlias (\<lambda>al.
         seqC [setAlias q al, wr ('' left join lateral ('' @ [newline]),
               indentedC
                 ([wr ''select ''] @
                  separated '', ''
                    ((if lpHasArray plan then [seqC [wr (aggregateRows env (wrapNodeAsValue env child al)), wr '' as arr'']] else []) @
                     map (\<lambda>a. seqC [compileAggFunctionCall go (acExpr a) q al, wr '' as '', wr (acAlias a)]) (lpAggs plan)) @
                  [wr ('' from ('' @ [newline]), indentedC [go (WNode q al parentAlias)], wr ([newline] @ '') ''), wr al]),
               wr ([newline] @ '') ''), wr (lpAlias plan), wr '' on true'']))"

definition compileDistinct :: "calls \<Rightarrow> path \<Rightarrow> shapedNode \<Rightarrow> command" where
  "compileDistinct go p node =
     (if niDistinct (snInfo node) then wr ''distinct ''
      else if rpDistinctOn (snParts node) \<noteq> []
      then seqC [wr ''distinct on '', compileArgList go (Some p) (rpDistinctOn (snParts node)), wr '' '']
      else seqC [])"

definition compileProjection :: "sqlEnv \<Rightarrow> calls \<Rightarrow> path \<Rightarrow> shapedNode \<Rightarrow> string \<Rightarrow> command" where
  "compileProjection env go p node al =
     (let sel = rpSelect (snParts node) in
      if isShapeProducingSelect sel then
        (let fields = selectFieldsFor p node sel in
         if fields = [] then failC NoSelectFields
         else seqC (separated '', '' (map (\<lambda>(k, v). seqC [compileSelectField env go p al v, wr '' as '', ident k]) fields)))
      else if seCbor env then seqC [go (WExpr (Some p) sel), wr '' as __scalar'']
      else seqC [wr ''to_jsonb('', go (WExpr (Some p) sel), wr '') as __scalar''])"

text \<open>The parts of the select of a node, with the laterals it was planned to have.\<close>

definition nodeBody :: "sqlEnv \<Rightarrow> calls \<Rightarrow> path \<Rightarrow> shapedNode \<Rightarrow> string \<Rightarrow> string \<Rightarrow> (path \<times> lateralPlan) list \<Rightarrow> command list" where
  "nodeBody env go p node al onParentAlias ls =
     [wr ''select ''] @
     (if seCount env then [wr ''1''] else [compileDistinct go p node, compileProjection env go p node al]) @
     [wr '' from '', compileFrom env go p al] @
     (if seCount env then []
      else
        map (\<lambda>c. case map_of ls (p @ [souter c]) of
                   None \<Rightarrow> seqC []
                 | Some plan \<Rightarrow> compileLateralJoin env go (p @ [souter c]) al plan) (snIncoming node)) @
     [compileWhere env go p node al onParentAlias] @
     (if seCount env then [] else [compileOrderByClause env go p node, compileLimitOffset (snInfo node)])"

definition compileNodeCorrelated :: "sqlEnv \<Rightarrow> calls \<Rightarrow> path \<Rightarrow> string \<Rightarrow> string \<Rightarrow> command" where
  "compileNodeCorrelated env go p al onParentAlias =
     nodeC env p (\<lambda>node.
       seqC [setAlias p al,
             planLaterals p node (sePlanOrder env (sharedNodes p node)) [] (\<lambda>ls.
               withLaterals (\<lambda>prev. seqC (setLaterals ls # nodeBody env go p node al onParentAlias ls @ [setLaterals prev])))])"

subsection \<open>The statement\<close>

definition step :: "sqlEnv \<Rightarrow> calls \<Rightarrow> calls" where
  "step env go w =
     (case w of
        WExpr n e \<Rightarrow> compileExpr env go n e
      | WField n f \<Rightarrow> compileResolvedField env go n f
      | WNode p al parentAlias \<Rightarrow> compileNodeCorrelated env go p al parentAlias)"

fun run :: "nat \<Rightarrow> sqlEnv \<Rightarrow> calls" where
  "run 0 env w = failC OutOfStack"
| "run (Suc k) env w = step env (run k env) w"

definition statement :: "nat \<Rightarrow> sqlEnv \<Rightarrow> (string \<Rightarrow> string) \<Rightarrow> sql_error + bindValue SQLWriter" where
  "statement k env wrap =
     bindR (allocAlias (\<lambda>al. seqC [wr ''select '', wr (wrap al), wr ('' from ('' @ [newline]), onWriter Indent,
                                   run k env (WNode [] al []), unindentC, wr ([newline] @ '') ''), wr al]) newSQLCompiler)
       (\<lambda>c. Inr (scW c))"

definition readEnv :: "dbInfos \<Rightarrow> (path list \<Rightarrow> path list) \<Rightarrow> bool \<Rightarrow> shapedNode \<Rightarrow> sqlEnv" where
  "readEnv db order cbor root =
     \<lparr>seDb = db, seRoot = root, seCount = False, seCbor = cbor, seFromCTE = [], seOrderByRowID = False, seScope = None,
      seQuote = id, sePlanOrder = order\<rparr>"

definition CompileSelectFormat :: "nat \<Rightarrow> dbInfos \<Rightarrow> (path list \<Rightarrow> path list) \<Rightarrow> bool \<Rightarrow> shapedNode \<Rightarrow> sql_error + bindValue SQLWriter" where
  "CompileSelectFormat k db order cbor t =
     (let root = withPointers t; env = readEnv db order cbor root in
      case scalarFunction root of
        Some f \<Rightarrow>
          bindR (seqC [wr ''select '', wr (fnText f),
                       compileFunctionArgs (run k env) None (rpArguments (snParts root)) (rpArgumentMap (snParts root))] newSQLCompiler)
            (\<lambda>c. Inr (scW c))
      | None \<Rightarrow> statement k env (wrapNodeAsValue env root))"

definition CompileCount :: "nat \<Rightarrow> dbInfos \<Rightarrow> (path list \<Rightarrow> path list) \<Rightarrow> shapedNode \<Rightarrow> sql_error + bindValue SQLWriter" where
  "CompileCount k db order t =
     (case scalarFunction t of
        Some _ \<Rightarrow> Inl ScalarCount
      | None \<Rightarrow> statement k ((readEnv db order False (withPointers t))\<lparr>seCount := True\<rparr>) (\<lambda>_. ''count(*)''))"

definition CompileSelectForDataNodeFormat ::
  "nat \<Rightarrow> dbInfos \<Rightarrow> (path list \<Rightarrow> path list) \<Rightarrow> (string \<Rightarrow> string) \<Rightarrow> bool \<Rightarrow> tempTable \<Rightarrow> int \<Rightarrow> shapedNode \<Rightarrow>
   sql_error + bindValue SQLWriter" where
  "CompileSelectForDataNodeFormat k db order quote cbor tab nodeID t =
     (if IsFunction (snInfo t) then Inl FunctionScoped
      else
        let root = withPointers t;
            env = (readEnv db order cbor root)\<lparr>seScope := Some \<lparr>dsNodeID = nodeID, dsAlias = ''__wq'', dsTable = tab\<rparr>, seQuote := quote\<rparr>
        in statement k env (wrapNodeAsValue env root))"

end
