(* ===== verification/Sql_Data.thy ===== *)
theory Sql_Data
  imports Sql_Compile "HOL-Library.Sublist"
begin

text \<open>
  The text of a statement does not depend on the data of the query: \<open>blank\<close> forgets the values of the literals, the limits and
  the offsets, and a query and its blank compile to the same text with the same bind slots, in every position.  The
  argument is a relation between commands that all commands keep.
\<close>

subsection \<open>Forgetting data\<close>

definition noNumber :: f64 where "noNumber = NaN"

fun blankE :: "expression \<Rightarrow> expression" where
  "blankE (NumberLiteral v) = NumberLiteral noNumber"
| "blankE (StringLiteral v) = StringLiteral []"
| "blankE (BigIntLiteral v) = BigIntLiteral []"
| "blankE (NumericLiteral v) = NumericLiteral []"
| "blankE (UnaryExpr op e) = UnaryExpr op (blankE e)"
| "blankE (BinaryExpr op a b) = BinaryExpr op (blankE a) (if op = ''::'' then b else blankE b)"
| "blankE (FoldedExpr op a b) = FoldedExpr op (blankE a) (blankE b)"
| "blankE (BetweenExpr neg lo e hi) = BetweenExpr neg (blankE lo) (blankE e) (blankE hi)"
| "blankE (InExpr neg e cs) = InExpr neg (blankE e) (map blankE cs)"
| "blankE (AnyAllExpr all op a b) = AnyAllExpr all op (blankE a) (blankE b)"
| "blankE (ConcatWsExpr sep es) = ConcatWsExpr (blankE sep) (map blankE es)"
| "blankE (CoalesceExpr es) = CoalesceExpr (map blankE es)"
| "blankE (FormatExpr fmt es) = FormatExpr [] (map blankE es)"
| "blankE (AggExpr ref es flt dist ord) =
     AggExpr ref (map blankE es) (map_option blankE flt) dist (map (\<lambda>t. (blankE (fst t), snd t)) ord)"
| "blankE (CallExpr ref es) = CallExpr ref (map blankE es)"
| "blankE (ObjectExpr fs) = ObjectExpr (map (\<lambda>kv. (fst kv, blankE (snd kv))) fs)"
| "blankE (StarExpr own except ands) = StarExpr own except (map_option (map (\<lambda>kv. (fst kv, blankE (snd kv)))) ands)"
| "blankE (ArrExpr es) = ArrExpr (map blankE es)"
| "blankE (LstExpr es) = LstExpr (map blankE es)"
| "blankE (IndexExpr a i) = IndexExpr (blankE a) (blankE i)"
| "blankE (SliceExpr a f t) = SliceExpr (blankE a) (blankE f) (blankE t)"
| "blankE (ColExpr name dget dset) = ColExpr name (map_option blankE dget) (map_option blankE dset)"
| "blankE (GetExpr name dflt) = GetExpr name (map_option blankE dflt)"
| "blankE (SetExpr name dflt) = SetExpr name (map_option blankE dflt)"
| "blankE e = e"

text \<open>The type of a cast is written out, so it is kept.\<close>

definition isPlain :: "rexpr \<Rightarrow> bool" where "isPlain e \<longleftrightarrow> (case e of RPlain _ \<Rightarrow> True | _ \<Rightarrow> False)"

fun blankR :: "rexpr \<Rightarrow> rexpr" where
  "blankR (RPlain e) = RPlain (blankE e)"
| "blankR (RIdentifier name f) = RIdentifier name f"
| "blankR (RUnary op e) = RUnary op (blankR e)"
| "blankR (RBinary op a b) = RBinary op (blankR a) (if op = ''::'' \<and> isPlain b then b else blankR b)"
| "blankR (RFolded op a b) = RFolded op (blankR a) (blankR b)"
| "blankR (RBetween neg lo e hi) = RBetween neg (blankR lo) (blankR e) (blankR hi)"
| "blankR (RIn neg e cs) = RIn neg (blankR e) (map blankR cs)"
| "blankR (RAnyAll all op a b) = RAnyAll all op (blankR a) (blankR b)"
| "blankR (RConcatWs sep es) = RConcatWs (blankR sep) (map blankR es)"
| "blankR (RCoalesce es) = RCoalesce (map blankR es)"
| "blankR (RFormat fmt es) = RFormat [] (map blankR es)"
| "blankR (RAgg addr ref fn es flt dist ord) =
     RAgg addr ref fn (map blankR es) (map_option blankR flt) dist (map (\<lambda>t. (blankR (fst t), snd t)) ord)"
| "blankR (RCall ref fn es) = RCall ref fn (map blankR es)"
| "blankR (RObject fs) = RObject (map (\<lambda>kv. (fst kv, blankR (snd kv))) fs)"
| "blankR (RStar own except ands) = RStar own except (map_option (map (\<lambda>kv. (fst kv, blankR (snd kv)))) ands)"
| "blankR (RArr es) = RArr (map blankR es)"
| "blankR (RLst es) = RLst (map blankR es)"
| "blankR (RIndex a i) = RIndex (blankR a) (blankR i)"
| "blankR (RSlice a f t) = RSlice (blankR a) (blankR f) (blankR t)"
| "blankR (RCol name f dget dset) = RCol name f (map_option blankR dget) (map_option blankR dset)"
| "blankR (RGet name c dflt) = RGet name c (map_option blankR dflt)"
| "blankR (RSet name c dflt) = RSet name c (map_option blankR dflt)"

definition blankInfo :: "nodeInfo \<Rightarrow> nodeInfo" where
  "blankInfo info =
     info\<lparr>niFunctionArguments := map blankE (niFunctionArguments info),
          niFunctionArgumentMap := map (\<lambda>(k, e). (k, blankE e)) (niFunctionArgumentMap info),
          niWhere := map_option blankE (niWhere info), niSelect := blankE (niSelect info),
          niDistinctOn := map blankE (niDistinctOn info), niOrderBy := map (\<lambda>(e, d). (blankE e, d)) (niOrderBy info),
          niOffset := map_option (\<lambda>_. 0) (niOffset info), niLimit := map_option (\<lambda>_. 0) (niLimit info)\<rparr>"

definition blankParts :: "resolvedParts \<Rightarrow> resolvedParts" where
  "blankParts ps =
     ps\<lparr>rpWhere := map_option blankR (rpWhere ps), rpSelect := blankR (rpSelect ps),
        rpDistinctOn := map blankR (rpDistinctOn ps), rpOrderBy := map (\<lambda>(e, d). (blankR e, d)) (rpOrderBy ps),
        rpArguments := map blankR (rpArguments ps), rpArgumentMap := map (\<lambda>(k, e). (k, blankR e)) (rpArgumentMap ps)\<rparr>"

fun blankNode :: "shapedNode \<Rightarrow> shapedNode" where
  "blankNode (ShapedNode info parts sh out inc) =
     ShapedNode (blankInfo info) (blankParts parts) sh (map blankNode out) (map blankNode inc)"

lemma blankE_idem [simp]: "blankE (blankE e) = blankE e"
  by (induction e rule: blankE.induct) (auto simp: option.map_comp comp_def intro!: option.map_cong)

lemma isPlain_simps [simp]: "isPlain (RPlain x)" "isPlain (blankR e) = isPlain e"
  by (simp_all add: isPlain_def) (cases e; simp)

lemma blankR_idem [simp]: "blankR (blankR e) = blankR e"
  by (induction e rule: blankR.induct) (auto simp: option.map_comp comp_def intro!: option.map_cong)

lemma blankNode_idem [simp]: "blankNode (blankNode t) = blankNode t"
proof (induction t)
  case (ShapedNode info parts sh out inc)
  have "blankInfo (blankInfo info) = blankInfo info"
    by (simp add: blankInfo_def option.map_comp comp_def split_def)
  moreover have "blankParts (blankParts parts) = blankParts parts"
    by (simp add: blankParts_def option.map_comp comp_def split_def)
  ultimately show ?case using ShapedNode by simp
qed

subsection \<open>States that differ in data\<close>

definition blankPlan :: "lateralPlan \<Rightarrow> lateralPlan" where
  "blankPlan pl = pl\<lparr>lpAggs := map (\<lambda>a. a\<lparr>acExpr := blankR (acExpr a)\<rparr>) (lpAggs pl)\<rparr>"

definition blankSlots :: "bindValue SQLWriter \<Rightarrow> bindValue SQLWriter" where
  "blankSlots w = w\<lparr>slots := map (\<lambda>s. s\<lparr>slotValue := BNil\<rparr>) (slots w)\<rparr>"

definition blankLaterals :: "(path \<times> lateralPlan) list \<Rightarrow> (path \<times> lateralPlan) list" where
  "blankLaterals ls = map (\<lambda>(q, pl). (q, blankPlan pl)) ls"

definition alike :: "sqlCompiler \<Rightarrow> sqlCompiler \<Rightarrow> bool" where
  "alike c d \<longleftrightarrow>
     blankSlots (scW c) = blankSlots (scW d) \<and> scNextAlias c = scNextAlias d \<and> scAlias c = scAlias d \<and>
     blankLaterals (scLaterals c) = blankLaterals (scLaterals d)"

definition alikeR :: "sql_error + sqlCompiler \<Rightarrow> sql_error + sqlCompiler \<Rightarrow> bool" where
  "alikeR x y = (case (x, y) of (Inl e, Inl f) \<Rightarrow> e = f | (Inr c, Inr d) \<Rightarrow> alike c d | _ \<Rightarrow> False)"

definition keepsText :: "command \<Rightarrow> command \<Rightarrow> bool" where
  "keepsText x y \<longleftrightarrow> (\<forall>c d. alike c d \<longrightarrow> alikeR (x c) (y d))"

lemma keepsTextI: "(\<And>c d. alike c d \<Longrightarrow> alikeR (x c) (y d)) \<Longrightarrow> keepsText x y"
  by (simp add: keepsText_def)

lemma keepsTextD: "keepsText x y \<Longrightarrow> alike c d \<Longrightarrow> alikeR (x c) (y d)"
  by (simp add: keepsText_def)

lemma alikeR_simps [simp]: "alikeR (Inl e) (Inl f) \<longleftrightarrow> e = f" "alikeR (Inr c) (Inr d) \<longleftrightarrow> alike c d"
  "\<not> alikeR (Inl e) (Inr d)" "\<not> alikeR (Inr c) (Inl f)"
  by (simp_all add: alikeR_def)

lemma keepsText_seqC: "list_all2 keepsText xs ys \<Longrightarrow> keepsText (seqC xs) (seqC ys)"
proof (induction rule: list_all2_induct)
  case Nil
  then show ?case by (simp add: keepsText_def seqC.simps)
next
  case (Cons x xs y ys)
  show ?case
  proof (rule keepsTextI)
    fix c d assume "alike c d"
    then have h: "alikeR (x c) (y d)" using Cons.hyps by (simp add: keepsTextD)
    show "alikeR (seqC (x # xs) c) (seqC (y # ys) d)"
      using h Cons.IH by (cases "x c"; cases "y d") (simp_all add: keepsTextD seqC.simps)
  qed
qed

lemma keepsText_failC: "keepsText (failC e) (failC e)"
  by (simp add: keepsText_def failC_def)

lemma keepsText_onWriter:
  "(\<And>w v. blankSlots w = blankSlots v \<Longrightarrow> blankSlots (f w) = blankSlots (g v)) \<Longrightarrow> keepsText (onWriter f) (onWriter g)"
  by (simp add: keepsText_def onWriter_def alike_def)

lemma writeLine_slots:
  fixes w :: "'v SQLWriter"
  shows "writeLine s (w\<lparr>slots := x\<rparr>) = (writeLine s w)\<lparr>slots := x\<rparr>"
  by (simp add: writeLine_def Let_def)

lemma breakLine_slots:
  fixes w :: "'v SQLWriter"
  shows "breakLine (w\<lparr>slots := x\<rparr>) = (breakLine w)\<lparr>slots := x\<rparr>"
  by (simp add: breakLine_def)

lemma Write_keeps_slots:
  fixes w :: "'v SQLWriter"
  shows "Write s (w\<lparr>slots := x\<rparr>) = (Write s w)\<lparr>slots := x\<rparr>"
proof -
  have "fold (\<lambda>l w. writeLine l (breakLine w)) ls (v\<lparr>slots := x\<rparr>) = (fold (\<lambda>l w. writeLine l (breakLine w)) ls v)\<lparr>slots := x\<rparr>" for ls and v :: "'v SQLWriter"
    by (induction ls arbitrary: v) (simp_all add: writeLine_slots breakLine_slots)
  then show ?thesis by (simp add: Write_def Let_def writeLine_slots)
qed

lemma slots_Write [simp]:
  fixes w :: "'v SQLWriter"
  shows "slots (Write s w) = slots w"
proof -
  have "Write s w = Write s (w\<lparr>slots := slots w\<rparr>)" by simp
  also have "\<dots> = (Write s w)\<lparr>slots := slots w\<rparr>" by (rule Write_keeps_slots)
  finally show ?thesis by (metis SQLWriter.select_convs(1) SQLWriter.surjective SQLWriter.update_convs(1))
qed

lemma blankSlots_Write: "blankSlots (Write s w) = Write s (blankSlots w)"
  by (simp add: blankSlots_def Write_keeps_slots)

lemma keepsText_wr: "keepsText (wr s) (wr s)"
  unfolding wr_def by (rule keepsText_onWriter) (simp add: blankSlots_Write)

lemma keepsText_ident: "keepsText (ident s) (ident s)"
  using keepsText_wr [of "EscapeSQLId s"] by (simp add: wr_def ident_def onWriter_def WriteId_def keepsText_def)

lemma blankSlots_length: "blankSlots w = blankSlots v \<Longrightarrow> length (slots w) = length (slots v)"
  by (metis blankSlots_def length_map SQLWriter.select_convs(1) SQLWriter.surjective SQLWriter.update_convs(1))

text \<open>A bind writes the number of its slot, whatever the value.\<close>

lemma blankSlots_bind:
  assumes "blankSlots w = blankSlots v"
  shows "blankSlots (Bind x w) = blankSlots (Bind y v)" "blankSlots (BindParam BNil name w) = blankSlots (BindParam BNil name v)"
proof -
  let ?n = "placeholder (Suc (length (slots w)))"
  have n: "?n = placeholder (Suc (length (slots v)))" using blankSlots_length [OF assms] by simp
  have e: "blankSlots (w\<lparr>slots := slots w @ [s]\<rparr>) = blankSlots (v\<lparr>slots := slots v @ [t]\<rparr>)" if "slotName s = slotName t" for s t :: "bindValue sqlBindSlot"
  proof -
    have "(blankSlots w)\<lparr>slots := slots (blankSlots w) @ [s\<lparr>slotValue := BNil\<rparr>]\<rparr> = (blankSlots v)\<lparr>slots := slots (blankSlots v) @ [t\<lparr>slotValue := BNil\<rparr>]\<rparr>"
      using assms that by (cases s; cases t) simp
    then show ?thesis by (simp add: blankSlots_def)
  qed
  show "blankSlots (Bind x w) = blankSlots (Bind y v)" "blankSlots (BindParam BNil name w) = blankSlots (BindParam BNil name v)"
    using e [of "\<lparr>slotName = [], slotValue = x\<rparr>" "\<lparr>slotName = [], slotValue = y\<rparr>"]
      e [of "\<lparr>slotName = name, slotValue = BNil\<rparr>" "\<lparr>slotName = name, slotValue = BNil\<rparr>"]
    by (simp_all add: Bind_def BindParam_def Let_def blankSlots_Write n)
qed

lemma keepsText_bindC: "keepsText (bindC x) (bindC y)"
  unfolding bindC_def by (rule keepsText_onWriter) (rule blankSlots_bind)

lemma keepsText_bindParamC: "keepsText (bindParamC name) (bindParamC name)"
  unfolding bindParamC_def by (rule keepsText_onWriter) (rule blankSlots_bind)

lemma keepsText_indent: "keepsText (onWriter Indent) (onWriter Indent)"
proof (rule keepsText_onWriter)
  fix w v :: "bindValue SQLWriter" assume "blankSlots w = blankSlots v"
  then have "Indent (blankSlots w) = Indent (blankSlots v)" by simp
  then show "blankSlots (Indent w) = blankSlots (Indent v)" by (cases w; cases v) (simp add: blankSlots_def Indent_def)
qed

lemma blankSlots_indentation:
  "blankSlots w = blankSlots v \<Longrightarrow>
   indentation w = indentation v \<and> blankSlots (w\<lparr>indentation := k\<rparr>) = blankSlots (v\<lparr>indentation := k\<rparr>)"
  by (cases w; cases v) (simp add: blankSlots_def)

lemma keepsText_unindentC: "keepsText unindentC unindentC"
proof (rule keepsTextI)
  fix c d assume a: "alike c d"
  with blankSlots_indentation [of "scW c" "scW d" "indentation (scW d) - 1"]
  show "alikeR (unindentC c) (unindentC d)" by (simp add: unindentC_def Unindent_def alike_def)
qed

lemma keepsText_setAlias: "keepsText (setAlias p a) (setAlias p a)"
  by (simp add: keepsText_def setAlias_def alike_def)

lemma keepsText_setLaterals: "blankLaterals ls = blankLaterals ks \<Longrightarrow> keepsText (setLaterals ls) (setLaterals ks)"
  by (simp add: keepsText_def setLaterals_def alike_def)

lemma keepsText_allocAlias: "(\<And>a. keepsText (f a) (g a)) \<Longrightarrow> keepsText (allocAlias f) (allocAlias g)"
  by (rule keepsTextI) (simp add: allocAlias_def keepsText_def alike_def)

lemma keepsText_aliasOf: "(\<And>a. keepsText (f a) (g a)) \<Longrightarrow> keepsText (aliasOf p f) (aliasOf p g)"
  by (rule keepsTextI) (auto simp: aliasOf_def keepsText_def alike_def split: option.splits)

lemma keepsText_withLaterals:
  "(\<And>ls ks. blankLaterals ls = blankLaterals ks \<Longrightarrow> keepsText (f ls) (g ks)) \<Longrightarrow> keepsText (withLaterals f) (withLaterals g)"
  by (rule keepsTextI) (simp add: withLaterals_def keepsText_def alike_def)

lemma keepsText_separated: "list_all2 keepsText xs ys \<Longrightarrow> list_all2 keepsText (separated sep xs) (separated sep ys)"
proof (induction sep xs arbitrary: ys rule: separated.induct)
  case (3 sep c d cs)
  then obtain c' d' cs' where "ys = c' # d' # cs'" by (auto simp: list_all2_Cons1)
  with 3 show ?case by (simp add: keepsText_wr)
qed (auto simp: list_all2_Cons1)

lemma keepsText_map: "(\<And>x. x \<in> set xs \<Longrightarrow> keepsText (f x) (g x)) \<Longrightarrow> list_all2 keepsText (map f xs) (map g xs)"
  by (simp add: list_all2_conv_all_nth)

lemma keepsText_surroundC: "list_all2 keepsText xs ys \<Longrightarrow> keepsText (surroundC a b xs) (surroundC a b ys)"
  unfolding surroundC_def by (rule keepsText_seqC) (simp add: keepsText_wr list_all2_appendI)

lemma keepsText_parenC: "list_all2 keepsText xs ys \<Longrightarrow> keepsText (parenC xs) (parenC ys)"
  unfolding parenC_def by (rule keepsText_surroundC)

lemma keepsText_indentedC: "list_all2 keepsText xs ys \<Longrightarrow> keepsText (indentedC xs) (indentedC ys)"
  unfolding indentedC_def by (rule keepsText_seqC) (simp add: keepsText_indent keepsText_unindentC list_all2_appendI)

lemma keepsText_argListC: "list_all2 keepsText xs ys \<Longrightarrow> keepsText (argListC xs) (argListC ys)"
  unfolding argListC_def by (intro keepsText_surroundC) (simp add: keepsText_indentedC keepsText_separated)

lemma keepsText_qualify: "keepsText (qualify a n) (qualify a n)"
  unfolding qualify_def by (rule keepsText_seqC) (simp add: keepsText_wr keepsText_ident)

lemma keepsText_path: "keepsText (writeQualifiedPathN al cols i) (writeQualifiedPathN al cols i)"
proof (induction i)
  case 0
  show ?case by (cases cols) (auto intro!: keepsText_seqC simp: keepsText_failC keepsText_wr keepsText_ident)
next
  case (Suc i)
  then show ?case by (auto intro!: keepsText_seqC keepsText_parenC simp: keepsText_wr keepsText_ident keepsText_failC)
qed

lemma keepsText_WriteQualifiedPath: "keepsText (WriteQualifiedPath al cols) (WriteQualifiedPath al cols)"
  by (simp add: WriteQualifiedPath_def keepsText_failC keepsText_path)

lemma keepsText_whereOf: "list_all2 keepsText xs ys \<Longrightarrow> keepsText (whereOf xs) (whereOf ys)"
  by (cases xs; cases ys) (simp_all add: whereOf_def keepsText_seqC keepsText_wr keepsText_separated)

lemma blankLaterals_lookup: "map_of (blankLaterals ls) q = map_option blankPlan (map_of ls q)"
  by (induction ls) (auto simp: blankLaterals_def)

lemma blankLaterals_idem [simp]: "blankLaterals (blankLaterals ls) = blankLaterals ls"
  by (auto simp: blankLaterals_def blankPlan_def comp_def)

lemma keepsText_planned:
  assumes "\<And>pl pl'. blankPlan pl = blankPlan pl' \<Longrightarrow> keepsText (f pl) (g pl')" "keepsText x y"
  shows "keepsText (withLaterals (\<lambda>ls. case map_of ls q of Some pl \<Rightarrow> f pl | None \<Rightarrow> x))
    (withLaterals (\<lambda>ls. case map_of ls q of Some pl \<Rightarrow> g pl | None \<Rightarrow> y))"
proof (rule keepsText_withLaterals)
  fix ls ks assume "blankLaterals ls = blankLaterals ks"
  then have "map_option blankPlan (map_of ls q) = map_option blankPlan (map_of ks q)" by (metis blankLaterals_lookup)
  with assms show "keepsText (case map_of ls q of Some pl \<Rightarrow> f pl | None \<Rightarrow> x) (case map_of ks q of Some pl \<Rightarrow> g pl | None \<Rightarrow> y)"
    by (auto split: option.split)
qed

lemma blankPlan_same: "blankPlan pl = blankPlan pl' \<Longrightarrow> lpAlias pl = lpAlias pl'"
  by (cases pl; cases pl') (simp add: blankPlan_def)

lemmas keepsText_basic = keepsText_wr keepsText_ident keepsText_bindC keepsText_bindParamC keepsText_failC keepsText_qualify keepsText_setAlias
  keepsText_WriteQualifiedPath keepsText_indent keepsText_unindentC

lemma keepsText_append: "list_all2 keepsText xs ys \<Longrightarrow> list_all2 keepsText xs' ys' \<Longrightarrow> list_all2 keepsText (xs @ xs') (ys @ ys')"
  by (rule list_all2_appendI)

lemma keepsText_Cons: "keepsText x y \<Longrightarrow> list_all2 keepsText xs ys \<Longrightarrow> list_all2 keepsText (x # xs) (y # ys)"
  by simp

lemma keepsText_Nil: "list_all2 keepsText [] []"
  by simp

lemmas keepsText_intros = keepsText_basic keepsText_Nil keepsText_Cons keepsText_append keepsText_seqC keepsText_parenC keepsText_surroundC keepsText_indentedC
  keepsText_argListC keepsText_separated keepsText_allocAlias keepsText_aliasOf

subsection \<open>What the compiler reads of a query\<close>

lemma exposed_blank [simp]: "exposed (blankR e) = blankR (exposed e)"
proof (cases e)
  case (RPlain x)
  then show ?thesis by (cases x) (simp_all add: exposed_def comp_def split_def option.map_comp)
qed (simp_all add: exposed_def)

lemma bareResolvedField_blank [simp]: "bareResolvedField (blankR e) = bareResolvedField e"
  by (cases e) (simp_all add: bareResolvedField_def)

lemma rootQueryNodeOf_blank [simp]: "rootQueryNodeOf (blankR e) = rootQueryNodeOf e"
proof (induction e rule: rootQueryNodeOf.induct)
  case (1 e)
  then show ?case
    by (cases e) (simp_all add: rootQueryNodeOf.simps bareResolvedField_def split: option.splits)
qed

lemma firstSome_map: "firstSome f (map g xs) = firstSome (f \<circ> g) xs"
  by (induction xs) (auto split: option.splits)

lemma childReferencedBy_blank [simp]: "childReferencedBy (blankR e) = childReferencedBy e"
proof (induction e rule: childReferencedBy.induct)
  case (1 e)
  show ?case
  proof (cases "rootQueryNodeOf e")
    case (Some q)
    then show ?thesis using rootQueryNodeOf_blank [of e] by (subst (1 2) childReferencedBy.simps) simp
  next
    case None
    have m: "firstSome childReferencedBy (map blankR es) = firstSome childReferencedBy es"
      if "\<And>x. x \<in> set es \<Longrightarrow> childReferencedBy (blankR x) = childReferencedBy x" for es
      unfolding firstSome_map by (rule firstSome_cong) (use that in auto)
    show ?thesis
      using None rootQueryNodeOf_blank [of e] "1.IH"
      by (subst (1 2) childReferencedBy.simps) (cases e; simp add: m split: option.split)
  qed
qed

lemma aggTargetChild_blank [simp]: "aggTargetChild (map blankR es) = aggTargetChild es"
  by (simp add: aggTargetChild_def firstSome_map comp_def)

lemma aggArgs_blank [simp]: "aggArgs (blankR e) = map blankR (aggArgs e)"
  by (cases e) (simp_all add: aggArgs_def)

lemma aggAddr_blank [simp]: "aggAddr (blankR e) = aggAddr e"
  by (cases e) (simp_all add: aggAddr_def)

lemma blankPlan_found:
  assumes "blankPlan pl = blankPlan pl'"
  shows "map_option acAlias (find (\<lambda>a. aggAddr (acExpr a) = x) (lpAggs pl)) =
    map_option acAlias (find (\<lambda>a. aggAddr (acExpr a) = x) (lpAggs pl'))"
proof -
  let ?blank = "map (\<lambda>a. a\<lparr>acExpr := blankR (acExpr a)\<rparr>)"
  let ?found = "\<lambda>xs. map_option acAlias (find (\<lambda>a. aggAddr (acExpr a) = x) xs)"
  have f: "?found (?blank xs) = ?found xs" for xs by (induction xs) simp_all
  have "?blank (lpAggs pl) = ?blank (lpAggs pl')" using assms by (cases pl; cases pl') (simp add: blankPlan_def)
  then have "?found (?blank (lpAggs pl)) = ?found (?blank (lpAggs pl'))" by (rule arg_cong)
  then show ?thesis unfolding f .
qed

lemma concat_map_blank:
  "(\<And>x. x \<in> set xs \<Longrightarrow> walkAggs (blankR (f x)) = map blankR (walkAggs (f x))) \<Longrightarrow>
   concat (map (\<lambda>x. walkAggs (blankR (f x))) xs) = map blankR (concat (map (\<lambda>x. walkAggs (f x)) xs))"
  by (induction xs) simp_all

lemma walkAggs_plain: "isPlain e \<Longrightarrow> walkAggs e = []"
  by (cases e) (simp_all add: isPlain_def)

lemma walkAggs_blank [simp]: "walkAggs (blankR e) = map blankR (walkAggs e)"
  by (induction e rule: walkAggs.induct)
    (auto simp: comp_def concat_map_blank concat_map_blank [where f = "\<lambda>x. x"] walkAggs_plain split: option.splits)

lemma sort_fields_map: "sort_key f (map g xs) = map g (sort_key (\<lambda>x. f (g x)) xs)"
proof (induction xs)
  case (Cons x xs)
  have "insort_key f (g x) (map g ys) = map g (insort_key (\<lambda>x. f (g x)) x ys)" for ys by (induction ys) simp_all
  with Cons show ?case by simp
qed simp

lemma souter_blank [simp]: "souter (blankNode c) = souter c"
  by (cases c) (simp add: souter_def blankInfo_def)

lemma snodeAt_blank: "snodeAt (blankNode n) p = map_option blankNode (snodeAt n p)"
proof (induction p arbitrary: n)
  case (Cons a p)
  have f: "find (\<lambda>c. souter c = a) (map blankNode cs) = map_option blankNode (find (\<lambda>c. souter c = a) cs)" for cs
    by (induction cs) simp_all
  have "snOutgoing (blankNode n) @ snIncoming (blankNode n) = map blankNode (snOutgoing n @ snIncoming n)" by (cases n) simp
  with f [of "snOutgoing n @ snIncoming n"] Cons show ?case by (simp split: option.split)
qed simp

fun blankValue :: "selectValue \<Rightarrow> selectValue" where
  "blankValue (SExpr e) = SExpr (blankR e)"
| "blankValue v = v"

lemma node_blank [simp]:
  "snInfo (blankNode n) = blankInfo (snInfo n)" "snParts (blankNode n) = blankParts (snParts n)" "snShape (blankNode n) = snShape n"
  "snOutgoing (blankNode n) = map blankNode (snOutgoing n)" "snIncoming (blankNode n) = map blankNode (snIncoming n)"
  by (cases n; simp)+

lemma info_blank [simp]:
  "niRelation (blankInfo i) = niRelation i" "niFunction (blankInfo i) = niFunction i" "niJoinColumns (blankInfo i) = niJoinColumns i"
  "niOnConflictColumns (blankInfo i) = niOnConflictColumns i" "niDistinct (blankInfo i) = niDistinct i"
  "niOuterAlias (blankInfo i) = niOuterAlias i" "IsFunction (blankInfo i) = IsFunction i"
  "identityColumns (blankInfo i) r = identityColumns i r"
  by (simp_all add: blankInfo_def IsFunction_def identityColumns_def)

lemma parts_blank [simp]:
  "rpWhere (blankParts ps) = map_option blankR (rpWhere ps)" "rpSelect (blankParts ps) = blankR (rpSelect ps)"
  "rpDistinctOn (blankParts ps) = map blankR (rpDistinctOn ps)" "rpOrderBy (blankParts ps) = map (\<lambda>(e, d). (blankR e, d)) (rpOrderBy ps)"
  "rpArguments (blankParts ps) = map blankR (rpArguments ps)"
  "rpArgumentMap (blankParts ps) = map (\<lambda>(k, e). (k, blankR e)) (rpArgumentMap ps)"
  by (simp_all add: blankParts_def)

lemma shapeProducing_blank [simp]: "isShapeProducingSelect (blankR e) = isShapeProducingSelect e"
  by (cases e) (simp_all add: isShapeProducingSelect_def)

lemma addAnd_blank: "addAnd (map (\<lambda>kv. (fst kv, blankR (snd kv))) fs) = map (\<lambda>(k, v). (k, blankValue v)) (addAnd fs)"
  by (simp add: addAnd_def sort_fields_map split_def)

lemma selectFieldsFor_blank:
  "selectFieldsFor p (blankNode n) (blankR sel) = map (\<lambda>(k, v). (k, blankValue v)) (selectFieldsFor p n sel)"
proof (cases sel)
  case (RStar own except ands)
  have "addOwn (blankNode n) except = map (\<lambda>(k, v). (k, blankValue v)) (addOwn n except)"
    by (simp add: addOwn_def split: option.split)
  moreover have "addAliases p (blankNode n) = map (\<lambda>(k, v). (k, blankValue v)) (addAliases p n)"
    by (simp add: addAliases_def)
  ultimately show ?thesis using RStar addAnd_blank by (simp add: selectFieldsFor_def split: option.split)
qed (simp_all add: selectFieldsFor_def addAnd_blank)

lemma embedChildOf_blank [simp]: "embedChildOf (blankValue v) = embedChildOf v"
  by (cases v) (simp_all add: embedChildOf_def)

lemma planOf_blank: "planOf p (blankNode n) q al = blankPlan (planOf p n q al)"
  by (simp add: planOf_def blankPlan_def usesArray_def aggsOf_def filter_map comp_def enumerate_map_upt map_map split_def
      enumerate_eq_zip zip_map2)

lemma sharedNodes_blank: "sharedNodes p (blankNode n) = sharedNodes p n"
  by (simp add: sharedNodes_def usesArray_def aggsOf_def filter_map comp_def)

lemma scalarFunction_blank [simp]: "scalarFunction (blankNode n) = scalarFunction n"
  by (simp add: scalarFunction_def split: option.split)

definition blankEnv :: "sqlEnv \<Rightarrow> sqlEnv" where
  "blankEnv env = env\<lparr>seRoot := blankNode (seRoot env)\<rparr>"

lemma env_blank [simp]:
  "seDb (blankEnv env) = seDb env" "seRoot (blankEnv env) = blankNode (seRoot env)" "seCount (blankEnv env) = seCount env"
  "seCbor (blankEnv env) = seCbor env" "seFromCTE (blankEnv env) = seFromCTE env" "seOrderByRowID (blankEnv env) = seOrderByRowID env"
  "scopeAt (blankEnv env) p = scopeAt env p" "quotedRef (blankEnv env) a name = quotedRef env a name" "seQuote (blankEnv env) = seQuote env"
  "colRef (blankEnv env) t a c = colRef env t a c" "aggregateRows (blankEnv env) a = aggregateRows env a" "emptyRows (blankEnv env) = emptyRows env"
  "sePlanOrder (blankEnv env) = sePlanOrder env"
  by (simp_all add: blankEnv_def scopeAt_def quotedRef_def colRef_def aggregateRows_def emptyRows_def)

lemma wrap_blank [simp]: "wrapNodeAsValue (blankEnv env) (blankNode n) al = wrapNodeAsValue env n al"
  by (simp add: wrapNodeAsValue_def)

lemma isOutgoingOf_blank [simp]: "isOutgoingOf (blankEnv env) p q = isOutgoingOf env p q"
  by (simp add: isOutgoingOf_def snodeAt_blank list_ex_iff split: option.split)

subsection \<open>Compilation keeps the relation\<close>

fun blankWork :: "work \<Rightarrow> work" where
  "blankWork (WExpr n e) = WExpr n (blankR e)"
| "blankWork w = w"

locale blank_calls =
  fixes env :: sqlEnv and go go' :: calls
  assumes calls: "keepsText (go w) (go' (blankWork w))"
begin

lemma expr: "keepsText (go (WExpr n e)) (go' (WExpr n (blankR e)))"
  using calls [of "WExpr n e"] by simp

lemma field: "keepsText (go (WField n f)) (go' (WField n f))"
  using calls [of "WField n f"] by simp

lemma node: "keepsText (go (WNode p a b)) (go' (WNode p a b))"
  using calls [of "WNode p a b"] by simp

lemma exprs: "list_all2 keepsText (map (\<lambda>e. go (WExpr n e)) es) (map (\<lambda>e. go' (WExpr n e)) (map blankR es))"
  by (simp add: list_all2_conv_all_nth expr)

lemma operand: "keepsText (compileOperand go n e) (compileOperand go' n (blankR e))"
  by (cases "exposed e") (simp_all add: compileOperand_def expr keepsText_parenC)

lemma argList: "keepsText (compileArgList go n es) (compileArgList go' n (map blankR es))"
  unfolding compileArgList_def by (rule keepsText_argListC) (rule exprs)

lemma unary: "keepsText (compileUnary go n op e) (compileUnary go' n op (blankR e))"
  by (auto simp: compileUnary_def split: option.split intro!: keepsText_intros operand)

lemma folded: "keepsText (compileFolded go n op a b) (compileFolded go' n op (blankR a) (blankR b))"
proof (cases "op = ''.''")
  case True
  then show ?thesis by (cases "exposed b") (simp_all add: compileFolded_def field keepsText_failC)
next
  case False
  have "keepsText (compileArgList go n [a, b]) (compileArgList go' n [blankR a, blankR b])" using argList [of n "[a, b]"] by simp
  with False show ?thesis by (simp add: compileFolded_def) (intro impI conjI keepsText_intros operand; assumption)
qed

lemma cast: "keepsText (compileCast b) (compileCast (if isPlain b then b else blankR b))"
  by (cases b) (auto simp: compileCast_def split: sum.split intro!: keepsText_intros)

lemma binary: "keepsText (compileBinary go n op a b) (compileBinary go' n op (blankR a) (if op = ''::'' \<and> isPlain b then b else blankR b))"
  using cast [of b] by (auto simp: compileBinary_def intro!: keepsText_intros operand)

lemma between: "keepsText (compileBetween go n neg lo e hi) (compileBetween go' n neg (blankR lo) (blankR e) (blankR hi))"
  unfolding compileBetween_def by (intro keepsText_intros operand)

lemma inExpr: "keepsText (compileIn go n neg e cs) (compileIn go' n neg (blankR e) (map blankR cs))"
  unfolding compileIn_def by (intro keepsText_intros operand exprs)

lemma subject: "subjectPgType (blankR e) = subjectPgType e"
  by (simp add: subjectPgType_def)

lemma arrayCast_ok: "list_all2 keepsText (arrayCast e a) (arrayCast (blankR e) (blankR a))"
  by (cases "exposed a") (auto simp: arrayCast_def subject Let_def keepsText_wr split: option.split)

lemma anyAll: "keepsText (compileAnyAll go n all op e a) (compileAnyAll go' n all op (blankR e) (blankR a))"
  unfolding compileAnyAll_def
  by (intro keepsText_intros operand expr arrayCast_ok) (auto split: option.split intro!: keepsText_intros)

lemma functionArgs:
  "keepsText (compileFunctionArgs go n es fs) (compileFunctionArgs go' n (map blankR es) (map (\<lambda>(k, e). (k, blankR e)) fs))"
proof (cases "fs = []")
  case True
  then show ?thesis by (simp add: compileFunctionArgs_def argList)
next
  case False
  then show ?thesis
    by (auto simp: compileFunctionArgs_def sort_fields_map comp_def split_def intro!: keepsText_intros keepsText_map expr)
qed

lemma onNode:
  "(\<And>nd. keepsText (f nd) (g (blankNode nd))) \<Longrightarrow> keepsText (nodeC env p f) (nodeC (blankEnv env) p g)"
  by (simp add: nodeC_def snodeAt_blank keepsText_failC split: option.split)

lemma fromPart: "keepsText (compileFrom env go p al) (compileFrom (blankEnv env) go' p al)"
  unfolding compileFrom_def
  by (rule onNode) (auto split: option.split intro!: keepsText_intros functionArgs)

lemma whereC: "list_all2 keepsText (case rpWhere ps of None \<Rightarrow> [] | Some e \<Rightarrow> [compileOperand go n e])
   (case map_option blankR (rpWhere ps) of None \<Rightarrow> [] | Some e \<Rightarrow> [compileOperand go' n e])"
  by (simp add: operand split: option.split)

lemma onConditions_ok: "list_all2 keepsText (onConditions al pa info) (onConditions al pa (blankInfo info))"
  by (auto simp: onConditions_def intro!: keepsText_map keepsText_intros)

lemma wherePart: "keepsText (compileWhere env go p nd al pa) (compileWhere (blankEnv env) go' p (blankNode nd) al pa)"
  unfolding compileWhere_def Let_def
  by (auto split: option.split intro!: keepsText_whereOf keepsText_intros keepsText_map onConditions_ok operand)

lemma orderTerms: "keepsText (compileOrderTerms go n ts) (compileOrderTerms go' n (map (\<lambda>(e, d). (blankR e, d)) ts))"
  unfolding compileOrderTerms_def by (auto simp: comp_def split_def intro!: keepsText_intros keepsText_map expr)

lemma orderBy: "keepsText (compileOrderByClause env go p nd) (compileOrderByClause (blankEnv env) go' p (blankNode nd))"
  unfolding compileOrderByClause_def
  by (auto split: option.split intro!: keepsText_intros orderTerms)

lemma limitOffset: "keepsText (compileLimitOffset i) (compileLimitOffset (blankInfo i))"
  unfolding compileLimitOffset_def by (auto simp: blankInfo_def split: option.split intro!: keepsText_intros)

lemma hopWhere:
  "keepsText (compileScalarHopWhere go n q nd al) (compileScalarHopWhere go' n q (blankNode nd) al)"
  unfolding compileScalarHopWhere_def
  by (auto simp: split_def split: option.split intro!: keepsText_intros keepsText_map field operand)

lemma hop:
  assumes "\<And>al. keepsText (f al) (g al)"
  shows "keepsText (scalarHop env go n q f) (scalarHop (blankEnv env) go' n q g)"
  unfolding scalarHop_def toOneC_def
  by (auto split: option.split intro!: keepsText_intros assms fromPart onNode hopWhere)

lemma resolved: "keepsText (compileResolvedField env go n f) (compileResolvedField (blankEnv env) go' n f)"
  unfolding compileResolvedField_def
  by (auto split: option.split resolvedField.split intro!: keepsText_intros hop)

lemma embedded: "keepsText (embedSubquery env go q p al) (embedSubquery (blankEnv env) go' q p al)"
  unfolding embedSubquery_def
  by (rule onNode) (auto split: option.split intro!: keepsText_intros functionArgs node)

lemma embed: "keepsText (compileEmbedField env go q p al) (compileEmbedField (blankEnv env) go' q p al)"
  unfolding compileEmbedField_def
  by (intro keepsText_planned embedded) (auto dest: blankPlan_same intro!: keepsText_intros)

lemma selectValue: "keepsText (compileSelectField env go p al v) (compileSelectField (blankEnv env) go' p al (blankValue v))"
  by (cases v) (auto simp: compileSelectField_def embedChildOf_blank [of "SExpr _", simplified] split: option.split
      intro!: keepsText_intros embed expr)

lemma jsonPair_ok: "keepsText x y \<Longrightarrow> keepsText (jsonPair k x) (jsonPair k y)"
  unfolding jsonPair_def by (intro keepsText_intros)

lemma objectLiteral:
  "keepsText (compileObjectLiteral go n fs) (compileObjectLiteral go' n (map (\<lambda>kv. (fst kv, blankR (snd kv))) fs))"
  unfolding compileObjectLiteral_def
  by (auto simp: sort_fields_map comp_def split_def intro!: keepsText_intros keepsText_map jsonPair_ok expr)

lemma shapeAsJson: "keepsText (compileShapeAsJsonObject env go n e) (compileShapeAsJsonObject (blankEnv env) go' n (blankR e))"
proof (cases n)
  case (Some p)
  show ?thesis unfolding compileShapeAsJsonObject_def Some option.case
    by (intro onNode)
      (auto simp: selectFieldsFor_blank comp_def split_def intro!: keepsText_intros keepsText_map jsonPair_ok selectValue)
qed (simp add: compileShapeAsJsonObject_def keepsText_failC)

lemma blank_default: "blankR d = RPlain DefaultKeyword \<longleftrightarrow> d = RPlain DefaultKeyword"
proof -
  have "blankE x = DefaultKeyword \<longleftrightarrow> x = DefaultKeyword" for x by (cases x) simp_all
  then show ?thesis by (cases d) simp_all
qed

lemma columnRead: "keepsText (compileColumnRead go n c d) (compileColumnRead go' n c (map_option blankR d))"
  unfolding compileColumnRead_def
  by (cases n; cases d) (auto simp: blank_default intro!: keepsText_intros expr)

lemma aggCall: "keepsText (compileAggFunctionCall go e q al) (compileAggFunctionCall go' (blankR e) q al)"
proof (cases e)
  case (RAgg addr ref fn es flt dist ord)
  have "list_all2 keepsText (map (\<lambda>a. if bareResolvedField a = Some (NodeRef q) then seqC [wr al, wr ''.*''] else go (WExpr (Some q) a)) es)
     (map (\<lambda>a. if bareResolvedField a = Some (NodeRef q) then seqC [wr al, wr ''.*''] else go' (WExpr (Some q) a)) (map blankR es))"
    by (auto simp: comp_def intro!: keepsText_map keepsText_intros expr)
  moreover have "keepsText (compileOrderTerms go (Some q) ord) (compileOrderTerms go' (Some q) (map (\<lambda>t. (blankR (fst t), snd t)) ord))"
    using orderTerms [of "Some q" ord] by (simp add: split_def)
  ultimately show ?thesis
    unfolding RAgg compileAggFunctionCall_def
    by (simp only: blankR.simps rexpr.case map_is_Nil_conv)
      (cases flt; auto intro!: keepsText_intros expr)
qed (simp_all add: compileAggFunctionCall_def keepsText_failC)

lemma aggSub: "keepsText (aggSubquery go n e q) (aggSubquery go' n (blankR e) q)"
  unfolding aggSubquery_def by (cases n) (auto intro!: keepsText_intros aggCall node)

lemma agg: "keepsText (compileAgg go n e) (compileAgg go' n (blankR e))"
proof (cases "aggTargetChild (aggArgs e)")
  case (Some q)
  let ?find = "\<lambda>pl. find (\<lambda>a. aggAddr (acExpr a) = aggAddr e) (lpAggs pl)"
  have "keepsText (case ?find pl of Some a \<Rightarrow> seqC [wr (lpAlias pl), wr ''.'', wr (acAlias a)] | None \<Rightarrow> failC AggNotInPlan)
      (case ?find pl' of Some a \<Rightarrow> seqC [wr (lpAlias pl'), wr ''.'', wr (acAlias a)] | None \<Rightarrow> failC AggNotInPlan)"
    if "blankPlan pl = blankPlan pl'" for pl pl'
    using blankPlan_found [OF that, of "aggAddr e"] blankPlan_same [OF that]
    by (cases "?find pl"; cases "?find pl'") (auto intro!: keepsText_intros)
  then show ?thesis
    unfolding compileAgg_def aggArgs_blank aggTargetChild_blank aggAddr_blank Some option.case
    by (intro keepsText_planned aggSub)
qed (simp add: compileAgg_def keepsText_failC)

lemma arrayExpr: "keepsText (compileArray go n es) (compileArray go' n (map blankR es))"
  unfolding compileArray_def by (intro keepsText_intros exprs)

lemma plain: "keepsText (compilePlain x) (compilePlain (blankE x))"
  by (cases x) (auto simp: compilePlain_def intro!: keepsText_intros)

lemma compiledExpr: "keepsText (compileExpr env go n e) (compileExpr (blankEnv env) go' n (blankR e))"
proof -
  have l: "keepsText (compileArgList go n (x # es)) (compileArgList go' n (blankR x # map blankR es))" for x es
    using argList [of n "x # es"] by simp
  have fmt: "keepsText (compileArgList go n (RPlain (StringLiteral f) # es)) (compileArgList go' n (RPlain (StringLiteral []) # map blankR es))" for f es
    using l [of "RPlain (StringLiteral f)"] by simp
  show ?thesis
  proof (cases "exposed e")
    case (RAgg addr ref fn es flt dist ord)
    then show ?thesis using agg by (simp add: compileExpr_def)
  next
    case (RBinary op a b)
    then show ?thesis using binary by (simp add: compileExpr_def del: if_split_asm)
  qed (auto simp: compileExpr_def split: option.split
      intro!: keepsText_intros plain field unary folded between inExpr anyAll l fmt argList objectLiteral
        shapeAsJson [of _ "RStar _ _ _", simplified] arrayExpr operand expr columnRead)
qed

lemma lateralJoin:
  "keepsText (compileLateralJoin env go q pa pl) (compileLateralJoin (blankEnv env) go' q pa (blankPlan pl))"
proof -
  have aggs: "list_all2 keepsText (map (\<lambda>a. seqC [compileAggFunctionCall go (acExpr a) q al, wr '' as '', wr (acAlias a)]) (lpAggs pl))
      (map (\<lambda>a. seqC [compileAggFunctionCall go' (acExpr a) q al, wr '' as '', wr (acAlias a)]) (lpAggs (blankPlan pl)))" for al
    by (auto simp: blankPlan_def comp_def intro!: keepsText_map keepsText_intros aggCall)
  have p: "lpHasArray (blankPlan pl) = lpHasArray pl" "lpAlias (blankPlan pl) = lpAlias pl" by (simp_all add: blankPlan_def)
  show ?thesis
    unfolding compileLateralJoin_def p
    by (rule onNode) (auto intro!: keepsText_intros aggs node)
qed

lemma distinctPart: "keepsText (compileDistinct go p nd) (compileDistinct go' p (blankNode nd))"
  unfolding compileDistinct_def by (auto intro!: keepsText_intros argList)

lemma projection: "keepsText (compileProjection env go p nd al) (compileProjection (blankEnv env) go' p (blankNode nd) al)"
proof -
  have "list_all2 keepsText (map (\<lambda>(k, v). seqC [compileSelectField env go p al v, wr '' as '', ident k]) fs)
      (map (\<lambda>(k, v). seqC [compileSelectField (blankEnv env) go' p al v, wr '' as '', ident k]) (map (\<lambda>(k, v). (k, blankValue v)) fs))" for fs
    by (auto simp: comp_def split_def intro!: keepsText_map keepsText_intros selectValue)
  then show ?thesis
    unfolding compileProjection_def Let_def by (auto simp: selectFieldsFor_blank intro!: keepsText_intros expr)
qed

lemma planned:
  "(\<And>ls. keepsText (f ls) (g (blankLaterals ls))) \<Longrightarrow>
   keepsText (planLaterals p nd qs ls f) (planLaterals p (blankNode nd) qs (blankLaterals ls) g)"
proof (induction qs arbitrary: ls)
  case (Cons q qs)
  have "blankLaterals (ls @ [(q, planOf p nd q al)]) = blankLaterals ls @ [(q, planOf p (blankNode nd) q al)]" for al
    by (simp add: blankLaterals_def planOf_blank)
  with Cons show ?case by (auto intro!: keepsText_allocAlias) metis
qed simp

lemma body: "list_all2 keepsText (nodeBody env go p nd al pa ls) (nodeBody (blankEnv env) go' p (blankNode nd) al pa (blankLaterals ls))"
proof -
  have "list_all2 keepsText
      (map (\<lambda>c. case map_of ls (p @ [souter c]) of None \<Rightarrow> seqC [] | Some pl \<Rightarrow> compileLateralJoin env go (p @ [souter c]) al pl) cs)
      (map (\<lambda>c. case map_of (blankLaterals ls) (p @ [souter c]) of
                  None \<Rightarrow> seqC [] | Some pl \<Rightarrow> compileLateralJoin (blankEnv env) go' (p @ [souter c]) al pl) (map blankNode cs))" for cs
    by (auto simp: comp_def blankLaterals_lookup split: option.split intro!: keepsText_map keepsText_intros lateralJoin)
  then show ?thesis
    unfolding nodeBody_def env_blank node_blank
    by (auto intro!: keepsText_intros fromPart wherePart distinctPart projection orderBy limitOffset)
qed

lemma correlated: "keepsText (compileNodeCorrelated env go p al pa) (compileNodeCorrelated (blankEnv env) go' p al pa)"
proof -
  have "keepsText (planLaterals p nd qs [] (\<lambda>ls. withLaterals (\<lambda>prev. seqC (setLaterals ls # nodeBody env go p nd al pa ls @ [setLaterals prev]))))
      (planLaterals p (blankNode nd) qs (blankLaterals [])
        (\<lambda>ls. withLaterals (\<lambda>prev. seqC (setLaterals ls # nodeBody (blankEnv env) go' p (blankNode nd) al pa ls @ [setLaterals prev]))))" for nd qs
    by (intro planned keepsText_withLaterals keepsText_intros keepsText_setLaterals body) (simp_all add: blankLaterals_idem)
  then show ?thesis
    unfolding compileNodeCorrelated_def by (intro onNode keepsText_intros) (simp add: sharedNodes_blank blankLaterals_def)
qed

lemma stepped: "keepsText (step env go w) (step (blankEnv env) go' (blankWork w))"
  by (cases w) (simp_all add: step_def compiledExpr resolved correlated)

end

text \<open>Every depth of calls keeps the relation.\<close>

lemma run_calls: "blank_calls (run k env) (run k (blankEnv env))"
proof (induction k)
  case 0
  show ?case by unfold_locales (simp add: keepsText_failC)
next
  case (Suc k)
  then show ?case by (intro blank_calls.intro) (simp add: blank_calls.stepped)
qed

interpretation compiled: blank_calls env "run k env" "run k (blankEnv env)" for env k
  by (rule run_calls)

lemma alike_new: "alike newSQLCompiler newSQLCompiler"
  by (simp add: alike_def)

lemma statement_blank:
  assumes "\<And>al. wrap al = wrap' al"
  shows "rel_sum (=) (\<lambda>w v. blankSlots w = blankSlots v) (statement k env wrap) (statement k (blankEnv env) wrap')"
proof -
  let ?cmds = "\<lambda>env wrap al. [wr ''select '', wr (wrap al), wr ('' from ('' @ [newline]), onWriter Indent, run k env (WNode [] al []), unindentC,
     wr ([newline] @ '') ''), wr al]"
  have "keepsText (allocAlias (\<lambda>al. seqC (?cmds env wrap al))) (allocAlias (\<lambda>al. seqC (?cmds (blankEnv env) wrap' al)))"
    unfolding assms by (intro keepsText_intros compiled.node)
  from keepsTextD [OF this alike_new] show ?thesis
    unfolding statement_def alikeR_def by (auto simp: alike_def split: sum.splits)
qed

lemma blankSlots_text: "blankSlots w = blankSlots v \<Longrightarrow> String w = String v \<and> map slotName (slots w) = map slotName (slots v)"
proof -
  assume "blankSlots w = blankSlots v"
  moreover have "map slotName (map (\<lambda>s. s\<lparr>slotValue := BNil\<rparr>) xs) = map slotName xs" for xs :: "bindValue sqlBindSlot list"
    by (simp add: comp_def)
  ultimately show ?thesis by (cases w; cases v) (metis (no_types, lifting) SQLWriter.select_convs SQLWriter.update_convs Writer.select_convs String_def blankSlots_def)
qed

lemma readEnv_blank: "blankEnv (readEnv db order cbor t) = readEnv db order cbor (blankNode t)"
  by (simp add: blankEnv_def readEnv_def)

text \<open>Two results of the compiler with the same text and the same named slots, or the same error.\<close>

definition sameText :: "sql_error + bindValue SQLWriter \<Rightarrow> sql_error + bindValue SQLWriter \<Rightarrow> bool" where
  "sameText x y =
     (case (x, y) of
        (Inl e, Inl f) \<Rightarrow> e = f
      | (Inr w, Inr v) \<Rightarrow> String w = String v \<and> map slotName (slots w) = map slotName (slots v)
      | _ \<Rightarrow> False)"

lemma sameText_blank: "rel_sum (=) (\<lambda>w v. blankSlots w = blankSlots v) x y \<Longrightarrow> sameText x y"
  by (cases x; cases y) (auto simp: sameText_def dest: blankSlots_text)

lemma sameText_via: "sameText x z \<Longrightarrow> sameText y z \<Longrightarrow> sameText x y"
  by (auto simp: sameText_def split: sum.splits)

lemma placeR_blank: "placeR p l (blankR e) = blankR (placeR p l e)"
proof (induction p l e rule: placeR.induct)
  case (4 p l op a b)
  then show ?case by (cases b) (auto simp: isPlain_def)
next
  case (15 p l own except ands)
  then show ?case by (cases ands) (auto intro!: mapi_cong)
qed (auto simp: option.map_comp comp_def intro!: mapi_cong option.map_cong)

lemma placeParts_blank: "placeParts p (blankParts ps) = blankParts (placeParts p ps)"
  by (simp add: placeParts_def blankParts_def option.map_comp comp_def placeR_blank case_prod_unfold)

lemma placeNode_blank: "placeNode p (blankNode t) = blankNode (placeNode p t)"
proof (induction t arbitrary: p)
  case (ShapedNode info parts sh out inc)
  have "niOuterAlias (snInfo (blankNode c)) = niOuterAlias (snInfo c)" for c
    by (cases c) (simp add: blankInfo_def)
  with ShapedNode show ?case by (simp add: placeParts_blank)
qed

lemma withPointers_blank: "withPointers (blankNode t) = blankNode (withPointers t)"
  by (simp add: withPointers_def placeNode_blank)

lemma CompileSelectFormat_blank:
  "sameText (CompileSelectFormat k db order cbor t) (CompileSelectFormat k db order cbor (blankNode t))"
proof (cases "scalarFunction (withPointers t)")
  case None
  then show ?thesis
    using statement_blank [of "wrapNodeAsValue (readEnv db order cbor (withPointers t)) (withPointers t)"
        "wrapNodeAsValue (blankEnv (readEnv db order cbor (withPointers t))) (blankNode (withPointers t))" k]
    by (auto simp: CompileSelectFormat_def Let_def withPointers_blank readEnv_blank [symmetric] intro!: sameText_blank)
next
  case (Some f)
  let ?t = "withPointers t" let ?env = "readEnv db order cbor ?t"
  have "keepsText (seqC [wr ''select '', wr (fnText f), compileFunctionArgs (run k ?env) None (rpArguments (snParts ?t)) (rpArgumentMap (snParts ?t))])
     (seqC [wr ''select '', wr (fnText f), compileFunctionArgs (run k (blankEnv ?env)) None (rpArguments (snParts (blankNode ?t)))
        (rpArgumentMap (snParts (blankNode ?t)))])"
    unfolding node_blank parts_blank by (intro keepsText_intros compiled.functionArgs)
  from keepsTextD [OF this alike_new] Some show ?thesis
    by (auto simp: CompileSelectFormat_def Let_def withPointers_blank readEnv_blank [symmetric] alikeR_def alike_def sameText_def
        dest: blankSlots_text split: sum.splits)
qed

lemma CompileCount_blank: "sameText (CompileCount k db order t) (CompileCount k db order (blankNode t))"
proof (cases "scalarFunction t")
  case None
  let ?env = "(readEnv db order False (withPointers t))\<lparr>seCount := True\<rparr>"
  have "blankEnv ?env = (readEnv db order False (withPointers (blankNode t)))\<lparr>seCount := True\<rparr>"
    by (simp add: blankEnv_def readEnv_def withPointers_blank)
  with None show ?thesis
    using statement_blank [of "\<lambda>_. ''count(*)''" "\<lambda>_. ''count(*)''" k ?env]
    by (auto simp: CompileCount_def intro!: sameText_blank)
qed (simp add: CompileCount_def sameText_def)

subsection \<open>Properties\<close>


text \<open>Requests that search customers by a name, which is data.\<close>

definition nameQuery :: "string \<Rightarrow> node" where
  "nameQuery name = NObject [(''relation'', NString ''customers''), (''alias'', NString ''c''),
     (''where'', NArray [NString ''='', NArray [NString ''.'', NString ''id''], NString name])]"

lemma nameQuery_resolves:
  "case parseRawRelation (nameQuery ''x'') of
     Inl _ \<Rightarrow> False
   | Inr raw \<Rightarrow>
       (case Resolve shopDb sampleConfig raw of
          Inl _ \<Rightarrow> False
        | Inr t \<Rightarrow>
            (case CompileSelectFormat 20 shopDb id False t of
               Inl _ \<Rightarrow> False
             | Inr w \<Rightarrow> sublist ''where (t1.id = $1)'' (String w) \<and> map slotValue (slots w) = [BString ''x'']))"
  by code_simp


end
