(* ===== verification/Sql_Limits.thy ===== *)
theory Sql_Limits
  imports Sql_Data
begin

text \<open>
  Where the compiler of \<open>query/sql.go\<close> and \<open>query/sql_expr.go\<close> reaches its limits: a node that embeds itself, prefix
  operators that run together, a postfix test that takes more than its operand, and the cast of a parameter, which is not
  checked.
\<close>

subsection \<open>A node that embeds itself\<close>

text \<open>Outside a lateral join, a command that goes on and one that runs out of stack.\<close>

definition goesOn :: "command \<Rightarrow> bool" where
  "goesOn x \<longleftrightarrow> (\<forall>c. scLaterals c = [] \<longrightarrow> (\<exists>d. x c = Inr d \<and> scLaterals d = []))"

definition overflows :: "command \<Rightarrow> bool" where
  "overflows x \<longleftrightarrow> (\<forall>c. scLaterals c = [] \<longrightarrow> x c = Inl OutOfStack)"

lemma overflows_seqC: "overflows x \<Longrightarrow> \<forall>y \<in> set ys. goesOn y \<Longrightarrow> overflows (seqC (ys @ x # zs))"
proof (induction ys)
  case (Cons y ys)
  then have ih: "overflows (seqC (ys @ x # zs))" and y: "goesOn y" by auto
  show ?case unfolding overflows_def
  proof (intro allI impI)
    fix c :: sqlCompiler assume "scLaterals c = []"
    with y obtain d where "y c = Inr d" "scLaterals d = []" by (auto simp: goesOn_def)
    with ih show "seqC ((y # ys) @ x # zs) c = Inl OutOfStack" by (simp add: seqC.simps overflows_def)
  qed
qed (simp add: overflows_def seqC.simps)

lemma goesOn_wr: "goesOn (wr s)"
  by (simp add: goesOn_def wr_def onWriter_def)

lemma goesOn_writer: "goesOn (onWriter f)"
  by (simp add: goesOn_def onWriter_def)

lemma goesOn_seqC: "\<forall>x \<in> set xs. goesOn x \<Longrightarrow> goesOn (seqC xs)"
proof (induction xs)
  case (Cons x xs)
  then have "goesOn x" "goesOn (seqC xs)" by auto
  then show ?case by (fastforce simp: goesOn_def seqC.simps)
qed (simp add: goesOn_def seqC.simps)

lemma overflows_allocAlias: "(\<And>al. overflows (f al)) \<Longrightarrow> overflows (allocAlias f)"
  by (simp add: overflows_def allocAlias_def)

locale self_embed =
  fixes env :: sqlEnv and info parts sh out key name
  assumes root: "seRoot env = ShapedNode info parts sh out []"
    and self: "rpSelect parts = RObject [(key, RIdentifier name (Some (NodeRef [])))]"
    and plain: "niFunction info = None" "rpDistinctOn parts = []"
    and reads: "\<not> seCount env" "sePlanOrder env [] = []"
begin

lemma projection_overflows:
  assumes "\<And>al pa. overflows (go (WNode [] al pa))"
  shows "overflows (compileProjection env go [] (seRoot env) al)"
proof -
  have "overflows (embedSubquery env go [] [] al)"
  proof -
    have p: "overflows (parenC [wr ''select '', x, wr ('' from ('' @ [newline]), indentedC [go (WNode [] al' al)], wr ([newline] @ '') ''), wr al'])"
      if "goesOn x" for x al'
    proof -
      have "overflows (seqC ([onWriter Indent] @ go (WNode [] al' al) # [unindentC]))"
        by (rule overflows_seqC [OF assms]) (simp add: goesOn_writer)
      then have "overflows (indentedC [go (WNode [] al' al)])" by (simp add: indentedC_def)
      from overflows_seqC [OF this, of "[wr ''('', wr ''select '', x, wr ('' from ('' @ [newline])]"] that show ?thesis
        by (simp add: parenC_def surroundC_def goesOn_wr)
    qed
    show ?thesis
      unfolding embedSubquery_def nodeC_def root snodeAt.simps option.case
      by (simp add: scalarFunction_def plain del: append.simps append_Cons) (intro conjI impI overflows_allocAlias p; simp add: goesOn_wr goesOn_seqC)
  qed
  then have "overflows (compileSelectField env go [] al (SExpr (RIdentifier name (Some (NodeRef [])))))"
    by (simp add: compileSelectField_def embedChildOf_def bareResolvedField_def compileEmbedField_def withLaterals_def overflows_def)
  from overflows_seqC [OF this, of "[]"] have "overflows (seqC [compileSelectField env go [] al (SExpr (RIdentifier name (Some (NodeRef [])))), wr '' as '', ident key])"
    by simp
  from overflows_seqC [OF this, of "[]" "[]"] show ?thesis
    by (simp add: compileProjection_def root self isShapeProducingSelect_def selectFieldsFor_def addAnd_def)
qed

lemma node_overflows: "run k env (WNode [] al pa) c = Inl OutOfStack"
proof (induction k arbitrary: al pa c)
  case 0
  show ?case by (simp add: failC_def)
next
  case (Suc k)
  have "overflows (run k env (WNode [] al' pa'))" for al' pa' using Suc.IH by (simp add: overflows_def)
  then have p: "overflows (compileProjection env (run k env) [] (seRoot env) al)" by (rule projection_overflows)
  have d: "goesOn (compileDistinct (run k env) [] (seRoot env))"
    by (simp add: compileDistinct_def root plain goesOn_wr goesOn_seqC)
  have "overflows (seqC (nodeBody env (run k env) [] (seRoot env) al pa [] @ [setLaterals prev]))" for prev
    unfolding nodeBody_def using overflows_seqC [OF p, of "[wr ''select '', compileDistinct (run k env) [] (seRoot env)]"] reads(1) d
    by (simp add: goesOn_wr)
  then have "seqC (setLaterals [] # nodeBody env (run k env) [] (seRoot env) al pa [] @ [setLaterals prev]) d' = Inl OutOfStack" for prev d'
    by (simp add: seqC.simps setLaterals_def overflows_def)
  then show ?case
    using root reads(2)
    by (simp add: step_def compileNodeCorrelated_def nodeC_def sharedNodes_def seqC.simps setAlias_def withLaterals_def)
qed

end

definition selfQuery :: node where
  "selfQuery = NObject [(''relation'', NString ''customers''), (''alias'', NString ''c''),
     (''select'', NObject [(''me'', NArray [NString ''.'', NString ''c''])])]"

definition selfTree :: shapedNode where
  "selfTree = (case bindR (mapErr (\<lambda>_. NilPointer) (parseRawRelation selfQuery)) (Resolve shopDb sampleConfig) of Inr t \<Rightarrow> t | Inl _ \<Rightarrow> undefined)"

lemma selfTree_shape:
  "case bindR (mapErr (\<lambda>_. NilPointer) (parseRawRelation selfQuery)) (Resolve shopDb sampleConfig) of
     Inl _ \<Rightarrow> False
   | Inr t \<Rightarrow> snIncoming t = [] \<and> niFunction (snInfo t) = None \<and> rpDistinctOn (snParts t) = [] \<and>
       rpSelect (snParts t) = RObject [(''me'', RIdentifier ''c'' (Some (NodeRef [])))]"
  by code_simp

lemma selfTree_parts:
  "snIncoming selfTree = []" "niFunction (snInfo selfTree) = None" "rpDistinctOn (snParts selfTree) = []"
  "rpSelect (snParts selfTree) = RObject [(''me'', RIdentifier ''c'' (Some (NodeRef [])))]"
  using selfTree_shape by (auto simp: selfTree_def split: sum.splits)

lemma selfTree_placed: "rpSelect (snParts (withPointers selfTree)) = RObject [(''me'', RIdentifier ''c'' (Some (NodeRef [])))]"
  "rpDistinctOn (snParts (withPointers selfTree)) = []" "snInfo (withPointers selfTree) = snInfo selfTree"
  "snIncoming (withPointers selfTree) = []"
  by (simp_all add: withPointers_def placeParts_def selfTree_parts)

interpretation self_query: self_embed "readEnv shopDb id cbor (withPointers selfTree)" "snInfo selfTree"
  "snParts (withPointers selfTree)" "snShape (withPointers selfTree)" "snOutgoing (withPointers selfTree)" "''me''" "''c''" for cbor
  using selfTree_placed selfTree_parts shapedNode.collapse [of "withPointers selfTree"] by unfold_locales (simp_all add: readEnv_def)

subsection \<open>Properties\<close>


subsection \<open>Requests on the sample catalog\<close>

text \<open>The statement a request without parameters gets, with the arguments that are sent along.\<close>

definition requestText :: "node \<Rightarrow> (string \<times> bindValue list) option" where
  "requestText q =
     (case bindR (mapErr (\<lambda>_. NilPointer) (parseRawRelation q)) (Resolve shopDb sampleConfig) of
        Inl _ \<Rightarrow> None
      | Inr t \<Rightarrow>
          (case CompileSelectFormat 20 shopDb id False t of
             Inl _ \<Rightarrow> None
           | Inr w \<Rightarrow> (case ResolveArgs [] w of Inl _ \<Rightarrow> None | Inr vs \<Rightarrow> Some (String w, vs))))"

text \<open>The statement that answers one expression for every customer that passes a test.\<close>

definition scalarText :: "string \<Rightarrow> string \<Rightarrow> string" where
  "scalarText sel rest =
     ''select t1.__scalar from ('' @ [newline] @ ''  select to_jsonb('' @ sel @ '') as __scalar from '' @ [dquote] @ ''public'' @
     [dquote] @ ''.'' @ [dquote] @ ''customers'' @ [dquote] @ '' t1'' @ rest @ [newline] @ '') t1''"

definition scalarQuery :: "node \<Rightarrow> node option \<Rightarrow> node" where
  "scalarQuery sel cond =
     NObject ([(''relation'', NString ''customers''), (''select'', sel)] @
       (case cond of None \<Rightarrow> [] | Some c \<Rightarrow> [(''where'', c)]))"

definition idNode :: node where "idNode = NArray [NString ''.'', NString ''id'']"

subsection \<open>Operators written next to each other\<close>

text \<open>\<open>compileOperand\<close> puts parentheses around binary and folded operators only.  So two minus signs meet, which begins a
  comment of SQL, and a test written after its operand takes in the comparison before it, because \<open>is null\<close> binds weaker than
  \<open>=\<close>.\<close>

lemma minus_signs_meet:
  "requestText (scalarQuery (NArray [NString ''-'', NArray [NString ''-'', idNode]]) None) = Some (scalarText ''--t1.id'' [], [])"
  by code_simp

lemma test_takes_comparison:
  "requestText (scalarQuery idNode (Some (NArray [NString ''='', idNode, NArray [NString ''is_null'', idNode]]))) =
     Some (scalarText ''t1.id'' '' where (t1.id = t1.id is null)'', [])"
  by code_simp

subsection \<open>The cast of a parameter\<close>

text \<open>The cast of \<open>$param\<close> is written as the request gives it, without the check other casts pass, and a parameter with an
  empty name needs no value.  So a request without parameters can put any text into its statement: here the test on the rows
  is closed and another one that always holds is added.\<close>

lemma param_cast_is_text:
  "requestText (scalarQuery idNode
       (Some (NArray [NString ''='', idNode, NArray [NString ''$param'', NString [], NString ''int) or (true'']]))) =
     Some (scalarText ''t1.id'' '' where (t1.id = $1::int) or (true)'', [BNil])"
  by code_simp

end
